(* ===== verification/Hthreads_Prelude.thy ===== *)
theory Hthreads_Prelude
  imports Main "HOL-Library.Word"
begin

text \<open>
  Shared vocabulary of the development: the machine types of
  \<^verbatim>\<open>include/hthread/httype.h\<close>, the status constants of
  \<^verbatim>\<open>include/hthread/htconst.h\<close>, the collections of rewrite rules the component
  proofs use, and generic facts about linked chains in an address-indexed store
  and about bit fields of words.
\<close>

unbundle bit_operations_syntax

section \<open>Machine types and status values\<close>

type_synonym Huint = "32 word"
type_synonym Hint = "32 word"
type_synonym tid = "8 word"
type_synonym mid = "6 word"
type_synonym cvid = "8 word"
type_synonym pri = "7 word"

text \<open>
  \<^verbatim>\<open>Hint\<close> is a signed 32-bit integer. The library only compares status values and
  passes them through, so both signednesses are the same 32 bits here; comparisons
  with an order are written with \<open>sint\<close> where the source compares signed values.
\<close>

definition SUCCESS :: Hint where "SUCCESS = 0"

definition FAILURE :: Hint where "FAILURE = -1"

text \<open>The error numbers come from the C library's \<^verbatim>\<open>errno.h\<close> (newlib).\<close>

definition EAGAIN :: Hint where "EAGAIN = 11"

definition ENOMEM :: Hint where "ENOMEM = 12"

definition EBUSY :: Hint where "EBUSY = 16"

definition EINVAL :: Hint where "EINVAL = 22"

definition ENOTSUP :: Hint where "ENOTSUP = 134"

definition HT_ALREADY_EXITED :: Huint where "HT_ALREADY_EXITED = 1"

definition Hfalse :: Huint where "Hfalse = 0"

definition Htrue :: Huint where "Htrue = 1"

section \<open>Linked chains in a store\<close>

text \<open>
  \<open>linked f ws\<close>: following \<open>f\<close> from the head of \<open>ws\<close> visits \<open>ws\<close> in order.
  The value stored at the last element is left open; each core has its own convention
  for it.
\<close>

fun linked :: "('a \<Rightarrow> 'a) \<Rightarrow> 'a list \<Rightarrow> bool" where
  "linked f [] = True"
| "linked f [x] = True"
| "linked f (x # y # zs) = (f x = y \<and> linked f (y # zs))"

text \<open>\<open>chain f x n\<close>: the first \<open>n\<close> elements met when following \<open>f\<close> from \<open>x\<close>.\<close>

primrec chain :: "('a \<Rightarrow> 'a) \<Rightarrow> 'a \<Rightarrow> nat \<Rightarrow> 'a list" where
  "chain f x 0 = []"
| "chain f x (Suc n) = x # chain f (f x) n"

section \<open>Collections of facts\<close>

named_theorems status_defs \<open>status constants and result codes\<close>
named_theorems core_defs \<open>unfolding rules of the hardware cores\<close>
named_theorems cmd_defs \<open>unfolding rules of the command encodings\<close>

lemmas status_values [status_defs] =
  SUCCESS_def FAILURE_def EAGAIN_def ENOMEM_def EBUSY_def EINVAL_def ENOTSUP_def
  HT_ALREADY_EXITED_def Hfalse_def Htrue_def

section \<open>Facts about chains\<close>

lemma linked_tl: "linked f (x # ws) \<Longrightarrow> linked f ws"
  by (cases ws) auto

lemma linked_Cons: "ws \<noteq> [] \<Longrightarrow> linked f (x # ws) \<longleftrightarrow> f x = hd ws \<and> linked f ws"
  by (cases ws) auto

lemma linked_cong: "(\<And>x. x \<in> set (butlast ws) \<Longrightarrow> f x = g x) \<Longrightarrow> linked f ws = linked g ws"
proof (induction ws)
  case Nil
  then show ?case by simp
next
  case (Cons a ws)
  then show ?case by (cases ws) auto
qed

lemma linked_cong_set: "(\<And>x. x \<in> set ws \<Longrightarrow> f x = g x) \<Longrightarrow> linked f ws = linked g ws"
  by (rule linked_cong) (auto dest: in_set_butlastD)

lemma linked_upd_notin [simp]: "t \<notin> set ws \<Longrightarrow> linked (f(t := v)) ws = linked f ws"
  by (rule linked_cong) (auto dest: in_set_butlastD)

lemma linked_upd_last: "distinct ws \<Longrightarrow> linked (f(last ws := v)) ws = linked f ws"
proof (cases ws rule: rev_cases)
  case (snoc ys y)
  moreover assume "distinct ws"
  ultimately show ?thesis by (intro linked_cong) auto
qed simp

lemma linked_append1: "linked f (ws @ [t]) \<longleftrightarrow> linked f ws \<and> (ws \<noteq> [] \<longrightarrow> f (last ws) = t)"
proof (induction ws)
  case Nil
  then show ?case by simp
next
  case (Cons a ws)
  then show ?case by (cases ws) auto
qed

lemma linked_snoc:
  "ws \<noteq> [] \<Longrightarrow> distinct ws \<Longrightarrow> linked f ws \<Longrightarrow> linked (f(last ws := t)) (ws @ [t])"
  by (simp add: linked_append1 linked_upd_last)

lemma linked_snoc_fresh:
  assumes "ws \<noteq> []" and "distinct ws" and "linked f ws" and "t \<notin> set ws"
  shows "linked (f(last ws := t, t := v)) (ws @ [t])"
proof -
  have "last ws \<noteq> t" using assms(1,4) by (metis last_in_set)
  then show ?thesis using assms by (simp add: linked_append1 linked_upd_last)
qed

lemma linked_chain: "linked f ws \<Longrightarrow> ws \<noteq> [] \<Longrightarrow> chain f (hd ws) (length ws) = ws"
proof (induction ws)
  case Nil
  then show ?case by simp
next
  case (Cons a ws)
  then show ?case by (cases ws) auto
qed

lemma length_chain [simp]: "length (chain f x n) = n"
  by (induction n arbitrary: x) auto

lemma butlast_neq_last: "distinct ws \<Longrightarrow> u \<in> set (butlast ws) \<Longrightarrow> u \<noteq> last ws"
  by (cases ws rule: rev_cases) auto

lemma notin_ends: "ws \<noteq> [] \<Longrightarrow> w \<notin> set ws \<Longrightarrow> hd ws \<noteq> w \<and> last ws \<noteq> w"
  by (metis hd_in_set last_in_set)

section \<open>Facts about words\<close>

lemma word8_distinct_length: "distinct (ws :: tid list) \<Longrightarrow> length ws \<le> 256"
proof -
  assume "distinct ws"
  then have "length ws = card (set ws)" by (simp add: distinct_card)
  also have "\<dots> \<le> card (UNIV :: tid set)" by (rule card_mono) auto
  also have "\<dots> = 256" by (simp add: card_word)
  finally show ?thesis .
qed

lemma distinct_length_lt:
  "distinct (ws :: tid list) \<Longrightarrow> t \<notin> set ws \<Longrightarrow> length ws < 256"
  using word8_distinct_length [of "t # ws"] by simp

lemma unat_bound: "unat (x :: 'a::len word) < 2 ^ LENGTH('a)"
  by (rule unsigned_less)

lemma uint_ucast_widen:
  "LENGTH('a) \<le> LENGTH('b) \<Longrightarrow> uint (ucast (x :: 'a::len word) :: 'b::len word) = uint x"
  by (simp add: uint_up_ucast is_up)

lemma ucast_widen_eq_iff:
  "LENGTH('a) \<le> LENGTH('b) \<Longrightarrow>
   (ucast (x :: 'a::len word) :: 'b::len word) = ucast y \<longleftrightarrow> x = y"
  by (simp add: word_uint_eq_iff uint_ucast_widen)

lemma ucast_widen_eq_0:
  "LENGTH('a) \<le> LENGTH('b) \<Longrightarrow> (ucast (x :: 'a::len word) :: 'b::len word) = 0 \<longleftrightarrow> x = 0"
  by (simp add: word_uint_eq_iff uint_ucast_widen)

lemma ucast_widen_eq_1:
  "LENGTH('a) \<le> LENGTH('b) \<Longrightarrow> (ucast (x :: 'a::len word) :: 'b::len word) = 1 \<longleftrightarrow> x = 1"
  by (simp add: word_uint_eq_iff uint_ucast_widen)

lemmas ucast_widen = ucast_widen_eq_iff ucast_widen_eq_0 ucast_widen_eq_1

text \<open>A signed value is negative when its highest bit is set.\<close>

lemma sint_nonneg_iff: "0 \<le> sint (w :: Hint) \<longleftrightarrow> unat w < 2 ^ 31"
proof -
  have "0 \<le> sint w \<longleftrightarrow> \<not> bit w 31" by (simp add: sint_uint bit_uint_iff flip: not_less)
  moreover have "bit w 31 \<longleftrightarrow> odd (unat w div 2 ^ 31)" using bit_iff_odd [of "unat w" 31] by (simp add: bit_unsigned_iff)
  moreover have "unat w div 2 ^ 31 < 2" using unsigned_less [of w] by (intro less_mult_imp_div_less) simp
  ultimately show ?thesis by (cases "unat w div 2 ^ 31") (auto simp: div_eq_0_iff)
qed

lemma sint_of_nat_small: "n < 2 ^ 31 \<Longrightarrow> sint (of_nat n :: Hint) = int n"
  by (simp add: sint_uint uint_nat unat_of_nat signed_take_bit_int_eq_self_iff)

end
