(* ===== verification/Wait_Queues.thy ===== *)
theory Wait_Queues
  imports Hthreads_Prelude
begin

text \<open>
  The contract of a bank of FIFO thread queues kept by a hardware core. The mutex core
  (one queue per mutex, the head being the owner), the condition variable core (one
  queue per condition variable) and the ready queue of the scheduler (one queue per
  priority) all keep such a bank as linked lists in block RAM. A core provides
  \<open>enq\<close> and \<open>deq\<close>; \<open>repr s q\<close> relates its state to the queues as lists.
  \<open>wt\<close> selects the part of a queue that is stored in the shared link memory: a thread
  may be in that part of one queue only. \<open>may\<close> says which threads may enter a queue (the
  condition variable core counts waiting threads in eight bits and so relies on one of
  the 256 threads, the idle thread, never waiting).
\<close>

primrec drain :: "('k \<Rightarrow> 's \<Rightarrow> tid option \<times> 's) \<Rightarrow> 'k \<Rightarrow> nat \<Rightarrow> 's \<Rightarrow> tid list \<times> 's" where
  "drain deq k 0 s = ([], s)"
| "drain deq k (Suc n) s =
     (case deq k s of
        (None, s') \<Rightarrow> ([], s')
      | (Some t, s') \<Rightarrow> (case drain deq k n s' of (ts, s'') \<Rightarrow> (t # ts, s'')))"

locale wait_queues =
  fixes repr :: "'s \<Rightarrow> ('k \<Rightarrow> tid list) \<Rightarrow> bool"
    and enq :: "'k \<Rightarrow> tid \<Rightarrow> 's \<Rightarrow> 's"
    and deq :: "'k \<Rightarrow> 's \<Rightarrow> tid option \<times> 's"
    and wt :: "tid list \<Rightarrow> tid list"
    and may :: "tid \<Rightarrow> bool"
  assumes repr_once: "repr s q \<Longrightarrow> distinct (q k)"
    and repr_disjoint: "repr s q \<Longrightarrow> k \<noteq> l \<Longrightarrow> set (wt (q k)) \<inter> set (wt (q l)) = {}"
    and wt_snoc: "set (wt (xs @ [t])) \<subseteq> insert t (set (wt xs))"
    and enq_law: "repr s q \<Longrightarrow> may t \<Longrightarrow> t \<notin> set (q k) \<Longrightarrow> (\<And>l. t \<notin> set (wt (q l))) \<Longrightarrow>
      repr (enq k t s) (q(k := q k @ [t]))"
    and deq_Nil: "repr s q \<Longrightarrow> q k = [] \<Longrightarrow> fst (deq k s) = None \<and> repr (snd (deq k s)) q"
    and deq_Cons: "repr s q \<Longrightarrow> q k = t # ts \<Longrightarrow>
      fst (deq k s) = Some t \<and> repr (snd (deq k s)) (q(k := ts))"
begin

lemma enq_all:
  "repr s q \<Longrightarrow> distinct ts \<Longrightarrow> (\<And>t. t \<in> set ts \<Longrightarrow> may t) \<Longrightarrow> set ts \<inter> set (q k) = {} \<Longrightarrow>
   (\<And>l. set ts \<inter> set (wt (q l)) = {}) \<Longrightarrow>
   repr (fold (enq k) ts s) (q(k := q k @ ts))"
proof (induction ts arbitrary: s q)
  case Nil
  then show ?case by simp
next
  case (Cons t ts)
  let ?q = "q(k := q k @ [t])"
  have "repr (enq k t s) ?q"
    using Cons.prems by (intro enq_law) auto
  moreover have "set ts \<inter> set (wt (?q l)) = {}" for l
    using Cons.prems(2) Cons.prems(5) [of l] wt_snoc [of "q k" t] by (auto split: if_splits)
  ultimately have "repr (fold (enq k) ts (enq k t s)) (?q(k := ?q k @ ts))"
    using Cons.prems Cons.IH [of "enq k t s" ?q] by (simp add: fun_upd_def cong: if_cong)
  then show ?case by (simp add: fun_upd_def cong: if_cong)
qed

lemma drain_all:
  "repr s q \<Longrightarrow> q k = ts @ us \<Longrightarrow>
   fst (drain deq k (length ts) s) = ts \<and> repr (snd (drain deq k (length ts) s)) (q(k := us))"
proof (induction ts arbitrary: s q)
  case Nil
  then have "q(k := us) = q" by auto
  with Nil show ?case by simp
next
  case (Cons t ts)
  obtain r s' where d: "deq k s = (r, s')" by fastforce
  with deq_Cons [of s q k t "ts @ us"] Cons.prems
  have r: "r = Some t" and s': "repr s' (q(k := ts @ us))" by auto
  from Cons.IH [OF s'] have "fst (drain deq k (length ts) s') = ts \<and>
      repr (snd (drain deq k (length ts) s')) (q(k := us))"
    by (simp add: fun_upd_def cong: if_cong)
  with d r show ?case by (auto simp: fun_upd_def split: prod.splits)
qed

text \<open>Threads leave a queue in the order in which they entered it.\<close>

lemma fifo:
  assumes "repr s q" and "distinct ts" and "\<And>t. t \<in> set ts \<Longrightarrow> may t"
    and "set ts \<inter> set (q k) = {}"
    and "\<And>l. set ts \<inter> set (wt (q l)) = {}"
  shows "fst (drain deq k (length (q k @ ts)) (fold (enq k) ts s)) = q k @ ts"
proof -
  have "repr (fold (enq k) ts s) (q(k := q k @ ts))"
    using assms by (rule enq_all)
  then show ?thesis
    using drain_all [of "fold (enq k) ts s" "q(k := q k @ ts)" k "q k @ ts" "[]"] by simp
qed

text \<open>Draining more than the queue holds gives nothing more.\<close>

lemma drain_exhausted:
  assumes "repr s q" and "q k = ts"
  shows "fst (drain deq k (length ts + n) s) = ts"
  using assms
proof (induction ts arbitrary: s q)
  case Nil
  then show ?case
    using deq_Nil [of s q k] by (cases n) (auto split: prod.splits)
next
  case (Cons t ts)
  obtain r s' where d: "deq k s = (r, s')" by fastforce
  with deq_Cons [of s q k t ts] Cons.prems
  have r: "r = Some t" and s': "repr s' (q(k := ts))" by auto
  from Cons.IH [OF s'] d r show ?case by (auto split: prod.splits)
qed

end

end
