(* ===== verification/Scheduler.thy ===== *)
theory Scheduler
  imports Wait_Queues
begin

text \<open>
  The scheduler core (\<^verbatim>\<open>axi_scheduler\<close>: \<^verbatim>\<open>user_logic.vhd\<close> and the priority encoder
  \<^verbatim>\<open>parallel.vhd\<close>). The ready queue is a doubly linked FIFO list per priority (0 is the
  best priority) in the two block RAMs \<^verbatim>\<open>THREAD_DATA\<close> and \<^verbatim>\<open>PRIORITY_DATA\<close>, with a 128-bit
  vector of the non-empty priorities, whose first set bit a two-level encoder finds. Each
  function takes one request of the master state machine from \<^verbatim>\<open>idle\<close> back to \<^verbatim>\<open>idle\<close>.
  The lemmas relate the linked lists to one list of threads per priority.
\<close>

section \<open>State of the core\<close>

record thread_data =
  queue_bit :: bool
  next_ptr :: tid
  priority :: pri
  prev_ptr :: tid

record pri_data =
  head_ptr :: tid
  tail_ptr :: tid

record sched =
  thread_ram :: "tid \<Rightarrow> thread_data"
  pri_ram :: "pri \<Rightarrow> pri_data"
  param_ram :: "tid \<Rightarrow> Huint"
  encoder_input :: "pri \<Rightarrow> bool"
  encoder_output :: pri
  next_id :: tid
  next_valid :: bool
  idle_id :: tid
  idle_valid :: bool
  preempt_enable :: bool
  malloc_mutex :: bool
  malloc_holder :: tid
  malloc_count :: "4 word"

definition sched_reset :: sched where
  "sched_reset =
     \<lparr>thread_ram = (\<lambda>_. \<lparr>queue_bit = False, next_ptr = 0, priority = 64, prev_ptr = 0\<rparr>),
      pri_ram = (\<lambda>_. \<lparr>head_ptr = 0, tail_ptr = 0\<rparr>), param_ram = (\<lambda>_. 0),
      encoder_input = (\<lambda>_. False), encoder_output = 0, next_id = 0, next_valid = False,
      idle_id = 0, idle_valid = False, preempt_enable = False,
      malloc_mutex = False, malloc_holder = 0xFF, malloc_count = 0\<rparr>"

section \<open>The priority encoder\<close>

text \<open>
  \<^verbatim>\<open>priority_encoder\<close> scans a chunk from its last bit to its first, each set bit overwriting
  the output; \<^verbatim>\<open>find_best_logic\<close> scans the four chunks of 32 bits in the same way.
\<close>

definition priority_encoder :: "(nat \<Rightarrow> bool) \<Rightarrow> nat" where
  "priority_encoder pri_in = fold (\<lambda>i pri_out. if pri_in i then i else pri_out) (rev [0..<32]) 0"

definition bit_range :: "(pri \<Rightarrow> bool) \<Rightarrow> nat \<Rightarrow> nat \<Rightarrow> bool" where
  "bit_range input i = (\<lambda>j. input (of_nat (32 * i + j)))"

definition find_best :: "(pri \<Rightarrow> bool) \<Rightarrow> pri \<Rightarrow> pri" where
  "find_best input best =
     fold (\<lambda>i best. if list_ex (bit_range input i) [0..<32]
                    then of_nat (32 * i + priority_encoder (bit_range input i)) else best)
          (rev [0..<4]) best"

definition encoder_empty :: "(pri \<Rightarrow> bool) \<Rightarrow> bool" where
  "encoder_empty input \<longleftrightarrow> (\<forall>i < (128 :: nat). \<not> input (of_nat i))"

section \<open>Requests\<close>

text \<open>The range of scheduling parameters below 128 is the priority of a software thread.\<close>

definition sw_range :: "Huint \<Rightarrow> bool" where
  "sw_range p \<longleftrightarrow> drop_bit 7 p = 0"

text \<open>
  Appending thread \<open>t\<close> with the entry \<open>e\<close> to the queue of priority \<open>p\<close>, whose entry is
  \<open>pe\<close>: the last states of \<^verbatim>\<open>ENQ\<close> and of \<^verbatim>\<open>SET_SCHED_PARAM\<close>.
\<close>

definition sch_link :: "tid \<Rightarrow> pri \<Rightarrow> thread_data \<Rightarrow> pri_data \<Rightarrow> sched \<Rightarrow> sched" where
  "sch_link t p e pe s =
     (if \<not> encoder_input s p then
        s\<lparr>encoder_input := (encoder_input s)(p := True),
          thread_ram := (thread_ram s)(t := e),
          pri_ram := (pri_ram s)(p := pe\<lparr>head_ptr := t, tail_ptr := t\<rparr>)\<rparr>
      else
        s\<lparr>thread_ram := (thread_ram s)
            (tail_ptr pe := (thread_ram s (tail_ptr pe))\<lparr>next_ptr := t\<rparr>,
             t := e\<lparr>prev_ptr := tail_ptr pe\<rparr>),
          pri_ram := (pri_ram s)(p := pe\<lparr>tail_ptr := t\<rparr>)\<rparr>)"

definition run_encoder :: "sched \<Rightarrow> sched" where
  "run_encoder s = s\<lparr>encoder_output := find_best (encoder_input s) (encoder_output s)\<rparr>"

text \<open>
  \<^verbatim>\<open>ENQ\<close>: returns the status for the thread manager, the address written to start a
  hardware thread (if its parameter is one), and the preemption interrupt line.
\<close>

definition sch_enqueue :: "tid \<Rightarrow> tid \<Rightarrow> sched \<Rightarrow> 8 word \<times> Huint option \<times> bool \<times> sched" where
  "sch_enqueue cur t s =
     (if \<not> sw_range (param_ram s t) then (0, Some (param_ram s t), False, s)
      else
        let e = (thread_ram s t)\<lparr>queue_bit := True\<rparr>;
            p = priority e;
            s1 = sch_link t p e (pri_ram s p) s;
            s2 = (if encoder_input s p then s1 else run_encoder s1);
            best = encoder_output s2
        in (0x80, None, best < priority (thread_ram s2 cur) \<and> preempt_enable s2,
            s2\<lparr>next_id := head_ptr (pri_ram s2 best), next_valid := True\<rparr>))"

text \<open>\<^verbatim>\<open>DEQ\<close>: takes the current thread of the processor out of its queue.\<close>

definition deq_pick :: "sched \<Rightarrow> sched" where
  "deq_pick s =
     (if encoder_empty (encoder_input s) then
        (if idle_valid s then s\<lparr>next_valid := True, next_id := idle_id s\<rparr>
         else s\<lparr>next_valid := False\<rparr>)
      else s\<lparr>next_valid := True, next_id := head_ptr (pri_ram s (encoder_output s))\<rparr>)"

definition sch_dequeue :: "tid \<Rightarrow> sched \<Rightarrow> 8 word \<times> sched" where
  "sch_dequeue cur s =
     (let e = (thread_ram s cur)\<lparr>queue_bit := False\<rparr>;
          p = priority e;
          pe = pri_ram s p
      in if head_ptr pe = tail_ptr pe then
           (0, deq_pick (run_encoder (s\<lparr>encoder_input := (encoder_input s)(p := False),
                 thread_ram := (thread_ram s)(cur := e)\<rparr>)))
         else
           (0, deq_pick (s\<lparr>pri_ram := (pri_ram s)
                   (p := pe\<lparr>head_ptr := next_ptr (thread_ram s (head_ptr pe))\<rparr>),
                 thread_ram := (thread_ram s)(cur := e)\<rparr>)))"

definition sch_is_queued :: "tid \<Rightarrow> sched \<Rightarrow> 8 word" where
  "sch_is_queued t s = (if queue_bit (thread_ram s t) then 1 else 0)"

definition sch_is_empty :: "sched \<Rightarrow> 8 word" where
  "sch_is_empty s = (if encoder_empty (encoder_input s) then 1 else 0)"

text \<open>
  \<^verbatim>\<open>SET_SCHED_PARAM\<close>. A queued thread is taken out of the queue of its old priority (the
  only one, the head, the tail or a thread in the middle) and appended to the queue of its
  new priority; the entry of the new queue is the one read before the removal.
\<close>

definition requeue_out :: "tid \<Rightarrow> sched \<Rightarrow> sched" where
  "requeue_out t s =
     (let e = thread_ram s t; p = priority e; pe = pri_ram s p in
      if tail_ptr pe = head_ptr pe then s\<lparr>encoder_input := (encoder_input s)(p := False)\<rparr>
      else if t = head_ptr pe then
        s\<lparr>pri_ram := (pri_ram s)(p := pe\<lparr>head_ptr := next_ptr (thread_ram s (head_ptr pe))\<rparr>)\<rparr>
      else if t = tail_ptr pe then
        s\<lparr>pri_ram := (pri_ram s)(p := pe\<lparr>tail_ptr := prev_ptr (thread_ram s (tail_ptr pe))\<rparr>)\<rparr>
      else
        s\<lparr>thread_ram := (thread_ram s)
           (prev_ptr e := (thread_ram s (prev_ptr e))\<lparr>next_ptr := next_ptr e\<rparr>)\<rparr>)"

definition pick_next :: "sched \<Rightarrow> sched" where
  "pick_next s =
     s\<lparr>next_id := if encoder_empty (encoder_input s) \<and> idle_valid s then idle_id s
                 else head_ptr (pri_ram s (encoder_output s))\<rparr>"

text \<open>A thread may set its own priority and that of its children.\<close>

definition may_set_param :: "tid \<Rightarrow> bool \<Rightarrow> tid \<Rightarrow> tid \<Rightarrow> bool" where
  "may_set_param cur used parent t \<longleftrightarrow> used \<and> (t = cur \<or> parent = cur)"

definition sch_set_schedparam ::
  "tid \<Rightarrow> bool \<Rightarrow> tid \<Rightarrow> tid \<Rightarrow> Huint \<Rightarrow> sched \<Rightarrow> bool \<times> sched" where
  "sch_set_schedparam cur used parent t v s =
     (let s0 = s\<lparr>param_ram := (param_ram s)(t := v)\<rparr>;
          n = (ucast v :: pri);
          e = thread_ram s t in
      if \<not> sw_range v then (False, s0)
      else if \<not> may_set_param cur used parent t then (False, s0)
      else
        let s1 = (if queue_bit e
                  then run_encoder
                         (sch_link t n (e\<lparr>priority := n\<rparr>) (pri_ram s0 n) (requeue_out t s0))
                  else s0\<lparr>thread_ram := (thread_ram s0)(t := e\<lparr>priority := n\<rparr>)\<rparr>)
        in (encoder_output s1 < priority (thread_ram s1 cur) \<and> preempt_enable s1, pick_next s1))"

definition sch_get_schedparam :: "tid \<Rightarrow> sched \<Rightarrow> Huint" where
  "sch_get_schedparam t s = param_ram s t"

definition sch_check_schedparam :: "tid \<Rightarrow> sched \<Rightarrow> Huint" where
  "sch_check_schedparam t s =
     (if queue_bit (thread_ram s t) \<and> \<not> sw_range (param_ram s t) then 1 else 0)"

definition sch_set_idle :: "bool \<Rightarrow> tid \<Rightarrow> sched \<Rightarrow> Huint \<times> sched" where
  "sch_set_idle used t s =
     (if \<not> queue_bit (thread_ram s t) \<and> used \<and> sw_range (param_ram s t) then
        (0, let s1 = s\<lparr>idle_id := t, idle_valid := True\<rparr> in
            if \<not> next_valid s1 then s1\<lparr>next_valid := True, next_id := idle_id s1\<rparr> else s1)
      else (1, s))"

definition sch_get_idle :: "sched \<Rightarrow> Huint" where
  "sch_get_idle s = push_bit 1 (ucast (idle_id s)) OR (if idle_valid s then 1 else 0)"

definition sch_toggle_preemption :: "Huint \<Rightarrow> sched \<Rightarrow> sched" where
  "sch_toggle_preemption d s = s\<lparr>preempt_enable := bit d 31\<rparr>"

text \<open>
  \<^verbatim>\<open>MALLOC_LOCK\<close>: the recursive lock of the memory allocator, acquired with \<open>lock_op\<close> set
  and released with it clear. The answer has the count, the holder and, in its last bit,
  whether the caller holds the lock.
\<close>

definition malloc_reply :: "tid \<Rightarrow> sched \<Rightarrow> Huint" where
  "malloc_reply t s =
     push_bit 24 (ucast (malloc_count s)) OR push_bit 16 (ucast (malloc_holder s)) OR
     (if malloc_holder s = t then 1 else 0)"

definition sch_malloc_lock :: "bool \<Rightarrow> tid \<Rightarrow> sched \<Rightarrow> Huint \<times> sched" where
  "sch_malloc_lock lock_op t s =
     (let s1 = (if lock_op then
                  (if \<not> malloc_mutex s then
                     s\<lparr>malloc_holder := t, malloc_count := malloc_count s + 1, malloc_mutex := True\<rparr>
                   else if malloc_holder s = t then s\<lparr>malloc_count := malloc_count s + 1\<rparr>
                   else s)
                else
                  let s2 = (if malloc_holder s = t then s\<lparr>malloc_count := malloc_count s - 1\<rparr>
                            else s)
                  in (if malloc_count s2 = 0
                      then s2\<lparr>malloc_mutex := False, malloc_holder := 0xFF\<rparr> else s2))
      in (malloc_reply t s1, s1))"

section \<open>The ready queue as lists\<close>

definition best_pri :: "(pri \<Rightarrow> tid list) \<Rightarrow> pri" where
  "best_pri Q = of_nat (LEAST i. Q (of_nat i) \<noteq> [])"

definition queue_ok :: "sched \<Rightarrow> pri \<Rightarrow> tid list \<Rightarrow> bool" where
  "queue_ok s p ws \<longleftrightarrow>
     distinct ws \<and> (encoder_input s p \<longleftrightarrow> ws \<noteq> []) \<and>
     (ws \<noteq> [] \<longrightarrow> head_ptr (pri_ram s p) = hd ws \<and> tail_ptr (pri_ram s p) = last ws) \<and>
     linked (\<lambda>t. next_ptr (thread_ram s t)) ws \<and>
     linked (\<lambda>t. prev_ptr (thread_ram s t)) (rev ws)"

text \<open>
  \<open>queues_repr X s Q\<close>: the memories hold the queues \<open>Q\<close>, the threads in \<open>X\<close> being in no
  queue whatever their entries say (they are on their way into one).
\<close>

definition queues_repr :: "tid set \<Rightarrow> sched \<Rightarrow> (pri \<Rightarrow> tid list) \<Rightarrow> bool" where
  "queues_repr X s Q \<longleftrightarrow>
     (\<forall>p. queue_ok s p (Q p)) \<and>
     (\<forall>t p. t \<in> set (Q p) \<longleftrightarrow>
        t \<notin> X \<and> queue_bit (thread_ram s t) \<and> priority (thread_ram s t) = p)"

definition sched_repr :: "sched \<Rightarrow> (pri \<Rightarrow> tid list) \<Rightarrow> bool" where
  "sched_repr s Q \<longleftrightarrow>
     queues_repr {} s Q \<and> ((\<exists>p. Q p \<noteq> []) \<longrightarrow> encoder_output s = best_pri Q)"

definition next_ok :: "sched \<Rightarrow> (pri \<Rightarrow> tid list) \<Rightarrow> bool" where
  "next_ok s Q \<longleftrightarrow>
     ((\<exists>p. Q p \<noteq> []) \<longrightarrow> next_valid s \<and> next_id s = hd (Q (best_pri Q)))"

text \<open>
  The ready queue as a bank of FIFO queues: a thread sets its priority and is enqueued;
  the head of a priority is dequeued.
\<close>

definition ready_enq :: "pri \<Rightarrow> tid \<Rightarrow> sched \<Rightarrow> sched" where
  "ready_enq p t s =
     (case sch_enqueue t t (snd (sch_set_schedparam t True t t (ucast p) s)) of
        (_, _, _, s') \<Rightarrow> s')"

definition ready_deq :: "pri \<Rightarrow> sched \<Rightarrow> tid option \<times> sched" where
  "ready_deq p s =
     (if encoder_input s p
      then (Some (head_ptr (pri_ram s p)), snd (sch_dequeue (head_ptr (pri_ram s p)) s))
      else (None, s))"

definition at_end :: "tid \<Rightarrow> tid list \<Rightarrow> bool" where
  "at_end t ws \<longleftrightarrow> t = hd ws \<or> t = last ws"

text \<open>
  Reachable states of the scheduler with the queues they hold. Threads are enqueued while they are
  not queued and dequeued as the first of their queue, which is what the thread manager does. A
  queued thread changes its priority only to a different one, and only from an end of its queue.
  The core checks neither; both restrictions are needed (see the last section of this theory).
\<close>

inductive sched_reach :: "sched \<Rightarrow> (pri \<Rightarrow> tid list) \<Rightarrow> bool" where
  reset: "sched_reach sched_reset (\<lambda>_. [])"
| enqueue: "sched_reach s Q \<Longrightarrow> \<not> queue_bit (thread_ram s t) \<Longrightarrow> sw_range (param_ram s t) \<Longrightarrow>
    p = priority (thread_ram s t) \<Longrightarrow> sch_enqueue cur t s = (r, hw, irq, s') \<Longrightarrow>
    sched_reach s' (Q(p := Q p @ [t]))"
| enqueue_hw: "sched_reach s Q \<Longrightarrow> \<not> sw_range (param_ram s t) \<Longrightarrow>
    sch_enqueue cur t s = (r, hw, irq, s') \<Longrightarrow> sched_reach s' Q"
| dequeue: "sched_reach s Q \<Longrightarrow> Q p = t # ws \<Longrightarrow> sch_dequeue t s = (r, s') \<Longrightarrow>
    sched_reach s' (Q(p := ws))"
| set_hw_param: "sched_reach s Q \<Longrightarrow> \<not> sw_range v \<Longrightarrow>
    sch_set_schedparam cur used parent t v s = (irq, s') \<Longrightarrow> sched_reach s' Q"
| set_refused: "sched_reach s Q \<Longrightarrow> \<not> may_set_param cur used parent t \<Longrightarrow>
    sch_set_schedparam cur used parent t v s = (irq, s') \<Longrightarrow> sched_reach s' Q"
| set_priority: "sched_reach s Q \<Longrightarrow> \<not> queue_bit (thread_ram s t) \<Longrightarrow> sw_range v \<Longrightarrow>
    may_set_param cur used parent t \<Longrightarrow>
    sch_set_schedparam cur used parent t v s = (irq, s') \<Longrightarrow> sched_reach s' Q"
| move: "sched_reach s Q \<Longrightarrow> q = priority (thread_ram s t) \<Longrightarrow> t \<in> set (Q q) \<Longrightarrow>
    at_end t (Q q) \<Longrightarrow> sw_range v \<Longrightarrow> ucast v \<noteq> q \<Longrightarrow>
    may_set_param cur used parent t \<Longrightarrow>
    sch_set_schedparam cur used parent t v s = (irq, s') \<Longrightarrow>
    sched_reach s' (Q(q := remove1 t (Q q), ucast v := Q (ucast v) @ [t]))"
| set_idle: "sched_reach s Q \<Longrightarrow> sch_set_idle used t s = (r, s') \<Longrightarrow> sched_reach s' Q"
| toggle: "sched_reach s Q \<Longrightarrow> sched_reach (sch_toggle_preemption d s) Q"
| malloc: "sched_reach s Q \<Longrightarrow> sch_malloc_lock b t s = (r, s') \<Longrightarrow> sched_reach s' Q"

text \<open>Enqueueing a list of threads at one priority, and the order in which they leave.\<close>

definition ready_all :: "pri \<Rightarrow> tid list \<Rightarrow> sched \<Rightarrow> sched" where
  "ready_all p ts s = fold (ready_enq p) ts s"

definition malloc_ok :: "sched \<Rightarrow> bool" where
  "malloc_ok s \<longleftrightarrow> (malloc_mutex s \<longleftrightarrow> malloc_count s \<noteq> 0) \<and>
     (\<not> malloc_mutex s \<longrightarrow> malloc_holder s = 0xFF)"

section \<open>The encoder finds the best priority\<close>

lemma fold_last_hit:
  "fold (\<lambda>i out. if P i then f i else out) (rev [0..<n]) d =
   (if \<exists>i<n. P i then f (LEAST i. P i) else d)"
proof (induction n arbitrary: d)
  case 0
  then show ?case by simp
next
  case (Suc n)
  have "f (LEAST i. P i) = f n" if "P n" "\<not> (\<exists>i<n. P i)"
    using that by (metis LeastI Least_le le_neq_implies_less)
  with Suc show ?case by (auto simp: less_Suc_eq)
qed

lemma Least_chunk:
  fixes P :: "nat \<Rightarrow> bool"
  assumes "\<exists>i. P i" and "0 < k"
  shows "(LEAST i. P i) = k * (LEAST i. \<exists>j<k. P (k * i + j)) +
         (LEAST j. P (k * (LEAST i. \<exists>j<k. P (k * i + j)) + j))"
    (is "?m = k * ?c + ?r")
proof -
  obtain i where "P i" using assms by blast
  with assms(2) have ex: "\<exists>j<k. P (k * (i div k) + j)"
    by (intro exI [of _ "i mod k"]) simp
  then have "\<exists>j<k. P (k * ?c + j)" by (rule LeastI)
  then obtain j where j: "j < k" "P (k * ?c + j)" by blast
  then have r: "P (k * ?c + ?r)" and "?r \<le> j" by (auto intro: LeastI Least_le)
  have "k * ?c + ?r \<le> x" if "P x" for x
  proof -
    have c: "?c \<le> x div k" using that assms(2)
      by (intro Least_le exI [of _ "x mod k"]) simp
    show ?thesis
    proof (cases "?c = x div k")
      case True
      with that have "?r \<le> x mod k" by (intro Least_le) simp
      with True show ?thesis by (metis add_left_mono mult_div_mod_eq)
    next
      case False
      with c have "Suc ?c \<le> x div k" by simp
      then have "k * ?c + k \<le> k * (x div k)"
        by (metis mult_Suc_right add.commute mult_le_mono2)
      also have "\<dots> \<le> x" by simp
      finally show ?thesis using \<open>?r \<le> j\<close> j(1) by linarith
    qed
  qed
  with r show ?thesis by (intro Least_equality) auto
qed

lemma find_best_eq:
  "find_best input best =
   (if \<exists>i<128. input (of_nat i) then of_nat (LEAST i. input (of_nat i)) else best)"
proof -
  let ?P = "\<lambda>i. input (of_nat i)"
  let ?C = "\<lambda>i. \<exists>j<32. ?P (32 * i + j)"
  have enc: "priority_encoder (bit_range input i) = (LEAST j. ?P (32 * i + j))" if "?C i" for i
    using that fold_last_hit [of "bit_range input i" "\<lambda>i. i" 32 0]
    by (auto simp: priority_encoder_def bit_range_def)
  have c: "list_ex (bit_range input i) [0..<32] = ?C i" for i
    by (auto simp: list_ex_iff bit_range_def)
  have "find_best input best = (if \<exists>i<4. ?C i
      then of_nat (32 * (LEAST i. ?C i) + priority_encoder (bit_range input (LEAST i. ?C i)))
      else best)"
    unfolding find_best_def c by (rule fold_last_hit)
  moreover have "?C (LEAST i. ?C i)" if "\<exists>i<4. ?C i"
    using that LeastI_ex [of ?C] by blast
  ultimately have eq: "find_best input best = (if \<exists>i<4. ?C i
      then of_nat (32 * (LEAST i. ?C i) + (LEAST j. ?P (32 * (LEAST i. ?C i) + j))) else best)"
    by (simp only: enc cong: if_cong)
  have iff: "(\<exists>i<4. ?C i) \<longleftrightarrow> (\<exists>i<128. ?P i)"
  proof
    assume "\<exists>i<4. ?C i"
    then obtain i j where "i < 4" "j < 32" "?P (32 * i + j)" by blast
    then show "\<exists>i<128. ?P i" by (intro exI [of _ "32 * i + j"]) auto
  next
    assume "\<exists>i<128. ?P i"
    then obtain i where "i < 128" "?P i" by blast
    then show "\<exists>i<4. ?C i"
      by (intro exI [of _ "i div 32"] conjI exI [of _ "i mod 32"]) auto
  qed
  moreover have "(LEAST i. ?P i) = 32 * (LEAST i. ?C i) + (LEAST j. ?P (32 * (LEAST i. ?C i) + j))"
    if "\<exists>i<128. ?P i" using that by (intro Least_chunk) auto
  ultimately show ?thesis unfolding eq iff by (simp only: cong: if_cong)
qed

lemma ex_pri: "(\<exists>i<128. P (of_nat i :: pri)) \<longleftrightarrow> (\<exists>p. P p)"
proof
  assume "\<exists>p. P p"
  then obtain p where "P p" by blast
  moreover have "unat p < 128" using unat_bound [of p] by simp
  ultimately show "\<exists>i<128. P (of_nat i)" by (intro exI [of _ "unat p"]) simp
qed blast

lemma encoder_empty_iff: "encoder_empty input \<longleftrightarrow> (\<forall>p. \<not> input p)"
  using ex_pri [of input] unfolding encoder_empty_def by blast

lemma find_best_pri:
  assumes "\<And>p. input p \<longleftrightarrow> Q p \<noteq> []" and "\<exists>p. Q p \<noteq> []"
  shows "find_best input b = best_pri Q"
  using assms ex_pri [of "\<lambda>p. Q p \<noteq> []"] by (simp add: find_best_eq best_pri_def)

lemma best_pri_nonempty: "\<exists>p. Q p \<noteq> [] \<Longrightarrow> Q (best_pri Q) \<noteq> []"
  unfolding best_pri_def
  using LeastI_ex [of "\<lambda>i. Q (of_nat i) \<noteq> []"] ex_pri [of "\<lambda>p. Q p \<noteq> []"] by blast

lemma best_pri_le: "Q p \<noteq> [] \<Longrightarrow> best_pri Q \<le> p"
proof -
  assume ne: "Q p \<noteq> []"
  have le: "(LEAST i. Q (of_nat i) \<noteq> []) \<le> unat p" by (rule Least_le) (simp add: ne)
  moreover have "unat p < 128" using unat_bound [of p] by simp
  ultimately show ?thesis
    by (simp add: best_pri_def word_le_nat_alt unat_of_nat)
qed

lemma best_pri_cong: "(\<And>p. P p = [] \<longleftrightarrow> Q p = []) \<Longrightarrow> best_pri P = best_pri Q"
  by (simp add: best_pri_def)

section \<open>Facts about one queue\<close>

lemma queue_ok_frame:
  assumes "queue_ok s p ws" and "\<And>t. t \<in> set ws \<Longrightarrow> thread_ram s' t = thread_ram s t"
    and "pri_ram s' p = pri_ram s p" and "encoder_input s' p = encoder_input s p"
  shows "queue_ok s' p ws"
proof -
  have "linked (\<lambda>t. next_ptr (thread_ram s' t)) ws = linked (\<lambda>t. next_ptr (thread_ram s t)) ws"
    using assms(2) by (intro linked_cong_set) auto
  moreover have "linked (\<lambda>t. prev_ptr (thread_ram s' t)) (rev ws) =
      linked (\<lambda>t. prev_ptr (thread_ram s t)) (rev ws)"
    using assms(2) by (intro linked_cong_set) auto
  ultimately show ?thesis using assms by (simp add: queue_ok_def)
qed

lemma queue_ok_Nil: "\<not> encoder_input s p \<Longrightarrow> queue_ok s p []"
  by (simp add: queue_ok_def)

lemma queue_ok_single:
  "encoder_input s p \<Longrightarrow> head_ptr (pri_ram s p) = t \<Longrightarrow> tail_ptr (pri_ram s p) = t \<Longrightarrow>
   queue_ok s p [t]"
  by (simp add: queue_ok_def)

lemma queue_ok_snoc:
  assumes q: "queue_ok s p ws" and ne: "ws \<noteq> []" and t: "t \<notin> set ws"
    and nxt: "\<And>u. u \<in> set ws \<Longrightarrow>
      next_ptr (thread_ram s' u) = (if u = last ws then t else next_ptr (thread_ram s u))"
    and prev: "\<And>u. u \<in> set ws \<Longrightarrow> prev_ptr (thread_ram s' u) = prev_ptr (thread_ram s u)"
    and prevt: "prev_ptr (thread_ram s' t) = last ws"
    and enc: "encoder_input s' p"
    and ends: "head_ptr (pri_ram s' p) = head_ptr (pri_ram s p)" "tail_ptr (pri_ram s' p) = t"
  shows "queue_ok s' p (ws @ [t])"
proof -
  have d: "distinct ws" using q by (simp add: queue_ok_def)
  have "u \<noteq> last ws" if "u \<in> set (butlast ws)" for u
    using that d by (rule butlast_neq_last [rotated])
  then have "linked (\<lambda>t. next_ptr (thread_ram s' t)) ws = linked (\<lambda>t. next_ptr (thread_ram s t)) ws"
    using nxt by (intro linked_cong) (meson in_set_butlastD)
  then have "linked (\<lambda>t. next_ptr (thread_ram s' t)) (ws @ [t])"
    using q ne nxt [of "last ws"] by (simp add: linked_append1 queue_ok_def)
  moreover have "linked (\<lambda>t. prev_ptr (thread_ram s' t)) (rev ws) =
      linked (\<lambda>t. prev_ptr (thread_ram s t)) (rev ws)"
    using prev by (intro linked_cong_set) auto
  then have "linked (\<lambda>t. prev_ptr (thread_ram s' t)) (t # rev ws)"
    using q ne prevt by (simp add: linked_Cons queue_ok_def hd_rev)
  ultimately show ?thesis
    using q ne t enc ends by (simp add: queue_ok_def)
qed

lemma queue_ok_tl:
  assumes q: "queue_ok s p (t # ws)" and ne: "ws \<noteq> []"
    and eq: "\<And>u. u \<in> set ws \<Longrightarrow> thread_ram s' u = thread_ram s u"
    and s': "encoder_input s' p" "head_ptr (pri_ram s' p) = next_ptr (thread_ram s t)"
      "tail_ptr (pri_ram s' p) = tail_ptr (pri_ram s p)"
  shows "queue_ok s' p ws"
proof -
  have "linked (\<lambda>t. next_ptr (thread_ram s' t)) ws = linked (\<lambda>t. next_ptr (thread_ram s t)) ws"
    "linked (\<lambda>t. prev_ptr (thread_ram s' t)) (rev ws) = linked (\<lambda>t. prev_ptr (thread_ram s t)) (rev ws)"
    using eq by (auto intro!: linked_cong_set)
  then show ?thesis
    using q ne s' by (simp add: queue_ok_def linked_Cons linked_append1)
qed

lemma queues_repr_queue: "queues_repr X s Q \<Longrightarrow> queue_ok s p (Q p)"
  by (simp add: queues_repr_def)

lemma queues_repr_mem:
  "queues_repr X s Q \<Longrightarrow> t \<in> set (Q p) \<longleftrightarrow>
     t \<notin> X \<and> queue_bit (thread_ram s t) \<and> priority (thread_ram s t) = p"
  by (simp add: queues_repr_def)

lemma queues_repr_disjoint:
  "queues_repr X s Q \<Longrightarrow> t \<in> set (Q p) \<Longrightarrow> t \<in> set (Q r) \<Longrightarrow> r = p"
  by (simp add: queues_repr_mem)

lemma queues_repr_encoder: "queues_repr X s Q \<Longrightarrow> encoder_input s p \<longleftrightarrow> Q p \<noteq> []"
  by (drule queues_repr_queue [of _ _ _ p]) (simp add: queue_ok_def)

lemma queues_repr_idle:
  "queues_repr {} s Q \<Longrightarrow> \<not> queue_bit (thread_ram s t) \<Longrightarrow> queues_repr {t} s Q"
  by (auto simp: queues_repr_def)

lemma sched_repr_queues: "sched_repr s Q \<Longrightarrow> queues_repr {} s Q"
  by (simp add: sched_repr_def)

lemmas sched_repr_mem = queues_repr_mem [OF sched_repr_queues, simplified]

lemma sched_repr_best:
  "sched_repr s Q \<Longrightarrow> \<exists>p. Q p \<noteq> [] \<Longrightarrow>
   head_ptr (pri_ram s (encoder_output s)) = hd (Q (best_pri Q)) \<and> encoder_output s = best_pri Q"
  using queues_repr_queue [OF sched_repr_queues, of s Q "best_pri Q"] best_pri_nonempty [of Q]
  by (simp add: sched_repr_def queue_ok_def)

lemma next_okI:
  "sched_repr s Q \<Longrightarrow> next_valid s' \<Longrightarrow> next_id s' = head_ptr (pri_ram s (encoder_output s)) \<Longrightarrow>
   next_ok s' Q"
  unfolding next_ok_def using sched_repr_best [of s Q] by metis

lemma next_ok_empty: "\<forall>k. Q k = [] \<Longrightarrow> next_ok s' Q"
  by (simp add: next_ok_def)

lemma run_encoder_repr: "queues_repr {} s Q \<Longrightarrow> sched_repr (run_encoder s) Q"
  using queues_repr_encoder [of "{}" s Q] find_best_pri [of "encoder_input s" Q "encoder_output s"]
  by (auto simp: sched_repr_def run_encoder_def queues_repr_def queue_ok_def)

lemma sched_repr_same_emptiness:
  assumes "sched_repr s Q" and "queues_repr {} s' P" and "encoder_output s' = encoder_output s"
    and "\<And>p. P p = [] \<longleftrightarrow> Q p = []"
  shows "sched_repr s' P"
  using assms best_pri_cong [of P Q] by (simp add: sched_repr_def)

lemma queues_repr_next [simp]:
  "queues_repr X (s\<lparr>next_id := i\<rparr>) Q = queues_repr X s Q"
  "queues_repr X (s\<lparr>next_valid := v\<rparr>) Q = queues_repr X s Q"
  "queues_repr X (s\<lparr>param_ram := m\<rparr>) Q = queues_repr X s Q"
  by (simp_all add: queues_repr_def queue_ok_def)

lemma sched_repr_next [simp]:
  "sched_repr (s\<lparr>next_id := i\<rparr>) Q = sched_repr s Q"
  "sched_repr (s\<lparr>next_valid := v\<rparr>) Q = sched_repr s Q"
  "sched_repr (s\<lparr>param_ram := m\<rparr>) Q = sched_repr s Q"
  by (simp_all add: sched_repr_def)

text \<open>Assembling the representation after one queue has changed.\<close>

lemma queues_reprI:
  assumes R: "queues_repr X s Q" and p: "queue_ok s' p ws"
    and others: "\<And>r u. r \<noteq> p \<Longrightarrow> u \<in> set (Q r) \<Longrightarrow> thread_ram s' u = thread_ram s u"
      "\<And>r. r \<noteq> p \<Longrightarrow> pri_ram s' r = pri_ram s r \<and> encoder_input s' r = encoder_input s r"
    and mem: "\<And>u. u \<in> set ws \<Longrightarrow>
        u \<notin> Y \<and> queue_bit (thread_ram s' u) \<and> priority (thread_ram s' u) = p"
      "\<And>u. u \<notin> set ws \<Longrightarrow> u \<notin> Y \<Longrightarrow> queue_bit (thread_ram s' u) \<Longrightarrow>
        priority (thread_ram s' u) \<noteq> p \<and> u \<in> set (Q (priority (thread_ram s' u)))"
      "\<And>u r. r \<noteq> p \<Longrightarrow> u \<in> set (Q r) \<Longrightarrow> u \<notin> Y"
  shows "queues_repr Y s' (Q(p := ws))"
  unfolding queues_repr_def
proof (intro conjI allI)
  fix r
  show "queue_ok s' r ((Q(p := ws)) r)"
    using p others queues_repr_queue [OF R, of r] by (auto intro: queue_ok_frame)
next
  fix u r
  show "(u \<in> set ((Q(p := ws)) r)) =
      (u \<notin> Y \<and> queue_bit (thread_ram s' u) \<and> priority (thread_ram s' u) = r)"
  proof (cases "r = p")
    case True
    then show ?thesis using mem(1,2) by auto
  next
    case False
    have "u \<notin> Y \<and> queue_bit (thread_ram s' u) \<and> priority (thread_ram s' u) = r"
      if "u \<in> set (Q r)"
      using that False others(1) mem(3) queues_repr_mem [OF R] by metis
    moreover have "u \<in> set (Q r)"
      if "u \<notin> Y" "queue_bit (thread_ram s' u)" "priority (thread_ram s' u) = r"
      using that False mem(1,2) by metis
    ultimately show ?thesis using False by auto
  qed
qed

section \<open>Linking a thread into a queue and out of it\<close>

lemma link_empty:
  "\<not> encoder_input s p \<Longrightarrow> sch_link t p e pe s =
     s\<lparr>encoder_input := (encoder_input s)(p := True), thread_ram := (thread_ram s)(t := e),
       pri_ram := (pri_ram s)(p := pe\<lparr>head_ptr := t, tail_ptr := t\<rparr>)\<rparr>"
  by (simp add: sch_link_def)

lemma link_nonempty:
  "encoder_input s p \<Longrightarrow> sch_link t p e pe s =
     s\<lparr>thread_ram := (thread_ram s)
         (tail_ptr pe := (thread_ram s (tail_ptr pe))\<lparr>next_ptr := t\<rparr>,
          t := e\<lparr>prev_ptr := tail_ptr pe\<rparr>),
       pri_ram := (pri_ram s)(p := pe\<lparr>tail_ptr := t\<rparr>)\<rparr>"
  by (simp add: sch_link_def)

lemma link_repr:
  assumes R: "queues_repr {t} s Q" and e: "priority e = p" "queue_bit e"
  shows "queues_repr {} (sch_link t p e (pri_ram s p) s) (Q(p := Q p @ [t]))"
proof (cases "Q p = []")
  case True
  then have enc: "\<not> encoder_input s p" using queues_repr_encoder [OF R] by simp
  have notin: "t \<notin> set (Q r)" for r using queues_repr_mem [OF R] by simp
  have none: "\<not> (u \<noteq> t \<and> queue_bit (thread_ram s u) \<and> priority (thread_ram s u) = p)" for u
    using queues_repr_mem [OF R, of u p] True by simp
  show ?thesis unfolding link_empty [OF enc]
    by (rule queues_reprI [OF R])
      (use True e notin none queues_repr_mem [OF R] in \<open>auto intro: queue_ok_single split: if_splits\<close>)
next
  case False
  then have enc: "encoder_input s p" using queues_repr_encoder [OF R] by simp
  have notin: "t \<notin> set (Q r)" for r using queues_repr_mem [OF R] by simp
  have qp: "queue_ok s p (Q p)" by (rule queues_repr_queue [OF R])
  have last: "tail_ptr (pri_ram s p) = last (Q p)" "last (Q p) \<in> set (Q p)"
    using qp False by (auto simp: queue_ok_def)
  have ne: "last (Q p) \<noteq> t" using notin last(2) by metis
  have other: "u \<noteq> last (Q p) \<and> u \<noteq> t" if "r \<noteq> p" "u \<in> set (Q r)" for r u
    using that notin last(2) queues_repr_disjoint [OF R] by metis
  show ?thesis unfolding link_nonempty [OF enc] last(1)
  proof (rule queues_reprI [OF R])
    show "queue_ok (s\<lparr>thread_ram := (thread_ram s)
        (last (Q p) := (thread_ram s (last (Q p)))\<lparr>next_ptr := t\<rparr>, t := e\<lparr>prev_ptr := last (Q p)\<rparr>),
        pri_ram := (pri_ram s)(p := (pri_ram s p)\<lparr>tail_ptr := t\<rparr>)\<rparr>) p (Q p @ [t])"
      using ne notin [of p] enc False by (intro queue_ok_snoc [OF qp]) auto
  qed (use other e ne last(2) notin queues_repr_mem [OF R] in \<open>auto split: if_splits\<close>)
qed

lemma queues_repr_drop:
  assumes R: "queues_repr {} s Q" and p: "queue_ok s' p ws"
    and ram: "thread_ram s' = thread_ram s"
    and others: "\<And>r. r \<noteq> p \<Longrightarrow> pri_ram s' r = pri_ram s r \<and> encoder_input s' r = encoder_input s r"
    and ws: "set (Q p) = insert t (set ws)" "t \<notin> set ws"
  shows "queues_repr {t} s' (Q(p := ws))"
proof (rule queues_reprI [OF R p])
  note mem = queues_repr_mem [OF R]
  have t: "queue_bit (thread_ram s t)" "priority (thread_ram s t) = p"
    using mem [of t p] ws by auto
  show "u \<notin> {t}" if "r \<noteq> p" "u \<in> set (Q r)" for u r
    using that t mem [of u r] by auto
  show "u \<notin> {t} \<and> queue_bit (thread_ram s' u) \<and> priority (thread_ram s' u) = p"
    if "u \<in> set ws" for u
    using that ws ram mem [of u p] by auto
  show "priority (thread_ram s' u) \<noteq> p \<and> u \<in> set (Q (priority (thread_ram s' u)))"
    if "u \<notin> set ws" "u \<notin> {t}" "queue_bit (thread_ram s' u)" for u
  proof -
    have "u \<notin> set (Q p)" using that ws by simp
    with mem [of u p] mem [of u "priority (thread_ram s u)"] that(3) ram show ?thesis by simp
  qed
qed (use ram others in auto)

lemma queue_ok_butlast:
  assumes q: "queue_ok s p (ws @ [t])" and ne: "ws \<noteq> []"
    and eq: "\<And>u. u \<in> set ws \<Longrightarrow> thread_ram s' u = thread_ram s u"
    and s': "encoder_input s' p" "tail_ptr (pri_ram s' p) = prev_ptr (thread_ram s t)"
      "head_ptr (pri_ram s' p) = head_ptr (pri_ram s p)"
  shows "queue_ok s' p ws"
proof -
  have "linked (\<lambda>t. next_ptr (thread_ram s' t)) ws = linked (\<lambda>t. next_ptr (thread_ram s t)) ws"
    "linked (\<lambda>t. prev_ptr (thread_ram s' t)) (rev ws) = linked (\<lambda>t. prev_ptr (thread_ram s t)) (rev ws)"
    using eq by (auto intro!: linked_cong_set)
  then show ?thesis
    using q ne s' by (simp add: queue_ok_def linked_Cons linked_append1 hd_rev)
qed

lemma unlink_head:
  assumes R: "queues_repr {} s Q" and Q: "Q p = t # ws" and ne: "ws \<noteq> []"
  shows "queues_repr {t} (s\<lparr>pri_ram := (pri_ram s)
      (p := (pri_ram s p)\<lparr>head_ptr := next_ptr (thread_ram s t)\<rparr>)\<rparr>) (Q(p := ws))"
proof -
  have qp: "queue_ok s p (t # ws)" using queues_repr_queue [OF R, of p] Q by simp
  then have "t \<notin> set ws" by (simp add: queue_ok_def)
  then show ?thesis using ne Q queues_repr_encoder [OF R, of p]
    by (intro queues_repr_drop [OF R] queue_ok_tl [OF qp]) auto
qed

lemma unlink_last:
  assumes R: "queues_repr {} s Q" and Q: "Q p = ws @ [t]" and ne: "ws \<noteq> []"
  shows "queues_repr {t} (s\<lparr>pri_ram := (pri_ram s)
      (p := (pri_ram s p)\<lparr>tail_ptr := prev_ptr (thread_ram s t)\<rparr>)\<rparr>) (Q(p := ws))"
proof -
  have qp: "queue_ok s p (ws @ [t])" using queues_repr_queue [OF R, of p] Q by simp
  then have "t \<notin> set ws" by (simp add: queue_ok_def)
  then show ?thesis using ne Q queues_repr_encoder [OF R, of p]
    by (intro queues_repr_drop [OF R] queue_ok_butlast [OF qp]) auto
qed

lemma unlink_only:
  assumes R: "queues_repr {} s Q" and Q: "Q p = [t]"
  shows "queues_repr {t} (s\<lparr>encoder_input := (encoder_input s)(p := False)\<rparr>) (Q(p := []))"
  using Q by (intro queues_repr_drop [OF R] queue_ok_Nil) auto

lemma forget_queued:
  assumes R: "queues_repr {t} s Q" and e: "\<not> queue_bit e"
  shows "queues_repr {} (s\<lparr>thread_ram := (thread_ram s)(t := e)\<rparr>) Q"
proof -
  have ne: "u \<noteq> t" if "u \<in> set (Q p)" for u p using that queues_repr_mem [OF R] by simp
  have "queue_ok (s\<lparr>thread_ram := (thread_ram s)(t := e)\<rparr>) p (Q p)" for p
  proof (rule queue_ok_frame [OF queues_repr_queue [OF R]])
    show "thread_ram (s\<lparr>thread_ram := (thread_ram s)(t := e)\<rparr>) u = thread_ram s u"
      if "u \<in> set (Q p)" for u using ne [OF that] by simp
  qed simp_all
  moreover have "u \<in> set (Q p) \<longleftrightarrow> u \<notin> {} \<and>
      queue_bit (((thread_ram s)(t := e)) u) \<and> priority (((thread_ram s)(t := e)) u) = p" for u p
    using queues_repr_mem [OF R, of u p] e by simp
  ultimately show ?thesis by (simp add: queues_repr_def)
qed

section \<open>Requests refine operations on the lists\<close>

lemma enqueue_refines:
  assumes R: "sched_repr s Q" and t: "\<not> queue_bit (thread_ram s t)" "sw_range (param_ram s t)"
    and p: "p = priority (thread_ram s t)" and e: "sch_enqueue cur t s = (r, hw, irq, s')"
  shows "r = 0x80 \<and> hw = None \<and> sched_repr s' (Q(p := Q p @ [t])) \<and> next_ok s' (Q(p := Q p @ [t]))"
proof -
  let ?Q = "Q(p := Q p @ [t])"
  let ?e = "(thread_ram s t)\<lparr>queue_bit := True\<rparr>"
  let ?s1 = "sch_link t p ?e (pri_ram s p) s"
  let ?s2 = "if encoder_input s p then ?s1 else run_encoder ?s1"
  have l: "queues_repr {} ?s1 ?Q"
    using p queues_repr_idle [OF sched_repr_queues [OF R] t(1)] by (intro link_repr) auto
  have s2: "sched_repr ?s2 ?Q"
  proof (cases "encoder_input s p")
    case True
    then have "sched_repr ?s1 ?Q"
      using queues_repr_encoder [OF sched_repr_queues [OF R], of p]
      by (intro sched_repr_same_emptiness [OF R l]) (auto simp: link_nonempty)
    with True show ?thesis by simp
  qed (simp add: run_encoder_repr [OF l])
  have res: "r = 0x80" "hw = None"
      "s' = ?s2\<lparr>next_id := head_ptr (pri_ram ?s2 (encoder_output ?s2)), next_valid := True\<rparr>"
    using e t(2) p unfolding sch_enqueue_def Let_def by (simp_all cong: if_cong)
  have "sched_repr s' ?Q"
    using s2 unfolding res(3) by (simp only: sched_repr_next)
  moreover have "next_ok s' ?Q"
    unfolding res(3) by (rule next_okI [OF s2]) simp_all
  ultimately show ?thesis using res by simp
qed

lemma deq_pick_ok:
  assumes R: "sched_repr s Q"
  shows "sched_repr (deq_pick s) Q \<and> next_ok (deq_pick s) Q \<and>
    next_valid (deq_pick s) = (idle_valid s \<or> (\<exists>p. Q p \<noteq> [])) \<and>
    ((\<forall>p. Q p = []) \<and> idle_valid s \<longrightarrow> next_id (deq_pick s) = idle_id s)"
proof -
  have emp: "encoder_empty (encoder_input s) \<longleftrightarrow> (\<forall>k. Q k = [])"
    using queues_repr_encoder [OF sched_repr_queues [OF R]] by (simp add: encoder_empty_iff)
  have "next_ok (deq_pick s) Q"
  proof (cases "encoder_empty (encoder_input s)")
    case True
    then show ?thesis using emp by (intro next_ok_empty) blast
  next
    case False
    then show ?thesis by (intro next_okI [OF R]) (simp_all add: deq_pick_def)
  qed
  moreover have "sched_repr (deq_pick s) Q" using R by (simp add: deq_pick_def)
  moreover have "next_valid (deq_pick s) = (idle_valid s \<or> \<not> encoder_empty (encoder_input s))"
    "encoder_empty (encoder_input s) \<and> idle_valid s \<longrightarrow> next_id (deq_pick s) = idle_id s"
    by (simp_all add: deq_pick_def)
  ultimately show ?thesis unfolding emp by blast
qed

lemma dequeue_refines:
  assumes R: "sched_repr s Q" and Q: "Q p = t # ws" and d: "sch_dequeue t s = (r, s')"
  shows "r = 0 \<and> sched_repr s' (Q(p := ws)) \<and> next_ok s' (Q(p := ws)) \<and>
    next_valid s' = (idle_valid s \<or> (\<exists>k. (Q(p := ws)) k \<noteq> [])) \<and>
    ((\<forall>k. (Q(p := ws)) k = []) \<and> idle_valid s \<longrightarrow> next_id s' = idle_id s)"
proof -
  let ?Q = "Q(p := ws)"
  let ?e = "(thread_ram s t)\<lparr>queue_bit := False\<rparr>"
  have q: "queues_repr {} s Q" using R by (rule sched_repr_queues)
  have qp: "queue_ok s p (t # ws)" using queues_repr_queue [OF q, of p] Q by simp
  have p: "priority (thread_ram s t) = p" using sched_repr_mem [OF R, of t p] Q by simp
  have hd: "head_ptr (pri_ram s p) = t" using qp by (simp add: queue_ok_def)
  have "tail_ptr (pri_ram s p) = (if ws = [] then t else last ws)" "t \<notin> set ws"
    using qp by (auto simp: queue_ok_def)
  then have tl: "tail_ptr (pri_ram s p) = t \<longleftrightarrow> ws = []"
    by (metis last_in_set)
  show ?thesis
  proof (cases "ws = []")
    case True
    let ?s1 = "run_encoder (s\<lparr>encoder_input := (encoder_input s)(p := False),
                    thread_ram := (thread_ram s)(t := ?e)\<rparr>)"
    have "queues_repr {t} (s\<lparr>encoder_input := (encoder_input s)(p := False)\<rparr>) ?Q"
      using unlink_only [OF q, of p t] Q True by simp
    from run_encoder_repr [OF forget_queued [OF this, of ?e]] have "sched_repr ?s1 ?Q" by simp
    from deq_pick_ok [OF this] show ?thesis
      using d True hd tl unfolding sch_dequeue_def Let_def by (simp add: p run_encoder_def)
  next
    case False
    let ?s1 = "s\<lparr>pri_ram := (pri_ram s)(p := (pri_ram s p)\<lparr>head_ptr := next_ptr (thread_ram s t)\<rparr>),
                  thread_ram := (thread_ram s)(t := ?e)\<rparr>"
    have "queues_repr {} ?s1 ?Q"
      using forget_queued [OF unlink_head [OF q Q False], of ?e] by simp
    then have "sched_repr ?s1 ?Q"
      by (rule sched_repr_same_emptiness [OF R]) (use Q False in simp_all)
    from deq_pick_ok [OF this] show ?thesis
      using d False hd tl unfolding sch_dequeue_def Let_def by (simp add: p)
  qed
qed

lemma requeue_out_repr:
  assumes R: "queues_repr {} s Q" and t: "t \<in> set (Q p)" "at_end t (Q p)"
  shows "queues_repr {t} (requeue_out t s) (Q(p := remove1 t (Q p))) \<and>
         (\<forall>r. r \<noteq> p \<longrightarrow> pri_ram (requeue_out t s) r = pri_ram s r)"
proof -
  have qp: "queue_ok s p (Q p)" by (rule queues_repr_queue [OF R])
  have p: "priority (thread_ram s t) = p" using queues_repr_mem [OF R, of t p] t by simp
  consider "Q p = [t]" | ws where "Q p = t # ws" "ws \<noteq> []" | ws where "Q p = ws @ [t]" "ws \<noteq> []"
    using t hd_Cons_tl [of "Q p"] append_butlast_last_id [of "Q p"] unfolding at_end_def
    by (metis append_Nil empty_iff list.set(1))
  then show ?thesis
  proof cases
    case 1
    then have "requeue_out t s = s\<lparr>encoder_input := (encoder_input s)(p := False)\<rparr>"
      using qp p by (simp add: requeue_out_def Let_def queue_ok_def)
    with unlink_only [OF R 1] 1 show ?thesis by simp
  next
    case 2
    then have "requeue_out t s = s\<lparr>pri_ram := (pri_ram s)
        (p := (pri_ram s p)\<lparr>head_ptr := next_ptr (thread_ram s t)\<rparr>)\<rparr>"
      using qp p last_in_set [of ws] by (auto simp: requeue_out_def Let_def queue_ok_def)
    with unlink_head [OF R 2] 2 show ?thesis by simp
  next
    case 3
    then have "t \<notin> set ws" "hd ws \<in> set ws" using qp by (auto simp: queue_ok_def)
    moreover from this have "requeue_out t s = s\<lparr>pri_ram := (pri_ram s)
        (p := (pri_ram s p)\<lparr>tail_ptr := prev_ptr (thread_ram s t)\<rparr>)\<rparr>"
      using qp p 3 by (auto simp: requeue_out_def Let_def queue_ok_def)
    ultimately show ?thesis using unlink_last [OF R 3] 3 by (simp add: remove1_append)
  qed
qed

lemma pick_next_ok:
  assumes R: "sched_repr s Q"
  shows "sched_repr (pick_next s) Q \<and>
         (((\<exists>p. Q p \<noteq> []) \<longrightarrow> next_valid s) \<longrightarrow> next_ok (pick_next s) Q)"
proof (intro conjI impI)
  have emp: "encoder_empty (encoder_input s) \<longleftrightarrow> (\<forall>k. Q k = [])"
    using queues_repr_encoder [OF sched_repr_queues [OF R]] by (simp add: encoder_empty_iff)
  show "sched_repr (pick_next s) Q" using R by (simp add: pick_next_def)
  assume v: "(\<exists>p. Q p \<noteq> []) \<longrightarrow> next_valid s"
  show "next_ok (pick_next s) Q"
  proof (cases "\<forall>k. Q k = []")
    case False
    then have "\<not> encoder_empty (encoder_input s)" and "next_valid s" using emp v by blast+
    then show ?thesis by (intro next_okI [OF R]) (simp_all add: pick_next_def)
  qed (rule next_ok_empty)
qed

text \<open>The contents of the queues after a change of priority.\<close>

lemma setparam_unqueued:
  assumes R: "sched_repr s Q" and t: "\<not> queue_bit (thread_ram s t)" "sw_range v"
    and c: "may_set_param cur used parent t"
    and s': "sch_set_schedparam cur used parent t v s = (irq, s')"
  shows "sched_repr s' Q \<and> (next_ok s Q \<longrightarrow> next_ok s' Q) \<and> thread_ram s' t = (thread_ram s t)\<lparr>priority := ucast v\<rparr> \<and>
         param_ram s' = (param_ram s)(t := v)"
proof -
  let ?s0 = "s\<lparr>param_ram := (param_ram s)(t := v)\<rparr>"
  let ?s1 = "?s0\<lparr>thread_ram := (thread_ram ?s0)(t := (thread_ram s t)\<lparr>priority := ucast v\<rparr>)\<rparr>"
  have eq: "s' = pick_next ?s1"
    using s' t c by (simp add: sch_set_schedparam_def Let_def)
  have "queues_repr {t} ?s0 Q"
    using queues_repr_idle [OF sched_repr_queues [OF R] t(1)] by simp
  then have "queues_repr {} ?s1 Q"
    using t(1) by (intro forget_queued) auto
  then have "sched_repr ?s1 Q"
    by (intro sched_repr_same_emptiness [OF R]) auto
  from pick_next_ok [OF this] show ?thesis
    unfolding eq by (auto simp: pick_next_def next_ok_def)
qed

lemma setparam_moves:
  assumes R: "sched_repr s Q" and q: "q = priority (thread_ram s t)" and t: "t \<in> set (Q q)"
    and ends: "at_end t (Q q)"
    and v: "sw_range v" "ucast v \<noteq> q" and c: "may_set_param cur used parent t"
    and nv: "next_valid s" and s': "sch_set_schedparam cur used parent t v s = (irq, s')"
  shows "sched_repr s' (Q(q := remove1 t (Q q), ucast v := Q (ucast v) @ [t])) \<and>
         next_ok s' (Q(q := remove1 t (Q q), ucast v := Q (ucast v) @ [t]))"
proof -
  let ?n = "ucast v :: pri"
  let ?s0 = "s\<lparr>param_ram := (param_ram s)(t := v)\<rparr>"
  let ?e = "(thread_ram s t)\<lparr>priority := ?n\<rparr>"
  let ?s1 = "sch_link t ?n ?e (pri_ram ?s0 ?n) (requeue_out t ?s0)"
  let ?Q = "Q(q := remove1 t (Q q))"
  have qb: "queue_bit (thread_ram s t)" using sched_repr_mem [OF R, of t q] t by simp
  have R0: "queues_repr {} ?s0 Q" using sched_repr_queues [OF R] by simp
  have out: "queues_repr {t} (requeue_out t ?s0) ?Q"
      "pri_ram (requeue_out t ?s0) ?n = pri_ram ?s0 ?n"
    using requeue_out_repr [OF R0 t ends] v(2) by auto
  have "queues_repr {} ?s1 (?Q(?n := ?Q ?n @ [t]))"
    using link_repr [OF out(1), of ?e ?n] qb out(2) by simp
  then have s1: "sched_repr (run_encoder ?s1) (Q(q := remove1 t (Q q), ?n := Q ?n @ [t]))"
    using v(2) by (intro run_encoder_repr) simp
  have "s' = pick_next (run_encoder ?s1)"
    using s' qb v(1) c by (simp add: sch_set_schedparam_def Let_def)
  moreover have "next_valid (run_encoder ?s1)"
    using nv by (simp add: run_encoder_def sch_link_def requeue_out_def Let_def)
  ultimately show ?thesis using pick_next_ok [OF s1] by simp
qed

section \<open>The ready queue is a bank of FIFO queues\<close>

lemma sw_range_pri: "sw_range (ucast (p :: pri))"
  unfolding sw_range_def by (rule bit_word_eqI) (auto simp: bit_drop_bit_eq bit_ucast_iff dest: bit_imp_le_length)

lemma ucast_pri: "ucast (ucast (p :: pri) :: Huint) = p"
  by (rule bit_word_eqI) (simp add: bit_ucast_iff)

lemma ready_enq_law:
  assumes R: "sched_repr s Q" and t: "\<And>l. t \<notin> set (Q l)"
  shows "sched_repr (ready_enq p t s) (Q(p := Q p @ [t]))"
proof -
  have nq: "\<not> queue_bit (thread_ram s t)"
    using sched_repr_mem [OF R, of t] t by blast
  obtain irq s1 where s1: "sch_set_schedparam t True t t (ucast p) s = (irq, s1)" by fastforce
  obtain r hw irq' s2 where s2: "sch_enqueue t t s1 = (r, hw, irq', s2)" by (metis prod_cases4)
  from setparam_unqueued [OF R nq sw_range_pri _ s1]
  have "sched_repr s1 Q" "thread_ram s1 t = (thread_ram s t)\<lparr>priority := p\<rparr>"
    "sw_range (param_ram s1 t)" by (auto simp: ucast_pri sw_range_pri may_set_param_def)
  with enqueue_refines [OF this(1) _ this(3) refl s2] nq show ?thesis
    by (simp add: ready_enq_def s1 s2)
qed

interpretation ready: wait_queues sched_repr ready_enq ready_deq "\<lambda>ws. ws" "\<lambda>_. True"
proof unfold_locales
  fix s Q k assume R: "sched_repr s Q"
  then show "distinct (Q k)"
    using queues_repr_queue [OF sched_repr_queues, of s Q k] by (simp add: queue_ok_def)
  fix l assume "k \<noteq> l"
  then show "set (Q k) \<inter> set (Q l) = {}"
    using queues_repr_disjoint [OF sched_repr_queues [OF R]] by blast
next
  fix s Q k assume R: "sched_repr s Q" and "Q k = []"
  then show "fst (ready_deq k s) = None \<and> sched_repr (snd (ready_deq k s)) Q"
    using queues_repr_encoder [OF sched_repr_queues [OF R], of k] by (simp add: ready_deq_def)
next
  fix s Q k t ts assume R: "sched_repr s Q" and Q: "Q k = t # ts"
  then have "head_ptr (pri_ram s k) = t"
    using queues_repr_queue [OF sched_repr_queues [OF R], of k] by (simp add: queue_ok_def)
  moreover have "sched_repr (snd (sch_dequeue t s)) (Q(k := ts))"
    using dequeue_refines [OF R Q, of "fst (sch_dequeue t s)" "snd (sch_dequeue t s)"] by simp
  moreover have "encoder_input s k"
    using queues_repr_encoder [OF sched_repr_queues [OF R], of k] Q by simp
  ultimately show "fst (ready_deq k s) = Some t \<and> sched_repr (snd (ready_deq k s)) (Q(k := ts))"
    by (simp add: ready_deq_def)
next
  fix xs :: "tid list" and t
  show "set (xs @ [t]) \<subseteq> insert t (set xs)" by simp
qed (rule ready_enq_law)

section \<open>Reachable states\<close>

lemma sched_repr_frame:
  assumes "thread_ram s' = thread_ram s" "pri_ram s' = pri_ram s"
    "encoder_input s' = encoder_input s" "encoder_output s' = encoder_output s"
  shows "sched_repr s' Q = sched_repr s Q"
  using assms by (simp add: sched_repr_def queues_repr_def queue_ok_def)

lemma reset_repr: "sched_repr sched_reset (\<lambda>_. []) \<and> next_ok sched_reset (\<lambda>_. [])"
  by (simp add: sched_repr_def queues_repr_def queue_ok_def sched_reset_def next_ok_def)

lemma queues_frame:
  assumes "sched_repr s Q \<and> next_ok s Q"
    and "thread_ram s' = thread_ram s" "pri_ram s' = pri_ram s"
      "encoder_input s' = encoder_input s" "encoder_output s' = encoder_output s"
    and "next_valid s \<Longrightarrow> next_valid s' \<and> next_id s' = next_id s"
  shows "sched_repr s' Q \<and> next_ok s' Q"
  using assms sched_repr_frame [OF assms(2-5)] unfolding next_ok_def by metis

lemma set_idle_frame:
  "thread_ram (snd (sch_set_idle u t s)) = thread_ram s"
  "pri_ram (snd (sch_set_idle u t s)) = pri_ram s"
  "encoder_input (snd (sch_set_idle u t s)) = encoder_input s"
  "encoder_output (snd (sch_set_idle u t s)) = encoder_output s"
  "next_valid s \<Longrightarrow> next_valid (snd (sch_set_idle u t s))"
  "next_valid s \<Longrightarrow> next_id (snd (sch_set_idle u t s)) = next_id s"
  by (simp_all add: sch_set_idle_def Let_def)

lemma malloc_frame:
  "thread_ram (snd (sch_malloc_lock b t s)) = thread_ram s"
  "pri_ram (snd (sch_malloc_lock b t s)) = pri_ram s"
  "encoder_input (snd (sch_malloc_lock b t s)) = encoder_input s"
  "encoder_output (snd (sch_malloc_lock b t s)) = encoder_output s"
  "next_valid (snd (sch_malloc_lock b t s)) = next_valid s"
  "next_id (snd (sch_malloc_lock b t s)) = next_id s"
  by (simp_all add: sch_malloc_lock_def Let_def)

lemma set_param_only:
  "\<not> sw_range v \<or> \<not> may_set_param cur used parent t \<Longrightarrow>
   snd (sch_set_schedparam cur used parent t v s) = s\<lparr>param_ram := (param_ram s)(t := v)\<rparr>"
  by (auto simp: sch_set_schedparam_def Let_def)

lemma reach_repr: "sched_reach s Q \<Longrightarrow> sched_repr s Q \<and> next_ok s Q"
proof (induction rule: sched_reach.induct)
  case reset
  show ?case by (rule reset_repr)
next
  case (enqueue s Q t p cur r hw irq s')
  then show ?case using enqueue_refines by blast
next
  case (enqueue_hw s Q t cur r hw irq s')
  then show ?case by (simp add: sch_enqueue_def)
next
  case (dequeue s Q p t ws r s')
  then show ?case using dequeue_refines by blast
next
  case (set_hw_param s Q v cur used parent t irq s')
  then have s': "s' = s\<lparr>param_ram := (param_ram s)(t := v)\<rparr>"
    using set_param_only [of v cur used parent t s] by simp
  show ?case unfolding s' by (rule queues_frame [OF set_hw_param.IH]) simp_all
next
  case (set_refused s Q cur used parent t v irq s')
  then have s': "s' = s\<lparr>param_ram := (param_ram s)(t := v)\<rparr>"
    using set_param_only [of v cur used parent t s] by simp
  show ?case unfolding s' by (rule queues_frame [OF set_refused.IH]) simp_all
next
  case (set_priority s Q t v cur used parent irq s')
  then show ?case using setparam_unqueued by blast
next
  case (move s Q q t v cur used parent irq s')
  then have "Q q \<noteq> []" by auto
  then have "next_valid s" using move.IH unfolding next_ok_def by blast
  with move show ?case using setparam_moves by blast
next
  case (set_idle s Q used t r s')
  then have s': "s' = snd (sch_set_idle used t s)" by simp
  show ?case unfolding s'
    by (rule queues_frame [OF set_idle.IH]) (simp_all add: set_idle_frame)
next
  case (toggle s Q d)
  show ?case by (rule queues_frame [OF toggle.IH]) (simp_all add: sch_toggle_preemption_def)
next
  case (malloc s Q b t r s')
  then have s': "s' = snd (sch_malloc_lock b t s)" by simp
  show ?case unfolding s'
    by (rule queues_frame [OF malloc.IH]) (simp_all add: malloc_frame)
qed

text \<open>
  C2: Take any sequence of requests from reset in which only threads that are not queued are enqueued,
  only first threads of a queue are dequeued, and the priority of a queued thread is changed only
  to a different one and only while the thread is the first or the last of its queue; all other
  changes of parameters, of the idle thread, of preemption and of the allocator's lock are free.
  In every state reached in this way in which some thread is ready, the thread announced to the
  thread manager is valid and ready, no ready thread has a better priority than it, and among the
  threads of its priority it is the one that has waited longest. The core does not enforce the
  restriction on priorities, and without it the queues break, as the theorems
  \<open>setparam_same_priority_loses_threads\<close> and \<open>setparam_middle_corrupts_queue\<close> below show.
\<close>

theorem next_thread_is_best:
  assumes "sched_reach s Q" and "queue_bit (thread_ram s t)"
  shows "next_valid s \<and> queue_bit (thread_ram s (next_id s)) \<and>
         priority (thread_ram s (next_id s)) \<le> priority (thread_ram s t) \<and>
         next_id s = hd (Q (priority (thread_ram s (next_id s))))"
proof -
  have R: "sched_repr s Q" and n: "next_ok s Q" using reach_repr [OF assms(1)] by auto
  have "t \<in> set (Q (priority (thread_ram s t)))" using sched_repr_mem [OF R] assms(2) by simp
  then have ne: "Q (priority (thread_ram s t)) \<noteq> []" by auto
  then have nx: "next_valid s" "next_id s = hd (Q (best_pri Q))" "Q (best_pri Q) \<noteq> []"
    using n best_pri_nonempty [of Q] unfolding next_ok_def by blast+
  then have "next_id s \<in> set (Q (best_pri Q))" by simp
  then have "queue_bit (thread_ram s (next_id s))" and
    p: "priority (thread_ram s (next_id s)) = best_pri Q"
    using sched_repr_mem [OF R, of "next_id s" "best_pri Q"] by blast+
  moreover have "best_pri Q \<le> priority (thread_ram s t)" using ne by (rule best_pri_le)
  ultimately show ?thesis using nx(1,2) unfolding p by blast
qed

theorem next_thread_is_best_witness:
  "\<exists>s Q. sched_reach s Q \<and> queue_bit (thread_ram s 7) \<and> next_valid s \<and>
     priority (thread_ram s (next_id s)) \<le> priority (thread_ram s 7)"
proof -
  let ?e = "sch_enqueue 3 7 sched_reset"
  have e: "?e = (fst ?e, fst (snd ?e), fst (snd (snd ?e)), snd (snd (snd ?e)))" by simp
  have idle: "\<not> queue_bit (thread_ram sched_reset 7)" "sw_range (param_ram sched_reset 7)"
    by (simp_all add: sched_reset_def sw_range_def)
  have reach: "sched_reach (snd (snd (snd ?e)))
      ((\<lambda>_. [])(priority (thread_ram sched_reset 7) := [] @ [7]))"
    using sched_reach.enqueue [OF sched_reach.reset idle refl e] by simp
  have q: "queue_bit (thread_ram (snd (snd (snd ?e))) 7)"
    using reach_repr [OF reach] sched_repr_mem by fastforce
  show ?thesis using next_thread_is_best [OF reach q] reach q by blast
qed

text \<open>
  C9: The two-level priority encoder is a least-bit search: for any non-empty set of
  priorities its output is the smallest of them, whatever its previous output; for the
  empty set it keeps its previous output.
\<close>

theorem encoder_finds_least:
  "(if encoder_empty input then find_best input old = old
    else input (find_best input old) \<and> (\<forall>p. input p \<longrightarrow> find_best input old \<le> p))"
proof (cases "\<exists>p. input p")
  case True
  let ?Q = "\<lambda>p. if input p then [0 :: tid] else []"
  have f: "find_best input old = best_pri ?Q" using True by (intro find_best_pri) auto
  have "\<exists>p. ?Q p \<noteq> []" using True by auto
  then have "?Q (best_pri ?Q) \<noteq> []" using best_pri_nonempty [of ?Q] by blast
  moreover have "best_pri ?Q \<le> p" if "input p" for p using that by (intro best_pri_le) simp
  ultimately show ?thesis using True f by (auto simp: encoder_empty_iff split: if_splits)
next
  case False
  then show ?thesis by (simp add: find_best_eq encoder_empty_iff)
qed

theorem encoder_finds_least_witness:
  "\<not> encoder_empty (\<lambda>p. p = 40 \<or> p = 99) \<and> find_best (\<lambda>p. p = 40 \<or> p = 99) 0 \<le> 40"
proof -
  have "\<not> encoder_empty (\<lambda>p. p = 40 \<or> p = 99)" by (auto simp: encoder_empty_iff)
  then show ?thesis using encoder_finds_least [of "\<lambda>p. p = 40 \<or> p = 99" 0] by auto
qed

text \<open>
  C17: Threads of the same priority run in the order in which they became ready: after the
  threads \<open>ts\<close> have become ready at priority \<open>p\<close>, dequeueing that priority gives first the
  threads that were already there and then \<open>ts\<close>, in order.
\<close>

theorem ready_queue_fifo:
  assumes "sched_repr s Q" and "distinct ts" and "\<And>l. set ts \<inter> set (Q l) = {}"
  shows "fst (drain ready_deq p (length (Q p @ ts)) (ready_all p ts s)) = Q p @ ts"
  unfolding ready_all_def using assms by (intro ready.fifo) simp_all

theorem ready_queue_fifo_witness:
  "sched_repr sched_reset (\<lambda>_. []) \<and>
   fst (drain ready_deq 12 3 (ready_all 12 [5, 9, 1] sched_reset)) = [5, 9, 1]"
  using ready_queue_fifo [of sched_reset "\<lambda>_. []" "[5, 9, 1]" 12] reset_repr
  by (simp add: numeral_3_eq_3)

section \<open>Changing the priority of a queued thread\<close>

text \<open>
  Changing the priority of a ready thread that is at an end of its queue moves it to
  the end of the queue of the new priority and leaves every other queue as it was.
\<close>

theorem setparam_moves_thread:
  assumes "sched_repr s Q" and "next_ok s Q" and "q = priority (thread_ram s t)"
    and "t \<in> set (Q q)" and "at_end t (Q q)" and "sw_range v" and "ucast v \<noteq> q"
    and "may_set_param cur used parent t"
    and "sch_set_schedparam cur used parent t v s = (irq, s')"
  shows "sched_repr s' (Q(q := remove1 t (Q q), ucast v := Q (ucast v) @ [t]))"
proof -
  have "Q q \<noteq> []" using assms(4) by auto
  then have "next_valid s" using assms(2) unfolding next_ok_def by blast
  with setparam_moves assms show ?thesis by blast
qed

text \<open>A concrete ready queue, for the instances below.\<close>

lemma example_queue:
  "\<exists>s. sched_repr s ((\<lambda>_. [])(12 := [5, 9, 7])) \<and> next_ok s ((\<lambda>_. [])(12 := [5, 9, 7]))"
proof -
  let ?Q = "(\<lambda>_. [])(12 := [5, 9, 7]) :: pri \<Rightarrow> tid list"
  have R: "sched_repr (fold (ready_enq 12) [5, 9, 7] sched_reset) ?Q"
    using ready.enq_all [of sched_reset "\<lambda>_. []" "[5, 9, 7]" 12] reset_repr by simp
  obtain s where s: "sched_repr s ?Q" using R by blast
  then have "sched_repr (s\<lparr>next_id := 5, next_valid := True\<rparr>) ?Q" by simp
  moreover have "next_ok (s\<lparr>next_id := 5, next_valid := True\<rparr>) ?Q"
  proof -
    have "\<exists>p. ?Q p \<noteq> []" by (rule exI [of _ 12]) simp
    then have "?Q (best_pri ?Q) \<noteq> []" by (rule best_pri_nonempty)
    then have "best_pri ?Q = 12" by (metis fun_upd_other)
    then show ?thesis by (simp add: next_ok_def)
  qed
  ultimately show ?thesis by blast
qed

theorem setparam_moves_thread_witness:
  "\<exists>s s'. sched_repr s ((\<lambda>_. [])(12 := [5, 9, 7])) \<and>
     s' = snd (sch_set_schedparam 5 True 0 5 40 s) \<and>
     sched_repr s' ((\<lambda>_. [])(12 := [9, 7], 40 := [5]))"
proof -
  obtain s where s: "sched_repr s ((\<lambda>_. [])(12 := [5, 9, 7]))"
      "next_ok s ((\<lambda>_. [])(12 := [5, 9, 7]))" using example_queue by blast
  have q: "12 = priority (thread_ram s 5)" using sched_repr_mem [OF s(1), of 5 12] by simp
  have "sw_range 40" by (simp add: sw_range_def)
  from setparam_moves_thread [OF s q _ _ this _ _ surjective_pairing, of 5 True 0]
  show ?thesis using s(1) by (auto simp: at_end_def may_set_param_def)
qed

text \<open>
  Setting the priority that a ready thread already has corrupts its queue when other
  threads wait there: the entry of the queue written back is the one read before the
  removal, so the thread becomes both head and tail, and once it is dequeued the queue
  counts as empty although the other threads are still marked as ready in it.
\<close>

theorem setparam_same_priority_loses_threads:
  assumes R: "sched_repr s Q" and Q: "Q p = t # u # ws" and v: "sw_range v" "ucast v = p"
    and c: "may_set_param cur used parent t"
    and s': "s' = snd (sch_dequeue t (snd (sch_set_schedparam cur used parent t v s)))"
  shows "\<not> encoder_input s' p \<and> queue_bit (thread_ram s' u) \<and> priority (thread_ram s' u) = p"
proof -
  have q: "queues_repr {} s Q" using R by (rule sched_repr_queues)
  have qp: "queue_ok s p (t # u # ws)" using queues_repr_queue [OF q, of p] Q by simp
  have t: "queue_bit (thread_ram s t)" "priority (thread_ram s t) = p"
    and u: "queue_bit (thread_ram s u)" "priority (thread_ram s u) = p"
    using queues_repr_mem [OF q, of t p] queues_repr_mem [OF q, of u p] Q by auto
  have tu: "t \<noteq> u" and e: "encoder_input s p" and hd: "head_ptr (pri_ram s p) = t"
    and tl: "tail_ptr (pri_ram s p) = last (u # ws)" and notin: "t \<notin> set (u # ws)"
    using qp by (auto simp: queue_ok_def)
  have "last (u # ws) \<in> set (u # ws)" by (rule last_in_set) simp
  with notin have ne: "last (u # ws) \<noteq> t" by blast
  let ?s1 = "snd (sch_set_schedparam cur used parent t v s)"
  let ?m = "s\<lparr>param_ram := (param_ram s)(t := v), pri_ram := (pri_ram s)(p := (pri_ram s p)\<lparr>head_ptr := next_ptr (thread_ram s t)\<rparr>)\<rparr>"
  have "requeue_out t (s\<lparr>param_ram := (param_ram s)(t := v)\<rparr>) = ?m"
    using t hd tl ne by (simp add: requeue_out_def Let_def)
  then have s1: "?s1 = pick_next (run_encoder (sch_link t p ((thread_ram s t)\<lparr>priority := p\<rparr>) (pri_ram s p) ?m))"
    using t v c by (simp add: sch_set_schedparam_def Let_def)
  have "head_ptr (pri_ram ?s1 p) = t" "tail_ptr (pri_ram ?s1 p) = t"
    "priority (thread_ram ?s1 t) = p"
    "queue_bit (thread_ram ?s1 u) \<and> priority (thread_ram ?s1 u) = p"
    using e hd tl t u tu by (simp_all add: s1 pick_next_def run_encoder_def sch_link_def)
  then show ?thesis
    using tu unfolding s' sch_dequeue_def Let_def by (simp add: deq_pick_def run_encoder_def)
qed

theorem setparam_same_priority_loses_threads_witness:
  "\<exists>s s'. sched_repr s ((\<lambda>_. [])(12 := [5, 9, 7])) \<and>
     s' = snd (sch_dequeue 5 (snd (sch_set_schedparam 5 True 0 5 12 s))) \<and>
     \<not> encoder_input s' 12 \<and> queue_bit (thread_ram s' 9)"
proof -
  obtain s where s: "sched_repr s ((\<lambda>_. [])(12 := [5, 9, 7]))" using example_queue by blast
  have "sw_range 12" by (simp add: sw_range_def)
  from setparam_same_priority_loses_threads [OF s _ this, of 12 5 9 "[7]" 5 True 0]
  show ?thesis using s by (auto simp: may_set_param_def)
qed

text \<open>
  Taking a thread out of the middle of its queue leaves the back link of its successor
  pointing at it: when the successor is the last thread of the queue and is moved next, the
  queue ends in the first thread, which by then belongs to another priority.
\<close>

theorem setparam_middle_corrupts_queue:
  assumes R: "sched_repr s Q" and Q: "Q p = [a, t, b]"
    and v: "sw_range v" "ucast v \<noteq> p" and w: "sw_range w" "ucast w \<noteq> p"
    and c: "may_set_param cur used parent t" "may_set_param cur used parent b"
    and s': "s' = snd (sch_set_schedparam cur used parent b w
                   (snd (sch_set_schedparam cur used parent t v s)))"
  shows "tail_ptr (pri_ram s' p) = t \<and> queue_bit (thread_ram s' t) \<and>
         priority (thread_ram s' t) = ucast v"
proof -
  have q: "queues_repr {} s Q" using R by (rule sched_repr_queues)
  have "queue_ok s p [a, t, b]" using queues_repr_queue [OF q, of p] Q by simp
  then have d: "a \<noteq> t" "a \<noteq> b" "t \<noteq> b" and ends: "head_ptr (pri_ram s p) = a" "tail_ptr (pri_ram s p) = b"
    and prev: "prev_ptr (thread_ram s b) = t" "prev_ptr (thread_ram s t) = a"
    by (auto simp: queue_ok_def)
  have t: "queue_bit (thread_ram s t)" "priority (thread_ram s t) = p"
    and b: "queue_bit (thread_ram s b)" "priority (thread_ram s b) = p"
    using queues_repr_mem [OF q, of t p] queues_repr_mem [OF q, of b p] Q by auto
  let ?s0 = "s\<lparr>param_ram := (param_ram s)(t := v)\<rparr>"
  let ?l1 = "sch_link t (ucast v) ((thread_ram s t)\<lparr>priority := ucast v\<rparr>)
    (pri_ram s (ucast v)) (requeue_out t ?s0)"
  let ?s1 = "snd (sch_set_schedparam cur used parent t v s)"
  have s1: "?s1 = pick_next (run_encoder ?l1)"
    using t v c by (simp add: sch_set_schedparam_def Let_def)
  have out: "requeue_out t ?s0 = ?s0\<lparr>thread_ram := (thread_ram s)
      (a := (thread_ram s a)\<lparr>next_ptr := next_ptr (thread_ram s t)\<rparr>)\<rparr>"
    using t ends prev d by (simp add: requeue_out_def Let_def)
  have f1: "prev_ptr (thread_ram ?s1 b) = t" "queue_bit (thread_ram ?s1 b)"
      "priority (thread_ram ?s1 b) = p" "pri_ram ?s1 p = pri_ram s p"
      "queue_bit (thread_ram ?s1 t)" "priority (thread_ram ?s1 t) = ucast v"
    using d b t prev v(2) by (auto simp: s1 out pick_next_def run_encoder_def sch_link_def)
  let ?m = "?s1\<lparr>param_ram := (param_ram ?s1)(b := w)\<rparr>"
  let ?l2 = "sch_link b (ucast w) ((thread_ram ?s1 b)\<lparr>priority := ucast w\<rparr>)
    (pri_ram ?s1 (ucast w)) (requeue_out b ?m)"
  have "s' = pick_next (run_encoder ?l2)"
    using f1 w c by (simp add: s' sch_set_schedparam_def Let_def)
  moreover have "requeue_out b ?m = ?m\<lparr>pri_ram := (pri_ram ?s1)(p := (pri_ram s p)\<lparr>tail_ptr := t\<rparr>)\<rparr>"
    using f1 ends d by (simp add: requeue_out_def Let_def)
  ultimately show ?thesis
    using f1 d w(2) by (simp add: pick_next_def run_encoder_def sch_link_def)
qed

theorem setparam_middle_corrupts_queue_witness:
  "\<exists>s s'. sched_repr s ((\<lambda>_. [])(12 := [5, 9, 7])) \<and>
     s' = snd (sch_set_schedparam 0 True 0 7 30 (snd (sch_set_schedparam 0 True 0 9 20 s))) \<and>
     tail_ptr (pri_ram s' 12) = 9 \<and> priority (thread_ram s' 9) = 20"
proof -
  obtain s where s: "sched_repr s ((\<lambda>_. [])(12 := [5, 9, 7]))" using example_queue by blast
  have v: "sw_range 20" "sw_range 30" by (simp_all add: sw_range_def)
  from setparam_middle_corrupts_queue [OF s _ v(1) _ v(2), of 12 5 9 7 0 True 0]
  show ?thesis using s by (auto simp: may_set_param_def)
qed

section \<open>The lock of the memory allocator\<close>

text \<open>
  The allocator lock is exclusive: a request of thread \<open>t\<close> (acquire, with the count
  below its maximum, or release) keeps the invariant that the lock is taken exactly while
  its count is not zero, its answer says whether \<open>t\<close> holds the lock afterwards, and it
  changes nothing while another thread holds the lock.
\<close>

theorem malloc_lock_exclusive:
  assumes ok: "malloc_ok s" and t: "t \<noteq> 0xFF" and room: "acquire \<Longrightarrow> malloc_count s \<noteq> 15"
    and l: "sch_malloc_lock acquire t s = (r, s')"
  shows "malloc_ok s' \<and> (bit r 0 \<longleftrightarrow> malloc_mutex s' \<and> malloc_holder s' = t) \<and>
         (malloc_mutex s \<and> malloc_holder s \<noteq> t \<longrightarrow> s' = s) \<and>
         (acquire \<longrightarrow> malloc_mutex s' \<and> (\<not> malloc_mutex s \<longrightarrow> malloc_holder s' = t))"
proof -
  have reply: "bit (malloc_reply u x) 0 \<longleftrightarrow> malloc_holder x = u" for x u
    by (simp add: malloc_reply_def bit_or_iff bit_push_bit_iff)
  have succ: "malloc_count s + 1 \<noteq> 0" if acquire
  proof
    assume "malloc_count s + 1 = 0"
    then have "malloc_count s = 15" by (simp add: add_eq_0_iff2)
    with room [OF that] show False by simp
  qed
  show ?thesis
  proof (cases acquire)
    case True
    then show ?thesis using ok t l succ
      by (auto simp: sch_malloc_lock_def malloc_ok_def reply Let_def split: if_splits)
  next
    case False
    then show ?thesis using ok t l
      by (auto simp: sch_malloc_lock_def malloc_ok_def reply Let_def split: if_splits)
  qed
qed

theorem malloc_lock_exclusive_witness:
  "malloc_ok sched_reset \<and> malloc_ok (snd (sch_malloc_lock True 6 sched_reset)) \<and>
   malloc_holder (snd (sch_malloc_lock True 6 sched_reset)) = 6"
proof -
  have r: "malloc_ok sched_reset" "\<not> malloc_mutex sched_reset" "malloc_count sched_reset \<noteq> 15"
    by (simp_all add: malloc_ok_def sched_reset_def)
  show ?thesis
    using malloc_lock_exclusive [OF r(1) _ _ surjective_pairing, of 6 True] r by auto
qed

end
