(* ===== verification/Thread_Manager.thy ===== *)
theory Thread_Manager
  imports Scheduler
begin

text \<open>
  The thread manager core (\<^verbatim>\<open>axi_thread_manager/user_logic.vhd\<close>): the table of thread
  entries, whose first byte doubles as a stack of free thread IDs, the register of the
  thread that runs on the processor, and the commands read by the kernel. Commands that need
  the ready queue send requests to the scheduler core, so their functions take and return
  both cores. Each function takes a command from \<^verbatim>\<open>IDLE_STATE\<close> back to it; the scheduler
  answers every request, so the time-out branches of the wait states are not taken. The
  lemmas show that the table and the stack of free IDs agree.
\<close>

section \<open>State of the core\<close>

text \<open>
  An entry: the ID stack slot (bits 0 to 7, counted from the most significant), an unused
  byte, the parent, the flags detached, joined, used and not-exited, and four unused bits.
\<close>

record tm_entry =
  e_slot :: tid
  e_mid :: "8 word"
  e_pid :: tid
  e_detached :: bool
  e_joined :: bool
  e_used :: bool
  e_alive :: bool
  e_low :: "4 word"

record tm =
  entries :: "tid \<Rightarrow> tm_entry"
  next_ID :: "9 word"
  current :: tid
  cur_invalid :: bool
  core_stop :: bool
  exc_cause :: "4 word"
  exc_addr :: Huint

record cores =
  tm :: tm
  sch :: sched

definition flag :: "nat \<Rightarrow> bool \<Rightarrow> Huint" where
  "flag n b = (if b then push_bit n 1 else 0)"

definition entry_word :: "tm_entry \<Rightarrow> Huint" where
  "entry_word e =
     push_bit 24 (ucast (e_slot e)) OR push_bit 16 (ucast (e_mid e)) OR
     push_bit 8 (ucast (e_pid e)) OR flag 7 (e_detached e) OR flag 6 (e_joined e) OR
     flag 5 (e_used e) OR flag 4 (e_alive e) OR ucast (e_low e)"

definition word_entry :: "Huint \<Rightarrow> tm_entry" where
  "word_entry w = \<lparr>e_slot = ucast (drop_bit 24 w), e_mid = ucast (drop_bit 16 w),
     e_pid = ucast (drop_bit 8 w), e_detached = bit w 7, e_joined = bit w 6, e_used = bit w 5,
     e_alive = bit w 4, e_low = ucast w\<rparr>"

text \<open>An error answer: the entry with its last four bits replaced by a code.\<close>

definition err_word :: "tm_entry \<Rightarrow> Huint \<Rightarrow> Huint" where
  "err_word e code = (entry_word e AND NOT 0xF) OR code"

definition ERROR_IN_STATUS :: Huint where "ERROR_IN_STATUS = 1"

definition THREAD_ALREADY_TERMINATED :: Huint where "THREAD_ALREADY_TERMINATED = 3"

definition THREAD_ALREADY_QUEUED :: Huint where "THREAD_ALREADY_QUEUED = 5"

definition ERROR_FROM_SCHEDULER :: Huint where "ERROR_FROM_SCHEDULER = 7"

definition JOIN_ERROR_CHILD_JOINED :: Huint where "JOIN_ERROR_CHILD_JOINED = 9"

definition JOIN_ERROR_NOT_CHILD :: Huint where "JOIN_ERROR_NOT_CHILD = 11"

definition JOIN_ERROR_CHILD_DETACHED :: Huint where "JOIN_ERROR_CHILD_DETACHED = 13"

definition JOIN_ERROR_CHILD_NOT_USED :: Huint where "JOIN_ERROR_CHILD_NOT_USED = 15"

definition JOIN_ERROR_UNKNOWN :: Huint where "JOIN_ERROR_UNKNOWN = 1"

definition CLEAR_ERROR_NOT_USED :: Huint where "CLEAR_ERROR_NOT_USED = 9"

text \<open>Soft reset: the table is cleared and the stack of free IDs holds 0 to 255.\<close>

definition tm_reset :: tm where
  "tm_reset = \<lparr>entries = (\<lambda>t. \<lparr>e_slot = t, e_mid = 0, e_pid = 0, e_detached = False,
       e_joined = False, e_used = False, e_alive = False, e_low = 0\<rparr>),
     next_ID = 0, current = 0, cur_invalid = True, core_stop = False,
     exc_cause = 0, exc_addr = 0\<rparr>"

section \<open>Commands on the table\<close>

definition id_word :: "tid \<Rightarrow> Huint" where
  "id_word t = push_bit 1 (ucast t)"

definition tm_create :: "bool \<Rightarrow> tm \<Rightarrow> Huint \<times> tm" where
  "tm_create det s =
     (if bit (next_ID s) 8 then (1, s)
      else
        let new_ID = e_slot (entries s (ucast (next_ID s)));
            e = entries s new_ID;
            e' = \<lparr>e_slot = e_slot e, e_mid = 0, e_pid = (if det then 0 else current s),
                  e_detached = det, e_joined = False, e_used = True, e_alive = True, e_low = 0\<rparr>
        in (id_word new_ID, s\<lparr>entries := (entries s)(new_ID := e'), next_ID := next_ID s + 1\<rparr>))"

definition tm_clear :: "tid \<Rightarrow> tm \<Rightarrow> Huint \<times> tm" where
  "tm_clear t s =
     (let e = entries s t in
      if e_used e \<and> \<not> e_alive e then
        (0, let s1 = s\<lparr>entries := (entries s)(t := \<lparr>e_slot = e_slot e, e_mid = 0, e_pid = 0,
                  e_detached = False, e_joined = False, e_used = False, e_alive = False,
                  e_low = 0\<rparr>)\<rparr>
            in if next_ID s1 \<noteq> 0 then
                 let a = ucast (next_ID s1 - 1)
                 in s1\<lparr>next_ID := next_ID s1 - 1,
                       entries := (entries s1)(a := (entries s1 a)\<lparr>e_slot := t\<rparr>)\<rparr>
               else s1)
      else (err_word e CLEAR_ERROR_NOT_USED, s))"

definition is_current :: "tid \<Rightarrow> tm \<Rightarrow> bool" where
  "is_current t s \<longleftrightarrow> t = current s \<and> \<not> cur_invalid s"

definition tm_join :: "tid \<Rightarrow> tm \<Rightarrow> Huint \<times> tm" where
  "tm_join t s =
     (let e = entries s t in
      if is_current (e_pid e) s \<and> \<not> e_detached e \<and> \<not> e_joined e \<and> (e_used e \<or> e_alive e) then
        (if \<not> e_alive e then (THREAD_ALREADY_TERMINATED, s)
         else (0, s\<lparr>entries := (entries s)(t := e\<lparr>e_joined := True\<rparr>)\<rparr>))
      else if e_detached e then (err_word e JOIN_ERROR_CHILD_DETACHED, s)
      else if e_joined e then (err_word e JOIN_ERROR_CHILD_JOINED, s)
      else if \<not> e_used e then (err_word e JOIN_ERROR_CHILD_NOT_USED, s)
      else if \<not> is_current (e_pid e) s then (err_word e JOIN_ERROR_NOT_CHILD, s)
      else (err_word e JOIN_ERROR_UNKNOWN, s))"

definition tm_is_detached :: "tid \<Rightarrow> tm \<Rightarrow> Huint" where
  "tm_is_detached t s = (if e_detached (entries s t) \<and> e_used (entries s t) then 2 else 0)"

definition tm_current :: "tm \<Rightarrow> Huint" where
  "tm_current s = id_word (current s) OR (if cur_invalid s then 1 else 0)"

definition tm_read_thread :: "tid \<Rightarrow> tm \<Rightarrow> Huint" where
  "tm_read_thread t s = entry_word (entries s t)"

definition tm_raise :: "4 word \<Rightarrow> Huint \<Rightarrow> tm \<Rightarrow> tm" where
  "tm_raise cause addr s = s\<lparr>exc_cause := cause, exc_addr := addr\<rparr>"

definition EXCEPTION_WRITE_TO_READ_ONLY :: "4 word" where "EXCEPTION_WRITE_TO_READ_ONLY = 1"

definition EXCEPTION_UNDEFINED_ADDRESS :: "4 word" where "EXCEPTION_UNDEFINED_ADDRESS = 2"

definition EXCEPTION_TO_SCHD_NEXT_THREAD :: "4 word" where "EXCEPTION_TO_SCHD_NEXT_THREAD = 8"

definition EXCEPTION_SCHD_INVALID_THREAD :: "4 word" where "EXCEPTION_SCHD_INVALID_THREAD = 9"

definition tm_write_thread :: "Huint \<Rightarrow> tid \<Rightarrow> Huint \<Rightarrow> tm \<Rightarrow> tm" where
  "tm_write_thread addr t d s =
     (if core_stop s then s\<lparr>entries := (entries s)(t := word_entry d)\<rparr>
      else tm_raise EXCEPTION_WRITE_TO_READ_ONLY addr s)"

section \<open>Commands that use the ready queue\<close>

text \<open>
  Events of a command: the address of a hardware thread that was started and the preemption
  interrupt.
\<close>

type_synonym events = "Huint option \<times> bool"

definition no_event :: events where "no_event = (None, False)"

definition running :: "tm_entry \<Rightarrow> bool" where
  "running e \<longleftrightarrow> e_used e \<and> e_alive e"

definition do_enqueue :: "tid \<Rightarrow> cores \<Rightarrow> 8 word \<times> events \<times> cores" where
  "do_enqueue t c =
     (case sch_enqueue (current (tm c)) t (sch c) of
        (d, hw, irq, s') \<Rightarrow> (d, (hw, irq), c\<lparr>sch := s'\<rparr>))"

definition do_dequeue :: "cores \<Rightarrow> 8 word \<times> cores" where
  "do_dequeue c =
     (case sch_dequeue (current (tm c)) (sch c) of (d, s') \<Rightarrow> (d, c\<lparr>sch := s'\<rparr>))"

definition set_current :: "tid \<Rightarrow> cores \<Rightarrow> cores" where
  "set_current t c = c\<lparr>tm := (tm c)\<lparr>current := t, cur_invalid := False\<rparr>\<rparr>"

definition tm_is_queued :: "tid \<Rightarrow> cores \<Rightarrow> Huint" where
  "tm_is_queued t c = push_bit 1 (ucast (sch_is_queued t (sch c)))"

text \<open>
  The scheduler's answer is in bits 8 to 15 of the result. When the core raises an
  exception it acknowledges the bus without driving the data lines, which read as zero.
\<close>

definition tm_add :: "tid \<Rightarrow> cores \<Rightarrow> Huint \<times> events \<times> cores" where
  "tm_add t c =
     (let e = entries (tm c) t in
      if running e then
        (let q = sch_is_queued t (sch c) in
         if \<not> bit q 0 then
           (case do_enqueue t c of
              (d, ev, c') \<Rightarrow>
                (push_bit 16 (ucast d) OR (if bit d 0 then ERROR_FROM_SCHEDULER else 0), ev, c'))
         else (push_bit 24 (ucast (e_slot e)) OR push_bit 16 (ucast q) OR
               (entry_word e AND 0xFFF0) OR THREAD_ALREADY_QUEUED, no_event, c))
      else (err_word e ERROR_IN_STATUS, no_event, c))"

definition tm_next :: "Huint \<Rightarrow> cores \<Rightarrow> Huint \<times> cores" where
  "tm_next addr c =
     (if next_valid (sch c) then
        (let t = next_id (sch c) in
         if running (entries (tm c) t) then
           (case do_dequeue (set_current t c) of
              (d, c') \<Rightarrow> (if bit d 0 then ERROR_FROM_SCHEDULER else id_word (current (tm c')), c'))
         else (0, c\<lparr>tm := tm_raise EXCEPTION_SCHD_INVALID_THREAD addr (tm c)\<rparr>))
      else (0, c\<lparr>tm := tm_raise EXCEPTION_TO_SCHD_NEXT_THREAD addr (tm c)\<rparr>))"

definition tm_yield :: "cores \<Rightarrow> Huint \<times> events \<times> cores" where
  "tm_yield c =
     (let e = entries (tm c) (current (tm c)) in
      if running e then
        (if bit (sch_is_empty (sch c)) 0 then (tm_current (tm c), no_event, c)
         else
           (case do_enqueue (current (tm c)) c of
              (d, ev, c1) \<Rightarrow>
                if bit d 0 then (ERROR_FROM_SCHEDULER, ev, c1)
                else
                  (case do_dequeue (set_current (next_id (sch c1)) c1) of
                     (d2, c2) \<Rightarrow>
                       (if bit d2 0 then ERROR_FROM_SCHEDULER else id_word (current (tm c2)), ev, c2))))
      else (err_word e ERROR_IN_STATUS, no_event, c))"

definition tm_exit :: "tid \<Rightarrow> cores \<Rightarrow> Huint \<times> events \<times> cores" where
  "tm_exit t c =
     (let e = entries (tm c) t;
          c1 = c\<lparr>tm := (tm c)\<lparr>entries := (entries (tm c))(t := e\<lparr>e_used := True, e_alive := False\<rparr>)\<rparr>\<rparr>
      in if \<not> e_detached e \<and> e_joined e then
           (let p = entries (tm c1) (e_pid e) in
            if running p then
              (case do_enqueue (e_pid e) c1 of
                 (d, ev, c2) \<Rightarrow> (if bit d 0 then ERROR_FROM_SCHEDULER else 0, ev, c2))
            else (err_word p ERROR_IN_STATUS, no_event, c1))
         else (0, no_event, c1))"

definition cores_reset :: cores where
  "cores_reset = \<lparr>tm = tm_reset, sch = sched_reset\<rparr>"

text \<open>
  The commands as one step relation: states of the two cores reachable from reset. Only an ID
  that is in use exits, as the kernel, which exits the running thread, takes care of; the core
  itself does not check it. Writing table entries directly, which the core only accepts while it is
  stopped, is left out. The scheduling parameter of a thread is set through the scheduler's
  bus port, which leaves the table alone.
\<close>

inductive tm_reach :: "cores \<Rightarrow> bool" where
  reset: "tm_reach cores_reset"
| create: "tm_reach c \<Longrightarrow> tm_create det (tm c) = (r, s') \<Longrightarrow> tm_reach (c\<lparr>tm := s'\<rparr>)"
| clear: "tm_reach c \<Longrightarrow> tm_clear t (tm c) = (r, s') \<Longrightarrow> tm_reach (c\<lparr>tm := s'\<rparr>)"
| join: "tm_reach c \<Longrightarrow> tm_join t (tm c) = (r, s') \<Longrightarrow> tm_reach (c\<lparr>tm := s'\<rparr>)"
| add: "tm_reach c \<Longrightarrow> tm_add t c = (r, ev, c') \<Longrightarrow> tm_reach c'"
| next_thread: "tm_reach c \<Longrightarrow> tm_next a c = (r, c') \<Longrightarrow> tm_reach c'"
| yield: "tm_reach c \<Longrightarrow> tm_yield c = (r, ev, c') \<Longrightarrow> tm_reach c'"
| exit: "tm_reach c \<Longrightarrow> e_used (entries (tm c) t) \<Longrightarrow> tm_exit t c = (r, ev, c') \<Longrightarrow> tm_reach c'"
| scheduler: "tm_reach c \<Longrightarrow> tm_reach (c\<lparr>sch := s'\<rparr>)"
| soft_reset: "tm_reach c \<Longrightarrow> tm_reach (c\<lparr>tm := tm_reset\<rparr>)"

section \<open>The stack of free IDs\<close>

text \<open>The IDs on the stack, from the next one to be handed out.\<close>

definition free_ids :: "tm \<Rightarrow> tid list" where
  "free_ids s = map (\<lambda>i. e_slot (entries s (of_nat i))) [unat (next_ID s)..<256]"

definition tm_ok :: "tm \<Rightarrow> bool" where
  "tm_ok s \<longleftrightarrow> unat (next_ID s) \<le> 256 \<and> distinct (free_ids s) \<and>
     (\<forall>t. t \<in> set (free_ids s) \<longleftrightarrow> \<not> e_used (entries s t)) \<and>
     (\<forall>t. e_alive (entries s t) \<longrightarrow> e_used (entries s t))"

lemma ucast_next: "(ucast (w :: 9 word) :: tid) = of_nat (unat w)"
  by (simp add: of_nat_unat)

lemma bit8_next: "unat (w :: 9 word) \<le> 256 \<Longrightarrow> bit w 8 \<longleftrightarrow> unat w = 256"
proof -
  assume "unat w \<le> 256"
  moreover have "bit w 8 \<longleftrightarrow> odd (unat w div 256)"
    using bit_unsigned_iff [of w 8, where 'a = nat] by (simp add: bit_iff_odd)
  ultimately show ?thesis by (cases "unat w = 256") (auto simp: div_eq_0_iff)
qed

lemma next_ID_succ: "unat (w :: 9 word) < 256 \<Longrightarrow> unat (w + 1) = Suc (unat w)"
  by (simp add: unat_word_ariths)

lemma next_ID_pred: "(w :: 9 word) \<noteq> 0 \<Longrightarrow> unat (w - 1) = unat w - 1"
  by (metis unat_minus_one)

lemma of_nat_tid_inj: "i < 256 \<Longrightarrow> j < 256 \<Longrightarrow> (of_nat i :: tid) = of_nat j \<longleftrightarrow> i = j"
  by (simp add: word_unat_eq_iff unat_of_nat)

lemma free_ids_empty: "tm_ok s \<Longrightarrow> bit (next_ID s) 8 \<longleftrightarrow> free_ids s = []"
  by (auto simp: tm_ok_def bit8_next free_ids_def)

lemma free_ids_Cons:
  "unat (next_ID s) < 256 \<Longrightarrow> free_ids s = e_slot (entries s (ucast (next_ID s))) #
     map (\<lambda>i. e_slot (entries s (of_nat i))) [Suc (unat (next_ID s))..<256]"
  unfolding free_ids_def ucast_next by (subst upt_conv_Cons) auto

lemma create_ok:
  assumes ok: "tm_ok s" and f: "free_ids s = t # ts" and c: "tm_create det s = (r, s')"
  shows "r = id_word t \<and> free_ids s' = ts \<and> tm_ok s' \<and>
         (\<forall>u. u \<noteq> t \<longrightarrow> entries s' u = entries s u) \<and> running (entries s' t) \<and>
         e_detached (entries s' t) = det \<and> e_pid (entries s' t) = (if det then 0 else current s) \<and>
         \<not> e_joined (entries s' t)"
proof -
  have nb: "\<not> bit (next_ID s) 8" using free_ids_empty [OF ok] f by simp
  then have lt: "unat (next_ID s) < 256"
    using ok bit8_next [of "next_ID s"] by (auto simp: tm_ok_def)
  have t: "e_slot (entries s (ucast (next_ID s))) = t"
    and ts: "ts = map (\<lambda>i. e_slot (entries s (of_nat i))) [Suc (unat (next_ID s))..<256]"
    using free_ids_Cons [OF lt] f by simp_all
  let ?e = "\<lparr>e_slot = e_slot (entries s t), e_mid = 0, e_pid = (if det then 0 else current s),
     e_detached = det, e_joined = False, e_used = True, e_alive = True, e_low = 0\<rparr>"
  have r: "r = id_word t" and s': "s' = s\<lparr>entries := (entries s)(t := ?e), next_ID := next_ID s + 1\<rparr>"
    using c nb unfolding tm_create_def Let_def t by simp_all
  have slot: "e_slot (entries s' u) = e_slot (entries s u)" for u by (simp add: s')
  have free: "free_ids s' = ts"
    unfolding free_ids_def ts slot using next_ID_succ [OF lt] by (simp add: s')
  have d: "distinct (t # ts)" and m: "u \<in> set (t # ts) \<longleftrightarrow> \<not> e_used (entries s u)"
    and a: "e_alive (entries s u) \<longrightarrow> e_used (entries s u)" for u
    using ok f by (auto simp: tm_ok_def)
  have "u \<in> set ts \<longleftrightarrow> \<not> e_used (entries s' u)" for u
    using m [of u] d by (cases "u = t") (auto simp: s')
  moreover have "e_alive (entries s' u) \<longrightarrow> e_used (entries s' u)" for u
    using a [of u] by (simp add: s')
  moreover have "unat (next_ID s') \<le> 256" using next_ID_succ [OF lt] lt by (simp add: s')
  ultimately have "tm_ok s'" using d unfolding tm_ok_def free by simp
  with r free show ?thesis by (simp add: s' running_def)
qed

lemma create_full: "tm_ok s \<Longrightarrow> free_ids s = [] \<Longrightarrow> tm_create det s = (1, s)"
  by (simp add: tm_create_def free_ids_empty)

lemma clear_ok:
  assumes ok: "tm_ok s" and u: "e_used (entries s t)" "\<not> e_alive (entries s t)"
    and c: "tm_clear t s = (r, s')"
  shows "r = 0 \<and> free_ids s' = t # free_ids s \<and> tm_ok s' \<and> \<not> e_used (entries s' t)"
proof -
  have m: "v \<in> set (free_ids s) \<longleftrightarrow> \<not> e_used (entries s v)"
    and a: "e_alive (entries s v) \<longrightarrow> e_used (entries s v)" for v
    using ok by (auto simp: tm_ok_def)
  have d: "distinct (free_ids s)" using ok by (simp add: tm_ok_def)
  have "t \<notin> set (free_ids s)" using m u by blast
  then have "length (free_ids s) < 256" using d by (rule distinct_length_lt [rotated])
  then have nz: "unat (next_ID s) \<noteq> 0" by (simp add: free_ids_def)
  then have ne: "next_ID s \<noteq> 0" by auto
  obtain n where n: "n < 256" "unat (next_ID s) = Suc n" "unat (next_ID s - 1) = n"
    using nz ok next_ID_pred [OF ne] by (cases "unat (next_ID s)") (auto simp: tm_ok_def)
  have addr: "ucast (next_ID s - 1) = (of_nat n :: tid)" using n(3) ucast_next by metis
  let ?a = "of_nat n :: tid"
  have r: "r = 0" and next': "next_ID s' = next_ID s - 1"
    and slot: "\<And>v. e_slot (entries s' v) = (if v = ?a then t else e_slot (entries s v))"
    and used: "\<And>v. e_used (entries s' v) = (v \<noteq> t \<and> e_used (entries s v))"
    and alive: "\<And>v. e_alive (entries s' v) = (v \<noteq> t \<and> e_alive (entries s v))"
    using c u ne unfolding tm_clear_def Let_def by (auto simp: addr split: if_splits)
  have "free_ids s' = map (\<lambda>i. e_slot (entries s' (of_nat i))) (n # [Suc n..<256])"
    unfolding free_ids_def next' n(3) using n(1) by (subst upt_conv_Cons) simp_all
  also have "\<dots> = t # free_ids s"
    unfolding free_ids_def n(2) using n(1) by (simp add: slot of_nat_tid_inj)
  finally have free: "free_ids s' = t # free_ids s" .
  have "tm_ok s'"
    unfolding tm_ok_def free next' n(3)
    using n(1) d m a used alive \<open>t \<notin> set (free_ids s)\<close> by auto
  with r free used show ?thesis by simp
qed

lemma free_ids_frame:
  "next_ID s' = next_ID s \<Longrightarrow> (\<And>u. e_slot (entries s' u) = e_slot (entries s u)) \<Longrightarrow>
   free_ids s' = free_ids s"
  by (simp add: free_ids_def)

lemma tm_ok_frame:
  assumes "tm_ok s" and "next_ID s' = next_ID s"
    and "\<And>u. e_slot (entries s' u) = e_slot (entries s u)"
    and "\<And>u. e_used (entries s' u) = e_used (entries s u)"
    and "\<And>u. e_alive (entries s' u) \<Longrightarrow> e_alive (entries s u)"
  shows "tm_ok s'"
  using assms free_ids_frame [OF assms(2,3)] unfolding tm_ok_def by metis

lemma join_ok: "tm_ok s \<Longrightarrow> tm_ok (snd (tm_join t s))"
  by (erule tm_ok_frame) (simp_all add: tm_join_def Let_def split: if_splits)

lemma reset_tm_ok: "tm_ok tm_reset \<and> free_ids tm_reset = map of_nat [0..<256]"
proof -
  have free: "free_ids tm_reset = map of_nat [0..<256]"
    by (simp add: free_ids_def tm_reset_def)
  have "inj_on (of_nat :: nat \<Rightarrow> tid) (set [0..<256])"
    by (auto intro!: inj_onI simp: of_nat_tid_inj)
  then have "distinct (free_ids tm_reset)" unfolding free by (simp add: distinct_map)
  moreover have "t \<in> set (free_ids tm_reset)" for t
    unfolding free using unat_bound [of t] by (auto intro!: image_eqI [of _ _ "unat t"])
  ultimately show ?thesis using free by (simp add: tm_ok_def) (simp add: tm_reset_def)
qed

section \<open>Every command keeps the table and the stack in agreement\<close>

lemma do_enqueue_tm: "do_enqueue t c = (d, ev, c') \<Longrightarrow> tm c' = tm c"
  by (auto simp: do_enqueue_def split: prod.splits)

lemma do_dequeue_tm: "do_dequeue c = (d, c') \<Longrightarrow> tm c' = tm c"
  by (auto simp: do_dequeue_def split: prod.splits)

lemma tm_add_tm: "tm_add t c = (r, ev, c') \<Longrightarrow> tm c' = tm c"
  by (auto simp: tm_add_def Let_def dest: do_enqueue_tm split: if_splits prod.splits)

lemma tm_next_entries:
  "tm_next a c = (r, c') \<Longrightarrow> entries (tm c') = entries (tm c) \<and> next_ID (tm c') = next_ID (tm c)"
  by (auto simp: tm_next_def Let_def tm_raise_def set_current_def
      dest: do_dequeue_tm split: if_splits prod.splits)

lemma tm_yield_entries:
  "tm_yield c = (r, ev, c') \<Longrightarrow> entries (tm c') = entries (tm c) \<and> next_ID (tm c') = next_ID (tm c)"
  by (auto simp: tm_yield_def Let_def set_current_def
      dest!: do_dequeue_tm do_enqueue_tm split: if_splits prod.splits)

lemma tm_exit_entries:
  "tm_exit t c = (r, ev, c') \<Longrightarrow>
   entries (tm c') = (entries (tm c))(t := (entries (tm c) t)\<lparr>e_used := True, e_alive := False\<rparr>) \<and>
   next_ID (tm c') = next_ID (tm c)"
  by (auto simp: tm_exit_def Let_def dest!: do_enqueue_tm split: if_splits prod.splits)

lemma tm_ok_entries:
  "tm_ok s \<Longrightarrow> entries s' = entries s \<and> next_ID s' = next_ID s \<Longrightarrow> tm_ok s'"
  by (erule tm_ok_frame) auto

lemma clear_refused:
  "\<not> (e_used (entries s t) \<and> \<not> e_alive (entries s t)) \<Longrightarrow>
   tm_clear t s = (err_word (entries s t) CLEAR_ERROR_NOT_USED, s)"
  by (auto simp: tm_clear_def Let_def)

lemma create_keeps_ok:
  assumes "tm_ok s" and "tm_create det s = (r, s')" shows "tm_ok s'"
proof (cases "free_ids s")
  case Nil
  with create_full [OF assms(1) Nil, of det] assms show ?thesis by simp
next
  case (Cons t ts)
  from create_ok [OF assms(1) Cons assms(2)] show ?thesis by blast
qed

lemma clear_keeps_ok:
  assumes "tm_ok s" and "tm_clear t s = (r, s')" shows "tm_ok s'"
proof (cases "e_used (entries s t) \<and> \<not> e_alive (entries s t)")
  case True
  with clear_ok [OF assms(1) _ _ assms(2)] show ?thesis by blast
next
  case False
  with clear_refused [OF False] assms show ?thesis by simp
qed

lemma exit_keeps_ok:
  assumes "tm_ok (tm c)" and "e_used (entries (tm c) t)" and "tm_exit t c = (r, ev, c')"
  shows "tm_ok (tm c')"
  using assms(1)
  by (rule tm_ok_frame) (use assms(2) tm_exit_entries [OF assms(3)] in \<open>auto split: if_splits\<close>)

lemma tm_reach_ok: "tm_reach c \<Longrightarrow> tm_ok (tm c)"
proof (induction rule: tm_reach.induct)
  case reset
  show ?case using reset_tm_ok by (simp add: cores_reset_def)
next
  case (create c det r s')
  then show ?case using create_keeps_ok by auto
next
  case (clear c t r s')
  then show ?case using clear_keeps_ok by auto
next
  case (join c t r s')
  then show ?case using join_ok [of "tm c" t] by simp
next
  case (add c t r ev c')
  then show ?case using tm_add_tm by metis
next
  case (next_thread c a r c')
  then show ?case using tm_next_entries tm_ok_entries by metis
next
  case (yield c r ev c')
  then show ?case using tm_yield_entries tm_ok_entries by metis
next
  case (exit c t r ev c')
  then show ?case using exit_keeps_ok by blast
qed (auto simp: reset_tm_ok)

text \<open>
  C6: After any commands of which every exit names an ID that is in use, and without direct writes to
  the table, creating a thread either hands out an ID that no existing thread has, marks exactly
  that ID as used and leaves all other entries alone, or it fails without any change because all
  256 IDs are in use. The core does not check the first condition: after the exit of an unused
  ID the same ID may be handed out twice, as the lemma \<open>exit_unused_gives_id_twice\<close> shows.
\<close>

theorem create_gives_fresh_id:
  assumes "tm_reach c" and "tm_create det (tm c) = (r, s')"
  shows "(\<exists>t. r = id_word t \<and> \<not> e_used (entries (tm c) t) \<and> running (entries s' t) \<and>
            e_detached (entries s' t) = det \<and> (\<forall>u. u \<noteq> t \<longrightarrow> entries s' u = entries (tm c) u)) \<or>
         r = 1 \<and> s' = tm c \<and> (\<forall>t. e_used (entries (tm c) t))"
proof -
  have ok: "tm_ok (tm c)" using assms(1) by (rule tm_reach_ok)
  then have m: "t \<in> set (free_ids (tm c)) \<longleftrightarrow> \<not> e_used (entries (tm c) t)" for t
    by (simp add: tm_ok_def)
  show ?thesis
  proof (cases "free_ids (tm c)")
    case Nil
    then show ?thesis using create_full [OF ok Nil, of det] assms(2) m by auto
  next
    case (Cons t ts)
    then show ?thesis using create_ok [OF ok Cons assms(2)] m [of t] by auto
  qed
qed

theorem create_gives_fresh_id_witness:
  "tm_reach cores_reset \<and> (\<exists>r s'. tm_create True (tm cores_reset) = (r, s') \<and> r = id_word 0)"
proof -
  have "fst (tm_create True (tm cores_reset)) = id_word 0"
    by (simp add: tm_create_def cores_reset_def tm_reset_def)
  then show ?thesis
    using create_gives_fresh_id [OF tm_reach.reset surjective_pairing, of True] tm_reach.reset
    by (metis surjective_pairing)
qed

text \<open>
  Thread 0 exists, ID 1 is unused. After an exit of ID 1 it can be cleared and is on the stack of
  free IDs twice, so that two creations return it, the second one while it is in use.
\<close>

lemma exit_unused_gives_id_twice:
  fixes det :: bool
  defines "s1 \<equiv> snd (tm_create det (tm cores_reset))"
  defines "s2 \<equiv> tm (snd (snd (tm_exit 1 (cores_reset\<lparr>tm := s1\<rparr>))))"
  defines "s3 \<equiv> snd (tm_create det (snd (tm_clear 1 s2)))"
  shows "\<not> e_used (entries s1 1)" "fst (tm_create det (snd (tm_clear 1 s2))) = id_word 1"
    "e_used (entries s3 1)" "fst (tm_create det s3) = id_word 1"
  unfolding s3_def s2_def s1_def
  by (simp_all add: tm_create_def tm_clear_def tm_exit_def cores_reset_def tm_reset_def no_event_def Let_def)

text \<open>
  An exited thread can be cleared, and its ID is then the next one handed out; a thread
  that is unused or has not exited cannot be cleared, and the attempt changes nothing and
  sets the error bit of the answer.
\<close>

theorem clear_recycles_id:
  assumes "tm_reach c" and "tm_clear t (tm c) = (r, s')"
  shows "if e_used (entries (tm c) t) \<and> \<not> e_alive (entries (tm c) t)
         then r = 0 \<and> \<not> e_used (entries s' t) \<and> fst (tm_create det s') = id_word t
         else s' = tm c \<and> bit r 0"
proof -
  have ok: "tm_ok (tm c)" using assms(1) by (rule tm_reach_ok)
  show ?thesis
  proof (cases "e_used (entries (tm c) t) \<and> \<not> e_alive (entries (tm c) t)")
    case True
    with clear_ok [OF ok _ _ assms(2)] have "r = 0" "free_ids s' = t # free_ids (tm c)" "tm_ok s'"
      "\<not> e_used (entries s' t)" by auto
    with create_ok [of s' t _ det, OF _ _ surjective_pairing] True show ?thesis by auto
  next
    case False
    with assms(2) clear_refused [OF False] show ?thesis
      by (auto simp: err_word_def CLEAR_ERROR_NOT_USED_def bit_or_iff)
  qed
qed

theorem clear_recycles_id_witness:
  "\<exists>c r s'. tm_reach c \<and> tm_clear 0 (tm c) = (r, s') \<and> r = 0 \<and>
     fst (tm_create True s') = id_word 0"
proof -
  define c1 where "c1 = cores_reset\<lparr>tm := snd (tm_create True (tm cores_reset))\<rparr>"
  define c2 where "c2 = snd (snd (tm_exit 0 c1))"
  have "tm_reach c1"
    unfolding c1_def using tm_reach.create [OF tm_reach.reset surjective_pairing] .
  moreover have "e_used (entries (tm c1) 0)" "e_detached (entries (tm c1) 0)"
    by (simp_all add: c1_def tm_create_def cores_reset_def tm_reset_def)
  ultimately have reach: "tm_reach c2"
    unfolding c2_def by (metis surjective_pairing tm_reach.exit)
  have "e_used (entries (tm c2) 0) \<and> \<not> e_alive (entries (tm c2) 0)"
    unfolding c2_def
    by (simp add: tm_exit_def Let_def \<open>e_detached (entries (tm c1) 0)\<close>)
  with clear_recycles_id [OF reach surjective_pairing, of 0 True] reach show ?thesis
    by (metis surjective_pairing)
qed

section \<open>Joining and exiting\<close>

lemma enqueue_queues:
  assumes "sw_range (param_ram (sch c) t)" and "do_enqueue t c = (d, ev, c')"
  shows "d = 0x80 \<and> queue_bit (thread_ram (sch c') t)"
proof -
  have "queue_bit (thread_ram (sch_link t p ((thread_ram s t)\<lparr>queue_bit := True\<rparr>) pe s) t)" for p pe s
    by (simp add: sch_link_def)
  then show ?thesis using assms
    by (auto simp: do_enqueue_def sch_enqueue_def Let_def run_encoder_def split: prod.splits if_splits)
qed

text \<open>
  C26: The two orders of joining and exiting. If the parent joins a running child first, the
  join succeeds and records it, and the later exit of the child puts the parent on the
  ready queue; if the child exits first, a later join of the parent is answered with the
  code for an exited thread, and changes nothing.
\<close>

theorem join_exit_rendezvous:
  assumes child: "running (entries (tm c) t)" "\<not> e_detached (entries (tm c) t)"
      "\<not> e_joined (entries (tm c) t)" "e_pid (entries (tm c) t) = p"
    and parent: "is_current p (tm c)" "t \<noteq> p"
  shows "(\<exists>s'. tm_join t (tm c) = (0, s') \<and>
            (\<forall>c1 r ev c2. entries (tm c1) t = entries s' t \<longrightarrow> running (entries (tm c1) p) \<longrightarrow>
               sw_range (param_ram (sch c1) p) \<longrightarrow> tm_exit t c1 = (r, ev, c2) \<longrightarrow>
               r = 0 \<and> queue_bit (thread_ram (sch c2) p) \<and> \<not> e_alive (entries (tm c2) t))) \<and>
         (\<forall>r ev c2. tm_exit t c = (r, ev, c2) \<longrightarrow>
            r = 0 \<and> sch c2 = sch c \<and>
            tm_join t (tm c2) = (THREAD_ALREADY_TERMINATED, tm c2))"
proof
  let ?e = "entries (tm c) t"
  let ?s = "(tm c)\<lparr>entries := (entries (tm c))(t := ?e\<lparr>e_joined := True\<rparr>)\<rparr>"
  have "tm_join t (tm c) = (0, ?s)"
    using child parent by (simp add: tm_join_def Let_def running_def)
  moreover have "r = 0 \<and> queue_bit (thread_ram (sch c2) p) \<and> \<not> e_alive (entries (tm c2) t)"
    if "entries (tm c1) t = entries ?s t" "running (entries (tm c1) p)"
      "sw_range (param_ram (sch c1) p)" and x: "tm_exit t c1 = (r, ev, c2)" for c1 r ev c2
  proof -
    let ?c = "c1\<lparr>tm := (tm c1)\<lparr>entries := (entries (tm c1))
      (t := (entries (tm c1) t)\<lparr>e_used := True, e_alive := False\<rparr>)\<rparr>\<rparr>"
    obtain d ev' c' where q: "do_enqueue p ?c = (d, ev', c')" by (metis prod_cases3)
    have "r = (if bit d 0 then ERROR_FROM_SCHEDULER else 0) \<and> c2 = c'"
      using x that(1,2) child parent q by (auto simp: tm_exit_def Let_def)
    with enqueue_queues [OF _ q] that(3) tm_exit_entries [OF x] show ?thesis by simp
  qed
  ultimately show "\<exists>s'. tm_join t (tm c) = (0, s') \<and>
      (\<forall>c1 r ev c2. entries (tm c1) t = entries s' t \<longrightarrow> running (entries (tm c1) p) \<longrightarrow>
        sw_range (param_ram (sch c1) p) \<longrightarrow> tm_exit t c1 = (r, ev, c2) \<longrightarrow>
        r = 0 \<and> queue_bit (thread_ram (sch c2) p) \<and> \<not> e_alive (entries (tm c2) t))"
    by blast
next
  show "\<forall>r ev c2. tm_exit t c = (r, ev, c2) \<longrightarrow> r = 0 \<and> sch c2 = sch c \<and>
      tm_join t (tm c2) = (THREAD_ALREADY_TERMINATED, tm c2)"
    using child parent by (auto simp: tm_exit_def tm_join_def is_current_def Let_def)
qed

theorem join_exit_rendezvous_witness:
  "\<exists>c. running (entries (tm c) 1) \<and> is_current 0 (tm c) \<and>
       fst (tm_join 1 (tm c)) = 0 \<and>
       fst (tm_join 1 (tm (snd (snd (tm_exit 1 c))))) = THREAD_ALREADY_TERMINATED"
proof -
  define c where "c = set_current 0 cores_reset\<lparr>tm := (tm (set_current 0 cores_reset))
    \<lparr>entries := \<lambda>t. \<lparr>e_slot = t, e_mid = 0, e_pid = 0, e_detached = False, e_joined = False,
       e_used = True, e_alive = True, e_low = 0\<rparr>\<rparr>\<rparr>"
  have h: "running (entries (tm c) 1)" "\<not> e_detached (entries (tm c) 1)"
      "\<not> e_joined (entries (tm c) 1)" "e_pid (entries (tm c) 1) = 0" "is_current 0 (tm c)"
    by (simp_all add: c_def running_def is_current_def set_current_def)
  obtain r ev c2 where x: "tm_exit 1 c = (r, ev, c2)" by (metis prod_cases3)
  from join_exit_rendezvous [OF h] x h show ?thesis by (intro exI [of _ c]) auto
qed

end
