(* ===== verification/Sync_Manager.thy ===== *)
theory Sync_Manager
  imports Wait_Queues
begin

text \<open>
  The mutex core (\<^verbatim>\<open>axi_sync_manager\<close>), one function per state machine of the core, each
  taking a bus transaction from \<^verbatim>\<open>IDLE\<close> back to \<^verbatim>\<open>IDLE\<close>: \<^verbatim>\<open>lock_fsm.vhd\<close>, \<^verbatim>\<open>unlock_fsm.vhd\<close>,
  \<^verbatim>\<open>trylock_fsm.vhd\<close>, \<^verbatim>\<open>owner_fsm.vhd\<close>, \<^verbatim>\<open>count_fsm.vhd\<close>, \<^verbatim>\<open>kind_fsm.vhd\<close>. The state is the two
  memories of the core: \<^verbatim>\<open>mutex_store.vhd\<close> (owner, next, last, kind and count of each mutex)
  and \<^verbatim>\<open>thread_store.vhd\<close> (the link of each waiting thread). The lemmas relate the linked
  representation to an abstract mutex (the queue of threads with the owner first, and the
  number of times the owner holds it).
\<close>

section \<open>State of the core\<close>

record mutex_entry =
  m_owner :: tid
  m_next :: tid
  m_last :: tid
  m_kind :: "2 word"
  m_count :: "8 word"

record sync =
  mutexes :: "mid \<Rightarrow> mutex_entry"
  tstore :: "tid \<Rightarrow> tid"

definition SYNCH_FAST :: "2 word" where "SYNCH_FAST = 0"

definition SYNCH_RECURS :: "2 word" where "SYNCH_RECURS = 1"

definition SYNCH_ERROR :: "2 word" where "SYNCH_ERROR = 2"

text \<open>\<open>data(0)\<close> and \<open>data(1)\<close> are the two most significant bits of the data bus.\<close>

definition data0 :: Huint where "data0 = 0x80000000"

definition data1 :: Huint where "data1 = 0x40000000"

definition empty_mutex :: mutex_entry where
  "empty_mutex = \<lparr>m_owner = 0, m_next = 0, m_last = 0, m_kind = 0, m_count = 0\<rparr>"

definition sync_reset :: sync where
  "sync_reset = \<lparr>mutexes = (\<lambda>_. empty_mutex), tstore = (\<lambda>_. 0)\<rparr>"

section \<open>The state machines\<close>

definition lock_fsm :: "mid \<Rightarrow> tid \<Rightarrow> sync \<Rightarrow> Huint \<times> sync" where
  "lock_fsm mutex thread s =
     (let e = mutexes s mutex in
      if m_count e = 0 then
        (0, s\<lparr>mutexes := (mutexes s)(mutex := e\<lparr>m_owner := thread, m_next := thread,
                m_last := thread, m_count := 1\<rparr>)\<rparr>)
      else if m_kind e = SYNCH_ERROR \<and> m_owner e = thread then (data0, s)
      else if m_kind e = SYNCH_RECURS \<and> m_owner e = thread then
        (0, s\<lparr>mutexes := (mutexes s)(mutex := e\<lparr>m_count := m_count e + 1\<rparr>)\<rparr>)
      else if m_next e = m_owner e then
        (data1, s\<lparr>mutexes := (mutexes s)(mutex := e\<lparr>m_next := thread, m_last := thread\<rparr>),
                tstore := (tstore s)(thread := thread)\<rparr>)
      else
        (data1, s\<lparr>mutexes := (mutexes s)(mutex := e\<lparr>m_last := thread\<rparr>),
                tstore := (tstore s)(m_last e := thread, thread := thread)\<rparr>))"

text \<open>
  Unlocking returns the status, the thread announced on \<^verbatim>\<open>sena\<close>/\<^verbatim>\<open>sid\<close> (the core's master port
  then adds it to the ready queue) and the new state. The calling thread is not an input
  of this machine.
\<close>

definition unlock_fsm :: "mid \<Rightarrow> sync \<Rightarrow> Huint \<times> tid option \<times> sync" where
  "unlock_fsm mutex s =
     (let e = mutexes s mutex in
      if m_kind e = SYNCH_RECURS \<and> m_count e \<noteq> 1 \<and> m_count e \<noteq> 0 then
        (0, None, s\<lparr>mutexes := (mutexes s)(mutex := e\<lparr>m_count := m_count e - 1\<rparr>)\<rparr>)
      else if m_count e = 1 then
        (if m_last e = m_owner e then
           (0, None, s\<lparr>mutexes := (mutexes s)(mutex := e\<lparr>m_owner := 0, m_count := 0,
                m_next := 0, m_last := 0\<rparr>)\<rparr>)
         else
           (0, Some (m_next e), s\<lparr>mutexes := (mutexes s)(mutex := e\<lparr>m_owner := m_next e,
                m_count := 1, m_next := tstore s (m_next e)\<rparr>)\<rparr>))
      else (data0, None, s))"

definition trylock_fsm :: "mid \<Rightarrow> tid \<Rightarrow> sync \<Rightarrow> Huint \<times> sync" where
  "trylock_fsm mutex thread s =
     (let e = mutexes s mutex in
      if m_count e = 0 then
        (0, s\<lparr>mutexes := (mutexes s)(mutex := e\<lparr>m_owner := thread, m_next := thread,
                m_last := thread, m_count := 1\<rparr>)\<rparr>)
      else if m_kind e = SYNCH_RECURS \<and> m_owner e = thread then
        (0, s\<lparr>mutexes := (mutexes s)(mutex := e\<lparr>m_count := m_count e + 1\<rparr>)\<rparr>)
      else (data1, s))"

definition owner_fsm :: "mid \<Rightarrow> sync \<Rightarrow> Huint" where
  "owner_fsm mutex s = ucast (m_owner (mutexes s mutex))"

definition count_fsm :: "mid \<Rightarrow> sync \<Rightarrow> Huint" where
  "count_fsm mutex s = ucast (m_count (mutexes s mutex))"

definition kind_fsm_read :: "mid \<Rightarrow> sync \<Rightarrow> Huint" where
  "kind_fsm_read mutex s = ucast (m_kind (mutexes s mutex))"

definition kind_fsm_write :: "mid \<Rightarrow> Huint \<Rightarrow> sync \<Rightarrow> sync" where
  "kind_fsm_write mutex datain s =
     s\<lparr>mutexes := (mutexes s)(mutex := (mutexes s mutex)\<lparr>m_kind := ucast datain\<rparr>)\<rparr>"

section \<open>Abstract mutexes\<close>

text \<open>
  An abstract mutex is the list of threads that hold or wait for it (the owner first) and
  the number of times the owner holds it.
\<close>

type_synonym amutex = "tid list \<times> nat"

definition spec_lock :: "2 word \<Rightarrow> tid \<Rightarrow> amutex \<Rightarrow> Huint \<times> amutex" where
  "spec_lock kind t a =
     (case a of
        ([], c) \<Rightarrow> (0, ([t], 1))
      | (w # ws, c) \<Rightarrow>
          if w = t \<and> kind = SYNCH_ERROR then (data0, a)
          else if w = t \<and> kind = SYNCH_RECURS then (0, (w # ws, Suc c))
          else (data1, (w # ws @ [t], c)))"

definition spec_unlock :: "amutex \<Rightarrow> Huint \<times> tid option \<times> amutex" where
  "spec_unlock a =
     (case a of
        ([], c) \<Rightarrow> (data0, None, a)
      | ([w], c) \<Rightarrow> if 1 < c then (0, None, ([w], c - 1)) else (0, None, ([], 0))
      | (w # v # vs, c) \<Rightarrow>
          if 1 < c then (0, None, (w # v # vs, c - 1)) else (0, Some v, (v # vs, 1)))"

definition spec_trylock :: "2 word \<Rightarrow> tid \<Rightarrow> amutex \<Rightarrow> Huint \<times> amutex" where
  "spec_trylock kind t a =
     (case a of
        ([], c) \<Rightarrow> (0, ([t], 1))
      | (w # ws, c) \<Rightarrow>
          if w = t \<and> kind = SYNCH_RECURS then (0, (w # ws, Suc c)) else (data1, a))"

text \<open>The representation of one mutex, and of the whole bank.\<close>

definition mutex_repr :: "(tid \<Rightarrow> tid) \<Rightarrow> mutex_entry \<Rightarrow> amutex \<Rightarrow> bool" where
  "mutex_repr tn e a \<longleftrightarrow>
     m_count e = of_nat (snd a) \<and> snd a < 256 \<and> (snd a = 0 \<longleftrightarrow> fst a = []) \<and>
     (m_kind e \<noteq> SYNCH_RECURS \<longrightarrow> snd a \<le> 1) \<and> distinct (fst a) \<and>
     (case fst a of
        [] \<Rightarrow> True
      | w # ws \<Rightarrow> m_owner e = w \<and>
          (if ws = [] then m_next e = w \<and> m_last e = w
           else m_next e = hd ws \<and> m_last e = last ws \<and> linked tn ws \<and>
                tn (last ws) = last ws))"

definition sync_repr :: "sync \<Rightarrow> (mid \<Rightarrow> amutex) \<Rightarrow> bool" where
  "sync_repr s A \<longleftrightarrow>
     (\<forall>m. mutex_repr (tstore s) (mutexes s m) (A m)) \<and>
     (\<forall>m n. m \<noteq> n \<longrightarrow> set (tl (fst (A m))) \<inter> set (tl (fst (A n))) = {})"

text \<open>
  When a thread may issue a lock: it is waiting for no mutex, and it does not lock a
  mutex it already owns unless the mutex is error-checking or recursive with a count
  below the capacity of the counter.
\<close>

definition lock_ok :: "(mid \<Rightarrow> amutex) \<Rightarrow> 2 word \<Rightarrow> mid \<Rightarrow> tid \<Rightarrow> bool" where
  "lock_ok A kind m t \<longleftrightarrow>
     (\<forall>l. t \<notin> set (tl (fst (A l)))) \<and>
     (fst (A m) \<noteq> [] \<and> hd (fst (A m)) = t \<longrightarrow>
        kind = SYNCH_ERROR \<or> kind = SYNCH_RECURS \<and> snd (A m) < 255)"

text \<open>Sequences of transactions, on the core and on the abstract bank.\<close>

datatype sync_op = Lock mid tid | Unlock mid | Trylock mid tid

fun sync_step :: "sync_op \<Rightarrow> sync \<Rightarrow> (Huint \<times> tid option) \<times> sync" where
  "sync_step (Lock m t) s = (case lock_fsm m t s of (r, s') \<Rightarrow> ((r, None), s'))"
| "sync_step (Unlock m) s = (case unlock_fsm m s of (r, w, s') \<Rightarrow> ((r, w), s'))"
| "sync_step (Trylock m t) s = (case trylock_fsm m t s of (r, s') \<Rightarrow> ((r, None), s'))"

fun bank_step :: "(mid \<Rightarrow> 2 word) \<Rightarrow> sync_op \<Rightarrow> (mid \<Rightarrow> amutex) \<Rightarrow>
    (Huint \<times> tid option) \<times> (mid \<Rightarrow> amutex)" where
  "bank_step K (Lock m t) A = (case spec_lock (K m) t (A m) of (r, a) \<Rightarrow> ((r, None), A(m := a)))"
| "bank_step K (Unlock m) A = (case spec_unlock (A m) of (r, w, a) \<Rightarrow> ((r, w), A(m := a)))"
| "bank_step K (Trylock m t) A =
     (case spec_trylock (K m) t (A m) of (r, a) \<Rightarrow> ((r, None), A(m := a)))"

fun bank_ok :: "(mid \<Rightarrow> 2 word) \<Rightarrow> sync_op \<Rightarrow> (mid \<Rightarrow> amutex) \<Rightarrow> bool" where
  "bank_ok K (Lock m t) A = lock_ok A (K m) m t"
| "bank_ok K (Unlock m) A = True"
| "bank_ok K (Trylock m t) A = (K m = SYNCH_RECURS \<longrightarrow> snd (A m) < 255)"

primrec sync_run :: "sync_op list \<Rightarrow> sync \<Rightarrow> (Huint \<times> tid option) list \<times> sync" where
  "sync_run [] s = ([], s)"
| "sync_run (c # cs) s =
     (case sync_step c s of (r, s') \<Rightarrow> (case sync_run cs s' of (rs, s'') \<Rightarrow> (r # rs, s'')))"

primrec bank_run :: "(mid \<Rightarrow> 2 word) \<Rightarrow> sync_op list \<Rightarrow> (mid \<Rightarrow> amutex) \<Rightarrow>
    (Huint \<times> tid option) list \<times> (mid \<Rightarrow> amutex)" where
  "bank_run K [] A = ([], A)"
| "bank_run K (c # cs) A =
     (case bank_step K c A of (r, A') \<Rightarrow> (case bank_run K cs A' of (rs, A'') \<Rightarrow> (r # rs, A'')))"

primrec bank_run_ok :: "(mid \<Rightarrow> 2 word) \<Rightarrow> sync_op list \<Rightarrow> (mid \<Rightarrow> amutex) \<Rightarrow> bool" where
  "bank_run_ok K [] A = True"
| "bank_run_ok K (c # cs) A = (bank_ok K c A \<and> bank_run_ok K cs (snd (bank_step K c A)))"

text \<open>
  The bank of mutexes as a bank of FIFO queues: a lock enters the queue, and an unlock
  takes the owner out of it.
\<close>

definition mutex_enq :: "mid \<Rightarrow> tid \<Rightarrow> sync \<Rightarrow> sync" where
  "mutex_enq m t s = snd (lock_fsm m t s)"

definition mutex_deq :: "mid \<Rightarrow> sync \<Rightarrow> tid option \<times> sync" where
  "mutex_deq m s =
     (if m_count (mutexes s m) = 0 then None else Some (m_owner (mutexes s m)),
      snd (snd (unlock_fsm m s)))"

definition held_once :: "(mid \<Rightarrow> tid list) \<Rightarrow> mid \<Rightarrow> amutex" where
  "held_once q m = (q m, if q m = [] then 0 else 1)"

definition mutex_queues :: "sync \<Rightarrow> (mid \<Rightarrow> tid list) \<Rightarrow> bool" where
  "mutex_queues s q \<longleftrightarrow> sync_repr s (held_once q)"

section \<open>Facts about the representation\<close>

lemmas sync_codes [status_defs] =
  data0_def data1_def SYNCH_FAST_def SYNCH_RECURS_def SYNCH_ERROR_def

lemmas sync_fsms [core_defs] =
  lock_fsm_def unlock_fsm_def trylock_fsm_def owner_fsm_def count_fsm_def
  kind_fsm_read_def kind_fsm_write_def

lemma unat_of_count: "c < 256 \<Longrightarrow> unat (of_nat c :: 8 word) = c"
  by (simp add: unat_of_nat)

lemma of_nat_count_eq_0: "c < 256 \<Longrightarrow> (of_nat c :: 8 word) = 0 \<longleftrightarrow> c = 0"
  by (simp add: word_unat_eq_iff unat_of_count)

lemma of_nat_count_eq_1: "c < 256 \<Longrightarrow> (of_nat c :: 8 word) = 1 \<longleftrightarrow> c = 1"
  by (simp add: word_unat_eq_iff unat_of_count)

lemmas count_simps = of_nat_count_eq_0 of_nat_count_eq_1

text \<open>Frame: a chain is not affected by a link of a thread outside it.\<close>

lemma mutex_repr_frame:
  assumes "mutex_repr tn e a" and "\<And>x. x \<in> set (tl (fst a)) \<Longrightarrow> tn' x = tn x"
  shows "mutex_repr tn' e a"
proof -
  have "linked tn' ws = linked tn ws" if "fst a = w # ws" for w ws
    using assms(2) that by (intro linked_cong) (auto dest: in_set_butlastD)
  then show ?thesis
    using assms by (auto simp: mutex_repr_def split: list.splits)
qed

lemma sync_repr_mutex: "sync_repr s A \<Longrightarrow> mutex_repr (tstore s) (mutexes s m) (A m)"
  by (simp add: sync_repr_def)

lemma sync_reprI:
  assumes "sync_repr s A" and "mutex_repr tn e a"
    and "\<And>l x. l \<noteq> m \<Longrightarrow> x \<in> set (tl (fst (A l))) \<Longrightarrow> tn x = tstore s x"
    and "\<And>l. l \<noteq> m \<Longrightarrow> set (tl (fst a)) \<inter> set (tl (fst (A l))) = {}"
  shows "sync_repr (s\<lparr>mutexes := (mutexes s)(m := e), tstore := tn\<rparr>) (A(m := a))"
  using assms by (auto simp: sync_repr_def intro: mutex_repr_frame)

lemma mutex_repr_take:
  "mutex_repr tn (e\<lparr>m_owner := t, m_next := t, m_last := t, m_count := 1\<rparr>) ([t], Suc 0)"
  by (simp add: mutex_repr_def)

lemma mutex_repr_free:
  "mutex_repr tn (e\<lparr>m_owner := a, m_count := 0, m_next := b, m_last := c\<rparr>) ([], 0)"
  by (simp add: mutex_repr_def)

lemma mutex_repr_recount:
  assumes "mutex_repr tn e (w # ws, c)" and "0 < d" "d < 256"
    and "m_kind e = SYNCH_RECURS \<or> d = 1"
  shows "mutex_repr tn (e\<lparr>m_count := of_nat d\<rparr>) (w # ws, d)"
  using assms by (auto simp: mutex_repr_def)

lemma mutex_repr_first_waiter:
  assumes "mutex_repr tn e ([w], c)" and "t \<noteq> w"
  shows "mutex_repr (tn(t := t)) (e\<lparr>m_next := t, m_last := t\<rparr>) ([w, t], c)"
  using assms by (auto simp: mutex_repr_def)

lemma mutex_repr_append:
  assumes "mutex_repr tn e (w # ws, c)" and "t \<notin> set (w # ws)" and "ws \<noteq> []"
  shows "mutex_repr (tn(m_last e := t, t := t)) (e\<lparr>m_last := t\<rparr>) (w # ws @ [t], c)"
proof -
  have last: "m_last e = last ws" and ne: "last ws \<noteq> t" and d: "distinct ws" and l: "linked tn ws"
    using assms by (auto simp: mutex_repr_def)
  have "linked (tn(last ws := t, t := t)) (ws @ [t])"
    using assms(2,3) d l by (intro linked_snoc_fresh) auto
  then show ?thesis
    using assms last ne by (auto simp: mutex_repr_def)
qed

lemma mutex_repr_handover:
  assumes "mutex_repr tn e (w # v # vs, c)"
  shows "mutex_repr tn (e\<lparr>m_owner := m_next e, m_count := 1, m_next := tn (m_next e)\<rparr>) (v # vs, 1)"
  using assms by (cases vs) (auto simp: mutex_repr_def)

text \<open>Which of the tests of the state machines hold in a represented state.\<close>

lemma mutex_repr_tests:
  assumes "mutex_repr tn e a"
  shows "m_count e = 0 \<longleftrightarrow> fst a = []" and "m_count e = 1 \<longleftrightarrow> snd a = 1"
    and "fst a = w # ws \<Longrightarrow> m_owner e = w"
    and "fst a = w # ws \<Longrightarrow> m_next e = m_owner e \<longleftrightarrow> ws = []"
    and "fst a = w # ws \<Longrightarrow> m_last e = m_owner e \<longleftrightarrow> ws = []"
    and "fst a = w # v # vs \<Longrightarrow> m_next e = v"
    and "m_kind e \<noteq> SYNCH_RECURS \<Longrightarrow> snd a \<le> 1"
  using assms by (auto simp: mutex_repr_def count_simps split: if_splits dest: notin_ends)

lemma sync_repr_disjoint:
  "sync_repr s A \<Longrightarrow> A m = (w # ws, c) \<Longrightarrow> l \<noteq> m \<Longrightarrow> set ws \<inter> set (tl (fst (A l))) = {}"
  unfolding sync_repr_def by (metis fst_conv list.sel(3))

lemma sync_repr_same: "sync_repr s A \<Longrightarrow> A m = a \<Longrightarrow> sync_repr s (A(m := a))"
  by auto

section \<open>Every state machine refines the abstract mutex\<close>

lemma lock_free_refines:
  assumes R: "sync_repr s A" and A: "A m = ([], c)"
  shows "fst (lock_fsm m t s) = 0 \<and> sync_repr (snd (lock_fsm m t s)) (A(m := ([t], Suc 0)))"
proof -
  have "sync_repr (s\<lparr>mutexes := (mutexes s)(m := (mutexes s m)\<lparr>m_owner := t, m_next := t,
      m_last := t, m_count := 1\<rparr>), tstore := tstore s\<rparr>) (A(m := ([t], Suc 0)))"
    by (rule sync_reprI [OF R mutex_repr_take]) auto
  with A mutex_repr_tests(1) [OF sync_repr_mutex [OF R, of m]] show ?thesis
    by (simp add: lock_fsm_def)
qed

lemma lock_recursive_refines:
  assumes R: "sync_repr s A" and A: "A m = (t # ws, c)"
    and k: "m_kind (mutexes s m) = SYNCH_RECURS" and c: "c < 255"
  shows "fst (lock_fsm m t s) = 0 \<and> sync_repr (snd (lock_fsm m t s)) (A(m := (t # ws, Suc c)))"
proof -
  let ?e = "mutexes s m"
  have rep: "mutex_repr (tstore s) ?e (t # ws, c)"
    using sync_repr_mutex [OF R, of m] A by simp
  have cnt: "m_count ?e + 1 = of_nat (Suc c)" using rep by (simp add: mutex_repr_def)
  have "sync_repr (s\<lparr>mutexes := (mutexes s)(m := ?e\<lparr>m_count := of_nat (Suc c)\<rparr>),
      tstore := tstore s\<rparr>) (A(m := (t # ws, Suc c)))"
    using k c sync_repr_disjoint [OF R A]
    by (intro sync_reprI [OF R mutex_repr_recount [OF rep]]) auto
  then show ?thesis
    using k cnt mutex_repr_tests [OF rep]
    by (simp add: lock_fsm_def SYNCH_RECURS_def SYNCH_ERROR_def add.commute)
qed

lemma lock_blocks_refines:
  assumes R: "sync_repr s A" and A: "A m = (w # ws, c)"
    and t: "t \<notin> set (w # ws)" and out: "\<And>l. t \<notin> set (tl (fst (A l)))"
  shows "fst (lock_fsm m t s) = data1 \<and>
         sync_repr (snd (lock_fsm m t s)) (A(m := (w # ws @ [t], c)))"
proof -
  let ?e = "mutexes s m"
  have rep: "mutex_repr (tstore s) ?e (w # ws, c)"
    using sync_repr_mutex [OF R, of m] A by simp
  note tests = mutex_repr_tests [OF rep]
  note disj = sync_repr_disjoint [OF R A]
  show ?thesis
  proof (cases "ws = []")
    case True
    then have "sync_repr (s\<lparr>mutexes := (mutexes s)(m := ?e\<lparr>m_next := t, m_last := t\<rparr>),
        tstore := (tstore s)(t := t)\<rparr>) (A(m := ([w, t], c)))"
      using t out rep by (intro sync_reprI [OF R mutex_repr_first_waiter]) auto
    with True t tests show ?thesis by (auto simp: lock_fsm_def Let_def)
  next
    case False
    then have "m_last ?e \<in> set ws" using rep by (auto simp: mutex_repr_def)
    then have "sync_repr (s\<lparr>mutexes := (mutexes s)(m := ?e\<lparr>m_last := t\<rparr>),
        tstore := (tstore s)(m_last ?e := t, t := t)\<rparr>) (A(m := (w # ws @ [t], c)))"
      using t out rep disj False by (intro sync_reprI [OF R mutex_repr_append]) auto
    with False t tests show ?thesis by (auto simp: lock_fsm_def Let_def)
  qed
qed

lemma lock_refines:
  assumes R: "sync_repr s A" and ok: "lock_ok A (m_kind (mutexes s m)) m t"
  shows "fst (lock_fsm m t s) = fst (spec_lock (m_kind (mutexes s m)) t (A m)) \<and>
         sync_repr (snd (lock_fsm m t s))
           (A(m := snd (spec_lock (m_kind (mutexes s m)) t (A m))))"
proof (cases "A m")
  case (Pair q c)
  show ?thesis
  proof (cases q)
    case Nil
    with Pair lock_free_refines [OF R, of m c t] show ?thesis by (simp add: spec_lock_def)
  next
    case (Cons w ws)
    with Pair have A: "A m = (w # ws, c)" by simp
    have out: "t \<notin> set (tl (fst (A l)))" for l using ok by (simp add: lock_ok_def)
    note tests = mutex_repr_tests [OF sync_repr_mutex [OF R, of m], unfolded A]
    show ?thesis
    proof (cases "w = t")
      case True
      then have "m_kind (mutexes s m) = SYNCH_ERROR \<or> m_kind (mutexes s m) = SYNCH_RECURS \<and> c < 255"
        using ok A by (simp add: lock_ok_def)
      then show ?thesis
        using True A lock_recursive_refines [OF R, of m t ws c] tests sync_repr_same [OF R A]
        by (auto simp: spec_lock_def lock_fsm_def SYNCH_RECURS_def SYNCH_ERROR_def)
    next
      case False
      with out [of m] A have "t \<notin> set (w # ws)" by auto
      with lock_blocks_refines [OF R A this out] A False show ?thesis
        by (simp add: spec_lock_def)
    qed
  qed
qed

lemma sync_repr_upd1:
  assumes "sync_repr s A" and "mutex_repr (tstore s) e a"
    and "set (tl (fst a)) \<subseteq> set (tl (fst (A m)))"
  shows "sync_repr (s\<lparr>mutexes := (mutexes s)(m := e)\<rparr>) (A(m := a))"
proof -
  have "set (tl (fst a)) \<inter> set (tl (fst (A l))) = {}" if "l \<noteq> m" for l
    using assms(1,3) that unfolding sync_repr_def by blast
  then show ?thesis
    using sync_reprI [OF assms(1,2), of m] by simp
qed

lemma unlock_nested_refines:
  assumes R: "sync_repr s A" and A: "A m = (w # ws, c)" and c: "1 < c"
  shows "unlock_fsm m s = (0, None, snd (snd (unlock_fsm m s))) \<and>
         sync_repr (snd (snd (unlock_fsm m s))) (A(m := (w # ws, c - 1)))"
proof -
  let ?e = "mutexes s m"
  have rep: "mutex_repr (tstore s) ?e (w # ws, c)"
    using sync_repr_mutex [OF R, of m] A by simp
  then have c256: "c < 256" and cnt: "m_count ?e - 1 = of_nat (c - 1)"
    using c by (auto simp: mutex_repr_def of_nat_diff)
  have k: "m_kind ?e = SYNCH_RECURS" using mutex_repr_tests(7) [OF rep] c by auto
  have "mutex_repr (tstore s) (?e\<lparr>m_count := of_nat (c - 1)\<rparr>) (w # ws, c - 1)"
    using c c256 k by (intro mutex_repr_recount [OF rep]) auto
  from sync_repr_upd1 [OF R this, of m] show ?thesis
    using k cnt A c mutex_repr_tests(1,2) [OF rep] by (auto simp: unlock_fsm_def Let_def)
qed

lemma unlock_last_refines:
  assumes R: "sync_repr s A" and A: "A m = ([w], 1)"
  shows "unlock_fsm m s = (0, None, snd (snd (unlock_fsm m s))) \<and>
         sync_repr (snd (snd (unlock_fsm m s))) (A(m := ([], 0)))"
proof -
  have rep: "mutex_repr (tstore s) (mutexes s m) ([w], 1)"
    using sync_repr_mutex [OF R, of m] A by simp
  show ?thesis
    using sync_repr_upd1 [OF R mutex_repr_free, of m] mutex_repr_tests(1,2,5) [OF rep]
    by (simp add: unlock_fsm_def Let_def)
qed

lemma unlock_hands_over:
  assumes R: "sync_repr s A" and A: "A m = (w # v # vs, 1)"
  shows "unlock_fsm m s = (0, Some v, snd (snd (unlock_fsm m s))) \<and>
         sync_repr (snd (snd (unlock_fsm m s))) (A(m := (v # vs, 1)))"
proof -
  have rep: "mutex_repr (tstore s) (mutexes s m) (w # v # vs, 1)"
    using sync_repr_mutex [OF R, of m] A by simp
  show ?thesis
    using sync_repr_upd1 [OF R mutex_repr_handover [OF rep], of m]
      mutex_repr_tests(1,2,5,6) [OF rep] A
    by (auto simp: unlock_fsm_def Let_def)
qed

lemma unlock_refines:
  assumes R: "sync_repr s A"
  shows "\<exists>s'. unlock_fsm m s =
           (fst (spec_unlock (A m)), fst (snd (spec_unlock (A m))), s') \<and>
         sync_repr s' (A(m := snd (snd (spec_unlock (A m)))))"
proof (cases "A m")
  case (Pair q c)
  have rep: "mutex_repr (tstore s) (mutexes s m) (q, c)"
    using sync_repr_mutex [OF R, of m] Pair by simp
  show ?thesis
  proof (cases "1 < c")
    case True
    then have "q \<noteq> []" using rep by (auto simp: mutex_repr_def)
    then obtain w ws where q: "q = w # ws" by (cases q) auto
    with unlock_nested_refines [OF R, of m w ws c] Pair True show ?thesis
      by (cases ws) (auto simp: spec_unlock_def)
  next
    case False
    then have c: "c = (if q = [] then 0 else 1)" using rep by (auto simp: mutex_repr_def)
    consider "q = []" | w where "q = [w]" | w v vs where "q = w # v # vs"
      by (metis neq_Nil_conv)
    then show ?thesis
    proof cases
      case 1
      with c Pair mutex_repr_tests(1,2) [OF rep] sync_repr_same [OF R Pair] show ?thesis
        by (simp add: spec_unlock_def unlock_fsm_def Let_def)
    next
      case 2
      with c Pair unlock_last_refines [OF R, of m w] show ?thesis
        by (auto simp: spec_unlock_def)
    next
      case 3
      with c Pair unlock_hands_over [OF R, of m w v vs] show ?thesis
        by (auto simp: spec_unlock_def)
    qed
  qed
qed

lemma trylock_refines:
  assumes R: "sync_repr s A"
    and ok: "m_kind (mutexes s m) = SYNCH_RECURS \<Longrightarrow> snd (A m) < 255"
  shows "fst (trylock_fsm m t s) = fst (spec_trylock (m_kind (mutexes s m)) t (A m)) \<and>
         sync_repr (snd (trylock_fsm m t s))
           (A(m := snd (spec_trylock (m_kind (mutexes s m)) t (A m))))"
proof (cases "A m")
  case (Pair q c)
  show ?thesis
  proof (cases q)
    case Nil
    then have "trylock_fsm m t s = lock_fsm m t s"
      using Pair mutex_repr_tests(1) [OF sync_repr_mutex [OF R, of m]]
      by (simp add: trylock_fsm_def lock_fsm_def)
    with Nil Pair lock_free_refines [OF R, of m c t] show ?thesis
      by (simp add: spec_trylock_def)
  next
    case (Cons w ws)
    note tests = mutex_repr_tests [OF sync_repr_mutex [OF R, of m], unfolded Pair Cons]
    have "trylock_fsm m t s = (if m_kind (mutexes s m) = SYNCH_RECURS \<and> w = t
        then lock_fsm m t s else (data1, s))"
      using tests by (auto simp: trylock_fsm_def lock_fsm_def Let_def SYNCH_RECURS_def SYNCH_ERROR_def)
    with Cons Pair ok lock_recursive_refines [OF R, of m t ws c] sync_repr_same [OF R Pair]
    show ?thesis by (auto simp: spec_trylock_def)
  qed
qed

lemma sync_reset_repr: "sync_repr sync_reset (\<lambda>_. ([], 0))"
  by (simp add: sync_repr_def sync_reset_def mutex_repr_def empty_mutex_def)

section \<open>Sequences of transactions\<close>

lemma sync_step_kind: "m_kind (mutexes (snd (sync_step c s)) l) = m_kind (mutexes s l)"
  by (cases c) (auto simp: lock_fsm_def unlock_fsm_def trylock_fsm_def Let_def)

lemma sync_step_refines:
  assumes R: "sync_repr s A" and K: "\<forall>l. K l = m_kind (mutexes s l)" and ok: "bank_ok K c A"
  shows "fst (sync_step c s) = fst (bank_step K c A) \<and>
         sync_repr (snd (sync_step c s)) (snd (bank_step K c A))"
proof (cases c)
  case (Lock m t)
  with lock_refines [OF R, of m t] K ok show ?thesis by (auto split: prod.splits)
next
  case (Unlock m)
  with unlock_refines [OF R, of m] show ?thesis by (auto split: prod.splits)
next
  case (Trylock m t)
  with trylock_refines [OF R, of m t] K ok show ?thesis by (auto split: prod.splits)
qed

text \<open>
  C1: For every sequence of lock, unlock and trylock transactions that the threads may
  issue, the core answers what the bank of abstract mutexes answers (status and thread to
  wake, transaction by transaction) and ends in a representation of its final state.
\<close>

theorem sync_run_refines:
  assumes "sync_repr s A" and "\<forall>l. K l = m_kind (mutexes s l)" and "bank_run_ok K cs A"
  shows "fst (sync_run cs s) = fst (bank_run K cs A) \<and>
         sync_repr (snd (sync_run cs s)) (snd (bank_run K cs A))"
  using assms
proof (induction cs arbitrary: s A)
  case Nil
  then show ?case by simp
next
  case (Cons c cs)
  have ok: "bank_ok K c A" "bank_run_ok K cs (snd (bank_step K c A))"
    using Cons.prems(3) by simp_all
  have step: "fst (sync_step c s) = fst (bank_step K c A)"
      "sync_repr (snd (sync_step c s)) (snd (bank_step K c A))"
    using sync_step_refines [OF Cons.prems(1,2) ok(1)] by blast+
  have "\<forall>l. K l = m_kind (mutexes (snd (sync_step c s)) l)"
    using Cons.prems(2) by (simp add: sync_step_kind)
  from Cons.IH [OF step(2) this ok(2)] step(1) show ?case
    by (auto split: prod.splits)
qed

theorem sync_run_refines_witness:
  "bank_run_ok (\<lambda>_. 0) [Lock 0 1, Lock 0 2, Unlock 0, Trylock 0 3] (\<lambda>_. ([], 0)) \<and>
   fst (sync_run [Lock 0 1, Lock 0 2, Unlock 0, Trylock 0 3] sync_reset) =
     [(0, None), (data1, None), (0, Some 2), (data1, None)]"
proof -
  have ok: "bank_run_ok (\<lambda>_. 0) [Lock 0 1, Lock 0 2, Unlock 0, Trylock 0 3] (\<lambda>_. ([], 0))"
    by (simp add: lock_ok_def spec_lock_def spec_unlock_def sync_codes)
  have K: "\<forall>l. 0 = m_kind (mutexes sync_reset l)"
    by (simp add: sync_reset_def empty_mutex_def)
  show ?thesis
    using sync_run_refines [OF sync_reset_repr K ok] ok
    by (simp add: spec_lock_def spec_unlock_def spec_trylock_def sync_codes)
qed

section \<open>First in, first out\<close>

lemma held_once_upd: "(held_once q)(k := (ts, if ts = [] then 0 else 1)) = held_once (q(k := ts))"
  by (auto simp: held_once_def)

lemma mutex_enq_law:
  assumes "mutex_queues s q" and "t \<notin> set (q k)" and "\<And>l. t \<notin> set (tl (q l))"
  shows "mutex_queues (mutex_enq k t s) (q(k := q k @ [t]))"
proof (cases "q k")
  case Nil
  with assms lock_free_refines [of s "held_once q" k 0 t] held_once_upd [of q k "[t]"] show ?thesis
    by (simp add: mutex_queues_def mutex_enq_def held_once_def)
next
  case (Cons w ws)
  with assms lock_blocks_refines [of s "held_once q" k w ws 1 t]
    held_once_upd [of q k "w # ws @ [t]"] show ?thesis
    by (auto simp: mutex_queues_def mutex_enq_def held_once_def)
qed

lemma mutex_deq_law:
  assumes "mutex_queues s q"
  shows "fst (mutex_deq k s) = (case q k of [] \<Rightarrow> None | t # ts \<Rightarrow> Some t) \<and>
         mutex_queues (snd (mutex_deq k s)) (q(k := tl (q k)))"
proof -
  have R: "sync_repr s (held_once q)" using assms by (simp add: mutex_queues_def)
  note tests = mutex_repr_tests(1,3) [OF sync_repr_mutex [OF R, of k]]
  have "mutex_queues (snd (snd (unlock_fsm k s))) (q(k := tl (q k)))"
    using unlock_refines [OF R, of k] held_once_upd [of q k "tl (q k)"]
    by (auto simp: mutex_queues_def spec_unlock_def held_once_def split: list.splits if_splits)
  then show ?thesis
    using tests by (auto simp: mutex_deq_def held_once_def split: list.splits)
qed

interpretation mutex_bank: wait_queues mutex_queues mutex_enq mutex_deq tl "\<lambda>_. True"
proof unfold_locales
  fix s q k assume "mutex_queues s q"
  then have "mutex_repr (tstore s) (mutexes s k) (held_once q k)"
    by (simp add: mutex_queues_def sync_repr_def)
  then show "distinct (q k)" by (simp add: mutex_repr_def held_once_def)
next
  fix s q k l assume "mutex_queues s q" and "k \<noteq> (l :: mid)"
  then show "set (tl (q k)) \<inter> set (tl (q l)) = {}"
    by (auto simp: mutex_queues_def sync_repr_def held_once_def)
next
  fix xs :: "tid list" and t
  show "set (tl (xs @ [t])) \<subseteq> insert t (set (tl xs))" by (cases xs) auto
next
  fix s q k assume "mutex_queues s q" and "q k = []"
  then show "fst (mutex_deq k s) = None \<and> mutex_queues (snd (mutex_deq k s)) q"
    using mutex_deq_law [of s q k] by (simp add: fun_upd_idem)
next
  fix s q k t ts assume "mutex_queues s q" and "q k = t # ts"
  then show "fst (mutex_deq k s) = Some t \<and> mutex_queues (snd (mutex_deq k s)) (q(k := ts))"
    using mutex_deq_law [of s q k] by simp
qed (rule mutex_enq_law)

text \<open>
  C7: The mutexes are fair: whatever threads already hold or wait for a mutex, threads that
  then lock it one after another own it in exactly that order as it is unlocked.
\<close>

theorem mutex_fifo:
  assumes "mutex_queues s q" and "distinct ts" and "set ts \<inter> set (q k) = {}"
    and "\<And>l. set ts \<inter> set (tl (q l)) = {}"
  shows "fst (drain mutex_deq k (length (q k @ ts)) (fold (mutex_enq k) ts s)) = q k @ ts"
  using assms by (intro mutex_bank.fifo) simp_all

theorem mutex_fifo_witness:
  "mutex_queues sync_reset (\<lambda>_. []) \<and>
   fst (drain mutex_deq 5 3 (fold (mutex_enq 5) [7, 2, 9] sync_reset)) = [7, 2, 9]"
proof -
  have R: "mutex_queues sync_reset (\<lambda>_. [])"
    using sync_reset_repr by (simp add: mutex_queues_def held_once_def [abs_def])
  show ?thesis using mutex_fifo [OF R, of "[7, 2, 9]" 5] R by (simp add: numeral_3_eq_3)
qed

section \<open>Mutual exclusion and the width of the counter\<close>

text \<open>
  C8: A lock or trylock that succeeds makes the caller the owner, and it only succeeds on a
  mutex that is free or that the caller already owns recursively; a refused or blocked
  request leaves the owner and the count as they were.
\<close>

theorem lock_exclusive:
  assumes "f = lock_fsm \<or> f = trylock_fsm" and "f m t s = (r, s')"
  shows "if r = 0
         then owner_fsm m s' = ucast t \<and>
              (count_fsm m s = 0 \<or> kind_fsm_read m s = 1 \<and> owner_fsm m s = ucast t)
         else owner_fsm m s' = owner_fsm m s \<and> count_fsm m s' = count_fsm m s \<and>
              count_fsm m s \<noteq> 0"
  using assms
  by (auto simp: core_defs status_defs Let_def ucast_widen split: if_splits)

theorem lock_exclusive_witness:
  "lock_fsm 1 4 sync_reset = (0, snd (lock_fsm 1 4 sync_reset)) \<and>
   owner_fsm 1 (snd (lock_fsm 1 4 sync_reset)) = 4"
  using lock_exclusive [of lock_fsm 1 4 sync_reset 0 "snd (lock_fsm 1 4 sync_reset)"]
  by (simp add: lock_fsm_def sync_reset_def empty_mutex_def)

lemma lock_again:
  assumes "m_kind (mutexes s m) = 1" and "m_count (mutexes s m) = 0 \<or> m_owner (mutexes s m) = t"
  shows "m_kind (mutexes (snd (lock_fsm m t s)) m) = 1"
    and "m_owner (mutexes (snd (lock_fsm m t s)) m) = t"
    and "m_count (mutexes (snd (lock_fsm m t s)) m) = m_count (mutexes s m) + 1"
  using assms by (auto simp: lock_fsm_def Let_def status_defs)

lemma recursive_locks:
  assumes "m_kind (mutexes s m) = 1" and "m_count (mutexes s m) = 0"
  shows "m_kind (mutexes (((\<lambda>s. snd (lock_fsm m t s)) ^^ n) s) m) = 1 \<and>
     m_count (mutexes (((\<lambda>s. snd (lock_fsm m t s)) ^^ n) s) m) = of_nat n \<and>
     (0 < n \<longrightarrow> m_owner (mutexes (((\<lambda>s. snd (lock_fsm m t s)) ^^ n) s) m) = t)"
proof (induction n)
  case 0
  with assms show ?case by simp
next
  case (Suc n)
  with lock_again [of "((\<lambda>s. snd (lock_fsm m t s)) ^^ n) s" m t] show ?case
    by (cases n) (auto simp: add.commute)
qed

text \<open>
  The count of a recursive mutex has eight bits and is not checked for overflow: after
  256 successful locks by its owner the mutex counts as free, and a trylock by any other
  thread succeeds although the owner has not unlocked it once.
\<close>

theorem recursive_lock_overflow:
  "(let locks = (\<lambda>n. ((\<lambda>s. snd (lock_fsm m t s)) ^^ n) (kind_fsm_write m 1 sync_reset)) in
    map (\<lambda>n. fst (lock_fsm m t (locks n))) [0..<256] = replicate 256 0 \<and>
    owner_fsm m (locks 255) = ucast t \<and> fst (trylock_fsm m u (locks 256)) = 0)"
proof -
  let ?s = "kind_fsm_write m 1 sync_reset"
  let ?l = "\<lambda>n. ((\<lambda>s. snd (lock_fsm m t s)) ^^ n) ?s"
  have s: "m_kind (mutexes ?s m) = 1" "m_count (mutexes ?s m) = 0"
    by (simp_all add: kind_fsm_write_def sync_reset_def empty_mutex_def)
  have "fst (lock_fsm m t (?l n)) = 0" if "n < 256" for n
  proof (cases "n = 0")
    case True
    with s show ?thesis by (simp add: lock_fsm_def)
  next
    case False
    with recursive_locks [OF s, where n = n and t = t] that show ?thesis
      by (simp add: lock_fsm_def Let_def status_defs)
  qed
  then have "map (\<lambda>n. fst (lock_fsm m t (?l n))) [0..<256] = replicate 256 0"
    by (intro nth_equalityI) simp_all
  with recursive_locks [OF s, where n = 256 and t = t] recursive_locks [OF s, where n = 255 and t = t]
  show ?thesis
    by (simp add: trylock_fsm_def owner_fsm_def Let_def)
qed

end
