(* ===== verification/Cond_Vars.thy ===== *)
theory Cond_Vars
  imports Wait_Queues
begin

text \<open>
  The condition variable core (\<^verbatim>\<open>axi_cond_vars/condvar.vhd\<close>): one table holds, for each
  condition variable, the number of waiting threads, the first and the last of them, and for
  each thread the one that waits after it. A wait enqueues the caller, a signal sends the
  first waiting thread to the thread manager (a command to add it to the ready queue), a
  broadcast sends all of them. The lemmas relate the table to one FIFO list per condition
  variable.
\<close>

section \<open>State of the core\<close>

record condvar =
  cv_length :: "cvid \<Rightarrow> 8 word"
  cv_link :: "tid \<Rightarrow> tid"
  cv_last :: "cvid \<Rightarrow> tid"
  cv_owner :: "cvid \<Rightarrow> tid"

definition condvar_reset :: condvar where
  "condvar_reset = \<lparr>cv_length = (\<lambda>_. 0), cv_link = (\<lambda>_. 0), cv_last = (\<lambda>_. 0), cv_owner = (\<lambda>_. 0)\<rparr>"

section \<open>The state machine\<close>

definition cv_enqueue :: "cvid \<Rightarrow> tid \<Rightarrow> condvar \<Rightarrow> condvar" where
  "cv_enqueue cvar t s =
     (let entry = cv_length s cvar + 1;
          s1 = s\<lparr>cv_length := (cv_length s)(cvar := entry)\<rparr> in
      if entry = 1 then s1\<lparr>cv_owner := (cv_owner s1)(cvar := t), cv_last := (cv_last s1)(cvar := t)\<rparr>
      else s1\<lparr>cv_last := (cv_last s1)(cvar := t),
              cv_link := (cv_link s1)(cv_last s1 cvar := t)\<rparr>)"

text \<open>\<^verbatim>\<open>deq\<close>: the thread sent to the thread manager, if any.\<close>

definition cv_dequeue :: "cvid \<Rightarrow> condvar \<Rightarrow> tid option \<times> condvar" where
  "cv_dequeue cvar s =
     (let entry = cv_length s cvar; owner = cv_owner s cvar in
      if entry = 0 then (None, s)
      else if entry = 1 then (Some owner, s\<lparr>cv_length := (cv_length s)(cvar := 0)\<rparr>)
      else (Some owner, s\<lparr>cv_length := (cv_length s)(cvar := entry - 1),
              cv_owner := (cv_owner s)(cvar := cv_link s owner)\<rparr>))"

text \<open>\<^verbatim>\<open>deqall_remove_loop\<close>: sends \<open>entry\<close> and follows its link, \<open>n\<close> times.\<close>

primrec deqall_remove_loop :: "nat \<Rightarrow> tid \<Rightarrow> condvar \<Rightarrow> tid list" where
  "deqall_remove_loop 0 entry s = []"
| "deqall_remove_loop (Suc n) entry s = entry # deqall_remove_loop n (cv_link s entry) s"

definition cv_dequeue_all :: "cvid \<Rightarrow> condvar \<Rightarrow> tid list \<times> condvar" where
  "cv_dequeue_all cvar s =
     (let entry = cv_length s cvar in
      if entry = 0 then ([], s)
      else if entry = 1 then ([cv_owner s cvar], s\<lparr>cv_length := (cv_length s)(cvar := 0)\<rparr>)
      else (deqall_remove_loop (unat entry) (cv_owner s cvar) s,
            s\<lparr>cv_length := (cv_length s)(cvar := 0)\<rparr>))"

section \<open>The queues of waiting threads\<close>

definition cv_queue_ok :: "condvar \<Rightarrow> cvid \<Rightarrow> tid list \<Rightarrow> bool" where
  "cv_queue_ok s cvar ws \<longleftrightarrow>
     distinct ws \<and> length ws < 256 \<and> cv_length s cvar = of_nat (length ws) \<and>
     (ws \<noteq> [] \<longrightarrow> cv_owner s cvar = hd ws \<and> cv_last s cvar = last ws) \<and> linked (cv_link s) ws"

text \<open>
  \<open>cv_repr idle s q\<close>: the table holds the queues \<open>q\<close>; no thread waits twice, and the idle
  thread does not wait, so that the length of a queue fits in eight bits.
\<close>

definition cv_repr :: "tid \<Rightarrow> condvar \<Rightarrow> (cvid \<Rightarrow> tid list) \<Rightarrow> bool" where
  "cv_repr idle s q \<longleftrightarrow>
     (\<forall>v. cv_queue_ok s v (q v) \<and> idle \<notin> set (q v)) \<and>
     (\<forall>v w. v \<noteq> w \<longrightarrow> set (q v) \<inter> set (q w) = {})"

section \<open>Refinement\<close>

lemma of_nat_length_eq:
  "n < 256 \<Longrightarrow> (of_nat n :: 8 word) = 0 \<longleftrightarrow> n = 0"
  "n < 256 \<Longrightarrow> (of_nat n :: 8 word) = 1 \<longleftrightarrow> n = 1"
  by (simp_all add: word_unat_eq_iff unat_of_nat)

lemma cv_queue_ok_frame:
  assumes "cv_queue_ok s v ws" and "\<And>t. t \<in> set ws \<Longrightarrow> cv_link s' t = cv_link s t"
    and "cv_length s' v = cv_length s v" "cv_owner s' v = cv_owner s v" "cv_last s' v = cv_last s v"
  shows "cv_queue_ok s' v ws"
proof -
  have "linked (cv_link s') ws = linked (cv_link s) ws"
    using assms(2) by (rule linked_cong_set)
  then show ?thesis using assms by (simp add: cv_queue_ok_def)
qed

lemma cv_repr_upd:
  assumes R: "cv_repr idle s q" and v: "cv_queue_ok s' v ws" "idle \<notin> set ws"
    and others: "\<And>w t. w \<noteq> v \<Longrightarrow> t \<in> set (q w) \<Longrightarrow> cv_link s' t = cv_link s t"
      "\<And>w. w \<noteq> v \<Longrightarrow> cv_length s' w = cv_length s w \<and> cv_owner s' w = cv_owner s w \<and>
        cv_last s' w = cv_last s w"
    and disj: "\<And>w. w \<noteq> v \<Longrightarrow> set ws \<inter> set (q w) = {}"
  shows "cv_repr idle s' (q(v := ws))"
proof -
  have "cv_queue_ok s' w (q w)" if "w \<noteq> v" for w
  proof (rule cv_queue_ok_frame)
    show "cv_queue_ok s w (q w)" using R by (simp add: cv_repr_def)
  qed (use that others in blast)+
  moreover have "idle \<notin> set (q w)" "w \<noteq> x \<Longrightarrow> set (q w) \<inter> set (q x) = {}" for w x
    using R by (simp_all add: cv_repr_def)
  ultimately show ?thesis using v disj unfolding cv_repr_def by (simp add: Int_commute)
qed

lemma cv_enqueue_law:
  assumes R: "cv_repr idle s q" and t: "t \<noteq> idle" "\<And>w. t \<notin> set (q w)"
  shows "cv_repr idle (cv_enqueue v t s) (q(v := q v @ [t]))"
proof -
  let ?n = "length (q v)"
  have q: "cv_queue_ok s v (q v)" "idle \<notin> set (q v @ [t])" and d: "distinct (q v @ [t])"
    using R t by (auto simp: cv_repr_def cv_queue_ok_def)
  then have n: "Suc ?n < 256" using distinct_length_lt [of "q v @ [t]" idle] by simp
  have len: "cv_length s v + 1 = of_nat (Suc ?n)" using q by (simp add: cv_queue_ok_def add.commute)
  have disj: "set (q v @ [t]) \<inter> set (q w) = {}" if "w \<noteq> v" for w
    using that R t by (auto simp: cv_repr_def)
  show ?thesis
  proof (cases "q v = []")
    case True
    have "cv_enqueue v t s = s\<lparr>cv_length := (cv_length s)(v := 1), cv_owner := (cv_owner s)(v := t),
        cv_last := (cv_last s)(v := t)\<rparr>"
      using True len by (simp add: cv_enqueue_def Let_def)
    then show ?thesis using True q disj
      by (intro cv_repr_upd [OF R]) (auto simp: cv_queue_ok_def)
  next
    case False
    have "last (q v) \<in> set (q v)" using False by simp
    have ne: "(of_nat (Suc ?n) :: 8 word) \<noteq> 1" using False n by (subst of_nat_length_eq) auto
    have last: "cv_last s v = last (q v)" using q False by (simp add: cv_queue_ok_def)
    have e: "cv_enqueue v t s = s\<lparr>cv_length := (cv_length s)(v := of_nat (Suc ?n)),
        cv_last := (cv_last s)(v := t), cv_link := (cv_link s)(last (q v) := t)\<rparr>"
      unfolding cv_enqueue_def Let_def len using ne last by simp
    have "linked ((cv_link s)(last (q v) := t)) (q v @ [t])"
      using q d False by (intro linked_snoc) (auto simp: cv_queue_ok_def)
    then have "cv_queue_ok (cv_enqueue v t s) v (q v @ [t])"
      using q d n False unfolding e cv_queue_ok_def by simp
    moreover have "u \<noteq> last (q v)" if "w \<noteq> v" "u \<in> set (q w)" for u w
      using that disj [of w] \<open>last (q v) \<in> set (q v)\<close> by auto
    ultimately show ?thesis using q disj
      by (intro cv_repr_upd [OF R]) (auto simp: e)
  qed
qed

lemma cv_dequeue_law:
  assumes R: "cv_repr idle s q"
  shows "fst (cv_dequeue v s) = (case q v of [] \<Rightarrow> None | t # ts \<Rightarrow> Some t) \<and>
         cv_repr idle (snd (cv_dequeue v s)) (q(v := tl (q v)))"
proof -
  have q: "cv_queue_ok s v (q v)" using R by (simp add: cv_repr_def)
  have disj: "set (tl (q v)) \<inter> set (q w) = {}" if "w \<noteq> v" for w
  proof -
    have "set (q v) \<inter> set (q w) = {}" using that R by (simp add: cv_repr_def)
    then show ?thesis by (cases "q v") auto
  qed
  have "idle \<notin> set (q v)" using R by (simp add: cv_repr_def)
  then have idle: "idle \<notin> set (tl (q v))" by (cases "q v") auto
  consider "q v = []" | t where "q v = [t]" | t u ts where "q v = t # u # ts"
    by (metis neq_Nil_conv)
  then show ?thesis
  proof cases
    case 1
    with q R show ?thesis by (simp add: cv_dequeue_def cv_queue_ok_def fun_upd_idem)
  next
    case 2
    then have "cv_dequeue v s = (Some t, s\<lparr>cv_length := (cv_length s)(v := 0)\<rparr>)"
      using q by (simp add: cv_dequeue_def cv_queue_ok_def)
    with 2 show ?thesis by (auto intro!: cv_repr_upd [OF R] simp: cv_queue_ok_def)
  next
    case 3
    have len: "cv_length s v = of_nat (length (q v))" "length (q v) < 256"
      using q by (auto simp: cv_queue_ok_def)
    then have "cv_length s v \<noteq> 0" "cv_length s v \<noteq> 1"
      unfolding len(1) of_nat_length_eq(1) [OF len(2)] of_nat_length_eq(2) [OF len(2)]
      using 3 by simp_all
    then have e: "cv_dequeue v s = (Some t, s\<lparr>cv_length := (cv_length s)(v := cv_length s v - 1),
        cv_owner := (cv_owner s)(v := u)\<rparr>)"
      using q 3 by (simp add: cv_dequeue_def cv_queue_ok_def Let_def)
    have "cv_length s v - 1 = of_nat (length (u # ts))" using len(1) 3 by simp
    then have "cv_queue_ok (snd (cv_dequeue v s)) v (u # ts)"
      using q 3 unfolding e cv_queue_ok_def by simp
    moreover have "cv_repr idle (snd (cv_dequeue v s)) (q(v := tl (q v)))"
      by (rule cv_repr_upd [OF R]) (use 3 e disj idle calculation in simp_all)
    ultimately show ?thesis using 3 e by simp
  qed
qed

lemma deqall_chain: "deqall_remove_loop n entry s = chain (cv_link s) entry n"
  by (induction n arbitrary: entry) simp_all

lemma cv_dequeue_all_law:
  assumes R: "cv_repr idle s q"
  shows "fst (cv_dequeue_all v s) = q v \<and> cv_repr idle (snd (cv_dequeue_all v s)) (q(v := []))"
proof -
  have q: "cv_queue_ok s v (q v)" using R by (simp add: cv_repr_def)
  have len: "cv_length s v = of_nat (length (q v))" "length (q v) < 256"
    using q by (auto simp: cv_queue_ok_def)
  have un: "unat (cv_length s v) = length (q v)" using len by (simp add: unat_of_nat)
  have s': "cv_repr idle (s\<lparr>cv_length := (cv_length s)(v := 0)\<rparr>) (q(v := []))"
    by (intro cv_repr_upd [OF R]) (auto simp: cv_queue_ok_def)
  show ?thesis
  proof (cases "length (q v) \<le> 1")
    case True
    then consider "q v = []" | t where "q v = [t]"
      by (cases "q v") auto
    then show ?thesis
    proof cases
      case 1
      with q R show ?thesis by (simp add: cv_dequeue_all_def cv_queue_ok_def fun_upd_idem)
    next
      case 2
      with q s' show ?thesis by (simp add: cv_dequeue_all_def cv_queue_ok_def)
    qed
  next
    case False
    then have "cv_length s v \<noteq> 0" "cv_length s v \<noteq> 1" using un by auto
    moreover have "chain (cv_link s) (cv_owner s v) (length (q v)) = q v"
      using q False linked_chain [of "cv_link s" "q v"]
      by (cases "q v = []") (simp_all add: cv_queue_ok_def)
    ultimately show ?thesis
      using s' by (simp add: cv_dequeue_all_def Let_def deqall_chain un)
  qed
qed

interpretation cv_bank: wait_queues "cv_repr idle" cv_enqueue cv_dequeue "\<lambda>ws. ws" "\<lambda>t. t \<noteq> idle"
  for idle
proof unfold_locales
  fix s q k l assume R: "cv_repr idle s q"
  show "distinct (q k)" using R by (simp add: cv_repr_def cv_queue_ok_def)
  show "set (q k) \<inter> set (q l) = {}" if "k \<noteq> l" using R that by (simp add: cv_repr_def)
  show "fst (cv_dequeue k s) = None \<and> cv_repr idle (snd (cv_dequeue k s)) q" if "q k = []"
    using cv_dequeue_law [OF R, of k] that by (simp add: fun_upd_idem)
  show "fst (cv_dequeue k s) = Some t \<and> cv_repr idle (snd (cv_dequeue k s)) (q(k := ts))"
    if "q k = t # ts" for t ts
    using cv_dequeue_law [OF R, of k] that by simp
qed (auto intro: cv_enqueue_law)

lemma cv_reset_repr: "cv_repr idle condvar_reset (\<lambda>_. [])"
  by (simp add: cv_repr_def cv_queue_ok_def condvar_reset_def)

section \<open>Properties\<close>

text \<open>
  C27: Condition variables wake threads in the order in which they waited: after the
  threads \<open>ts\<close> have waited on a condition variable, one signal after another wakes the
  threads that were already waiting and then \<open>ts\<close>, in order.
\<close>

theorem condvar_signal_fifo:
  assumes "cv_repr idle s q" and "distinct ts" and "idle \<notin> set ts" and "\<And>l. set ts \<inter> set (q l) = {}"
  shows "fst (drain cv_dequeue v (length (q v @ ts)) (fold (cv_enqueue v) ts s)) = q v @ ts"
  using assms by (intro cv_bank.fifo) auto

theorem condvar_signal_fifo_witness:
  "cv_repr 0 condvar_reset (\<lambda>_. []) \<and>
   fst (drain cv_dequeue 4 3 (fold (cv_enqueue 4) [8, 3, 6] condvar_reset)) = [8, 3, 6]"
  using condvar_signal_fifo [OF cv_reset_repr, of "[8, 3, 6]" 0 4] cv_reset_repr
  by (simp add: numeral_3_eq_3)

text \<open>
  C28: A broadcast wakes exactly the threads that wait on the condition variable, each once
  and in the order in which they waited, leaves its queue empty and every other queue as it
  was; the threads woken are those that as many signals would have woken.
\<close>

theorem condvar_broadcast_wakes_all:
  assumes "cv_repr idle s q" and "cv_dequeue_all v s = (ts, s')"
  shows "ts = q v \<and> distinct ts \<and> cv_repr idle s' (q(v := [])) \<and>
         ts = fst (drain cv_dequeue v (length (q v)) s)"
proof -
  have "fst (drain cv_dequeue v (length (q v)) s) = q v"
    using cv_bank.drain_all [OF assms(1), of v "q v" "[]"] by simp
  moreover have "distinct (q v)" using assms(1) by (simp add: cv_repr_def cv_queue_ok_def)
  ultimately show ?thesis using cv_dequeue_all_law [OF assms(1), of v] assms(2) by simp
qed

theorem condvar_broadcast_wakes_all_witness:
  "\<exists>ts s'. cv_dequeue_all 4 (fold (cv_enqueue 4) [8, 3, 6] condvar_reset) = (ts, s') \<and> ts = [8, 3, 6]"
proof -
  have may: "t \<noteq> 0" if "t \<in> set [8, 3, 6]" for t :: tid using that by auto
  have "cv_repr 0 (fold (cv_enqueue 4) [8, 3, 6] condvar_reset) ((\<lambda>_. [])(4 := [8, 3, 6]))"
    using cv_bank.enq_all [OF cv_reset_repr _ may, of "[8, 3, 6]" 4] by simp
  from condvar_broadcast_wakes_all [OF this surjective_pairing, of 4] show ?thesis
    by (metis fun_upd_same surjective_pairing)
qed

end
