(* ===== verification/Machine.thy ===== *)
theory Machine
  imports Thread_Manager Sync_Manager Cond_Vars
begin

text \<open>
  The machine the kernel runs on: the four cores behind their bus addresses and the rest of
  the address space, which behaves as memory. The encoding macros are those of
  \<^verbatim>\<open>include/hthread/manager/commands.h\<close>, \<^verbatim>\<open>scheduler/commands.h\<close>, \<^verbatim>\<open>mutex/commands.h\<close>,
  \<^verbatim>\<open>condvar/commands.h\<close> and \<^verbatim>\<open>hwti/commands.h\<close>; the decoding is that of the cores' bus
  interfaces; the functions \<^verbatim>\<open>_create_detached\<close>, \<^verbatim>\<open>_mutex_acquire\<close> and so on are the inline
  functions of the \<^verbatim>\<open>hardware.h\<close> headers. Base addresses come from the platform's
  configuration and are a parameter. When a core releases a waiting thread it sends the
  command to add it to the ready queue through its own bus master; the model lets this
  transaction complete before the processor's next bus access.

  The lemmas show that every inline function reaches the operation of the core it is meant
  for with the arguments it was given.
\<close>

section \<open>Platform and machine state\<close>

text \<open>
  The diagnostic registers \<^verbatim>\<open>SCHED_LINES\<close> and \<^verbatim>\<open>GET_ENCODER_OUTPUT\<close> (which returns a debug
  register) show wires that have no other effect; what they read as is left to the platform.
\<close>

record platform =
  MANAGER_BASEADDR :: Huint
  SCHEDULER_BASEADDR :: Huint
  SYNCH_BASEADDR :: Huint
  CONDVAR_BASEADDR :: Huint
  procid :: Huint
  sched_lines :: "cores \<Rightarrow> Huint"
  debug_lines :: "sched \<Rightarrow> Huint"

record machine =
  cores :: cores
  syncm :: sync
  cvars :: condvar
  mem :: "Huint \<Rightarrow> Huint"
  irq :: bool

definition window :: "Huint \<Rightarrow> Huint" where
  "window a = drop_bit 20 a"

definition platform_ok :: "platform \<Rightarrow> bool" where
  "platform_ok P \<longleftrightarrow>
     list_all (\<lambda>b. take_bit 20 b = 0)
       [MANAGER_BASEADDR P, SCHEDULER_BASEADDR P, SYNCH_BASEADDR P, CONDVAR_BASEADDR P] \<and>
     distinct (map window
       [MANAGER_BASEADDR P, SCHEDULER_BASEADDR P, SYNCH_BASEADDR P, CONDVAR_BASEADDR P])"

section \<open>Bus interfaces of the cores\<close>

definition apply_events :: "events \<Rightarrow> machine \<Rightarrow> machine" where
  "apply_events ev m =
     m\<lparr>mem := (case fst ev of None \<Rightarrow> mem m | Some a \<Rightarrow> (mem m)(a := 1)),
       irq := irq m \<or> snd ev\<rparr>"

definition with_cores :: "Huint \<times> events \<times> cores \<Rightarrow> machine \<Rightarrow> Huint \<times> machine" where
  "with_cores x m = (case x of (r, ev, c) \<Rightarrow> (r, apply_events ev (m\<lparr>cores := c\<rparr>)))"

definition with_tm :: "Huint \<times> tm \<Rightarrow> machine \<Rightarrow> Huint \<times> machine" where
  "with_tm x m = (case x of (r, s) \<Rightarrow> (r, m\<lparr>cores := (cores m)\<lparr>tm := s\<rparr>\<rparr>))"

definition tm_read :: "platform \<Rightarrow> Huint \<Rightarrow> machine \<Rightarrow> Huint \<times> machine" where
  "tm_read P a m =
     (let addr = take_bit 6 (drop_bit 10 a);
          t = (ucast (drop_bit 2 a) :: tid);
          c = cores m; s = tm c in
      if addr = 0x15 then (0, m)
      else if addr = 0x16 then (if core_stop s then 1 else 0, m)
      else if addr = 0x17 then (0, m)
      else if addr = 0x10 then (tm_current s, m)
      else if addr = 0x13 then with_tm (exc_addr s, s\<lparr>exc_addr := 0\<rparr>) m
      else if addr = 0x14 then with_tm (ucast (exc_cause s), s\<lparr>exc_cause := 0\<rparr>) m
      else if addr = 0x1A then (sched_lines P c, m)
      else if addr = 0x03 then (tm_read_thread t s, m)
      else if addr = 0x06 then with_tm (tm_create True s) m
      else if addr = 0x05 then with_tm (tm_create False s) m
      else if addr = 0x00 then with_tm (tm_clear t s) m
      else if addr = 0x01 then with_tm (tm_join t s) m
      else if addr = 0x18 then (tm_is_detached t s, m)
      else if addr = 0x19 then (tm_is_queued t c, m)
      else if addr = 0x08 then (case tm_next a c of (r, c') \<Rightarrow> (r, m\<lparr>cores := c'\<rparr>))
      else if addr = 0x04 then with_cores (tm_add t c) m
      else if addr = 0x09 then with_cores (tm_yield c) m
      else if addr = 0x07 then with_cores (tm_exit t c) m
      else with_tm (0, tm_raise EXCEPTION_UNDEFINED_ADDRESS a s) m)"

text \<open>A soft reset leaves the exception registers as they are.\<close>

definition tm_soft_reset :: "tm \<Rightarrow> tm" where
  "tm_soft_reset s = tm_reset\<lparr>exc_cause := exc_cause s, exc_addr := exc_addr s\<rparr>"

definition tm_write :: "Huint \<Rightarrow> Huint \<Rightarrow> tm \<Rightarrow> tm" where
  "tm_write a d s =
     (let addr = take_bit 6 (drop_bit 10 a); t = (ucast (drop_bit 2 a) :: tid) in
      if addr = 0x15 then s\<lparr>core_stop := False\<rparr>
      else if addr = 0x16 then s\<lparr>core_stop := True\<rparr>
      else if addr = 0x17 then (if bit d 0 then tm_soft_reset s else s)
      else if addr = 0x03 then tm_write_thread a t d s
      else tm_raise EXCEPTION_UNDEFINED_ADDRESS a s)"

text \<open>The word \<^verbatim>\<open>GET_ENTRY\<close> reads; its last byte is the thread's own number.\<close>

definition sch_entry_word :: "tid \<Rightarrow> sched \<Rightarrow> Huint" where
  "sch_entry_word t s =
     (let e = thread_ram s t in
      flag 31 (queue_bit e) OR push_bit 23 (ucast (next_ptr e)) OR
      push_bit 16 (ucast (priority e)) OR push_bit 8 (ucast (prev_ptr e)) OR ucast t)"

definition with_sch :: "Huint \<times> sched \<Rightarrow> machine \<Rightarrow> Huint \<times> machine" where
  "with_sch x m = (case x of (r, s) \<Rightarrow> (r, m\<lparr>cores := (cores m)\<lparr>sch := s\<rparr>\<rparr>))"

definition sch_read :: "platform \<Rightarrow> Huint \<Rightarrow> machine \<Rightarrow> Huint \<times> machine" where
  "sch_read P a m =
     (let addr = take_bit 8 a; t = (ucast (drop_bit 8 a) :: tid); s = sch (cores m) in
      if addr = 0x50 then (sch_get_idle s, m)
      else if addr = 0x54 then with_sch (sch_set_idle (e_used (entries (tm (cores m)) t)) t s) m
      else if addr = 0x60 then (sch_entry_word t s, m)
      else if addr = 0x58 then (debug_lines P s, m)
      else if addr = 0x64 then (sch_get_schedparam t s, m)
      else if addr = 0x68 then (sch_check_schedparam t s, m)
      else if addr = 0x44 then with_sch (sch_malloc_lock (bit a 18) t s) m
      else (0xFFFFFFFF, m))"

definition sch_write :: "Huint \<Rightarrow> Huint \<Rightarrow> machine \<Rightarrow> machine" where
  "sch_write a d m =
     (let addr = take_bit 8 a; t = (ucast (drop_bit 8 a) :: tid); c = cores m;
          e = entries (tm c) t in
      if addr = 0x5C then
        (case sch_set_schedparam (current (tm c)) (e_used e) (e_pid e) t d (sch c) of
           (i, s) \<Rightarrow> m\<lparr>cores := c\<lparr>sch := s\<rparr>, irq := irq m \<or> i\<rparr>)
      else if addr = 0x48 then m\<lparr>cores := c\<lparr>sch := sch_toggle_preemption d (sch c)\<rparr>\<rparr>
      else m)"

text \<open>The command that the bus masters of the mutex and condition variable cores send.\<close>

definition wake :: "tid \<Rightarrow> machine \<Rightarrow> machine" where
  "wake t m = snd (with_cores (tm_add t (cores m)) m)"

definition sync_read :: "Huint \<Rightarrow> machine \<Rightarrow> Huint \<times> machine" where
  "sync_read a m =
     (let cmd = take_bit 3 (drop_bit 16 a);
          t = (ucast (drop_bit 8 a) :: tid); i = (ucast (drop_bit 2 a) :: mid); s = syncm m in
      if cmd = 0 then (case lock_fsm i t s of (r, s') \<Rightarrow> (r, m\<lparr>syncm := s'\<rparr>))
      else if cmd = 1 then
        (case unlock_fsm i s of
           (r, w, s') \<Rightarrow> (r, (case w of None \<Rightarrow> m\<lparr>syncm := s'\<rparr> | Some u \<Rightarrow> wake u (m\<lparr>syncm := s'\<rparr>))))
      else if cmd = 2 then (case trylock_fsm i t s of (r, s') \<Rightarrow> (r, m\<lparr>syncm := s'\<rparr>))
      else if cmd = 3 then (owner_fsm i s, m)
      else if cmd = 4 then (kind_fsm_read i s, m)
      else if cmd = 5 then (count_fsm i s, m)
      else (0, m))"

definition sync_write :: "Huint \<Rightarrow> Huint \<Rightarrow> machine \<Rightarrow> machine" where
  "sync_write a d m =
     (if take_bit 3 (drop_bit 16 a) = 4
      then m\<lparr>syncm := kind_fsm_write (ucast (drop_bit 2 a)) d (syncm m)\<rparr> else m)"

definition cv_read :: "Huint \<Rightarrow> machine \<Rightarrow> Huint \<times> machine" where
  "cv_read a m =
     (let op = take_bit 2 (drop_bit 17 a); t = (ucast (drop_bit 8 a) :: tid);
          v = (ucast (ucast (drop_bit 2 a) :: mid) :: cvid) in
      if op = 2 then (0, m\<lparr>cvars := cv_enqueue v t (cvars m)\<rparr>)
      else if op = 1 then
        (case cv_dequeue v (cvars m) of
           (w, s') \<Rightarrow> (0, (case w of None \<Rightarrow> m\<lparr>cvars := s'\<rparr> | Some u \<Rightarrow> wake u (m\<lparr>cvars := s'\<rparr>))))
      else if op = 3 then
        (case cv_dequeue_all v (cvars m) of (ws, s') \<Rightarrow> (0, fold wake ws (m\<lparr>cvars := s'\<rparr>)))
      else (0xFFFFFFFF, m))"

definition read_reg :: "platform \<Rightarrow> Huint \<Rightarrow> machine \<Rightarrow> Huint \<times> machine" where
  "read_reg P a m =
     (if window a = window (MANAGER_BASEADDR P) then tm_read P a m
      else if window a = window (SCHEDULER_BASEADDR P) then sch_read P a m
      else if window a = window (SYNCH_BASEADDR P) then sync_read a m
      else if window a = window (CONDVAR_BASEADDR P) then cv_read a m
      else (mem m a, m))"

definition write_reg :: "platform \<Rightarrow> Huint \<Rightarrow> Huint \<Rightarrow> machine \<Rightarrow> machine" where
  "write_reg P a d m =
     (if window a = window (MANAGER_BASEADDR P)
      then m\<lparr>cores := (cores m)\<lparr>tm := tm_write a d (tm (cores m))\<rparr>\<rparr>
      else if window a = window (SCHEDULER_BASEADDR P) then sch_write a d m
      else if window a = window (SYNCH_BASEADDR P) then sync_write a d m
      else if window a = window (CONDVAR_BASEADDR P) then m
      else m\<lparr>mem := (mem m)(a := d)\<rparr>)"

section \<open>Encoding macros\<close>

definition encode_cmd :: "platform \<Rightarrow> Huint \<Rightarrow> Huint \<Rightarrow> Huint" where
  "encode_cmd P th cd =
     MANAGER_BASEADDR P OR push_bit 16 (procid P AND 3) OR push_bit 2 (th AND 0xFF) OR
     push_bit 10 (cd AND 0x1F)"

definition encode_reg :: "platform \<Rightarrow> Huint \<Rightarrow> Huint" where
  "encode_reg P reg = encode_cmd P 0 reg"

definition sched_cmd :: "platform \<Rightarrow> Huint \<Rightarrow> Huint \<Rightarrow> Huint" where
  "sched_cmd P th cd =
     SCHEDULER_BASEADDR P OR push_bit 16 (procid P AND 3) OR push_bit 8 (th AND 0xFF) OR (cd AND 0xFF)"

definition mutex_cmd :: "platform \<Rightarrow> Huint \<Rightarrow> Huint \<Rightarrow> Huint \<Rightarrow> Huint" where
  "mutex_cmd P c t i =
     SYNCH_BASEADDR P OR push_bit 16 (c AND 7) OR push_bit 8 (t AND 0xFF) OR push_bit 2 (i AND 0x3F)"

definition cvr_sema_cmd :: "platform \<Rightarrow> Huint \<Rightarrow> Huint \<Rightarrow> Huint \<Rightarrow> Huint" where
  "cvr_sema_cmd P c t s =
     CONDVAR_BASEADDR P OR push_bit 17 (c AND 7) OR push_bit 8 (t AND 0xFF) OR push_bit 2 (s AND 0x3F)"

definition hwti_cmd :: "Huint \<Rightarrow> Huint \<Rightarrow> Huint" where
  "hwti_cmd base cmd = base OR cmd"

definition has_error :: "Huint \<Rightarrow> bool" where
  "has_error status \<longleftrightarrow> status AND 1 \<noteq> 0"

definition extract_error :: "Huint \<Rightarrow> Huint" where
  "extract_error status = drop_bit 1 status AND 7"

definition extract_id :: "Huint \<Rightarrow> Huint" where
  "extract_id status = drop_bit 1 status AND 0xFF"

section \<open>Inline functions of the hardware headers\<close>

definition start_hardware :: "platform \<Rightarrow> machine \<Rightarrow> machine" where
  "start_hardware P m = write_reg P (encode_reg P 0x15) 1 m"

definition stop_hardware :: "platform \<Rightarrow> machine \<Rightarrow> machine" where
  "stop_hardware P m = write_reg P (encode_reg P 0x16) 0xFFFFFFFF m"

definition read_thread_status :: "platform \<Rightarrow> Huint \<Rightarrow> machine \<Rightarrow> Huint \<times> machine" where
  "read_thread_status P i = read_reg P (encode_cmd P i 0x03)"

definition create_detached :: "platform \<Rightarrow> machine \<Rightarrow> Huint \<times> machine" where
  "create_detached P = read_reg P (encode_cmd P 0 0x06)"

definition create_joinable :: "platform \<Rightarrow> machine \<Rightarrow> Huint \<times> machine" where
  "create_joinable P = read_reg P (encode_cmd P 0 0x05)"

definition add_thread :: "platform \<Rightarrow> Huint \<Rightarrow> machine \<Rightarrow> Huint \<times> machine" where
  "add_thread P i = read_reg P (encode_cmd P i 0x04)"

definition clear_thread :: "platform \<Rightarrow> Huint \<Rightarrow> machine \<Rightarrow> Huint \<times> machine" where
  "clear_thread P i = read_reg P (encode_cmd P i 0x00)"

definition join_thread :: "platform \<Rightarrow> Huint \<Rightarrow> machine \<Rightarrow> Huint \<times> machine" where
  "join_thread P i = read_reg P (encode_cmd P i 0x01)"

definition detach_thread :: "platform \<Rightarrow> Huint \<Rightarrow> machine \<Rightarrow> Huint \<times> machine" where
  "detach_thread P i = read_reg P (encode_cmd P i 0x02)"

definition exit_thread :: "platform \<Rightarrow> Huint \<Rightarrow> machine \<Rightarrow> Huint \<times> machine" where
  "exit_thread P i = read_reg P (encode_cmd P i 0x07)"

definition is_queued :: "platform \<Rightarrow> Huint \<Rightarrow> machine \<Rightarrow> Huint \<times> machine" where
  "is_queued P i = read_reg P (encode_cmd P i 0x19)"

definition current_thread :: "platform \<Rightarrow> machine \<Rightarrow> Huint \<times> machine" where
  "current_thread P m = (case read_reg P (encode_reg P 0x10) m of (sta, m') \<Rightarrow> (extract_id sta, m'))"

definition next_thread :: "platform \<Rightarrow> machine \<Rightarrow> Huint \<times> machine" where
  "next_thread P m = (case read_reg P (encode_cmd P 0 0x08) m of (sta, m') \<Rightarrow> (extract_id sta, m'))"

definition yield_thread :: "platform \<Rightarrow> machine \<Rightarrow> Huint \<times> machine" where
  "yield_thread P m = (case read_reg P (encode_cmd P 0 0x09) m of (sta, m') \<Rightarrow> (extract_id sta, m'))"

definition detached_thread :: "platform \<Rightarrow> Huint \<Rightarrow> machine \<Rightarrow> bool \<times> machine" where
  "detached_thread P i m =
     (case read_reg P (encode_cmd P i 0x18) m of (status, m') \<Rightarrow> (status \<noteq> 0, m'))"

definition read_sched_status :: "platform \<Rightarrow> Huint \<Rightarrow> machine \<Rightarrow> Huint \<times> machine" where
  "read_sched_status P i = read_reg P (sched_cmd P i 0x60)"

definition get_schedparam :: "platform \<Rightarrow> Huint \<Rightarrow> machine \<Rightarrow> Huint \<times> machine" where
  "get_schedparam P i = read_reg P (sched_cmd P i 0x64)"

definition check_schedparam :: "platform \<Rightarrow> Huint \<Rightarrow> machine \<Rightarrow> Hint \<times> machine" where
  "check_schedparam P i m =
     (case read_reg P (sched_cmd P i 0x68) m of
        (res, m') \<Rightarrow> (if has_error res then FAILURE else SUCCESS, m'))"

definition set_schedparam :: "platform \<Rightarrow> Huint \<Rightarrow> Huint \<Rightarrow> machine \<Rightarrow> Hint \<times> machine" where
  "set_schedparam P i pr m =
     (case check_schedparam P i (write_reg P (sched_cmd P i 0x5C) pr m) of
        (res, m') \<Rightarrow> (if has_error res then FAILURE else SUCCESS, m'))"

definition enable_preemption :: "platform \<Rightarrow> machine \<Rightarrow> machine" where
  "enable_preemption P m = write_reg P (sched_cmd P 0 0x48) 0xFFFFFFFF m"

definition disable_preemption :: "platform \<Rightarrow> machine \<Rightarrow> machine" where
  "disable_preemption P m = write_reg P (sched_cmd P 0 0x48) 0 m"

definition set_idle_thread :: "platform \<Rightarrow> Huint \<Rightarrow> Huint \<Rightarrow> machine \<Rightarrow> Huint \<times> machine" where
  "set_idle_thread P i cpuid m =
     (let cmd = sched_cmd P i 0x54 in read_reg P (if cpuid = 0 then cmd else cmd OR 0x10000) m)"

definition get_malloc_lock :: "platform \<Rightarrow> Huint \<Rightarrow> machine \<Rightarrow> Huint \<times> machine" where
  "get_malloc_lock P th m =
     (case read_reg P (sched_cmd P th 0x44 OR 0x40000) m of (r, m') \<Rightarrow> (r AND 1, m'))"

definition release_malloc_lock :: "platform \<Rightarrow> Huint \<Rightarrow> machine \<Rightarrow> Huint \<times> machine" where
  "release_malloc_lock P th = read_reg P (sched_cmd P th 0x44)"

definition mutex_acquire :: "platform \<Rightarrow> Huint \<Rightarrow> Huint \<Rightarrow> machine \<Rightarrow> Hint \<times> machine" where
  "mutex_acquire P t i = read_reg P (mutex_cmd P 0 t i)"

definition mutex_tryacquire :: "platform \<Rightarrow> Huint \<Rightarrow> Huint \<Rightarrow> machine \<Rightarrow> Hint \<times> machine" where
  "mutex_tryacquire P t i m =
     (case read_reg P (mutex_cmd P 2 t i) m of (sta, m') \<Rightarrow> (if sta \<noteq> 0 then FAILURE else SUCCESS, m'))"

definition mutex_release :: "platform \<Rightarrow> Huint \<Rightarrow> Huint \<Rightarrow> machine \<Rightarrow> machine" where
  "mutex_release P t i m = snd (read_reg P (mutex_cmd P 1 t i) m)"

definition mutex_owner :: "platform \<Rightarrow> Huint \<Rightarrow> machine \<Rightarrow> Huint \<times> machine" where
  "mutex_owner P i m = (case read_reg P (mutex_cmd P 3 0 i) m of (sta, m') \<Rightarrow> (sta AND 0xFF, m'))"

definition mutex_count :: "platform \<Rightarrow> Huint \<Rightarrow> machine \<Rightarrow> Huint \<times> machine" where
  "mutex_count P i m = (case read_reg P (mutex_cmd P 5 0 i) m of (sta, m') \<Rightarrow> (sta AND 0xFF, m'))"

definition mutex_kind :: "platform \<Rightarrow> Huint \<Rightarrow> machine \<Rightarrow> Huint \<times> machine" where
  "mutex_kind P i m = (case read_reg P (mutex_cmd P 4 0 i) m of (sta, m') \<Rightarrow> (sta AND 3, m'))"

definition mutex_setkind :: "platform \<Rightarrow> Huint \<Rightarrow> Huint \<Rightarrow> machine \<Rightarrow> machine" where
  "mutex_setkind P i kind m = write_reg P (mutex_cmd P 4 0 i) kind m"

text \<open>
  The loops of the condition variable functions repeat while the core answers
  \<^verbatim>\<open>HT_CONDVAR_FAILED\<close>; this core never does, as \<open>condvar_poll\<close> shows.
\<close>

definition HT_CONDVAR_FAILED :: Huint where "HT_CONDVAR_FAILED = 0x0E"

partial_function (option) condvar_loop :: "platform \<Rightarrow> Huint \<Rightarrow> machine \<Rightarrow> (Hint \<times> machine) option" where
  "condvar_loop P cmd m =
     (case read_reg P cmd m of
        (sta, m') \<Rightarrow> if sta = HT_CONDVAR_FAILED then condvar_loop P cmd m' else Some (SUCCESS, m'))"

definition condvar_signal :: "platform \<Rightarrow> Huint \<Rightarrow> machine \<Rightarrow> (Hint \<times> machine) option" where
  "condvar_signal P i m = condvar_loop P (cvr_sema_cmd P 1 0 i) m"

definition condvar_broadcast :: "platform \<Rightarrow> Huint \<Rightarrow> machine \<Rightarrow> (Hint \<times> machine) option" where
  "condvar_broadcast P i m = condvar_loop P (cvr_sema_cmd P 3 0 i) m"

definition condvar_wait :: "platform \<Rightarrow> Huint \<Rightarrow> Huint \<Rightarrow> machine \<Rightarrow> (Hint \<times> machine) option" where
  "condvar_wait P t i m = condvar_loop P (cvr_sema_cmd P 2 t i) m"

text \<open>The condition variable that a number names: the six bits the address carries.\<close>

definition cv_number :: "Huint \<Rightarrow> cvid" where
  "cv_number i = ucast (ucast i :: mid)"

section \<open>Encoded addresses decode to the arguments\<close>

lemma and_masks:
  "(x :: Huint) AND 1 = take_bit 1 x" "x AND 3 = take_bit 2 x" "x AND 7 = take_bit 3 x"
  "x AND 0x1F = take_bit 5 x" "x AND 0x3F = take_bit 6 x" "x AND 0xFF = take_bit 8 x"
  by (simp_all add: take_bit_eq_mask mask_eq_exp_minus_1)

lemma base_bit: "take_bit 20 (b :: Huint) = 0 \<Longrightarrow> n < 20 \<Longrightarrow> \<not> bit b n"
  by (metis bit_0_eq bit_take_bit_iff bot_apply bot_bool_def)

lemma window_or_small:
  assumes "\<And>n. 20 \<le> n \<Longrightarrow> \<not> bit (x :: Huint) n" shows "window (b OR x) = window b"
  unfolding window_def
  by (rule bit_word_eqI) (use assms in \<open>simp add: bit_drop_bit_eq bit_or_iff\<close>)

lemmas field_bits = bit_drop_bit_eq bit_or_iff bit_push_bit_iff bit_take_bit_iff bit_ucast_iff

lemma encode_cmd_fields:
  assumes "take_bit 20 (MANAGER_BASEADDR P) = 0"
  shows "window (encode_cmd P th cd) = window (MANAGER_BASEADDR P)"
    and "take_bit 6 (drop_bit 10 (encode_cmd P th cd)) = take_bit 5 cd"
    and "(ucast (drop_bit 2 (encode_cmd P th cd)) :: tid) = ucast th"
proof -
  show "window (encode_cmd P th cd) = window (MANAGER_BASEADDR P)"
    unfolding encode_cmd_def or.assoc and_masks
    by (rule window_or_small) (auto simp: field_bits)
  show "take_bit 6 (drop_bit 10 (encode_cmd P th cd)) = take_bit 5 cd"
    unfolding encode_cmd_def and_masks
    by (rule bit_word_eqI) (auto simp: field_bits base_bit [OF assms])
  show "(ucast (drop_bit 2 (encode_cmd P th cd)) :: tid) = ucast th"
    unfolding encode_cmd_def and_masks
    by (rule bit_word_eqI) (auto simp: field_bits base_bit [OF assms])
qed

lemma sched_cmd_fields:
  assumes "take_bit 20 (SCHEDULER_BASEADDR P) = 0"
  shows "window (sched_cmd P th cd) = window (SCHEDULER_BASEADDR P)"
    and "take_bit 8 (sched_cmd P th cd) = take_bit 8 cd"
    and "(ucast (drop_bit 8 (sched_cmd P th cd)) :: tid) = ucast th"
    and "\<not> bit (sched_cmd P th cd) 18"
proof -
  show "window (sched_cmd P th cd) = window (SCHEDULER_BASEADDR P)"
    unfolding sched_cmd_def or.assoc and_masks
    by (rule window_or_small) (auto simp: field_bits)
  show "take_bit 8 (sched_cmd P th cd) = take_bit 8 cd"
    unfolding sched_cmd_def and_masks
    by (rule bit_word_eqI) (auto simp: field_bits base_bit [OF assms])
  show "(ucast (drop_bit 8 (sched_cmd P th cd)) :: tid) = ucast th"
    unfolding sched_cmd_def and_masks
    by (rule bit_word_eqI) (auto simp: field_bits base_bit [OF assms])
  show "\<not> bit (sched_cmd P th cd) 18"
    unfolding sched_cmd_def and_masks by (auto simp: field_bits base_bit [OF assms])
qed

lemma mutex_cmd_fields:
  assumes "take_bit 20 (SYNCH_BASEADDR P) = 0"
  shows "window (mutex_cmd P c t i) = window (SYNCH_BASEADDR P)"
    and "take_bit 3 (drop_bit 16 (mutex_cmd P c t i)) = take_bit 3 c"
    and "(ucast (drop_bit 8 (mutex_cmd P c t i)) :: tid) = ucast t"
    and "(ucast (drop_bit 2 (mutex_cmd P c t i)) :: mid) = ucast i"
proof -
  show "window (mutex_cmd P c t i) = window (SYNCH_BASEADDR P)"
    unfolding mutex_cmd_def or.assoc and_masks
    by (rule window_or_small) (auto simp: field_bits)
  show "take_bit 3 (drop_bit 16 (mutex_cmd P c t i)) = take_bit 3 c"
    unfolding mutex_cmd_def and_masks
    by (rule bit_word_eqI) (auto simp: field_bits base_bit [OF assms])
  show "(ucast (drop_bit 8 (mutex_cmd P c t i)) :: tid) = ucast t"
    unfolding mutex_cmd_def and_masks
    by (rule bit_word_eqI) (auto simp: field_bits base_bit [OF assms])
  show "(ucast (drop_bit 2 (mutex_cmd P c t i)) :: mid) = ucast i"
    unfolding mutex_cmd_def and_masks
    by (rule bit_word_eqI) (auto simp: field_bits base_bit [OF assms])
qed

lemma cvr_sema_cmd_fields:
  assumes "take_bit 20 (CONDVAR_BASEADDR P) = 0"
  shows "window (cvr_sema_cmd P c t i) = window (CONDVAR_BASEADDR P)"
    and "take_bit 2 (drop_bit 17 (cvr_sema_cmd P c t i)) = take_bit 2 c"
    and "(ucast (drop_bit 8 (cvr_sema_cmd P c t i)) :: tid) = ucast t"
    and "(ucast (drop_bit 2 (cvr_sema_cmd P c t i)) :: mid) = ucast i"
proof -
  show "window (cvr_sema_cmd P c t i) = window (CONDVAR_BASEADDR P)"
    unfolding cvr_sema_cmd_def or.assoc and_masks
    by (rule window_or_small) (auto simp: field_bits)
  show "take_bit 2 (drop_bit 17 (cvr_sema_cmd P c t i)) = take_bit 2 c"
    unfolding cvr_sema_cmd_def and_masks
    by (rule bit_word_eqI) (auto simp: field_bits base_bit [OF assms])
  show "(ucast (drop_bit 8 (cvr_sema_cmd P c t i)) :: tid) = ucast t"
    unfolding cvr_sema_cmd_def and_masks
    by (rule bit_word_eqI) (auto simp: field_bits base_bit [OF assms])
  show "(ucast (drop_bit 2 (cvr_sema_cmd P c t i)) :: mid) = ucast i"
    unfolding cvr_sema_cmd_def and_masks
    by (rule bit_word_eqI) (auto simp: field_bits base_bit [OF assms])
qed

section \<open>The inline functions reach the operations of the cores\<close>

named_theorems hw_ops \<open>inline functions as operations of the cores\<close>

lemma platform_aligned:
  assumes "platform_ok P"
  shows "take_bit 20 (MANAGER_BASEADDR P) = 0" "take_bit 20 (SCHEDULER_BASEADDR P) = 0"
    "take_bit 20 (SYNCH_BASEADDR P) = 0" "take_bit 20 (CONDVAR_BASEADDR P) = 0"
  using assms by (simp_all add: platform_ok_def)

lemma platform_windows:
  assumes "platform_ok P"
  shows "window (SCHEDULER_BASEADDR P) \<noteq> window (MANAGER_BASEADDR P)"
    "window (SYNCH_BASEADDR P) \<noteq> window (MANAGER_BASEADDR P)"
    "window (SYNCH_BASEADDR P) \<noteq> window (SCHEDULER_BASEADDR P)"
    "window (CONDVAR_BASEADDR P) \<noteq> window (MANAGER_BASEADDR P)"
    "window (CONDVAR_BASEADDR P) \<noteq> window (SCHEDULER_BASEADDR P)"
    "window (CONDVAR_BASEADDR P) \<noteq> window (SYNCH_BASEADDR P)"
  using assms by (auto simp: platform_ok_def)

lemma read_manager:
  "platform_ok P \<Longrightarrow> read_reg P (encode_cmd P th cd) m = tm_read P (encode_cmd P th cd) m"
  by (simp add: read_reg_def encode_cmd_fields platform_aligned)

lemma read_scheduler:
  "platform_ok P \<Longrightarrow> read_reg P (sched_cmd P th cd) m = sch_read P (sched_cmd P th cd) m"
  by (simp add: read_reg_def sched_cmd_fields platform_aligned platform_windows)

lemma write_scheduler:
  "platform_ok P \<Longrightarrow> write_reg P (sched_cmd P th cd) d m = sch_write (sched_cmd P th cd) d m"
  by (simp add: write_reg_def sched_cmd_fields platform_aligned platform_windows)

lemma read_sync:
  "platform_ok P \<Longrightarrow> read_reg P (mutex_cmd P c t i) m = sync_read (mutex_cmd P c t i) m"
  by (simp add: read_reg_def mutex_cmd_fields platform_aligned platform_windows)

lemma write_sync:
  "platform_ok P \<Longrightarrow> write_reg P (mutex_cmd P c t i) d m = sync_write (mutex_cmd P c t i) d m"
  by (simp add: write_reg_def mutex_cmd_fields platform_aligned platform_windows)

lemma read_condvar:
  "platform_ok P \<Longrightarrow> read_reg P (cvr_sema_cmd P c t i) m = cv_read (cvr_sema_cmd P c t i) m"
  by (simp add: read_reg_def cvr_sema_cmd_fields platform_aligned platform_windows)

lemmas tm_dispatch = read_manager tm_read_def Let_def encode_cmd_fields platform_aligned

lemma create_ops [hw_ops]:
  assumes "platform_ok P"
  shows "create_detached P m = with_tm (tm_create True (tm (cores m))) m"
    and "create_joinable P m = with_tm (tm_create False (tm (cores m))) m"
  using assms by (simp_all add: create_detached_def create_joinable_def tm_dispatch)

lemma thread_ops [hw_ops]:
  assumes "platform_ok P"
  shows "add_thread P i m = with_cores (tm_add (ucast i) (cores m)) m"
    and "clear_thread P i m = with_tm (tm_clear (ucast i) (tm (cores m))) m"
    and "join_thread P i m = with_tm (tm_join (ucast i) (tm (cores m))) m"
    and "exit_thread P i m = with_cores (tm_exit (ucast i) (cores m)) m"
    and "is_queued P i m = (tm_is_queued (ucast i) (cores m), m)"
    and "read_thread_status P i m = (tm_read_thread (ucast i) (tm (cores m)), m)"
  using assms
  by (simp_all add: add_thread_def clear_thread_def join_thread_def exit_thread_def is_queued_def
      read_thread_status_def tm_dispatch)

lemma detach_op [hw_ops]:
  assumes "platform_ok P"
  shows "detach_thread P i m =
    with_tm (0, tm_raise EXCEPTION_UNDEFINED_ADDRESS (encode_cmd P i 2) (tm (cores m))) m"
  using assms by (simp add: detach_thread_def tm_dispatch)

lemma bit_id_word: "bit (id_word t) n \<longleftrightarrow> 0 < n \<and> n < 32 \<and> bit t (n - 1)"
  unfolding id_word_def bit_push_bit_iff
  by (auto simp: bit_ucast_iff dest: bit_imp_le_length)

lemma id_word_extract: "extract_id (id_word t OR (if b then 1 else 0)) = ucast t"
  unfolding extract_id_def and_masks
  by (rule bit_word_eqI) (auto simp: field_bits bit_id_word bit_1_iff dest: bit_imp_le_length)

lemma extract_id_word [simp]: "extract_id (id_word t) = ucast t"
  using id_word_extract [of t False] by simp

lemma has_error_odd: "has_error s \<longleftrightarrow> bit s 0"
  by (simp add: has_error_def and_masks take_bit_Suc bit_0 odd_iff_mod_2_eq_one flip: mod_2_eq_odd)

lemma has_error_id_word [simp]: "\<not> has_error (id_word t)"
  by (simp add: has_error_odd bit_id_word)

lemma ucast_tid_Huint [simp]: "(ucast (ucast (t :: tid) :: Huint) :: tid) = t"
  by (rule bit_word_eqI) (auto simp: bit_ucast_iff)

lemma current_op [hw_ops]:
  "platform_ok P \<Longrightarrow> current_thread P m = (ucast (current (tm (cores m))), m)"
  by (simp add: current_thread_def encode_reg_def tm_dispatch tm_current_def id_word_extract)

lemma next_op [hw_ops]:
  "platform_ok P \<Longrightarrow> next_thread P m =
     (case tm_next (encode_cmd P 0 8) (cores m) of (r, c) \<Rightarrow> (extract_id r, m\<lparr>cores := c\<rparr>))"
  by (simp add: next_thread_def tm_dispatch split: prod.splits)

lemma yield_op [hw_ops]:
  "platform_ok P \<Longrightarrow> yield_thread P m =
     (case with_cores (tm_yield (cores m)) m of (r, m') \<Rightarrow> (extract_id r, m'))"
  by (simp add: yield_thread_def tm_dispatch)

lemma detached_op [hw_ops]:
  "platform_ok P \<Longrightarrow> detached_thread P i m =
     (e_detached (entries (tm (cores m)) (ucast i)) \<and> e_used (entries (tm (cores m)) (ucast i)), m)"
  by (simp add: detached_thread_def tm_dispatch tm_is_detached_def)

lemma sched_ops [hw_ops]:
  assumes "platform_ok P"
  shows "get_schedparam P i m = (sch_get_schedparam (ucast i) (sch (cores m)), m)"
    and "check_schedparam P i m =
      (if sch_check_schedparam (ucast i) (sch (cores m)) = 0 then SUCCESS else FAILURE, m)"
    and "read_sched_status P i m = (sch_entry_word (ucast i) (sch (cores m)), m)"
    and "set_idle_thread P i 0 m =
      with_sch (sch_set_idle (e_used (entries (tm (cores m)) (ucast i))) (ucast i) (sch (cores m))) m"
    and "enable_preemption P m =
      m\<lparr>cores := (cores m)\<lparr>sch := (sch (cores m))\<lparr>preempt_enable := True\<rparr>\<rparr>\<rparr>"
    and "disable_preemption P m =
      m\<lparr>cores := (cores m)\<lparr>sch := (sch (cores m))\<lparr>preempt_enable := False\<rparr>\<rparr>\<rparr>"
    and "release_malloc_lock P i m = with_sch (sch_malloc_lock False (ucast i) (sch (cores m))) m"
  using assms
  by (simp_all add: get_schedparam_def check_schedparam_def read_sched_status_def set_idle_thread_def
      enable_preemption_def disable_preemption_def release_malloc_lock_def
      read_scheduler write_scheduler sch_read_def sch_write_def Let_def sched_cmd_fields
      platform_aligned sch_toggle_preemption_def sch_check_schedparam_def has_error_def)

lemma malloc_lock_op [hw_ops]:
  assumes "platform_ok P"
  shows "get_malloc_lock P i m =
    (case with_sch (sch_malloc_lock True (ucast i) (sch (cores m))) m of (r, m') \<Rightarrow> (r AND 1, m'))"
proof -
  define a where "a = sched_cmd P i 0x44 OR 0x40000"
  have b: "bit (0x40000 :: Huint) n \<longleftrightarrow> n = 18" for n
  proof -
    have "bit (push_bit 18 1 :: Huint) n \<longleftrightarrow> n = 18"
      unfolding bit_push_bit_iff by (auto simp: bit_1_iff)
    then show ?thesis by simp
  qed
  have "\<not> bit (0x40000 :: Huint) n" if "20 \<le> n" for n unfolding b using that by simp
  from window_or_small [OF this, of "sched_cmd P i 0x44"] assms
  have w: "window a = window (SCHEDULER_BASEADDR P)"
    unfolding a_def by (simp add: sched_cmd_fields platform_aligned)
  have "take_bit 8 a = take_bit 8 (sched_cmd P i 0x44)"
    unfolding a_def by (rule bit_word_eqI, unfold field_bits b) auto
  then have c: "take_bit 8 a = 0x44" using assms by (simp add: sched_cmd_fields platform_aligned)
  have "(ucast (drop_bit 8 a) :: tid) = ucast (drop_bit 8 (sched_cmd P i 0x44))"
    unfolding a_def by (rule bit_word_eqI, unfold field_bits b) auto
  then have t: "(ucast (drop_bit 8 a) :: tid) = ucast i"
    using assms by (simp add: sched_cmd_fields platform_aligned)
  have l: "bit a 18" unfolding a_def bit_or_iff b by simp
  have "read_reg P a m = sch_read P a m"
    using assms by (simp add: read_reg_def w platform_windows)
  then show ?thesis
    unfolding get_malloc_lock_def a_def [symmetric] by (simp add: sch_read_def c t l)
qed

text \<open>Setting a scheduling parameter fails exactly for a ready thread given a hardware one.\<close>

lemma set_schedparam_op [hw_ops]:
  assumes "platform_ok P"
  shows "set_schedparam P i pr m =
    (case sch_set_schedparam (current (tm (cores m))) (e_used (entries (tm (cores m)) (ucast i)))
        (e_pid (entries (tm (cores m)) (ucast i))) (ucast i) pr (sch (cores m)) of
       (x, s) \<Rightarrow> (if sch_check_schedparam (ucast i) s = 0 then SUCCESS else FAILURE,
                  m\<lparr>cores := (cores m)\<lparr>sch := s\<rparr>, irq := irq m \<or> x\<rparr>))"
  using assms
  by (simp add: set_schedparam_def write_scheduler sch_write_def Let_def sched_cmd_fields
      platform_aligned sched_ops status_defs has_error_def split: prod.splits)

lemma mutex_ops [hw_ops]:
  assumes "platform_ok P"
  shows "mutex_acquire P t i m =
      (case lock_fsm (ucast i) (ucast t) (syncm m) of (r, s) \<Rightarrow> (r, m\<lparr>syncm := s\<rparr>))"
    and "mutex_tryacquire P t i m =
      (case trylock_fsm (ucast i) (ucast t) (syncm m) of
         (r, s) \<Rightarrow> (if r \<noteq> 0 then FAILURE else SUCCESS, m\<lparr>syncm := s\<rparr>))"
    and "mutex_release P t i m =
      (case unlock_fsm (ucast i) (syncm m) of
         (r, None, s) \<Rightarrow> m\<lparr>syncm := s\<rparr> | (r, Some u, s) \<Rightarrow> wake u (m\<lparr>syncm := s\<rparr>))"
    and "mutex_setkind P i k m = m\<lparr>syncm := kind_fsm_write (ucast i) k (syncm m)\<rparr>"
  using assms
  by (simp_all add: mutex_acquire_def mutex_tryacquire_def mutex_release_def mutex_setkind_def
      read_sync write_sync sync_read_def sync_write_def Let_def mutex_cmd_fields platform_aligned
      split: prod.splits option.splits)

lemma mutex_queries [hw_ops]:
  assumes "platform_ok P"
  shows "mutex_owner P i m = (ucast (m_owner (mutexes (syncm m) (ucast i))), m)"
    and "mutex_count P i m = (ucast (m_count (mutexes (syncm m) (ucast i))), m)"
    and "mutex_kind P i m = (ucast (m_kind (mutexes (syncm m) (ucast i))), m)"
proof -
  have small: "take_bit n (ucast (x :: 'a::len word) :: Huint) = ucast x" if "LENGTH('a) \<le> n" for n x
    by (rule bit_word_eqI) (use that in \<open>auto simp: field_bits dest: bit_imp_le_length\<close>)
  show "mutex_owner P i m = (ucast (m_owner (mutexes (syncm m) (ucast i))), m)"
    "mutex_count P i m = (ucast (m_count (mutexes (syncm m) (ucast i))), m)"
    "mutex_kind P i m = (ucast (m_kind (mutexes (syncm m) (ucast i))), m)"
    using assms
    by (simp_all add: mutex_owner_def mutex_count_def mutex_kind_def read_sync sync_read_def Let_def
        mutex_cmd_fields platform_aligned owner_fsm_def count_fsm_def kind_fsm_read_def and_masks small)
qed

lemma condvar_ops [hw_ops]:
  assumes "platform_ok P"
  shows "condvar_wait P t i m =
      Some (SUCCESS, m\<lparr>cvars := cv_enqueue (cv_number i) (ucast t) (cvars m)\<rparr>)"
    and "condvar_signal P i m =
      Some (SUCCESS, case cv_dequeue (cv_number i) (cvars m) of
        (None, s) \<Rightarrow> m\<lparr>cvars := s\<rparr> | (Some u, s) \<Rightarrow> wake u (m\<lparr>cvars := s\<rparr>))"
    and "condvar_broadcast P i m =
      Some (SUCCESS, case cv_dequeue_all (cv_number i) (cvars m) of
        (ws, s) \<Rightarrow> fold wake ws (m\<lparr>cvars := s\<rparr>))"
  using assms
  by (simp_all add: condvar_wait_def condvar_signal_def condvar_broadcast_def condvar_loop.simps
      read_condvar cv_read_def Let_def cvr_sema_cmd_fields platform_aligned HT_CONDVAR_FAILED_def
      cv_number_def split: prod.splits option.splits)

end
