(* ===== verification/Kernel.thy ===== *)
theory Kernel
  imports Machine
begin

text \<open>
  The kernel of the uniprocessor MicroBlaze configuration (without \<^verbatim>\<open>HTHREADS_SMP\<close>):
  \<^verbatim>\<open>src/software/system/mblaze\<close> (\<^verbatim>\<open>setup.c\<close>, \<^verbatim>\<open>sched.c\<close>, \<^verbatim>\<open>syscall.c\<close>, \<^verbatim>\<open>bootstrap.c\<close>,
  \<^verbatim>\<open>init.c\<close>), \<^verbatim>\<open>src/software/system/synch.c\<close> and \<^verbatim>\<open>src/archs/mblaze/src\<close> (\<^verbatim>\<open>arch.c\<close>,
  \<^verbatim>\<open>interrupt.c\<close>). The kernel's state is the machine, the table of thread control blocks,
  the table of saved register contexts and which thread's context is on the processor.

  A context switch saves where the running thread is in the kernel and lets another thread
  continue. The assembly routine stores registers and stack; the model stores instead the
  rest of the system call that is still to be executed when the thread is switched back, a
  value of the type \<open>cont\<close>. Objects that the kernel reaches through pointers of the C types
  \<^verbatim>\<open>hthread_attr_t*\<close>, \<^verbatim>\<open>hthread_mutex_t*\<close> and \<^verbatim>\<open>hthread_cond_t*\<close> live in one heap per type;
  words stored through other pointers go to the machine's memory. Trace and profiling output
  is left out.
\<close>

section \<open>State\<close>

record hthread_attr =
  detached :: Huint
  hardware :: Huint
  hardware_addr :: Huint
  stack_size :: Huint
  stack_addr :: Huint
  sched_param :: Huint

record hthread_mutex =
  m_num :: Huint
  m_type :: Huint

record hthread_cond =
  c_num :: Huint

record hthread_thread =
  newthread :: Huint
  retval :: Huint
  context_ptr :: Huint
  stack :: Huint
  stacksize :: Huint
  t_hardware :: Huint
  execution_time :: "64 word"

text \<open>
  What is left to do when a thread that lost the processor inside the kernel gets it back:
  return a value, the second half of a join, locking the mutex after a wait, trying to exit
  again; or nothing, when the thread starts or was interrupted in user code.
\<close>

datatype cont =
    K_user
  | K_ret Huint
  | K_join Huint Huint
  | K_lock Huint
  | K_exit Huint bool

record env =
  plat :: platform
  stacks_base :: Huint
  threads_base :: Huint
  mb_context_base :: Huint
  mb_context_size :: Huint
  bootstrap_thread :: Huint
  idle_thread :: Huint
  msr_cache :: Huint
  PREEMPT_INTR_MASK :: Huint
  READY_REG :: Huint
  CPU_0_READY :: Huint
  CBIS_BASEADDR :: Huint
  cbis_answer :: "Huint \<Rightarrow> Huint"

record kernel =
  mach :: machine
  threads :: "Huint \<Rightarrow> hthread_thread"
  mb_context_table :: "Huint \<Rightarrow> nat \<Rightarrow> Huint"
  thread_counter :: Huint
  cpu :: Huint
  saved :: "Huint \<Rightarrow> cont"
  attr_heap :: "Huint \<Rightarrow> hthread_attr"
  mutex_heap :: "Huint \<Rightarrow> hthread_mutex"
  cond_heap :: "Huint \<Rightarrow> hthread_cond"

datatype outcome = Returned Huint | Switched

definition MAX_THREADS :: Huint where "MAX_THREADS = 256"

definition HT_STACK_SIZE :: Huint where "HT_STACK_SIZE = 16384"

definition HTHREAD_STACK_MIN :: Huint where "HTHREAD_STACK_MIN = 128"

definition HTHREAD_STACK_RESERVE :: Huint where "HTHREAD_STACK_RESERVE = 64"

definition HT_DEFAULT_PRI :: Huint where "HT_DEFAULT_PRI = 64"

definition HT_MUTEX_BLOCK :: Huint where "HT_MUTEX_BLOCK = 0x40000000"

definition HT_SEM_MAXNUM :: Huint where "HT_SEM_MAXNUM = 58"

definition HTHREAD_MUTEX_RECURSIVE_NP :: Huint where "HTHREAD_MUTEX_RECURSIVE_NP = 1"

definition MB_SP :: nat where "MB_SP = 1"

definition MB_ARG0 :: nat where "MB_ARG0 = 5"

definition MB_ARG1 :: nat where "MB_ARG1 = 6"

definition MB_LR :: nat where "MB_LR = 15"

definition MB_MSR :: nat where "MB_MSR = 32"

lemmas kernel_consts =
  MAX_THREADS_def HT_STACK_SIZE_def HTHREAD_STACK_MIN_def HTHREAD_STACK_RESERVE_def
  HT_DEFAULT_PRI_def HT_MUTEX_BLOCK_def HT_SEM_MAXNUM_def HTHREAD_MUTEX_RECURSIVE_NP_def

section \<open>Access to the machine\<close>

definition on_mach :: "(machine \<Rightarrow> 'a \<times> machine) \<Rightarrow> kernel \<Rightarrow> 'a \<times> kernel" where
  "on_mach f k = (case f (mach k) of (r, m) \<Rightarrow> (r, k\<lparr>mach := m\<rparr>))"

definition upd_mach :: "(machine \<Rightarrow> machine) \<Rightarrow> kernel \<Rightarrow> kernel" where
  "upd_mach f k = k\<lparr>mach := f (mach k)\<rparr>"

definition upd_thread :: "Huint \<Rightarrow> (hthread_thread \<Rightarrow> hthread_thread) \<Rightarrow> kernel \<Rightarrow> kernel" where
  "upd_thread t f k = k\<lparr>threads := (threads k)(t := f (threads k t))\<rparr>"

definition store :: "env \<Rightarrow> Huint \<Rightarrow> Huint \<Rightarrow> kernel \<Rightarrow> kernel" where
  "store E a v = upd_mach (write_reg (plat E) a v)"

section \<open>Architecture: new contexts\<close>

definition stack_top :: "hthread_thread \<Rightarrow> Huint" where
  "stack_top th =
     (if stacksize th > 0 then stack th + stacksize th - HTHREAD_STACK_RESERVE else 0)"

definition arch_setup_thread :: "env \<Rightarrow> Huint \<Rightarrow> Huint \<Rightarrow> Huint \<Rightarrow> kernel \<Rightarrow> Huint \<times> kernel" where
  "arch_setup_thread E th start arg k =
     (let k1 = upd_thread th (\<lambda>x. x\<lparr>context_ptr := mb_context_base E + th * mb_context_size E\<rparr>) k;
          regs = (mb_context_table k1 th)
            (MB_SP := stack_top (threads k1 th),
             MB_LR := bootstrap_thread E,
             MB_ARG0 := start,
             MB_ARG1 := arg,
             MB_MSR := 0x00000002 OR 0x00000100 OR 0x00000800 OR msr_cache E)
      in (SUCCESS, k1\<lparr>mb_context_table := (mb_context_table k1)(th := regs)\<rparr>))"

definition arch_destroy_thread :: "Huint \<Rightarrow> Huint" where
  "arch_destroy_thread th = SUCCESS"

section \<open>Hardware thread interface\<close>

definition hwti_write :: "env \<Rightarrow> Huint \<Rightarrow> Huint \<Rightarrow> Huint \<Rightarrow> kernel \<Rightarrow> kernel" where
  "hwti_write E base reg v = store E (hwti_cmd base reg) v"

definition hwti_reset :: "env \<Rightarrow> Huint \<Rightarrow> kernel \<Rightarrow> kernel" where
  "hwti_reset E base = hwti_write E base 0x000C 0x0002"

definition hwti_setid :: "env \<Rightarrow> Huint \<Rightarrow> Huint \<Rightarrow> kernel \<Rightarrow> kernel" where
  "hwti_setid E base i = hwti_write E base 0x0000 i"

definition hwti_setarg :: "env \<Rightarrow> Huint \<Rightarrow> Huint \<Rightarrow> kernel \<Rightarrow> kernel" where
  "hwti_setarg E base arg = hwti_write E base 0x0010 arg"

definition hwti_set_fcn_ptr :: "env \<Rightarrow> Huint \<Rightarrow> Huint \<Rightarrow> kernel \<Rightarrow> kernel" where
  "hwti_set_fcn_ptr E base p = hwti_write E base 0x0018 p"

definition hwti_set_global_context_ptr :: "env \<Rightarrow> Huint \<Rightarrow> Huint \<Rightarrow> kernel \<Rightarrow> kernel" where
  "hwti_set_global_context_ptr E base p = hwti_write E base 0x0024 p"

definition hwti_set_global_context_table_ptr :: "env \<Rightarrow> Huint \<Rightarrow> Huint \<Rightarrow> kernel \<Rightarrow> kernel" where
  "hwti_set_global_context_table_ptr E base p = hwti_write E base 0x0028 p"

definition hwti_set_global_stack_ptr :: "env \<Rightarrow> Huint \<Rightarrow> Huint \<Rightarrow> kernel \<Rightarrow> kernel" where
  "hwti_set_global_stack_ptr E base p = hwti_write E base 0x0020 p"

definition hwti_set_bootstrap_ptr :: "env \<Rightarrow> Huint \<Rightarrow> Huint \<Rightarrow> kernel \<Rightarrow> kernel" where
  "hwti_set_bootstrap_ptr E base p = hwti_write E base 0x002C p"

definition hwti_set_utilized :: "env \<Rightarrow> Huint \<Rightarrow> kernel \<Rightarrow> kernel" where
  "hwti_set_utilized E base = hwti_write E base 0x0004 0x0001"

definition setup_hwti :: "env \<Rightarrow> Huint \<Rightarrow> Huint \<Rightarrow> Huint \<Rightarrow> Huint \<Rightarrow> kernel \<Rightarrow> kernel" where
  "setup_hwti E base t start arg k =
     (let k1 = hwti_reset E base k;
          k2 = hwti_setid E base t k1;
          k3 = hwti_setarg E base arg k2;
          k4 = hwti_set_fcn_ptr E base start k3;
          k5 = hwti_set_global_context_ptr E base (threads_base E) k4;
          k6 = hwti_set_global_context_table_ptr E base (mb_context_base E) k5;
          k7 = hwti_set_global_stack_ptr E base (stacks_base E) k6;
          k8 = hwti_set_bootstrap_ptr E base (bootstrap_thread E) k7
      in hwti_set_utilized E base k8)"

section \<open>Setting up and destroying threads (setup.c)\<close>

definition own_stack :: "env \<Rightarrow> Huint \<Rightarrow> Huint" where
  "own_stack E t = stacks_base E + t * HT_STACK_SIZE"

definition setup_thread ::
  "env \<Rightarrow> Huint \<Rightarrow> hthread_attr \<Rightarrow> Huint \<Rightarrow> Huint \<Rightarrow> kernel \<Rightarrow> Huint \<times> kernel" where
  "setup_thread E t attr start arg k =
     (if t \<ge> MAX_THREADS then (EINVAL, k)
      else
        let alloc = (stack_addr attr = 0 \<and> hardware attr \<noteq> Htrue);
            stk = (if alloc then own_stack E t else stack_addr attr)
        in if alloc \<and> stack_size attr \<le> HTHREAD_STACK_MIN then (EINVAL, k)
           else if alloc \<and> stk = 0 then (ENOMEM, k)
           else
             let k1 = upd_thread t (\<lambda>x. x\<lparr>stack := stk, stacksize := stack_size attr,
                        newthread := Htrue, retval := 0, execution_time := 0\<rparr>) k
             in if hardware attr \<noteq> Htrue
                then arch_setup_thread E t start arg (upd_thread t (\<lambda>x. x\<lparr>t_hardware := 0\<rparr>) k1)
                else
                  let base = hardware_addr attr - 0x000C;
                      k2 = setup_hwti E base t start arg k1
                  in (SUCCESS, upd_thread t (\<lambda>x. x\<lparr>t_hardware := hardware_addr attr\<rparr>) k2))"

definition destroy_thread :: "env \<Rightarrow> Huint \<Rightarrow> kernel \<Rightarrow> Huint \<times> kernel" where
  "destroy_thread E i k =
     (case on_mach (clear_thread (plat E) i) k of
        (r, k1) \<Rightarrow> (SUCCESS, upd_thread i (\<lambda>x. x\<lparr>stack := 0\<rparr>) k1))"

section \<open>Context switches (sched.c)\<close>

definition enter_thread :: "Huint \<Rightarrow> kernel \<Rightarrow> kernel" where
  "enter_thread nxt k =
     (if newthread (threads k nxt) \<noteq> Hfalse
      then (upd_thread nxt (\<lambda>x. x\<lparr>newthread := Hfalse\<rparr>) k)\<lparr>saved := (saved k)(nxt := K_user), cpu := nxt\<rparr>
      else k\<lparr>cpu := nxt\<rparr>)"

definition switch_context :: "cont \<Rightarrow> Huint \<Rightarrow> Huint \<Rightarrow> kernel \<Rightarrow> kernel" where
  "switch_context c cur nxt k = enter_thread nxt (k\<lparr>saved := (saved k)(cur := c)\<rparr>)"

definition restore_context :: "Huint \<Rightarrow> Huint \<Rightarrow> kernel \<Rightarrow> kernel" where
  "restore_context cur nxt k = enter_thread nxt k"

text \<open>\<open>run_sched E (Some c)\<close> is \<^verbatim>\<open>_run_sched(Htrue)\<close> in a caller that goes on as \<open>c\<close>.\<close>

definition run_sched :: "env \<Rightarrow> cont option \<Rightarrow> kernel \<Rightarrow> bool \<times> kernel" where
  "run_sched E save k =
     (case on_mach (current_thread (plat E)) k of
        (cur, k1) \<Rightarrow> case on_mach (next_thread (plat E)) k1 of
          (nxt, k2) \<Rightarrow> case on_mach (current_thread (plat E)) k2 of
            (new_curr, k3) \<Rightarrow>
              if new_curr \<noteq> nxt then (False, k3)
              else if cur = nxt then (False, k3)
              else (case save of Some c \<Rightarrow> (True, switch_context c cur nxt k3)
                    | None \<Rightarrow> (True, restore_context cur nxt k3)))"

section \<open>System calls (syscall.c)\<close>

definition syscall_create ::
  "env \<Rightarrow> Huint \<Rightarrow> Huint \<Rightarrow> Huint \<Rightarrow> Huint \<Rightarrow> kernel \<Rightarrow> Hint \<times> kernel" where
  "syscall_create E th attr_ptr start arg k =
     (let P = plat E; attr = attr_heap k attr_ptr in
      case on_mach (if detached attr \<noteq> 0 then create_detached P else create_joinable P) k of
        (threadStatus, k1) \<Rightarrow>
          if has_error threadStatus then (EAGAIN, k1)
          else
            let threadID = extract_id threadStatus in
            case setup_thread E threadID attr start arg k1 of
              (setupStatus, k2) \<Rightarrow>
                if setupStatus \<noteq> SUCCESS then (setupStatus, k2)
                else
                  case on_mach (set_schedparam P threadID
                         (if hardware attr \<noteq> Htrue then sched_param attr else hardware_addr attr)) k2 of
                    (schedStatus, k3) \<Rightarrow>
                      if schedStatus \<noteq> SUCCESS then (schedStatus, k3)
                      else
                        case on_mach (add_thread P threadID) k3 of
                          (addStatus, k4) \<Rightarrow>
                            if has_error addStatus then
                              (EAGAIN,
                               snd (on_mach (clear_thread P threadID)
                                 (snd (destroy_thread E threadID
                                   (snd (on_mach (read_sched_status P threadID) k4))))))
                            else (SUCCESS, store E th threadID k4))"

definition join_rest :: "env \<Rightarrow> Huint \<Rightarrow> Huint \<Rightarrow> kernel \<Rightarrow> Hint \<times> kernel" where
  "join_rest E th ret k =
     (let k1 = (if ret \<noteq> 0 then store E ret (retval (threads k th)) k else k) in
      case on_mach (detached_thread (plat E) th) k1 of
        (d, k2) \<Rightarrow> (SUCCESS, if \<not> d then snd (destroy_thread E th k2) else k2))"

definition finish :: "Hint \<times> kernel \<Rightarrow> outcome \<times> kernel" where
  "finish x = (Returned (fst x), snd x)"

definition syscall_join :: "env \<Rightarrow> Huint \<Rightarrow> Huint \<Rightarrow> kernel \<Rightarrow> outcome \<times> kernel" where
  "syscall_join E th ret k =
     (case on_mach (join_thread (plat E) th) k of
        (status, k1) \<Rightarrow>
          if has_error status \<and> extract_error status \<noteq> HT_ALREADY_EXITED then (Returned EINVAL, k1)
          else if extract_error status \<noteq> HT_ALREADY_EXITED then
            (case run_sched E (Some (K_join th ret)) k1 of
               (switched, k2) \<Rightarrow>
                 if switched then (Switched, k2) else finish (join_rest E th ret k2))
          else finish (join_rest E th ret k1))"

definition syscall_detach :: "env \<Rightarrow> Huint \<Rightarrow> kernel \<Rightarrow> Hint \<times> kernel" where
  "syscall_detach E th k =
     (case on_mach (detach_thread (plat E) th) k of
        (sta, k1) \<Rightarrow> (if sta \<noteq> 0 then SUCCESS else EINVAL, k1))"

definition syscall_yield :: "env \<Rightarrow> cont \<Rightarrow> kernel \<Rightarrow> outcome \<times> kernel" where
  "syscall_yield E c k =
     (case on_mach (current_thread (plat E)) k of
        (cur, k1) \<Rightarrow> case on_mach (yield_thread (plat E)) k1 of
          (nxt, k2) \<Rightarrow>
            if cur \<noteq> nxt then (Switched, switch_context c cur nxt k2)
            else (Returned SUCCESS, k2))"

text \<open>
  The loop of \<^verbatim>\<open>_syscall_exit\<close>: \<open>None\<close> when it goes on for ever. After a successful exit the
  scheduler runs; the call returns to the caller only if it finds no other thread.
\<close>

definition exit_rest :: "env \<Rightarrow> Huint \<Rightarrow> bool \<Rightarrow> kernel \<Rightarrow> outcome \<times> kernel" where
  "exit_rest E cur destroy_flag k =
     (let k1 = (if destroy_flag then snd (destroy_thread E cur k) else k) in
      case run_sched E None k1 of
        (switched, k2) \<Rightarrow> (if switched then Switched else Returned 0, k2))"

partial_function (option) exit_loop ::
  "env \<Rightarrow> Huint \<Rightarrow> bool \<Rightarrow> kernel \<Rightarrow> (outcome \<times> kernel) option" where
  "exit_loop E cur destroy_flag k =
     (case on_mach (exit_thread (plat E) cur) k of
        (status, k1) \<Rightarrow>
          if has_error status then
            (case syscall_yield E (K_exit cur destroy_flag) k1 of
               (out, k2) \<Rightarrow> if out = Switched then Some (Switched, k2)
                           else exit_loop E cur destroy_flag k2)
          else Some (exit_rest E cur destroy_flag k1))"

definition syscall_exit :: "env \<Rightarrow> Huint \<Rightarrow> kernel \<Rightarrow> (outcome \<times> kernel) option" where
  "syscall_exit E ret k =
     (case on_mach (current_thread (plat E)) k of
        (cur, k1) \<Rightarrow> case on_mach (detached_thread (plat E) cur) k1 of
          (destroy_flag, k2) \<Rightarrow>
            exit_loop E cur destroy_flag (upd_thread cur (\<lambda>x. x\<lparr>retval := ret\<rparr>) k2))"

definition syscall_current_id :: "env \<Rightarrow> kernel \<Rightarrow> Huint \<times> kernel" where
  "syscall_current_id E = on_mach (current_thread (plat E))"

definition syscall_set_schedparam :: "env \<Rightarrow> Huint \<Rightarrow> Huint \<Rightarrow> kernel \<Rightarrow> Hint \<times> kernel" where
  "syscall_set_schedparam E th pr = on_mach (set_schedparam (plat E) th pr)"

definition syscall_get_schedparam :: "env \<Rightarrow> Huint \<Rightarrow> Huint \<Rightarrow> kernel \<Rightarrow> Hint \<times> kernel" where
  "syscall_get_schedparam E th pr k =
     (case on_mach (get_schedparam (plat E) th) k of (v, k1) \<Rightarrow> (SUCCESS, store E pr v k1))"

definition cbis_encode_cmd :: "env \<Rightarrow> Huint \<Rightarrow> Huint \<Rightarrow> Huint \<Rightarrow> Huint" where
  "cbis_encode_cmd E op th iid =
     CBIS_BASEADDR E OR push_bit 16 (op AND 0xF) OR push_bit 8 (th AND 0xFF) OR push_bit 5 (iid AND 7)"

definition syscall_intr_assoc :: "env \<Rightarrow> Huint \<Rightarrow> kernel \<Rightarrow> outcome \<times> kernel" where
  "syscall_intr_assoc E iid k =
     (case on_mach (current_thread (plat E)) k of
        (cur, k1) \<Rightarrow>
          let res = cbis_answer E (cbis_encode_cmd E 1 cur iid) in
          if res = 0 then
            (case run_sched E (Some (K_ret res)) k1 of
               (switched, k2) \<Rightarrow> (if switched then Switched else Returned res, k2))
          else (Returned res, k1))"

definition syscall_mutex_lock :: "env \<Rightarrow> Huint \<Rightarrow> kernel \<Rightarrow> outcome \<times> kernel" where
  "syscall_mutex_lock E mutex k =
     (case on_mach (current_thread (plat E)) k of
        (cur, k1) \<Rightarrow> case on_mach (mutex_acquire (plat E) cur (m_num (mutex_heap k1 mutex))) k1 of
          (sta, k2) \<Rightarrow>
            if sta = HT_MUTEX_BLOCK then
              (case run_sched E (Some (K_ret SUCCESS)) k2 of
                 (switched, k3) \<Rightarrow> (if switched then Switched else Returned SUCCESS, k3))
            else (Returned (if sta = SUCCESS then SUCCESS else FAILURE), k2))"

definition syscall_mutex_unlock :: "env \<Rightarrow> Huint \<Rightarrow> kernel \<Rightarrow> Hint \<times> kernel" where
  "syscall_mutex_unlock E mutex k =
     (case on_mach (current_thread (plat E)) k of
        (cur, k1) \<Rightarrow> (SUCCESS, upd_mach (mutex_release (plat E) cur (m_num (mutex_heap k1 mutex))) k1))"

definition syscall_mutex_trylock :: "env \<Rightarrow> Huint \<Rightarrow> kernel \<Rightarrow> Hint \<times> kernel" where
  "syscall_mutex_trylock E mutex k =
     (case on_mach (current_thread (plat E)) k of
        (cur, k1) \<Rightarrow> case on_mach (mutex_tryacquire (plat E) cur (m_num (mutex_heap k1 mutex))) k1 of
          (sta, k2) \<Rightarrow> (if sta \<noteq> SUCCESS then EBUSY else SUCCESS, k2))"

definition opt_mach :: "(machine \<Rightarrow> ('a \<times> machine) option) \<Rightarrow> kernel \<Rightarrow> ('a \<times> kernel) option" where
  "opt_mach f k = map_option (\<lambda>x. (fst x, k\<lparr>mach := snd x\<rparr>)) (f (mach k))"

definition syscall_cond_wait :: "env \<Rightarrow> Huint \<Rightarrow> Huint \<Rightarrow> kernel \<Rightarrow> (outcome \<times> kernel) option" where
  "syscall_cond_wait E cond mutex k =
     (case on_mach (current_thread (plat E)) k of
        (t, k1) \<Rightarrow> case opt_mach (condvar_wait (plat E) t (c_num (cond_heap k1 cond))) k1 of
          None \<Rightarrow> None
        | Some (_, k2) \<Rightarrow>
            (case syscall_mutex_unlock E mutex k2 of
               (sta, k3) \<Rightarrow>
                 if sta \<noteq> SUCCESS then Some (Returned sta, k3)
                 else
                   case run_sched E (Some (K_lock mutex)) k3 of
                     (switched, k4) \<Rightarrow>
                       Some (if switched then (Switched, k4) else syscall_mutex_lock E mutex k4)))"

definition syscall_cond_signal :: "env \<Rightarrow> Huint \<Rightarrow> kernel \<Rightarrow> (Hint \<times> kernel) option" where
  "syscall_cond_signal E cond k = opt_mach (condvar_signal (plat E) (c_num (cond_heap k cond))) k"

definition syscall_cond_broadcast :: "env \<Rightarrow> Huint \<Rightarrow> kernel \<Rightarrow> (Hint \<times> kernel) option" where
  "syscall_cond_broadcast E cond k = opt_mach (condvar_broadcast (plat E) (c_num (cond_heap k cond))) k"

definition syscall_sched :: "env \<Rightarrow> kernel \<Rightarrow> outcome \<times> kernel" where
  "syscall_sched E k =
     (case run_sched E (Some (K_ret SUCCESS)) k of
        (switched, k1) \<Rightarrow> (if switched then Switched else Returned SUCCESS, k1))"

text \<open>The handler: numbers above 16 stop the processor in an endless loop.\<close>

definition system_call_handler ::
  "env \<Rightarrow> Huint \<Rightarrow> Huint \<Rightarrow> Huint \<Rightarrow> Huint \<Rightarrow> Huint \<Rightarrow> kernel \<Rightarrow> (outcome \<times> kernel) option" where
  "system_call_handler E c p2 p3 p4 p5 k =
     (if c > 16 then None
      else if c = 1 then Some (finish (syscall_create E p2 p3 p4 p5 k))
      else if c = 2 then Some (syscall_join E p2 p3 k)
      else if c = 3 then Some (finish (syscall_detach E p2 k))
      else if c = 4 then Some (syscall_yield E (K_ret SUCCESS) k)
      else if c = 5 then syscall_exit E p2 k
      else if c = 6 then Some (finish (syscall_current_id E k))
      else if c = 7 then Some (finish (syscall_set_schedparam E p2 p3 k))
      else if c = 8 then Some (finish (syscall_get_schedparam E p2 p3 k))
      else if c = 9 then Some (syscall_intr_assoc E p2 k)
      else if c = 10 then Some (syscall_mutex_lock E p2 k)
      else if c = 11 then Some (finish (syscall_mutex_unlock E p2 k))
      else if c = 12 then Some (finish (syscall_mutex_trylock E p2 k))
      else if c = 13 then syscall_cond_wait E p2 p3 k
      else if c = 14 then map_option finish (syscall_cond_signal E p2 k)
      else if c = 15 then map_option finish (syscall_cond_broadcast E p2 k)
      else if c = 16 then Some (syscall_sched E k)
      else Some (Returned EINVAL, k))"

text \<open>
  The thread on the processor goes on inside the kernel where it was switched out; nothing
  is left to do for a thread in user code.
\<close>

definition resume :: "env \<Rightarrow> kernel \<Rightarrow> (outcome \<times> kernel) option" where
  "resume E k =
     (case saved k (cpu k) of
        K_user \<Rightarrow> Some (Returned 0, k)
      | K_ret v \<Rightarrow> Some (Returned v, k)
      | K_join th ret \<Rightarrow> Some (finish (join_rest E th ret k))
      | K_lock mutex \<Rightarrow> Some (syscall_mutex_lock E mutex k)
      | K_exit cur destroy_flag \<Rightarrow> exit_loop E cur destroy_flag k)"

section \<open>Interrupts, bootstrap and idle threads\<close>

text \<open>
  \<open>status\<close> is what the interrupt controller reports. Any interrupt but the preemption
  request ends in an endless loop (time slicing is a compile-time option that is off).
\<close>

definition interrupt_handler :: "env \<Rightarrow> Huint \<Rightarrow> kernel \<Rightarrow> (outcome \<times> kernel) option" where
  "interrupt_handler E status k =
     (if status AND PREEMPT_INTR_MASK E \<noteq> 0 then
        (case on_mach (current_thread (plat E)) k of
           (cur, k1) \<Rightarrow> case on_mach (yield_thread (plat E)) k1 of
             (nxt, k2) \<Rightarrow>
               let k3 = upd_mach (\<lambda>m. m\<lparr>irq := False\<rparr>) k2 in
               Some (if cur \<noteq> nxt then (Switched, switch_context K_user cur nxt k3)
                     else (Returned 0, k3)))
      else None)"

text \<open>
  The end of \<^verbatim>\<open>_bootstrap_thread\<close>, after the thread's start function has returned \<open>ret\<close>;
  \<open>start\<close> and \<open>stop\<close> are the times read before and after it ran.
\<close>

definition bootstrap_thread_end ::
  "env \<Rightarrow> 64 word \<Rightarrow> 64 word \<Rightarrow> Huint \<Rightarrow> kernel \<Rightarrow> (outcome \<times> kernel) option" where
  "bootstrap_thread_end E start stop ret k =
     (case syscall_current_id E k of
        (t, k1) \<Rightarrow>
          let k2 = upd_thread t (\<lambda>x. x\<lparr>execution_time := stop - start\<rparr>) k1
          in syscall_exit E ret (k2\<lparr>thread_counter := thread_counter k2 - 1\<rparr>))"

section \<open>Spin locks (synch.c)\<close>

definition sysc_lock_num :: Huint where "sysc_lock_num = HT_SEM_MAXNUM"

definition libc_lock_num :: Huint where "libc_lock_num = HT_SEM_MAXNUM + 1"

definition hthread_spin_init :: "env \<Rightarrow> kernel \<Rightarrow> Hint \<times> kernel" where
  "hthread_spin_init E k =
     (SUCCESS, upd_mach (mutex_setkind (plat E) libc_lock_num HTHREAD_MUTEX_RECURSIVE_NP)
       (upd_mach (mutex_setkind (plat E) sysc_lock_num HTHREAD_MUTEX_RECURSIVE_NP) k))"

partial_function (option) spin_loop :: "env \<Rightarrow> Huint \<Rightarrow> Huint \<Rightarrow> kernel \<Rightarrow> (Hint \<times> kernel) option" where
  "spin_loop E cur num k =
     (case on_mach (mutex_tryacquire (plat E) cur num) k of
        (sta, k1) \<Rightarrow> if sta \<noteq> SUCCESS then spin_loop E cur num k1 else Some (SUCCESS, k1))"

definition hthread_spin_lock :: "env \<Rightarrow> Huint \<Rightarrow> kernel \<Rightarrow> (Hint \<times> kernel) option" where
  "hthread_spin_lock E num k =
     (case on_mach (current_thread (plat E)) k of (cur, k1) \<Rightarrow> spin_loop E cur num k1)"

definition hthread_spin_unlock :: "env \<Rightarrow> Huint \<Rightarrow> kernel \<Rightarrow> Hint \<times> kernel" where
  "hthread_spin_unlock E num k =
     (case on_mach (current_thread (plat E)) k of
        (cur, k1) \<Rightarrow> (SUCCESS, upd_mach (mutex_release (plat E) cur num) k1))"

section \<open>Initialisation (init.c)\<close>

definition init_stack_ptrs :: "kernel \<Rightarrow> kernel" where
  "init_stack_ptrs k =
     fold (\<lambda>i. upd_thread (of_nat i) (\<lambda>x. x\<lparr>stack := 0\<rparr>)) [0..<256] k"

definition init_thread_register :: "env \<Rightarrow> Huint \<Rightarrow> kernel \<Rightarrow> kernel" where
  "init_thread_register E t k =
     snd (on_mach (next_thread (plat E)) (snd (on_mach (add_thread (plat E) t) k)))"

definition allocate_thread :: "env \<Rightarrow> kernel \<Rightarrow> (Huint \<times> kernel) option" where
  "allocate_thread E k =
     (case on_mach (create_detached (plat E)) k of
        (thread_status, k1) \<Rightarrow>
          if has_error thread_status then None else Some (extract_id thread_status, k1))"

definition create_main_thread :: "env \<Rightarrow> kernel \<Rightarrow> (Huint \<times> kernel) option" where
  "create_main_thread E k =
     (let attrs = \<lparr>detached = Htrue, hardware = Hfalse, hardware_addr = 0, stack_size = 0,
                   stack_addr = 0xFFFFFFFF, sched_param = HT_DEFAULT_PRI\<rparr> in
      case allocate_thread E k of
        None \<Rightarrow> None
      | Some (main, k1) \<Rightarrow>
          let k2 = snd (on_mach (set_schedparam (plat E) main (sched_param attrs)) k1);
              k3 = upd_thread main (\<lambda>x. x\<lparr>stack := 0\<rparr>) k2;
              k4 = init_thread_register E main k3;
              k5 = snd (setup_thread E main attrs 0 0 k4)
          in Some (main, upd_thread main (\<lambda>x. x\<lparr>newthread := Hfalse\<rparr>) k5))"

definition create_idle_thread :: "env \<Rightarrow> kernel \<Rightarrow> (Huint \<times> kernel) option" where
  "create_idle_thread E k =
     (let attrs = \<lparr>detached = Htrue, hardware = Hfalse, hardware_addr = 0, stack_size = 1024,
                   stack_addr = 0, sched_param = 0x7F\<rparr> in
      case allocate_thread E k of
        None \<Rightarrow> None
      | Some (idle, k1) \<Rightarrow>
          let k2 = snd (on_mach (set_schedparam (plat E) idle (sched_param attrs)) k1);
              k3 = snd (setup_thread E idle attrs (idle_thread E) 0 k2)
          in Some (idle, snd (on_mach (set_idle_thread (plat E) idle 0) k3)))"

text \<open>
  The part of \<^verbatim>\<open>hthread_init\<close> for processor 0 without SMP. The flag it stores for the other
  processors goes to a register outside the cores; enabling interrupts, caches
  and user mode is processor state that the model has no part of.
\<close>

definition hthread_init :: "env \<Rightarrow> kernel \<Rightarrow> kernel option" where
  "hthread_init E k =
     (let k1 = upd_mach (enable_preemption (plat E)) (init_stack_ptrs (k\<lparr>thread_counter := 0\<rparr>)) in
      case create_main_thread E k1 of
        None \<Rightarrow> None
      | Some (main, k2) \<Rightarrow>
          let k3 = (store E (READY_REG E) (CPU_0_READY E) k2)\<lparr>cpu := main\<rparr> in
          case create_idle_thread E k3 of
            None \<Rightarrow> None
          | Some (idle, k4) \<Rightarrow> Some k4)"

end
