(* ===== verification/Kernel_Laws.thy ===== *)
theory Kernel_Laws
  imports Kernel
begin

text \<open>
  What the kernel's system calls promise. The first part lifts the invariants of the cores
  to the state the kernel works on: the ready queue holds running threads, the thread on the
  processor is not in it. The second part has one group of lemmas per system call.
\<close>

section \<open>Definitions used in the statements\<close>

definition ready_ok :: "cores \<Rightarrow> (pri \<Rightarrow> tid list) \<Rightarrow> bool" where
  "ready_ok c Q \<longleftrightarrow> tm_ok (tm c) \<and> sched_repr (sch c) Q \<and> next_ok (sch c) Q \<and>
     (\<forall>p. \<forall>t \<in> set (Q p). running (entries (tm c) t)) \<and> (\<forall>p. current (tm c) \<notin> set (Q p))"

definition kcores :: "kernel \<Rightarrow> cores" where
  "kcores k = cores (mach k)"

definition kcurrent :: "kernel \<Rightarrow> tid" where
  "kcurrent k = current (tm (kcores k))"

definition mem_addr :: "platform \<Rightarrow> Huint \<Rightarrow> bool" where
  "mem_addr P a \<longleftrightarrow> window a \<noteq> window (MANAGER_BASEADDR P) \<and> window a \<noteq> window (SCHEDULER_BASEADDR P) \<and>
     window a \<noteq> window (SYNCH_BASEADDR P) \<and> window a \<noteq> window (CONDVAR_BASEADDR P)"

text \<open>
  The priority a new software thread gets. The thread manager records thread 0 as the parent
  of every detached thread, so that the request of any other creator to set the priority of a
  detached thread is refused and the thread keeps the priority its ID had before.
\<close>

definition created_priority :: "hthread_attr \<Rightarrow> kernel \<Rightarrow> tid \<Rightarrow> pri" where
  "created_priority attr k t =
     (if detached attr \<noteq> 0 \<and> kcurrent k \<noteq> 0 then priority (thread_ram (sch (kcores k)) t)
      else ucast (sched_param attr))"

text \<open>The ready queue after the exit of the current thread: a parent that joined it is ready.\<close>

definition exit_queue :: "kernel \<Rightarrow> (pri \<Rightarrow> tid list) \<Rightarrow> pri \<Rightarrow> tid list" where
  "exit_queue k Q =
     (let e = entries (tm (kcores k)) (kcurrent k);
          q = priority (thread_ram (sch (kcores k)) (e_pid e)) in
      if \<not> e_detached e \<and> e_joined e then Q(q := Q q @ [e_pid e]) else Q)"

text \<open>A parent that joined the current thread is blocked in its join.\<close>

definition joiner_blocked :: "kernel \<Rightarrow> bool" where
  "joiner_blocked k \<longleftrightarrow>
     (let c = kcores k; e = entries (tm c) (kcurrent k) in
      \<not> e_detached e \<and> e_joined e \<longrightarrow>
        e_pid e \<noteq> kcurrent k \<and> running (entries (tm c) (e_pid e)) \<and>
        \<not> queue_bit (thread_ram (sch c) (e_pid e)) \<and> sw_range (param_ram (sch c) (e_pid e)))"

text \<open>A platform for the concrete instances.\<close>

definition example_env :: env where
  "example_env = \<lparr>plat = \<lparr>MANAGER_BASEADDR = 0x10000000, SCHEDULER_BASEADDR = 0x10100000,
     SYNCH_BASEADDR = 0x10200000, CONDVAR_BASEADDR = 0x10300000, procid = 0,
     sched_lines = (\<lambda>_. 0), debug_lines = (\<lambda>_. 0)\<rparr>, stacks_base = 0x20000000,
     threads_base = 0x20800000, mb_context_base = 0x20900000, mb_context_size = 132,
     bootstrap_thread = 0x2000, idle_thread = 0x2100, msr_cache = 0, PREEMPT_INTR_MASK = 1,
     READY_REG = 0x30000008, CPU_0_READY = 0xDEAD0000, CBIS_BASEADDR = 0x40000000,
     cbis_answer = (\<lambda>_. 0)\<rparr>"

definition example_kernel :: "cores \<Rightarrow> kernel" where
  "example_kernel c = \<lparr>mach = \<lparr>cores = c, syncm = sync_reset, cvars = condvar_reset, mem = (\<lambda>_. 0),
       irq = False\<rparr>,
     threads = (\<lambda>_. \<lparr>newthread = Htrue, retval = 0, context_ptr = 0, stack = 0, stacksize = 0,
       t_hardware = 0, execution_time = 0\<rparr>),
     mb_context_table = (\<lambda>_ _. 0), thread_counter = 0, cpu = 0, saved = (\<lambda>_. K_user),
     attr_heap = (\<lambda>_. \<lparr>detached = Hfalse, hardware = Hfalse, hardware_addr = 0, stack_size = 16384,
       stack_addr = 0, sched_param = 64\<rparr>),
     mutex_heap = (\<lambda>_. \<lparr>m_num = 0, m_type = 0\<rparr>), cond_heap = (\<lambda>_. \<lparr>c_num = 0\<rparr>)\<rparr>"

section \<open>The ready queue under the commands of the thread manager\<close>

lemma dequeue_status: "fst (sch_dequeue t s) = 0"
  by (simp add: sch_dequeue_def Let_def)

lemma ready_ok_D:
  assumes "ready_ok c Q"
  shows "tm_ok (tm c)" "sched_repr (sch c) Q" "next_ok (sch c) Q"
    "t \<in> set (Q p) \<Longrightarrow> running (entries (tm c) t)" "current (tm c) \<notin> set (Q p)"
    "t \<in> set (Q p) \<longleftrightarrow> queue_bit (thread_ram (sch c) t) \<and> priority (thread_ram (sch c) t) = p"
  using assms sched_repr_mem [of "sch c" Q] by (auto simp: ready_ok_def)

lemma ready_ok_not_queued:
  assumes "ready_ok c Q" and "\<not> running (entries (tm c) t)"
  shows "\<not> queue_bit (thread_ram (sch c) t)"
  using ready_ok_D(4,6) [OF assms(1)] assms(2) by blast

lemma ready_ok_current_not_queued:
  assumes "ready_ok c Q" shows "\<not> queue_bit (thread_ram (sch c) (current (tm c)))"
  using ready_ok_D(5,6) [OF assms] by blast

text \<open>Adding a running thread that is not queued appends it to the queue of its priority.\<close>

lemma add_appends:
  assumes ok: "ready_ok c Q" and t: "running (entries (tm c) t)" "t \<noteq> current (tm c)"
    "\<not> queue_bit (thread_ram (sch c) t)" "sw_range (param_ram (sch c) t)"
    and p: "p = priority (thread_ram (sch c) t)"
  shows "\<exists>irq c'. tm_add t c = (0x800000, (None, irq), c') \<and> tm c' = tm c \<and>
           ready_ok c' (Q(p := Q p @ [t]))"
proof -
  obtain r hw irq s' where e: "sch_enqueue (current (tm c)) t (sch c) = (r, hw, irq, s')"
    by (metis prod_cases4)
  from enqueue_refines [OF ready_ok_D(2) [OF ok] t(3,4) p e]
  have r: "r = 0x80" "hw = None" and s': "sched_repr s' (Q(p := Q p @ [t]))"
    "next_ok s' (Q(p := Q p @ [t]))" by auto
  have "tm_add t c = (0x800000, (None, irq), c\<lparr>sch := s'\<rparr>)"
    using t e r by (simp add: tm_add_def Let_def sch_is_queued_def do_enqueue_def)
  moreover have "ready_ok (c\<lparr>sch := s'\<rparr>) (Q(p := Q p @ [t]))"
    using s' ok t by (auto simp: ready_ok_def)
  ultimately show ?thesis by auto
qed

lemma next_takes:
  assumes "next_valid (sch c)" and "running (entries (tm c) (next_id (sch c)))"
  shows "tm_next a c = (id_word (next_id (sch c)),
           c\<lparr>tm := (tm c)\<lparr>current := next_id (sch c), cur_invalid := False\<rparr>,
             sch := snd (sch_dequeue (next_id (sch c)) (sch c))\<rparr>)"
  using assms dequeue_status [of "next_id (sch c)" "sch c"]
  by (auto simp: tm_next_def Let_def do_dequeue_def set_current_def split: prod.splits)

lemma next_best:
  assumes ok: "ready_ok c Q" and Q: "Q p \<noteq> []"
  shows "\<exists>t ws c'. Q (best_pri Q) = t # ws \<and> tm_next a c = (id_word t, c') \<and>
           tm c' = (tm c)\<lparr>current := t, cur_invalid := False\<rparr> \<and>
           ready_ok c' (Q(best_pri Q := ws)) \<and> best_pri Q \<le> p"
proof -
  let ?b = "best_pri Q"
  obtain t ws where tw: "Q ?b = t # ws" using best_pri_nonempty [of Q] Q by (meson list.exhaust)
  have n: "next_valid (sch c)" "next_id (sch c) = t"
    using ready_ok_D(3) [OF ok] Q tw by (auto simp: next_ok_def)
  have run: "running (entries (tm c) t)" using ready_ok_D(4) [OF ok, of t ?b] tw by simp
  obtain r s' where d: "sch_dequeue t (sch c) = (r, s')" by fastforce
  from dequeue_refines [OF ready_ok_D(2) [OF ok] tw d]
  have s': "sched_repr s' (Q(?b := ws))" "next_ok s' (Q(?b := ws))" by auto
  let ?c = "c\<lparr>tm := (tm c)\<lparr>current := t, cur_invalid := False\<rparr>, sch := s'\<rparr>"
  have "tm_next a c = (id_word t, ?c)" using next_takes [of c] n run d by simp
  moreover have "t \<notin> set ((Q(?b := ws)) q)" for q
    using ready_ok_D(6) [OF ok, of t q] ready_ok_D(6) [OF ok, of t ?b] tw
      queues_repr_queue [OF sched_repr_queues [OF ready_ok_D(2) [OF ok]], of ?b]
    by (auto simp: queue_ok_def)
  moreover have "running (entries (tm c) u)" if "u \<in> set ((Q(?b := ws)) q)" for u q
    using ready_ok_D(4) [OF ok, of u q] that tw ready_ok_D(4) [OF ok, of u ?b]
    by (auto split: if_splits)
  moreover have "tm_ok (tm ?c)"
    by (rule tm_ok_entries [OF ready_ok_D(1) [OF ok]]) simp
  ultimately have "ready_ok ?c (Q(?b := ws))" and "tm_next a c = (id_word t, ?c)"
    using s' unfolding ready_ok_def by auto
  then show ?thesis using tw best_pri_le [of Q p] Q by auto
qed

section \<open>Running the scheduler\<close>

lemmas kernel_access = on_mach_def upd_mach_def upd_thread_def store_def

lemma ucast_tid_eq [simp]: "(ucast (a :: tid) :: Huint) = ucast b \<longleftrightarrow> a = b"
  by (metis ucast_tid_Huint)

lemma run_sched_eq:
  assumes "platform_ok (plat E)"
  shows "run_sched E save k =
    (case tm_next (encode_cmd (plat E) 0 8) (kcores k) of
       (r, c) \<Rightarrow>
         let k3 = k\<lparr>mach := (mach k)\<lparr>cores := c\<rparr>\<rparr>; nxt = extract_id r; cur = ucast (kcurrent k) in
         if ucast (current (tm c)) \<noteq> nxt \<or> cur = nxt then (False, k3)
         else (True, case save of Some x \<Rightarrow> switch_context x cur nxt k3
                     | None \<Rightarrow> restore_context cur nxt k3))"
  using assms
  by (auto simp: run_sched_def kernel_access hw_ops kcores_def kcurrent_def Let_def
      split: prod.splits option.splits)

lemma run_sched_switches:
  assumes "platform_ok (plat E)" and "tm_next (encode_cmd (plat E) 0 8) (kcores k) = (id_word t, c)"
    and "current (tm c) = t" "t \<noteq> kcurrent k"
  shows "run_sched E save k =
    (True, case save of
       Some x \<Rightarrow> switch_context x (ucast (kcurrent k)) (ucast t) (k\<lparr>mach := (mach k)\<lparr>cores := c\<rparr>\<rparr>)
     | None \<Rightarrow> restore_context (ucast (kcurrent k)) (ucast t) (k\<lparr>mach := (mach k)\<lparr>cores := c\<rparr>\<rparr>))"
  unfolding run_sched_eq [OF assms(1)] assms(2) using assms(3,4)
  by (cases save) (simp_all add: Let_def)

lemma enter_thread_effect [simp]:
  "cpu (enter_thread t k) = t" "mach (enter_thread t k) = mach k"
  "newthread (threads (enter_thread t k) t) = Hfalse"
  "retval (threads (enter_thread t k) u) = retval (threads k u)"
  "u \<noteq> t \<Longrightarrow> threads (enter_thread t k) u = threads k u"
  "u \<noteq> t \<Longrightarrow> saved (enter_thread t k) u = saved k u"
  "mutex_heap (enter_thread t k) = mutex_heap k"
  by (simp_all add: enter_thread_def upd_thread_def)

text \<open>
  Two states for the concrete instances below. Thread 0, detached, is on the processor; thread
  1, its joinable child, is blocked in the first state and ready with priority 64 in the second.
\<close>

lemma blocked_child:
  "\<exists>c. ready_ok c (\<lambda>_. []) \<and> is_current 0 (tm c) \<and>
       running (entries (tm c) 0) \<and> e_detached (entries (tm c) 0) \<and>
       running (entries (tm c) 1) \<and> \<not> e_detached (entries (tm c) 1) \<and>
       \<not> e_joined (entries (tm c) 1) \<and> e_pid (entries (tm c) 1) = 0 \<and>
       (\<exists>ts. free_ids (tm c) = 2 # ts) \<and> sch c = sched_reset"
proof -
  obtain r0 s1 where c1: "tm_create True tm_reset = (r0, s1)" by fastforce
  obtain r1 s2 where c2: "tm_create False s1 = (r1, s2)" by fastforce
  have up: "[0..<256] = 0 # 1 # 2 # [3..<256]" by (simp add: upt_conv_Cons numeral_2_eq_2)
  have f0: "tm_ok tm_reset" "free_ids tm_reset = 0 # 1 # 2 # map of_nat [3..<256]"
    using reset_tm_ok up by simp_all
  note x1 = create_ok [OF f0 c1]
  then have f1: "tm_ok s1" "free_ids s1 = 1 # 2 # map of_nat [3..<256]" by auto
  note x2 = create_ok [OF f1 c2]
  have cur: "current s2 = 0" "current s1 = 0"
    using c1 c2 by (auto simp: tm_create_def tm_reset_def Let_def split: if_splits)
  let ?tm = "s2\<lparr>cur_invalid := False\<rparr>"
  have e0: "entries s2 0 = entries s1 0" using x2 by simp
  have ok: "tm_ok ?tm" by (rule tm_ok_entries [of s2]) (use x2 in auto)
  have free: "free_ids ?tm = free_ids s2" by (rule free_ids_frame) simp_all
  have "ready_ok \<lparr>tm = ?tm, sch = sched_reset\<rparr> (\<lambda>_. [])" using ok reset_repr by (simp add: ready_ok_def)
  then show ?thesis using x1 x2 cur e0 free
    by (intro exI [of _ "\<lparr>tm = ?tm, sch = sched_reset\<rparr>"]) (simp add: is_current_def)
qed

lemma reset_thread [simp]:
  "\<not> queue_bit (thread_ram sched_reset t)" "sw_range (param_ram sched_reset t)"
  "priority (thread_ram sched_reset t) = 64"
  by (simp_all add: sched_reset_def sw_range_def)

lemma two_threads:
  "\<exists>c. ready_ok c ((\<lambda>_. [])(64 := [1])) \<and> is_current 0 (tm c) \<and>
       running (entries (tm c) 0) \<and> e_detached (entries (tm c) 0) \<and>
       running (entries (tm c) 1) \<and> \<not> e_detached (entries (tm c) 1) \<and>
       \<not> e_joined (entries (tm c) 1) \<and> e_pid (entries (tm c) 1) = 0 \<and>
       (\<exists>ts. free_ids (tm c) = 2 # ts)"
proof -
  obtain c where c: "ready_ok c (\<lambda>_. [])" "is_current 0 (tm c)"
      "running (entries (tm c) 0) \<and> e_detached (entries (tm c) 0)" "running (entries (tm c) 1)"
      "\<not> e_detached (entries (tm c) 1) \<and> \<not> e_joined (entries (tm c) 1) \<and> e_pid (entries (tm c) 1) = 0"
      "\<exists>ts. free_ids (tm c) = 2 # ts" "sch c = sched_reset"
    using blocked_child by blast
  then obtain c' where "tm c' = tm c" "ready_ok c' ((\<lambda>_. [])(64 := [1]))"
    using add_appends [of c "\<lambda>_. []" 1 64] by (auto simp: is_current_def)
  with c show ?thesis by (intro exI [of _ c']) simp
qed

text \<open>
  C3: Running the scheduler in a blocking system call saves the caller, with what is left to
  do of its call, and gives the processor to the head of the best non-empty priority queue;
  that thread leaves the ready queue, which stays well formed.
\<close>

theorem run_sched_picks_best:
  assumes "platform_ok (plat E)" and "ready_ok (kcores k) Q" and "Q p \<noteq> []"
  shows "\<exists>t ws k'. Q (best_pri Q) = t # ws \<and> best_pri Q \<le> p \<and>
           run_sched E (Some x) k = (True, k') \<and> cpu k' = ucast t \<and> kcurrent k' = t \<and>
           saved k' (ucast (kcurrent k)) = x \<and> newthread (threads k' (ucast t)) = Hfalse \<and>
           ready_ok (kcores k') (Q(best_pri Q := ws))"
proof -
  obtain t ws c where n: "Q (best_pri Q) = t # ws" "best_pri Q \<le> p"
      "tm_next (encode_cmd (plat E) 0 8) (kcores k) = (id_word t, c)"
      "tm c = (tm (kcores k))\<lparr>current := t, cur_invalid := False\<rparr>"
      "ready_ok c (Q(best_pri Q := ws))"
    using next_best [OF assms(2,3)] by metis
  have ne: "t \<noteq> kcurrent k"
    using ready_ok_D(5) [OF assms(2), of "best_pri Q"] n(1) by (auto simp: kcurrent_def)
  show ?thesis
    using run_sched_switches [OF assms(1) n(3) _ ne, of "Some x"] n ne
    by (auto simp: switch_context_def kcores_def kcurrent_def)
qed

lemma example_platform: "platform_ok (plat example_env)"
  by (simp add: platform_ok_def example_env_def window_def)

lemma kcores_example [simp]: "kcores (example_kernel c) = c"
  by (simp add: kcores_def example_kernel_def)

theorem run_sched_picks_best_witness:
  "\<exists>k k'. ready_ok (kcores k) ((\<lambda>_. [])(64 := [1])) \<and>
     run_sched example_env (Some (K_ret 0)) k = (True, k') \<and> cpu k' = 1"
proof -
  obtain c where c: "ready_ok c ((\<lambda>_. [])(64 := [1]))" using two_threads by blast
  let ?Q = "(\<lambda>_. [])(64 := [1]) :: pri \<Rightarrow> tid list"
  have Q: "?Q 64 \<noteq> []" by simp
  from run_sched_picks_best [where E = example_env and k = "example_kernel c" and Q = ?Q and p = 64
      and x = "K_ret 0"] example_platform c Q
  obtain t ws k' where "?Q (best_pri ?Q) = t # ws" "run_sched example_env (Some (K_ret 0)) (example_kernel c) = (True, k')"
    "cpu k' = ucast t" by auto
  moreover from this(1) have "t = 1" by (auto split: if_splits)
  ultimately show ?thesis using c by (intro exI [of _ "example_kernel c"] exI [of _ k']) simp
qed

section \<open>Creating threads\<close>

lemma store_mem:
  "mem_addr (plat E) a \<Longrightarrow>
   store E a v k = k\<lparr>mach := (mach k)\<lparr>mem := (mem (mach k))(a := v)\<rparr>\<rparr>"
  by (simp add: store_def upd_mach_def write_reg_def mem_addr_def)

lemma setup_software:
  assumes "hardware attr \<noteq> Htrue" and "t < MAX_THREADS"
    and "stack_addr attr \<noteq> 0 \<or> HTHREAD_STACK_MIN < stack_size attr \<and> own_stack E t \<noteq> 0"
  shows "\<exists>k'. setup_thread E t attr start arg k = (SUCCESS, k') \<and> mach k' = mach k \<and>
           newthread (threads k' t) = Htrue \<and> retval (threads k' t) = 0 \<and>
           mb_context_table k' t MB_LR = bootstrap_thread E \<and>
           mb_context_table k' t MB_ARG0 = start \<and> mb_context_table k' t MB_ARG1 = arg \<and>
           mb_context_table k' t MB_SP = (if 0 < stack_size attr
             then (if stack_addr attr = 0 then own_stack E t else stack_addr attr) +
                  stack_size attr - HTHREAD_STACK_RESERVE else 0) \<and>
           cpu k' = cpu k \<and> saved k' = saved k \<and> attr_heap k' = attr_heap k \<and>
           (\<forall>u. u \<noteq> t \<longrightarrow> threads k' u = threads k u)"
  using assms
  by (auto simp: setup_thread_def arch_setup_thread_def kernel_access Let_def MB_SP_def MB_LR_def
      MB_ARG0_def MB_ARG1_def MB_MSR_def stack_top_def SUCCESS_def not_le)

lemma setparam_new:
  assumes ok: "ready_ok c Q" and t: "\<not> queue_bit (thread_ram (sch c) t)" "sw_range v"
    and s': "sch_set_schedparam (current (tm c)) True parent t v (sch c) = (x, s')"
  shows "ready_ok (c\<lparr>sch := s'\<rparr>) Q \<and> \<not> queue_bit (thread_ram s' t) \<and> param_ram s' t = v \<and>
    priority (thread_ram s' t) =
      (if t = current (tm c) \<or> parent = current (tm c) then ucast v
       else priority (thread_ram (sch c) t))"
proof (cases "t = current (tm c) \<or> parent = current (tm c)")
  case True
  then have may: "may_set_param (current (tm c)) True parent t" by (simp add: may_set_param_def)
  from setparam_unqueued [OF ready_ok_D(2) [OF ok] t may s'] True ok t(1) show ?thesis
    by (auto simp: ready_ok_def)
next
  case False
  then have "s' = (sch c)\<lparr>param_ram := (param_ram (sch c))(t := v)\<rparr>"
    using s' set_param_only [of v "current (tm c)" True parent t "sch c"]
    by (simp add: may_set_param_def)
  moreover from this have "sched_repr s' Q \<and> next_ok s' Q"
    using ready_ok_D(2,3) [OF ok] by (auto simp: sched_repr_def queues_repr_def queue_ok_def next_ok_def)
  ultimately show ?thesis using False ok t(1) by (auto simp: ready_ok_def)
qed

lemma create_keeps_ready:
  assumes ok: "ready_ok c Q" and f: "free_ids (tm c) = t # ts"
    and run: "running (entries (tm c) (current (tm c)))"
    and c: "tm_create det (tm c) = (r, s')"
  shows "r = id_word t \<and> ready_ok (c\<lparr>tm := s'\<rparr>) Q \<and> running (entries s' t) \<and>
    current s' = current (tm c) \<and> t \<noteq> current (tm c) \<and> \<not> queue_bit (thread_ram (sch c) t) \<and>
    e_pid (entries s' t) = (if det then 0 else current (tm c)) \<and> e_detached (entries s' t) = det \<and>
    free_ids s' = ts"
proof -
  note cr = create_ok [OF ready_ok_D(1) [OF ok] f c]
  have "\<not> e_used (entries (tm c) t)"
    using ready_ok_D(1) [OF ok] f by (auto simp: tm_ok_def)
  then have nr: "\<not> running (entries (tm c) t)" by (simp add: running_def)
  have cur: "current s' = current (tm c)"
    using c by (auto simp: tm_create_def Let_def split: if_splits)
  have nq: "\<not> queue_bit (thread_ram (sch c) t)" using ready_ok_not_queued [OF ok nr] .
  have "running (entries s' u)" if "u \<in> set (Q p)" for u p
    using cr ready_ok_D(4) [OF ok that] nr by metis
  then have "ready_ok (c\<lparr>tm := s'\<rparr>) Q"
    using ok cr cur unfolding ready_ok_def by simp
  moreover have "t \<noteq> current (tm c)" using nr run by auto
  ultimately show ?thesis using cr cur nq by auto
qed

lemma tid_in_range: "(ucast (t :: tid) :: Huint) < MAX_THREADS"
proof -
  have "uint t < 256" using uint_lt2p [of t] by simp
  then show ?thesis
    unfolding MAX_THREADS_def word_less_def by (subst uint_ucast_widen) simp_all
qed

text \<open>The last steps of creating a software thread: its priority is set and it is queued.\<close>

lemma publish_thread:
  assumes P: "platform_ok (plat E)" and ok: "ready_ok (kcores k) Q"
    and t: "running (entries (tm (kcores k)) t)" "t \<noteq> kcurrent k"
      "\<not> queue_bit (thread_ram (sch (kcores k)) t)" "sw_range v"
    and p: "p = (if e_pid (entries (tm (kcores k)) t) = kcurrent k then ucast v
                 else priority (thread_ram (sch (kcores k)) t))"
  shows "\<exists>m k'. on_mach (set_schedparam (plat E) (ucast t) v) k = (SUCCESS, m) \<and>
    on_mach (add_thread (plat E) (ucast t)) m = (0x800000, k') \<and>
    ready_ok (kcores k') (Q(p := Q p @ [t])) \<and> tm (kcores k') = tm (kcores k) \<and>
    threads k' = threads k \<and> mb_context_table k' = mb_context_table k \<and>
    mem (mach k') = mem (mach k) \<and> cpu k' = cpu k"
proof -
  let ?c = "kcores k"
  obtain x s where s: "sch_set_schedparam (current (tm ?c)) True (e_pid (entries (tm ?c) t)) t v (sch ?c) = (x, s)"
    by fastforce
  from setparam_new [OF ok t(3,4) s] t(2) p
  have n: "ready_ok (?c\<lparr>sch := s\<rparr>) Q" "\<not> queue_bit (thread_ram s t)" "param_ram s t = v"
    "p = priority (thread_ram s t)" by (auto simp: kcurrent_def)
  have sch: "on_mach (set_schedparam (plat E) (ucast t) v) k =
      (SUCCESS, k\<lparr>mach := (mach k)\<lparr>cores := ?c\<lparr>sch := s\<rparr>, irq := irq (mach k) \<or> x\<rparr>\<rparr>)"
    using P s t(1) n(2) by (simp add: on_mach_def hw_ops kcores_def running_def sch_check_schedparam_def)
  obtain i c' where a: "tm_add t (?c\<lparr>sch := s\<rparr>) = (0x800000, (None, i), c')" "tm c' = tm ?c"
    "ready_ok c' (Q(p := Q p @ [t]))"
    using add_appends [OF n(1), of t p] t n by (auto simp: kcurrent_def)
  show ?thesis
    using P sch a
    by (auto simp: on_mach_def hw_ops with_cores_def apply_events_def kcores_def split: prod.splits)
qed



lemma create_rejected:
  assumes P: "platform_ok (plat E)" and ok: "ready_ok (kcores k) Q"
    and run: "running (entries (tm (kcores k)) (kcurrent k))"
    and free: "free_ids (tm (kcores k)) = t # ts"
    and attr: "attr_heap k ap = attr" "hardware attr \<noteq> Htrue" "stack_addr attr = 0"
      "stack_size attr \<le> HTHREAD_STACK_MIN"
  shows "\<exists>s k'. syscall_create E th ap start arg k = (EINVAL, k') \<and>
    tm_create (detached attr \<noteq> 0) (tm (kcores k)) = (id_word t, s) \<and>
    kcores k' = (kcores k)\<lparr>tm := s\<rparr> \<and> mem (mach k') = mem (mach k)"
proof -
  let ?c = "kcores k" and ?det = "detached attr \<noteq> 0"
  obtain r s1 where c1: "tm_create ?det (tm ?c) = (r, s1)" by fastforce
  note cr = create_keeps_ready [OF ok free run [unfolded kcurrent_def] c1]
  define k1 where "k1 = k\<lparr>mach := (mach k)\<lparr>cores := ?c\<lparr>tm := s1\<rparr>\<rparr>\<rparr>"
  have st1: "on_mach (if ?det then create_detached (plat E) else create_joinable (plat E)) k = (id_word t, k1)"
    using P c1 cr by (auto simp: on_mach_def hw_ops with_tm_def kcores_def k1_def)
  have "setup_thread E (ucast t) attr start arg k1 = (EINVAL, k1)"
    using attr tid_in_range [of t] by (simp add: setup_thread_def Let_def not_le)
  moreover have "EINVAL \<noteq> SUCCESS" by (simp add: status_defs)
  ultimately have "syscall_create E th ap start arg k = (EINVAL, k1)"
    using st1 unfolding syscall_create_def Let_def attr(1) by simp
  with cr c1 show ?thesis by (auto simp: k1_def kcores_def)
qed

text \<open>
  C40: A rejected stack size leaks the thread ID: creating a software thread that brings no stack and
  asks for at most 128 bytes returns \<^verbatim>\<open>EINVAL\<close> and stores no ID for the caller, but the next free ID
  is taken off the list of free IDs and marked as a running thread, which is in no ready queue.
\<close>

theorem rejected_create_leaks_id:
  assumes P: "platform_ok (plat E)" and ok: "ready_ok (kcores k) Q"
    and run: "running (entries (tm (kcores k)) (kcurrent k))"
    and free: "free_ids (tm (kcores k)) = t # ts"
    and attr: "attr_heap k ap = attr" "hardware attr \<noteq> Htrue" "stack_addr attr = 0"
      "stack_size attr \<le> HTHREAD_STACK_MIN"
  shows "\<exists>k'. syscall_create E th ap start arg k = (EINVAL, k') \<and>
    free_ids (tm (kcores k')) = ts \<and> running (entries (tm (kcores k')) t) \<and>
    ready_ok (kcores k') Q \<and> (\<forall>p. t \<notin> set (Q p)) \<and> mem (mach k') = mem (mach k)"
proof -
  obtain s k' where c: "syscall_create E th ap start arg k = (EINVAL, k')"
      "tm_create (detached attr \<noteq> 0) (tm (kcores k)) = (id_word t, s)"
      "kcores k' = (kcores k)\<lparr>tm := s\<rparr>" "mem (mach k') = mem (mach k)"
    using create_rejected [OF assms, of th start arg] by blast
  with create_keeps_ready [OF ok free run [unfolded kcurrent_def] c(2)] show ?thesis
    using ready_ok_D(6) [OF ok, of t] by auto
qed

theorem rejected_create_leaks_id_witness:
  "\<exists>k k'. syscall_create example_env 0x50000000 0 0x4000 7 k = (EINVAL, k') \<and>
     free_ids (tm (kcores k)) = 2 # free_ids (tm (kcores k'))"
proof -
  obtain c ts where c: "ready_ok c ((\<lambda>_. [])(64 := [1]))" "is_current 0 (tm c)"
    "running (entries (tm c) 0)" "free_ids (tm c) = 2 # ts" using two_threads by metis
  let ?k = "(example_kernel c)\<lparr>attr_heap := \<lambda>_. \<lparr>detached = Hfalse, hardware = Hfalse,
     hardware_addr = 0, stack_size = 128, stack_addr = 0, sched_param = 64\<rparr>\<rparr>"
  have kc: "kcores ?k = c" by (simp add: kcores_def example_kernel_def)
  have cur: "running (entries (tm (kcores ?k)) (kcurrent ?k))"
    unfolding kcurrent_def kc using c by (simp add: is_current_def)
  have a: "hardware (attr_heap ?k 0) \<noteq> Htrue" "stack_addr (attr_heap ?k 0) = 0"
    "stack_size (attr_heap ?k 0) \<le> HTHREAD_STACK_MIN"
    by (simp_all add: kernel_consts Hfalse_def Htrue_def)
  obtain k' where "syscall_create example_env 0x50000000 0 0x4000 7 ?k = (EINVAL, k')"
      "free_ids (tm (kcores k')) = ts"
    using rejected_create_leaks_id [where start = "0x4000" and arg = 7 and th = "0x50000000" and t = 2,
        OF example_platform _ cur _ refl a] c(1,4) unfolding kc by blast
  then show ?thesis using c(4) kc by (intro exI [of _ ?k] exI [of _ k']) simp
qed

section \<open>Joining\<close>

lemma clear_keeps_ready:
  assumes ok: "ready_ok c Q" and u: "e_used (entries (tm c) t)" "\<not> e_alive (entries (tm c) t)"
    and c: "tm_clear t (tm c) = (r, s')"
  shows "ready_ok (c\<lparr>tm := s'\<rparr>) Q \<and> \<not> e_used (entries s' t) \<and> free_ids s' = t # free_ids (tm c) \<and>
    current s' = current (tm c)"
proof -
  note cl = clear_ok [OF ready_ok_D(1) [OF ok] u c]
  have cur: "current s' = current (tm c)"
    and run: "v \<noteq> t \<Longrightarrow> running (entries s' v) = running (entries (tm c) v)" for v
    using c u by (auto simp: tm_clear_def Let_def running_def split: if_splits)
  have "running (entries s' v)" if "v \<in> set (Q p)" for v p
    using ready_ok_D(4) [OF ok that] run [of v] u by (auto simp: running_def)
  then show ?thesis using ok cl cur unfolding ready_ok_def by auto
qed

lemma destroy_frees:
  assumes P: "platform_ok (plat E)" and ok: "ready_ok (kcores k) Q"
    and u: "e_used (entries (tm (kcores k)) t)" "\<not> e_alive (entries (tm (kcores k)) t)"
  shows "\<exists>k'. destroy_thread E (ucast t) k = (SUCCESS, k') \<and> ready_ok (kcores k') Q \<and>
    \<not> e_used (entries (tm (kcores k')) t) \<and>
    free_ids (tm (kcores k')) = t # free_ids (tm (kcores k)) \<and> kcurrent k' = kcurrent k \<and>
    mem (mach k') = mem (mach k) \<and> stack (threads k' (ucast t)) = 0 \<and>
    (\<forall>u. retval (threads k' u) = retval (threads k u)) \<and> saved k' = saved k \<and> cpu k' = cpu k"
proof -
  obtain r s' where c: "tm_clear t (tm (kcores k)) = (r, s')" by fastforce
  from clear_keeps_ready [OF ok u c] show ?thesis
    using P c by (auto simp: destroy_thread_def kernel_access hw_ops with_tm_def kcores_def kcurrent_def)
qed

lemma join_rest_collects:
  assumes P: "platform_ok (plat E)" and ok: "ready_ok (kcores k) Q"
    and child: "e_used (entries (tm (kcores k)) t)" "\<not> e_alive (entries (tm (kcores k)) t)"
      "\<not> e_detached (entries (tm (kcores k)) t)"
    and ret: "ret \<noteq> 0" "mem_addr (plat E) ret"
  shows "\<exists>k'. join_rest E (ucast t) ret k = (SUCCESS, k') \<and>
    mem (mach k') = (mem (mach k))(ret := retval (threads k (ucast t))) \<and> ready_ok (kcores k') Q \<and>
    free_ids (tm (kcores k')) = t # free_ids (tm (kcores k)) \<and> stack (threads k' (ucast t)) = 0"
proof -
  let ?k1 = "k\<lparr>mach := (mach k)\<lparr>mem := (mem (mach k))(ret := retval (threads k (ucast t)))\<rparr>\<rparr>"
  have kc: "kcores ?k1 = kcores k" by (simp add: kcores_def)
  from destroy_frees [OF P, of ?k1 Q t] ok child kc obtain k' where
    d: "destroy_thread E (ucast t) ?k1 = (SUCCESS, k')" "ready_ok (kcores k') Q"
      "free_ids (tm (kcores k')) = t # free_ids (tm (kcores k))" "mem (mach k') = mem (mach ?k1)"
      "stack (threads k' (ucast t)) = 0" by auto
  have "on_mach (detached_thread (plat E) (ucast t)) ?k1 = (False, ?k1)"
    using P child(3) by (simp add: on_mach_def hw_ops kcores_def)
  then have "join_rest E (ucast t) ret k = (SUCCESS, k')"
    using ret d(1) by (simp add: join_rest_def store_mem)
  with d show ?thesis by simp
qed

text \<open>
  Joining a child that has already exited returns at once: the caller gets the value the
  child exited with, and the child's ID is the next one to be handed out.
\<close>

theorem join_collects_exited:
  assumes P: "platform_ok (plat E)" and ok: "ready_ok (kcores k) Q"
    and child: "e_used (entries (tm (kcores k)) t)" "\<not> e_alive (entries (tm (kcores k)) t)"
      "\<not> e_detached (entries (tm (kcores k)) t)" "\<not> e_joined (entries (tm (kcores k)) t)"
      "is_current (e_pid (entries (tm (kcores k)) t)) (tm (kcores k))"
    and ret: "ret \<noteq> 0" "mem_addr (plat E) ret"
  shows "\<exists>k'. syscall_join E (ucast t) ret k = (Returned SUCCESS, k') \<and>
    mem (mach k') = (mem (mach k))(ret := retval (threads k (ucast t))) \<and> ready_ok (kcores k') Q \<and>
    free_ids (tm (kcores k')) = t # free_ids (tm (kcores k))"
proof -
  have "tm_join t (tm (kcores k)) = (THREAD_ALREADY_TERMINATED, tm (kcores k))"
    using child by (simp add: tm_join_def Let_def)
  then have j: "on_mach (join_thread (plat E) (ucast t)) k = (3, k)"
    using P by (simp add: on_mach_def hw_ops with_tm_def kcores_def THREAD_ALREADY_TERMINATED_def)
  have "extract_error 3 = HT_ALREADY_EXITED"
    by (simp add: extract_error_def and_masks HT_ALREADY_EXITED_def)
  with j have "syscall_join E (ucast t) ret k = finish (join_rest E (ucast t) ret k)"
    by (simp add: syscall_join_def)
  with join_rest_collects [OF P ok child(1-3) ret] show ?thesis by (auto simp: finish_def)
qed

lemma exited_child:
  "\<exists>c. ready_ok c (\<lambda>_. []) \<and> is_current 0 (tm c) \<and> e_used (entries (tm c) 1) \<and>
       \<not> e_alive (entries (tm c) 1) \<and> \<not> e_detached (entries (tm c) 1) \<and>
       \<not> e_joined (entries (tm c) 1) \<and> e_pid (entries (tm c) 1) = 0"
proof -
  let ?Q = "(\<lambda>_. [])(64 := [1]) :: pri \<Rightarrow> tid list"
  obtain c where c: "ready_ok c ?Q" "running (entries (tm c) 1)" "\<not> e_detached (entries (tm c) 1)"
    "\<not> e_joined (entries (tm c) 1)" "e_pid (entries (tm c) 1) = 0" using two_threads by metis
  have Q: "?Q 64 \<noteq> []" by simp
  obtain t ws c1 where n: "?Q (best_pri ?Q) = t # ws"
      "tm c1 = (tm c)\<lparr>current := t, cur_invalid := False\<rparr>" "ready_ok c1 (?Q(best_pri ?Q := ws))"
    using next_best [OF c(1) Q] by metis
  from n(1) have "best_pri ?Q = 64" "ws = []" by (auto split: if_splits)
  with n(3) have r1: "ready_ok c1 (\<lambda>_. [])" by (simp add: fun_upd_idem)
  define c2 where "c2 = c1\<lparr>tm := (tm c1)\<lparr>entries := (entries (tm c1))
    (1 := (entries (tm c1) 1)\<lparr>e_alive := False\<rparr>), current := 0, cur_invalid := False\<rparr>\<rparr>"
  have "tm_ok (tm c2)"
    by (rule tm_ok_frame [OF ready_ok_D(1) [OF r1]]) (auto simp: c2_def split: if_splits)
  with r1 have "ready_ok c2 (\<lambda>_. [])" by (simp add: ready_ok_def c2_def)
  with n(2) c show ?thesis by (intro exI [of _ c2]) (simp add: c2_def is_current_def running_def)
qed

theorem join_collects_exited_witness:
  "\<exists>k k'. retval (threads k 1) = 42 \<and>
     syscall_join example_env 1 0x50000000 k = (Returned SUCCESS, k') \<and> mem (mach k') 0x50000000 = 42"
proof -
  obtain c where c: "ready_ok c (\<lambda>_. [])" "is_current 0 (tm c)" "e_used (entries (tm c) 1)"
    "\<not> e_alive (entries (tm c) 1)" "\<not> e_detached (entries (tm c) 1)" "\<not> e_joined (entries (tm c) 1)"
    "e_pid (entries (tm c) 1) = 0" using exited_child by metis
  let ?k = "upd_thread 1 (\<lambda>x. x\<lparr>retval := 42\<rparr>) (example_kernel c)"
  have kc: "kcores ?k = c" by (simp add: kcores_def example_kernel_def upd_thread_def)
  have m: "mem_addr (plat example_env) 0x50000000" by (simp add: mem_addr_def example_env_def window_def)
  obtain k' where "syscall_join example_env (ucast (1 :: tid)) 0x50000000 ?k = (Returned SUCCESS, k')"
      "mem (mach k') 0x50000000 = retval (threads ?k (ucast (1 :: tid)))"
    using join_collects_exited [OF example_platform, of ?k "\<lambda>_. []" 1 "0x50000000"] c m
    unfolding kc by fastforce
  then show ?thesis by (intro exI [of _ ?k] exI [of _ k']) (simp add: upd_thread_def)
qed

text \<open>
  C10: Joining a child that still runs blocks the caller: the join is recorded, the processor
  goes to the best ready thread, and the caller is left with the second half of the join.
  Whenever it is back on the processor and the child has exited, that half delivers the value
  the child exited with and frees the child's ID.
\<close>

theorem join_blocks_then_collects:
  assumes P: "platform_ok (plat E)" and ok: "ready_ok (kcores k) Q" and Q: "Q p \<noteq> []"
    and child: "running (entries (tm (kcores k)) t)"
      "\<not> e_detached (entries (tm (kcores k)) t)" "\<not> e_joined (entries (tm (kcores k)) t)"
      "is_current (e_pid (entries (tm (kcores k)) t)) (tm (kcores k))"
    and ret: "ret \<noteq> 0" "mem_addr (plat E) ret"
  shows "(\<exists>k'. syscall_join E (ucast t) ret k = (Switched, k') \<and>
            cpu k' = ucast (hd (Q (best_pri Q))) \<and> e_joined (entries (tm (kcores k')) t) \<and>
            saved k' (ucast (kcurrent k)) = K_join (ucast t) ret) \<and>
         (\<forall>k2 Q2. saved k2 (cpu k2) = K_join (ucast t) ret \<longrightarrow> ready_ok (kcores k2) Q2 \<longrightarrow>
            e_used (entries (tm (kcores k2)) t) \<longrightarrow> \<not> e_alive (entries (tm (kcores k2)) t) \<longrightarrow>
            \<not> e_detached (entries (tm (kcores k2)) t) \<longrightarrow>
            (\<exists>k3. resume E k2 = Some (Returned SUCCESS, k3) \<and>
               mem (mach k3) ret = retval (threads k2 (ucast t)) \<and>
               free_ids (tm (kcores k3)) = t # free_ids (tm (kcores k2))))"
proof
  let ?c = "kcores k" and ?e = "entries (tm (kcores k)) t"
  let ?s = "(tm ?c)\<lparr>entries := (entries (tm ?c))(t := ?e\<lparr>e_joined := True\<rparr>)\<rparr>"
  define k1 where "k1 = k\<lparr>mach := (mach k)\<lparr>cores := ?c\<lparr>tm := ?s\<rparr>\<rparr>\<rparr>"
  have "tm_join t (tm ?c) = (0, ?s)" using child by (simp add: tm_join_def Let_def running_def)
  then have j: "on_mach (join_thread (plat E) (ucast t)) k = (0, k1)"
    using P by (simp add: on_mach_def hw_ops with_tm_def kcores_def k1_def)
  have kc: "kcores k1 = ?c\<lparr>tm := ?s\<rparr>" by (simp add: k1_def kcores_def)
  have "tm_ok ?s" by (rule tm_ok_frame [OF ready_ok_D(1) [OF ok]]) (auto split: if_splits)
  then have ok1: "ready_ok (kcores k1) Q"
    unfolding kc using ok by (auto simp: ready_ok_def running_def)
  have cur1: "kcurrent k1 = kcurrent k" by (simp add: kcurrent_def kc)
  obtain u ws c where n: "Q (best_pri Q) = u # ws"
      "tm_next (encode_cmd (plat E) 0 8) (kcores k1) = (id_word u, c)"
      "tm c = (tm (kcores k1))\<lparr>current := u, cur_invalid := False\<rparr>"
    using next_best [OF ok1 Q] by metis
  have ne: "u \<noteq> kcurrent k1"
    using ready_ok_D(5) [OF ok1, of "best_pri Q"] n(1) by (auto simp: kcurrent_def)
  have "extract_error 0 \<noteq> HT_ALREADY_EXITED" "\<not> has_error 0"
    by (simp_all add: extract_error_def HT_ALREADY_EXITED_def has_error_def)
  with j run_sched_switches [OF P n(2) _ ne, of "Some (K_join (ucast t) ret)"] n(3)
  have "syscall_join E (ucast t) ret k =
      (Switched, switch_context (K_join (ucast t) ret) (ucast (kcurrent k1)) (ucast u)
         (k1\<lparr>mach := (mach k1)\<lparr>cores := c\<rparr>\<rparr>))"
    by (simp add: syscall_join_def)
  then show "\<exists>k'. syscall_join E (ucast t) ret k = (Switched, k') \<and>
      cpu k' = ucast (hd (Q (best_pri Q))) \<and> e_joined (entries (tm (kcores k')) t) \<and>
      saved k' (ucast (kcurrent k)) = K_join (ucast t) ret"
    using n ne cur1 by (simp add: switch_context_def kcores_def) (simp add: k1_def)
next
  show "\<forall>k2 Q2. saved k2 (cpu k2) = K_join (ucast t) ret \<longrightarrow> ready_ok (kcores k2) Q2 \<longrightarrow>
      e_used (entries (tm (kcores k2)) t) \<longrightarrow> \<not> e_alive (entries (tm (kcores k2)) t) \<longrightarrow>
      \<not> e_detached (entries (tm (kcores k2)) t) \<longrightarrow>
      (\<exists>k3. resume E k2 = Some (Returned SUCCESS, k3) \<and>
         mem (mach k3) ret = retval (threads k2 (ucast t)) \<and>
         free_ids (tm (kcores k3)) = t # free_ids (tm (kcores k2)))"
    using join_rest_collects [OF P _ _ _ _ ret] by (fastforce simp: resume_def finish_def)
qed

theorem join_blocks_then_collects_witness:
  "\<exists>k k'. syscall_join example_env 1 0x50000000 k = (Switched, k') \<and> cpu k' = 1 \<and>
     saved k' 0 = K_join 1 0x50000000"
proof -
  let ?Q = "(\<lambda>_. [])(64 := [1]) :: pri \<Rightarrow> tid list"
  obtain c where c: "ready_ok c ?Q" "is_current 0 (tm c)"
    "running (entries (tm c) 1)" "\<not> e_detached (entries (tm c) 1)" "\<not> e_joined (entries (tm c) 1)"
    "e_pid (entries (tm c) 1) = 0" using two_threads by metis
  let ?k = "example_kernel c"
  have Q: "?Q 64 \<noteq> []" by simp
  have h: "ready_ok (kcores ?k) ?Q" "running (entries (tm (kcores ?k)) 1)"
      "\<not> e_detached (entries (tm (kcores ?k)) 1)" "\<not> e_joined (entries (tm (kcores ?k)) 1)"
      "is_current (e_pid (entries (tm (kcores ?k)) 1)) (tm (kcores ?k))"
      "mem_addr (plat example_env) 0x50000000" "(0x50000000 :: Huint) \<noteq> 0"
    using c by (simp_all add: mem_addr_def example_env_def window_def)
  obtain k' where k': "syscall_join example_env (ucast (1 :: tid)) 0x50000000 ?k = (Switched, k')"
      "cpu k' = ucast (hd (?Q (best_pri ?Q)))"
      "saved k' (ucast (kcurrent ?k)) = K_join (ucast (1 :: tid)) 0x50000000"
    using conjunct1 [OF join_blocks_then_collects [OF example_platform h(1) Q h(2-5,7,6)]] by blast
  have "hd (?Q (best_pri ?Q)) = 1" using best_pri_nonempty [of ?Q] Q by (metis fun_upd_apply list.sel(1))
  then have "cpu k' = 1" unfolding k'(2) by (simp only: unsigned_1)
  moreover have "kcurrent ?k = 0" using c(2) by (simp add: kcurrent_def is_current_def)
  ultimately show ?thesis using k'(1,3) by (intro exI [of _ ?k] exI [of _ k']) simp
qed

section \<open>Exiting\<close>

lemma exit_keeps_ready:
  assumes ok: "ready_ok c Q" and t: "t = current (tm c)" "running (entries (tm c) t)"
    and parent: "\<not> e_detached (entries (tm c) t) \<and> e_joined (entries (tm c) t) \<Longrightarrow>
        p \<noteq> t \<and> running (entries (tm c) p) \<and> \<not> queue_bit (thread_ram (sch c) p) \<and>
        sw_range (param_ram (sch c) p)"
    and p: "p = e_pid (entries (tm c) t)"
    and Q': "Q' = (if \<not> e_detached (entries (tm c) t) \<and> e_joined (entries (tm c) t)
        then Q(priority (thread_ram (sch c) p) := Q (priority (thread_ram (sch c) p)) @ [p]) else Q)"
  shows "\<exists>irq c'. tm_exit t c = (0, (None, irq), c') \<and> ready_ok c' Q' \<and>
    current (tm c') = t \<and> e_used (entries (tm c') t) \<and> \<not> e_alive (entries (tm c') t) \<and>
    e_detached (entries (tm c') t) = e_detached (entries (tm c) t)"
proof -
  let ?e = "entries (tm c) t"
  let ?c = "c\<lparr>tm := (tm c)\<lparr>entries := (entries (tm c))(t := ?e\<lparr>e_used := True, e_alive := False\<rparr>)\<rparr>\<rparr>"
  have "tm_ok (tm ?c)"
    by (rule tm_ok_frame [OF ready_ok_D(1) [OF ok]]) (use t in \<open>auto simp: running_def split: if_splits\<close>)
  then have ok1: "ready_ok ?c Q"
    using ok ready_ok_D(5) [OF ok] t(1) by (auto simp: ready_ok_def)
  show ?thesis
  proof (cases "\<not> e_detached ?e \<and> e_joined ?e")
    case True
    let ?q = "priority (thread_ram (sch c) p)"
    from parent [OF True] have pa: "p \<noteq> t" "running (entries (tm c) p)"
      "\<not> queue_bit (thread_ram (sch ?c) p)" "sw_range (param_ram (sch ?c) p)" by auto
    obtain r hw irq s' where e: "sch_enqueue (current (tm c)) p (sch ?c) = (r, hw, irq, s')"
      by (metis prod_cases4)
    from enqueue_refines [OF ready_ok_D(2) [OF ok1] pa(3,4) refl e]
    have r: "r = 0x80" "hw = None" "sched_repr s' (Q(?q := Q ?q @ [p]))" "next_ok s' (Q(?q := Q ?q @ [p]))"
      by auto
    have "tm_exit t c = (0, (None, irq), ?c\<lparr>sch := s'\<rparr>)"
      using True pa(1,2) p e r(1,2) by (simp add: tm_exit_def Let_def do_enqueue_def)
    moreover have "ready_ok (?c\<lparr>sch := s'\<rparr>) Q'"
      using ok1 r(3,4) pa(1,2) True t(1) by (auto simp: ready_ok_def Q')
    ultimately show ?thesis using t by auto
  next
    case False
    then show ?thesis using ok1 t by (auto simp: tm_exit_def Let_def no_event_def Q')
  qed
qed

lemma exit_rest_switches:
  assumes P: "platform_ok (plat E)" and ok: "ready_ok (kcores k) Q" and Q: "Q p \<noteq> []"
    and ex: "e_used (entries (tm (kcores k)) t)" "\<not> e_alive (entries (tm (kcores k)) t)" "t = kcurrent k"
  shows "\<exists>k' u ws. exit_rest E (ucast t) d k = (Switched, k') \<and> Q (best_pri Q) = u # ws \<and>
    cpu k' = ucast u \<and> ready_ok (kcores k') (Q(best_pri Q := ws)) \<and>
    retval (threads k' (ucast t)) = retval (threads k (ucast t)) \<and>
    e_used (entries (tm (kcores k')) t) = (\<not> d) \<and> \<not> running (entries (tm (kcores k')) t)"
proof -
  define k1 where "k1 = (if d then snd (destroy_thread E (ucast t) k) else k)"
  have k1: "ready_ok (kcores k1) Q" "kcurrent k1 = t" "retval (threads k1 v) = retval (threads k v)"
    "e_used (entries (tm (kcores k1)) t) = (\<not> d)" "\<not> e_alive (entries (tm (kcores k1)) t)" for v
    using destroy_frees [OF P ok ex(1,2)] ok ex ready_ok_D(1) [of "kcores k1" Q]
    by (auto simp: k1_def tm_ok_def)
  obtain u ws c where n: "Q (best_pri Q) = u # ws"
      "tm_next (encode_cmd (plat E) 0 8) (kcores k1) = (id_word u, c)"
      "tm c = (tm (kcores k1))\<lparr>current := u, cur_invalid := False\<rparr>"
      "ready_ok c (Q(best_pri Q := ws))"
    using next_best [OF k1(1) Q] by metis
  have ne: "u \<noteq> kcurrent k1"
    using ready_ok_D(5) [OF k1(1), of "best_pri Q"] n(1) by (auto simp: kcurrent_def)
  have "exit_rest E (ucast t) d k = (Switched, restore_context (ucast t) (ucast u)
      (k1\<lparr>mach := (mach k1)\<lparr>cores := c\<rparr>\<rparr>))"
    using run_sched_switches [OF P n(2) _ ne, of None] n(3) k1(2)
    by (simp add: exit_rest_def k1_def [symmetric])
  then show ?thesis
    using n k1 by (auto simp: restore_context_def kcores_def running_def)
qed

text \<open>
  C30: A thread that exits never gets the processor back: its return value is stored, a parent
  blocked in a join on it becomes ready, and the processor goes to the best ready thread. A
  detached thread's ID is free again; a joinable thread stays in the table, exited, until it
  is joined.
\<close>

theorem exit_hands_over:
  assumes P: "platform_ok (plat E)" and ok: "ready_ok (kcores k) Q"
    and run: "running (entries (tm (kcores k)) (kcurrent k))" and join: "joiner_blocked k"
    and Q: "exit_queue k Q p \<noteq> []"
  shows "\<exists>k' u ws. syscall_exit E ret k = Some (Switched, k') \<and>
    exit_queue k Q (best_pri (exit_queue k Q)) = u # ws \<and> cpu k' = ucast u \<and>
    ready_ok (kcores k') ((exit_queue k Q)(best_pri (exit_queue k Q) := ws)) \<and>
    retval (threads k' (ucast (kcurrent k))) = ret \<and>
    e_used (entries (tm (kcores k')) (kcurrent k)) =
      (\<not> e_detached (entries (tm (kcores k)) (kcurrent k))) \<and>
    \<not> running (entries (tm (kcores k')) (kcurrent k))"
proof -
  let ?t = "kcurrent k" and ?c = "kcores k" and ?Q = "exit_queue k Q"
  let ?d = "e_detached (entries (tm ?c) ?t)"
  define k2 where "k2 = upd_thread (ucast ?t) (\<lambda>x. x\<lparr>retval := ret\<rparr>) k"
  have head: "syscall_exit E ret k = exit_loop E (ucast ?t) ?d k2"
    using P run by (simp add: syscall_exit_def on_mach_def hw_ops k2_def kcores_def kcurrent_def running_def)
  obtain i c' where x: "tm_exit ?t ?c = (0, (None, i), c')" "ready_ok c' ?Q"
      "current (tm c') = ?t" "e_used (entries (tm c') ?t)" "\<not> e_alive (entries (tm c') ?t)"
    using exit_keeps_ready [OF ok kcurrent_def run _ refl, of ?Q] join
    by (auto simp: joiner_blocked_def exit_queue_def Let_def)
  define k3 where "k3 = k2\<lparr>mach := (mach k)\<lparr>cores := c', irq := irq (mach k) \<or> i\<rparr>\<rparr>"
  have "on_mach (exit_thread (plat E) (ucast ?t)) k2 = (0, k3)"
    using P x(1) by (simp add: on_mach_def hw_ops with_cores_def apply_events_def k2_def k3_def
        kcores_def upd_thread_def)
  then have loop: "exit_loop E (ucast ?t) ?d k2 = Some (exit_rest E (ucast ?t) ?d k3)"
    by (subst exit_loop.simps) (simp add: has_error_def)
  have k3: "kcores k3 = c'" "kcurrent k3 = ?t" "retval (threads k3 (ucast ?t)) = ret"
    using x(3) by (simp_all add: k3_def k2_def kcores_def kcurrent_def upd_thread_def)
  obtain k' u ws where "exit_rest E (ucast ?t) ?d k3 = (Switched, k')" "?Q (best_pri ?Q) = u # ws"
      "cpu k' = ucast u" "ready_ok (kcores k') (?Q(best_pri ?Q := ws))"
      "retval (threads k' (ucast ?t)) = ret" "e_used (entries (tm (kcores k')) ?t) = (\<not> ?d)"
      "\<not> running (entries (tm (kcores k')) ?t)"
    using exit_rest_switches [where Q = ?Q and p = p and k = k3 and t = ?t and d = ?d, OF P _ Q] x k3
    by metis
  then show ?thesis unfolding head loop by blast
qed

theorem exit_hands_over_witness:
  "\<exists>k k'. syscall_exit example_env 9 k = Some (Switched, k') \<and> cpu k' = 1 \<and>
     retval (threads k' 0) = 9"
proof -
  let ?Q = "(\<lambda>_. [])(64 := [1]) :: pri \<Rightarrow> tid list"
  obtain c where c: "ready_ok c ?Q" "is_current 0 (tm c)"
    "running (entries (tm c) 0)" "e_detached (entries (tm c) 0)" using two_threads by metis
  let ?k = "example_kernel c"
  have cur: "kcurrent ?k = 0" using c(2) by (simp add: kcurrent_def is_current_def)
  have q: "exit_queue ?k ?Q = ?Q" using c(4) cur by (simp add: exit_queue_def Let_def)
  have h: "ready_ok (kcores ?k) ?Q" "running (entries (tm (kcores ?k)) (kcurrent ?k))"
      "joiner_blocked ?k" using c cur by (simp_all add: joiner_blocked_def)
  have Q: "exit_queue ?k ?Q 64 \<noteq> []" unfolding q by simp
  obtain k' u ws where k': "syscall_exit example_env 9 ?k = Some (Switched, k')"
      "?Q (best_pri ?Q) = u # ws" "cpu k' = ucast u" "retval (threads k' (ucast (kcurrent ?k))) = 9"
    using exit_hands_over [OF example_platform h Q, of 9] unfolding q by blast
  from k'(2) have "u = 1" by (auto split: if_splits)
  with k' cur show ?thesis by (intro exI [of _ ?k] exI [of _ k']) simp
qed

section \<open>Mutexes and condition variables\<close>

text \<open>The next owner of a mutex is woken: it is added to the ready queue.\<close>

lemma wake_appends:
  assumes ok: "ready_ok (cores m) Q" and t: "running (entries (tm (cores m)) t)"
    "t \<noteq> current (tm (cores m))" "\<not> queue_bit (thread_ram (sch (cores m)) t)"
    "sw_range (param_ram (sch (cores m)) t)"
    and p: "p = priority (thread_ram (sch (cores m)) t)"
  shows "ready_ok (cores (wake t m)) (Q(p := Q p @ [t])) \<and> tm (cores (wake t m)) = tm (cores m) \<and>
    syncm (wake t m) = syncm m \<and> cvars (wake t m) = cvars m"
  using add_appends [OF ok t p] by (auto simp: wake_def with_cores_def apply_events_def)

text \<open>
  C11: Unlocking a mutex that others wait for. When its owner has locked it once, the mutex goes to the
  thread that has waited longest: that thread is the owner from now on and is appended to the
  ready queue of its priority. When the owner of a recursive mutex has locked it more often, it
  stays the owner with one lock less, the waiting threads stay where they are and no thread becomes
  ready. In both cases the call reports success and the caller keeps the processor. The longest
  waiting thread is a blocked software thread of the host; one on a slave is woken differently.
\<close>

theorem unlock_hands_over_mutex:
  assumes P: "platform_ok (plat E)" and ok: "ready_ok (kcores k) Q"
    and A: "sync_repr (syncm (mach k)) A" "A m = (w # v # vs, n)"
    and m: "m = ucast (m_num (mutex_heap k mutex))"
    and v: "running (entries (tm (kcores k)) v)" "v \<noteq> kcurrent k"
      "\<not> queue_bit (thread_ram (sch (kcores k)) v)" "sw_range (param_ram (sch (kcores k)) v)"
    and p: "p = priority (thread_ram (sch (kcores k)) v)"
  shows "\<exists>k'. syscall_mutex_unlock E mutex k = (SUCCESS, k') \<and> kcurrent k' = kcurrent k \<and>
    (if 1 < n
     then sync_repr (syncm (mach k')) (A(m := (w # v # vs, n - 1))) \<and>
       m_owner (mutexes (syncm (mach k')) m) = w \<and> kcores k' = kcores k
     else sync_repr (syncm (mach k')) (A(m := (v # vs, 1))) \<and>
       m_owner (mutexes (syncm (mach k')) m) = v \<and> ready_ok (kcores k') (Q(p := Q p @ [v])))"
proof (cases "1 < n")
  case True
  obtain r s where u: "unlock_fsm m (syncm (mach k)) = (r, None, s)" and R: "sync_repr s (A(m := (w # v # vs, n - 1)))"
    using unlock_refines [OF A(1), of m] A(2) True by (auto simp: spec_unlock_def)
  have "m_owner (mutexes s m) = w" using mutex_repr_tests(3) [OF sync_repr_mutex [OF R, of m]] by simp
  moreover have "syscall_mutex_unlock E mutex k = (SUCCESS, k\<lparr>mach := (mach k)\<lparr>syncm := s\<rparr>\<rparr>)"
    using P u m by (simp add: syscall_mutex_unlock_def kernel_access hw_ops)
  ultimately show ?thesis using R True by (simp add: kcores_def kcurrent_def)
next
  case False
  obtain r s where u: "unlock_fsm m (syncm (mach k)) = (r, Some v, s)"
      and R: "sync_repr s (A(m := (v # vs, 1)))"
    using unlock_refines [OF A(1), of m] A(2) False by (auto simp: spec_unlock_def split: prod.splits)
  have own: "m_owner (mutexes s m) = v"
    using mutex_repr_tests(3) [OF sync_repr_mutex [OF R, of m]] by simp
  let ?m = "(mach k)\<lparr>syncm := s\<rparr>"
  have "ready_ok (cores ?m) Q" using ok by (simp add: kcores_def)
  from wake_appends [OF this, of v p] v p
  have w: "ready_ok (cores (wake v ?m)) (Q(p := Q p @ [v]))" "syncm (wake v ?m) = s"
    "tm (cores (wake v ?m)) = tm (cores (mach k))" by (simp_all add: kcores_def kcurrent_def)
  have "syscall_mutex_unlock E mutex k = (SUCCESS, k\<lparr>mach := wake v ?m\<rparr>)"
    using P u m by (simp add: syscall_mutex_unlock_def kernel_access hw_ops)
  with w R own False show ?thesis by (simp add: kcores_def kcurrent_def)
qed

lemma waiting_mutex:
  "sync_repr (snd (lock_fsm 0 1 (snd (lock_fsm 0 0 sync_reset)))) ((\<lambda>_. ([], 0))(0 := ([0, 1], 1)))"
proof -
  have k: "m_kind (mutexes sync_reset 0) = 0" "m_kind (mutexes (snd (lock_fsm 0 0 sync_reset)) 0) = 0"
    by (simp_all add: sync_reset_def lock_fsm_def empty_mutex_def)
  have "sync_repr (snd (lock_fsm 0 0 sync_reset)) ((\<lambda>_. ([], 0))(0 := ([0], Suc 0)))"
    using lock_free_refines [OF sync_reset_repr, of 0] by simp
  from lock_refines [OF this, of 0 1] show ?thesis
    unfolding k by (simp add: lock_ok_def spec_lock_def SYNCH_ERROR_def SYNCH_RECURS_def)
qed

theorem unlock_hands_over_mutex_witness:
  "\<exists>k k'. syscall_mutex_unlock example_env 0 k = (SUCCESS, k') \<and>
     m_owner (mutexes (syncm (mach k')) 0) = 1"
proof -
  obtain c where c: "ready_ok c (\<lambda>_. [])" "is_current 0 (tm c)" "running (entries (tm c) 1)"
    "sch c = sched_reset" using blocked_child by metis
  let ?k = "(example_kernel c)\<lparr>mach := (mach (example_kernel c))\<lparr>syncm :=
      snd (lock_fsm 0 1 (snd (lock_fsm 0 0 sync_reset)))\<rparr>\<rparr>"
  have kc: "kcores ?k = c" by (simp add: kcores_def example_kernel_def)
  have h: "sync_repr (syncm (mach ?k)) ((\<lambda>_. ([], 0))(0 := ([0, 1], 1)))"
    "0 = ucast (m_num (mutex_heap ?k 0))" "1 \<noteq> kcurrent ?k"
    using waiting_mutex c(2) by (simp_all add: kcurrent_def kc is_current_def) (simp add: example_kernel_def)
  have A: "((\<lambda>_. ([], 0))(0 := ([0, 1], 1))) 0 = ([0, 1], 1 :: nat)" by simp
  from unlock_hands_over_mutex [OF example_platform _ h(1) A h(2) _ h(3) _ _ refl, of "\<lambda>_. []"] c
  show ?thesis unfolding kc if_not_P [OF less_irrefl] by (metis reset_thread(1,2))
qed



text \<open>
  Signalling a condition variable releases exactly the thread that has waited longest: it
  leaves the waiting list and is appended to the ready queue of its priority; with nobody
  waiting, the signal changes nothing but reports success too.
\<close>

theorem cond_signal_wakes_first:
  assumes P: "platform_ok (plat E)" and ok: "ready_ok (kcores k) Q"
    and W: "cv_repr idle (cvars (mach k)) W" and v: "v = cv_number (c_num (cond_heap k cond))"
    and first: "\<And>t ts. W v = t # ts \<Longrightarrow> running (entries (tm (kcores k)) t) \<and> t \<noteq> kcurrent k \<and>
        \<not> queue_bit (thread_ram (sch (kcores k)) t) \<and> sw_range (param_ram (sch (kcores k)) t)"
  shows "\<exists>k'. syscall_cond_signal E cond k = Some (SUCCESS, k') \<and>
    cv_repr idle (cvars (mach k')) (W(v := tl (W v))) \<and> syncm (mach k') = syncm (mach k) \<and>
    ready_ok (kcores k') (case W v of [] \<Rightarrow> Q
      | t # _ \<Rightarrow> let p = priority (thread_ram (sch (kcores k)) t) in Q(p := Q p @ [t]))"
proof -
  obtain w s where d: "cv_dequeue v (cvars (mach k)) = (w, s)" by fastforce
  with cv_dequeue_law [OF W, of v] have w: "w = (case W v of [] \<Rightarrow> None | t # ts \<Rightarrow> Some t)"
    and R: "cv_repr idle s (W(v := tl (W v)))" by auto
  let ?m = "(mach k)\<lparr>cvars := s\<rparr>"
  have m: "ready_ok (cores ?m) Q" using ok by (simp add: kcores_def)
  show ?thesis
  proof (cases "W v")
    case Nil
    then have "syscall_cond_signal E cond k = Some (SUCCESS, k\<lparr>mach := ?m\<rparr>)"
      using P d v w by (simp add: syscall_cond_signal_def opt_mach_def hw_ops)
    with Nil R m show ?thesis by (simp add: kcores_def)
  next
    case (Cons t ts)
    then have "syscall_cond_signal E cond k = Some (SUCCESS, k\<lparr>mach := wake t ?m\<rparr>)"
      using P d v w by (simp add: syscall_cond_signal_def opt_mach_def hw_ops)
    with Cons R wake_appends [OF m, of t] first [OF Cons] show ?thesis
      by (simp add: kcores_def kcurrent_def Let_def)
  qed
qed

theorem cond_signal_wakes_first_witness:
  "\<exists>k k'. cv_repr 2 (cvars (mach k)) ((\<lambda>_. [])(0 := [1])) \<and>
     syscall_cond_signal example_env 0 k = Some (SUCCESS, k') \<and>
     cv_repr 2 (cvars (mach k')) (\<lambda>_. []) \<and> ready_ok (kcores k') ((\<lambda>_. [])(64 := [1]))"
proof -
  obtain c where c: "ready_ok c (\<lambda>_. [])" "is_current 0 (tm c)" "running (entries (tm c) 1)"
    "sch c = sched_reset" using blocked_child by metis
  let ?k = "(example_kernel c)\<lparr>mach := (mach (example_kernel c))\<lparr>cvars := cv_enqueue 0 1 condvar_reset\<rparr>\<rparr>"
  have kc: "kcores ?k = c" by (simp add: kcores_def example_kernel_def)
  have R: "cv_repr 2 (cvars (mach ?k)) ((\<lambda>_. [])(0 := [1]))"
    using cv_enqueue_law [OF cv_reset_repr, of 1 2 0] by simp
  have v: "0 = cv_number (c_num (cond_heap ?k 0))" by (simp add: example_kernel_def cv_number_def)
  have cur: "kcurrent ?k = 0" using c(2) by (simp add: kcurrent_def kc is_current_def)
  have first: "((\<lambda>_. [])(0 := [1])) 0 = t # ts \<Longrightarrow> running (entries (tm (kcores ?k)) t) \<and> t \<noteq> kcurrent ?k \<and>
        \<not> queue_bit (thread_ram (sch (kcores ?k)) t) \<and> sw_range (param_ram (sch (kcores ?k)) t)" for t ts
    unfolding kc cur using c(3,4) by simp
  obtain k' where "syscall_cond_signal example_env 0 ?k = Some (SUCCESS, k')"
    "cv_repr 2 (cvars (mach k')) (((\<lambda>_. [])(0 := [1]))(0 := []))"
    "ready_ok (kcores k') ((\<lambda>_. [])(64 := [1]))"
    using cond_signal_wakes_first [OF example_platform _ R v first, of "\<lambda>_. []"] c(1,4) unfolding kc by auto
  with R show ?thesis by (intro exI [of _ ?k] exI [of _ k']) (simp add: fun_upd_idem)
qed

end
