(* ===== verification/Kernel_Boot.thy ===== *)
theory Kernel_Boot
  imports Kernel_Laws
begin

text \<open>
  The state the kernel starts in, the placement of thread stacks, and the system calls'
  error behaviour: what initialisation establishes, in which part of memory the stack of
  each thread lies, and which requests the kernel refuses.
\<close>

section \<open>Definitions used in the statements\<close>

text \<open>The slot of thread \<open>t\<close> in the array \<^verbatim>\<open>stacks\<close>, as a range of addresses.\<close>

definition stack_slot :: "env \<Rightarrow> tid \<Rightarrow> nat set" where
  "stack_slot E t = {unat (stacks_base E) + unat t * 16384 ..< unat (stacks_base E) + Suc (unat t) * 16384}"

definition stacks_fit :: "env \<Rightarrow> bool" where
  "stacks_fit E \<longleftrightarrow> unat (stacks_base E) + 256 * 16384 < 2 ^ 32 \<and> 0 < unat (stacks_base E)"

definition no_stack_attr :: "Huint \<Rightarrow> Huint \<Rightarrow> hthread_attr" where
  "no_stack_attr n pri = \<lparr>detached = Hfalse, hardware = Hfalse, hardware_addr = 0, stack_size = n,
     stack_addr = 0, sched_param = pri\<rparr>"

section \<open>Stacks\<close>

lemma unat_ucast_tid: "unat (ucast (t :: tid) :: Huint) = unat t"
  using unat_bound [of t] by (simp add: unsigned_ucast_eq take_bit_nat_eq_self_iff)

lemma unat_own_stack:
  assumes "stacks_fit E"
  shows "unat (own_stack E (ucast (t :: tid))) = unat (stacks_base E) + unat t * 16384"
proof -
  have "unat t < 256" using unat_bound [of t] by simp
  then have a: "unat t * 16384 < 2 ^ 32" "unat (stacks_base E) + unat t * 16384 < 2 ^ 32"
    using assms by (simp_all add: stacks_fit_def)
  have b: "unat (ucast t * HT_STACK_SIZE) = unat t * 16384"
    using a(1) by (simp add: HT_STACK_SIZE_def unat_word_ariths unat_ucast_tid)
  show ?thesis
    unfolding own_stack_def using a(2) by (subst unat_word_ariths(1)) (simp only: b, simp)
qed

lemma own_stack_nonzero: "stacks_fit E \<Longrightarrow> own_stack E (ucast (t :: tid)) \<noteq> 0"
  using unat_own_stack [of E t] by (auto simp: stacks_fit_def)

lemma initial_sp:
  fixes t :: tid
  assumes fit: "stacks_fit E" and attr: "hardware attr \<noteq> Htrue" "stack_addr attr = 0"
    and n: "128 < unat (stack_size attr)"
      "unat (stacks_base E) + unat t * 16384 + unat (stack_size attr) < 2 ^ 32"
  shows "unat (mb_context_table (snd (setup_thread E (ucast t) attr start arg k)) (ucast t) MB_SP) =
    unat (stacks_base E) + unat t * 16384 + unat (stack_size attr) - 64"
proof -
  have m: "HTHREAD_STACK_MIN < stack_size attr"
    using n(1) by (simp add: HTHREAD_STACK_MIN_def word_less_nat_alt)
  then have z: "0 < stack_size attr" by (metis word_gt_0 word_not_simps(1))
  from setup_software [of attr "ucast t" E start arg k] attr m tid_in_range [of t] own_stack_nonzero [OF fit, of t]
  have sp: "mb_context_table (snd (setup_thread E (ucast t) attr start arg k)) (ucast t) MB_SP =
      own_stack E (ucast t) + stack_size attr - HTHREAD_STACK_RESERVE" using z by auto
  have "unat (own_stack E (ucast t) + stack_size attr) =
      unat (stacks_base E) + unat t * 16384 + unat (stack_size attr)"
    using n(2) by (simp add: unat_word_ariths unat_own_stack [OF fit])
  moreover have "unat HTHREAD_STACK_RESERVE = 64" by (simp add: HTHREAD_STACK_RESERVE_def)
  ultimately show ?thesis
    unfolding sp using n(1) by (simp add: unat_sub word_le_nat_alt)
qed

text \<open>
  The statically allocated stacks of different threads do not overlap, and a new software
  thread whose stack request is at most the 16 KiB of a slot starts with its stack pointer
  inside the slot of its own ID, wherever the array was placed and however large the request.
\<close>

theorem stacks_disjoint:
  assumes "stacks_fit E" and "hardware attr \<noteq> Htrue" "stack_addr attr = 0"
    and "128 < unat (stack_size attr)" "unat (stack_size attr) \<le> 16384"
  shows "unat (mb_context_table (snd (setup_thread E (ucast t) attr start arg k)) (ucast t) MB_SP)
           \<in> stack_slot E t \<and> (u \<noteq> t \<longrightarrow> stack_slot E u \<inter> stack_slot E t = {})"
proof
  have t: "unat t < 256" using unat_bound [of t] by simp
  then have "unat t * 16384 + unat (stack_size attr) \<le> 256 * 16384" using assms(5) by linarith
  with assms(1) have "unat (stacks_base E) + unat t * 16384 + unat (stack_size attr) < 2 ^ 32"
    by (simp add: stacks_fit_def)
  from initial_sp [OF assms(1-4) this, of start arg k] assms(4,5)
  show "unat (mb_context_table (snd (setup_thread E (ucast t) attr start arg k)) (ucast t) MB_SP)
      \<in> stack_slot E t" by (simp add: stack_slot_def) arith
  show "u \<noteq> t \<longrightarrow> stack_slot E u \<inter> stack_slot E t = {}"
  proof
    assume "u \<noteq> t"
    then consider "unat u < unat t" | "unat t < unat u" by (metis linorder_neqE_nat word_unat_eq_iff)
    then show "stack_slot E u \<inter> stack_slot E t = {}" by cases (auto simp: stack_slot_def)
  qed
qed

lemma example_stacks: "stacks_fit example_env"
  by (simp add: stacks_fit_def example_env_def)

theorem stacks_disjoint_witness:
  "unat (mb_context_table (snd (setup_thread example_env (ucast (3 :: tid)) (no_stack_attr 16384 64) 0 0
     (example_kernel cores_reset))) (ucast (3 :: tid)) MB_SP) \<in> stack_slot example_env 3"
  using stacks_disjoint [OF example_stacks, of "no_stack_attr 16384 64" 3]
  by (simp add: no_stack_attr_def Hfalse_def Htrue_def)

text \<open>
  A request for more than a slot is accepted, and the thread starts with its stack pointer
  in the slot of the next thread ID: its first pushes overwrite that thread's stack.
\<close>

theorem oversized_stack_overlaps:
  assumes "stacks_fit E" and "hardware attr \<noteq> Htrue" "stack_addr attr = 0"
    and "16448 \<le> unat (stack_size attr)" "unat (stack_size attr) < 32768" "unat t < 255"
  shows "fst (setup_thread E (ucast t) attr start arg k) = SUCCESS \<and>
         unat (mb_context_table (snd (setup_thread E (ucast t) attr start arg k)) (ucast t) MB_SP)
           \<in> stack_slot E (t + 1)"
proof
  have m: "HTHREAD_STACK_MIN < stack_size attr"
    using assms(4) by (simp add: HTHREAD_STACK_MIN_def word_less_nat_alt)
  from setup_software [of attr "ucast t" E start arg k] assms(2,3) m tid_in_range [of t]
    own_stack_nonzero [OF assms(1), of t]
  show "fst (setup_thread E (ucast t) attr start arg k) = SUCCESS" by auto
  have u: "unat (t + 1) = Suc (unat t)" using assms(6) by (simp add: unat_word_ariths)
  have "unat t * 16384 + unat (stack_size attr) \<le> 254 * 16384 + 32768" using assms(5,6) by linarith
  with assms(1) have f: "unat (stacks_base E) + unat t * 16384 + unat (stack_size attr) < 2 ^ 32"
    by (simp add: stacks_fit_def)
  have "128 < unat (stack_size attr)" using assms(4) by simp
  from initial_sp [OF assms(1-3) this f, of start arg k] assms(4,5)
  show "unat (mb_context_table (snd (setup_thread E (ucast t) attr start arg k)) (ucast t) MB_SP)
      \<in> stack_slot E (t + 1)" by (simp add: stack_slot_def u) arith
qed

theorem oversized_stack_overlaps_witness:
  "unat (mb_context_table (snd (setup_thread example_env (ucast (3 :: tid)) (no_stack_attr 20000 64) 0 0
     (example_kernel cores_reset))) (ucast (3 :: tid)) MB_SP) \<in> stack_slot example_env 4"
  using oversized_stack_overlaps [OF example_stacks, of "no_stack_attr 20000 64" 3]
  by (simp add: no_stack_attr_def Hfalse_def Htrue_def)

section \<open>Requests the kernel refuses\<close>

text \<open>
  Detaching never works: the thread manager has no such command, so whatever thread is
  named the system call returns \<^verbatim>\<open>EINVAL\<close>, the table of threads and the ready queue stay as
  they are and only the exception registers record the undefined command.
\<close>

theorem detach_always_fails:
  assumes "platform_ok (plat E)"
  shows "\<exists>k'. syscall_detach E th k = (EINVAL, k') \<and>
    entries (tm (kcores k')) = entries (tm (kcores k)) \<and> sch (kcores k') = sch (kcores k) \<and>
    exc_cause (tm (kcores k')) = EXCEPTION_UNDEFINED_ADDRESS"
  using assms
  by (simp add: syscall_detach_def on_mach_def hw_ops with_tm_def tm_raise_def kcores_def)

theorem detach_always_fails_witness:
  "\<exists>k'. syscall_detach example_env 1 (example_kernel cores_reset) = (EINVAL, k') \<and>
     exc_cause (tm (kcores k')) = EXCEPTION_UNDEFINED_ADDRESS"
  using detach_always_fails [OF example_platform, of 1 "example_kernel cores_reset"] by auto

text \<open>
  The dispatcher's bad numbers: 0 is answered with \<^verbatim>\<open>EINVAL\<close> and changes nothing, and any
  number above 16 never returns. The calls 1 to 16 other than exit always come back with an
  answer or a context switch.
\<close>

theorem handler_bad_numbers:
  assumes "platform_ok (plat E)"
  shows "system_call_handler E 0 p2 p3 p4 p5 k = Some (Returned EINVAL, k) \<and>
    (16 < c \<longrightarrow> system_call_handler E c p2 p3 p4 p5 k = None) \<and>
    (c \<le> 16 \<and> c \<noteq> 5 \<longrightarrow> system_call_handler E c p2 p3 p4 p5 k \<noteq> None)"
  using assms
  by (auto simp: system_call_handler_def syscall_cond_wait_def syscall_cond_signal_def
      syscall_cond_broadcast_def opt_mach_def hw_ops split: prod.splits)

theorem handler_bad_numbers_witness:
  "system_call_handler example_env 17 0 0 0 0 (example_kernel cores_reset) = None"
  using handler_bad_numbers [OF example_platform, of 0 0 0 0 _ 17] by simp

section \<open>Initialisation\<close>

text \<open>Adding a thread to an empty ready queue and taking the next one makes it current.\<close>

lemma enqueue_keeps_registers:
  assumes "sch_enqueue cur t s = (r, hw, i, s')"
  shows "idle_valid s' = idle_valid s" "preempt_enable s' = preempt_enable s"
proof -
  have [simp]: "idle_valid (sch_link t p e pe s) = idle_valid s" "idle_valid (run_encoder x) = idle_valid x"
    "preempt_enable (sch_link t p e pe s) = preempt_enable s"
    "preempt_enable (run_encoder x) = preempt_enable x" for p e pe x
    by (simp_all add: sch_link_def run_encoder_def)
  show "idle_valid s' = idle_valid s" "preempt_enable s' = preempt_enable s"
    using assms by (auto simp: sch_enqueue_def Let_def split: if_splits)
qed

lemma add_and_take:
  assumes ok: "ready_ok c (\<lambda>_. [])" and t: "running (entries (tm c) t)" "sw_range (param_ram (sch c) t)"
  shows "\<exists>i c1 c2. tm_add t c = (0x800000, (None, i), c1) \<and> tm_next a c1 = (id_word t, c2) \<and>
    ready_ok c2 (\<lambda>_. []) \<and> tm c2 = (tm c)\<lparr>current := t, cur_invalid := False\<rparr> \<and>
    (\<not> idle_valid (sch c1) \<longrightarrow> \<not> next_valid (sch c2)) \<and> idle_valid (sch c2) = idle_valid (sch c1) \<and>
    idle_valid (sch c1) = idle_valid (sch c) \<and> preempt_enable (sch c2) = preempt_enable (sch c)"
proof -
  let ?p = "priority (thread_ram (sch c) t)"
  let ?Q = "(\<lambda>_. [])(?p := [t])"
  have nq: "\<not> queue_bit (thread_ram (sch c) t)" using ready_ok_D(6) [OF ok, of t] by auto
  obtain r hw i s' where e: "sch_enqueue (current (tm c)) t (sch c) = (r, hw, i, s')"
    by (metis prod_cases4)
  from enqueue_refines [OF ready_ok_D(2) [OF ok] nq t(2) refl e]
  have r: "r = 0x80" "hw = None" and s': "sched_repr s' ?Q" "next_ok s' ?Q" by auto
  have fr: "idle_valid s' = idle_valid (sch c)" "preempt_enable s' = preempt_enable (sch c)"
    using enqueue_keeps_registers [OF e] by simp_all
  have "?Q ?p \<noteq> []" by simp
  then have "?Q (best_pri ?Q) \<noteq> []" using best_pri_nonempty [of ?Q] by blast
  then have b: "best_pri ?Q = ?p" "?Q ?p = [t]" by (auto split: if_splits)
  have n: "next_valid s'" "next_id s' = t"
    using s'(2) b unfolding next_ok_def by (metis list.distinct(1), metis list.distinct(1) list.sel(1))
  obtain r2 s2 where d: "sch_dequeue t s' = (r2, s2)" by fastforce
  have "?Q(?p := []) = (\<lambda>_. [])" by auto
  with dequeue_refines [OF s'(1) b(2) d]
  have s2: "sched_repr s2 (\<lambda>_. [])" "next_ok s2 (\<lambda>_. [])" "next_valid s2 = idle_valid s'"
    by (simp_all only: simp_thms)
  have fr2: "idle_valid s2 = idle_valid s'" "preempt_enable s2 = preempt_enable s'"
    using d by (auto simp: sch_dequeue_def deq_pick_def run_encoder_def Let_def split: if_splits)
  let ?c1 = "c\<lparr>sch := s'\<rparr>"
  let ?c2 = "c\<lparr>tm := (tm c)\<lparr>current := t, cur_invalid := False\<rparr>, sch := s2\<rparr>"
  have "tm_add t c = (0x800000, (None, i), ?c1)"
    using t e r nq by (simp add: tm_add_def Let_def sch_is_queued_def do_enqueue_def)
  moreover have "tm_next a ?c1 = (id_word t, ?c2)" using next_takes [of ?c1 a] n t(1) d by simp
  moreover have "tm_ok (tm ?c2)" by (rule tm_ok_entries [OF ready_ok_D(1) [OF ok]]) simp
  then have "ready_ok ?c2 (\<lambda>_. [])" using s2 by (simp add: ready_ok_def)
  ultimately show ?thesis using s2(3) fr fr2 by (intro exI [of _ i] exI [of _ ?c1] exI [of _ ?c2]) simp
qed

lemma init_stack_ptrs_mach: "mach (init_stack_ptrs k) = mach k"
proof -
  have "mach (fold (\<lambda>i. upd_thread (of_nat i) (\<lambda>x. x\<lparr>stack := 0\<rparr>)) is k) = mach k" for "is"
    by (induction "is" arbitrary: k) (simp_all add: upd_thread_def)
  then show ?thesis by (simp add: init_stack_ptrs_def)
qed

lemma allocate_ok:
  assumes "platform_ok (plat E)" and "ready_ok (kcores k) Q" and "free_ids (tm (kcores k)) = t # ts"
    and "\<And>p. Q p = []"
  shows "\<exists>k'. allocate_thread E k = Some (ucast t, k') \<and> ready_ok (kcores k') Q \<and>
    running (entries (tm (kcores k')) t) \<and> e_pid (entries (tm (kcores k')) t) = 0 \<and>
    free_ids (tm (kcores k')) = ts \<and> sch (kcores k') = sch (kcores k) \<and>
    (\<forall>u. u \<noteq> t \<longrightarrow> entries (tm (kcores k')) u = entries (tm (kcores k)) u) \<and>
    kcurrent k' = kcurrent k \<and> cur_invalid (tm (kcores k')) = cur_invalid (tm (kcores k)) \<and>
    cpu k' = cpu k \<and> threads k' = threads k"
proof -
  obtain r s where c: "tm_create True (tm (kcores k)) = (r, s)" by fastforce
  note cr = create_ok [OF ready_ok_D(1) [OF assms(2)] assms(3) c]
  have cur: "current s = current (tm (kcores k))" "cur_invalid s = cur_invalid (tm (kcores k))"
    using c by (auto simp: tm_create_def Let_def split: if_splits)
  have "allocate_thread E k = Some (ucast t, k\<lparr>mach := (mach k)\<lparr>cores := (kcores k)\<lparr>tm := s\<rparr>\<rparr>\<rparr>)"
    using assms(1) c cr by (simp add: allocate_thread_def on_mach_def hw_ops with_tm_def kcores_def)
  with cr cur assms(2,4) show ?thesis by (simp add: kcores_def kcurrent_def ready_ok_def)
qed

lemma setparam_step:
  assumes P: "platform_ok (plat E)" and ok: "ready_ok (kcores k) (\<lambda>_. [])"
    and t: "running (entries (tm (kcores k)) t)" "sw_range v"
      "t = kcurrent k \<or> e_pid (entries (tm (kcores k)) t) = kcurrent k"
  shows "\<exists>k'. snd (on_mach (set_schedparam (plat E) (ucast t) v) k) = k' \<and>
    ready_ok (kcores k') (\<lambda>_. []) \<and> tm (kcores k') = tm (kcores k) \<and>
    param_ram (sch (kcores k')) t = v \<and> priority (thread_ram (sch (kcores k')) t) = ucast v \<and>
    idle_valid (sch (kcores k')) = idle_valid (sch (kcores k)) \<and>
    next_valid (sch (kcores k')) = next_valid (sch (kcores k)) \<and>
    preempt_enable (sch (kcores k')) = preempt_enable (sch (kcores k)) \<and>
    threads k' = threads k \<and> cpu k' = cpu k"
proof -
  let ?c = "kcores k"
  have nq: "\<not> queue_bit (thread_ram (sch ?c) t)" using ready_ok_D(6) [OF ok, of t] by auto
  obtain x s where s: "sch_set_schedparam (current (tm ?c)) True (e_pid (entries (tm ?c) t)) t v (sch ?c) = (x, s)"
    by fastforce
  note n = setparam_new [OF ok nq t(2) s]
  have fr: "idle_valid s = idle_valid (sch ?c)" "next_valid s = next_valid (sch ?c)"
    "preempt_enable s = preempt_enable (sch ?c)"
    using s nq by (auto simp: sch_set_schedparam_def pick_next_def Let_def split: if_splits)
  have "snd (on_mach (set_schedparam (plat E) (ucast t) v) k) =
      k\<lparr>mach := (mach k)\<lparr>cores := ?c\<lparr>sch := s\<rparr>, irq := irq (mach k) \<or> x\<rparr>\<rparr>"
    using P s t(1) by (simp add: on_mach_def hw_ops kcores_def running_def)
  with n fr t(3) show ?thesis by (auto simp: kcores_def kcurrent_def)
qed

lemma create_main_ok:
  assumes P: "platform_ok (plat E)" and ok: "ready_ok (kcores k) (\<lambda>_. [])"
    and free: "free_ids (tm (kcores k)) = 0 # ts" and cur: "kcurrent k = 0"
    and nv: "\<not> idle_valid (sch (kcores k))"
  shows "\<exists>k'. create_main_thread E k = Some (0, k') \<and> ready_ok (kcores k') (\<lambda>_. []) \<and>
    is_current 0 (tm (kcores k')) \<and> running (entries (tm (kcores k')) 0) \<and>
    free_ids (tm (kcores k')) = ts \<and> \<not> idle_valid (sch (kcores k')) \<and>
    \<not> next_valid (sch (kcores k')) \<and> preempt_enable (sch (kcores k')) = preempt_enable (sch (kcores k)) \<and>
    newthread (threads k' 0) = Hfalse"
proof -
  obtain k1 where k1: "allocate_thread E k = Some (ucast (0 :: tid), k1)" "ready_ok (kcores k1) (\<lambda>_. [])"
      "running (entries (tm (kcores k1)) 0)" "free_ids (tm (kcores k1)) = ts"
      "sch (kcores k1) = sch (kcores k)" "kcurrent k1 = 0"
    using allocate_ok [OF P ok free] cur by auto
  define k2 where "k2 = snd (on_mach (set_schedparam (plat E) (ucast (0 :: tid)) HT_DEFAULT_PRI) k1)"
  have sw: "sw_range HT_DEFAULT_PRI" by (simp add: sw_range_def HT_DEFAULT_PRI_def)
  have k2: "ready_ok (kcores k2) (\<lambda>_. [])" "tm (kcores k2) = tm (kcores k1)"
      "param_ram (sch (kcores k2)) 0 = HT_DEFAULT_PRI" "\<not> idle_valid (sch (kcores k2))"
      "preempt_enable (sch (kcores k2)) = preempt_enable (sch (kcores k))"
    using setparam_step [OF P k1(2,3) sw] k1(5,6) nv by (auto simp: k2_def)
  define k3 where "k3 = upd_thread 0 (\<lambda>x. x\<lparr>stack := 0\<rparr>) k2"
  have k3: "kcores k3 = kcores k2" by (simp add: k3_def kcores_def upd_thread_def)
  obtain i c1 c2 where a: "tm_add 0 (kcores k3) = (0x800000, (None, i), c1)"
      "tm_next (encode_cmd (plat E) 0 8) c1 = (id_word 0, c2)" "ready_ok c2 (\<lambda>_. [])"
      "tm c2 = (tm (kcores k3))\<lparr>current := 0, cur_invalid := False\<rparr>" "\<not> idle_valid (sch c2)"
      "\<not> next_valid (sch c2)" "preempt_enable (sch c2) = preempt_enable (sch (kcores k))"
    using add_and_take [of "kcores k3" 0 "encode_cmd (plat E) 0 8"] k1(3) k2 sw unfolding k3 by auto
  define k4 where "k4 = init_thread_register E 0 k3"
  have k4: "kcores k4 = c2"
    using P a(1,2)
    by (simp add: k4_def init_thread_register_def on_mach_def hw_ops with_cores_def apply_events_def kcores_def)
  let ?a = "\<lparr>detached = Htrue, hardware = Hfalse, hardware_addr = 0, stack_size = 0,
      stack_addr = 0xFFFFFFFF, sched_param = HT_DEFAULT_PRI\<rparr>"
  obtain k5 where k5: "setup_thread E 0 ?a 0 0 k4 = (SUCCESS, k5)" "mach k5 = mach k4"
    using setup_software [of ?a 0 E 0 0 k4] by (auto simp: Hfalse_def Htrue_def MAX_THREADS_def)
  have "create_main_thread E k = Some (0, upd_thread 0 (\<lambda>x. x\<lparr>newthread := Hfalse\<rparr>) k5)"
    using k1(1) k5(1) unfolding create_main_thread_def Let_def
    by (simp add: k2_def [simplified, symmetric] k3_def [symmetric] k4_def [symmetric])
  moreover have "kcores (upd_thread 0 f k5) = c2" for f
    using k5(2) k4 by (simp add: kcores_def upd_thread_def)
  moreover have "free_ids (tm c2) = ts"
    using k1(4) k2(2) a(4) by (simp add: free_ids_def k3)
  ultimately show ?thesis
    using a k1(3) k2(2) by (simp add: k3 is_current_def) (simp add: upd_thread_def)
qed

lemma create_idle_ok:
  assumes P: "platform_ok (plat E)" and fit: "stacks_fit E" and ok: "ready_ok (kcores k) (\<lambda>_. [])"
    and free: "free_ids (tm (kcores k)) = t # ts" and cur: "kcurrent k = 0"
    and nv: "\<not> next_valid (sch (kcores k))"
  shows "\<exists>k'. create_idle_thread E k = Some (ucast t, k') \<and> ready_ok (kcores k') (\<lambda>_. []) \<and>
    running (entries (tm (kcores k')) t) \<and>
    (\<forall>u. u \<noteq> t \<longrightarrow> entries (tm (kcores k')) u = entries (tm (kcores k)) u) \<and>
    current (tm (kcores k')) = 0 \<and> cur_invalid (tm (kcores k')) = cur_invalid (tm (kcores k)) \<and>
    free_ids (tm (kcores k')) = ts \<and> idle_valid (sch (kcores k')) \<and> idle_id (sch (kcores k')) = t \<and>
    next_valid (sch (kcores k')) \<and> next_id (sch (kcores k')) = t \<and>
    priority (thread_ram (sch (kcores k')) t) = 127 \<and>
    preempt_enable (sch (kcores k')) = preempt_enable (sch (kcores k)) \<and>
    newthread (threads k' (ucast t)) = Htrue \<and> (\<forall>u. u \<noteq> ucast t \<longrightarrow> threads k' u = threads k u) \<and>
    cpu k' = cpu k"
proof -
  obtain k1 where k1: "allocate_thread E k = Some (ucast t, k1)" "ready_ok (kcores k1) (\<lambda>_. [])"
      "running (entries (tm (kcores k1)) t)" "e_pid (entries (tm (kcores k1)) t) = 0"
      "free_ids (tm (kcores k1)) = ts" "sch (kcores k1) = sch (kcores k)" "kcurrent k1 = 0"
      "\<forall>u. u \<noteq> t \<longrightarrow> entries (tm (kcores k1)) u = entries (tm (kcores k)) u"
      "cur_invalid (tm (kcores k1)) = cur_invalid (tm (kcores k))" "cpu k1 = cpu k" "threads k1 = threads k"
    using allocate_ok [OF P ok free] cur by auto
  define k2 where "k2 = snd (on_mach (set_schedparam (plat E) (ucast t) 0x7F) k1)"
  have sw: "sw_range 0x7F" by (simp add: sw_range_def)
  have k2: "ready_ok (kcores k2) (\<lambda>_. [])" "tm (kcores k2) = tm (kcores k1)"
      "param_ram (sch (kcores k2)) t = 0x7F" "priority (thread_ram (sch (kcores k2)) t) = ucast (0x7F :: Huint)"
      "\<not> next_valid (sch (kcores k2))" "cpu k2 = cpu k" "threads k2 = threads k"
      "preempt_enable (sch (kcores k2)) = preempt_enable (sch (kcores k))"
    using setparam_step [OF P k1(2,3) sw] k1 nv unfolding k2_def by auto
  let ?a = "\<lparr>detached = Htrue, hardware = Hfalse, hardware_addr = 0, stack_size = 1024,
      stack_addr = 0, sched_param = 0x7F\<rparr>"
  have "hardware ?a \<noteq> Htrue" "HTHREAD_STACK_MIN < stack_size ?a"
    by (simp_all add: Hfalse_def Htrue_def HTHREAD_STACK_MIN_def)
  then obtain k3 where k3: "setup_thread E (ucast t) ?a (idle_thread E) 0 k2 = (SUCCESS, k3)"
      "mach k3 = mach k2" "newthread (threads k3 (ucast t)) = Htrue" "cpu k3 = cpu k2"
      "\<forall>u. u \<noteq> ucast t \<longrightarrow> threads k3 u = threads k2 u"
    using setup_software [of ?a "ucast t" E "idle_thread E" 0 k2] tid_in_range [of t]
      own_stack_nonzero [OF fit, of t] by auto
  have kc: "kcores k3 = kcores k2" using k3(2) by (simp add: kcores_def)
  have nq: "\<not> queue_bit (thread_ram (sch (kcores k2)) t)" using ready_ok_D(6) [OF k2(1), of t] by auto
  let ?s = "(sch (kcores k2))\<lparr>idle_id := t, idle_valid := True, next_valid := True, next_id := t\<rparr>"
  have "sch_set_idle True t (sch (kcores k2)) = (0, ?s)"
    using nq k2(3,5) sw by (simp add: sch_set_idle_def)
  then have idle: "snd (on_mach (set_idle_thread (plat E) (ucast t) 0) k3) =
      k3\<lparr>mach := (mach k3)\<lparr>cores := (kcores k2)\<lparr>sch := ?s\<rparr>\<rparr>\<rparr>"
    using P k1(3) k2(2) kc by (simp add: on_mach_def hw_ops with_sch_def kcores_def running_def)
  have "sched_repr ?s (\<lambda>_. []) \<and> next_ok ?s (\<lambda>_. [])"
    by (rule queues_frame [of "sch (kcores k2)"]) (use k2(1,5) in \<open>simp_all add: ready_ok_def\<close>)
  then have ok4: "ready_ok ((kcores k2)\<lparr>sch := ?s\<rparr>) (\<lambda>_. [])"
    using k2(1) by (simp add: ready_ok_def)
  have eq: "create_idle_thread E k =
      Some (ucast t, k3\<lparr>mach := (mach k3)\<lparr>cores := (kcores k2)\<lparr>sch := ?s\<rparr>\<rparr>\<rparr>)"
    using k1(1) k3(1) idle unfolding create_idle_thread_def Let_def by (simp add: k2_def [symmetric])
  show ?thesis
    unfolding eq using ok4 k1 k2 k3 by (simp add: kcores_def kcurrent_def)
qed

text \<open>
  C16: Initialisation from the reset state succeeds: thread 0 is the main thread, current and
  running with an empty ready queue; thread 1 is the idle thread, registered with the scheduler
  as the thread to run when nothing is ready and given the lowest priority; preemption is on,
  and the IDs from 2 on are free.
\<close>

theorem init_establishes_kernel:
  assumes P: "platform_ok (plat E)" and fit: "stacks_fit E" and reg: "mem_addr (plat E) (READY_REG E)"
    and k: "kcores k = cores_reset"
  shows "\<exists>k'. hthread_init E k = Some k' \<and> ready_ok (kcores k') (\<lambda>_. []) \<and>
    is_current 0 (tm (kcores k')) \<and> cpu k' = 0 \<and>
    running (entries (tm (kcores k')) 0) \<and> running (entries (tm (kcores k')) 1) \<and>
    idle_valid (sch (kcores k')) \<and> idle_id (sch (kcores k')) = 1 \<and>
    next_valid (sch (kcores k')) \<and> next_id (sch (kcores k')) = 1 \<and>
    priority (thread_ram (sch (kcores k')) 1) = 127 \<and> preempt_enable (sch (kcores k')) \<and>
    newthread (threads k' 0) = Hfalse \<and> newthread (threads k' 1) = Htrue \<and>
    free_ids (tm (kcores k')) = map of_nat [2..<256]"
proof -
  define k1 where "k1 = upd_mach (enable_preemption (plat E)) (init_stack_ptrs (k\<lparr>thread_counter := 0\<rparr>))"
  let ?s = "sched_reset\<lparr>preempt_enable := True\<rparr>"
  have k1: "kcores k1 = \<lparr>tm = tm_reset, sch = ?s\<rparr>"
    using P k by (simp add: k1_def upd_mach_def hw_ops init_stack_ptrs_mach kcores_def cores_reset_def)
  have up: "[0..<256] = 0 # 1 # [2..<256]" by (simp add: upt_conv_Cons numeral_2_eq_2)
  let ?ts = "map of_nat [2..<256] :: tid list"
  have free: "free_ids (tm (kcores k1)) = 0 # 1 # ?ts" using reset_tm_ok up by (simp add: k1)
  have "sched_repr ?s (\<lambda>_. []) \<and> next_ok ?s (\<lambda>_. [])"
    by (rule queues_frame [OF reset_repr]) simp_all
  then have ok1: "ready_ok (kcores k1) (\<lambda>_. [])" using reset_tm_ok by (simp add: ready_ok_def k1)
  obtain k2 where k2: "create_main_thread E k1 = Some (0, k2)" "ready_ok (kcores k2) (\<lambda>_. [])"
      "is_current 0 (tm (kcores k2))" "running (entries (tm (kcores k2)) 0)"
      "free_ids (tm (kcores k2)) = 1 # ?ts" "\<not> idle_valid (sch (kcores k2))"
      "\<not> next_valid (sch (kcores k2))" "preempt_enable (sch (kcores k2))" "newthread (threads k2 0) = Hfalse"
    using create_main_ok [OF P ok1 free] by (auto simp: k1 kcurrent_def tm_reset_def sched_reset_def)
  define k3 where "k3 = (store E (READY_REG E) (CPU_0_READY E) k2)\<lparr>cpu := 0\<rparr>"
  have k3: "kcores k3 = kcores k2" "threads k3 = threads k2" "cpu k3 = 0" "kcurrent k3 = 0"
    using store_mem [OF reg] k2(3) by (simp_all add: k3_def kcores_def kcurrent_def is_current_def)
  obtain k4 where k4: "create_idle_thread E k3 = Some (ucast (1 :: tid), k4)" "ready_ok (kcores k4) (\<lambda>_. [])"
      "running (entries (tm (kcores k4)) 1)" "entries (tm (kcores k4)) 0 = entries (tm (kcores k3)) 0"
      "current (tm (kcores k4)) = 0" "cur_invalid (tm (kcores k4)) = cur_invalid (tm (kcores k3))"
      "free_ids (tm (kcores k4)) = ?ts" "idle_valid (sch (kcores k4))" "idle_id (sch (kcores k4)) = 1"
      "next_valid (sch (kcores k4))" "next_id (sch (kcores k4)) = 1"
      "priority (thread_ram (sch (kcores k4)) 1) = 127"
      "preempt_enable (sch (kcores k4)) = preempt_enable (sch (kcores k3))"
      "newthread (threads k4 (ucast (1 :: tid))) = Htrue" "threads k4 0 = threads k3 0" "cpu k4 = cpu k3"
    using create_idle_ok [OF P fit, of k3 1 ?ts] k2(2,5,7) k3 by auto
  have "hthread_init E k = Some k4"
    unfolding hthread_init_def Let_def k1_def [symmetric] using k2(1) k4(1) by (simp add: k3_def [symmetric])
  then show ?thesis
    using k4 k2 k3 by (simp add: is_current_def)
qed

theorem init_establishes_kernel_witness:
  "\<exists>k'. hthread_init example_env (example_kernel cores_reset) = Some k' \<and>
     idle_id (sch (kcores k')) = 1 \<and> is_current 0 (tm (kcores k'))"
proof -
  have "mem_addr (plat example_env) (READY_REG example_env)"
    by (simp add: mem_addr_def example_env_def window_def)
  from init_establishes_kernel [OF example_platform example_stacks this, of "example_kernel cores_reset"]
  show ?thesis by auto
qed

end
