(* ===== verification/User_API.thy ===== *)
theory User_API
  imports Kernel_Boot
begin

text \<open>
  The programming interface of the library, \<^verbatim>\<open>src/software/user\<close>: attribute objects for
  threads, mutexes and condition variables, and the functions that enter the kernel. An
  attribute function takes the object by value and returns it changed; \<open>None\<close> stands for a
  null attribute pointer. The values that a C function stores through result pointers are
  returned next to its status. \<open>do_syscall\<close> is the trap into the kernel's dispatcher
  (\<^verbatim>\<open>syscall.S\<close> passes its arguments on unchanged).
\<close>

section \<open>Thread attributes (thread\_attr.c)\<close>

record hthread_mutexattr =
  ma_num :: Huint
  ma_type :: Huint

record hthread_condattr =
  ca_num :: Huint

definition HT_DEFAULT_STACK_SIZE :: Huint where "HT_DEFAULT_STACK_SIZE = 16384"

definition HTHREAD_CREATE_JOINABLE :: Huint where "HTHREAD_CREATE_JOINABLE = 1"

definition HTHREAD_CREATE_DETACHED :: Huint where "HTHREAD_CREATE_DETACHED = 2"

definition HTHREAD_SCHEDPARAM_MAX :: int where "HTHREAD_SCHEDPARAM_MAX = 128"

definition HT_HWTI_COMMAND_OFFSET :: Huint where "HT_HWTI_COMMAND_OFFSET = 0xC"

definition HT_CVR_MAXNUM :: Huint where "HT_CVR_MAXNUM = 63"

definition hthread_attr_init :: "hthread_attr \<Rightarrow> Hint \<times> hthread_attr" where
  "hthread_attr_init attr = (SUCCESS, \<lparr>detached = Hfalse, hardware = Hfalse, hardware_addr = 0,
     stack_size = HT_DEFAULT_STACK_SIZE, stack_addr = 0, sched_param = 64\<rparr>)"

definition hthread_attr_destroy :: "hthread_attr \<Rightarrow> Hint \<times> hthread_attr" where
  "hthread_attr_destroy attr = (SUCCESS, \<lparr>detached = Hfalse, hardware = Hfalse, hardware_addr = 0,
     stack_size = HT_DEFAULT_STACK_SIZE, stack_addr = 0, sched_param = 64\<rparr>)"

definition hthread_attr_setstacksize :: "Huint \<Rightarrow> hthread_attr \<Rightarrow> Hint \<times> hthread_attr" where
  "hthread_attr_setstacksize sz attr =
     (if sz < HTHREAD_STACK_MIN then (EINVAL, attr)
      else (SUCCESS, attr\<lparr>stack_size := sz\<rparr>))"

definition hthread_attr_getstacksize :: "hthread_attr \<Rightarrow> Hint \<times> Huint" where
  "hthread_attr_getstacksize attr = (SUCCESS, stack_size attr)"

definition hthread_attr_setstackaddr :: "Huint \<Rightarrow> hthread_attr \<Rightarrow> Hint \<times> hthread_attr" where
  "hthread_attr_setstackaddr stackaddr attr = (SUCCESS, attr\<lparr>stack_addr := stackaddr\<rparr>)"

definition hthread_attr_getstackaddr :: "hthread_attr \<Rightarrow> Hint \<times> Huint" where
  "hthread_attr_getstackaddr attr = (SUCCESS, stack_addr attr)"

definition hthread_attr_setstack :: "Huint \<Rightarrow> Huint \<Rightarrow> hthread_attr \<Rightarrow> Hint \<times> hthread_attr" where
  "hthread_attr_setstack addr sz attr =
     hthread_attr_setstacksize sz (snd (hthread_attr_setstackaddr addr attr))"

definition hthread_attr_getstack :: "hthread_attr \<Rightarrow> Hint \<times> Huint \<times> Huint" where
  "hthread_attr_getstack attr =
     (let addr = snd (hthread_attr_getstackaddr attr) in
      case hthread_attr_getstacksize attr of (sta, sz) \<Rightarrow> (sta, addr, sz))"

definition hthread_attr_setdetachstate :: "Hint \<Rightarrow> hthread_attr \<Rightarrow> Hint \<times> hthread_attr" where
  "hthread_attr_setdetachstate detachstate attr =
     (if detachstate = HTHREAD_CREATE_JOINABLE then (SUCCESS, attr\<lparr>detached := Hfalse\<rparr>)
      else if detachstate = HTHREAD_CREATE_DETACHED then (SUCCESS, attr\<lparr>detached := Htrue\<rparr>)
      else (EINVAL, attr))"

definition hthread_attr_getdetachstate :: "hthread_attr \<Rightarrow> Hint \<times> Hint" where
  "hthread_attr_getdetachstate attr =
     (SUCCESS, if detached attr \<noteq> 0 then HTHREAD_CREATE_DETACHED else HTHREAD_CREATE_JOINABLE)"

definition hthread_attr_setinheritsched :: "hthread_attr \<Rightarrow> Hint" where
  "hthread_attr_setinheritsched attr = ENOTSUP"

definition hthread_attr_getinheritsched :: "hthread_attr \<Rightarrow> Hint" where
  "hthread_attr_getinheritsched attr = ENOTSUP"

definition hthread_attr_setschedparam :: "Hint \<Rightarrow> hthread_attr \<Rightarrow> Hint \<times> hthread_attr" where
  "hthread_attr_setschedparam sched_priority attr =
     (if sint sched_priority < 0 \<or> sint sched_priority > HTHREAD_SCHEDPARAM_MAX then (EINVAL, attr)
      else (SUCCESS, attr\<lparr>sched_param := sched_priority\<rparr>))"

definition hthread_attr_getschedparam :: "hthread_attr \<Rightarrow> Hint \<times> Hint" where
  "hthread_attr_getschedparam attr = (SUCCESS, sched_param attr)"

definition hthread_attr_setschedpolicy :: "hthread_attr \<Rightarrow> Hint" where
  "hthread_attr_setschedpolicy attr = ENOTSUP"

definition hthread_attr_getschedpolicy :: "hthread_attr \<Rightarrow> Hint" where
  "hthread_attr_getschedpolicy attr = ENOTSUP"

definition hthread_attr_setscope :: "hthread_attr \<Rightarrow> Hint" where
  "hthread_attr_setscope attr = ENOTSUP"

definition hthread_attr_getscope :: "hthread_attr \<Rightarrow> Hint" where
  "hthread_attr_getscope attr = ENOTSUP"

definition hthread_attr_sethardware :: "Huint \<Rightarrow> hthread_attr \<Rightarrow> Hint \<times> hthread_attr" where
  "hthread_attr_sethardware baseaddr attr =
     (SUCCESS, attr\<lparr>hardware := Htrue, hardware_addr := baseaddr + HT_HWTI_COMMAND_OFFSET,
                    stack_size := 0, stack_addr := 0\<rparr>)"

section \<open>Thread management and scheduling (thread\_manag.c, thread\_sched.c)\<close>

definition do_syscall ::
  "env \<Rightarrow> Huint \<Rightarrow> Huint \<Rightarrow> Huint \<Rightarrow> Huint \<Rightarrow> Huint \<Rightarrow> kernel \<Rightarrow> (outcome \<times> kernel) option" where
  "do_syscall E c p2 p3 p4 p5 k = system_call_handler E c p2 p3 p4 p5 k"

definition hthread_default_attrs :: hthread_attr where
  "hthread_default_attrs = \<lparr>detached = Hfalse, hardware = Hfalse, hardware_addr = 0,
     stack_size = HT_STACK_SIZE, stack_addr = 0, sched_param = HT_DEFAULT_PRI\<rparr>"

text \<open>\<open>dflt\<close> is the address of the constant object \<^verbatim>\<open>_hthread_default_attrs\<close>.\<close>

definition hthread_create ::
  "env \<Rightarrow> Huint \<Rightarrow> Huint \<Rightarrow> Huint \<Rightarrow> Huint \<Rightarrow> Huint \<Rightarrow> kernel \<Rightarrow> (outcome \<times> kernel) option" where
  "hthread_create E dflt th attr start arg k =
     (let attr = (if attr = 0 then dflt else attr) in
      if th = 0 then Some (Returned EINVAL, k)
      else if start = 0 \<and> hardware (attr_heap k attr) \<noteq> Htrue then Some (Returned EINVAL, k)
      else do_syscall E 1 th attr start arg k)"

definition hthread_join :: "env \<Rightarrow> Huint \<Rightarrow> Huint \<Rightarrow> kernel \<Rightarrow> (outcome \<times> kernel) option" where
  "hthread_join E th ret = do_syscall E 2 th ret 0 0"

definition hthread_yield :: "env \<Rightarrow> kernel \<Rightarrow> (outcome \<times> kernel) option" where
  "hthread_yield E = do_syscall E 4 0 0 0 0"

text \<open>If the system call ever returns, \<^verbatim>\<open>hthread_exit\<close> loops for ever.\<close>

definition hthread_exit :: "env \<Rightarrow> Huint \<Rightarrow> kernel \<Rightarrow> (outcome \<times> kernel) option" where
  "hthread_exit E ret k =
     (case do_syscall E 5 ret 0 0 0 k of
        Some (Switched, k') \<Rightarrow> Some (Switched, k') | _ \<Rightarrow> None)"

definition hthread_equal :: "Huint \<Rightarrow> Huint \<Rightarrow> Hint" where
  "hthread_equal th1 th2 = (if th1 = th2 then 1 else 0)"

definition hthread_self :: "env \<Rightarrow> kernel \<Rightarrow> (outcome \<times> kernel) option" where
  "hthread_self E = do_syscall E 6 0 0 0 0"

definition hthread_sched :: "env \<Rightarrow> kernel \<Rightarrow> (outcome \<times> kernel) option" where
  "hthread_sched E = do_syscall E 16 0 0 0 0"

definition hthread_setschedparam :: "env \<Rightarrow> Huint \<Rightarrow> Hint \<Rightarrow> kernel \<Rightarrow> (outcome \<times> kernel) option" where
  "hthread_setschedparam E th sched_priority = do_syscall E 7 th sched_priority 0 0"

definition hthread_getschedparam ::
  "env \<Rightarrow> Huint \<Rightarrow> Huint \<Rightarrow> Huint \<Rightarrow> kernel \<Rightarrow> (outcome \<times> kernel) option" where
  "hthread_getschedparam E th policy pr k =
     do_syscall E 8 th pr 0 0 (if policy \<noteq> 0 then store E policy 0 k else k)"

section \<open>Thread-specific data and interrupts (thread\_specific.c, intr.c)\<close>

definition hthread_key_create :: "Huint \<Rightarrow> Hint" where "hthread_key_create key = ENOTSUP"

definition hthread_key_delete :: "Huint \<Rightarrow> Hint" where "hthread_key_delete key = ENOTSUP"

definition hthread_setspecific :: "Huint \<Rightarrow> Huint \<Rightarrow> Hint" where "hthread_setspecific key specific = ENOTSUP"

definition hthread_getspecific :: "Huint \<Rightarrow> Huint" where "hthread_getspecific key = 0"

definition hthread_intrassoc :: "env \<Rightarrow> Huint \<Rightarrow> kernel \<Rightarrow> (outcome \<times> kernel) option" where
  "hthread_intrassoc E iid = do_syscall E 9 iid 0 0 0"

definition hthread_cbis_init :: "env \<Rightarrow> Huint" where
  "hthread_cbis_init E = cbis_answer E (cbis_encode_cmd E 3 0 0)"

section \<open>Mutexes (mutex.c, mutex\_attr.c)\<close>

definition HTHREAD_MUTEX_FAST_NP :: Huint where "HTHREAD_MUTEX_FAST_NP = 0"

definition HTHREAD_MUTEX_ERRORCHECK_NP :: Huint where "HTHREAD_MUTEX_ERRORCHECK_NP = 2"

definition HTHREAD_MUTEX_DEFAULT :: Huint where "HTHREAD_MUTEX_DEFAULT = HTHREAD_MUTEX_FAST_NP"

definition hthread_mutexattr_init :: "hthread_mutexattr \<Rightarrow> Hint \<times> hthread_mutexattr" where
  "hthread_mutexattr_init attr = (SUCCESS, attr\<lparr>ma_num := 0, ma_type := HTHREAD_MUTEX_DEFAULT\<rparr>)"

definition hthread_mutexattr_destroy :: "hthread_mutexattr \<Rightarrow> Hint" where
  "hthread_mutexattr_destroy attr = SUCCESS"

definition hthread_mutexattr_setnum :: "Huint \<Rightarrow> hthread_mutexattr \<Rightarrow> Hint \<times> hthread_mutexattr" where
  "hthread_mutexattr_setnum num attr =
     (if num > HT_SEM_MAXNUM then (EINVAL, attr) else (SUCCESS, attr\<lparr>ma_num := num\<rparr>))"

definition hthread_mutexattr_getnum :: "hthread_mutexattr \<Rightarrow> Hint \<times> Huint" where
  "hthread_mutexattr_getnum attr = (SUCCESS, ma_num attr)"

definition hthread_mutexattr_settype :: "Huint \<Rightarrow> hthread_mutexattr \<Rightarrow> Hint \<times> hthread_mutexattr" where
  "hthread_mutexattr_settype type attr =
     (if type = HTHREAD_MUTEX_FAST_NP \<or> type = HTHREAD_MUTEX_RECURSIVE_NP \<or>
         type = HTHREAD_MUTEX_ERRORCHECK_NP
      then (SUCCESS, attr\<lparr>ma_type := type\<rparr>) else (EINVAL, attr))"

definition hthread_mutexattr_gettype :: "hthread_mutexattr \<Rightarrow> Hint \<times> Hint" where
  "hthread_mutexattr_gettype attr = (SUCCESS, ma_type attr)"

definition hthread_mutexattr_setpshared :: "Hint \<Rightarrow> Hint" where
  "hthread_mutexattr_setpshared pshared = ENOTSUP"

definition hthread_mutexattr_getpshared :: Hint where "hthread_mutexattr_getpshared = ENOTSUP"

definition hthread_mutexattr_setprotocol :: "Hint \<Rightarrow> Hint" where
  "hthread_mutexattr_setprotocol protocol = ENOTSUP"

definition hthread_mutexattr_getprotocol :: Hint where "hthread_mutexattr_getprotocol = ENOTSUP"

definition hthread_mutexattr_setprioceiling :: "Hint \<Rightarrow> Hint" where
  "hthread_mutexattr_setprioceiling ceil = ENOTSUP"

definition hthread_mutexattr_getprioceiling :: Hint where "hthread_mutexattr_getprioceiling = ENOTSUP"

definition hthread_mutex_init ::
  "env \<Rightarrow> Huint \<Rightarrow> hthread_mutexattr option \<Rightarrow> kernel \<Rightarrow> Hint \<times> kernel" where
  "hthread_mutex_init E mutex attr k =
     (let obj = (case attr of None \<Rightarrow> \<lparr>m_num = 0, m_type = HTHREAD_MUTEX_DEFAULT\<rparr>
                 | Some a \<Rightarrow> \<lparr>m_num = ma_num a, m_type = ma_type a\<rparr>);
          k1 = k\<lparr>mutex_heap := (mutex_heap k)(mutex := obj)\<rparr>
      in (SUCCESS, upd_mach (mutex_setkind (plat E) (m_num obj) (m_type obj)) k1))"

definition hthread_mutex_destroy :: "Huint \<Rightarrow> Hint" where "hthread_mutex_destroy mutex = SUCCESS"

definition hthread_mutex_setprioceiling :: "Huint \<Rightarrow> Hint \<Rightarrow> Hint" where
  "hthread_mutex_setprioceiling mutex ceil = ENOTSUP"

definition hthread_mutex_getprioceiling :: "Huint \<Rightarrow> Hint" where
  "hthread_mutex_getprioceiling mutex = ENOTSUP"

definition hthread_mutex_lock :: "env \<Rightarrow> Huint \<Rightarrow> kernel \<Rightarrow> (outcome \<times> kernel) option" where
  "hthread_mutex_lock E mutex = do_syscall E 10 mutex 0 0 0"

definition hthread_mutex_unlock :: "env \<Rightarrow> Huint \<Rightarrow> kernel \<Rightarrow> (outcome \<times> kernel) option" where
  "hthread_mutex_unlock E mutex = do_syscall E 11 mutex 0 0 0"

definition hthread_mutex_trylock :: "env \<Rightarrow> Huint \<Rightarrow> kernel \<Rightarrow> (outcome \<times> kernel) option" where
  "hthread_mutex_trylock E mutex = do_syscall E 12 mutex 0 0 0"

definition hthread_mutex_getnum :: "Huint \<Rightarrow> kernel \<Rightarrow> Hint" where
  "hthread_mutex_getnum mutex k = m_num (mutex_heap k mutex)"

section \<open>Condition variables (condition.c, condition\_attr.c)\<close>

definition hthread_condattr_init :: "hthread_condattr \<Rightarrow> Hint \<times> hthread_condattr" where
  "hthread_condattr_init attr = (SUCCESS, attr\<lparr>ca_num := 0\<rparr>)"

definition hthread_condattr_destroy :: "hthread_condattr \<Rightarrow> Hint" where
  "hthread_condattr_destroy attr = SUCCESS"

definition hthread_condattr_setnum :: "Huint \<Rightarrow> hthread_condattr \<Rightarrow> Hint \<times> hthread_condattr" where
  "hthread_condattr_setnum num attr =
     (if num > HT_CVR_MAXNUM then (EINVAL, attr) else (SUCCESS, attr\<lparr>ca_num := num\<rparr>))"

definition hthread_condattr_getnum :: "hthread_condattr \<Rightarrow> Hint \<times> Huint" where
  "hthread_condattr_getnum attr = (SUCCESS, ca_num attr)"

definition hthread_condattr_setpshared :: "Hint \<Rightarrow> Hint" where
  "hthread_condattr_setpshared pshared = ENOTSUP"

definition hthread_condattr_getpshared :: Hint where "hthread_condattr_getpshared = ENOTSUP"

definition hthread_cond_init :: "Huint \<Rightarrow> hthread_condattr option \<Rightarrow> kernel \<Rightarrow> Hint \<times> kernel" where
  "hthread_cond_init cond attr k =
     (SUCCESS, k\<lparr>cond_heap := (cond_heap k)
        (cond := \<lparr>c_num = (case attr of None \<Rightarrow> 0 | Some a \<Rightarrow> ca_num a)\<rparr>)\<rparr>)"

definition hthread_cond_destroy :: "Huint \<Rightarrow> Hint" where "hthread_cond_destroy cond = SUCCESS"

definition hthread_cond_signal :: "env \<Rightarrow> Huint \<Rightarrow> kernel \<Rightarrow> (outcome \<times> kernel) option" where
  "hthread_cond_signal E cond = do_syscall E 14 cond 0 0 0"

definition hthread_cond_broadcast :: "env \<Rightarrow> Huint \<Rightarrow> kernel \<Rightarrow> (outcome \<times> kernel) option" where
  "hthread_cond_broadcast E cond = do_syscall E 15 cond 0 0 0"

definition hthread_cond_wait :: "env \<Rightarrow> Huint \<Rightarrow> Huint \<Rightarrow> kernel \<Rightarrow> (outcome \<times> kernel) option" where
  "hthread_cond_wait E cond mutex = do_syscall E 13 cond mutex 0 0"

definition hthread_cond_getnum :: "Huint \<Rightarrow> kernel \<Rightarrow> Hint" where
  "hthread_cond_getnum cond k = c_num (cond_heap k cond)"

section \<open>Attributes\<close>

lemmas attr_ops =
  hthread_attr_init_def hthread_attr_destroy_def hthread_attr_setstacksize_def
  hthread_attr_getstacksize_def hthread_attr_setstackaddr_def hthread_attr_getstackaddr_def
  hthread_attr_setstack_def hthread_attr_getstack_def hthread_attr_setdetachstate_def
  hthread_attr_getdetachstate_def hthread_attr_setschedparam_def hthread_attr_getschedparam_def

text \<open>
  Thread attributes read back as they were set. A stack size below 128, a detach state
  other than the two constants and a priority outside 0 to 128 are refused as invalid
  (\<^verbatim>\<open>EINVAL\<close>): the field that was to be set keeps its value.
\<close>

theorem attr_roundtrip:
  "(case hthread_attr_setstack a n attr of (sta, attr') \<Rightarrow>
      if 128 \<le> n then sta = SUCCESS \<and> hthread_attr_getstack attr' = (SUCCESS, a, n)
      else sta = EINVAL \<and> stack_size attr' = stack_size attr) \<and>
   (case hthread_attr_setdetachstate d attr of (sta, attr') \<Rightarrow>
      if d = 1 \<or> d = 2 then sta = SUCCESS \<and> hthread_attr_getdetachstate attr' = (SUCCESS, d)
      else sta = EINVAL \<and> attr' = attr) \<and>
   (case hthread_attr_setschedparam p attr of (sta, attr') \<Rightarrow>
      if 0 \<le> sint p \<and> sint p \<le> 128
      then sta = SUCCESS \<and> hthread_attr_getschedparam attr' = (SUCCESS, p)
      else sta = EINVAL \<and> attr' = attr)"
  by (auto simp: attr_ops Let_def HTHREAD_STACK_MIN_def HTHREAD_CREATE_JOINABLE_def
      HTHREAD_CREATE_DETACHED_def HTHREAD_SCHEDPARAM_MAX_def Hfalse_def Htrue_def)

text \<open>
  The smallest stack size the attribute accepts cannot be used: after
  \<^verbatim>\<open>hthread_attr_setstacksize(128)\<close> has succeeded, creating a thread with these attributes
  returns \<^verbatim>\<open>EINVAL\<close> although a thread ID is free, and the ID is lost.
\<close>

theorem minimal_stack_is_unusable:
  assumes P: "platform_ok (plat E)" and ok: "ready_ok (kcores k) Q"
    and run: "running (entries (tm (kcores k)) (kcurrent k))"
    and free: "free_ids (tm (kcores k)) = t # ts"
    and a: "hthread_attr_setstacksize 128 (snd (hthread_attr_init undefined)) = (sta, attr)"
      "attr_heap k ap = attr" "ap \<noteq> 0" and th: "th \<noteq> 0" "start \<noteq> 0"
  shows "sta = SUCCESS \<and> (\<exists>k'. hthread_create E dflt th ap start arg k = Some (Returned EINVAL, k') \<and>
    free_ids (tm (kcores k')) = ts)"
proof -
  have attr: "sta = SUCCESS" "hardware attr \<noteq> Htrue" "stack_addr attr = 0" "stack_size attr \<le> HTHREAD_STACK_MIN"
    using a(1) by (auto simp: attr_ops HTHREAD_STACK_MIN_def Hfalse_def Htrue_def)
  obtain s k1 where c: "syscall_create E th ap start arg k = (EINVAL, k1)"
      "tm_create (detached attr \<noteq> 0) (tm (kcores k)) = (id_word t, s)" "kcores k1 = (kcores k)\<lparr>tm := s\<rparr>"
    using create_rejected [OF P ok run free a(2) attr(2-4)] by blast
  have "hthread_create E dflt th ap start arg k = Some (Returned EINVAL, k1)"
    using c(1) a(3) th by (simp add: hthread_create_def do_syscall_def system_call_handler_def finish_def)
  with attr(1) create_keeps_ready [OF ok free run [unfolded kcurrent_def] c(2)] c(3) show ?thesis by simp
qed

theorem minimal_stack_is_unusable_witness:
  "\<exists>k k'. hthread_create example_env 0x100 0x50000000 0x200 0x4000 7 k = Some (Returned EINVAL, k') \<and>
     free_ids (tm (kcores k)) = 2 # free_ids (tm (kcores k'))"
proof -
  obtain c ts where c: "ready_ok c ((\<lambda>_. [])(64 := [1]))" "is_current 0 (tm c)"
    "running (entries (tm c) 0)" "free_ids (tm c) = 2 # ts" using two_threads by metis
  define attr where "attr = snd (hthread_attr_setstacksize 128 (snd (hthread_attr_init undefined)))"
  define k where "k = (example_kernel c)\<lparr>attr_heap := \<lambda>_. attr\<rparr>"
  have kc: "kcores k = c" by (simp add: kcores_def example_kernel_def k_def)
  have h: "ready_ok (kcores k) ((\<lambda>_. [])(64 := [1]))" "running (entries (tm (kcores k)) (kcurrent k))"
      "free_ids (tm (kcores k)) = 2 # ts" unfolding kcurrent_def kc using c by (simp_all add: is_current_def)
  have a: "attr_heap k 0x200 = attr" by (simp add: k_def)
  obtain k' where "hthread_create example_env 0x100 0x50000000 0x200 0x4000 7 k = Some (Returned EINVAL, k')"
      "free_ids (tm (kcores k')) = ts"
    using minimal_stack_is_unusable [OF example_platform h surjective_pairing a [unfolded attr_def],
        of "0x50000000" "0x4000" "0x100" 7] by auto
  with h(3) show ?thesis by auto
qed

section \<open>Priorities beyond the scheduler's range\<close>

lemma publish_hardware:
  assumes P: "platform_ok (plat E)" and ok: "ready_ok (kcores k) Q"
    and t: "running (entries (tm (kcores k)) t)" "\<not> queue_bit (thread_ram (sch (kcores k)) t)"
      "\<not> sw_range v"
  shows "\<exists>m k'. on_mach (set_schedparam (plat E) (ucast t) v) k = (SUCCESS, m) \<and>
    on_mach (add_thread (plat E) (ucast t)) m = (0, k') \<and> ready_ok (kcores k') Q \<and>
    tm (kcores k') = tm (kcores k) \<and> mem (mach k') = (mem (mach k))(v := 1) \<and>
    (\<exists>i. k' = k\<lparr>mach := (mach k)\<lparr>cores := (kcores k)\<lparr>sch := (sch (kcores k))\<lparr>param_ram :=
       (param_ram (sch (kcores k)))(t := v)\<rparr>\<rparr>, irq := i, mem := (mem (mach k))(v := 1)\<rparr>\<rparr>)"
proof -
  let ?c = "kcores k" and ?s = "(sch (kcores k))\<lparr>param_ram := (param_ram (sch (kcores k)))(t := v)\<rparr>"
  have s: "snd (sch_set_schedparam (current (tm ?c)) True (e_pid (entries (tm ?c) t)) t v (sch ?c)) = ?s"
    using t(3) by (simp add: set_param_only)
  then obtain x where x: "sch_set_schedparam (current (tm ?c)) True (e_pid (entries (tm ?c) t)) t v (sch ?c) = (x, ?s)"
    by (metis prod.collapse)
  define m where "m = k\<lparr>mach := (mach k)\<lparr>cores := ?c\<lparr>sch := ?s\<rparr>, irq := irq (mach k) \<or> x\<rparr>\<rparr>"
  have 1: "on_mach (set_schedparam (plat E) (ucast t) v) k = (SUCCESS, m)"
    using P x t(1,2) by (simp add: on_mach_def hw_ops kcores_def running_def sch_check_schedparam_def m_def)
  have "tm_add t (?c\<lparr>sch := ?s\<rparr>) = (0, (Some v, False), ?c\<lparr>sch := ?s\<rparr>)"
    using t by (simp add: tm_add_def Let_def sch_is_queued_def do_enqueue_def sch_enqueue_def)
  then have 2: "on_mach (add_thread (plat E) (ucast t)) m =
      (0, m\<lparr>mach := (mach m)\<lparr>mem := (mem (mach k))(v := 1)\<rparr>\<rparr>)"
    using P by (simp add: on_mach_def hw_ops with_cores_def apply_events_def m_def)
  have "sched_repr ?s Q \<and> next_ok ?s Q"
    by (rule queues_frame [of "sch ?c"]) (use ready_ok_D(2,3) [OF ok] in simp_all)
  then have "ready_ok (?c\<lparr>sch := ?s\<rparr>) Q" using ok by (simp add: ready_ok_def)
  with 1 2 show ?thesis by (auto simp: m_def kcores_def)
qed

text \<open>
  The priority 128, which \<^verbatim>\<open>hthread_attr_setschedparam\<close> accepts, is not a priority for the
  scheduler: it takes the value for the address of a hardware thread. Creating a software
  thread with it reports success, but the thread is never put into the ready queue, and the
  word at address 128 is overwritten instead.
\<close>

theorem priority_128_never_ready:
  assumes P: "platform_ok (plat E)" and ok: "ready_ok (kcores k) Q"
    and run: "running (entries (tm (kcores k)) (kcurrent k))"
    and free: "free_ids (tm (kcores k)) = t # ts"
    and a: "hthread_attr_setschedparam 128 (snd (hthread_attr_init undefined)) = (sta, attr)"
      "attr_heap k ap = attr" "ap \<noteq> 0" and fit: "stacks_fit E"
    and th: "mem_addr (plat E) th" "th \<noteq> 0" "th \<noteq> 128" "start \<noteq> 0"
  shows "sta = SUCCESS \<and> (\<exists>k'. hthread_create E dflt th ap start arg k = Some (Returned SUCCESS, k') \<and>
    mem (mach k') th = ucast t \<and> ready_ok (kcores k') Q \<and> (\<forall>p. t \<notin> set (Q p)) \<and>
    mem (mach k') 128 = 1)"
proof -
  have attr: "sta = SUCCESS" "hardware attr \<noteq> Htrue" "stack_addr attr = 0" "sched_param attr = 128"
      "detached attr = 0" "HTHREAD_STACK_MIN < stack_size attr"
    using a(1) by (auto simp: attr_ops kernel_consts HT_DEFAULT_STACK_SIZE_def Hfalse_def Htrue_def
        HTHREAD_SCHEDPARAM_MAX_def)
  let ?c = "kcores k"
  obtain r s1 where c1: "tm_create False (tm ?c) = (r, s1)" by fastforce
  note cr = create_keeps_ready [OF ok free run [unfolded kcurrent_def] c1]
  define k1 where "k1 = k\<lparr>mach := (mach k)\<lparr>cores := ?c\<lparr>tm := s1\<rparr>\<rparr>\<rparr>"
  have st1: "on_mach (create_joinable (plat E)) k = (id_word t, k1)"
    using P c1 cr by (auto simp: on_mach_def hw_ops with_tm_def kcores_def k1_def)
  obtain k2 where st2: "setup_thread E (ucast t) attr start arg k1 = (SUCCESS, k2)" "mach k2 = mach k1"
    using setup_software [of attr "ucast t" E start arg k1] attr tid_in_range [of t] own_stack_nonzero [OF fit, of t]
    by auto
  have k2: "kcores k2 = ?c\<lparr>tm := s1\<rparr>" using st2(2) by (simp add: kcores_def k1_def)
  have "\<not> sw_range 128" by (simp add: sw_range_def)
  with publish_hardware [OF P, of k2 Q t 128] cr obtain m k3 where
    st3: "on_mach (set_schedparam (plat E) (ucast t) 128) k2 = (SUCCESS, m)"
      "on_mach (add_thread (plat E) (ucast t)) m = (0, k3)" "ready_ok (kcores k3) Q"
      "mem (mach k3) = (mem (mach k2))(128 := 1)" unfolding k2 by auto
  have "\<not> has_error 0" by (simp add: has_error_def)
  then have "syscall_create E th ap start arg k = (SUCCESS, store E th (ucast t) k3)"
    using attr st1 st2(1) st3 unfolding syscall_create_def Let_def a(2) by simp
  then have "hthread_create E dflt th ap start arg k = Some (Returned SUCCESS, store E th (ucast t) k3)"
    using a(3) th(2,4) by (simp add: hthread_create_def do_syscall_def system_call_handler_def finish_def)
  then show ?thesis
    using attr(1) st3 th cr ready_ok_D(6) [OF ok, of t] by (auto simp: store_mem [OF th(1)] kcores_def)
qed

theorem priority_128_never_ready_witness:
  "\<exists>k k'. hthread_create example_env 0x100 0x50000000 0x200 0x4000 7 k = Some (Returned SUCCESS, k') \<and>
     mem (mach k') 0x50000000 = 2 \<and> mem (mach k') 128 = 1"
proof -
  obtain c ts where c: "ready_ok c ((\<lambda>_. [])(64 := [1]))" "is_current 0 (tm c)"
    "running (entries (tm c) 0)" "free_ids (tm c) = 2 # ts" using two_threads by metis
  define attr where "attr = snd (hthread_attr_setschedparam 128 (snd (hthread_attr_init undefined)))"
  define k where "k = (example_kernel c)\<lparr>attr_heap := \<lambda>_. attr\<rparr>"
  have kc: "kcores k = c" by (simp add: kcores_def example_kernel_def k_def)
  have h: "ready_ok (kcores k) ((\<lambda>_. [])(64 := [1]))" "running (entries (tm (kcores k)) (kcurrent k))"
      "free_ids (tm (kcores k)) = 2 # ts" unfolding kcurrent_def kc using c by (simp_all add: is_current_def)
  have a: "attr_heap k 0x200 = attr" by (simp add: k_def)
  have m: "mem_addr (plat example_env) 0x50000000" by (simp add: mem_addr_def example_env_def window_def)
  obtain k' where "hthread_create example_env 0x100 0x50000000 0x200 0x4000 7 k = Some (Returned SUCCESS, k')"
      "mem (mach k') 0x50000000 = ucast (2 :: tid)" "mem (mach k') 128 = 1"
    using priority_128_never_ready [OF example_platform h surjective_pairing a [unfolded attr_def]
        _ example_stacks m, of "0x4000" "0x100" 7] by auto
  then show ?thesis by auto
qed

section \<open>Mutexes\<close>

text \<open>
  An error-checking mutex reports a thread that locks it twice: initialised with that
  type, locked once by the current thread and locked again, the second call returns
  \<^verbatim>\<open>FAILURE\<close> without blocking and the thread still owns the mutex exactly once.
\<close>

theorem errorcheck_mutex_detects_relock:
  assumes P: "platform_ok (plat E)" and A: "sync_repr (syncm (mach k)) A" "A m = ([], 0)"
    and m: "ma_num attr = num" "ucast num = m" "hthread_mutexattr_settype 2 attr = (sta, attr')"
    and init: "hthread_mutex_init E mutex (Some attr') k = (r, k1)"
  shows "sta = SUCCESS \<and> r = SUCCESS \<and> (\<exists>k2 k3. hthread_mutex_lock E mutex k1 = Some (Returned SUCCESS, k2) \<and>
    hthread_mutex_lock E mutex k2 = Some (Returned FAILURE, k3) \<and>
    m_owner (mutexes (syncm (mach k3)) m) = kcurrent k \<and> m_count (mutexes (syncm (mach k3)) m) = 1)"
proof -
  have attr': "sta = SUCCESS" "ma_num attr' = num" "ma_type attr' = 2"
    using m by (auto simp: hthread_mutexattr_settype_def HTHREAD_MUTEX_FAST_NP_def
        HTHREAD_MUTEX_RECURSIVE_NP_def HTHREAD_MUTEX_ERRORCHECK_NP_def)
  have cnt: "m_count (mutexes (syncm (mach k)) m) = 0"
    using mutex_repr_tests(1) [OF sync_repr_mutex [OF A(1), of m]] A(2) by simp
  let ?e = "(mutexes (syncm (mach k)) m)\<lparr>m_kind := 2\<rparr>"
  have k1: "r = SUCCESS" "syncm (mach k1) = (syncm (mach k))\<lparr>mutexes := (mutexes (syncm (mach k)))(m := ?e)\<rparr>"
      "cores (mach k1) = cores (mach k)" "m_num (mutex_heap k1 mutex) = num"
    using P init attr' m(2)
    by (auto simp: hthread_mutex_init_def Let_def upd_mach_def hw_ops kind_fsm_write_def)
  let ?t = "kcurrent k"
  let ?s = "(syncm (mach k1))\<lparr>mutexes := (mutexes (syncm (mach k1)))(m := ?e\<lparr>m_owner := ?t, m_next := ?t,
      m_last := ?t, m_count := 1\<rparr>)\<rparr>"
  have l1: "lock_fsm m ?t (syncm (mach k1)) = (0, ?s)" using cnt by (simp add: lock_fsm_def Let_def k1(2))
  have l2: "lock_fsm m ?t ?s = (data0, ?s)" by (simp add: lock_fsm_def Let_def SYNCH_ERROR_def)
  let ?k2 = "k1\<lparr>mach := (mach k1)\<lparr>syncm := ?s\<rparr>\<rparr>"
  have cur: "kcurrent k1 = ?t" "kcurrent ?k2 = ?t" using k1(3) by (simp_all add: kcurrent_def kcores_def)
  have step: "hthread_mutex_lock E mutex k' = Some (case lock_fsm m (kcurrent k') (syncm (mach k')) of
      (x, s) \<Rightarrow> (Returned (if x = SUCCESS then SUCCESS else FAILURE), k'\<lparr>mach := (mach k')\<lparr>syncm := s\<rparr>\<rparr>))"
    if "m_num (mutex_heap k' mutex) = num" "fst (lock_fsm m (kcurrent k') (syncm (mach k'))) \<noteq> HT_MUTEX_BLOCK"
    for k'
    using P that m(2) unfolding kcurrent_def kcores_def
    by (auto simp: hthread_mutex_lock_def do_syscall_def system_call_handler_def syscall_mutex_lock_def
        on_mach_def hw_ops split: prod.splits)
  have "hthread_mutex_lock E mutex k1 = Some (Returned SUCCESS, ?k2)"
    using step [of k1] l1 cur(1) k1(4) by (simp add: HT_MUTEX_BLOCK_def SUCCESS_def)
  moreover have "hthread_mutex_lock E mutex ?k2 = Some (Returned FAILURE, ?k2)"
    using step [of ?k2] l2 cur(2) k1(4) by (simp add: HT_MUTEX_BLOCK_def SUCCESS_def data0_def)
  ultimately show ?thesis using attr'(1) k1(1) by (intro conjI exI [of _ ?k2]) simp_all
qed

theorem errorcheck_mutex_detects_relock_witness:
  "\<exists>k1 k2 k3. hthread_mutex_init example_env 0x300 (Some \<lparr>ma_num = 5, ma_type = 2\<rparr>)
        (example_kernel cores_reset) = (SUCCESS, k1) \<and>
     hthread_mutex_lock example_env 0x300 k1 = Some (Returned SUCCESS, k2) \<and>
     hthread_mutex_lock example_env 0x300 k2 = Some (Returned FAILURE, k3)"
proof -
  let ?k = "example_kernel cores_reset" and ?a = "\<lparr>ma_num = 5, ma_type = 2\<rparr>"
  obtain r k1 where i: "hthread_mutex_init example_env 0x300 (Some ?a) ?k = (r, k1)" by fastforce
  have A: "sync_repr (syncm (mach ?k)) (\<lambda>_. ([], 0))" using sync_reset_repr by (simp add: example_kernel_def)
  have t: "hthread_mutexattr_settype 2 ?a = (SUCCESS, ?a)"
    by (simp add: hthread_mutexattr_settype_def HTHREAD_MUTEX_ERRORCHECK_NP_def)
  from errorcheck_mutex_detects_relock [OF example_platform A refl _ refl t i] i show ?thesis by auto
qed

text \<open>
  A user mutex can be the kernel's own lock: the highest number that
  \<^verbatim>\<open>hthread_mutexattr_setnum\<close> accepts is the number of the system call spin lock, so that
  while a thread holds a mutex with that number no other thread can take the spin lock in one
  attempt.
\<close>

theorem user_mutex_can_be_system_lock:
  assumes P: "platform_ok (plat E)" and A: "sync_repr (syncm (mach k)) A" "A m = (w # ws, n)"
    and m: "hthread_mutexattr_setnum num attr = (SUCCESS, attr')" "num = HT_SEM_MAXNUM"
      "m = ucast (ma_num attr')" and t: "t \<noteq> w"
  shows "sysc_lock_num = ma_num attr' \<and>
    on_mach (mutex_tryacquire (plat E) (ucast t) sysc_lock_num) k = (FAILURE, k)"
proof -
  have num: "sysc_lock_num = ma_num attr'"
    using m by (auto simp: hthread_mutexattr_setnum_def sysc_lock_num_def)
  have rep: "mutex_repr (tstore (syncm (mach k))) (mutexes (syncm (mach k)) m) (w # ws, n)"
    using sync_repr_mutex [OF A(1), of m] A(2) by simp
  then have "m_count (mutexes (syncm (mach k)) m) \<noteq> 0" "m_owner (mutexes (syncm (mach k)) m) = w"
    using mutex_repr_tests(1,3) [OF rep] by auto
  then have "trylock_fsm m t (syncm (mach k)) = (data1, syncm (mach k))"
    using t by (simp add: trylock_fsm_def Let_def)
  then show ?thesis
    using P m(3) num by (simp add: on_mach_def hw_ops data1_def)
qed

theorem user_mutex_can_be_system_lock_witness:
  "on_mach (mutex_tryacquire (plat example_env) (ucast (1 :: tid)) sysc_lock_num)
     ((example_kernel cores_reset)\<lparr>mach := (mach (example_kernel cores_reset))\<lparr>syncm :=
        snd (lock_fsm 58 0 sync_reset)\<rparr>\<rparr>) =
   (FAILURE, (example_kernel cores_reset)\<lparr>mach := (mach (example_kernel cores_reset))\<lparr>syncm :=
        snd (lock_fsm 58 0 sync_reset)\<rparr>\<rparr>)"
proof -
  define s where "s = snd (lock_fsm 58 0 sync_reset)"
  let ?k = "(example_kernel cores_reset)\<lparr>mach := (mach (example_kernel cores_reset))\<lparr>syncm := s\<rparr>\<rparr>"
  let ?a = "\<lparr>ma_num = 58, ma_type = 0\<rparr>" and ?A = "(\<lambda>_. ([], 0))(58 := ([0 :: tid], Suc 0))"
  have "sync_repr s ?A"
    using lock_free_refines [where m = 58 and t = 0 and c = 0, OF sync_reset_repr]
    unfolding s_def by simp
  moreover have "syncm (mach ?k) = s" by simp
  ultimately have A: "sync_repr (syncm (mach ?k)) ?A" by (simp only:)
  have a: "?A 58 = (0 # [], Suc 0)" by simp
  have n: "hthread_mutexattr_setnum 58 ?a = (SUCCESS, ?a)"
    by (simp add: hthread_mutexattr_setnum_def HT_SEM_MAXNUM_def)
  have h: "(58 :: Huint) = HT_SEM_MAXNUM" and c: "58 = ucast (ma_num ?a)" and t: "(1 :: tid) \<noteq> 0"
    by (simp_all add: HT_SEM_MAXNUM_def)
  show ?thesis
    using user_mutex_can_be_system_lock [OF example_platform A a n h c t] unfolding s_def by (rule conjunct2)
qed

end
