(* ===== verification/Block_Device.thy ===== *)
theory Block_Device
  imports Hthreads_Prelude "HOL-Library.Monad_Syntax"
begin

text \<open>
  What the drivers and the storage side of the system share: the byte order conversions of
  \<^verbatim>\<open>include/hthread/hendian.h\<close>, memory as the big-endian processor sees it, and the
  interface of \<^verbatim>\<open>include/drivers/block/block.h\<close>, through which the file system reads a
  device. \<open>block_device\<close> states what a client of that interface relies on; the lemmas of
  the locale show that a device with these laws is indistinguishable from a plain array of
  sectors.

  Functions that poll a device or loop over a directory are partial: \<open>None\<close> stands for a
  call that does not return or whose behaviour C leaves undefined (an access outside of an
  object, a division by zero).
\<close>

type_synonym Hubyte = "8 word"
type_synonym Hushort = "16 word"

section \<open>Byte order (hendian.h)\<close>

definition from_littles :: "Hushort \<Rightarrow> Hushort" where
  "from_littles n = drop_bit 8 n OR push_bit 8 n"

definition from_littlel :: "Huint \<Rightarrow> Huint" where
  "from_littlel n = drop_bit 24 n OR (drop_bit 8 n AND 0x0000FF00) OR
     (push_bit 8 n AND 0x00FF0000) OR (push_bit 24 n AND 0xFF000000)"

abbreviation "little_to_bigs \<equiv> from_littles"
abbreviation "little_to_bigl \<equiv> from_littlel"
abbreviation "big_to_littles \<equiv> from_littles"

section \<open>Memory\<close>

type_synonym memory = "nat \<Rightarrow> Hubyte"

definition be16 :: "Hubyte \<Rightarrow> Hubyte \<Rightarrow> Hushort" where
  "be16 a b = push_bit 8 (ucast a) OR ucast b"

definition be32 :: "Hubyte \<Rightarrow> Hubyte \<Rightarrow> Hubyte \<Rightarrow> Hubyte \<Rightarrow> Huint" where
  "be32 a b c d = push_bit 24 (ucast a) OR push_bit 16 (ucast b) OR push_bit 8 (ucast c) OR ucast d"

definition load16 :: "memory \<Rightarrow> nat \<Rightarrow> Hushort" where
  "load16 m a = be16 (m a) (m (a + 1))"

definition load32 :: "memory \<Rightarrow> nat \<Rightarrow> Huint" where
  "load32 m a = be32 (m a) (m (a + 1)) (m (a + 2)) (m (a + 3))"

definition store16 :: "nat \<Rightarrow> Hushort \<Rightarrow> memory \<Rightarrow> memory" where
  "store16 a v m = m(a := ucast (drop_bit 8 v), a + 1 := ucast v)"

definition store32 :: "nat \<Rightarrow> Huint \<Rightarrow> memory \<Rightarrow> memory" where
  "store32 a v m = m(a := ucast (drop_bit 24 v), a + 1 := ucast (drop_bit 16 v),
     a + 2 := ucast (drop_bit 8 v), a + 3 := ucast v)"

definition put_bytes :: "nat \<Rightarrow> Hubyte list \<Rightarrow> memory \<Rightarrow> memory" where
  "put_bytes a bs m = (\<lambda>i. if a \<le> i \<and> i < a + length bs then bs ! (i - a) else m i)"

definition get_bytes :: "nat \<Rightarrow> nat \<Rightarrow> memory \<Rightarrow> Hubyte list" where
  "get_bytes a n m = map m [a..<a + n]"

text \<open>
  A device behind 32-bit registers: what reading and writing a register at a bus address does
  to the state \<open>'d\<close> of the device.
\<close>

record 'd reg_bus =
  rd32 :: "Huint \<Rightarrow> 'd \<Rightarrow> Huint \<times> 'd"
  wr32 :: "Huint \<Rightarrow> Huint \<Rightarrow> 'd \<Rightarrow> 'd"

lemma bit_byte_less: "bit (b :: Hubyte) n \<Longrightarrow> n < 8"
  using bit_imp_le_length [of b n] by simp

lemma byte_masks:
  "bit (0xFF00 :: Huint) n \<longleftrightarrow> 8 \<le> n \<and> n < 16"
  "bit (0xFF0000 :: Huint) n \<longleftrightarrow> 16 \<le> n \<and> n < 24"
  "bit (0xFF000000 :: Huint) n \<longleftrightarrow> 24 \<le> n \<and> n < 32"
proof -
  have byte: "bit (push_bit k (mask 8) :: Huint) n \<longleftrightarrow> k \<le> n \<and> n < k + 8" if "k + 8 \<le> 32" for k
    using that by (auto simp: bit_push_bit_iff bit_mask_iff)
  have "(0xFF00 :: Huint) = push_bit 8 (mask 8)" "(0xFF0000 :: Huint) = push_bit 16 (mask 8)"
      "(0xFF000000 :: Huint) = push_bit 24 (mask 8)"
    by (simp_all add: mask_eq_exp_minus_1)
  then show "bit (0xFF00 :: Huint) n \<longleftrightarrow> 8 \<le> n \<and> n < 16" "bit (0xFF0000 :: Huint) n \<longleftrightarrow> 16 \<le> n \<and> n < 24"
      "bit (0xFF000000 :: Huint) n \<longleftrightarrow> 24 \<le> n \<and> n < 32"
    using byte [of 8] byte [of 16] byte [of 24] by (simp_all only:) simp_all
qed

lemma bit_be16: "bit (be16 x y) n \<longleftrightarrow> (if n < 8 then bit y n else n < 16 \<and> bit x (n - 8))"
  by (auto simp: be16_def bit_simps dest: bit_byte_less)

lemma bit_be32: "bit (be32 x y z w) n \<longleftrightarrow> (if n < 8 then bit w n else if n < 16 then bit z (n - 8)
    else if n < 24 then bit y (n - 16) else n < 32 \<and> bit x (n - 24))"
  by (auto simp: be32_def bit_simps dest: bit_byte_less)

lemma bit_from_littles: "bit (from_littles v) n \<longleftrightarrow> (if n < 8 then bit v (n + 8) else n < 16 \<and> bit v (n - 8))"
  using bit_imp_le_length [of v "n + 8"] by (auto simp: from_littles_def bit_simps add.commute)

lemma bit_from_littlel: "bit (from_littlel v) n \<longleftrightarrow> (if n < 8 then bit v (n + 24) else if n < 16 then bit v (n + 8)
    else if n < 24 then bit v (n - 8) else n < 32 \<and> bit v (n - 24))"
proof -
  have "\<not> bit v (n + 24)" if "8 \<le> n" using bit_imp_le_length [of v "n + 24"] that by auto
  moreover have "bit (from_littlel v) n \<longleftrightarrow> bit v (24 + n) \<or> bit v (8 + n) \<and> 8 \<le> n \<and> n < 16 \<or>
      (8 \<le> n \<and> bit v (n - 8)) \<and> 16 \<le> n \<and> n < 24 \<or> (24 \<le> n \<and> bit v (n - 24)) \<and> 24 \<le> n \<and> n < 32"
    unfolding from_littlel_def bit_or_iff bit_and_iff bit_drop_bit_eq byte_masks
    by (auto simp: bit_push_bit_iff)
  ultimately show ?thesis by (auto simp: add.commute)
qed

lemma from_littles_be16 [simp]: "from_littles (be16 x y) = be16 y x"
  by (rule bit_word_eqI) (auto simp: bit_be16 bit_from_littles)

lemma from_littlel_be32 [simp]: "from_littlel (be32 x y z w) = be32 w z y x"
  by (rule bit_word_eqI) (auto simp: bit_be32 bit_from_littlel)

lemma from_littles_involution [simp]: "from_littles (from_littles n) = n"
  by (rule bit_word_eqI) (auto simp: bit_from_littles)

lemma bytes_be16 [simp]: "ucast (drop_bit 8 (be16 x y)) = x" "ucast (be16 x y) = y"
  by (rule bit_word_eqI; auto simp: bit_be16 bit_simps)+

lemma bytes_be32 [simp]: "ucast (drop_bit 24 (be32 x y z w)) = x" "ucast (drop_bit 16 (be32 x y z w)) = y"
    "ucast (drop_bit 8 (be32 x y z w)) = z" "ucast (be32 x y z w) = w"
  by (rule bit_word_eqI; auto simp: bit_be32 bit_simps)+

text \<open>Converting a field in place exchanges its bytes.\<close>

lemma convert16: "store16 a (from_littles (load16 m a)) m = m(a := m (a + 1), a + 1 := m a)"
  by (simp add: store16_def load16_def)

lemma convert32: "store32 a (from_littlel (load32 m a)) m =
  m(a := m (a + 3), a + 1 := m (a + 2), a + 2 := m (a + 1), a + 3 := m a)"
  by (simp add: store32_def load32_def)

lemma length_get_bytes [simp]: "length (get_bytes a n m) = n"
  by (simp add: get_bytes_def)

lemma get_put_same [simp]: "get_bytes a (length bs) (put_bytes a bs m) = bs"
  by (rule nth_equalityI) (simp_all add: get_bytes_def put_bytes_def)

lemma get_put_other: "a + n \<le> b \<or> b + length bs \<le> a \<Longrightarrow> get_bytes a n (put_bytes b bs m) = get_bytes a n m"
  by (rule nth_equalityI) (auto simp: get_bytes_def put_bytes_def)

section \<open>Block devices (block.h)\<close>

text \<open>
  \<^verbatim>\<open>block_t\<close> holds two function pointers and the driver's own data \<open>'s\<close>:
  \<^verbatim>\<open>read(block, start, num, buffer)\<close> returns a status and fills the buffer,
  \<^verbatim>\<open>write(block, start, num, buffer)\<close> returns a status.
\<close>

type_synonym 's block_read = "'s \<Rightarrow> Huint \<Rightarrow> Huint \<Rightarrow> (Hint \<times> Hubyte list \<times> 's) option"
type_synonym 's block_write = "'s \<Rightarrow> Huint \<Rightarrow> Huint \<Rightarrow> Hubyte list \<Rightarrow> (Hint \<times> 's) option"

text \<open>A disk is an array of sectors of 512 bytes.\<close>

type_synonym disk = "Huint \<Rightarrow> Hubyte list"

definition disk_read :: "disk \<Rightarrow> Huint \<Rightarrow> Huint \<Rightarrow> Hubyte list" where
  "disk_read D start num = concat (map (\<lambda>i. D (start + of_nat i)) [0..<unat num])"

definition disk_write :: "Huint \<Rightarrow> Huint \<Rightarrow> Hubyte list \<Rightarrow> disk \<Rightarrow> disk" where
  "disk_write start num bs D = (\<lambda>i. if unat (i - start) < unat num
     then take 512 (drop (512 * unat (i - start)) bs) else D i)"

datatype block_op = Read Huint Huint | Write Huint Huint "Hubyte list"

fun op_within :: "nat \<Rightarrow> block_op \<Rightarrow> bool" where
  "op_within n (Read start num) = (unat start + unat num \<le> n)"
| "op_within n (Write start num bs) = (unat start + unat num \<le> n \<and> length bs = 512 * unat num)"

fun disk_run :: "block_op list \<Rightarrow> disk \<Rightarrow> Hubyte list list" where
  "disk_run [] D = []"
| "disk_run (Read start num # ops) D = disk_read D start num # disk_run ops D"
| "disk_run (Write start num bs # ops) D = [] # disk_run ops (disk_write start num bs D)"

fun block_run :: "'s block_read \<Rightarrow> 's block_write \<Rightarrow> block_op list \<Rightarrow> 's \<Rightarrow> ((Hint \<times> Hubyte list) list \<times> 's) option" where
  "block_run rd wr [] s = Some ([], s)"
| "block_run rd wr (Read start num # ops) s =
     do { (res, bs, s1) \<leftarrow> rd s start num; (rs, s2) \<leftarrow> block_run rd wr ops s1; Some ((res, bs) # rs, s2) }"
| "block_run rd wr (Write start num bs # ops) s =
     do { (res, s1) \<leftarrow> wr s start num bs; (rs, s2) \<leftarrow> block_run rd wr ops s1; Some ((res, []) # rs, s2) }"

lemma disk_read_1 [simp]: "disk_read D i 1 = D i"
  by (simp add: disk_read_def)

lemma length_disk_read: "(\<And>i. length (D i) = 512) \<Longrightarrow> length (disk_read D start num) = 512 * unat num"
  by (simp add: disk_read_def length_concat comp_def sum_list_triv)

locale block_device =
  fixes rd :: "'s block_read" and wr :: "'s block_write"
    and dev_ok :: "'s \<Rightarrow> bool" and sector :: "'s \<Rightarrow> disk" and nsectors :: "'s \<Rightarrow> nat"
  assumes rd_ok: "\<lbrakk>dev_ok s; unat start + unat num \<le> nsectors s\<rbrakk> \<Longrightarrow>
      \<exists>s'. rd s start num = Some (SUCCESS, disk_read (sector s) start num, s') \<and>
        dev_ok s' \<and> sector s' = sector s \<and> nsectors s' = nsectors s"
    and wr_ok: "\<lbrakk>dev_ok s; unat start + unat num \<le> nsectors s; length bs = 512 * unat num\<rbrakk> \<Longrightarrow>
      \<exists>s'. wr s start num bs = Some (SUCCESS, s') \<and>
        dev_ok s' \<and> sector s' = disk_write start num bs (sector s) \<and> nsectors s' = nsectors s"
    and sector_length: "dev_ok s \<Longrightarrow> length (sector s i) = 512"
begin

lemma rd_sector:
  assumes "dev_ok s" "unat i < nsectors s"
  obtains s' where "rd s i 1 = Some (SUCCESS, sector s i, s')" "dev_ok s'" "sector s' = sector s" "nsectors s' = nsectors s"
  using rd_ok [of s i 1] assms by auto

text \<open>Whatever sequence of reads and writes is issued, the answers are those of a plain disk.\<close>

lemma run_is_disk_run:
  "\<lbrakk>dev_ok s; list_all (op_within (nsectors s)) ops\<rbrakk> \<Longrightarrow>
   \<exists>s'. block_run rd wr ops s = Some (map (\<lambda>bs. (SUCCESS, bs)) (disk_run ops (sector s)), s') \<and> dev_ok s'"
proof (induction ops arbitrary: s)
  case (Cons x ops)
  then show ?case
  proof (cases x)
    case (Read start num)
    then obtain s1 where "rd s start num = Some (SUCCESS, disk_read (sector s) start num, s1)"
        "dev_ok s1" "sector s1 = sector s" "nsectors s1 = nsectors s"
      using rd_ok [of s start num] Cons.prems by auto
    then show ?thesis using Cons.IH [of s1] Cons.prems Read by auto
  next
    case (Write start num bs)
    then obtain s1 where "wr s start num bs = Some (SUCCESS, s1)"
        "dev_ok s1" "sector s1 = disk_write start num bs (sector s)" "nsectors s1 = nsectors s"
      using wr_ok [of s start num bs] Cons.prems by auto
    then show ?thesis using Cons.IH [of s1] Cons.prems Write by auto
  qed
qed simp

end

end
