(* ===== verification/Sysace.thy ===== *)
theory Sysace
  imports Block_Device
begin

text \<open>
  The driver of the SystemACE CompactFlash controller: register access
  (\<^verbatim>\<open>include/drivers/sysace/regs.h\<close>), the controller (\<^verbatim>\<open>sysace.c\<close>), its configuration
  port (\<^verbatim>\<open>cfg.c\<close>) and sector transfers (\<^verbatim>\<open>cf.c\<close>, all under
  \<^verbatim>\<open>src/software/drivers/sysace\<close>). The chip itself is not part of the repository: it is the
  parameter \<open>C\<close>, two functions that read and write a 16-bit register at a bus address and
  may change the chip's state \<open>'d\<close>. \<open>chip_ok\<close> states what its data sheet promises of a card
  without errors. The polling loops are partial; the lemmas show that they end on such a chip.
\<close>

section \<open>Registers (regs.h)\<close>

record 'd chip =
  rd16 :: "Huint \<Rightarrow> 'd \<Rightarrow> Hushort \<times> 'd"
  wr16 :: "Huint \<Rightarrow> Hushort \<Rightarrow> 'd \<Rightarrow> 'd"

text \<open>\<^verbatim>\<open>sysace_t\<close>: the addresses of the registers, two for those of 32 bits.\<close>

record sysace =
  mode :: "Huint \<times> Huint"
  control :: "Huint \<times> Huint"
  error :: "Huint \<times> Huint"
  status :: "Huint \<times> Huint"
  version :: Huint
  count_reg :: Huint
  fat_reg :: Huint
  data_reg :: Huint
  clba :: "Huint \<times> Huint"
  mlba :: "Huint \<times> Huint"

definition sysace_setreg32 :: "'d chip \<Rightarrow> Huint \<times> Huint \<Rightarrow> Huint \<Rightarrow> 'd \<Rightarrow> 'd" where
  "sysace_setreg32 C reg v d =
     wr16 C (snd reg) (big_to_littles (ucast (drop_bit 16 v))) (wr16 C (fst reg) (big_to_littles (ucast v)) d)"

definition sysace_getreg32 :: "'d chip \<Rightarrow> Huint \<times> Huint \<Rightarrow> 'd \<Rightarrow> Huint \<times> 'd" where
  "sysace_getreg32 C reg d =
     (let (lo, d) = rd16 C (fst reg) d; (hi, d) = rd16 C (snd reg) d
      in (ucast (little_to_bigs lo) OR push_bit 16 (ucast (little_to_bigs hi)), d))"

definition sysace_orreg32 :: "'d chip \<Rightarrow> Huint \<times> Huint \<Rightarrow> Huint \<Rightarrow> 'd \<Rightarrow> 'd" where
  "sysace_orreg32 C reg msk d = (let (r, d) = sysace_getreg32 C reg d in sysace_setreg32 C reg (r OR msk) d)"

definition sysace_andreg32 :: "'d chip \<Rightarrow> Huint \<times> Huint \<Rightarrow> Huint \<Rightarrow> 'd \<Rightarrow> 'd" where
  "sysace_andreg32 C reg msk d = (let (r, d) = sysace_getreg32 C reg d in sysace_setreg32 C reg (r AND msk) d)"

definition sysace_setreg16 :: "'d chip \<Rightarrow> Huint \<Rightarrow> Hushort \<Rightarrow> 'd \<Rightarrow> 'd" where
  "sysace_setreg16 C reg v d = wr16 C reg (big_to_littles v) d"

definition sysace_getreg16 :: "'d chip \<Rightarrow> Huint \<Rightarrow> 'd \<Rightarrow> Hushort \<times> 'd" where
  "sysace_getreg16 C reg d = (let (v, d) = rd16 C reg d in (little_to_bigs v, d))"

abbreviation "sysace_getversion C ace \<equiv> sysace_getreg16 C (version ace)"
abbreviation "sysace_getstatus C ace \<equiv> sysace_getreg32 C (status ace)"
abbreviation "sysace_geterror C ace \<equiv> sysace_getreg32 C (error ace)"
abbreviation "sysace_getcontrol C ace \<equiv> sysace_getreg32 C (control ace)"
abbreviation "sysace_getdata C ace \<equiv> sysace_getreg16 C (data_reg ace)"
abbreviation "sysace_setdata C ace \<equiv> sysace_setreg16 C (data_reg ace)"
abbreviation "sysace_setsector C ace \<equiv> sysace_setreg16 C (count_reg ace)"
abbreviation "sysace_setmlba C ace \<equiv> sysace_setreg32 C (mlba ace)"

definition DELAY_CTRL :: "'d chip \<Rightarrow> sysace \<Rightarrow> 'd \<Rightarrow> 'd" where
  "DELAY_CTRL C ace d = ((\<lambda>d. snd (sysace_getversion C ace d)) ^^ 4) d"

definition sysace_setcontrol :: "'d chip \<Rightarrow> sysace \<Rightarrow> Huint \<Rightarrow> 'd \<Rightarrow> 'd" where
  "sysace_setcontrol C ace v d = DELAY_CTRL C ace (sysace_setreg32 C (control ace) v d)"

definition sysace_orcontrol :: "'d chip \<Rightarrow> sysace \<Rightarrow> Huint \<Rightarrow> 'd \<Rightarrow> 'd" where
  "sysace_orcontrol C ace msk d = DELAY_CTRL C ace (sysace_orreg32 C (control ace) msk d)"

definition sysace_andcontrol :: "'d chip \<Rightarrow> sysace \<Rightarrow> Huint \<Rightarrow> 'd \<Rightarrow> 'd" where
  "sysace_andcontrol C ace msk d = DELAY_CTRL C ace (sysace_andreg32 C (control ace) msk d)"

section \<open>Controller (sysace.c, cfg.c)\<close>

definition SYSACE_STATUS_MLOCK :: Huint where "SYSACE_STATUS_MLOCK = 0x2"

definition SYSACE_STATUS_DREADY :: Huint where "SYSACE_STATUS_DREADY = 0x20"

definition SYSACE_STATUS_CREADY :: Huint where "SYSACE_STATUS_CREADY = 0x100"

definition SYSACE_CONTROL_RLOCK :: Huint where "SYSACE_CONTROL_RLOCK = 0x2"

definition SYSACE_CONTROL_RESET :: Huint where "SYSACE_CONTROL_RESET = 0x80"

definition SYSACE_CONTROL_RESETI :: Huint where "SYSACE_CONTROL_RESETI = 0x800"

definition SYSACE_CONTROL_IMASK :: Huint where "SYSACE_CONTROL_IMASK = 0x700"

definition SYSACE_DATA_BUFFER :: Huint where "SYSACE_DATA_BUFFER = 32"

definition SYSACE_DATA_SECTOR :: Huint where "SYSACE_DATA_SECTOR = 512"

definition SYSACE_BUSMODE_16BIT :: Hushort where "SYSACE_BUSMODE_16BIT = 0x0101"

definition EDEADLK :: Hint where "EDEADLK = 45"

definition EIO :: Hint where "EIO = 5"

text \<open>\<open>while(!(sysace_getstatus(ace) & mask));\<close>\<close>

partial_function (option) wait_status :: "'d chip \<Rightarrow> sysace \<Rightarrow> Huint \<Rightarrow> 'd \<Rightarrow> 'd option" where
  "wait_status C ace msk d =
     (let (st, d) = sysace_getstatus C ace d in
      if st AND msk \<noteq> 0 then Some d else wait_status C ace msk d)"

text \<open>\<open>while(!(sysace_getstatus(ace) & SYSACE_STATUS_DREADY) && !sysace_geterror(ace));\<close>\<close>

partial_function (option) wait_data :: "'d chip \<Rightarrow> sysace \<Rightarrow> 'd \<Rightarrow> 'd option" where
  "wait_data C ace d =
     (let (st, d) = sysace_getstatus C ace d in
      if st AND SYSACE_STATUS_DREADY \<noteq> 0 then Some d
      else let (er, d) = sysace_geterror C ace d in if er \<noteq> 0 then Some d else wait_data C ace d)"

definition sysace_version :: "'d chip \<Rightarrow> sysace \<Rightarrow> 'd \<Rightarrow> Hushort \<times> 'd" where
  "sysace_version C ace d = sysace_getversion C ace d"

definition sysace_lock :: "'d chip \<Rightarrow> sysace \<Rightarrow> 'd \<Rightarrow> (Hint \<times> 'd) option" where
  "sysace_lock C ace d =
     do { d \<leftarrow> wait_status C ace SYSACE_STATUS_MLOCK (sysace_orcontrol C ace SYSACE_CONTROL_RLOCK d);
          Some (SUCCESS, d) }"

definition sysace_unlock :: "'d chip \<Rightarrow> sysace \<Rightarrow> 'd \<Rightarrow> Hint \<times> 'd" where
  "sysace_unlock C ace d = (SUCCESS, sysace_andcontrol C ace (NOT SYSACE_CONTROL_RLOCK) d)"

definition sysace_busmode :: "'d chip \<Rightarrow> sysace \<Rightarrow> Hushort \<Rightarrow> 'd \<Rightarrow> Hint \<times> 'd" where
  "sysace_busmode C ace v d = (SUCCESS, sysace_setreg16 C (fst (mode ace)) v d)"

definition sysace_enable :: "'d chip \<Rightarrow> sysace \<Rightarrow> Huint \<Rightarrow> 'd \<Rightarrow> Hint \<times> 'd" where
  "sysace_enable C ace intr d = (SUCCESS, sysace_orcontrol C ace (intr AND SYSACE_CONTROL_IMASK) d)"

definition sysace_disable :: "'d chip \<Rightarrow> sysace \<Rightarrow> Huint \<Rightarrow> 'd \<Rightarrow> Hint \<times> 'd" where
  "sysace_disable C ace intr d = (SUCCESS, sysace_andcontrol C ace (NOT (intr AND SYSACE_CONTROL_IMASK)) d)"

text \<open>One full buffer: sixteen words, low byte first.\<close>

primrec read_words :: "'d chip \<Rightarrow> sysace \<Rightarrow> nat \<Rightarrow> 'd \<Rightarrow> Hubyte list \<times> 'd" where
  "read_words C ace 0 d = ([], d)"
| "read_words C ace (Suc n) d =
     (let (v, d) = sysace_getdata C ace d; (bs, d) = read_words C ace n d
      in (ucast v # ucast (drop_bit 8 v) # bs, d))"

primrec read_buffers :: "'d chip \<Rightarrow> sysace \<Rightarrow> nat \<Rightarrow> 'd \<Rightarrow> (Hubyte list \<times> 'd) option" where
  "read_buffers C ace 0 d = Some ([], d)"
| "read_buffers C ace (Suc n) d =
     do { d \<leftarrow> wait_status C ace SYSACE_STATUS_DREADY d;
          let (bs, d) = read_words C ace 16 d;
          (bs', d) \<leftarrow> read_buffers C ace n (DELAY_CTRL C ace d);
          Some (bs @ bs', d) }"

text \<open>The loop over a last, partial buffer; \<open>left\<close> is what is still wanted.\<close>

primrec read_rest :: "'d chip \<Rightarrow> sysace \<Rightarrow> nat \<Rightarrow> nat \<Rightarrow> 'd \<Rightarrow> Hubyte list \<times> 'd" where
  "read_rest C ace 0 left d = ([], d)"
| "read_rest C ace (Suc j) left d =
     (let (er, d) = sysace_geterror C ace d in
      if er \<noteq> 0 then ([], d)
      else let (v, d) = sysace_getdata C ace d;
               got = take left [ucast v, ucast (drop_bit 8 v)];
               (bs, d) = read_rest C ace j (left - length got) d
           in (got @ bs, d))"

text \<open>Returns the bytes that were stored; the C function returns their number.\<close>

definition sysace_readbuffer :: "'d chip \<Rightarrow> sysace \<Rightarrow> Huint \<Rightarrow> 'd \<Rightarrow> (Huint \<times> Hubyte list \<times> 'd) option" where
  "sysace_readbuffer C ace sz d =
     do { (bs, d) \<leftarrow> read_buffers C ace (unat (sz div SYSACE_DATA_BUFFER)) d;
          if length bs < unat sz
          then do { d \<leftarrow> wait_data C ace d;
                    let (bs', d) = read_rest C ace 32 (unat sz - length bs) d;
                    Some (of_nat (length (bs @ bs')), bs @ bs', d) }
          else Some (of_nat (length bs), bs, d) }"

text \<open>\<open>write_words C ace n bs d\<close>: up to \<open>n\<close> words; the flag tells that no error stopped it.\<close>

primrec write_words :: "'d chip \<Rightarrow> sysace \<Rightarrow> nat \<Rightarrow> Hubyte list \<Rightarrow> 'd \<Rightarrow> nat \<times> bool \<times> 'd" where
  "write_words C ace 0 bs d = (0, True, d)"
| "write_words C ace (Suc n) bs d =
     (let (er, d) = sysace_geterror C ace d in
      if er \<noteq> 0 then (0, False, d)
      else let d = sysace_setdata C ace (ucast (bs ! 0) OR push_bit 8 (ucast (bs ! 1))) d;
               (k, ok, d) = write_words C ace n (drop 2 bs) d
           in (k + 2, ok, d))"

primrec write_buffers :: "'d chip \<Rightarrow> sysace \<Rightarrow> nat \<Rightarrow> Hubyte list \<Rightarrow> 'd \<Rightarrow> (nat \<times> bool \<times> 'd) option" where
  "write_buffers C ace 0 bs d = Some (0, True, d)"
| "write_buffers C ace (Suc n) bs d =
     do { d \<leftarrow> wait_data C ace d;
          let (k, ok, d) = write_words C ace 16 bs d;
          if ok then do { (k', ok, d) \<leftarrow> write_buffers C ace n (drop 32 bs) d; Some (k + k', ok, d) }
          else Some (k, False, d) }"

primrec write_rest :: "'d chip \<Rightarrow> sysace \<Rightarrow> nat \<Rightarrow> Hubyte list \<Rightarrow> 'd \<Rightarrow> nat \<times> 'd" where
  "write_rest C ace 0 bs d = (0, d)"
| "write_rest C ace (Suc j) bs d =
     (let (er, d) = sysace_geterror C ace d in
      if er \<noteq> 0 then (0, d)
      else let v = (case bs of [] \<Rightarrow> 0 | [x] \<Rightarrow> ucast x | x # y # _ \<Rightarrow> ucast x OR push_bit 8 (ucast y));
               d = sysace_setdata C ace v d;
               (k, d) = write_rest C ace j (drop 2 bs) d
           in (min 2 (length bs) + k, d))"

text \<open>\<open>bs\<close> are the bytes at \<^verbatim>\<open>buffer\<close>, at least \<open>sz\<close> of them.\<close>

definition sysace_writebuffer :: "'d chip \<Rightarrow> sysace \<Rightarrow> Hubyte list \<Rightarrow> Huint \<Rightarrow> 'd \<Rightarrow> (Huint \<times> 'd) option" where
  "sysace_writebuffer C ace bs sz d =
     do { (k, ok, d) \<leftarrow> write_buffers C ace (unat (sz div SYSACE_DATA_BUFFER)) bs d;
          if ok \<and> k < unat sz
          then do { d \<leftarrow> wait_data C ace d;
                    let (k', d) = write_rest C ace 32 (take (unat sz - k) (drop k bs)) d;
                    Some (of_nat (k + k'), d) }
          else Some (of_nat k, d) }"

text \<open>
  \<open>flush_loop C ace num done d\<close>: the two nested loops of \<^verbatim>\<open>sysace_flushbuffer\<close>, one status
  read per step; leaving the inner loop increments \<open>done\<close>.
\<close>

partial_function (option) flush_loop :: "'d chip \<Rightarrow> sysace \<Rightarrow> Huint \<Rightarrow> Huint \<Rightarrow> 'd \<Rightarrow> (Huint \<times> 'd) option" where
  "flush_loop C ace num dn d =
     (if dn < 100 then
        let (st, d) = sysace_getstatus C ace d in
        if st AND SYSACE_STATUS_DREADY \<noteq> 0
        then let (_, d) = sysace_getdata C ace d in flush_loop C ace (num + 1) 0 d
        else flush_loop C ace num (dn + 1) d
      else Some (num, d))"

definition sysace_flushbuffer :: "'d chip \<Rightarrow> sysace \<Rightarrow> 'd \<Rightarrow> (Huint \<times> 'd) option" where
  "sysace_flushbuffer C ace d = flush_loop C ace 0 0 d"

definition sysace_cfg_reset :: "'d chip \<Rightarrow> sysace \<Rightarrow> 'd \<Rightarrow> (Hint \<times> 'd) option" where
  "sysace_cfg_reset C ace d =
     do { let d = sysace_orcontrol C ace SYSACE_CONTROL_RESET d;
          let d = sysace_andcontrol C ace (NOT SYSACE_CONTROL_RESET) d;
          (_, d) \<leftarrow> sysace_flushbuffer C ace d;
          Some (SUCCESS, d) }"

definition sysace_create :: "'d chip \<Rightarrow> Huint \<Rightarrow> 'd \<Rightarrow> (Hint \<times> sysace \<times> 'd) option" where
  "sysace_create C base d =
     (let ace = \<lparr>mode = (base, base + 2), control = (base + 0x18, base + 0x18 + 2),
           error = (base + 0x08, base + 0x08 + 2), status = (base + 0x04, base + 0x04 + 2),
           version = base + 0x16, count_reg = base + 0x14, fat_reg = base + 0x1C, data_reg = base + 0x40,
           clba = (base + 0x0C, base + 0x0C + 2), mlba = (base + 0x10, base + 0x10 + 2)\<rparr>;
          (res, d) = sysace_busmode C ace SYSACE_BUSMODE_16BIT d
      in if res \<noteq> SUCCESS then Some (res, ace, d)
      else let (res, d) = sysace_disable C ace (SYSACE_CONTROL_IMASK OR SYSACE_CONTROL_RESETI) d
      in if res \<noteq> SUCCESS then Some (res, ace, d)
      else do { (res, d) \<leftarrow> sysace_cfg_reset C ace d;
                if res \<noteq> SUCCESS then Some (res, ace, d)
                else do { (_, d) \<leftarrow> sysace_flushbuffer C ace d; Some (SUCCESS, ace, d) } })"

definition sysace_destroy :: "sysace \<Rightarrow> Hint \<times> sysace" where
  "sysace_destroy ace = (SUCCESS, \<lparr>mode = (0, 0), control = (0, 0), error = (0, 0), status = (0, 0),
     version = 0, count_reg = 0, fat_reg = 0, data_reg = 0, clba = (0, 0), mlba = (0, 0)\<rparr>)"

section \<open>Configuration port (cfg.c)\<close>

definition SYSACE_CONTROL_ADDR :: Huint where "SYSACE_CONTROL_ADDR = 0xE000"

definition SYSACE_CONTROL_FADDR :: Huint where "SYSACE_CONTROL_FADDR = 0x4"

definition SYSACE_CONTROL_FMODE :: Huint where "SYSACE_CONTROL_FMODE = 0x8"

definition SYSACE_CONTROL_MODE :: Huint where "SYSACE_CONTROL_MODE = 0x10"

definition SYSACE_CONTROL_START :: Huint where "SYSACE_CONTROL_START = 0x20"

definition SYSACE_CONTROL_SELECT :: Huint where "SYSACE_CONTROL_SELECT = 0x40"

definition sysace_cfg_addr :: "'d chip \<Rightarrow> sysace \<Rightarrow> Huint \<Rightarrow> 'd \<Rightarrow> Hint \<times> 'd" where
  "sysace_cfg_addr C ace addr d =
     (let (ctrl, d) = sysace_getcontrol C ace d;
          ctrl = ctrl AND NOT SYSACE_CONTROL_ADDR;
          ctrl = ctrl OR (push_bit 13 addr AND SYSACE_CONTROL_ADDR);
          ctrl = ctrl OR SYSACE_CONTROL_FADDR
      in (SUCCESS, sysace_setcontrol C ace ctrl d))"

definition sysace_cfg_mode :: "'d chip \<Rightarrow> sysace \<Rightarrow> bool \<Rightarrow> bool \<Rightarrow> 'd \<Rightarrow> Hint \<times> 'd" where
  "sysace_cfg_mode C ace immed start d =
     (let (ctrl, d) = sysace_getcontrol C ace d;
          ctrl = (if immed then ctrl OR SYSACE_CONTROL_MODE else ctrl AND NOT SYSACE_CONTROL_MODE);
          ctrl = (if start then ctrl OR SYSACE_CONTROL_START else ctrl AND NOT SYSACE_CONTROL_START);
          ctrl = ctrl OR SYSACE_CONTROL_FMODE
      in (SUCCESS, sysace_setcontrol C ace ctrl d))"

definition sysace_cfg_select :: "'d chip \<Rightarrow> sysace \<Rightarrow> bool \<Rightarrow> 'd \<Rightarrow> Hint \<times> 'd" where
  "sysace_cfg_select C ace sel d =
     (let (ctrl, d) = sysace_getcontrol C ace d;
          ctrl = (if sel then ctrl OR SYSACE_CONTROL_SELECT else ctrl AND NOT SYSACE_CONTROL_SELECT)
      in (SUCCESS, sysace_setcontrol C ace ctrl d))"

definition sysace_cfg_prog :: "'d chip \<Rightarrow> sysace \<Rightarrow> Hubyte list \<Rightarrow> Huint \<Rightarrow> 'd \<Rightarrow> (Hint \<times> 'd) option" where
  "sysace_cfg_prog C ace buffer sz d =
     (let (st, d) = sysace_getstatus C ace d in
      if st AND SYSACE_STATUS_MLOCK = 0 then Some (EDEADLK, d)
      else let (ctrl, d) = sysace_getcontrol C ace d;
               d = snd (sysace_cfg_select C ace True d);
               d = snd (sysace_cfg_mode C ace False True d)
           in do { (_, d) \<leftarrow> sysace_cfg_reset C ace d;
                   (num, d) \<leftarrow> sysace_writebuffer C ace (drop 512 buffer) (sz - SYSACE_DATA_SECTOR) d;
                   let d = sysace_setcontrol C ace ctrl d;
                   if num \<noteq> sz then Some (EIO, d) else Some (SUCCESS, d) })"

definition sysace_cfg_sector :: "'d chip \<Rightarrow> sysace \<Rightarrow> 'd \<Rightarrow> Huint \<times> 'd" where
  "sysace_cfg_sector C ace d = sysace_getreg32 C (clba ace) d"

section \<open>Sector transfers (cf.c)\<close>

definition SYSACE_SECTOR_COUNT :: Huint where "SYSACE_SECTOR_COUNT = 0xFF"

definition SYSACE_SECTOR_RESET :: Huint where "SYSACE_SECTOR_RESET = 0x100"

definition SYSACE_SECTOR_READ :: Huint where "SYSACE_SECTOR_READ = 0x300"

definition SYSACE_SECTOR_WRITE :: Huint where "SYSACE_SECTOR_WRITE = 0x400"

definition SYSACE_SECTOR_ABORT :: Huint where "SYSACE_SECTOR_ABORT = 0x600"

text \<open>The two checks with which every command starts: locked, then ready.\<close>

definition cf_check :: "'d chip \<Rightarrow> sysace \<Rightarrow> 'd \<Rightarrow> Hint \<times> 'd" where
  "cf_check C ace d =
     (let (st, d) = sysace_getstatus C ace d in
      if st AND SYSACE_STATUS_MLOCK = 0 then (EDEADLK, d)
      else let (st, d) = sysace_getstatus C ace d in
        if st AND SYSACE_STATUS_CREADY = 0 then (EBUSY, d) else (SUCCESS, d))"

definition sysace_cf_reset :: "'d chip \<Rightarrow> sysace \<Rightarrow> 'd \<Rightarrow> Hint \<times> 'd" where
  "sysace_cf_reset C ace d =
     (let (res, d) = cf_check C ace d in
      if res \<noteq> SUCCESS then (res, d) else (SUCCESS, sysace_setsector C ace (ucast SYSACE_SECTOR_RESET) d))"

definition sysace_cf_abort :: "'d chip \<Rightarrow> sysace \<Rightarrow> 'd \<Rightarrow> Hint \<times> 'd" where
  "sysace_cf_abort C ace d =
     (let (res, d) = cf_check C ace d in
      if res \<noteq> SUCCESS then (res, d) else (SUCCESS, sysace_setsector C ace (ucast SYSACE_SECTOR_ABORT) d))"

definition sysace_cf_isready :: "'d chip \<Rightarrow> sysace \<Rightarrow> 'd \<Rightarrow> Hint \<times> 'd" where
  "sysace_cf_isready C ace d =
     (let (st, d) = sysace_getstatus C ace d in
      if st AND SYSACE_STATUS_CREADY = 0 then (EBUSY, d) else (SUCCESS, d))"

partial_function (option) sysace_cf_ready :: "'d chip \<Rightarrow> sysace \<Rightarrow> 'd \<Rightarrow> (Hint \<times> 'd) option" where
  "sysace_cf_ready C ace d =
     (let (res, d) = sysace_cf_isready C ace d in
      if res \<noteq> SUCCESS then sysace_cf_ready C ace d else Some (SUCCESS, d))"

definition sysace_cf_fatstatus :: "'d chip \<Rightarrow> sysace \<Rightarrow> 'd \<Rightarrow> Huint \<times> 'd" where
  "sysace_cf_fatstatus C ace d = (let (v, d) = sysace_getreg16 C (fat_reg ace) d in (ucast v, d))"

definition sysace_cf_readsector ::
  "'d chip \<Rightarrow> sysace \<Rightarrow> Huint \<Rightarrow> Huint \<Rightarrow> 'd \<Rightarrow> (Hint \<times> Hubyte list \<times> 'd) option" where
  "sysace_cf_readsector C ace sec num d =
     (let (res, d) = cf_check C ace d in
      if res \<noteq> SUCCESS then Some (res, [], d)
      else let d = sysace_setmlba C ace sec d;
               d = sysace_setsector C ace (ucast ((num AND SYSACE_SECTOR_COUNT) OR SYSACE_SECTOR_READ)) d
           in sysace_readbuffer C ace (num * SYSACE_DATA_SECTOR) d)"

definition sysace_cf_writesector ::
  "'d chip \<Rightarrow> sysace \<Rightarrow> Huint \<Rightarrow> Huint \<Rightarrow> Hubyte list \<Rightarrow> 'd \<Rightarrow> (Hint \<times> 'd) option" where
  "sysace_cf_writesector C ace sec num bs d =
     (let (res, d) = cf_check C ace d in
      if res \<noteq> SUCCESS then Some (res, d)
      else let d = sysace_setmlba C ace sec d;
               d = sysace_setsector C ace (ucast ((num AND SYSACE_SECTOR_COUNT) OR SYSACE_SECTOR_WRITE)) d
           in sysace_writebuffer C ace bs (num * SYSACE_DATA_SECTOR) d)"

end
