(* ===== verification/Sysace_Card.thy ===== *)
theory Sysace_Card
  imports Sysace
begin

text \<open>
  What the driver relies on of the SystemACE chip and of a CompactFlash card without errors
  (\<open>chip_ok\<close>, after the chip's data sheet: lock, command and data buffer handshakes), and what
  the driver then guarantees: every polling loop ends, and a transfer of sectors delivers or
  changes exactly the sectors that were named.
\<close>

section \<open>The chip and its card\<close>

datatype phase = Idle | Sending "Hubyte list" | Receiving Huint "Hubyte list" nat

record card =
  c_control :: Huint
  c_lba :: Huint
  c_phase :: phase
  c_disk :: disk
  c_size :: nat
  granted :: bool
  cready :: bool
  dready :: bool

text \<open>
  \<open>calm v v'\<close>: nothing but the three handshake flags of the status register changed, and those
  that were set still are.
\<close>

definition calm :: "card \<Rightarrow> card \<Rightarrow> bool" where
  "calm v v' \<longleftrightarrow> c_control v' = c_control v \<and> c_lba v' = c_lba v \<and> c_phase v' = c_phase v \<and>
     c_disk v' = c_disk v \<and> c_size v' = c_size v \<and>
     (granted v \<longrightarrow> granted v') \<and> (cready v \<longrightarrow> cready v') \<and> (dready v \<longrightarrow> dready v')"

definition status_law :: "'d chip \<Rightarrow> sysace \<Rightarrow> ('d \<Rightarrow> card) \<Rightarrow> ('d \<Rightarrow> nat) \<Rightarrow> bool" where
  "status_law C ace view wait \<longleftrightarrow> (\<forall>d. case rd16 C (fst (status ace)) d of (v, d') \<Rightarrow>
     calm (view d) (view d') \<and>
     bit (little_to_bigs v) 1 = granted (view d') \<and> bit (little_to_bigs v) 8 = cready (view d') \<and>
     bit (little_to_bigs v) 5 = dready (view d') \<and>
     (bit (c_control (view d)) 1 \<and> \<not> granted (view d') \<longrightarrow> wait d' < wait d) \<and>
     (c_phase (view d) = Idle \<and> \<not> cready (view d') \<longrightarrow> wait d' < wait d) \<and>
     (c_phase (view d) \<noteq> Idle \<and> \<not> dready (view d') \<longrightarrow> wait d' < wait d))"

text \<open>Reading the version, the error register or the upper half of the status changes nothing.\<close>

definition quiet_law :: "'d chip \<Rightarrow> sysace \<Rightarrow> ('d \<Rightarrow> card) \<Rightarrow> ('d \<Rightarrow> nat) \<Rightarrow> bool" where
  "quiet_law C ace view wait \<longleftrightarrow> (\<forall>d. \<forall>r \<in> {snd (status ace), version ace, fst (error ace), snd (error ace)}.
     case rd16 C r d of (v, d') \<Rightarrow> view d' = view d \<and> wait d' \<le> wait d \<and>
       (r \<in> {fst (error ace), snd (error ace)} \<longrightarrow> v = 0))"

definition control_law :: "'d chip \<Rightarrow> sysace \<Rightarrow> ('d \<Rightarrow> card) \<Rightarrow> bool" where
  "control_law C ace view \<longleftrightarrow> (\<forall>d. let c = c_control (view d) in
     (case rd16 C (fst (control ace)) d of (v, d') \<Rightarrow> view d' = view d \<and> little_to_bigs v = ucast c) \<and>
     (case rd16 C (snd (control ace)) d of (v, d') \<Rightarrow> view d' = view d \<and> little_to_bigs v = ucast (drop_bit 16 c)) \<and>
     (\<forall>w. c_phase (view d) = Idle \<and> \<not> bit w 7 \<longrightarrow>
        view (wr16 C (fst (control ace)) (big_to_littles w) d) =
          (view d)\<lparr>c_control := (c AND 0xFFFF0000) OR ucast w, granted := granted (view d) \<and> bit w 1\<rparr>) \<and>
     (\<forall>w. c_phase (view d) = Idle \<longrightarrow>
        view (wr16 C (snd (control ace)) (big_to_littles w) d) =
          (view d)\<lparr>c_control := (c AND 0xFFFF) OR push_bit 16 (ucast w)\<rparr>))"

definition lba_law :: "'d chip \<Rightarrow> sysace \<Rightarrow> ('d \<Rightarrow> card) \<Rightarrow> bool" where
  "lba_law C ace view \<longleftrightarrow> (\<forall>d w. c_phase (view d) = Idle \<longrightarrow> (let l = c_lba (view d) in
     view (wr16 C (fst (mlba ace)) (big_to_littles w) d) = (view d)\<lparr>c_lba := (l AND 0xFFFF0000) OR ucast w\<rparr> \<and>
     view (wr16 C (snd (mlba ace)) (big_to_littles w) d) = (view d)\<lparr>c_lba := (l AND 0xFFFF) OR push_bit 16 (ucast w)\<rparr>))"

text \<open>A command of a locked, ready controller: read (3) or write (4) of one to 255 sectors.\<close>

definition command_law :: "'d chip \<Rightarrow> sysace \<Rightarrow> ('d \<Rightarrow> card) \<Rightarrow> bool" where
  "command_law C ace view \<longleftrightarrow> (\<forall>d n. c_phase (view d) = Idle \<and> granted (view d) \<and> cready (view d) \<and>
       0 < n \<and> n < 256 \<and> unat (c_lba (view d)) + n \<le> c_size (view d) \<longrightarrow>
     view (wr16 C (count_reg ace) (big_to_littles (0x300 OR of_nat n)) d) =
       (view d)\<lparr>c_phase := Sending (disk_read (c_disk (view d)) (c_lba (view d)) (of_nat n)),
         cready := False, dready := False\<rparr> \<and>
     view (wr16 C (count_reg ace) (big_to_littles (0x400 OR of_nat n)) d) =
       (view d)\<lparr>c_phase := Receiving (c_lba (view d)) [] (512 * n), cready := False, dready := False\<rparr>)"

text \<open>The data port, a word at a time; after 32 bytes the buffer has to become ready again.\<close>

definition data_read_law :: "'d chip \<Rightarrow> sysace \<Rightarrow> ('d \<Rightarrow> card) \<Rightarrow> bool" where
  "data_read_law C ace view \<longleftrightarrow> (\<forall>d x y bs. c_phase (view d) = Sending (x # y # bs) \<and> dready (view d) \<longrightarrow>
     (case rd16 C (data_reg ace) d of (v, d') \<Rightarrow> little_to_bigs v = be16 y x \<and>
        view d' = (view d)\<lparr>c_phase := if bs = [] then Idle else Sending bs, dready := length bs mod 32 \<noteq> 0\<rparr>))"

definition data_write_law :: "'d chip \<Rightarrow> sysace \<Rightarrow> ('d \<Rightarrow> card) \<Rightarrow> bool" where
  "data_write_law C ace view \<longleftrightarrow> (\<forall>d l got n x y. c_phase (view d) = Receiving l got (n + 2) \<and> dready (view d) \<longrightarrow>
     view (wr16 C (data_reg ace) (big_to_littles (be16 y x)) d) =
       (if n = 0 then (view d)\<lparr>c_phase := Idle, dready := False,
          c_disk := disk_write l (of_nat (length (got @ [x, y]) div 512)) (got @ [x, y]) (c_disk (view d))\<rparr>
        else (view d)\<lparr>c_phase := Receiving l (got @ [x, y]) n, dready := n mod 32 \<noteq> 0\<rparr>))"

definition chip_ok :: "'d chip \<Rightarrow> sysace \<Rightarrow> ('d \<Rightarrow> card) \<Rightarrow> ('d \<Rightarrow> nat) \<Rightarrow> bool" where
  "chip_ok C ace view wait \<longleftrightarrow> status_law C ace view wait \<and> quiet_law C ace view wait \<and>
     control_law C ace view \<and> lba_law C ace view \<and> command_law C ace view \<and>
     data_read_law C ace view \<and> data_write_law C ace view"

lemma chip_okD:
  assumes "chip_ok C ace view wait"
  shows "status_law C ace view wait" "quiet_law C ace view wait" "control_law C ace view"
    "lba_law C ace view" "command_law C ace view" "data_read_law C ace view" "data_write_law C ace view"
  using assms by (simp_all add: chip_ok_def)

lemma calm_refl [simp]: "calm v v"
  by (simp add: calm_def)

lemma calm_trans: "calm u v \<Longrightarrow> calm v w \<Longrightarrow> calm u w"
  by (simp add: calm_def)

lemmas calm_simps = calm_def [THEN iffD1, rule_format]

section \<open>Register access\<close>

lemma status_masks: "(w :: Huint) AND SYSACE_STATUS_MLOCK \<noteq> 0 \<longleftrightarrow> bit w 1"
    "w AND SYSACE_STATUS_DREADY \<noteq> 0 \<longleftrightarrow> bit w 5" "w AND SYSACE_STATUS_CREADY \<noteq> 0 \<longleftrightarrow> bit w 8"
  using and_exp_eq_0_iff_not_bit [of w 1] and_exp_eq_0_iff_not_bit [of w 5] and_exp_eq_0_iff_not_bit [of w 8]
  by (simp_all add: SYSACE_STATUS_MLOCK_def SYSACE_STATUS_DREADY_def SYSACE_STATUS_CREADY_def)

lemma bit_low_half: "n < 16 \<Longrightarrow> bit (ucast (lo :: Hushort) OR push_bit 16 (ucast (hi :: Hushort)) :: Huint) n = bit lo n"
  by (auto simp: bit_simps)

lemma quietD:
  assumes "chip_ok C ace view wait" "rd16 C r d = (v, d')"
    "r \<in> {snd (status ace), version ace, fst (error ace), snd (error ace)}"
  shows "view d' = view d" "wait d' \<le> wait d" "r \<in> {fst (error ace), snd (error ace)} \<Longrightarrow> v = 0"
proof -
  have "case rd16 C r d of (v, d') \<Rightarrow> view d' = view d \<and> wait d' \<le> wait d \<and>
      (r \<in> {fst (error ace), snd (error ace)} \<longrightarrow> v = 0)"
    by (rule bspec [OF spec [OF chip_okD(2) [OF assms(1), unfolded quiet_law_def]] assms(3)])
  then show "view d' = view d" "wait d' \<le> wait d" "r \<in> {fst (error ace), snd (error ace)} \<Longrightarrow> v = 0"
    unfolding assms(2) by simp_all
qed

text \<open>A look at the status register: three flags, and the clock ticks while one is awaited.\<close>

lemma getstatus:
  assumes "chip_ok C ace view wait" "sysace_getstatus C ace d = (st, d')"
  shows "calm (view d) (view d')"
    "st AND SYSACE_STATUS_MLOCK \<noteq> 0 \<longleftrightarrow> granted (view d')"
    "st AND SYSACE_STATUS_DREADY \<noteq> 0 \<longleftrightarrow> dready (view d')"
    "st AND SYSACE_STATUS_CREADY \<noteq> 0 \<longleftrightarrow> cready (view d')"
    "bit (c_control (view d)) 1 \<Longrightarrow> \<not> granted (view d') \<Longrightarrow> wait d' < wait d"
    "c_phase (view d) = Idle \<Longrightarrow> \<not> cready (view d') \<Longrightarrow> wait d' < wait d"
    "c_phase (view d) \<noteq> Idle \<Longrightarrow> \<not> dready (view d') \<Longrightarrow> wait d' < wait d"
proof -
  obtain lo d1 where lo: "rd16 C (fst (status ace)) d = (lo, d1)" by fastforce
  obtain hi d2 where hi: "rd16 C (snd (status ace)) d1 = (hi, d2)" by fastforce
  have st: "st = ucast (little_to_bigs lo) OR push_bit 16 (ucast (little_to_bigs hi))" "d' = d2"
    using assms(2) by (simp_all add: sysace_getreg32_def lo hi)
  have q: "view d' = view d1" "wait d' \<le> wait d1"
    using quietD(1,2) [OF assms(1) hi] st(2) by simp_all
  have l: "calm (view d) (view d1)"
     "bit (little_to_bigs lo) 1 = granted (view d1)" "bit (little_to_bigs lo) 8 = cready (view d1)"
     "bit (little_to_bigs lo) 5 = dready (view d1)"
     "bit (c_control (view d)) 1 \<and> \<not> granted (view d1) \<longrightarrow> wait d1 < wait d"
     "c_phase (view d) = Idle \<and> \<not> cready (view d1) \<longrightarrow> wait d1 < wait d"
     "c_phase (view d) \<noteq> Idle \<and> \<not> dready (view d1) \<longrightarrow> wait d1 < wait d"
    using chip_okD(1) [OF assms(1), unfolded status_law_def, rule_format, of d] lo by auto
  show "calm (view d) (view d')" using l(1) q(1) by simp
  show "st AND SYSACE_STATUS_MLOCK \<noteq> 0 \<longleftrightarrow> granted (view d')" "st AND SYSACE_STATUS_DREADY \<noteq> 0 \<longleftrightarrow> dready (view d')"
      "st AND SYSACE_STATUS_CREADY \<noteq> 0 \<longleftrightarrow> cready (view d')"
    unfolding status_masks st(1) using l(2-4) q(1) by (simp_all add: bit_low_half)
  show "bit (c_control (view d)) 1 \<Longrightarrow> \<not> granted (view d') \<Longrightarrow> wait d' < wait d"
      "c_phase (view d) = Idle \<Longrightarrow> \<not> cready (view d') \<Longrightarrow> wait d' < wait d"
      "c_phase (view d) \<noteq> Idle \<Longrightarrow> \<not> dready (view d') \<Longrightarrow> wait d' < wait d"
    using l(5-7) q by auto
qed

lemma geterror:
  assumes "chip_ok C ace view wait" "sysace_geterror C ace d = (er, d')"
  shows "er = 0" "view d' = view d" "wait d' \<le> wait d"
proof -
  obtain lo d1 where lo: "rd16 C (fst (error ace)) d = (lo, d1)" by fastforce
  obtain hi d2 where hi: "rd16 C (snd (error ace)) d1 = (hi, d2)" by fastforce
  have "view d1 = view d \<and> wait d1 \<le> wait d \<and> lo = 0" "view d2 = view d1 \<and> wait d2 \<le> wait d1 \<and> hi = 0"
    using quietD [OF assms(1) lo] quietD [OF assms(1) hi] by simp_all
  then show "er = 0" "view d' = view d" "wait d' \<le> wait d"
    using assms(2) by (auto simp: sysace_getreg32_def lo hi from_littles_def)
qed

lemma delay_quiet:
  assumes "chip_ok C ace view wait"
  shows "view (DELAY_CTRL C ace d) = view d"
proof -
  have q: "view (snd (sysace_getversion C ace d)) = view d" for d
    using quietD(1) [OF assms surjective_pairing, of "version ace" d]
    by (auto simp: sysace_getreg16_def split: prod.splits)
  show ?thesis by (simp add: DELAY_CTRL_def numeral_eq_Suc q)
qed

lemma halves: "(ucast (ucast (x :: Huint) :: Hushort) OR push_bit 16 (ucast (ucast (drop_bit 16 x) :: Hushort)) :: Huint) = x"
    "((((c :: Huint) AND 0xFFFF0000) OR ucast (ucast x :: Hushort)) AND 0xFFFF) OR
       push_bit 16 (ucast (ucast (drop_bit 16 x) :: Hushort)) = x"
proof -
  have m: "(0xFFFF :: Huint) = mask 16" "(0xFFFF0000 :: Huint) = push_bit 16 (mask 16)"
    by (simp_all add: mask_eq_exp_minus_1)
  show "(ucast (ucast x :: Hushort) OR push_bit 16 (ucast (ucast (drop_bit 16 x) :: Hushort)) :: Huint) = x"
    by (rule bit_word_eqI) (auto simp: bit_simps)
  show "(((c AND 0xFFFF0000) OR ucast (ucast x :: Hushort)) AND 0xFFFF) OR
       push_bit 16 (ucast (ucast (drop_bit 16 x) :: Hushort)) = x"
    unfolding m by (rule bit_word_eqI) (auto simp: bit_simps)
qed

lemma getcontrol:
  assumes "chip_ok C ace view wait" "sysace_getcontrol C ace d = (r, d')"
  shows "r = c_control (view d)" "view d' = view d"
proof -
  note law = chip_okD(3) [OF assms(1), unfolded control_law_def Let_def, rule_format]
  obtain lo d1 where lo: "rd16 C (fst (control ace)) d = (lo, d1)" by fastforce
  obtain hi d2 where hi: "rd16 C (snd (control ace)) d1 = (hi, d2)" by fastforce
  have "view d1 = view d" "little_to_bigs lo = ucast (c_control (view d))" using law [of d] lo by auto
  moreover have "view d2 = view d1" "little_to_bigs hi = ucast (drop_bit 16 (c_control (view d1)))"
    using law [of d1] hi by auto
  ultimately show "r = c_control (view d)" "view d' = view d"
    using assms(2) by (auto simp: sysace_getreg32_def lo hi halves)
qed

lemma setcontrol:
  assumes "chip_ok C ace view wait" "c_phase (view d) = Idle" "\<not> bit x 7"
  shows "view (sysace_setreg32 C (control ace) x d) =
    (view d)\<lparr>c_control := x, granted := granted (view d) \<and> bit x 1\<rparr>"
proof -
  note law = chip_okD(3) [OF assms(1), unfolded control_law_def Let_def, rule_format]
  let ?d1 = "wr16 C (fst (control ace)) (big_to_littles (ucast x)) d"
  have "view ?d1 = (view d)\<lparr>c_control := (c_control (view d) AND 0xFFFF0000) OR ucast (ucast x :: Hushort),
      granted := granted (view d) \<and> bit x 1\<rparr>"
    using law [of d] assms(2,3) by (simp add: bit_ucast_iff)
  then show ?thesis using law [of ?d1] assms(2) by (simp add: sysace_setreg32_def halves)
qed

lemma setmlba:
  assumes "chip_ok C ace view wait" "c_phase (view d) = Idle"
  shows "view (sysace_setmlba C ace x d) = (view d)\<lparr>c_lba := x\<rparr>"
proof -
  note law = chip_okD(4) [OF assms(1), unfolded lba_law_def Let_def, rule_format]
  let ?d1 = "wr16 C (fst (mlba ace)) (big_to_littles (ucast x)) d"
  have "view ?d1 = (view d)\<lparr>c_lba := (c_lba (view d) AND 0xFFFF0000) OR ucast (ucast x :: Hushort)\<rparr>"
    using law [of d] assms(2) by simp
  then show ?thesis using law [of ?d1] assms(2) by (simp add: sysace_setreg32_def halves)
qed

section \<open>Polling ends\<close>

lemma wait_lock:
  assumes "chip_ok C ace view wait" "bit (c_control (view d)) 1"
  shows "\<exists>d'. wait_status C ace SYSACE_STATUS_MLOCK d = Some d' \<and> calm (view d) (view d') \<and> granted (view d')"
  using assms(2)
proof (induction "wait d" arbitrary: d rule: less_induct)
  case less
  obtain st d1 where st: "sysace_getstatus C ace d = (st, d1)" by fastforce
  note g = getstatus [OF assms(1) st]
  show ?case
  proof (cases "granted (view d1)")
    case True
    then have "wait_status C ace SYSACE_STATUS_MLOCK d = Some d1"
      using g(2) st by (subst wait_status.simps) simp
    then show ?thesis using g(1) True by blast
  next
    case False
    then obtain d' where "wait_status C ace SYSACE_STATUS_MLOCK d1 = Some d'" "calm (view d1) (view d')" "granted (view d')"
      using less.hyps [of d1] g(1,5) less.prems by (auto simp: calm_def)
    moreover have "wait_status C ace SYSACE_STATUS_MLOCK d = wait_status C ace SYSACE_STATUS_MLOCK d1"
      using g(2) st False by (subst wait_status.simps) simp
    ultimately show ?thesis using calm_trans [OF g(1)] by auto
  qed
qed

lemma wait_buffer:
  assumes "chip_ok C ace view wait" "c_phase (view d) \<noteq> Idle"
  shows "\<exists>d'. wait_status C ace SYSACE_STATUS_DREADY d = Some d' \<and> calm (view d) (view d') \<and> dready (view d')"
  using assms(2)
proof (induction "wait d" arbitrary: d rule: less_induct)
  case less
  obtain st d1 where st: "sysace_getstatus C ace d = (st, d1)" by fastforce
  note g = getstatus [OF assms(1) st]
  show ?case
  proof (cases "dready (view d1)")
    case True
    then have "wait_status C ace SYSACE_STATUS_DREADY d = Some d1"
      using g(3) st by (subst wait_status.simps) simp
    then show ?thesis using g(1) True by blast
  next
    case False
    then obtain d' where "wait_status C ace SYSACE_STATUS_DREADY d1 = Some d'" "calm (view d1) (view d')" "dready (view d')"
      using less.hyps [of d1] g(1,7) less.prems by (auto simp: calm_def)
    moreover have "wait_status C ace SYSACE_STATUS_DREADY d = wait_status C ace SYSACE_STATUS_DREADY d1"
      using g(3) st False by (subst wait_status.simps) simp
    ultimately show ?thesis using calm_trans [OF g(1)] by auto
  qed
qed

lemma wait_data_ends:
  assumes "chip_ok C ace view wait" "c_phase (view d) \<noteq> Idle"
  shows "\<exists>d'. wait_data C ace d = Some d' \<and> calm (view d) (view d') \<and> dready (view d')"
  using assms(2)
proof (induction "wait d" arbitrary: d rule: less_induct)
  case less
  obtain st d1 where st: "sysace_getstatus C ace d = (st, d1)" by fastforce
  obtain er d2 where er: "sysace_geterror C ace d1 = (er, d2)" by fastforce
  note g = getstatus [OF assms(1) st] and e = geterror [OF assms(1) er]
  show ?case
  proof (cases "dready (view d1)")
    case True
    then have "wait_data C ace d = Some d1" using g(3) st by (subst wait_data.simps) simp
    then show ?thesis using g(1) True by blast
  next
    case False
    have "wait d2 < wait d" using g(7) less.prems False e(3) by linarith
    then obtain d' where "wait_data C ace d2 = Some d'" "calm (view d2) (view d')" "dready (view d')"
      using less.hyps [of d2] g(1) e(2) less.prems by (auto simp: calm_def)
    moreover have "wait_data C ace d = wait_data C ace d2"
      using g(3) st False er e(1) by (subst wait_data.simps) simp
    ultimately show ?thesis using calm_trans [OF g(1)] e(2) by auto
  qed
qed

lemma cf_ready_ends:
  assumes "chip_ok C ace view wait" "c_phase (view d) = Idle"
  shows "\<exists>d'. sysace_cf_ready C ace d = Some (SUCCESS, d') \<and> calm (view d) (view d') \<and> cready (view d')"
  using assms(2)
proof (induction "wait d" arbitrary: d rule: less_induct)
  case less
  obtain st d1 where st: "sysace_getstatus C ace d = (st, d1)" by fastforce
  note g = getstatus [OF assms(1) st]
  have r: "sysace_cf_isready C ace d = (if cready (view d1) then SUCCESS else EBUSY, d1)"
    using g(4) st by (auto simp: sysace_cf_isready_def)
  show ?case
  proof (cases "cready (view d1)")
    case True
    then have "sysace_cf_ready C ace d = Some (SUCCESS, d1)" using r by (subst sysace_cf_ready.simps) simp
    then show ?thesis using g(1) True by blast
  next
    case False
    then obtain d' where "sysace_cf_ready C ace d1 = Some (SUCCESS, d')" "calm (view d1) (view d')" "cready (view d')"
      using less.hyps [of d1] g(1,6) less.prems by (auto simp: calm_def)
    moreover have "sysace_cf_ready C ace d = sysace_cf_ready C ace d1"
      using r False by (subst sysace_cf_ready.simps) (simp add: SUCCESS_def EBUSY_def)
    ultimately show ?thesis using calm_trans [OF g(1)] by auto
  qed
qed

text \<open>Taking and returning the controller.\<close>

definition rested :: "card \<Rightarrow> bool" where
  "rested v \<longleftrightarrow> c_phase v = Idle \<and> \<not> bit (c_control v) 7 \<and> (\<forall>i. length (c_disk v i) = 512)"

definition same_store :: "card \<Rightarrow> card \<Rightarrow> bool" where
  "same_store v v' \<longleftrightarrow> c_disk v' = c_disk v \<and> c_size v' = c_size v"

lemma lock_ready:
  assumes "chip_ok C ace view wait" "rested (view d)"
  obtains d1 d2 where "sysace_lock C ace d = Some (SUCCESS, d1)" "sysace_cf_ready C ace d1 = Some (SUCCESS, d2)"
    "rested (view d2)" "same_store (view d) (view d2)" "granted (view d2)" "cready (view d2)"
proof -
  obtain r d0 where r: "sysace_getcontrol C ace d = (r, d0)" by fastforce
  note g = getcontrol [OF assms(1) r]
  let ?x = "c_control (view d) OR SYSACE_CONTROL_RLOCK"
  have b: "bit ?x 1" "\<not> bit ?x 7"
    using assms(2) by (simp_all add: rested_def SYSACE_CONTROL_RLOCK_def bit_or_iff)
  let ?d = "sysace_orcontrol C ace SYSACE_CONTROL_RLOCK d"
  have v: "view ?d = (view d)\<lparr>c_control := ?x\<rparr>"
    using setcontrol [OF assms(1), of d0 ?x] g assms(2) b
    by (simp add: sysace_orcontrol_def sysace_orreg32_def r delay_quiet [OF assms(1)] rested_def)
  obtain d1 where d1: "wait_status C ace SYSACE_STATUS_MLOCK ?d = Some d1" "calm (view ?d) (view d1)" "granted (view d1)"
    using wait_lock [OF assms(1), of ?d] v b(1) by auto
  have idle: "c_phase (view d1) = Idle" using d1(2) v assms(2) by (simp add: calm_def rested_def)
  obtain d2 where d2: "sysace_cf_ready C ace d1 = Some (SUCCESS, d2)" "calm (view d1) (view d2)" "cready (view d2)"
    using cf_ready_ends [OF assms(1) idle] by blast
  show ?thesis
    using that [of d1 d2] d1 d2 v b(2) assms(2)
    by (simp add: sysace_lock_def calm_def rested_def same_store_def)
qed

lemma unlock_rests:
  assumes "chip_ok C ace view wait" "rested (view d)"
  shows "fst (sysace_unlock C ace d) = SUCCESS" "rested (view (snd (sysace_unlock C ace d)))"
    "same_store (view d) (view (snd (sysace_unlock C ace d)))"
proof -
  obtain r d0 where r: "sysace_getcontrol C ace d = (r, d0)" by fastforce
  note g = getcontrol [OF assms(1) r]
  let ?x = "c_control (view d) AND NOT SYSACE_CONTROL_RLOCK"
  have b: "\<not> bit ?x 7" using assms(2) by (simp add: rested_def bit_and_iff)
  have "view (sysace_andcontrol C ace (NOT SYSACE_CONTROL_RLOCK) d) =
      (view d)\<lparr>c_control := ?x, granted := granted (view d) \<and> bit ?x 1\<rparr>"
    using setcontrol [OF assms(1), of d0 ?x] g assms(2) b
    by (simp add: sysace_andcontrol_def sysace_andreg32_def r delay_quiet [OF assms(1)] rested_def)
  then show "fst (sysace_unlock C ace d) = SUCCESS" "rested (view (snd (sysace_unlock C ace d)))"
      "same_store (view d) (view (snd (sysace_unlock C ace d)))"
    using assms(2) b by (simp_all add: sysace_unlock_def rested_def same_store_def)
qed

section \<open>Transfers\<close>

lemma getdata:
  assumes "chip_ok C ace view wait" "c_phase (view d) = Sending (x # y # bs)" "dready (view d)"
    "sysace_getdata C ace d = (v, d')"
  shows "v = be16 y x"
    "view d' = (view d)\<lparr>c_phase := if bs = [] then Idle else Sending bs, dready := length bs mod 32 \<noteq> 0\<rparr>"
  using chip_okD(6) [OF assms(1), unfolded data_read_law_def, rule_format, of d x y bs] assms(2-4)
  by (auto simp: sysace_getreg16_def split: prod.splits)

lemma read_words_buffer:
  assumes "chip_ok C ace view wait"
  shows "\<lbrakk>c_phase (view d) = Sending bs; dready (view d); length bs = 32 * m + 2 * Suc n; n < 16\<rbrakk> \<Longrightarrow>
    \<exists>d'. read_words C ace (Suc n) d = (take (2 * Suc n) bs, d') \<and>
      view d' = (view d)\<lparr>c_phase := if m = 0 then Idle else Sending (drop (2 * Suc n) bs), dready := False\<rparr>"
proof (induction n arbitrary: d bs)
  case 0
  then obtain x y cs where bs: "bs = x # y # cs" by (cases bs; cases "tl bs") auto
  obtain v d1 where v: "sysace_getdata C ace d = (v, d1)" by fastforce
  note g = getdata [OF assms 0(1) [unfolded bs] 0(2) v]
  have "length cs = 32 * m" using 0 bs by simp
  then show ?case using g bs v by (auto simp: Let_def)
next
  case (Suc n)
  then obtain x y cs where bs: "bs = x # y # cs" by (cases bs; cases "tl bs") auto
  obtain v d1 where v: "sysace_getdata C ace d = (v, d1)" by fastforce
  note g = getdata [OF assms Suc.prems(1) [unfolded bs] Suc.prems(2) v]
  have len: "length cs = 32 * m + 2 * Suc n" using Suc.prems bs by simp
  moreover have "2 * Suc n < 32" using Suc.prems(4) by simp
  ultimately have "length cs mod 32 = 2 * Suc n" by (simp only: mod_mult_self4 mod_less)
  then have "view d1 = (view d)\<lparr>c_phase := Sending cs, dready := True\<rparr>" using g(2) len by auto
  then obtain d' where "read_words C ace (Suc n) d1 = (take (2 * Suc n) cs, d')"
      "view d' = (view d)\<lparr>c_phase := if m = 0 then Idle else Sending (drop (2 * Suc n) cs), dready := False\<rparr>"
    using Suc.IH [of d1 cs] len Suc.prems(4) by auto
  then show ?case using g(1) bs v by (simp add: Let_def del: read_words.simps(2)) (simp add: Let_def)
qed

lemma read_buffers_all:
  assumes "chip_ok C ace view wait"
  shows "\<lbrakk>if n = 0 then c_phase (view d) = Idle \<and> bs = [] else c_phase (view d) = Sending bs; length bs = 32 * n\<rbrakk> \<Longrightarrow>
    \<exists>d'. read_buffers C ace n d = Some (bs, d') \<and> c_phase (view d') = Idle \<and> c_control (view d') = c_control (view d) \<and>
      same_store (view d) (view d')"
proof (induction n arbitrary: d bs)
  case 0
  then show ?case by (simp add: same_store_def)
next
  case (Suc n)
  have "c_phase (view d) \<noteq> Idle" using Suc.prems(1) by simp
  then obtain d1 where d1: "wait_status C ace SYSACE_STATUS_DREADY d = Some d1" "calm (view d) (view d1)" "dready (view d1)"
    using wait_buffer [OF assms] by blast
  have p: "c_phase (view d1) = Sending bs" using d1(2) Suc.prems(1) by (simp add: calm_def)
  have "length bs = 32 * n + 2 * Suc 15" using Suc.prems(2) by simp
  then obtain d2 where d2: "read_words C ace (Suc 15) d1 = (take 32 bs, d2)"
      "view d2 = (view d1)\<lparr>c_phase := if n = 0 then Idle else Sending (drop 32 bs), dready := False\<rparr>"
    using read_words_buffer [OF assms p d1(3), of n 15] by auto
  let ?d = "DELAY_CTRL C ace d2"
  have v: "view ?d = view d2" by (rule delay_quiet [OF assms])
  have "if n = 0 then c_phase (view ?d) = Idle \<and> drop 32 bs = [] else c_phase (view ?d) = Sending (drop 32 bs)"
      "length (drop 32 bs) = 32 * n"
    using v d2(2) Suc.prems(2) by simp_all
  from Suc.IH [OF this] obtain d' where "read_buffers C ace n ?d = Some (drop 32 bs, d')" "c_phase (view d') = Idle"
      "c_control (view d') = c_control (view ?d)" "same_store (view ?d) (view d')"
    by blast
  then have d': "read_buffers C ace n ?d = Some (drop 32 bs, d')" "c_phase (view d') = Idle"
      "c_control (view d') = c_control (view d)" "same_store (view d) (view d')"
    using v d2(2) d1(2) by (simp_all add: calm_def same_store_def)
  have "read_buffers C ace (Suc n) d = Some (bs, d')"
    using d1(1) d2(1) d'(1) by (simp add: eval_nat_numeral(3) [symmetric] del: read_words.simps)
  then show ?case using d' by blast
qed

lemma cf_check_passes:
  assumes "chip_ok C ace view wait" "granted (view d)" "cready (view d)"
  obtains d' where "cf_check C ace d = (SUCCESS, d')" "calm (view d) (view d')"
proof -
  obtain st d1 where st: "sysace_getstatus C ace d = (st, d1)" by fastforce
  obtain st' d2 where st': "sysace_getstatus C ace d1 = (st', d2)" by fastforce
  note g = getstatus [OF assms(1) st] getstatus [OF assms(1) st']
  have "granted (view d1)" "cready (view d2)" using g(1,8) assms(2,3) by (auto simp: calm_def)
  then show ?thesis using that [of d2] st st' g calm_trans [OF g(1,8)] by (auto simp: cf_check_def)
qed

lemma command_word:
  assumes "unat (num :: Huint) < 256"
  shows "(ucast ((num AND SYSACE_SECTOR_COUNT) OR SYSACE_SECTOR_READ) :: Hushort) = 0x300 OR of_nat (unat num)"
    "(ucast ((num AND SYSACE_SECTOR_COUNT) OR SYSACE_SECTOR_WRITE) :: Hushort) = 0x400 OR of_nat (unat num)"
proof -
  have "num AND SYSACE_SECTOR_COUNT = take_bit 8 num"
    by (simp add: SYSACE_SECTOR_COUNT_def take_bit_eq_mask mask_eq_exp_minus_1)
  also have "\<dots> = num" using assms by (simp add: take_bit_eq_mod word_unat_eq_iff unat_mod)
  finally have n: "num AND SYSACE_SECTOR_COUNT = num" .
  have "(of_nat (unat num) :: Hushort) = ucast num" by simp
  then show "(ucast ((num AND SYSACE_SECTOR_COUNT) OR SYSACE_SECTOR_READ) :: Hushort) = 0x300 OR of_nat (unat num)"
    "(ucast ((num AND SYSACE_SECTOR_COUNT) OR SYSACE_SECTOR_WRITE) :: Hushort) = 0x400 OR of_nat (unat num)"
    by (simp_all add: n SYSACE_SECTOR_READ_def SYSACE_SECTOR_WRITE_def unsigned_or_eq or.commute)
qed

lemma transfer_size:
  assumes "unat (num :: Huint) < 256"
  shows "unat (num * SYSACE_DATA_SECTOR) = 512 * unat num"
    "unat (num * SYSACE_DATA_SECTOR div SYSACE_DATA_BUFFER) = 16 * unat num"
proof -
  show u: "unat (num * SYSACE_DATA_SECTOR) = 512 * unat num"
    using assms by (simp add: SYSACE_DATA_SECTOR_def unat_word_ariths)
  show "unat (num * SYSACE_DATA_SECTOR div SYSACE_DATA_BUFFER) = 16 * unat num"
    unfolding unat_div u by (simp add: SYSACE_DATA_BUFFER_def)
qed

lemma readsector_delivers:
  assumes ok: "chip_ok C ace view wait" and v: "rested (view d)" "granted (view d)" "cready (view d)"
    and n: "0 < unat num" "unat num < 256" "unat sec + unat num \<le> c_size (view d)"
  obtains d' where "sysace_cf_readsector C ace sec num d =
      Some (num * SYSACE_DATA_SECTOR, disk_read (c_disk (view d)) sec num, d')"
    "rested (view d')" "same_store (view d) (view d')"
proof -
  obtain d1 where d1: "cf_check C ace d = (SUCCESS, d1)" "calm (view d) (view d1)"
    using cf_check_passes [OF ok v(2,3)] by blast
  let ?d2 = "sysace_setmlba C ace sec d1"
  have v2: "view ?d2 = (view d1)\<lparr>c_lba := sec\<rparr>"
    using d1(2) v(1) by (intro setmlba [OF ok]) (simp add: calm_def rested_def)
  let ?d3 = "sysace_setsector C ace (0x300 OR of_nat (unat num)) ?d2" and ?bs = "disk_read (c_disk (view d)) sec num"
  have v3: "view ?d3 = (view d1)\<lparr>c_lba := sec, c_phase := Sending ?bs, cready := False, dready := False\<rparr>"
    using chip_okD(5) [OF ok, unfolded command_law_def, rule_format, of ?d2 "unat num"] v2 d1(2) v n
    by (simp add: sysace_setreg16_def calm_def rested_def)
  have len: "length ?bs = 512 * unat num" using v(1) by (intro length_disk_read) (simp add: rested_def)
  obtain d' where d': "read_buffers C ace (16 * unat num) ?d3 = Some (?bs, d')" "c_phase (view d') = Idle"
      "c_control (view d') = c_control (view ?d3)" "same_store (view ?d3) (view d')"
    using read_buffers_all [OF ok, of "16 * unat num" ?d3 ?bs] v3 n(1) len by auto
  have "sysace_readbuffer C ace (num * SYSACE_DATA_SECTOR) ?d3 = Some (num * SYSACE_DATA_SECTOR, ?bs, d')"
    using d'(1) len by (simp add: sysace_readbuffer_def transfer_size [OF n(2)]) (simp add: SYSACE_DATA_SECTOR_def mult.commute)
  moreover have "rested (view d')" "same_store (view d) (view d')"
    using d'(2-4) v3 d1(2) v(1) by (simp_all add: rested_def same_store_def calm_def)
  ultimately show ?thesis
    using that d1(1) by (simp add: sysace_cf_readsector_def command_word [OF n(2)])
qed

text \<open>Where the card is after the words of \<open>bs\<close>, with \<open>k\<close> bytes to come.\<close>

definition received :: "card \<Rightarrow> Huint \<Rightarrow> Hubyte list \<Rightarrow> nat \<Rightarrow> card" where
  "received v l bs k = (if k = 0
     then v\<lparr>c_phase := Idle, dready := False, c_disk := disk_write l (of_nat (length bs div 512)) bs (c_disk v)\<rparr>
     else v\<lparr>c_phase := Receiving l bs k, dready := k mod 32 \<noteq> 0\<rparr>)"

lemma setdata:
  assumes "chip_ok C ace view wait" "c_phase (view d) = Receiving l got (k + 2)" "dready (view d)"
  shows "view (sysace_setdata C ace (ucast x OR push_bit 8 (ucast y)) d) = received (view d) l (got @ [x, y]) k"
  using chip_okD(7) [OF assms(1), unfolded data_write_law_def, rule_format, of d l got k y x] assms(2,3)
  by (simp add: sysace_setreg16_def received_def be16_def or.commute)

lemma write_words_buffer:
  assumes "chip_ok C ace view wait"
  shows "\<lbrakk>c_phase (view d) = Receiving l got (32 * m + 2 * Suc n); dready (view d); 2 * Suc n \<le> length bs; n < 16\<rbrakk> \<Longrightarrow>
    \<exists>d'. write_words C ace (Suc n) bs d = (2 * Suc n, True, d') \<and>
      view d' = received (view d) l (got @ take (2 * Suc n) bs) (32 * m)"
proof (induction n arbitrary: d got bs)
  case 0
  then obtain x y cs where bs: "bs = x # y # cs" by (cases bs; cases "tl bs") auto
  obtain er d1 where er: "sysace_geterror C ace d = (er, d1)" by fastforce
  note e = geterror [OF assms er]
  have "view (sysace_setdata C ace (ucast x OR push_bit 8 (ucast y)) d1) = received (view d) l (got @ [x, y]) (32 * m)"
    using setdata [OF assms, of d1 l got "32 * m" x y] 0 e(2) by simp
  then show ?case using er e bs by (simp add: Let_def)
next
  case (Suc n)
  then obtain x y cs where bs: "bs = x # y # cs" by (cases bs; cases "tl bs") auto
  obtain er d1 where er: "sysace_geterror C ace d = (er, d1)" by fastforce
  note e = geterror [OF assms er]
  let ?d = "sysace_setdata C ace (ucast x OR push_bit 8 (ucast y)) d1" and ?k = "32 * m + 2 * Suc n"
  have "view ?d = received (view d) l (got @ [x, y]) ?k"
    using setdata [OF assms, of d1 l got ?k x y] Suc.prems e(2) by simp
  moreover have "2 * Suc n < 32" using Suc.prems(4) by simp
  then have "?k mod 32 = 2 * Suc n" by (simp only: mod_mult_self4 mod_less)
  ultimately have v: "view ?d = (view d)\<lparr>c_phase := Receiving l (got @ [x, y]) ?k, dready := True\<rparr>"
    by (simp add: received_def)
  then obtain d' where "write_words C ace (Suc n) cs ?d = (2 * Suc n, True, d')"
      "view d' = received (view ?d) l ((got @ [x, y]) @ take (2 * Suc n) cs) (32 * m)"
    using Suc.IH [of ?d "got @ [x, y]" cs] Suc.prems(3,4) bs by auto
  moreover have "received (view ?d) l ((got @ [x, y]) @ take (2 * Suc n) cs) (32 * m) =
      received (view d) l (got @ take (2 * Suc (Suc n)) bs) (32 * m)"
    using v bs by (simp add: received_def)
  ultimately show ?case using er e(1) bs by (simp add: Let_def del: write_words.simps(2)) (simp add: Let_def)
qed

lemma write_buffers_all:
  assumes "chip_ok C ace view wait"
  shows "\<lbrakk>if n = 0 then c_phase (view d) = Idle \<and> bs = [] else c_phase (view d) = Receiving l got (32 * n); length bs = 32 * n\<rbrakk> \<Longrightarrow>
    \<exists>d'. write_buffers C ace n bs d = Some (32 * n, True, d') \<and> c_phase (view d') = Idle \<and>
      c_control (view d') = c_control (view d) \<and> c_size (view d') = c_size (view d) \<and>
      c_disk (view d') = (if n = 0 then c_disk (view d)
        else disk_write l (of_nat (length (got @ bs) div 512)) (got @ bs) (c_disk (view d)))"
proof (induction n arbitrary: d got bs)
  case 0
  then show ?case by simp
next
  case (Suc n)
  have "c_phase (view d) \<noteq> Idle" using Suc.prems(1) by simp
  then obtain d1 where d1: "wait_data C ace d = Some d1" "calm (view d) (view d1)" "dready (view d1)"
    using wait_data_ends [OF assms] by blast
  have p: "c_phase (view d1) = Receiving l got (32 * n + 2 * Suc 15)" using d1(2) Suc.prems(1) by (simp add: calm_def)
  obtain d2 where d2: "write_words C ace (Suc 15) bs d1 = (2 * Suc 15, True, d2)"
      "view d2 = received (view d1) l (got @ take (2 * Suc 15) bs) (32 * n)"
    using write_words_buffer [OF assms p d1(3), of bs] Suc.prems(2) by auto
  have t: "2 * Suc 15 = (32 :: nat)" "Suc 15 = (16 :: nat)" by simp_all
  have "if n = 0 then c_phase (view d2) = Idle \<and> drop 32 bs = []
      else c_phase (view d2) = Receiving l (got @ take 32 bs) (32 * n)" "length (drop 32 bs) = 32 * n"
    using d2(2) Suc.prems(2) unfolding t by (simp_all add: received_def)
  from Suc.IH [OF this] obtain d' where d': "write_buffers C ace n (drop 32 bs) d2 = Some (32 * n, True, d')"
      "c_phase (view d') = Idle" "c_control (view d') = c_control (view d2)" "c_size (view d') = c_size (view d2)"
      "c_disk (view d') = (if n = 0 then c_disk (view d2) else disk_write l
        (of_nat (length ((got @ take 32 bs) @ drop 32 bs) div 512)) ((got @ take 32 bs) @ drop 32 bs) (c_disk (view d2)))"
    by blast
  have b: "(got @ take 32 bs) @ drop 32 bs = got @ bs" by simp
  have c: "n = 0 \<Longrightarrow> take 32 bs = bs" using Suc.prems(2) by simp
  have "write_buffers C ace (Suc n) bs d = Some (32 * Suc n, True, d')"
    using d1(1) d2(1) d'(1) unfolding t by (simp del: write_words.simps)
  then show ?case using d'(2-5) d2(2) d1(2) unfolding t b by (auto simp: received_def calm_def c)
qed

lemma writesector_stores:
  assumes ok: "chip_ok C ace view wait" and v: "rested (view d)" "granted (view d)" "cready (view d)"
    and n: "0 < unat num" "unat num < 256" "unat sec + unat num \<le> c_size (view d)" and bs: "length bs = 512 * unat num"
  obtains d' where "sysace_cf_writesector C ace sec num bs d = Some (num * SYSACE_DATA_SECTOR, d')"
    "rested (view d')" "c_disk (view d') = disk_write sec num bs (c_disk (view d))" "c_size (view d') = c_size (view d)"
proof -
  obtain d1 where d1: "cf_check C ace d = (SUCCESS, d1)" "calm (view d) (view d1)"
    using cf_check_passes [OF ok v(2,3)] by blast
  let ?d2 = "sysace_setmlba C ace sec d1"
  have v2: "view ?d2 = (view d1)\<lparr>c_lba := sec\<rparr>"
    using d1(2) v(1) by (intro setmlba [OF ok]) (simp add: calm_def rested_def)
  let ?d3 = "sysace_setsector C ace (0x400 OR of_nat (unat num)) ?d2"
  have v3: "view ?d3 = (view d1)\<lparr>c_lba := sec, c_phase := Receiving sec [] (512 * unat num), cready := False, dready := False\<rparr>"
    using chip_okD(5) [OF ok, unfolded command_law_def, rule_format, of ?d2 "unat num"] v2 d1(2) v n
    by (simp add: sysace_setreg16_def calm_def rested_def)
  have "if 16 * unat num = 0 then c_phase (view ?d3) = Idle \<and> bs = []
      else c_phase (view ?d3) = Receiving sec [] (32 * (16 * unat num))" "length bs = 32 * (16 * unat num)"
    using v3 n(1) bs by simp_all
  from write_buffers_all [OF ok this] obtain d' where d':
      "write_buffers C ace (16 * unat num) bs ?d3 = Some (32 * (16 * unat num), True, d')" "c_phase (view d') = Idle"
      "c_control (view d') = c_control (view ?d3)" "c_size (view d') = c_size (view ?d3)"
      "c_disk (view d') = (if 16 * unat num = 0 then c_disk (view ?d3)
         else disk_write sec (of_nat (length ([] @ bs) div 512)) ([] @ bs) (c_disk (view ?d3)))"
    by blast
  have disk: "c_disk (view d') = disk_write sec num bs (c_disk (view d))"
    using d'(5) n(1) bs v3 d1(2) by (simp add: calm_def)
  have "length (disk_write sec num bs D i) = 512" if "\<And>i. length (D i) = 512" for D i
    using that bs by (auto simp: disk_write_def)
  then have "rested (view d')" using d'(2,3) v3 d1(2) v(1) disk by (simp add: rested_def calm_def)
  moreover have "sysace_writebuffer C ace bs (num * SYSACE_DATA_SECTOR) ?d3 = Some (num * SYSACE_DATA_SECTOR, d')"
    using d'(1) by (simp add: sysace_writebuffer_def transfer_size [OF n(2)]) (simp add: SYSACE_DATA_SECTOR_def mult.commute)
  moreover have "c_size (view d') = c_size (view d)" using d'(4) v3 d1(2) by (simp add: calm_def)
  ultimately show ?thesis
    using that disk d1(1) by (simp add: sysace_cf_writesector_def command_word [OF n(2)])
qed

end
