(* ===== verification/Block_Cache.thy ===== *)
theory Block_Cache
  imports Sysace_Card
begin

text \<open>
  The block device on top of the CompactFlash driver (\<^verbatim>\<open>src/software/drivers/sysace/block.c\<close>):
  a write-back cache of \<^verbatim>\<open>depth\<close> lines of \<^verbatim>\<open>lines\<close> sectors with least recently used
  replacement. Theories \<open>Cached_Disk\<close> and \<open>Cached_Device\<close> show that on a chip without errors it reads
  and writes like a plain disk.
\<close>

section \<open>Data (block.h)\<close>

record cache_info =
  ci_lru :: Huint
  ci_sector :: Huint
  ci_dirty :: Huint
  ci_second :: Huint
  ci_cold :: Huint

text \<open>
  \<open>cache_ptr\<close> and \<open>info_ptr\<close> tell whether the pointers are not null; \<open>cache\<close> is the memory from
  the start of the cache array on.
\<close>

record sysace_block =
  ace :: sysace
  hit :: Huint
  miss :: Huint
  lines :: Huint
  depth :: Huint
  info_ptr :: bool
  cache_ptr :: bool
  info :: "cache_info list"
  cache :: memory

type_synonym 'd blockdev = "sysace_block \<times> 'd"

section \<open>Cache operations (block.c)\<close>

text \<open>\<^verbatim>\<open>diff\<close> is signed and \<^verbatim>\<open>ace->lines\<close> is not, so the second comparison is unsigned.\<close>

definition line_hit :: "Huint \<Rightarrow> Huint \<Rightarrow> cache_info \<Rightarrow> bool" where
  "line_hit n block c \<longleftrightarrow> (let diff = block - ci_sector c in 0 \<le> sint diff \<and> diff < n \<and> ci_cold c = 0)"

primrec find_from :: "cache_info list \<Rightarrow> Huint \<Rightarrow> Huint \<Rightarrow> Huint \<Rightarrow> Hint" where
  "find_from [] n block i = -1"
| "find_from (c # cs) n block i = (if line_hit n block c then i else find_from cs n block (i + 1))"

definition sysace_block_cachefind :: "sysace_block \<Rightarrow> Huint \<Rightarrow> Hint \<times> sysace_block" where
  "sysace_block_cachefind blk block =
     (let res = find_from (take (unat (depth blk)) (info blk)) (lines blk) block 0 in
      if res = -1 then (-1, blk\<lparr>miss := miss blk + 1\<rparr>) else (res, blk\<lparr>hit := hit blk + 1\<rparr>))"

definition sysace_block_cacheload ::
  "'d chip \<Rightarrow> Huint \<Rightarrow> Huint \<Rightarrow> 'd blockdev \<Rightarrow> (Hint \<times> 'd blockdev) option" where
  "sysace_block_cacheload C line sec = (\<lambda>(blk, d).
     do { (res, d) \<leftarrow> sysace_lock C (ace blk) d;
          if sint res < 0 then Some (res, blk, d)
          else do { (res, d) \<leftarrow> sysace_cf_ready C (ace blk) d;
            if sint res < 0 then Some (res, blk, d)
            else do { (sz, bs, d) \<leftarrow> sysace_cf_readsector C (ace blk) sec (lines blk) d;
              let blk = blk\<lparr>cache := put_bytes (unat (SYSACE_DATA_SECTOR * line * lines blk)) bs (cache blk)\<rparr>;
              if sz < lines blk * SYSACE_DATA_SECTOR then Some (EIO, blk, d)
              else let d = snd (sysace_unlock C (ace blk) d)
                in Some (line, blk\<lparr>info := (info blk)[unat line := (info blk ! unat line)
                     \<lparr>ci_sector := sec, ci_cold := 0, ci_dirty := 0\<rparr>]\<rparr>, d) } } })"

definition sysace_block_cachestore :: "'d chip \<Rightarrow> Huint \<Rightarrow> 'd blockdev \<Rightarrow> (Hint \<times> 'd blockdev) option" where
  "sysace_block_cachestore C line = (\<lambda>(blk, d).
     do { (res, d) \<leftarrow> sysace_lock C (ace blk) d;
          if sint res < 0 then Some (res, blk, d)
          else do { (res, d) \<leftarrow> sysace_cf_ready C (ace blk) d;
            if sint res < 0 then Some (res, blk, d)
            else do { (sz, d) \<leftarrow> sysace_cf_writesector C (ace blk) (ci_sector (info blk ! unat line)) (lines blk)
                  (get_bytes (unat (line * SYSACE_DATA_SECTOR * lines blk)) (unat (lines blk * SYSACE_DATA_SECTOR)) (cache blk)) d;
              if sz < lines blk * SYSACE_DATA_SECTOR then Some (EIO, blk, d)
              else let d = snd (sysace_unlock C (ace blk) d)
                in Some (SUCCESS, blk\<lparr>info := (info blk)[unat line := (info blk ! unat line)\<lparr>ci_dirty := 0\<rparr>]\<rparr>, d) } } })"

definition sysace_block_cachetouch :: "sysace_block \<Rightarrow> Huint \<Rightarrow> Huint \<times> sysace_block" where
  "sysace_block_cachetouch blk line =
     (let old = ci_lru (info blk ! unat line) in
      if old = 0 then (old, blk)
      else let n = unat (depth blk);
               infs = map (\<lambda>c. if ci_lru c \<le> old \<and> ci_lru c \<noteq> 0xFFFFFFFF then c\<lparr>ci_lru := ci_lru c + 1\<rparr> else c)
                  (take n (info blk)) @ drop n (info blk)
           in (old, blk\<lparr>info := infs[unat line := (infs ! unat line)\<lparr>ci_lru := 0, ci_second := 0\<rparr>]\<rparr>))"

text \<open>The loop of \<^verbatim>\<open>sysace_block_cachereplace\<close>: the first cold line, or else the oldest.\<close>

primrec replace_scan :: "cache_info list \<Rightarrow> nat \<Rightarrow> nat \<Rightarrow> nat \<Rightarrow> nat + nat" where
  "replace_scan infs 0 i best = Inr best"
| "replace_scan infs (Suc n) i best =
     (if ci_cold (infs ! i) \<noteq> 0 then Inl i
      else replace_scan infs n (Suc i) (if ci_lru (infs ! i) > ci_lru (infs ! best) then i else best))"

definition unchanced :: "sysace_block \<Rightarrow> nat" where
  "unchanced blk = length (filter (\<lambda>c. ci_second c = 0) (info blk))"

lemma unchanced_less:
  assumes "b < length (info blk)" "ci_second (info blk ! b) = 0"
  shows "unchanced (blk\<lparr>info := (info blk)[b := (info blk ! b)\<lparr>ci_second := 1\<rparr>]\<rparr>) < unchanced blk"
proof -
  let ?P = "\<lambda>c. ci_second c = 0"
  have s: "info blk = take b (info blk) @ info blk ! b # drop (Suc b) (info blk)"
    using assms(1) by (simp add: id_take_nth_drop)
  have "(info blk)[b := c] = take b (info blk) @ c # drop (Suc b) (info blk)" for c
    using assms(1) by (simp add: upd_conv_take_nth_drop)
  moreover have "length (filter ?P (info blk)) =
      length (filter ?P (take b (info blk))) + 1 + length (filter ?P (drop (Suc b) (info blk)))"
    using assms(2) by (subst s) simp
  ultimately show ?thesis by (simp add: unchanced_def)
qed

function sysace_block_cachereplace :: "'d chip \<Rightarrow> 'd blockdev \<Rightarrow> (Hint \<times> 'd blockdev) option" where
  "sysace_block_cachereplace C (blk, d) =
     (case replace_scan (info blk) (unat (depth blk)) 0 0 of
        Inl i \<Rightarrow> Some (of_nat i, blk, d)
      | Inr best \<Rightarrow>
          if length (info blk) \<le> best then None
          else let c = info blk ! best in
            if ci_dirty c \<noteq> 0 \<and> ci_second c = 0
            then sysace_block_cachereplace C (blk\<lparr>info := (info blk)[best := c\<lparr>ci_second := 1\<rparr>]\<rparr>, d)
            else if ci_dirty c \<noteq> 0
            then do { (_, blk, d) \<leftarrow> sysace_block_cachestore C (of_nat best) (blk, d); Some (of_nat best, blk, d) }
            else Some (of_nat best, blk, d))"
  by pat_completeness auto
termination
  by (relation "measure (\<lambda>(C, blk, d). unchanced blk)") (auto intro: unchanced_less)

declare sysace_block_cachereplace.simps [simp del]

definition sysace_block_cacheread :: "'d chip \<Rightarrow> Huint \<Rightarrow> 'd blockdev \<Rightarrow> (Hint \<times> 'd blockdev) option" where
  "sysace_block_cacheread C block s =
     do { (line, blk, d) \<leftarrow> sysace_block_cachereplace C s;
          if lines blk = 0 then None
          else sysace_block_cacheload C line (block - block mod lines blk) (blk, d) }"

text \<open>The line that holds a block, loaded if need be; negative when that failed.\<close>

definition get_line :: "'d chip \<Rightarrow> Huint \<Rightarrow> 'd blockdev \<Rightarrow> (Hint \<times> 'd blockdev) option" where
  "get_line C i = (\<lambda>(blk, d). let (line, blk) = sysace_block_cachefind blk i in
     if sint line < 0 then sysace_block_cacheread C i (blk, d) else Some (line, blk, d))"

definition sector_addr :: "sysace_block \<Rightarrow> Hint \<Rightarrow> Huint \<Rightarrow> nat" where
  "sector_addr blk line i = unat (SYSACE_DATA_SECTOR * (line * lines blk + i mod lines blk))"

text \<open>
  \<open>block_steps start num\<close>: how often a loop \<^verbatim>\<open>for(i = start; i < start+num; i++)\<close> runs; not at
  all when the sum wraps around.
\<close>

definition block_steps :: "Huint \<Rightarrow> Huint \<Rightarrow> nat" where
  "block_steps start num = (if start < start + num then unat num else 0)"

primrec read_loop :: "'d chip \<Rightarrow> nat \<Rightarrow> Huint \<Rightarrow> 'd blockdev \<Rightarrow> (Hint \<times> Hubyte list \<times> 'd blockdev) option" where
  "read_loop C 0 i s = Some (SUCCESS, [], s)"
| "read_loop C (Suc n) i s =
     do { (line, blk, d) \<leftarrow> get_line C i s;
          if sint line < 0 then Some (line, [], blk, d)
          else if length (info blk) \<le> unat line then None
          else do { let bs = get_bytes (sector_addr blk line i) 512 (cache blk);
                    let blk = snd (sysace_block_cachetouch blk line);
                    (res, bs', s) \<leftarrow> read_loop C n (i + 1) (blk, d);
                    Some (res, bs @ bs', s) } }"

definition sysace_block_read :: "'d chip \<Rightarrow> 'd blockdev block_read" where
  "sysace_block_read C s start num = read_loop C (block_steps start num) start s"

primrec write_loop :: "'d chip \<Rightarrow> nat \<Rightarrow> Huint \<Rightarrow> Hubyte list \<Rightarrow> 'd blockdev \<Rightarrow> (Hint \<times> 'd blockdev) option" where
  "write_loop C 0 i bs s = Some (SUCCESS, s)"
| "write_loop C (Suc n) i bs s =
     do { (line, blk, d) \<leftarrow> get_line C i s;
          if sint line < 0 then Some (line, blk, d)
          else if length (info blk) \<le> unat line then None
          else do { let blk = blk\<lparr>cache := put_bytes (sector_addr blk line i) (take 512 bs) (cache blk)\<rparr>;
                    let blk = snd (sysace_block_cachetouch blk line);
                    let blk = blk\<lparr>info := (info blk)[unat line := (info blk ! unat line)\<lparr>ci_dirty := 1\<rparr>]\<rparr>;
                    write_loop C n (i + 1) (drop 512 bs) (blk, d) } }"

definition sysace_block_write :: "'d chip \<Rightarrow> 'd blockdev block_write" where
  "sysace_block_write C s start num bs = write_loop C (block_steps start num) start bs s"

definition cold_info :: "cache_info \<Rightarrow> cache_info" where
  "cold_info c = c\<lparr>ci_cold := 1, ci_lru := 0xFFFFFFFF, ci_sector := 0, ci_dirty := 0, ci_second := 0\<rparr>"

primrec flush_lines :: "'d chip \<Rightarrow> nat \<Rightarrow> nat \<Rightarrow> 'd blockdev \<Rightarrow> (Hint \<times> 'd blockdev) option" where
  "flush_lines C 0 i s = Some (SUCCESS, s)"
| "flush_lines C (Suc n) i s =
     do { (res, blk, d) \<leftarrow> (if ci_dirty (info (fst s) ! i) \<noteq> 0
              then sysace_block_cachestore C (of_nat i) s else Some (SUCCESS, s));
          if sint res < 0 then Some (res, blk, d)
          else flush_lines C n (Suc i) (blk\<lparr>info := (info blk)[i := cold_info (info blk ! i)]\<rparr>, d) }"

definition sysace_block_cacheflush :: "'d chip \<Rightarrow> 'd blockdev \<Rightarrow> (Hint \<times> 'd blockdev) option" where
  "sysace_block_cacheflush C s =
     do { (res, blk, d) \<leftarrow> flush_lines C (unat (depth (fst s))) 0 s;
          if sint res < 0 then Some (res, blk, d)
          else Some (SUCCESS, blk\<lparr>hit := 0, miss := 0\<rparr>, d) }"

text \<open>
  \<open>new_cache\<close> and \<open>new_info\<close> are what \<^verbatim>\<open>malloc\<close> returns for the two arrays: nothing, or memory
  with whatever it holds. Without lines or depth the pointers keep their values.
\<close>

definition sysace_block_cachesize ::
  "'d chip \<Rightarrow> memory option \<Rightarrow> cache_info list option \<Rightarrow> Huint \<Rightarrow> Huint \<Rightarrow> 'd blockdev \<Rightarrow> (Hint \<times> 'd blockdev) option" where
  "sysace_block_cachesize C new_cache new_info n dp s =
     do { (blk, d) \<leftarrow> (if cache_ptr (fst s)
            then do { (_, s) \<leftarrow> sysace_block_cacheflush C s; Some s } else Some s);
          let blk = blk\<lparr>lines := n, depth := dp\<rparr>;
          if 0 < n \<and> 0 < dp then
            (case new_cache of None \<Rightarrow> Some (ENOMEM, blk\<lparr>cache_ptr := False\<rparr>, d)
             | Some m \<Rightarrow> (case new_info of
                 None \<Rightarrow> Some (ENOMEM, blk\<lparr>cache_ptr := False, info_ptr := False\<rparr>, d)
               | Some infs \<Rightarrow> Some (SUCCESS, blk\<lparr>cache_ptr := True, cache := m, info_ptr := True,
                    info := map cold_info (take (unat dp) infs)\<rparr>, d)))
          else Some (SUCCESS, blk, d) }"

text \<open>\<open>new_ace\<close> is the allocated structure; the status of the cache allocation is ignored.\<close>

definition sysace_block_create ::
  "'d chip \<Rightarrow> sysace_block option \<Rightarrow> memory option \<Rightarrow> cache_info list option \<Rightarrow> Huint \<Rightarrow> Huint \<Rightarrow> Huint \<Rightarrow> 'd \<Rightarrow>
   (Hint \<times> sysace_block option \<times> 'd) option" where
  "sysace_block_create C new_ace new_cache new_info base n dp d =
     (case new_ace of None \<Rightarrow> Some (ENOMEM, None, d)
      | Some blk \<Rightarrow>
          do { (_, blk, d) \<leftarrow> sysace_block_cachesize C new_cache new_info n dp
                 (blk\<lparr>hit := 0, miss := 0, lines := 0, depth := 0, cache_ptr := False, info_ptr := False\<rparr>, d);
               (res, a, d) \<leftarrow> sysace_create C base d;
               if res \<noteq> SUCCESS then Some (res, None, d)
               else Some (SUCCESS, Some (blk\<lparr>ace := a\<rparr>), d) })"

definition sysace_block_destroy :: "'d chip \<Rightarrow> 'd blockdev \<Rightarrow> (Hint \<times> 'd) option" where
  "sysace_block_destroy C s =
     do { (_, blk, d) \<leftarrow> sysace_block_cachesize C None None 0 0 s; Some (SUCCESS, d) }"

end
