(* ===== verification/Cached_Disk.thy ===== *)
theory Cached_Disk
  imports Block_Cache
begin

text \<open>
  The block cache refines a plain disk. \<open>content\<close> is what the device holds (the cached copy of
  a sector if there is one, the card's otherwise), \<open>cache_inv\<close> the invariant of the cache. Loading,
  replacing, touching and writing back lines leave the content as it is; a write changes the
  named sectors. Theory \<open>Cached_Device\<close> lifts this to the functions of \<^verbatim>\<open>block.c\<close>.
\<close>

section \<open>Content and invariant\<close>

definition holds_line :: "sysace_block \<Rightarrow> Huint \<Rightarrow> nat \<Rightarrow> bool" where
  "holds_line blk b l \<longleftrightarrow> l < length (info blk) \<and> ci_cold (info blk ! l) = 0 \<and>
     unat (ci_sector (info blk ! l)) = unat b div unat (lines blk) * unat (lines blk)"

definition cached_sector :: "sysace_block \<Rightarrow> nat \<Rightarrow> nat \<Rightarrow> Hubyte list" where
  "cached_sector blk l k = get_bytes (512 * (l * unat (lines blk) + k)) 512 (cache blk)"

definition content :: "sysace_block \<Rightarrow> disk \<Rightarrow> disk" where
  "content blk D b = (case find (holds_line blk b) [0..<length (info blk)] of
     None \<Rightarrow> D b | Some l \<Rightarrow> cached_sector blk l (unat b mod unat (lines blk)))"

definition geometry_ok :: "sysace_block \<Rightarrow> nat \<Rightarrow> bool" where
  "geometry_ok blk n \<longleftrightarrow> 0 < unat (lines blk) \<and> unat (lines blk) < 256 \<and> 0 < unat (depth blk) \<and>
     512 * (unat (depth blk) * unat (lines blk)) < 2 ^ 31 \<and> length (info blk) = unat (depth blk) \<and> n < 2 ^ 31"

definition line_ok :: "sysace_block \<Rightarrow> disk \<Rightarrow> nat \<Rightarrow> nat \<Rightarrow> bool" where
  "line_ok blk D n l \<longleftrightarrow> (let c = info blk ! l; L = unat (lines blk) in
     if ci_cold c = 0 then unat (ci_sector c) mod L = 0 \<and> unat (ci_sector c) + L \<le> n \<and>
       (ci_dirty c = 0 \<longrightarrow> (\<forall>k<L. cached_sector blk l k = D (ci_sector c + of_nat k)))
     else ci_dirty c = 0)"

definition lines_apart :: "sysace_block \<Rightarrow> bool" where
  "lines_apart blk \<longleftrightarrow> (\<forall>i<length (info blk). \<forall>j<length (info blk).
     ci_cold (info blk ! i) = 0 \<and> ci_cold (info blk ! j) = 0 \<and> ci_sector (info blk ! i) = ci_sector (info blk ! j) \<longrightarrow> i = j)"

definition cache_inv :: "sysace_block \<Rightarrow> disk \<Rightarrow> nat \<Rightarrow> bool" where
  "cache_inv blk D n \<longleftrightarrow> geometry_ok blk n \<and> lines_apart blk \<and> (\<forall>l<length (info blk). line_ok blk D n l)"

lemma cache_invD:
  assumes "cache_inv blk D n"
  shows "geometry_ok blk n" "lines_apart blk" "l < length (info blk) \<Longrightarrow> line_ok blk D n l"
  using assms by (simp_all add: cache_inv_def)

lemma holds_unique: "cache_inv blk D n \<Longrightarrow> holds_line blk b l \<Longrightarrow> holds_line blk b l' \<Longrightarrow> l = l'"
  unfolding cache_inv_def lines_apart_def holds_line_def by (metis word_unat_eq_iff)

lemma content_hit:
  assumes "cache_inv blk D n" "holds_line blk b l"
  shows "content blk D b = cached_sector blk l (unat b mod unat (lines blk))"
proof -
  have "find (holds_line blk b) [0..<length (info blk)] = Some l"
  proof (cases "find (holds_line blk b) [0..<length (info blk)]")
    case None
    then show ?thesis using assms(2) by (auto simp: find_None_iff holds_line_def)
  next
    case (Some l')
    then have "holds_line blk b l'" by (auto simp: find_Some_iff)
    then show ?thesis using Some holds_unique [OF assms] by simp
  qed
  then show ?thesis by (simp add: content_def)
qed

lemma content_miss: "(\<And>l. \<not> holds_line blk b l) \<Longrightarrow> content blk D b = D b"
  by (simp add: content_def find_None_iff [THEN iffD2] split: option.split)

text \<open>An aligned line starts at \<open>b div L * L\<close> exactly when it covers \<open>b\<close>.\<close>

lemma aligned_cover:
  assumes "s mod L = 0" "0 < (L :: nat)"
  shows "s = b div L * L \<longleftrightarrow> s \<le> b \<and> b < s + L"
proof
  assume "s = b div L * L"
  then show "s \<le> b \<and> b < s + L" using assms(2) by (simp add: dividend_less_div_times add.commute)
next
  assume b: "s \<le> b \<and> b < s + L"
  obtain q where q: "s = q * L" using assms(1) by (metis mod_0_imp_dvd dvd_div_mult_self)
  then have "b div L = q" using b by (intro div_nat_eqI) (simp_all add: algebra_simps)
  then show "s = b div L * L" using q by simp
qed

lemma line_hit_iff:
  assumes "geometry_ok blk n" "line_ok blk D n l" "unat b < n"
  shows "line_hit (lines blk) b (info blk ! l) \<longleftrightarrow> ci_cold (info blk ! l) = 0 \<and>
     unat (ci_sector (info blk ! l)) = unat b div unat (lines blk) * unat (lines blk)"
proof (cases "ci_cold (info blk ! l) = 0")
  case True
  let ?s = "ci_sector (info blk ! l)" and ?L = "unat (lines blk)"
  have g: "unat ?s mod ?L = 0" "unat ?s + ?L \<le> n" "0 < ?L" "n < 2 ^ 31"
    using assms(1,2) True by (simp_all add: line_ok_def Let_def geometry_ok_def)
  have u: "unat (b - ?s) = (if unat ?s \<le> unat b then unat b - unat ?s else 2 ^ 32 + unat b - unat ?s)"
    by (simp add: unat_sub_if_size word_size) arith
  show ?thesis
    unfolding aligned_cover [OF g(1,3)] using True u g(2,4) assms(3)
    by (auto simp: line_hit_def Let_def word_less_nat_alt sint_nonneg_iff)
qed (simp add: line_hit_def Let_def)

text \<open>What statistics, recency and second chances do not touch.\<close>

definition same_lines :: "sysace_block \<Rightarrow> sysace_block \<Rightarrow> bool" where
  "same_lines blk blk' \<longleftrightarrow> ace blk' = ace blk \<and> lines blk' = lines blk \<and> depth blk' = depth blk \<and> cache blk' = cache blk \<and>
     length (info blk') = length (info blk) \<and> (\<forall>i<length (info blk). ci_sector (info blk' ! i) = ci_sector (info blk ! i) \<and>
       ci_cold (info blk' ! i) = ci_cold (info blk ! i) \<and> ci_dirty (info blk' ! i) = ci_dirty (info blk ! i))"

lemma same_lines_trans: "same_lines a b \<Longrightarrow> same_lines b c \<Longrightarrow> same_lines a c"
  by (simp add: same_lines_def)

lemma same_lines_holds: "same_lines blk blk' \<Longrightarrow> holds_line blk' b l = holds_line blk b l"
  by (auto simp: same_lines_def holds_line_def)

lemma same_lines_cached: "same_lines blk blk' \<Longrightarrow> cached_sector blk' l k = cached_sector blk l k"
  by (simp add: same_lines_def cached_sector_def)

lemma same_lines_content:
  assumes "same_lines blk blk'"
  shows "content blk' D b = content blk D b"
proof -
  have "holds_line blk' b = holds_line blk b" "length (info blk') = length (info blk)" "lines blk' = lines blk"
    using assms same_lines_holds [OF assms] by (auto simp: same_lines_def)
  then show ?thesis by (simp add: content_def same_lines_cached [OF assms] split: option.split)
qed

lemma same_lines_inv:
  assumes "same_lines blk blk'" "cache_inv blk D n"
  shows "cache_inv blk' D n"
proof -
  note c = same_lines_cached [OF assms(1)]
  have "geometry_ok blk' n" using assms by (simp add: same_lines_def cache_inv_def geometry_ok_def)
  moreover have "lines_apart blk'"
    using assms unfolding same_lines_def cache_inv_def lines_apart_def by metis
  moreover have "line_ok blk' D n l" if "l < length (info blk')" for l
    using assms that by (simp add: same_lines_def cache_inv_def line_ok_def Let_def c)
  ultimately show ?thesis by (simp add: cache_inv_def)
qed

section \<open>Finding a line\<close>

lemma find_from_miss: "(\<forall>c\<in>set cs. \<not> line_hit n b c) \<Longrightarrow> find_from cs n b i = -1"
  by (induction cs arbitrary: i) auto

lemma find_from_hit:
  "\<lbrakk>k < length cs; line_hit n b (cs ! k); \<And>j. j < k \<Longrightarrow> \<not> line_hit n b (cs ! j)\<rbrakk> \<Longrightarrow> find_from cs n b i = i + of_nat k"
proof (induction cs arbitrary: i k)
  case (Cons c cs)
  show ?case
  proof (cases k)
    case 0
    then show ?thesis using Cons.prems by simp
  next
    case (Suc k')
    then have "\<not> line_hit n b c" using Cons.prems(3) [of 0] by simp
    moreover have "find_from cs n b (i + 1) = i + 1 + of_nat k'"
    proof (rule Cons.IH)
      show "\<not> line_hit n b (cs ! j)" if "j < k'" for j using Cons.prems(3) [of "Suc j"] that Suc by simp
    qed (use Cons.prems(1,2) Suc in simp_all)
    ultimately show ?thesis using Suc by simp
  qed
qed simp

lemma line_number:
  assumes "geometry_ok blk n" "l < length (info blk)"
  shows "unat (of_nat l :: Hint) = l" "0 \<le> sint (of_nat l :: Hint)" "(of_nat l :: Hint) \<noteq> -1"
proof -
  have g: "512 * (unat (depth blk) * unat (lines blk)) < 2 ^ 31" "1 \<le> unat (lines blk)" "l < unat (depth blk)"
    using assms by (simp_all add: geometry_ok_def)
  have "unat (depth blk) * 1 \<le> unat (depth blk) * unat (lines blk)" by (rule mult_le_mono2 [OF g(2)])
  then have "l < 2 ^ 31" using g(1,3) by linarith
  then show u: "unat (of_nat l :: Hint) = l" by (simp add: unat_of_nat)
  then show "0 \<le> sint (of_nat l :: Hint)" using \<open>l < 2 ^ 31\<close> by (simp add: sint_nonneg_iff)
  then show "(of_nat l :: Hint) \<noteq> -1" by auto
qed

lemma cachefind_hit:
  assumes "cache_inv blk D n" "holds_line blk b l" "unat b < n"
  shows "sysace_block_cachefind blk b = (of_nat l, blk\<lparr>hit := hit blk + 1\<rparr>)"
proof -
  note inv = cache_invD [OF assms(1)]
  have l: "l < length (info blk)" using assms(2) by (simp add: holds_line_def)
  have iff: "line_hit (lines blk) b (info blk ! j) \<longleftrightarrow> holds_line blk b j" if "j < length (info blk)" for j
    using line_hit_iff [OF inv(1) inv(3) [OF that] assms(3)] that by (simp add: holds_line_def)
  have "find_from (info blk) (lines blk) b 0 = 0 + of_nat l"
  proof (rule find_from_hit [OF l])
    show "line_hit (lines blk) b (info blk ! l)" using iff [OF l] assms(2) by simp
    show "\<not> line_hit (lines blk) b (info blk ! j)" if "j < l" for j
      using iff [of j] that l holds_unique [OF assms(1,2), of j] by auto
  qed
  then show ?thesis using line_number(3) [OF inv(1) l] inv(1) by (simp add: sysace_block_cachefind_def geometry_ok_def)
qed

lemma cachefind_miss:
  assumes "cache_inv blk D n" "\<And>l. \<not> holds_line blk b l" "unat b < n"
  shows "sysace_block_cachefind blk b = (-1, blk\<lparr>miss := miss blk + 1\<rparr>)"
proof -
  note inv = cache_invD [OF assms(1)]
  have "\<not> line_hit (lines blk) b (info blk ! j)" if "j < length (info blk)" for j
    using line_hit_iff [OF inv(1) inv(3) [OF that] assms(3)] that assms(2) [of j] by (simp add: holds_line_def)
  then have "find_from (info blk) (lines blk) b 0 = -1"
    by (intro find_from_miss) (auto simp: in_set_conv_nth)
  then show ?thesis using inv(1) by (simp add: sysace_block_cachefind_def geometry_ok_def)
qed

section \<open>Addresses\<close>

lemma line_bound:
  assumes "geometry_ok blk n" "l < length (info blk)" "k \<le> unat (lines blk)"
  shows "512 * (l * unat (lines blk) + k) < 2 ^ 32"
proof -
  have g: "512 * (unat (depth blk) * unat (lines blk)) < 2 ^ 31" "l < unat (depth blk)"
    using assms by (simp_all add: geometry_ok_def)
  have "Suc l * unat (lines blk) \<le> unat (depth blk) * unat (lines blk)" using g(2) by (intro mult_le_mono1) simp
  then have "l * unat (lines blk) + k \<le> unat (depth blk) * unat (lines blk)" using assms(3) by simp
  then have "512 * (l * unat (lines blk) + k) \<le> 512 * (unat (depth blk) * unat (lines blk))" by (rule mult_le_mono2)
  also have "\<dots> < 2 ^ 31" by (rule g(1))
  finally show ?thesis by simp
qed

lemma line_addr:
  assumes "geometry_ok blk n" "l < length (info blk)" "k < unat (lines blk)"
  shows "unat (SYSACE_DATA_SECTOR * of_nat l * lines blk) = 512 * (l * unat (lines blk))"
    "unat (of_nat l * SYSACE_DATA_SECTOR * lines blk) = 512 * (l * unat (lines blk))"
    "unat (SYSACE_DATA_SECTOR * (of_nat l * lines blk + of_nat k)) = 512 * (l * unat (lines blk) + k)"
proof -
  let ?L = "unat (lines blk)"
  have of_nat: "unat (of_nat (512 * (l * ?L + j)) :: Huint) = 512 * (l * ?L + j)" if "j \<le> ?L" for j
    using line_bound [OF assms(1,2) that] unfolding unat_of_nat by (intro mod_less) simp
  have w: "SYSACE_DATA_SECTOR * of_nat l * lines blk = of_nat (512 * (l * ?L + 0))"
    "of_nat l * SYSACE_DATA_SECTOR * lines blk = of_nat (512 * (l * ?L + 0))"
    "SYSACE_DATA_SECTOR * (of_nat l * lines blk + of_nat k) = of_nat (512 * (l * ?L + k))"
    by (simp_all add: SYSACE_DATA_SECTOR_def algebra_simps)
  show "unat (SYSACE_DATA_SECTOR * of_nat l * lines blk) = 512 * (l * ?L)"
    "unat (of_nat l * SYSACE_DATA_SECTOR * lines blk) = 512 * (l * ?L)"
    "unat (SYSACE_DATA_SECTOR * (of_nat l * lines blk + of_nat k)) = 512 * (l * ?L + k)"
    unfolding w using of_nat [of 0] of_nat [of k] assms(3) by simp_all
qed

lemma sector_addr_eq:
  assumes "geometry_ok blk n" "l < length (info blk)"
  shows "sector_addr blk (of_nat l) b = 512 * (l * unat (lines blk) + unat b mod unat (lines blk))"
proof -
  have "unat b mod unat (lines blk) < unat (lines blk)" using assms(1) by (simp add: geometry_ok_def)
  moreover have "b mod lines blk = of_nat (unat b mod unat (lines blk))" 
    by (simp flip: unat_mod)
  ultimately show ?thesis using line_addr(3) [OF assms] by (simp add: sector_addr_def)
qed

lemma sub_bytes: "k < L \<Longrightarrow> take 512 (drop (512 * k) (get_bytes a (512 * L) m)) = get_bytes (a + 512 * k) 512 m"
proof (rule nth_equalityI)
  assume "k < L"
  then have "512 * k + 512 \<le> 512 * L" by simp
  then show "length (take 512 (drop (512 * k) (get_bytes a (512 * L) m))) = length (get_bytes (a + 512 * k) 512 m)"
    by simp
  then show "take 512 (drop (512 * k) (get_bytes a (512 * L) m)) ! i = get_bytes (a + 512 * k) 512 m ! i"
    if "i < length (take 512 (drop (512 * k) (get_bytes a (512 * L) m)))" for i
    using that \<open>512 * k + 512 \<le> 512 * L\<close> by (simp add: get_bytes_def add.assoc)
qed

section \<open>Writing a line back\<close>

lemma line_span:
  assumes "unat (s :: Huint) + L \<le> n" "n < 2 ^ 31"
  shows "unat (b - s) < L \<longleftrightarrow> unat s \<le> unat b \<and> unat b < unat s + L"
    "unat s \<le> unat b \<Longrightarrow> unat (b - s) = unat b - unat s"
  using assms by (auto simp: unat_sub_if_size word_size split: if_splits)

lemma same_base:
  assumes "cache_inv blk D n" "l < length (info blk)" "ci_cold (info blk ! l) = 0"
  shows "holds_line blk b l \<longleftrightarrow> unat (b - ci_sector (info blk ! l)) < unat (lines blk)"
    "holds_line blk b l \<Longrightarrow> unat (b - ci_sector (info blk ! l)) = unat b mod unat (lines blk)"
proof -
  let ?s = "ci_sector (info blk ! l)" and ?L = "unat (lines blk)"
  have g: "unat ?s mod ?L = 0" "unat ?s + ?L \<le> n" "0 < ?L" "n < 2 ^ 31"
    using cache_invD(1,3) [OF assms(1)] assms(2,3) by (auto simp: line_ok_def Let_def geometry_ok_def)
  show "holds_line blk b l \<longleftrightarrow> unat (b - ?s) < ?L"
    using assms(2,3) by (simp add: holds_line_def aligned_cover [OF g(1,3)] line_span(1) [OF g(2,4)])
  assume h: "holds_line blk b l"
  then have "unat ?s = unat b div ?L * ?L" by (simp add: holds_line_def)
  moreover have "unat ?s \<le> unat b" using h aligned_cover [OF g(1,3), of "unat b"] by (simp add: holds_line_def)
  ultimately show "unat (b - ?s) = unat b mod ?L"
    using line_span(2) [OF g(2,4)] by (simp add: minus_div_mult_eq_mod)
qed

lemma clean_content:
  assumes "cache_inv blk D n" "holds_line blk b l" "ci_dirty (info blk ! l) = 0"
  shows "content blk D b = D b"
proof -
  have l: "l < length (info blk)" "ci_cold (info blk ! l) = 0" using assms(2) by (simp_all add: holds_line_def)
  let ?s = "ci_sector (info blk ! l)" and ?k = "unat b mod unat (lines blk)"
  have "line_ok blk D n l" by (rule cache_invD(3) [OF assms(1) l(1)])
  moreover have "?k < unat (lines blk)" using cache_invD(1) [OF assms(1)] by (simp add: geometry_ok_def)
  ultimately have "cached_sector blk l ?k = D (?s + of_nat ?k)"
    using assms(3) l(2) by (simp add: line_ok_def Let_def)
  moreover have "of_nat ?k = b - ?s"
    using same_base(2) [OF assms(1) l assms(2)] by (metis of_nat_unat ucast_id)
  ultimately show ?thesis using content_hit [OF assms(1,2)] by simp
qed

lemma disk_write_line:
  "disk_write s n (get_bytes a (512 * unat n) m) D b =
    (if unat (b - s) < unat n then get_bytes (a + 512 * unat (b - s)) 512 m else D b)"
  by (simp add: disk_write_def sub_bytes)

lemma store_keeps:
  assumes inv: "cache_inv blk D n" and l: "l < length (info blk)" "ci_cold (info blk ! l) = 0"
    and D': "D' = disk_write (ci_sector (info blk ! l)) (lines blk)
      (get_bytes (512 * (l * unat (lines blk))) (512 * unat (lines blk)) (cache blk)) D"
    and blk': "blk' = blk\<lparr>info := (info blk)[l := (info blk ! l)\<lparr>ci_dirty := 0\<rparr>]\<rparr>"
  shows "cache_inv blk' D' n" "content blk' D' b = content blk D b"
proof -
  let ?s = "ci_sector (info blk ! l)" and ?L = "unat (lines blk)"
  have new: "D' x = (if holds_line blk x l then cached_sector blk l (unat x mod ?L) else D x)" for x
    unfolding D' disk_write_line using same_base [OF inv l, of x] by (auto simp: cached_sector_def algebra_simps)
  have c: "cached_sector blk' = cached_sector blk" by (simp add: blk' cached_sector_def fun_eq_iff)
  have i: "length (info blk') = length (info blk)" "lines blk' = lines blk"
      "ci_sector (info blk' ! j) = ci_sector (info blk ! j)" "ci_cold (info blk' ! j) = ci_cold (info blk ! j)" for j
    using l(1) by (simp_all add: blk' nth_list_update)
  have h: "holds_line blk' = holds_line blk" by (simp add: holds_line_def i fun_eq_iff)
  have at: "holds_line blk (ci_sector (info blk ! j) + of_nat k) j" "unat (ci_sector (info blk ! j) + of_nat k) mod ?L = k"
    if "j < length (info blk)" "ci_cold (info blk ! j) = 0" "k < ?L" for j k
  proof -
    have u: "unat (of_nat k :: Huint) = k"
      using that(3) cache_invD(1) [OF inv] unfolding unat_of_nat by (simp add: geometry_ok_def)
    then show a: "holds_line blk (ci_sector (info blk ! j) + of_nat k) j" using same_base(1) [OF inv that(1,2)] that(3) by simp
    show "unat (ci_sector (info blk ! j) + of_nat k) mod ?L = k" using same_base(2) [OF inv that(1,2) a] u by simp
  qed
  have "line_ok blk' D' n j" if j: "j < length (info blk')" for j
  proof -
    have ok: "line_ok blk D n j" using cache_invD(3) [OF inv] j i(1) by simp
    have "cached_sector blk j k = D' (ci_sector (info blk ! j) + of_nat k)"
      if w: "ci_cold (info blk ! j) = 0" "k < ?L" "j = l \<or> ci_dirty (info blk ! j) = 0" for k
    proof (cases "j = l")
      case True
      then show ?thesis using new at [OF l w(2)] by simp
    next
      case False
      then have "\<not> holds_line blk (ci_sector (info blk ! j) + of_nat k) l"
        using holds_unique [OF inv] at(1) [OF _ w(1,2)] j i(1) by auto
      then show ?thesis using new ok w False by (simp add: line_ok_def Let_def)
    qed
    then show ?thesis
      using ok l by (simp add: line_ok_def Let_def c i) (auto simp: blk' nth_list_update)
  qed
  moreover have "geometry_ok blk' n" "lines_apart blk'"
    using cache_invD(1,2) [OF inv] unfolding geometry_ok_def lines_apart_def i by (simp_all add: blk')
  ultimately show inv': "cache_inv blk' D' n" by (simp add: cache_inv_def)
  show "content blk' D' b = content blk D b"
  proof (cases "\<exists>j. holds_line blk b j")
    case True
    then show ?thesis using content_hit [OF inv] content_hit [OF inv'] by (auto simp: h c i)
  next
    case False
    then show ?thesis using content_miss [of blk b D] content_miss [of blk' b D'] new [of b] by (simp add: h)
  qed
qed

section \<open>Loading a line\<close>

lemma take_block:
  "\<lbrakk>\<And>i. length (f i) = 512; k < n\<rbrakk> \<Longrightarrow> take 512 (drop (512 * k) (concat (map f [0..<n]))) = f k"
proof (induction n)
  case (Suc n)
  have len: "length (concat (map f [0..<n])) = 512 * n" using Suc.prems(1) by (simp add: length_concat comp_def sum_list_triv)
  show ?case
  proof (cases "k = n")
    case True
    then show ?thesis using Suc.prems(1) by (simp add: len)
  next
    case False
    then have "512 * k + 512 \<le> 512 * n" using Suc.prems(2) by simp
    then show ?thesis using Suc False by (simp add: len)
  qed
qed simp

lemma get_put_within:
  assumes "k + n \<le> length bs"
  shows "get_bytes (a + k) n (put_bytes a bs m) = take n (drop k bs)"
  using assms by (intro nth_equalityI) (auto simp: get_bytes_def put_bytes_def)

definition loaded :: "sysace_block \<Rightarrow> nat \<Rightarrow> Huint \<Rightarrow> disk \<Rightarrow> sysace_block" where
  "loaded blk l sec D = blk\<lparr>cache := put_bytes (512 * (l * unat (lines blk))) (disk_read D sec (lines blk)) (cache blk),
     info := (info blk)[l := (info blk ! l)\<lparr>ci_sector := sec, ci_cold := 0, ci_dirty := 0\<rparr>]\<rparr>"

lemma loaded_cached:
  assumes "\<And>i. length (D i) = 512" "k < unat (lines blk)"
  shows "cached_sector (loaded blk l sec D) l k = D (sec + of_nat k)"
    "j \<noteq> l \<Longrightarrow> cached_sector (loaded blk l sec D) j k = cached_sector blk j k"
proof -
  let ?L = "unat (lines blk)"
  have len: "length (disk_read D sec (lines blk)) = 512 * ?L" by (rule length_disk_read [OF assms(1)])
  have "512 * k + 512 \<le> length (disk_read D sec (lines blk))" using assms(2) len by simp
  from get_put_within [OF this, of "512 * (l * ?L)"]
  show "cached_sector (loaded blk l sec D) l k = D (sec + of_nat k)"
    using take_block [of "\<lambda>i. D (sec + of_nat i)" k ?L] assms
    by (simp add: cached_sector_def loaded_def algebra_simps disk_read_def)
  assume "j \<noteq> l"
  then have "Suc j * ?L \<le> l * ?L \<or> Suc l * ?L \<le> j * ?L" by (metis mult_le_mono1 not_less_eq_eq nat_le_linear le_antisym Suc_leI nat_less_le)
  then show "cached_sector (loaded blk l sec D) j k = cached_sector blk j k"
    unfolding cached_sector_def loaded_def using assms(2) len by (simp, intro get_put_other) auto
qed

lemma loaded_keeps:
  assumes inv: "cache_inv blk D n" and D: "\<And>i. length (D i) = 512"
    and l: "l < length (info blk)" "ci_dirty (info blk ! l) = 0"
    and b: "\<And>j. \<not> holds_line blk b j" "unat sec = unat b div unat (lines blk) * unat (lines blk)"
      "unat sec + unat (lines blk) \<le> n"
  shows "cache_inv (loaded blk l sec D) D n" "content (loaded blk l sec D) D x = content blk D x"
    "holds_line (loaded blk l sec D) b l"
proof -
  let ?blk = "loaded blk l sec D" and ?L = "unat (lines blk)"
  have i: "length (info ?blk) = length (info blk)" "lines ?blk = lines blk" "depth ?blk = depth blk"
      "info ?blk ! j = (if j = l then (info blk ! l)\<lparr>ci_sector := sec, ci_cold := 0, ci_dirty := 0\<rparr> else info blk ! j)" for j
    using l(1) by (auto simp: loaded_def nth_list_update)
  have other: "ci_sector (info blk ! j) \<noteq> sec" if "j < length (info blk)" "ci_cold (info blk ! j) = 0" for j
    using b(1) [of j] b(2) that by (auto simp: holds_line_def)
  have "geometry_ok ?blk n" using cache_invD(1) [OF inv] by (simp add: geometry_ok_def i)
  moreover have "lines_apart ?blk"
    using cache_invD(2) [OF inv] other unfolding lines_apart_def by (auto simp: i)
  moreover have "line_ok ?blk D n j" if "j < length (info ?blk)" for j
    using cache_invD(3) [OF inv, of j] that b(2,3) loaded_cached [OF D, where blk = blk and l = l and sec = sec]
    by (auto simp: line_ok_def Let_def i split: if_splits)
  ultimately show inv': "cache_inv ?blk D n" by (simp add: cache_inv_def)
  show "holds_line ?blk b l" using l(1) b(2) by (simp add: holds_line_def i)
  have h: "holds_line ?blk x j \<longleftrightarrow> holds_line blk x j" if "j \<noteq> l" for j using that by (simp add: holds_line_def i)
  have k: "unat x mod ?L < ?L" using cache_invD(1) [OF inv] by (simp add: geometry_ok_def)
  show "content ?blk D x = content blk D x"
  proof (cases "\<exists>j. j \<noteq> l \<and> holds_line blk x j")
    case True
    then obtain j where j: "j \<noteq> l" "holds_line blk x j" by blast
    then show ?thesis
      using content_hit [OF inv j(2)] content_hit [OF inv', of x j] h [OF j(1)] loaded_cached(2) [OF D k j(1)] by (simp add: i)
  next
    case False
    have "content blk D x = D x"
    proof (cases "holds_line blk x l")
      case True
      then show ?thesis by (rule clean_content [OF inv _ l(2)])
    next
      case f: False
      then have "\<not> holds_line blk x j" for j using False by (cases "j = l") auto
      then show ?thesis by (rule content_miss)
    qed
    moreover have "content ?blk D x = D x"
    proof (cases "holds_line ?blk x l")
      case True
      then show ?thesis by (rule clean_content [OF inv']) (simp add: i)
    next
      case f: False
      then have "\<not> holds_line ?blk x j" for j using False h [of j] by (cases "j = l") auto
      then show ?thesis by (rule content_miss)
    qed
    ultimately show ?thesis by simp
  qed
qed

section \<open>Writing a sector\<close>

definition written :: "sysace_block \<Rightarrow> nat \<Rightarrow> nat \<Rightarrow> Hubyte list \<Rightarrow> sysace_block" where
  "written blk l k cs = blk\<lparr>cache := put_bytes (512 * (l * unat (lines blk) + k)) cs (cache blk),
     info := (info blk)[l := (info blk ! l)\<lparr>ci_dirty := 1\<rparr>]\<rparr>"

lemma slot_disjoint:
  assumes "(k :: nat) < L" "k' < L" "j \<noteq> l \<or> k' \<noteq> k"
  shows "j * L + k' + 1 \<le> l * L + k \<or> l * L + k + 1 \<le> j * L + k'"
proof -
  have "j * L + k' \<noteq> l * L + k"
  proof
    assume e: "j * L + k' = l * L + k"
    have "(j * L + k') div L = j" "(l * L + k) div L = l" "(j * L + k') mod L = k'" "(l * L + k) mod L = k"
      using assms(1,2) by simp_all
    then show False using e assms(3) by metis
  qed
  then show ?thesis by linarith
qed

lemma written_cached:
  assumes "length cs = 512" "k < unat (lines blk)" "k' < unat (lines blk)"
  shows "cached_sector (written blk l k cs) j k' = (if j = l \<and> k' = k then cs else cached_sector blk j k')"
proof (cases "j = l \<and> k' = k")
  case True
  then show ?thesis
    using get_put_same [of "512 * (l * unat (lines blk) + k)" cs "cache blk"] assms(1)
    by (simp add: cached_sector_def written_def)
next
  case False
  let ?a = "j * unat (lines blk) + k'" and ?b = "l * unat (lines blk) + k"
  have "?a + 1 \<le> ?b \<or> ?b + 1 \<le> ?a" using slot_disjoint [OF assms(2,3)] False by blast
  then have "512 * ?a + 512 \<le> 512 * ?b \<or> 512 * ?b + length cs \<le> 512 * ?a" using assms(1) by (auto simp: algebra_simps)
  from get_put_other [OF this, of "cache blk"] show ?thesis
    using False by (auto simp: cached_sector_def written_def)
qed

lemma written_keeps:
  assumes inv: "cache_inv blk D n" and h: "holds_line blk b l" and cs: "length cs = 512"
    and k: "k = unat b mod unat (lines blk)"
  shows "cache_inv (written blk l k cs) D n" "content (written blk l k cs) D x = (if x = b then cs else content blk D x)"
proof -
  let ?blk = "written blk l k cs" and ?L = "unat (lines blk)"
  have l: "l < length (info blk)" "ci_cold (info blk ! l) = 0" using h by (simp_all add: holds_line_def)
  have k': "unat y mod ?L < ?L" for y :: Huint using cache_invD(1) [OF inv] by (simp add: geometry_ok_def)
  have i: "length (info ?blk) = length (info blk)" "lines ?blk = lines blk" "depth ?blk = depth blk"
      "info ?blk ! j = (if j = l then (info blk ! l)\<lparr>ci_dirty := 1\<rparr> else info blk ! j)" for j
    using l(1) by (auto simp: written_def nth_list_update)
  have hl: "holds_line ?blk y j \<longleftrightarrow> holds_line blk y j" for y j by (auto simp: holds_line_def i)
  have kL: "k < ?L" using k' k by simp
  have "line_ok ?blk D n j" if "j < length (info ?blk)" for j
    using cache_invD(3) [OF inv, of j] that written_cached [OF cs kL] l
    by (auto simp: line_ok_def Let_def i split: if_splits)
  moreover have "geometry_ok ?blk n" using cache_invD(1) [OF inv] by (simp add: geometry_ok_def i)
  moreover have "ci_sector (info ?blk ! j) = ci_sector (info blk ! j)" "ci_cold (info ?blk ! j) = ci_cold (info blk ! j)" for j
    by (simp_all add: i)
  then have "lines_apart ?blk" using cache_invD(2) [OF inv] unfolding lines_apart_def i(1) by (simp only:)
  ultimately show inv': "cache_inv ?blk D n" by (simp add: cache_inv_def)
  show "content ?blk D x = (if x = b then cs else content blk D x)"
  proof (cases "\<exists>j. holds_line blk x j")
    case True
    then obtain j where j: "holds_line blk x j" by blast
    have c: "content ?blk D x = (if j = l \<and> unat x mod ?L = k then cs else content blk D x)"
      using content_hit [OF inv' hl [THEN iffD2, OF j]] content_hit [OF inv j] written_cached [OF cs kL k'] by (simp add: i)
    have "j = l \<and> unat x mod ?L = k \<longleftrightarrow> x = b"
    proof
      assume e: "j = l \<and> unat x mod ?L = k"
      then have "unat x div ?L * ?L = unat b div ?L * ?L" using j h by (simp add: holds_line_def)
      then have "unat x = unat b" using e k by (metis div_mult_mod_eq)
      then show "x = b" by (simp add: word_unat_eq_iff)
    next
      assume "x = b"
      then show "j = l \<and> unat x mod ?L = k" using holds_unique [OF inv h] j k by simp
    qed
    then show ?thesis using c by simp
  next
    case False
    then have "x \<noteq> b" using h by auto
    then show ?thesis using False content_miss [of blk x] content_miss [of ?blk x] hl by simp
  qed
qed

lemma touch_same: "l < length (info blk) \<Longrightarrow> length (info blk) = unat (depth blk) \<Longrightarrow>
    unat (line :: Huint) = l \<Longrightarrow> same_lines blk (snd (sysace_block_cachetouch blk line))"
  by (auto simp: sysace_block_cachetouch_def Let_def same_lines_def nth_list_update)

end
