(* ===== verification/Fat16.thy ===== *)
theory Fat16
  imports Block_Device
begin

text \<open>
  The FAT16 file system of \<^verbatim>\<open>src/software/fs/fat16\<close>, first part: partition table
  (\<^verbatim>\<open>part.c\<close>, \<^verbatim>\<open>mbr.c\<close>), boot sector (\<^verbatim>\<open>boots.c\<close>) and the geometry of a
  file system (\<^verbatim>\<open>fat16.c\<close>). The packed structures that are read from the disk live in
  memory as bytes: a field is the load of its bytes at its offset, and a conversion from
  little endian is a store to the same place, so that what a conversion does next to its object
  is visible. \<^verbatim>\<open>block->read\<close> is the parameter \<open>rd\<close>. The trace messages are left out.
\<close>

section \<open>Partitions (part.c)\<close>

definition PART_TYPES_lo :: "string option list" where
  "PART_TYPES_lo = [
     None, Some ''DOS FAT12'', Some ''XENIX root'', Some ''XENIX /usr'', Some ''DOS 3.0+ FAT16'',
     Some ''DOS 3.3+ Extended'', Some ''DOS 3.31+ FAT16'',
     Some ''HPFS / NTFS / Advanced Unix / QNX2.x (pre-1988)'',
     Some ''OS/2 / AIX BOOT / SplitDrive / Commodore DOS / DELL /  QNX ('qny')'',
     Some ''AIX DATA / Coherent FS / QNZ ('qnz')'', Some ''OS/2 Boot Managear / Coherent Swap / OPUS'',
     Some ''WIN95 FAT32'', Some ''WIN95 FAT32, LBA-mapped'', None, Some ''WIN95 FAT16, LBA-mapped'',
     Some ''WIN95 Extended, LBA-mapped'', Some ''OPUS (?)'', Some ''DOS FAT12 Hidden'',
     Some ''Compaq Diagnostics'', None, Some ''DOS 3.0+ FAT16 Hidden / AST DOS'', None,
     Some ''DOS 3.31+ FAT16 Hidden'', Some ''HPFS Hidden'', Some ''AST SmartSleep'', None, None,
     Some ''WIN95 FAT32 Hidden'', Some ''WIN95 FAT32 Hidden, LBA-mapped'', None,
     Some ''WIN95 FAT16 Hidden, LBA-mapped'', None, None, Some ''Reserved'', None, Some ''Reserved'',
     Some ''NEC DOS 3.x'', None, Some ''Reserved'', None, None, None, Some ''AtheOS FS'',
     Some ''SyllableSecure'', None, None, None, None, None, Some ''Reserved'', Some ''NOS'',
     Some ''Reserved'', Some ''Reserved'', Some ''JFS on OS/2 / JFS on eCS'', Some ''Reserved'', None,
     Some ''THEOS 2GB'', Some ''Plan 9 / THEOS Spanned'', Some ''THEOS 4GB'', Some ''THEOS Extended'',
     Some ''PartitionMagic Recovery'', Some ''NetWare Hidden'', None, None, Some ''Venix 80286'',
     Some ''Linux / MINIX / RISC Boot / PPC PReP Boot'', Some ''Linux Swap / SFS / Windows 2000 Marker'',
     Some ''Linux Native'', Some ''GoBack'', Some ''Boot-US / Priam / EUMEL'', Some ''EUMEL/Elan'',
     Some ''EUMEL/Elan'', Some ''EUMEL/Elan'', None, Some ''AdaOS Aquila / ALFS'', None, Some ''Oberon'',
     Some ''QNX4.x'', Some ''QNX4.x 2nd'', Some ''QNX4.x 3rd / Oberon'',
     Some ''Lynx RTOS / Oberon Native / OnTrack Disk Manager RO'',
     Some ''Novell / OnTrack Disk Manager RW'', Some ''CP/M / SysV/AT'', Some ''Disk Manager 6.0'',
     Some ''Disk Manager 6.0 DDO'', Some ''EZ-Drive'', Some ''Golden Bow VFeature / DM -> EZ-BIOS'',
     Some ''DrivePro / VNDI'', None, None, None, None, Some ''Priam EDisk'', None, None, None, None,
     Some ''SpeedStor'', None, Some ''Unix System V / Mach / GNU Hurd'',
     Some ''PC-ARMOUR Protected / Novell Netware 286'', Some ''Novell Netware'',
     Some ''Novell Netware SMS'', Some ''Novell'', Some ''Novell'',
     Some ''Novell Netware 5+ / Novell Netware NSS'', None, None, None, None, None, None,
     Some ''DiskSecure Multi-Boot'', Some ''Reserved'', None, Some ''Reserved'', Some ''Scramdisk'',
     Some ''IBM PC/IX'', Some ''Reserved'', Some ''M2FS/M2CS / VNDI'', Some ''XOSL FS'', None, None, None,
     None, None, None, None]"

definition PART_TYPES_hi :: "string option list" where
  "PART_TYPES_hi = [
     Some ''MINIX until 1.4a'', Some ''MINIX since 1.4b, early Linux / Mitac Disk Manager'',
     Some ''Linux Swap / Solaris x86 / Prime'', Some ''Linux Native'', Some ''OS/2 Hidden / Hibernation'',
     Some ''Linux Extended'', Some ''Linux RAID Superblock / FAT16 Volume Set'', Some ''NTFS volume set'',
     Some ''Linux Plaintext'', None, Some ''Linux Kernel'', Some ''Fault Tolerant FAT32'',
     Some ''Fault Tolerant FAT32, INT 13h'', Some ''FDISK Hidden DOS FAT12'',
     Some ''Linux Logical Volume Manager'', None, Some ''FDISK Hidden DOS FAT16'',
     Some ''FDISK Hidden DOS Extended'', Some ''FDISK Hidden DOS Large FAT16'',
     Some ''Amoeba / Linux Native Hidden'', Some ''Amoeba Bad Block'',
     Some ''MIT EXOPC native partitions'', None, Some ''FDISK Hidden DOS FAT32'',
     Some ''FDISK Hidden DOS FAT32, LBA-mapped / Datalight ROM-DOS'', Some ''DCE376'',
     Some ''FDISK Hidden DOS FAT16, LBA-mapped'', Some ''FDISK Hidden DOS Extended, LBA-mapped'', None,
     None, None, Some ''BSD/OS'', Some ''Laptop Hibernation'',
     Some ''HP Volume Expansion / Laptop Hibernation'', None, Some ''HP Volume Expansion'',
     Some ''HP Volume Expansion'', Some ''BSD/386, 386BSD, NetBSD, FreeBSD'', Some ''OpenBSD'',
     Some ''NEXTSTEP'', Some ''Mac OS-X'', Some ''NetBSD'',
     Some ''Olivetti Fat 12 1.44Mb Service Partition'', Some ''Mac OS-X Boot / GO!'', None, None,
     Some ''ShagOS'', Some ''ShagOS Swap'', Some ''BootStar Dummy'', Some ''HP Volume Expansion'', None,
     Some ''HP Volume Expansion'', Some ''HP Volume Expansion'', None, Some ''HP Volume Expansion'',
     Some ''BSDI BSD/386'', Some ''BSDI BSD/386 Swap'', None, None, Some ''Boot Wizard Hidden'', None,
     None, Some ''Solaris 8 Boot'', Some ''New Solaris x86'',
     Some ''CTOS / REAL/32 Secure / NTFT / DRDOS'', Some ''DRDOS Secured'', Some ''Linux Hidden'',
     Some ''Linux Swap Hidden'', Some ''DRDOS/secured'', Some ''DRDOS/secured'',
     Some ''DRDOS/secured / Windows NT Corrupted FAT16'',
     Some ''Syrinx Boot / Windows NT Corrupted NTFS'', Some ''Reserved'', Some ''Reserved'',
     Some ''Reserved'', Some ''DRDOS/secured FAT32'', Some ''DRDOS/secured FAT32, LBA-mapped'',
     Some ''CTOS Memdump'', Some ''DRDOS/secured FAT16, LBA-mapped'', None,
     Some ''REAL/32 Secured / Multiuser DOS Secured'', Some ''Old Multiuser DOS secured FAT12'', None,
     None, Some ''Old Multiuser DOS secured FAT16 <32M'',
     Some ''Old Multiuser DOS secured extended partition'',
     Some ''Old Multiuser DOS secured FAT16 >=32M'', None, Some ''CP/M-86'', None,
     Some ''Non-FS Data / Powercopy Backup'', Some ''CP/M / Concurrent DOS / CTOS / KDG SCPU'', None,
     Some ''CTOS Memdump Hidden'', Some ''Dell PowerEdge Server Utilities'',
     Some ''DG/UX Virtual Disk Manager / BootIt EMBRM'',
     Some ''Reserved by STMicroelectronics for a filesystem called ST AVFS.'',
     Some ''DOS access or SpeedStor 12-bit FAT extended partition'', None, Some ''DOS R/O or SpeedStor'',
     Some ''SpeedStor 16-bit FAT extended partition < 1024 cyl.'',
     Some ''Tandy DOS with logical sectored FAT  (According to Powerquest.)'',
     Some ''Storage Dimensions'', None, None, None, None, Some ''BeOS BFS'', Some ''SkyFS'', None,
     Some ''EFI Header'', Some ''EFI'', Some ''Linux/PA-RISC'', Some ''SpeedStor'',
     Some ''DOS 3.3+ Secondary'', Some ''SpeedStor'', Some ''SpeedStor Large / Prologue Single-Volume'',
     Some ''Prologue Multi-Volume'', Some ''SpeedStor'', None, None, Some ''pCacheBochs'',
     Some ''VMware File System partition'', Some ''VMware Swap partition'',
     Some ''Linux RAID Persistent Superblock'',
     Some ''SpeedStor / LANstep / IBM PS/2 IML / Windows NT Hidden / Linux LVM'',
     Some ''Xenix Bad Block Table'']"

text \<open>The array has 256 elements; C fills the ones that are not listed with null pointers.\<close>

definition PART_TYPES :: "string option list" where
  "PART_TYPES = (let ts = PART_TYPES_lo @ PART_TYPES_hi in ts @ replicate (256 - length ts) None)"

definition fat16_part_typestr :: "Hubyte \<Rightarrow> string" where
  "fat16_part_typestr type =
     (case PART_TYPES ! unat type of None \<Rightarrow> ''Unknown'' | Some str \<Rightarrow> str)"

text \<open>
  Layout of \<^verbatim>\<open>fat16_prt_t\<close>: \<^verbatim>\<open>state\<close> 0, \<^verbatim>\<open>start_head\<close> 1, \<^verbatim>\<open>start_sector\<close> 2,
  \<^verbatim>\<open>type\<close> 4, \<^verbatim>\<open>end_head\<close> 5, \<^verbatim>\<open>end_sector\<close> 6, \<^verbatim>\<open>offset\<close> 8, \<^verbatim>\<open>size\<close> 12.
\<close>

definition convert_s :: "nat \<Rightarrow> memory \<Rightarrow> memory" where
  "convert_s a m = store16 a (little_to_bigs (load16 m a)) m"

definition convert_l :: "nat \<Rightarrow> memory \<Rightarrow> memory" where
  "convert_l a m = store32 a (little_to_bigl (load32 m a)) m"

definition fat16_part_readconvert :: "nat \<Rightarrow> memory \<Rightarrow> Hint \<times> memory" where
  "fat16_part_readconvert part m =
     (SUCCESS, convert_l (part + 12) (convert_l (part + 8) (convert_s (part + 6) (convert_s (part + 2) m))))"

section \<open>Master boot record (mbr.c)\<close>

definition FAT16_MBR_BOOT_SIZE :: nat where "FAT16_MBR_BOOT_SIZE = 446"

text \<open>Layout of \<^verbatim>\<open>fat16_mbr_t\<close>: \<^verbatim>\<open>boot\<close> 0, \<^verbatim>\<open>partitions\<close> 446, \<^verbatim>\<open>executable\<close> 510.\<close>

definition mbr_partition :: "nat \<Rightarrow> nat \<Rightarrow> nat" where
  "mbr_partition mbr i = mbr + FAT16_MBR_BOOT_SIZE + 16 * i"

definition fat16_mbr_readconvert :: "nat \<Rightarrow> memory \<Rightarrow> Hint \<times> memory" where
  "fat16_mbr_readconvert mbr m =
     (let m = snd (fat16_part_readconvert (mbr_partition mbr 0) m);
          m = snd (fat16_part_readconvert (mbr_partition mbr 1) m);
          m = snd (fat16_part_readconvert (mbr_partition mbr 2) m);
          m = snd (fat16_part_readconvert (mbr_partition mbr 4) m)
      in (SUCCESS, convert_s (mbr + 510) m))"

definition fat16_mbr_read ::
  "'s block_read \<Rightarrow> nat \<Rightarrow> Huint \<Rightarrow> 's \<Rightarrow> memory \<Rightarrow> (Hint \<times> 's \<times> memory) option" where
  "fat16_mbr_read rd mbr sec s m =
     do { (res, bs, s) \<leftarrow> rd s sec 1;
          let m = put_bytes mbr bs m;
          if sint res < 0 then Some (res, s, m)
          else Some (SUCCESS, s, snd (fat16_mbr_readconvert mbr m)) }"

section \<open>Boot sector (boots.c)\<close>

text \<open>
  Layout of \<^verbatim>\<open>fat16_bts_t\<close>: \<^verbatim>\<open>bytes_per_sector\<close> 11, \<^verbatim>\<open>sectors_per_cluster\<close> 13,
  \<^verbatim>\<open>reserved_sectors\<close> 14, \<^verbatim>\<open>fats\<close> 16, \<^verbatim>\<open>max_root\<close> 17, \<^verbatim>\<open>ssectors\<close> 19,
  \<^verbatim>\<open>sectors_per_fat\<close> 22, \<^verbatim>\<open>sectors_per_track\<close> 24, \<^verbatim>\<open>heads\<close> 26, \<^verbatim>\<open>hidden\<close> 28,
  \<^verbatim>\<open>sectors\<close> 32, \<^verbatim>\<open>serial\<close> 39, \<^verbatim>\<open>marker\<close> 510.
\<close>

definition fat16_boots_readconvert :: "nat \<Rightarrow> memory \<Rightarrow> Hint \<times> memory" where
  "fat16_boots_readconvert boot m =
     (let m = fold (\<lambda>f. convert_s (boot + f)) [11, 14, 17, 19, 22, 24, 26] m;
          m = fold (\<lambda>f. convert_l (boot + f)) [28, 32, 39] m
      in (SUCCESS, convert_s (boot + 510) m))"

definition fat16_boots_read ::
  "'s block_read \<Rightarrow> nat \<Rightarrow> Huint \<Rightarrow> 's \<Rightarrow> memory \<Rightarrow> (Hint \<times> 's \<times> memory) option" where
  "fat16_boots_read rd boot sec s m =
     do { (res, bs, s) \<leftarrow> rd s sec 1;
          let m = put_bytes boot bs m;
          if sint res < 0 then Some (res, s, m)
          else Some (SUCCESS, s, snd (fat16_boots_readconvert boot m)) }"

section \<open>File systems (fat16.c)\<close>

record fat16 =
  sectors :: Huint
  first_sector :: Huint
  last_sector :: Huint
  boot_sector :: Huint
  fat_size :: Huint
  fat_sector :: Huint
  root_sector :: Huint
  root_size :: Huint
  data_sector :: Huint
  data_size :: Huint
  cl_sectors :: Huint
  bt_sector :: Huint

text \<open>
  \<open>part\<close> is the address of a converted partition, \<open>boot\<close> that of the local boot sector.
  A boot sector with no bytes per sector is a division by zero.
\<close>

definition fat16_create ::
  "'s block_read \<Rightarrow> nat \<Rightarrow> nat \<Rightarrow> fat16 \<Rightarrow> 's \<Rightarrow> memory \<Rightarrow> (Hint \<times> fat16 \<times> 's \<times> memory) option" where
  "fat16_create rd part boot fat s m =
     (let fat = fat\<lparr>first_sector := load32 m (part + 8)\<rparr>;
          fat = fat\<lparr>last_sector := load32 m (part + 8) + load32 m (part + 12)\<rparr>;
          fat = fat\<lparr>boot_sector := first_sector fat\<rparr>
      in do { (res, s, m) \<leftarrow> fat16_boots_read rd boot (boot_sector fat) s m;
         if sint res < 0 then Some (res, fat, s, m)
         else let ss = load16 m (boot + 19); bps = load16 m (boot + 11);
                  fat = fat\<lparr>sectors := if ss \<noteq> 0 then ucast ss else load32 m (boot + 32)\<rparr>;
                  fat = fat\<lparr>bt_sector := ucast bps\<rparr>;
                  fat = fat\<lparr>fat_sector := first_sector fat + ucast (load16 m (boot + 14))\<rparr>;
                  fat = fat\<lparr>fat_size := ucast (load16 m (boot + 22))\<rparr>;
                  fat = fat\<lparr>root_sector := fat_sector fat + ucast (m (boot + 16)) * ucast (load16 m (boot + 22))\<rparr>
              in if bt_sector fat = 0 then None
                 else let
                  fat = fat\<lparr>root_size := (ucast (load16 m (boot + 17)) * 32 + (bt_sector fat - 1)) div bt_sector fat\<rparr>;
                  fat = fat\<lparr>data_sector := root_sector fat + root_size fat\<rparr>;
                  fat = fat\<lparr>data_size := sectors fat - fat_sector fat - root_size fat - first_sector fat\<rparr>;
                  fat = fat\<lparr>cl_sectors := ucast (m (boot + 13))\<rparr>
              in Some (SUCCESS, fat, s, m) })"

definition fat16_destroy :: "fat16 \<Rightarrow> Hint" where "fat16_destroy fat = SUCCESS"

definition fat16_bootsector :: "fat16 \<Rightarrow> Huint" where "fat16_bootsector fat = boot_sector fat"

definition fat16_fatsector :: "fat16 \<Rightarrow> Hint \<Rightarrow> Huint" where
  "fat16_fatsector fat table = fat_sector fat + table * fat_size fat"

definition fat16_rootsector :: "fat16 \<Rightarrow> Huint" where "fat16_rootsector fat = root_sector fat"

definition fat16_sector :: "fat16 \<Rightarrow> Huint \<Rightarrow> Huint" where
  "fat16_sector fat cluster = (cluster - 2) * cl_sectors fat + data_sector fat"

definition fat16_entry_sector :: "fat16 \<Rightarrow> Huint \<Rightarrow> Huint option" where
  "fat16_entry_sector fat cluster =
     (if bt_sector fat = 0 then None else Some (fat_sector fat + (cluster * 2) div bt_sector fat))"

definition fat16_entry_offset :: "fat16 \<Rightarrow> Huint \<Rightarrow> Huint option" where
  "fat16_entry_offset fat cluster =
     (if bt_sector fat = 0 then None else Some ((cluster * 2) mod bt_sector fat))"

text \<open>
  The buffer has 512 bytes and is indexed as an array of 16-bit values; \<open>entry\<close> is what the
  caller's variable holds before.
\<close>

definition fat16_getentry ::
  "'s block_read \<Rightarrow> fat16 \<Rightarrow> Huint \<Rightarrow> Hushort \<Rightarrow> 's \<Rightarrow> (Hint \<times> Hushort \<times> 's) option" where
  "fat16_getentry rd fat cluster entry s =
     do { sec \<leftarrow> fat16_entry_sector fat cluster;
          off \<leftarrow> fat16_entry_offset fat cluster;
          (res, buf, s) \<leftarrow> rd s sec 1;
          if sint res < 0 then Some (res, entry, s)
          else if 2 * unat off + 1 < 512
            then Some (SUCCESS, be16 (buf ! (2 * unat off)) (buf ! (2 * unat off + 1)), s)
          else None }"

definition fat16_setentry :: "fat16 \<Rightarrow> Huint \<Rightarrow> Hushort \<Rightarrow> Hint" where
  "fat16_setentry fat cluster entry = SUCCESS"

section \<open>What the conversions do\<close>

definition le16 :: "Hubyte list \<Rightarrow> nat \<Rightarrow> Hushort" where
  "le16 bs i = be16 (bs ! (i + 1)) (bs ! i)"

definition le32 :: "Hubyte list \<Rightarrow> nat \<Rightarrow> Huint" where
  "le32 bs i = be32 (bs ! (i + 3)) (bs ! (i + 2)) (bs ! (i + 1)) (bs ! i)"

lemma convert_s_bytes: "convert_s a m = m(a := m (a + 1), a + 1 := m a)"
  by (simp add: convert_s_def convert16)

lemma convert_l_bytes: "convert_l a m = m(a := m (a + 3), a + 1 := m (a + 2), a + 2 := m (a + 1), a + 3 := m a)"
  by (simp add: convert_l_def convert32)

lemma put_bytes_at: "k < length bs \<Longrightarrow> put_bytes a bs m (a + k) = bs ! k" "k < length bs \<Longrightarrow> put_bytes a bs m (k + a) = bs ! k"
  by (simp_all add: put_bytes_def)

lemma put_bytes_first: "0 < length bs \<Longrightarrow> put_bytes a bs m a = bs ! 0"
  by (simp add: put_bytes_def)

lemma put_bytes_behind: "length bs \<le> k \<Longrightarrow> put_bytes a bs m (a + k) = m (a + k)"
    "length bs \<le> k \<Longrightarrow> put_bytes a bs m (k + a) = m (k + a)"
  by (simp_all add: put_bytes_def)

lemmas convert_simps = convert_s_bytes convert_l_bytes put_bytes_at put_bytes_behind put_bytes_first
  load16_def load32_def le16_def le32_def

text \<open>The four fields of partition \<open>i\<close> as the processor reads them.\<close>

definition partition_fields :: "nat \<Rightarrow> nat \<Rightarrow> memory \<Rightarrow> Hushort \<times> Hushort \<times> Huint \<times> Huint" where
  "partition_fields mbr i m = (let p = mbr_partition mbr i in
     (load16 m (p + 2), load16 m (p + 6), load32 m (p + 8), load32 m (p + 12)))"

definition disk_partition :: "Hubyte list \<Rightarrow> nat \<Rightarrow> Hushort \<times> Hushort \<times> Huint \<times> Huint" where
  "disk_partition bs i = (let p = FAT16_MBR_BOOT_SIZE + 16 * i in
     (le16 bs (p + 2), le16 bs (p + 6), le32 bs (p + 8), le32 bs (p + 12)))"

lemmas mbr_simps = fat16_mbr_readconvert_def fat16_part_readconvert_def mbr_partition_def
  partition_fields_def disk_partition_def FAT16_MBR_BOOT_SIZE_def Let_def

lemma mbr_convert_low:
  assumes "length bs = 512" "i < 3"
  shows "partition_fields mbr i (snd (fat16_mbr_readconvert mbr (put_bytes mbr bs m))) = disk_partition bs i"
proof -
  have "i = 0 \<or> i = 1 \<or> i = 2" using assms(2) by auto
  then show ?thesis using assms(1) by (elim disjE) (simp_all add: mbr_simps convert_simps)
qed

lemma mbr_convert_high:
  assumes "length bs = 512"
  shows "partition_fields mbr 3 (snd (fat16_mbr_readconvert mbr (put_bytes mbr bs m))) =
      (let p = 446 + 48 in (from_littles (le16 bs (p + 2)), from_littles (le16 bs (p + 6)),
         from_littlel (le32 bs (p + 8)), from_littlel (le32 bs (p + 12))))"
    "load16 (snd (fat16_mbr_readconvert mbr (put_bytes mbr bs m))) (mbr + 510) = le16 bs 510"
    "snd (fat16_mbr_readconvert mbr (put_bytes mbr bs m)) (mbr + 512) = m (mbr + 513)"
    "snd (fat16_mbr_readconvert mbr (put_bytes mbr bs m)) (mbr + 513) = m (mbr + 512)"
  using assms by (simp_all add: mbr_simps convert_simps) (simp_all add: add.commute)

text \<open>What the conversion of the boot sector leaves in memory: the values of the disk.\<close>

lemma boots_convert:
  assumes "length bs = 512" and m': "m' = snd (fat16_boots_readconvert boot (put_bytes boot bs m))"
  shows "load16 m' (boot + 11) = le16 bs 11" "load16 m' (boot + 14) = le16 bs 14"
    "load16 m' (boot + 17) = le16 bs 17" "load16 m' (boot + 19) = le16 bs 19"
    "load16 m' (boot + 22) = le16 bs 22" "load32 m' (boot + 32) = le32 bs 32"
    "m' (boot + 13) = bs ! 13" "m' (boot + 16) = bs ! 16"
  using assms(1) unfolding m'
  by (simp_all add: fat16_boots_readconvert_def Let_def convert_simps)

lemma cluster_sector_value:
  assumes "2 \<le> c" "unat (data_sector fat) + (unat c - 2) * unat (cl_sectors fat) < 2 ^ 32"
  shows "unat (fat16_sector fat c) = unat (data_sector fat) + (unat c - 2) * unat (cl_sectors fat)"
proof -
  have "unat (c - 2) = unat c - 2" using assms(1) by (simp add: unat_sub)
  moreover have "unat ((c - 2) * cl_sectors fat) = unat (c - 2) * unat (cl_sectors fat)"
    using assms(2) calculation by (simp add: unat_mult_lem [THEN iffD1])
  ultimately show ?thesis
    using assms(2) unfolding fat16_sector_def by (subst unat_add_lem [THEN iffD1]) simp_all
qed

text \<open>The entry of a cluster in the first file allocation table on the disk.\<close>

definition table_entry :: "disk \<Rightarrow> fat16 \<Rightarrow> Huint \<Rightarrow> Hushort" where
  "table_entry D fat c = le16 (D (fat_sector fat + c div 256)) (2 * unat (c mod 256))"

lemma double_div_mod:
  assumes "c < 0x80000000"
  shows "(c * 2 :: Huint) div 512 = c div 256" "unat ((c * 2 :: Huint) mod 512) = 2 * unat (c mod 256)"
proof -
  have c2: "unat (c * 2) = 2 * unat c"
    using assms by (subst unat_mult_lem [THEN iffD1]) (simp_all add: word_less_nat_alt)
  show "(c * 2 :: Huint) div 512 = c div 256"
    by (rule word_unat_eq_iff [THEN iffD2]) (simp add: unat_div c2)
  show "unat ((c * 2 :: Huint) mod 512) = 2 * unat (c mod 256)"
    by (simp add: unat_mod c2 mult_mod_right)
qed

context block_device
begin

lemma mbr_read_result:
  assumes "dev_ok s" "unat sec < nsectors s"
  obtains s' where "fat16_mbr_read rd mbr sec s m =
      Some (SUCCESS, s', snd (fat16_mbr_readconvert mbr (put_bytes mbr (sector s sec) m)))"
    "dev_ok s'" "sector s' = sector s"
proof -
  obtain s' where "rd s sec 1 = Some (SUCCESS, sector s sec, s')" "dev_ok s'" "sector s' = sector s"
    using rd_sector [OF assms] by blast
  then show ?thesis by (intro that [of s']) (simp_all add: fat16_mbr_read_def SUCCESS_def Let_def)
qed

lemma create_result:
  assumes "dev_ok s" and f: "f = load32 m (part + 8)" "unat f < nsectors s"
    and bs: "bs = sector s f" "le16 bs 11 \<noteq> 0"
  obtains fat' s' m' where "fat16_create rd part boot fat s m = Some (SUCCESS, fat', s', m')"
    "dev_ok s'" "sector s' = sector s" "first_sector fat' = f" "boot_sector fat' = f"
    "last_sector fat' = f + load32 m (part + 12)"
    "sectors fat' = (if le16 bs 19 \<noteq> 0 then ucast (le16 bs 19) else le32 bs 32)"
    "bt_sector fat' = ucast (le16 bs 11)" "cl_sectors fat' = ucast (bs ! 13)"
    "fat_sector fat' = f + ucast (le16 bs 14)" "fat_size fat' = ucast (le16 bs 22)"
    "root_sector fat' = fat_sector fat' + ucast (bs ! 16) * fat_size fat'"
    "root_size fat' = (ucast (le16 bs 17) * 32 + (bt_sector fat' - 1)) div bt_sector fat'"
    "data_sector fat' = root_sector fat' + root_size fat'"
proof -
  obtain s' where s': "rd s f 1 = Some (SUCCESS, bs, s')" "dev_ok s'" "sector s' = sector s"
    using rd_sector [OF assms(1) f(2)] bs(1) by blast
  define m' where "m' = snd (fat16_boots_readconvert boot (put_bytes boot bs m))"
  have len: "length bs = 512" using sector_length assms(1) bs(1) by simp
  have z: "ucast (le16 bs 11) \<noteq> (0 :: Huint)" using bs(2) by (simp add: ucast_widen_eq_0)
  have "fat16_boots_read rd boot f s m = Some (SUCCESS, s', m')"
    using s'(1) by (simp add: fat16_boots_read_def m'_def SUCCESS_def Let_def)
  then have "\<exists>fat'. fat16_create rd part boot fat s m = Some (SUCCESS, fat', s', m') \<and>
      first_sector fat' = f \<and> boot_sector fat' = f \<and> last_sector fat' = f + load32 m (part + 12) \<and>
      sectors fat' = (if le16 bs 19 \<noteq> 0 then ucast (le16 bs 19) else le32 bs 32) \<and>
      bt_sector fat' = ucast (le16 bs 11) \<and> cl_sectors fat' = ucast (bs ! 13) \<and>
      fat_sector fat' = f + ucast (le16 bs 14) \<and> fat_size fat' = ucast (le16 bs 22) \<and>
      root_sector fat' = fat_sector fat' + ucast (bs ! 16) * fat_size fat' \<and>
      root_size fat' = (ucast (le16 bs 17) * 32 + (bt_sector fat' - 1)) div bt_sector fat' \<and>
      data_sector fat' = root_sector fat' + root_size fat'"
    using z by (simp add: fat16_create_def Let_def boots_convert [OF len m'_def] SUCCESS_def f(1) [symmetric])
  then show ?thesis using that s'(2,3) by blast
qed

lemma getentry_result:
  assumes "dev_ok s" "bt_sector fat = 512" "c < 0x80000000"
    and sec: "sec = fat_sector fat + c div 256" "unat sec < nsectors s"
  obtains s' where "dev_ok s'" "sector s' = sector s"
    "fat16_getentry rd fat c e s = (if c mod 256 < 128
       then Some (SUCCESS, from_littles (le16 (sector s sec) (4 * unat (c mod 256))), s') else None)"
proof -
  obtain s' where s': "rd s sec 1 = Some (SUCCESS, sector s sec, s')" "dev_ok s'" "sector s' = sector s"
    using rd_sector [OF assms(1) sec(2)] by blast
  have "fat16_entry_sector fat c = Some sec" "fat16_entry_offset fat c = Some ((c * 2) mod 512)"
    using assms(2,3) sec(1) by (simp_all add: fat16_entry_sector_def fat16_entry_offset_def double_div_mod)
  moreover have "2 * (2 * unat (c mod 256)) + 1 < 512 \<longleftrightarrow> c mod 256 < 128"
    by (auto simp: word_less_nat_alt)
  ultimately have "fat16_getentry rd fat c e s = (if c mod 256 < 128
       then Some (SUCCESS, from_littles (le16 (sector s sec) (4 * unat (c mod 256))), s') else None)"
    using s'(1) double_div_mod(2) [OF assms(3)]
    by (simp add: fat16_getentry_def SUCCESS_def le16_def algebra_simps)
  then show ?thesis using that s'(2,3) by blast
qed

end

end
