(* ===== verification/Fat16_Dirs.thy ===== *)
theory Fat16_Dirs
  imports Fat16
begin

text \<open>
  The FAT16 file system, second part: directory entries (\<^verbatim>\<open>direntry.c\<close>) and the listing of
  directories (\<^verbatim>\<open>dirs.c\<close>). A block holds sixteen entries of 32 bytes; \<open>direntry_at\<close> and
  \<open>longname_chars\<close> read an entry of a block that was loaded into an array of
  \<^verbatim>\<open>fat16_direntry_t\<close> or \<^verbatim>\<open>fat16_longname_t\<close>. An access outside of such an array or of
  the name buffer is \<open>None\<close>.
\<close>

section \<open>Directory entries (direntry.c)\<close>

record fat16_direntry =
  de_name :: "Hubyte list"
  de_attrs :: Hubyte
  de_reserved :: Hubyte
  de_create_mtime :: Hubyte
  de_create_time :: Hushort
  de_create_date :: Hushort
  de_access_date :: Hushort
  de_cluster_hi :: Hushort
  de_write_time :: Hushort
  de_write_date :: Hushort
  de_cluster_lo :: Hushort
  de_size :: Huint

definition bytes16 :: "Hubyte list \<Rightarrow> nat \<Rightarrow> Hushort" where
  "bytes16 bs i = be16 (bs ! i) (bs ! (i + 1))"

definition bytes32 :: "Hubyte list \<Rightarrow> nat \<Rightarrow> Huint" where
  "bytes32 bs i = be32 (bs ! i) (bs ! (i + 1)) (bs ! (i + 2)) (bs ! (i + 3))"

definition direntry_at :: "Hubyte list \<Rightarrow> nat \<Rightarrow> fat16_direntry" where
  "direntry_at bs i = (let a = 32 * i in
     \<lparr>de_name = map (\<lambda>k. bs ! (a + k)) [0..<11], de_attrs = bs ! (a + 11), de_reserved = bs ! (a + 12),
      de_create_mtime = bs ! (a + 13), de_create_time = bytes16 bs (a + 14),
      de_create_date = bytes16 bs (a + 16), de_access_date = bytes16 bs (a + 18),
      de_cluster_hi = bytes16 bs (a + 20), de_write_time = bytes16 bs (a + 22),
      de_write_date = bytes16 bs (a + 24), de_cluster_lo = bytes16 bs (a + 26),
      de_size = bytes32 bs (a + 28)\<rparr>)"

definition FAT16_DIRENTRY_READONLY :: Hubyte where "FAT16_DIRENTRY_READONLY = 0x01"

definition FAT16_DIRENTRY_HIDDEN :: Hubyte where "FAT16_DIRENTRY_HIDDEN = 0x02"

definition FAT16_DIRENTRY_SYSTEM :: Hubyte where "FAT16_DIRENTRY_SYSTEM = 0x04"

definition FAT16_DIRENTRY_VOLUMEID :: Hubyte where "FAT16_DIRENTRY_VOLUMEID = 0x08"

definition FAT16_DIRENTRY_DIRECTORY :: Hubyte where "FAT16_DIRENTRY_DIRECTORY = 0x10"

definition FAT16_DIRENTRY_ARCHIVE :: Hubyte where "FAT16_DIRENTRY_ARCHIVE = 0x20"

definition FAT16_DIRENTRY_LONGNAME :: Hubyte where "FAT16_DIRENTRY_LONGNAME = 0x0F"

definition fat16_direntry_free :: "fat16_direntry \<Rightarrow> Hint" where
  "fat16_direntry_free entry =
     (if de_name entry ! 0 = 0xE5 then 1 else if de_name entry ! 0 = 0x00 then 2 else 0)"

text \<open>The C library's \<^verbatim>\<open>tolower\<close> on ASCII characters.\<close>

definition tolower :: "Hubyte \<Rightarrow> Hubyte" where
  "tolower c = (if 65 \<le> c \<and> c \<le> 90 then c + 32 else c)"

definition name_blank :: "Hubyte \<Rightarrow> bool" where
  "name_blank c \<longleftrightarrow> c = 32 \<or> c = 0"

text \<open>\<open>out\<close> is what has been copied to the buffer; its length is \<^verbatim>\<open>n\<close>.\<close>

function name_loop :: "fat16_direntry \<Rightarrow> nat \<Rightarrow> nat \<Rightarrow> bool \<Rightarrow> Hubyte list \<Rightarrow> Hubyte list" where
  "name_loop entry num i lower out =
     (if 11 \<le> i then out
      else let c = de_name entry ! i in
        if name_blank c \<and> (8 \<le> i \<or> name_blank (de_name entry ! 8)) then out
        else let j = if name_blank c then 8 else i;
                 lower = if name_blank c then de_reserved entry AND 0x10 = 0x10 else lower;
                 out = if length out < num \<and> j = 8 then out @ [46] else out;
                 out = if length out < num
                       then out @ [if lower then tolower (de_name entry ! j) else de_name entry ! j] else out
             in name_loop entry num (j + 1) lower out)"
  by pat_completeness auto
termination
  by (relation "measure (\<lambda>(entry, num, i, lower, out). 11 - i)") (auto simp: Let_def split: if_splits)

declare name_loop.simps [simp del]

definition fat16_direntry_name :: "fat16_direntry \<Rightarrow> Hubyte list \<Rightarrow> Huint \<Rightarrow> Hubyte list" where
  "fat16_direntry_name entry buffer num =
     (if num = 0 then buffer
      else let out = name_loop entry (unat num - 1) 0 (de_reserved entry AND 0x08 = 0x08) [] @ [0]
           in out @ drop (length out) buffer)"

definition fat16_direntry_size :: "fat16_direntry \<Rightarrow> Huint" where
  "fat16_direntry_size entry = little_to_bigl (de_size entry)"

definition C_bool :: "bool \<Rightarrow> Hint" where "C_bool b = (if b then 1 else 0)"

definition fat16_direntry_longname :: "fat16_direntry \<Rightarrow> Hint" where
  "fat16_direntry_longname entry =
     C_bool (de_attrs entry AND FAT16_DIRENTRY_LONGNAME = FAT16_DIRENTRY_LONGNAME)"

definition fat16_direntry_readonly :: "fat16_direntry \<Rightarrow> Hint" where
  "fat16_direntry_readonly entry =
     (if de_attrs entry AND FAT16_DIRENTRY_LONGNAME = FAT16_DIRENTRY_LONGNAME then 0
      else C_bool (de_attrs entry AND FAT16_DIRENTRY_READONLY \<noteq> 0))"

definition fat16_direntry_hidden :: "fat16_direntry \<Rightarrow> Hint" where
  "fat16_direntry_hidden entry =
     (if de_attrs entry AND FAT16_DIRENTRY_LONGNAME = FAT16_DIRENTRY_LONGNAME then 0
      else C_bool (de_attrs entry AND FAT16_DIRENTRY_HIDDEN \<noteq> 0))"

definition fat16_direntry_system :: "fat16_direntry \<Rightarrow> Hint" where
  "fat16_direntry_system entry =
     (if de_attrs entry AND FAT16_DIRENTRY_LONGNAME = FAT16_DIRENTRY_LONGNAME then 0
      else C_bool (de_attrs entry AND FAT16_DIRENTRY_SYSTEM \<noteq> 0))"

definition fat16_direntry_volumeid :: "fat16_direntry \<Rightarrow> Hint" where
  "fat16_direntry_volumeid entry =
     (if de_attrs entry AND FAT16_DIRENTRY_LONGNAME = FAT16_DIRENTRY_LONGNAME then 0
      else C_bool (de_attrs entry AND FAT16_DIRENTRY_VOLUMEID \<noteq> 0))"

definition fat16_direntry_directory :: "fat16_direntry \<Rightarrow> Hint" where
  "fat16_direntry_directory entry = C_bool (de_attrs entry AND FAT16_DIRENTRY_DIRECTORY \<noteq> 0)"

definition fat16_direntry_archive :: "fat16_direntry \<Rightarrow> Hint" where
  "fat16_direntry_archive entry = C_bool (de_attrs entry AND FAT16_DIRENTRY_ARCHIVE \<noteq> 0)"

definition fat16_direntry_createmtime :: "fat16_direntry \<Rightarrow> Huint" where
  "fat16_direntry_createmtime entry = (ucast (de_create_mtime entry) * 10) mod 1000"

definition fat16_direntry_createtime :: "fat16_direntry \<Rightarrow> Huint" where
  "fat16_direntry_createtime entry = 0"

definition fat16_direntry_createdate :: "fat16_direntry \<Rightarrow> Huint" where
  "fat16_direntry_createdate entry = 0"

definition fat16_direntry_writetime :: "fat16_direntry \<Rightarrow> Huint" where
  "fat16_direntry_writetime entry = 0"

definition fat16_direntry_writedate :: "fat16_direntry \<Rightarrow> Huint" where
  "fat16_direntry_writedate entry = 0"

definition fat16_direntry_accessdate :: "fat16_direntry \<Rightarrow> Huint" where
  "fat16_direntry_accessdate entry = 0"

definition fat16_direntry_cluster :: "fat16_direntry \<Rightarrow> Huint" where
  "fat16_direntry_cluster entry =
     push_bit 16 (ucast (little_to_bigs (de_cluster_hi entry))) OR ucast (little_to_bigs (de_cluster_lo entry))"

section \<open>Directories (dirs.c)\<close>

record fat16_dir =
  dir_block :: Huint
  dir_size :: Huint

record fat16_dir_entry =
  parent :: fat16_dir
  ent_name :: "Hubyte list"
  entryno :: Hint
  ent_attrs :: Huint
  ent_size :: Huint
  ent_cluster :: Huint

definition FAT16_NAME_MAX :: Huint where "FAT16_NAME_MAX = 260"

definition fat16_dir_root :: "fat16 \<Rightarrow> fat16_dir \<Rightarrow> Hint \<times> fat16_dir" where
  "fat16_dir_root fat dir = (SUCCESS, dir\<lparr>dir_block := root_sector fat, dir_size := root_size fat\<rparr>)"

function findentry_loop :: "Hubyte list \<Rightarrow> nat \<Rightarrow> nat \<Rightarrow> Hint" where
  "findentry_loop bs i num =
     (if num \<le> i then -1
      else let e = direntry_at bs i in
        if fat16_direntry_free e = 0 then
          (if fat16_direntry_longname e \<noteq> 0 then findentry_loop bs (i + 1) num else of_nat i)
        else if fat16_direntry_free e = 1 then findentry_loop bs (i + 1) num
        else -2)"
  by pat_completeness auto
termination
  by (relation "measure (\<lambda>(bs, i, num). num - i)") auto

declare findentry_loop.simps [simp del]

definition fat16_dir_findentry :: "Hubyte list \<Rightarrow> Huint \<Rightarrow> Huint \<Rightarrow> Hint" where
  "fat16_dir_findentry entries start num = findentry_loop entries (unat start) (unat num)"

text \<open>The thirteen characters of a long name entry, each narrowed to a \<^verbatim>\<open>char\<close>.\<close>

definition longname_chars :: "Hubyte list \<Rightarrow> nat \<Rightarrow> Hubyte list" where
  "longname_chars bs off = map (\<lambda>f. ucast (little_to_bigs (bytes16 bs (32 * off + f))))
     ([1, 3, 5, 7, 9] @ [14, 16, 18, 20, 22, 24] @ [28, 30])"

definition write_chars :: "Hubyte list \<Rightarrow> nat \<Rightarrow> Hubyte list \<Rightarrow> Hubyte list" where
  "write_chars nm pos cs = take pos nm @ cs @ drop (pos + length cs) nm"

text \<open>
  \<open>readname_loop rd sblk nent pos nm s\<close>: the loop at entry \<open>nent\<close> with \<^verbatim>\<open>name\<close> at position
  \<open>pos\<close> of the buffer \<open>nm\<close>.
\<close>

primrec readname_loop ::
  "'s block_read \<Rightarrow> Huint \<Rightarrow> nat \<Rightarrow> nat \<Rightarrow> Hubyte list \<Rightarrow> 's \<Rightarrow> (Hint \<times> Hubyte list \<times> 's) option" where
  "readname_loop rd sblk 0 pos nm s = Some (SUCCESS, nm, s)"
| "readname_loop rd sblk (Suc n) pos nm s =
     (let nent = Suc n; blk = sblk + of_nat (nent div 16); off = nent mod 16 in
      do { (res, bs, s) \<leftarrow> rd s blk 1;
           if sint res < 0 then Some (res, nm, s)
           else if bs ! (32 * off + 11) AND FAT16_DIRENTRY_LONGNAME \<noteq> FAT16_DIRENTRY_LONGNAME
             then Some (SUCCESS, nm, s)
           else if length nm < pos + 13 then None
           else let nm = write_chars nm pos (longname_chars bs off) in
             if 16 \<le> nent then None
             else if bs ! (32 * nent) AND 0x40 = 0x40 then Some (SUCCESS, nm, s)
             else readname_loop rd sblk n (pos + 13) nm s })"

definition fat16_dir_readname ::
  "'s block_read \<Rightarrow> fat16_dir_entry \<Rightarrow> Huint \<Rightarrow> Hubyte list \<Rightarrow> 's \<Rightarrow> (Hint \<times> Hubyte list \<times> 's) option" where
  "fat16_dir_readname rd ent sblk nm s = readname_loop rd sblk (nat (sint (entryno ent - 1))) 0 nm s"

partial_function (option) nextentry_loop ::
  "'s block_read \<Rightarrow> Huint \<Rightarrow> Huint \<Rightarrow> Huint \<Rightarrow> Huint \<Rightarrow> fat16_dir_entry \<Rightarrow> 's \<Rightarrow> (Hint \<times> fat16_dir_entry \<times> 's) option" where
  "nextentry_loop rd sblk blk off ent entry s =
     do { (res, bs, s) \<leftarrow> rd s blk 1;
          if sint res < 0 then Some (res, entry, s)
          else let res = fat16_dir_findentry bs off 16 in
            if 0 \<le> sint res then
              let e = direntry_at bs (unat res);
                  entry = entry\<lparr>entryno := ent + res - off, ent_attrs := ucast (de_attrs e),
                     ent_size := little_to_bigl (de_size e),
                     ent_cluster := push_bit 16 (ucast (little_to_bigs (de_cluster_hi e))) OR
                        ucast (little_to_bigs (de_cluster_lo e)),
                     ent_name := fat16_direntry_name e (ent_name entry) FAT16_NAME_MAX\<rparr>
              in do { (_, nm, s) \<leftarrow> fat16_dir_readname rd entry sblk (ent_name entry) s;
                      Some (SUCCESS, entry\<lparr>ent_name := nm\<rparr>, s) }
            else if res = -2 then Some (EINVAL, entry, s)
            else nextentry_loop rd sblk (blk + 1) 0 (ent + (16 - off)) entry s }"

definition fat16_dir_nextentry ::
  "'s block_read \<Rightarrow> Huint \<Rightarrow> Huint \<Rightarrow> fat16_dir_entry \<Rightarrow> 's \<Rightarrow> (Hint \<times> fat16_dir_entry \<times> 's) option" where
  "fat16_dir_nextentry rd sblk sent entry s =
     nextentry_loop rd sblk (sblk + sent div 16) (sent mod 16) sent entry s"

definition fat16_dir_first ::
  "'s block_read \<Rightarrow> fat16_dir \<Rightarrow> fat16_dir_entry \<Rightarrow> 's \<Rightarrow> (Hint \<times> fat16_dir_entry \<times> 's) option" where
  "fat16_dir_first rd dir entry s =
     do { (res, entry, s) \<leftarrow> fat16_dir_nextentry rd (dir_block dir) 0 (entry\<lparr>parent := dir\<rparr>) s;
          if sint res < 0 then Some (res, entry, s) else Some (SUCCESS, entry, s) }"

text \<open>\<open>nxt\<close> is the entry that is filled in.\<close>

definition fat16_dir_next ::
  "'s block_read \<Rightarrow> fat16_dir_entry \<Rightarrow> fat16_dir_entry \<Rightarrow> 's \<Rightarrow> (Hint \<times> fat16_dir_entry \<times> 's) option" where
  "fat16_dir_next rd cur nxt s =
     do { (res, nxt, s) \<leftarrow> fat16_dir_nextentry rd (dir_block (parent cur)) (entryno cur + 1)
            (nxt\<lparr>parent := parent cur\<rparr>) s;
          if sint res < 0 then Some (res, nxt, s) else Some (SUCCESS, nxt, s) }"

section \<open>Listing a directory\<close>

text \<open>Entry \<open>i\<close> of the directory that starts at sector \<open>sblk\<close> of a disk.\<close>

definition dir_slot :: "disk \<Rightarrow> Huint \<Rightarrow> nat \<Rightarrow> fat16_direntry" where
  "dir_slot D sblk i = direntry_at (D (sblk + of_nat (i div 16))) (i mod 16)"

definition slot_file :: "fat16_direntry \<Rightarrow> bool" where
  "slot_file e \<longleftrightarrow> fat16_direntry_free e = 0 \<and> fat16_direntry_longname e = 0"

definition slot_end :: "fat16_direntry \<Rightarrow> bool" where
  "slot_end e \<longleftrightarrow> fat16_direntry_free e = 2"

text \<open>\<open>first_stop D sblk i k\<close>: from entry \<open>i\<close> on, \<open>k\<close> is the first file or end marker.\<close>

definition first_stop :: "disk \<Rightarrow> Huint \<Rightarrow> nat \<Rightarrow> nat \<Rightarrow> bool" where
  "first_stop D sblk i k \<longleftrightarrow> i \<le> k \<and> (slot_file (dir_slot D sblk k) \<or> slot_end (dir_slot D sblk k)) \<and>
     (\<forall>j\<in>{i..<k}. \<not> slot_file (dir_slot D sblk j) \<and> \<not> slot_end (dir_slot D sblk j))"

definition filled_entry :: "fat16_dir_entry \<Rightarrow> nat \<Rightarrow> fat16_direntry \<Rightarrow> fat16_dir_entry" where
  "filled_entry entry k e = entry\<lparr>entryno := of_nat k, ent_attrs := ucast (de_attrs e),
     ent_size := fat16_direntry_size e, ent_cluster := fat16_direntry_cluster e,
     ent_name := fat16_direntry_name e (ent_name entry) FAT16_NAME_MAX\<rparr>"

lemma slot_file_at: "slot_file (direntry_at bs j) \<longleftrightarrow> bs ! (32 * j) \<noteq> 0xE5 \<and> bs ! (32 * j) \<noteq> 0 \<and>
    bs ! (32 * j + 11) AND FAT16_DIRENTRY_LONGNAME \<noteq> FAT16_DIRENTRY_LONGNAME"
  by (simp add: slot_file_def direntry_at_def Let_def fat16_direntry_free_def fat16_direntry_longname_def C_bool_def)

lemma slot_end_at: "slot_end (direntry_at bs j) \<longleftrightarrow> bs ! (32 * j) = 0"
  by (simp add: slot_end_def direntry_at_def Let_def fat16_direntry_free_def)

lemma longname_at: "fat16_direntry_longname (direntry_at bs j) =
    C_bool (bs ! (32 * j + 11) AND FAT16_DIRENTRY_LONGNAME = FAT16_DIRENTRY_LONGNAME)"
  by (simp add: direntry_at_def Let_def fat16_direntry_longname_def)

lemma slot_cases: "slot_file e \<Longrightarrow> \<not> slot_end e"
  by (simp add: slot_file_def slot_end_def)

lemma findentry_skip:
  "\<lbrakk>i \<le> j; j \<le> num; \<forall>k\<in>{i..<j}. \<not> slot_file (direntry_at bs k) \<and> \<not> slot_end (direntry_at bs k)\<rbrakk>
   \<Longrightarrow> findentry_loop bs i num = findentry_loop bs j num"
proof (induction rule: inc_induct)
  case (step i)
  then have "\<not> slot_file (direntry_at bs i)" "\<not> slot_end (direntry_at bs i)" by auto
  then have "findentry_loop bs i num = findentry_loop bs (Suc i) num"
    using step by (subst findentry_loop.simps)
      (auto simp: slot_file_def slot_end_def fat16_direntry_free_def Let_def split: if_splits)
  then show ?case using step by auto
qed simp

lemma findentry_stop:
  assumes "j < num"
  shows "slot_file (direntry_at bs j) \<Longrightarrow> findentry_loop bs j num = of_nat j"
    "slot_end (direntry_at bs j) \<Longrightarrow> findentry_loop bs j num = -2"
  using assms by (subst findentry_loop.simps; simp add: slot_file_def slot_end_def Let_def)+

lemma findentry_none: "findentry_loop bs num num = -1"
  by (simp add: findentry_loop.simps)

text \<open>What one block contributes, starting at entry \<open>i\<close> of the directory.\<close>

lemma find_in_block:
  assumes "first_stop D sblk i k"
  shows "i div 16 = k div 16 \<Longrightarrow> findentry_loop (D (sblk + of_nat (i div 16))) (i mod 16) 16 =
      (if slot_file (dir_slot D sblk k) then of_nat (k mod 16) else -2)"
    "i div 16 < k div 16 \<Longrightarrow> findentry_loop (D (sblk + of_nat (i div 16))) (i mod 16) 16 = -1"
proof -
  let ?bs = "D (sblk + of_nat (i div 16))"
  have skip: "findentry_loop ?bs (i mod 16) 16 = findentry_loop ?bs m 16"
    if "i mod 16 \<le> m" "m \<le> 16" "16 * (i div 16) + m \<le> k" for m
  proof (rule findentry_skip)
    show "\<forall>j\<in>{i mod 16..<m}. \<not> slot_file (direntry_at ?bs j) \<and> \<not> slot_end (direntry_at ?bs j)"
    proof
      fix j assume j: "j \<in> {i mod 16..<m}"
      have "i = 16 * (i div 16) + i mod 16" by simp
      then have "i \<le> 16 * (i div 16) + j" using j by (metis add_le_cancel_left atLeastLessThan_iff)
      then have n: "16 * (i div 16) + j \<in> {i..<k}" "j < 16" using that j by auto
      have "direntry_at ?bs j = dir_slot D sblk (16 * (i div 16) + j)" using n(2) by (simp add: dir_slot_def)
      then show "\<not> slot_file (direntry_at ?bs j) \<and> \<not> slot_end (direntry_at ?bs j)"
        using assms n(1) by (simp add: first_stop_def)
    qed
  qed (use that in simp_all)
  { assume blk: "i div 16 = k div 16"
    have "i \<le> k" using assms by (simp add: first_stop_def)
    then have "i mod 16 \<le> k mod 16" using blk by (metis add_le_cancel_left mult_div_mod_eq)
    moreover have "16 * (i div 16) + k mod 16 = k" using blk by simp
    ultimately have "findentry_loop ?bs (i mod 16) 16 = findentry_loop ?bs (k mod 16) 16" by (intro skip) simp_all
    moreover have "direntry_at ?bs (k mod 16) = dir_slot D sblk k" using blk by (simp add: dir_slot_def)
    moreover have "slot_file (dir_slot D sblk k) \<or> slot_end (dir_slot D sblk k)"
      using assms by (simp add: first_stop_def)
    ultimately show "findentry_loop ?bs (i mod 16) 16 = (if slot_file (dir_slot D sblk k) then of_nat (k mod 16) else -2)"
      using findentry_stop [of "k mod 16" 16 ?bs] by auto }
  { assume "i div 16 < k div 16"
    then have "16 * (i div 16) + 16 \<le> k" by (metis div_le_mono less_eq_div_iff_mult_less_eq mult.commute mult_Suc_right Suc_leI add.commute zero_less_numeral)
    then show "findentry_loop ?bs (i mod 16) 16 = -1"
      using skip [of 16] findentry_none [of ?bs 16] by simp }
qed

lemma previous_entry: "k < 2 ^ 31 \<Longrightarrow> nat (sint (of_nat k - 1 :: Hint)) = k - 1"
proof (cases k)
  case (Suc n)
  moreover assume "k < 2 ^ 31"
  ultimately show ?thesis using sint_of_nat_small [of n] by simp
qed simp

lemma entry_number:
  assumes "i div 16 = k div 16"
  shows "(of_nat i + of_nat (k mod 16) - of_nat (i mod 16) :: Huint) = of_nat k"
proof -
  have "i + k mod 16 = k + i mod 16" using assms by (metis add.commute add.left_commute mult_div_mod_eq)
  then show ?thesis by (metis add_diff_cancel_right' of_nat_add)
qed

lemma entry_block: "i < 2 ^ 32 \<Longrightarrow> (of_nat i :: Huint) div 16 = of_nat (i div 16)"
    "i < 2 ^ 32 \<Longrightarrow> (of_nat i :: Huint) mod 16 = of_nat (i mod 16)"
  by (simp_all add: word_unat_eq_iff unat_div unat_mod unat_of_nat less_imp_diff_less)

lemma length_longname_chars [simp]: "length (longname_chars bs off) = 13"
  by (simp add: longname_chars_def)

lemma write_chars_append:
  assumes "pos + length cs + length ds \<le> length nm"
  shows "write_chars (write_chars nm pos cs) (pos + length cs) ds = write_chars nm pos (cs @ ds)"
  using assms by (simp add: write_chars_def add.commute add.left_commute)

lemma length_write_chars: "pos + length cs \<le> length nm \<Longrightarrow> length (write_chars nm pos cs) = length nm"
  by (simp add: write_chars_def)

lemma name_loop_length: "length out \<le> num \<Longrightarrow> length (name_loop entry num i lower out) \<le> num"
proof (induction entry num i lower out rule: name_loop.induct)
  case (1 entry num i lower out)
  then show ?case by (subst name_loop.simps) (auto simp: Let_def split: if_splits)
qed

lemma length_direntry_name: "length buffer = 261 \<Longrightarrow> length (fat16_direntry_name e buffer FAT16_NAME_MAX) = 261"
  using name_loop_length [of "[]" 259 e 0 "de_reserved e AND 0x08 = 0x08"]
  by (simp add: fat16_direntry_name_def FAT16_NAME_MAX_def Let_def)

text \<open>The long name entries of a file in entries \<open>l\<close> to \<open>h\<close> of the first block.\<close>

definition long_entries :: "Hubyte list \<Rightarrow> nat \<Rightarrow> nat \<Rightarrow> bool" where
  "long_entries bs l h \<longleftrightarrow> 1 \<le> l \<and> l \<le> h \<and> h < 16 \<and>
     (\<forall>j\<in>{l..h}. bs ! (32 * j + 11) AND FAT16_DIRENTRY_LONGNAME = FAT16_DIRENTRY_LONGNAME) \<and>
     (\<forall>j\<in>{Suc l..h}. bs ! (32 * j) AND 0x40 \<noteq> 0x40) \<and> bs ! (32 * l) AND 0x40 = 0x40"

definition long_name :: "Hubyte list \<Rightarrow> nat \<Rightarrow> nat \<Rightarrow> Hubyte list" where
  "long_name bs l h = concat (map (longname_chars bs) (rev [l..<Suc h]))"

lemma length_long_name: "l \<le> h \<Longrightarrow> length (long_name bs l h) = 13 * (Suc h - l)"
  by (simp add: long_name_def length_concat sum_list_triv rev_map [symmetric] comp_def del: upt_Suc)

lemma long_name_Suc: "l \<le> h \<Longrightarrow> long_name bs l (Suc h) = longname_chars bs (Suc h) @ long_name bs l h"
  by (simp add: long_name_def)

context block_device
begin

lemma nextentry_here:
  assumes "dev_ok s" "unat (sblk + of_nat (k div 16) :: Huint) < nsectors s" "first_stop (sector s) sblk i k"
    "i div 16 = k div 16" "k < 2 ^ 31"
  shows "\<exists>s'. dev_ok s' \<and> sector s' = sector s \<and> nsectors s' = nsectors s \<and>
     nextentry_loop rd sblk (sblk + of_nat (i div 16)) (of_nat (i mod 16)) (of_nat i) entry s =
       (if slot_file (dir_slot (sector s) sblk k)
        then let e = filled_entry entry k (dir_slot (sector s) sblk k) in
          do { (_, nm, s) \<leftarrow> readname_loop rd sblk (k - 1) 0 (ent_name e) s'; Some (SUCCESS, e\<lparr>ent_name := nm\<rparr>, s) }
        else Some (EINVAL, entry, s'))"
proof -
  let ?bs = "sector s (sblk + of_nat (k div 16))"
  obtain s' where s': "rd s (sblk + of_nat (k div 16)) 1 = Some (SUCCESS, ?bs, s')" "dev_ok s'"
      "sector s' = sector s" "nsectors s' = nsectors s"
    using rd_sector [OF assms(1,2)] by blast
  have u: "unat (of_nat (i mod 16) :: Huint) = i mod 16" "unat (of_nat (k mod 16) :: Huint) = k mod 16"
    by (simp_all add: unat_of_nat less_trans [OF mod_less_divisor])
  have f: "fat16_dir_findentry ?bs (of_nat (i mod 16)) 16 =
      (if slot_file (dir_slot (sector s) sblk k) then of_nat (k mod 16) else -2)"
    using find_in_block(1) [OF assms(3,4)] u assms(4) by (simp add: fat16_dir_findentry_def)
  have "nextentry_loop rd sblk (sblk + of_nat (i div 16)) (of_nat (i mod 16)) (of_nat i) entry s =
       (if slot_file (dir_slot (sector s) sblk k)
        then let e = filled_entry entry k (dir_slot (sector s) sblk k) in
          do { (_, nm, s) \<leftarrow> readname_loop rd sblk (k - 1) 0 (ent_name e) s'; Some (SUCCESS, e\<lparr>ent_name := nm\<rparr>, s) }
        else Some (EINVAL, entry, s'))"
    using s'(1) f sint_of_nat_small [of "k mod 16"] previous_entry [OF assms(5)] entry_number [OF assms(4)] u(2) assms(4)
    by (subst nextentry_loop.simps)
      (simp add: SUCCESS_def Let_def filled_entry_def dir_slot_def fat16_dir_readname_def
        fat16_direntry_size_def fat16_direntry_cluster_def)
  then show ?thesis using s' by blast
qed

lemma nextentry_reads:
  assumes "dev_ok s" "unat sblk + k div 16 < nsectors s" "unat sblk + k div 16 < 2 ^ 32"
    "first_stop (sector s) sblk i k" "k < 2 ^ 31"
  shows "\<exists>s'. dev_ok s' \<and> sector s' = sector s \<and> nsectors s' = nsectors s \<and>
     nextentry_loop rd sblk (sblk + of_nat (i div 16)) (of_nat (i mod 16)) (of_nat i) entry s =
       (if slot_file (dir_slot (sector s) sblk k)
        then let e = filled_entry entry k (dir_slot (sector s) sblk k) in
          do { (_, nm, s) \<leftarrow> readname_loop rd sblk (k - 1) 0 (ent_name e) s'; Some (SUCCESS, e\<lparr>ent_name := nm\<rparr>, s) }
        else Some (EINVAL, entry, s'))"
  using assms
proof (induction "k div 16 - i div 16" arbitrary: i s)
  case 0
  have "unat (sblk + of_nat (k div 16) :: Huint) < nsectors s"
    using "0.prems"(2,3) by (simp add: unat_word_ariths unat_of_nat)
  moreover have "i \<le> k" using "0.prems"(4) by (simp add: first_stop_def)
  then have "i div 16 = k div 16" using "0.hyps" div_le_mono [of i k 16] by simp
  ultimately show ?case using nextentry_here "0.prems"(1,4,5) by blast
next
  case (Suc x)
  let ?j = "16 * (i div 16) + 16" and ?blk = "sblk + of_nat (i div 16)"
  have less: "i div 16 < k div 16" using Suc.hyps(2) by linarith
  have blk: "unat (?blk :: Huint) < nsectors s"
    using Suc.prems(2,3) less by (simp add: unat_word_ariths unat_of_nat)
  then obtain s1 where s1: "rd s ?blk 1 = Some (SUCCESS, sector s ?blk, s1)" "dev_ok s1"
      "sector s1 = sector s" "nsectors s1 = nsectors s"
    using rd_sector [OF Suc.prems(1)] by blast
  have jk: "?j \<le> k" using less by (metis Suc_leI add.commute less_eq_div_iff_mult_less_eq mult.commute mult_Suc_right zero_less_numeral)
  have ij: "i \<le> ?j" using mod_less_divisor [of 16 i] mult_div_mod_eq [of 16 i] by linarith
  have u: "unat (of_nat (i mod 16) :: Huint) = i mod 16"
    by (simp add: unat_of_nat less_trans [OF mod_less_divisor])
  have "fat16_dir_findentry (sector s ?blk) (of_nat (i mod 16)) 16 = -1"
    using find_in_block(2) [OF Suc.prems(4) less] u by (simp add: fat16_dir_findentry_def)
  moreover have "(of_nat i + (16 - of_nat (i mod 16)) :: Huint) = of_nat ?j"
  proof -
    have "i + 16 = ?j + i mod 16" using mult_div_mod_eq [of 16 i] by linarith
    then have "(of_nat i + 16 :: Huint) = of_nat ?j + of_nat (i mod 16)" by (metis of_nat_add of_nat_numeral)
    then show ?thesis by (simp add: algebra_simps)
  qed
  moreover have "?j div 16 = Suc (i div 16)" "?j mod 16 = 0" by simp_all
  ultimately have eq: "nextentry_loop rd sblk ?blk (of_nat (i mod 16)) (of_nat i) entry s =
      nextentry_loop rd sblk (sblk + of_nat (?j div 16)) (of_nat (?j mod 16)) (of_nat ?j) entry s1"
    using s1(1) by (subst nextentry_loop.simps) (simp add: SUCCESS_def Let_def algebra_simps)
  have stop: "first_stop (sector s1) sblk ?j k"
    using Suc.prems(4) jk ij s1(3) by (auto simp: first_stop_def)
  have x: "x = k div 16 - ?j div 16" and dev: "unat sblk + k div 16 < nsectors s1"
    using Suc.hyps(2) Suc.prems(2) s1(4) by simp_all
  show ?case
    using Suc.hyps(1) [OF x s1(2) dev Suc.prems(3) stop Suc.prems(5)] unfolding eq s1(3,4) .
qed

text \<open>A file with no long name entry before it keeps the name that its own entry gives.\<close>

lemma readname_short:
  assumes "dev_ok s" "k < 2 ^ 31" "unat sblk + k div 16 < nsectors s" "unat sblk + k div 16 < 2 ^ 32"
    "2 \<le> k \<Longrightarrow> fat16_direntry_longname (dir_slot (sector s) sblk (k - 1)) = 0"
  obtains s' where "readname_loop rd sblk (k - 1) 0 nm s = Some (SUCCESS, nm, s')"
    "dev_ok s'" "sector s' = sector s" "nsectors s' = nsectors s"
proof (cases "k - 1")
  case 0
  then show ?thesis using that assms(1) by simp
next
  case (Suc n)
  let ?blk = "sblk + of_nat ((k - 1) div 16) :: Huint"
  have k2: "2 \<le> k" using Suc by simp
  have "(k - 1) div 16 \<le> k div 16" by (simp add: div_le_mono)
  then have "unat ?blk < nsectors s" using assms(3,4) by (simp add: unat_word_ariths unat_of_nat)
  then obtain s' where s': "rd s ?blk 1 = Some (SUCCESS, sector s ?blk, s')" "dev_ok s'"
      "sector s' = sector s" "nsectors s' = nsectors s"
    using rd_sector [OF assms(1)] by blast
  moreover have "sector s ?blk ! (32 * ((k - 1) mod 16) + 11) AND FAT16_DIRENTRY_LONGNAME \<noteq> FAT16_DIRENTRY_LONGNAME"
    using assms(5) [OF k2] Suc by (auto simp: fat16_direntry_longname_def dir_slot_def direntry_at_def Let_def C_bool_def split: if_splits)
  ultimately show ?thesis using that [of s'] Suc by (simp add: SUCCESS_def Let_def)
qed

lemma readname_long:
  assumes "dev_ok s" "unat sblk < nsectors s" "long_entries (sector s sblk) l h"
    "pos + 13 * (Suc h - l) \<le> length nm"
  shows "\<exists>s'. readname_loop rd sblk h pos nm s = Some (SUCCESS, write_chars nm pos (long_name (sector s sblk) l h), s') \<and>
    dev_ok s' \<and> sector s' = sector s"
  using assms
proof (induction h arbitrary: pos nm s)
  case 0
  then show ?case by (auto simp: long_entries_def)
next
  case (Suc h)
  let ?bs = "sector s sblk"
  obtain s1 where s1: "rd s sblk 1 = Some (SUCCESS, ?bs, s1)" "dev_ok s1" "sector s1 = sector s" "nsectors s1 = nsectors s"
    using rd_sector [OF Suc.prems(1,2)] by blast
  have h: "Suc h < 16" "l \<le> Suc h" "1 \<le> l"
    using Suc.prems(3) by (simp_all add: long_entries_def)
  then have "?bs ! (32 * Suc h + 11) AND FAT16_DIRENTRY_LONGNAME = FAT16_DIRENTRY_LONGNAME"
    using Suc.prems(3) unfolding long_entries_def by (meson atLeastAtMost_iff le_refl)
  note h = h this
  have room: "\<not> length nm < pos + 13" using Suc.prems(4) h(2) by (simp add: Suc_diff_le)
  let ?nm = "write_chars nm pos (longname_chars ?bs (Suc h))"
  have step: "readname_loop rd sblk (Suc h) pos nm s =
      (if ?bs ! (32 * Suc h) AND 0x40 = 0x40 then Some (SUCCESS, ?nm, s1)
       else readname_loop rd sblk h (pos + 13) ?nm s1)"
    using s1(1) h room by (simp add: SUCCESS_def Let_def)
  show ?case
  proof (cases "l = Suc h")
    case True
    then have "?bs ! (32 * Suc h) AND 0x40 = 0x40" using Suc.prems(3) by (simp add: long_entries_def)
    then show ?thesis unfolding step using True s1(2,3) by (simp add: long_name_def)
  next
    case False
    then have lh: "l \<le> h" using h by simp
    then have "?bs ! (32 * Suc h) AND 0x40 \<noteq> 0x40" using Suc.prems(3) unfolding long_entries_def by (metis Suc_le_mono atLeastAtMost_iff le_refl)
    moreover have "long_entries (sector s1 sblk) l h" using Suc.prems(3) lh s1(3) by (auto simp: long_entries_def)
    moreover have "Suc (Suc h) - l = Suc (Suc h - l)" using lh by simp
    then have "pos + 13 + 13 * (Suc h - l) \<le> length ?nm"
      using Suc.prems(4) by (simp add: length_write_chars)
    moreover have "write_chars ?nm (pos + 13) (long_name ?bs l h) = write_chars nm pos (long_name ?bs l (Suc h))"
      using write_chars_append [of pos "longname_chars ?bs (Suc h)" "long_name ?bs l h" nm] Suc.prems(4) lh
      by (simp add: length_long_name long_name_Suc Suc_diff_le)
    ultimately show ?thesis unfolding step using Suc.IH [of s1 "pos + 13" ?nm] Suc.prems(2) s1(2-4) by simp
  qed
qed

lemma dir_next_reads:
  assumes "dev_ok s" "entryno cur + 1 = of_nat i" "sblk = dir_block (parent cur)"
    "unat sblk + k div 16 < nsectors s" "unat sblk + k div 16 < 2 ^ 32" "k < 2 ^ 31" "first_stop (sector s) sblk i k"
  obtains s' where "dev_ok s'" "sector s' = sector s" "nsectors s' = nsectors s"
    "fat16_dir_next rd cur nxt s =
       (if slot_file (dir_slot (sector s) sblk k)
        then let e = filled_entry (nxt\<lparr>parent := parent cur\<rparr>) k (dir_slot (sector s) sblk k) in
          do { (_, nm, s) \<leftarrow> readname_loop rd sblk (k - 1) 0 (ent_name e) s'; Some (SUCCESS, e\<lparr>ent_name := nm\<rparr>, s) }
        else Some (SUCCESS, nxt\<lparr>parent := parent cur\<rparr>, s'))"
proof -
  have i: "i < 2 ^ 32" using assms(6,7) by (simp add: first_stop_def)
  let ?nxt = "nxt\<lparr>parent := parent cur\<rparr>"
  obtain s' where s': "dev_ok s'" "sector s' = sector s" "nsectors s' = nsectors s"
     "fat16_dir_nextentry rd sblk (of_nat i) ?nxt s =
       (if slot_file (dir_slot (sector s) sblk k)
        then let e = filled_entry ?nxt k (dir_slot (sector s) sblk k) in
          do { (_, nm, s) \<leftarrow> readname_loop rd sblk (k - 1) 0 (ent_name e) s'; Some (SUCCESS, e\<lparr>ent_name := nm\<rparr>, s) }
        else Some (EINVAL, ?nxt, s'))"
    using nextentry_reads [OF assms(1,4,5,7,6), of ?nxt] unfolding fat16_dir_nextentry_def entry_block [OF i] by blast
  have n: "fat16_dir_next rd cur nxt s = do { (res, nxt, s) \<leftarrow> fat16_dir_nextentry rd sblk (of_nat i) ?nxt s;
      if sint res < 0 then Some (res, nxt, s) else Some (SUCCESS, nxt, s) }"
    by (simp add: fat16_dir_next_def assms(2) assms(3) [symmetric])
  let ?e = "filled_entry ?nxt k (dir_slot (sector s) sblk k)"
  show ?thesis
  proof (rule that [OF s'(1-3)])
    show "fat16_dir_next rd cur nxt s =
       (if slot_file (dir_slot (sector s) sblk k)
        then let e = ?e in
          do { (_, nm, s) \<leftarrow> readname_loop rd sblk (k - 1) 0 (ent_name e) s'; Some (SUCCESS, e\<lparr>ent_name := nm\<rparr>, s) }
        else Some (SUCCESS, ?nxt, s'))"
      unfolding n s'(4) Let_def
      by (cases "readname_loop rd sblk (k - 1) 0 (ent_name ?e) s'") (auto simp: SUCCESS_def EINVAL_def)
  qed
qed

lemma next_file:
  assumes "dev_ok s" "entryno cur + 1 = of_nat i" "sblk = dir_block (parent cur)"
    "unat sblk + k div 16 < nsectors s" "unat sblk + k div 16 < 2 ^ 32" "k < 2 ^ 31" "first_stop (sector s) sblk i k"
    "slot_file (dir_slot (sector s) sblk k)"
    "2 \<le> k \<Longrightarrow> fat16_direntry_longname (dir_slot (sector s) sblk (k - 1)) = 0"
  shows "\<exists>s'. fat16_dir_next rd cur nxt s =
      Some (SUCCESS, filled_entry (nxt\<lparr>parent := parent cur\<rparr>) k (dir_slot (sector s) sblk k), s') \<and>
    dev_ok s' \<and> sector s' = sector s"
proof -
  let ?e = "filled_entry (nxt\<lparr>parent := parent cur\<rparr>) k (dir_slot (sector s) sblk k)"
  obtain s1 where s1: "dev_ok s1" "sector s1 = sector s" "nsectors s1 = nsectors s"
      "fat16_dir_next rd cur nxt s =
       do { (_, nm, s) \<leftarrow> readname_loop rd sblk (k - 1) 0 (ent_name ?e) s1; Some (SUCCESS, ?e\<lparr>ent_name := nm\<rparr>, s) }"
    using dir_next_reads [OF assms(1-7), of nxt] assms(8) unfolding Let_def by auto
  obtain s2 where s2: "readname_loop rd sblk (k - 1) 0 (ent_name ?e) s1 = Some (SUCCESS, ent_name ?e, s2)"
      "dev_ok s2" "sector s2 = sector s1"
    using readname_short [of s1 k sblk] s1(1-3) assms(4-6,9) by metis
  show ?thesis unfolding s1(4) s2(1) using s1(2) s2(2,3) by simp
qed

lemma next_end:
  assumes "dev_ok s" "entryno cur + 1 = of_nat i" "sblk = dir_block (parent cur)"
    "unat sblk + k div 16 < nsectors s" "unat sblk + k div 16 < 2 ^ 32" "k < 2 ^ 31" "first_stop (sector s) sblk i k"
    "slot_end (dir_slot (sector s) sblk k)"
  shows "\<exists>s'. fat16_dir_next rd cur nxt s = Some (SUCCESS, nxt\<lparr>parent := parent cur\<rparr>, s') \<and>
    dev_ok s' \<and> sector s' = sector s"
proof -
  have "\<not> slot_file (dir_slot (sector s) sblk k)" using assms(8) slot_cases by blast
  then show ?thesis using dir_next_reads [OF assms(1-7), of nxt] by auto
qed

lemma next_long:
  assumes "dev_ok s" "entryno cur + 1 = of_nat i" "sblk = dir_block (parent cur)"
    "unat sblk + k div 16 < nsectors s" "unat sblk + k div 16 < 2 ^ 32" "k < 2 ^ 31" "first_stop (sector s) sblk i k"
    "slot_file (dir_slot (sector s) sblk k)" "long_entries (sector s sblk) l (k - 1)" "length (ent_name nxt) = 261"
  shows "\<exists>s'. fat16_dir_next rd cur nxt s =
      Some (SUCCESS, (let e = filled_entry (nxt\<lparr>parent := parent cur\<rparr>) k (dir_slot (sector s) sblk k)
        in e\<lparr>ent_name := write_chars (ent_name e) 0 (long_name (sector s sblk) l (k - 1))\<rparr>), s') \<and>
    dev_ok s' \<and> sector s' = sector s"
proof -
  let ?e = "filled_entry (nxt\<lparr>parent := parent cur\<rparr>) k (dir_slot (sector s) sblk k)"
  obtain s1 where s1: "dev_ok s1" "sector s1 = sector s" "nsectors s1 = nsectors s"
      "fat16_dir_next rd cur nxt s =
       do { (_, nm, s) \<leftarrow> readname_loop rd sblk (k - 1) 0 (ent_name ?e) s1; Some (SUCCESS, ?e\<lparr>ent_name := nm\<rparr>, s) }"
    using dir_next_reads [OF assms(1-7), of nxt] assms(8) unfolding Let_def by auto
  have "length (ent_name ?e) = 261" using assms(10) by (simp add: filled_entry_def length_direntry_name)
  moreover have "Suc (k - 1) - l \<le> 15" using assms(9) by (auto simp: long_entries_def)
  ultimately have "0 + 13 * (Suc (k - 1) - l) \<le> length (ent_name ?e)" by linarith
  moreover have "unat sblk < nsectors s1" "long_entries (sector s1 sblk) l (k - 1)" using assms(4,9) s1(2,3) by simp_all
  ultimately obtain s2 where s2: "readname_loop rd sblk (k - 1) 0 (ent_name ?e) s1 =
      Some (SUCCESS, write_chars (ent_name ?e) 0 (long_name (sector s1 sblk) l (k - 1)), s2)" "dev_ok s2" "sector s2 = sector s1"
    using readname_long [OF s1(1)] by blast
  show ?thesis unfolding s1(4) s2(1) using s1(2) s2(2,3) by (simp add: Let_def)
qed

lemma next_long_outside:
  assumes "dev_ok s" "entryno cur + 1 = of_nat i" "sblk = dir_block (parent cur)"
    "unat sblk + k div 16 < nsectors s" "unat sblk + k div 16 < 2 ^ 32" "k < 2 ^ 31" "first_stop (sector s) sblk i k"
    "slot_file (dir_slot (sector s) sblk k)" "17 \<le> k" "fat16_direntry_longname (dir_slot (sector s) sblk (k - 1)) \<noteq> 0"
  shows "fat16_dir_next rd cur nxt s = None"
proof -
  let ?e = "filled_entry (nxt\<lparr>parent := parent cur\<rparr>) k (dir_slot (sector s) sblk k)"
  let ?blk = "sblk + of_nat ((k - 1) div 16) :: Huint"
  obtain s1 where s1: "dev_ok s1" "sector s1 = sector s" "nsectors s1 = nsectors s"
      "fat16_dir_next rd cur nxt s =
       do { (_, nm, s) \<leftarrow> readname_loop rd sblk (k - 1) 0 (ent_name ?e) s1; Some (SUCCESS, ?e\<lparr>ent_name := nm\<rparr>, s) }"
    using dir_next_reads [OF assms(1-7), of nxt] assms(8) unfolding Let_def by auto
  have "(k - 1) div 16 \<le> k div 16" by (simp add: div_le_mono)
  then have "unat ?blk < nsectors s1" using assms(4,5) s1(3) by (simp add: unat_word_ariths unat_of_nat)
  then obtain s' where s': "rd s1 ?blk 1 = Some (SUCCESS, sector s1 ?blk, s')" using rd_sector [OF s1(1)] by blast
  obtain n where n: "k - 1 = Suc n" "16 \<le> Suc n" using assms(9) by (cases "k - 1") simp_all
  have "sector s ?blk ! (32 * ((k - 1) mod 16) + 11) AND FAT16_DIRENTRY_LONGNAME = FAT16_DIRENTRY_LONGNAME"
    using assms(10) by (auto simp: fat16_direntry_longname_def dir_slot_def direntry_at_def Let_def C_bool_def split: if_splits)
  then have "readname_loop rd sblk (k - 1) 0 (ent_name ?e) s1 = None"
    using s' n s1(2) by (simp add: SUCCESS_def Let_def)
  then show ?thesis unfolding s1(4) by simp
qed

end

section \<open>Names in 8.3 form\<close>

definition pad :: "nat \<Rightarrow> Hubyte list \<Rightarrow> Hubyte list" where
  "pad n cs = cs @ replicate (n - length cs) 32"

text \<open>An entry for the name \<open>base.ext\<close>, both parts padded with blanks.\<close>

definition named :: "fat16_direntry \<Rightarrow> Hubyte list \<Rightarrow> Hubyte list \<Rightarrow> bool" where
  "named e base ext \<longleftrightarrow> de_name e = pad 8 base @ pad 3 ext \<and> length base \<le> 8 \<and> length ext \<le> 3 \<and>
     list_all (\<lambda>c. \<not> name_blank c) (base @ ext)"

definition in_case :: "bool \<Rightarrow> Hubyte list \<Rightarrow> Hubyte list" where
  "in_case lower cs = (if lower then map tolower cs else cs)"

lemma in_case_simps [simp]: "length (in_case l cs) = length cs" "in_case l [] = []"
    "in_case l (cs @ ds) = in_case l cs @ in_case l ds"
    "in_case l (c # cs) = (if l then tolower c else c) # in_case l cs"
  by (simp_all add: in_case_def)

lemma named_nth:
  assumes "named e base ext"
  shows "i < length base \<Longrightarrow> de_name e ! i = base ! i \<and> \<not> name_blank (base ! i)"
    "length base \<le> i \<Longrightarrow> i < 8 \<Longrightarrow> name_blank (de_name e ! i)"
    "j < length ext \<Longrightarrow> de_name e ! (8 + j) = ext ! j \<and> \<not> name_blank (ext ! j)"
    "length ext \<le> j \<Longrightarrow> j < 3 \<Longrightarrow> name_blank (de_name e ! (8 + j))"
  using assms by (auto simp: named_def pad_def nth_append name_blank_def list_all_iff)

lemma name_loop_base:
  assumes "named e base ext" "i \<le> length base"
  shows "length out + length base - i \<le> num \<Longrightarrow>
    name_loop e num i lower out = name_loop e num (length base) lower (out @ in_case lower (drop i base))"
  using assms(2)
proof (induction arbitrary: out rule: inc_induct)
  case (step i)
  have i: "i < length base" "i < 8" using step(2) assms(1) by (auto simp: named_def)
  have room: "length out < num" using step(4) i(1) by linarith
  have "name_loop e num i lower out = name_loop e num (Suc i) lower (out @ in_case lower [base ! i])"
    using named_nth(1) [OF assms(1) i(1)] i room by (subst name_loop.simps) (simp add: Let_def)
  also have "\<dots> = name_loop e num (length base) lower ((out @ in_case lower [base ! i]) @ in_case lower (drop (Suc i) base))"
    using step(3) [of "out @ in_case lower [base ! i]"] step(4) i by simp
  finally show ?case using i(1) by (simp add: Cons_nth_drop_Suc [symmetric])
qed simp

lemma name_loop_ext:
  assumes "named e base ext" "j \<le> length ext" "1 \<le> j"
  shows "length out + length ext - j \<le> num \<Longrightarrow> name_loop e num (8 + j) lower out = out @ in_case lower (drop j ext)"
  using assms(2,3)
proof (induction arbitrary: out rule: inc_induct)
  case base
  then show ?case
    using named_nth(4) [OF assms(1), of "length ext"] by (subst name_loop.simps) (auto simp: Let_def)
next
  case (step j)
  have j: "j < length ext" "j < 3" using step(2) assms(1) by (auto simp: named_def)
  have room: "length out < num" using step(4) j(1) by linarith
  have "name_loop e num (8 + j) lower out = name_loop e num (8 + Suc j) lower (out @ in_case lower [ext ! j])"
    using named_nth(3) [OF assms(1) j(1)] j step(5) room by (subst name_loop.simps) (simp add: Let_def)
  also have "\<dots> = (out @ in_case lower [ext ! j]) @ in_case lower (drop (Suc j) ext)"
    using step(3) [of "out @ in_case lower [ext ! j]"] step(4) j by simp
  finally show ?case using j(1) by (simp add: Cons_nth_drop_Suc [symmetric])
qed

lemma name_loop_dot:
  assumes "named e base ext" "length out + 1 + length ext \<le> num"
    and hi: "hi = (if length base < 8 then de_reserved e AND 0x10 = 0x10 else lower)"
  shows "name_loop e num (length base) lower out = out @ (if ext = [] then [] else 46 # in_case hi ext)"
proof (cases "ext = []")
  case True
  then have "name_blank (de_name e ! length base)" "name_blank (de_name e ! 8)" "length base \<le> 8"
    using named_nth(2) [OF assms(1), of "length base"] named_nth(4) [OF assms(1), of 0] assms(1)
    by (auto simp: named_def le_eq_less_or_eq)
  then show ?thesis using True by (subst name_loop.simps) (simp add: Let_def)
next
  case False
  then have e: "de_name e ! 8 = ext ! 0" "\<not> name_blank (ext ! 0)" "1 \<le> length ext"
    using named_nth(3) [OF assms(1), of 0] by (auto simp: Suc_le_eq)
  have b: "length base \<le> 8" "name_blank (de_name e ! length base) \<longleftrightarrow> length base < 8"
    using named_nth(2) [OF assms(1), of "length base"] e assms(1) by (auto simp: named_def le_eq_less_or_eq)
  have "name_loop e num (length base) lower out = name_loop e num (8 + 1) hi (out @ [46] @ in_case hi [ext ! 0])"
    using b e hi assms(2) by (subst name_loop.simps) (auto simp: Let_def le_eq_less_or_eq)
  also have "\<dots> = (out @ [46] @ in_case hi [ext ! 0]) @ in_case hi (drop 1 ext)"
    using e(3) assms(2) by (intro name_loop_ext [OF assms(1)]) auto
  finally show ?thesis using False e(3) by (cases ext) auto
qed

text \<open>
  The name of an entry in 8.3 form is printed as base, dot and extension (no dot without an
  extension), followed by a null character; each part is in lower case when its flag is set. For a
  base of all eight characters the extension follows the flag of the base.
\<close>

theorem short_name_printed:
  assumes "named e base ext"
    and "lo = (de_reserved e AND 0x08 = 0x08)"
    and "hi = (if length base < 8 then de_reserved e AND 0x10 = 0x10 else lo)"
  shows "\<exists>rest. fat16_direntry_name e buffer FAT16_NAME_MAX =
    in_case lo base @ (if ext = [] then [] else 46 # in_case hi ext) @ 0 # rest"
proof -
  have len: "length base \<le> 8" "length ext \<le> 3" using assms(1) by (simp_all add: named_def)
  have "name_loop e 259 0 lo [] = name_loop e 259 (length base) lo (in_case lo base)"
    using name_loop_base [OF assms(1), of 0 "[]" 259 lo] len by simp
  also have "\<dots> = in_case lo base @ (if ext = [] then [] else 46 # in_case hi ext)"
    using len by (intro name_loop_dot [OF assms(1) _ assms(3)]) simp
  finally show ?thesis using assms(2) by (simp add: fat16_direntry_name_def FAT16_NAME_MAX_def Let_def)
qed

theorem short_name_printed_witness:
  "\<exists>rest. fat16_direntry_name (direntry_at ([72, 73, 32, 32, 32, 32, 32, 32, 67, 32, 32, 0x20, 0x10] @ replicate 499 0) 0)
     [] FAT16_NAME_MAX = [72, 73, 46, 99, 0] @ rest"
proof -
  let ?e = "direntry_at ([72, 73, 32, 32, 32, 32, 32, 32, 67, 32, 32, 0x20, 0x10] @ replicate 499 0) 0"
  have "de_name ?e = pad 8 [72, 73] @ pad 3 [67]"
    by (simp add: direntry_at_def Let_def pad_def upt_rec numeral_eq_Suc)
  then have "named ?e [72, 73] [67]" by (simp add: named_def name_blank_def)
  from short_name_printed [OF this refl refl, of "[]"] show ?thesis
    by (simp add: direntry_at_def Let_def tolower_def)
qed

end
