(* ===== verification/Cached_Device.thy ===== *)
theory Cached_Device
  imports Cached_Disk Fat16_Dirs
begin

text \<open>
  The functions of \<^verbatim>\<open>block.c\<close> on a chip without errors: storing and loading lines, choosing
  the line to replace, reading and writing. Together they are a \<open>block_device\<close>; the interpretation
  at the end makes every lemma on such devices, those of the file system included, one on the card.
\<close>

definition cached_ok :: "'d chip \<Rightarrow> ('d \<Rightarrow> card) \<Rightarrow> ('d \<Rightarrow> nat) \<Rightarrow> 'd blockdev \<Rightarrow> bool" where
  "cached_ok C view wait s \<longleftrightarrow> chip_ok C (ace (fst s)) view wait \<and> rested (view (snd s)) \<and>
     cache_inv (fst s) (c_disk (view (snd s))) (c_size (view (snd s)))"

definition cached_disk :: "('d \<Rightarrow> card) \<Rightarrow> 'd blockdev \<Rightarrow> disk" where
  "cached_disk view s = content (fst s) (c_disk (view (snd s)))"

definition cached_size :: "('d \<Rightarrow> card) \<Rightarrow> 'd blockdev \<Rightarrow> nat" where
  "cached_size view s = c_size (view (snd s)) div unat (lines (fst s)) * unat (lines (fst s))"

text \<open>\<open>same_device\<close>: an internal step of the cache, invisible from outside.\<close>

definition same_device :: "('d \<Rightarrow> card) \<Rightarrow> 'd blockdev \<Rightarrow> 'd blockdev \<Rightarrow> bool" where
  "same_device view s s' \<longleftrightarrow> cached_disk view s' = cached_disk view s \<and>
     c_size (view (snd s')) = c_size (view (snd s)) \<and> lines (fst s') = lines (fst s)"

lemma same_device_trans: "same_device view a b \<Longrightarrow> same_device view b c \<Longrightarrow> same_device view a c"
  by (simp add: same_device_def)

lemma same_device_size: "same_device view s s' \<Longrightarrow> cached_size view s' = cached_size view s"
  by (simp add: same_device_def cached_size_def)

lemma same_lines_device:
  assumes "same_lines blk blk'" "cached_ok C view wait (blk, d)"
  shows "cached_ok C view wait (blk', d)" "same_device view (blk, d) (blk', d)"
  using assms same_lines_inv [OF assms(1)] same_lines_content [OF assms(1)]
  by (auto simp: cached_ok_def same_device_def cached_disk_def same_lines_def fun_eq_iff)

lemma cached_okD:
  assumes "cached_ok C view wait (blk, d)"
  shows "chip_ok C (ace blk) view wait" "rested (view d)" "cache_inv blk (c_disk (view d)) (c_size (view d))"
    "geometry_ok blk (c_size (view d))" "length (info blk) = unat (depth blk)" "0 < unat (lines blk)" "unat (lines blk) < 256"
  using assms by (simp_all add: cached_ok_def cache_inv_def geometry_ok_def)

lemma not_negative [simp]: "\<not> sint SUCCESS < 0"
  by (simp add: SUCCESS_def)

lemma cachestore_ok:
  assumes ok: "cached_ok C view wait (blk, d)" and l: "l < length (info blk)" "ci_cold (info blk ! l) = 0"
    and blk': "blk' = blk\<lparr>info := (info blk)[l := (info blk ! l)\<lparr>ci_dirty := 0\<rparr>]\<rparr>"
  obtains d' where "sysace_block_cachestore C (of_nat l) (blk, d) = Some (SUCCESS, blk', d')"
    "cached_ok C view wait (blk', d')" "same_device view (blk, d) (blk', d')"
proof -
  note c = cached_okD [OF ok]
  have u: "unat (of_nat l :: Hint) = l" using line_number(1) [OF c(4) l(1)] .
  obtain d1 d2 where d2: "sysace_lock C (ace blk) d = Some (SUCCESS, d1)" "sysace_cf_ready C (ace blk) d1 = Some (SUCCESS, d2)"
    "rested (view d2)" "same_store (view d) (view d2)" "granted (view d2)" "cready (view d2)"
    using lock_ready [OF c(1,2)] by blast
  let ?s = "ci_sector (info blk ! l)" and ?bs = "get_bytes (512 * (l * unat (lines blk))) (512 * unat (lines blk)) (cache blk)"
  have range: "unat ?s + unat (lines blk) \<le> c_size (view d2)"
    using cache_invD(3) [OF c(3) l(1)] l(2) d2(4) by (simp add: line_ok_def Let_def same_store_def)
  have len: "length ?bs = 512 * unat (lines blk)" by simp
  obtain d3 where d3: "sysace_cf_writesector C (ace blk) ?s (lines blk) ?bs d2 = Some (lines blk * SYSACE_DATA_SECTOR, d3)"
    "rested (view d3)" "c_disk (view d3) = disk_write ?s (lines blk) ?bs (c_disk (view d2))" "c_size (view d3) = c_size (view d2)"
    using writesector_stores [OF c(1) d2(3,5,6) c(6,7) range len] by blast
  let ?d = "snd (sysace_unlock C (ace blk) d3)"
  note un = unlock_rests [OF c(1) d3(2)]
  have D: "c_disk (view ?d) = disk_write ?s (lines blk) ?bs (c_disk (view d))" "c_size (view ?d) = c_size (view d)"
    using un(3) d3(3,4) d2(4) by (simp_all add: same_store_def)
  note keep = store_keeps [OF c(3) l D(1) blk']
  have "sysace_block_cachestore C (of_nat l) (blk, d) = Some (SUCCESS, blk', ?d)"
    using d2(1,2) d3(1) by (simp add: sysace_block_cachestore_def u line_addr(2) [OF c(4) l(1) c(6)]
        transfer_size(1) [OF c(7)] blk')
  moreover have "cached_ok C view wait (blk', ?d)" using c(1) un(2) keep(1) D(2) by (simp add: cached_ok_def blk')
  moreover have "same_device view (blk, d) (blk', ?d)"
    using keep(2) D(2) by (simp add: same_device_def cached_disk_def fun_eq_iff blk')
  ultimately show ?thesis using that by blast
qed

lemma cacheload_ok:
  assumes ok: "cached_ok C view wait (blk, d)" and l: "l < length (info blk)" "ci_dirty (info blk ! l) = 0"
    and b: "\<And>j. \<not> holds_line blk b j" "unat sec = unat b div unat (lines blk) * unat (lines blk)"
      "unat sec + unat (lines blk) \<le> c_size (view d)"
  obtains s' where "sysace_block_cacheload C (of_nat l) sec (blk, d) = Some (of_nat l, s')"
    "cached_ok C view wait s'" "same_device view (blk, d) s'" "holds_line (fst s') b l"
proof -
  note c = cached_okD [OF ok]
  have u: "unat (of_nat l :: Hint) = l" using line_number(1) [OF c(4) l(1)] .
  obtain d1 d2 where d2: "sysace_lock C (ace blk) d = Some (SUCCESS, d1)" "sysace_cf_ready C (ace blk) d1 = Some (SUCCESS, d2)"
    "rested (view d2)" "same_store (view d) (view d2)" "granted (view d2)" "cready (view d2)"
    using lock_ready [OF c(1,2)] by blast
  have range: "unat sec + unat (lines blk) \<le> c_size (view d2)" using b(3) d2(4) by (simp add: same_store_def)
  obtain d3 where d3: "sysace_cf_readsector C (ace blk) sec (lines blk) d2 =
      Some (lines blk * SYSACE_DATA_SECTOR, disk_read (c_disk (view d2)) sec (lines blk), d3)"
    "rested (view d3)" "same_store (view d2) (view d3)"
    using readsector_delivers [OF c(1) d2(3,5,6) c(6,7) range] by blast
  let ?d = "snd (sysace_unlock C (ace blk) d3)" and ?D = "c_disk (view d)"
  note un = unlock_rests [OF c(1) d3(2)]
  have D: "c_disk (view ?d) = ?D" "c_size (view ?d) = c_size (view d)" "c_disk (view d2) = ?D"
    using un(3) d3(3) d2(4) by (simp_all add: same_store_def)
  have len: "length (?D i) = 512" for i using c(2) by (simp add: rested_def)
  note keep = loaded_keeps [OF c(3) len l b]
  let ?blk = "loaded blk l sec ?D"
  have "sysace_block_cacheload C (of_nat l) sec (blk, d) = Some (of_nat l, ?blk, ?d)"
    using d2(1,2) d3(1) by (simp add: sysace_block_cacheload_def Let_def u line_addr(1) [OF c(4) l(1) c(6)] loaded_def D(3))
  moreover have "cached_ok C view wait (?blk, ?d)" using c(1) un(2) keep(1) D by (simp add: cached_ok_def loaded_def)
  moreover have "same_device view (blk, d) (?blk, ?d)"
  proof -
    have "content ?blk ?D = content blk ?D" using keep(2) by (intro ext)
    moreover have "lines ?blk = lines blk" by (simp add: loaded_def)
    ultimately show ?thesis using D by (simp add: same_device_def cached_disk_def)
  qed
  ultimately show ?thesis using that keep(3) by simp
qed

section \<open>Choosing a line\<close>

lemma replace_scan_cold: "replace_scan cs n i best = Inl j \<Longrightarrow> i \<le> j \<and> j < i + n \<and> ci_cold (cs ! j) \<noteq> 0"
proof (induction n arbitrary: i best)
  case (Suc n)
  show ?case
  proof (cases "ci_cold (cs ! i) = 0")
    case True
    then have "replace_scan cs n (Suc i) (if ci_lru (cs ! i) > ci_lru (cs ! best) then i else best) = Inl j"
      using Suc.prems by simp
    from Suc.IH [OF this] show ?thesis by auto
  next
    case False
    then show ?thesis using Suc.prems by auto
  qed
qed simp

lemma replace_scan_warm:
  "replace_scan cs n i best = Inr b \<Longrightarrow> (b = best \<or> i \<le> b \<and> b < i + n) \<and> (\<forall>j. i \<le> j \<and> j < i + n \<longrightarrow> ci_cold (cs ! j) = 0)"
proof (induction n arbitrary: i best)
  case (Suc n)
  then have w: "ci_cold (cs ! i) = 0" by (simp split: if_splits)
  let ?best = "if ci_lru (cs ! i) > ci_lru (cs ! best) then i else best"
  have "replace_scan cs n (Suc i) ?best = Inr b" using Suc.prems w by simp
  from Suc.IH [OF this] w show ?case by (auto split: if_splits) (metis Suc_leI le_neq_implies_less)+
qed auto

lemma cachereplace_ok:
  "cached_ok C view wait (blk, d) \<Longrightarrow>
   \<exists>l blk' d'. sysace_block_cachereplace C (blk, d) = Some (of_nat l, blk', d') \<and> l < length (info blk') \<and>
     ci_dirty (info blk' ! l) = 0 \<and> cached_ok C view wait (blk', d') \<and> same_device view (blk, d) (blk', d') \<and>
     (\<forall>b j. holds_line blk' b j = holds_line blk b j)"
proof (induction C "(blk, d)" arbitrary: blk rule: sysace_block_cachereplace.induct)
  case (1 C blk)
  note c = cached_okD [OF 1(2)]
  show ?case
  proof (cases "replace_scan (info blk) (unat (depth blk)) 0 0")
    case (Inl i)
    then have i: "i < length (info blk)" "ci_cold (info blk ! i) \<noteq> 0" using replace_scan_cold c(5) by fastforce+
    then have "ci_dirty (info blk ! i) = 0" using cache_invD(3) [OF c(3) i(1)] by (simp add: line_ok_def Let_def)
    then show ?thesis using Inl i 1(2)
      by (intro exI [of _ i] exI [of _ blk] exI [of _ d]) (simp add: sysace_block_cachereplace.simps same_device_def)
  next
    case (Inr best)
    then have b: "best < length (info blk)" "ci_cold (info blk ! best) = 0"
      using replace_scan_warm [OF Inr] c(4,5) by (auto simp: geometry_ok_def)
    let ?c = "info blk ! best"
    show ?thesis
    proof (cases "ci_dirty ?c \<noteq> 0 \<and> ci_second ?c = 0")
      case True
      let ?blk = "blk\<lparr>info := (info blk)[best := ?c\<lparr>ci_second := 1\<rparr>]\<rparr>"
      have same: "same_lines blk ?blk" using b(1) by (auto simp: same_lines_def nth_list_update)
      have eq: "sysace_block_cachereplace C (blk, d) = sysace_block_cachereplace C (?blk, d)"
        using True Inr b(1) by (subst sysace_block_cachereplace.simps) simp
      note dev = same_lines_device [OF same 1(2)]
      obtain l blk' d' where "sysace_block_cachereplace C (?blk, d) = Some (of_nat l, blk', d')" "l < length (info blk')"
          "ci_dirty (info blk' ! l) = 0" "cached_ok C view wait (blk', d')" "same_device view (?blk, d) (blk', d')"
          "\<forall>b j. holds_line blk' b j = holds_line ?blk b j"
        using 1(1) [OF Inr _ refl True dev(1)] b(1) by (auto simp: not_le)
      then show ?thesis unfolding eq using same_device_trans [OF dev(2)] same_lines_holds [OF same] by metis
    next
      case False
      show ?thesis
      proof (cases "ci_dirty ?c = 0")
        case True
        then show ?thesis using Inr b 1(2)
          by (intro exI [of _ best] exI [of _ blk] exI [of _ d]) (simp add: sysace_block_cachereplace.simps same_device_def)
      next
        case dirty: False
        let ?blk = "blk\<lparr>info := (info blk)[best := ?c\<lparr>ci_dirty := 0\<rparr>]\<rparr>"
        obtain d' where d': "sysace_block_cachestore C (of_nat best) (blk, d) = Some (SUCCESS, ?blk, d')"
            "cached_ok C view wait (?blk, d')" "same_device view (blk, d) (?blk, d')"
          using cachestore_ok [OF 1(2) b refl] by blast
        have "sysace_block_cachereplace C (blk, d) = Some (of_nat best, ?blk, d')"
          using Inr b(1) False dirty d'(1) by (subst sysace_block_cachereplace.simps) simp
        moreover have "holds_line ?blk x j = holds_line blk x j" for x j
          using b(1) by (auto simp: holds_line_def nth_list_update)
        ultimately show ?thesis using d'(2,3) b(1) by (intro exI [of _ best] exI [of _ ?blk] exI [of _ d']) simp
      qed
    qed
  qed
qed

section \<open>Reading and writing\<close>

lemma line_base:
  assumes "0 < unat (n :: Huint)"
  shows "unat (b - b mod n) = unat b div unat n * unat n"
proof -
  have le: "b mod n \<le> b" by (simp add: word_le_nat_alt unat_mod)
  show ?thesis unfolding unat_sub [OF le] unat_mod by (rule minus_mod_eq_div_mult)
qed

lemma get_line_ok:
  assumes ok: "cached_ok C view wait s" and b: "unat b < cached_size view s"
  obtains l s' where "get_line C b s = Some (of_nat l, s')" "cached_ok C view wait s'" "same_device view s s'"
    "holds_line (fst s') b l"
proof -
  obtain blk d where s: "s = (blk, d)" by fastforce
  let ?n = "c_size (view d)" and ?L = "unat (lines blk)"
  note c = cached_okD [OF ok [unfolded s]]
  have bound: "unat b div ?L * ?L + ?L \<le> ?n"
  proof -
    have "unat b div ?L < ?n div ?L" using b s c(6) by (simp add: cached_size_def less_mult_imp_div_less)
    then have "Suc (unat b div ?L) * ?L \<le> ?n div ?L * ?L" by (intro mult_le_mono1) simp
    also have "\<dots> \<le> ?n" by (simp add: div_times_less_eq_dividend)
    finally show ?thesis by simp
  qed
  have less: "unat b < ?n" by (rule less_le_trans [OF b]) (simp add: cached_size_def s)
  show ?thesis
  proof (cases "\<exists>l. holds_line blk b l")
    case True
    then obtain l where l: "holds_line blk b l" by blast
    let ?blk = "blk\<lparr>hit := hit blk + 1\<rparr>"
    have same: "same_lines blk ?blk" by (simp add: same_lines_def)
    have "l < length (info blk)" using l by (simp add: holds_line_def)
    then have "get_line C b s = Some (of_nat l, ?blk, d)"
      using cachefind_hit [OF c(3) l less] line_number(2) [OF c(4), of l] s by (simp add: get_line_def)
    then show ?thesis
      using that same_lines_device [OF same ok [unfolded s]] s same_lines_holds [OF same] l by simp
  next
    case False
    let ?blk = "blk\<lparr>miss := miss blk + 1\<rparr>"
    have same: "same_lines blk ?blk" by (simp add: same_lines_def)
    note dev = same_lines_device [OF same ok [unfolded s]]
    obtain l blk' d' where r: "sysace_block_cachereplace C (?blk, d) = Some (of_nat l, blk', d')" "l < length (info blk')"
        "ci_dirty (info blk' ! l) = 0" "cached_ok C view wait (blk', d')" "same_device view (?blk, d) (blk', d')"
        "\<forall>b j. holds_line blk' b j = holds_line ?blk b j"
      using cachereplace_ok [OF dev(1)] by blast
    have L: "lines blk' = lines blk" "c_size (view d') = ?n" using r(5) by (simp_all add: same_device_def)
    have no: "\<not> holds_line blk' b j" for j using False r(6) same_lines_holds [OF same] by simp
    let ?sec = "b - b mod lines blk'"
    have "unat ?sec = unat b div unat (lines blk') * unat (lines blk')" using line_base c(6) L(1) by simp
    moreover have "unat ?sec + unat (lines blk') \<le> c_size (view d')" using bound line_base [OF c(6)] L by simp
    ultimately obtain s' where s': "sysace_block_cacheload C (of_nat l) ?sec (blk', d') = Some (of_nat l, s')"
        "cached_ok C view wait s'" "same_device view (blk', d') s'" "holds_line (fst s') b l"
      using cacheload_ok [OF r(4,2,3) no] by blast
    have nz: "lines blk' \<noteq> 0" using c(6) L(1) by auto
    have "get_line C b s = sysace_block_cacheread C b (?blk, d)"
      using cachefind_miss [OF c(3) _ less] False s by (simp add: get_line_def)
    also have "\<dots> = Some (of_nat l, s')" using r(1) s'(1) nz by (simp add: sysace_block_cacheread_def)
    finally show ?thesis
      using that s' same_device_trans [OF dev(2) same_device_trans [OF r(5) s'(3)]] s by blast
  qed
qed

lemma read_step:
  assumes ok: "cached_ok C view wait s" and b: "unat b < cached_size view s"
  obtains line blk d s1 where "get_line C b s = Some (line, blk, d)" "\<not> sint line < 0 \<and> unat line < length (info blk)"
    "get_bytes (sector_addr blk line b) 512 (cache blk) = cached_disk view s b"
    "s1 = (snd (sysace_block_cachetouch blk line), d)" "cached_ok C view wait s1" "same_device view s s1"
proof -
  obtain l s' where l: "get_line C b s = Some (of_nat l, s')" "cached_ok C view wait s'" "same_device view s s'"
      "holds_line (fst s') b l"
    using get_line_ok [OF ok b] by blast
  obtain blk d where s': "s' = (blk, d)" by fastforce
  note c = cached_okD [OF l(2) [unfolded s']]
  have h: "holds_line blk b l" "l < length (info blk)" using l(4) s' by (simp_all add: holds_line_def)
  have "get_bytes (sector_addr blk (of_nat l) b) 512 (cache blk) = content blk (c_disk (view d)) b"
    using content_hit [OF c(3) h(1)] sector_addr_eq [OF c(4) h(2)] by (simp add: cached_sector_def)
  also have "\<dots> = cached_disk view s b" using l(3) s' by (simp add: same_device_def cached_disk_def)
  finally have bytes: "get_bytes (sector_addr blk (of_nat l) b) 512 (cache blk) = cached_disk view s b" .
  have same: "same_lines blk (snd (sysace_block_cachetouch blk (of_nat l)))"
    by (rule touch_same [OF h(2) c(5) line_number(1) [OF c(4) h(2)]])
  note dev = same_lines_device [OF same l(2) [unfolded s']]
  show ?thesis
    using that [OF _ _ bytes refl dev(1)] l(1) s' h(2) line_number [OF c(4) h(2)] same_device_trans [OF l(3)] dev(2) by simp
qed

lemma read_loop_ok:
  "\<lbrakk>cached_ok C view wait s; unat i + n \<le> cached_size view s; cached_size view s < 2 ^ 32\<rbrakk> \<Longrightarrow>
   \<exists>s'. read_loop C n i s = Some (SUCCESS, concat (map (\<lambda>k. cached_disk view s (i + of_nat k)) [0..<n]), s') \<and>
     cached_ok C view wait s' \<and> same_device view s s'"
proof (induction n arbitrary: i s)
  case 0
  then show ?case by (simp add: same_device_def)
next
  case (Suc n)
  have "unat i < cached_size view s" using Suc.prems(2) by simp
  from read_step [OF Suc.prems(1) this] obtain line blk d s1 where s1: "get_line C i s = Some (line, blk, d)" "\<not> sint line < 0 \<and> unat line < length (info blk)"
    "get_bytes (sector_addr blk line i) 512 (cache blk) = cached_disk view s i"
    "s1 = (snd (sysace_block_cachetouch blk line), d)" "cached_ok C view wait s1" "same_device view s s1"
    by blast
  have "unat (i + 1) = unat i + 1" using Suc.prems(2,3) by (simp add: unat_word_ariths)
  then have "unat (i + 1) + n \<le> cached_size view s1" "cached_size view s1 < 2 ^ 32"
    using Suc.prems(2,3) same_device_size [OF s1(6)] by simp_all
  from Suc.IH [OF s1(5) this] obtain s' where s':
    "read_loop C n (i + 1) s1 = Some (SUCCESS, concat (map (\<lambda>k. cached_disk view s1 (i + 1 + of_nat k)) [0..<n]), s')"
    "cached_ok C view wait s'" "same_device view s1 s'" by blast
  have D: "cached_disk view s1 = cached_disk view s" using s1(6) by (simp add: same_device_def)
  have split: "concat (map (\<lambda>k. cached_disk view s (i + of_nat k)) [0..<Suc n]) =
      cached_disk view s i @ concat (map (\<lambda>k. cached_disk view s (i + 1 + of_nat k)) [0..<n])"
    by (simp add: upt_conv_Cons map_Suc_upt [symmetric] comp_def add.assoc del: upt_Suc)
  have "read_loop C (Suc n) i s = Some (SUCCESS, concat (map (\<lambda>k. cached_disk view s (i + of_nat k)) [0..<Suc n]), s')"
    unfolding split using s1(1-4) s'(1) D by simp
  then show ?case using s'(2) same_device_trans [OF s1(6) s'(3)] by blast
qed

lemma write_step:
  assumes ok: "cached_ok C view wait s" and b: "unat b < cached_size view s" and cs: "length cs = 512"
  obtains line blk d s1 where "get_line C b s = Some (line, blk, d)" "\<not> sint line < 0 \<and> unat line < length (info blk)"
    "s1 = (let blk = blk\<lparr>cache := put_bytes (sector_addr blk line b) cs (cache blk)\<rparr>;
               blk = snd (sysace_block_cachetouch blk line)
           in (blk\<lparr>info := (info blk)[unat line := (info blk ! unat line)\<lparr>ci_dirty := 1\<rparr>]\<rparr>, d))"
    "cached_ok C view wait s1" "cached_disk view s1 = (cached_disk view s)(b := cs)" "cached_size view s1 = cached_size view s"
proof -
  obtain l s' where l: "get_line C b s = Some (of_nat l, s')" "cached_ok C view wait s'" "same_device view s s'"
      "holds_line (fst s') b l"
    using get_line_ok [OF ok b] by blast
  obtain blk d where s': "s' = (blk, d)" by fastforce
  note c = cached_okD [OF l(2) [unfolded s']]
  have h: "holds_line blk b l" "l < length (info blk)" using l(4) s' by (simp_all add: holds_line_def)
  note u = line_number [OF c(4) h(2)]
  let ?k = "unat b mod unat (lines blk)"
  let ?blk1 = "blk\<lparr>cache := put_bytes (sector_addr blk (of_nat l) b) cs (cache blk)\<rparr>"
  let ?blk2 = "snd (sysace_block_cachetouch ?blk1 (of_nat l))"
  let ?blk3 = "?blk2\<lparr>info := (info ?blk2)[l := (info ?blk2 ! l)\<lparr>ci_dirty := 1\<rparr>]\<rparr>"
  have touch: "same_lines ?blk1 ?blk2" by (rule touch_same) (use h(2) c(5) u(1) in simp_all)
  have same: "same_lines (written blk l ?k cs) ?blk3"
    using touch h(2) sector_addr_eq [OF c(4) h(2), of b] by (auto simp: same_lines_def written_def nth_list_update)
  note w = written_keeps [OF c(3) h(1) cs refl]
  have "cached_ok C view wait (written blk l ?k cs, d)"
    using c(1,2) w(1) by (simp add: cached_ok_def) (simp add: written_def)
  note dev = same_lines_device [OF same this]
  have "content (written blk l ?k cs) (c_disk (view d)) = (content blk (c_disk (view d)))(b := cs)"
    using w(2) by (intro ext) simp
  then have disk: "cached_disk view (?blk3, d) = (cached_disk view s)(b := cs)"
    using dev(2) l(3) s' by (simp add: same_device_def cached_disk_def)
  have "cached_size view (?blk3, d) = cached_size view (written blk l ?k cs, d)" by (rule same_device_size [OF dev(2)])
  also have "\<dots> = cached_size view s'" by (simp add: cached_size_def written_def s')
  finally have size: "cached_size view (?blk3, d) = cached_size view s" using same_device_size [OF l(3)] by simp
  show ?thesis
    using that [OF _ _ refl] l(1) s' u h(2) dev(1) disk size by (simp add: Let_def)
qed

lemma write_loop_ok:
  "\<lbrakk>cached_ok C view wait s; unat i + n \<le> cached_size view s; cached_size view s < 2 ^ 32; length bs = 512 * n\<rbrakk> \<Longrightarrow>
   \<exists>s'. write_loop C n i bs s = Some (SUCCESS, s') \<and> cached_ok C view wait s' \<and>
     cached_size view s' = cached_size view s \<and>
     cached_disk view s' = (\<lambda>x. if unat (x - i) < n then take 512 (drop (512 * unat (x - i)) bs) else cached_disk view s x)"
proof (induction n arbitrary: i bs s)
  case 0
  then show ?case by simp
next
  case (Suc n)
  have "unat i < cached_size view s" "length (take 512 bs) = 512" using Suc.prems(2,4) by simp_all
  from write_step [OF Suc.prems(1) this] obtain line blk d s1 where s1: "get_line C i s = Some (line, blk, d)" "\<not> sint line < 0 \<and> unat line < length (info blk)"
    "s1 = (let blk = blk\<lparr>cache := put_bytes (sector_addr blk line i) (take 512 bs) (cache blk)\<rparr>;
               blk = snd (sysace_block_cachetouch blk line)
           in (blk\<lparr>info := (info blk)[unat line := (info blk ! unat line)\<lparr>ci_dirty := 1\<rparr>]\<rparr>, d))"
    "cached_ok C view wait s1" "cached_disk view s1 = (cached_disk view s)(i := take 512 bs)" "cached_size view s1 = cached_size view s"
    by blast
  have u: "unat (i + 1) = unat i + 1" using Suc.prems(2,3) by (simp add: unat_word_ariths)
  then have "unat (i + 1) + n \<le> cached_size view s1" "cached_size view s1 < 2 ^ 32" "length (drop 512 bs) = 512 * n"
    using Suc.prems(2-4) s1(6) by simp_all
  from Suc.IH [OF s1(4) this] obtain s' where s': "write_loop C n (i + 1) (drop 512 bs) s1 = Some (SUCCESS, s')"
    "cached_ok C view wait s'" "cached_size view s' = cached_size view s1"
    "cached_disk view s' = (\<lambda>x. if unat (x - (i + 1)) < n then take 512 (drop (512 * unat (x - (i + 1))) (drop 512 bs)) else cached_disk view s1 x)"
    by blast
  have "write_loop C (Suc n) i bs s = Some (SUCCESS, s')"
    using s1(1,2) s'(1) unfolding s1(3) by (simp add: Let_def)
  moreover have "cached_disk view s' x = (if unat (x - i) < Suc n then take 512 (drop (512 * unat (x - i)) bs) else cached_disk view s x)" for x
  proof (cases "x = i")
    case True
    have "unat (i - (i + 1)) = 2 ^ 32 - 1" by (simp add: unsigned_minus_1_eq_mask mask_eq_exp_minus_1)
    moreover have "n < 2 ^ 32 - 1" using Suc.prems(2,3) by simp
    ultimately show ?thesis using True s'(4) s1(5) by simp
  next
    case False
    then have "unat (x - i) \<noteq> 0" by (simp add: unat_eq_0)
    then have "unat (x - i) = Suc (unat (x - (i + 1)))"
      using unat_minus_one [of "x - i"] False by (simp add: diff_diff_eq [symmetric])
    then show ?thesis using False s'(4) s1(5) by (simp add: add.commute)
  qed
  ultimately show ?case using s'(2,3) s1(6) by (intro exI [of _ s']) (simp add: fun_eq_iff)
qed

section \<open>The cached card is a block device\<close>

lemma block_steps_eq: "unat start + unat num < 2 ^ 32 \<Longrightarrow> block_steps start num = unat num"
  by (auto simp: block_steps_def word_less_nat_alt unat_word_ariths)

lemma cached_size_bound:
  assumes "cached_ok C view wait s"
  shows "cached_size view s < 2 ^ 31"
proof -
  have "c_size (view (snd s)) < 2 ^ 31" using assms by (simp add: cached_ok_def cache_inv_def geometry_ok_def)
  then show ?thesis unfolding cached_size_def by (rule le_less_trans [OF div_times_less_eq_dividend])
qed

interpretation sysace_cache: block_device "sysace_block_read C" "sysace_block_write C"
  "cached_ok C view wait" "cached_disk view" "cached_size view" for C view wait
proof unfold_locales
  fix s and start num :: Huint
  assume s: "cached_ok C view wait s" "unat start + unat num \<le> cached_size view s"
  have less: "cached_size view s < 2 ^ 32" using cached_size_bound [OF s(1)] by simp
  have steps: "block_steps start num = unat num" using s(2) less by (intro block_steps_eq) simp
  show "\<exists>s'. sysace_block_read C s start num = Some (SUCCESS, disk_read (cached_disk view s) start num, s') \<and>
      cached_ok C view wait s' \<and> cached_disk view s' = cached_disk view s \<and> cached_size view s' = cached_size view s"
    using read_loop_ok [OF s less] same_device_size
    by (fastforce simp: sysace_block_read_def steps disk_read_def same_device_def)
  fix bs :: "Hubyte list"
  assume len: "length bs = 512 * unat num"
  show "\<exists>s'. sysace_block_write C s start num bs = Some (SUCCESS, s') \<and> cached_ok C view wait s' \<and>
      cached_disk view s' = disk_write start num bs (cached_disk view s) \<and> cached_size view s' = cached_size view s"
    using write_loop_ok [OF s less len] by (auto simp: sysace_block_write_def steps disk_write_def)
next
  fix s i
  assume ok: "cached_ok C view wait s"
  obtain blk d where s: "s = (blk, d)" by fastforce
  note c = cached_okD [OF ok [unfolded s]]
  have "length (content blk (c_disk (view d)) i) = 512"
    using c(2) by (auto simp: content_def rested_def cached_sector_def split: option.split)
  then show "length (cached_disk view s i) = 512" by (simp add: cached_disk_def s)
qed

end
