(* ===== verification/Cache_Flush.thy ===== *)
theory Cache_Flush
  imports Cached_Device
begin

text \<open>
  Writing the cache back (\<^verbatim>\<open>sysace_block_cacheflush\<close>, \<^verbatim>\<open>sysace_block_cachesize\<close>) and
  choosing the line to replace: after a flush the card itself holds the content of the device,
  and a clean line can be dropped without loss.
\<close>

section \<open>Dropping a clean line\<close>

lemma cold_keeps:
  assumes inv: "cache_inv blk D n" and l: "l < length (info blk)" "ci_dirty (info blk ! l) = 0"
    and blk': "blk' = blk\<lparr>info := (info blk)[l := cold_info (info blk ! l)]\<rparr>"
  shows "cache_inv blk' D n" "content blk' D b = content blk D b"
proof -
  have at: "info blk' ! j = (if j = l then cold_info (info blk ! l) else info blk ! j)" for j
    using l(1) by (simp add: blk' nth_list_update)
  have same: "length (info blk') = length (info blk)" "lines blk' = lines blk" "depth blk' = depth blk"
      "cached_sector blk' = cached_sector blk"
    by (simp_all add: blk' cached_sector_def fun_eq_iff)
  have h: "holds_line blk' x j \<longleftrightarrow> j \<noteq> l \<and> holds_line blk x j" for x j
    by (simp add: holds_line_def same at cold_info_def)
  have "line_ok blk' D n j" if "j < length (info blk')" for j
    using cache_invD(3) [OF inv, of j] that by (cases "j = l") (simp_all add: line_ok_def Let_def same at cold_info_def)
  moreover have "lines_apart blk'"
    using cache_invD(2) [OF inv] by (simp add: lines_apart_def same at cold_info_def)
  ultimately show inv': "cache_inv blk' D n"
    using cache_invD(1) [OF inv] by (simp add: cache_inv_def geometry_ok_def same)
  show "content blk' D b = content blk D b"
  proof (cases "\<exists>j. holds_line blk b j")
    case True
    then obtain j where j: "holds_line blk b j" ..
    show ?thesis
    proof (cases "j = l")
      case True
      then have "\<not> holds_line blk' b x" for x using h holds_unique [OF inv j] by auto
      then show ?thesis using clean_content [OF inv j] True l(2) by (simp add: content_miss)
    next
      case False
      then have "holds_line blk' b j" using h j by simp
      then show ?thesis using content_hit [OF inv j] content_hit [OF inv'] same by simp
    qed
  next
    case False
    then show ?thesis using h by (simp add: content_miss)
  qed
qed

section \<open>Flushing\<close>

lemma flush_step:
  assumes ok: "cached_ok C view wait (blk, d)" and i: "i < length (info blk)"
  obtains blk' d' where "(if ci_dirty (info blk ! i) \<noteq> 0 then sysace_block_cachestore C (of_nat i) (blk, d)
      else Some (SUCCESS, blk, d)) = Some (SUCCESS, blk', d')"
    "cached_ok C view wait (blk', d')" "same_device view (blk, d) (blk', d')" "ci_dirty (info blk' ! i) = 0"
    "length (info blk') = length (info blk)" "depth blk' = depth blk" "\<And>j. j \<noteq> i \<Longrightarrow> info blk' ! j = info blk ! j"
proof (cases "ci_dirty (info blk ! i) = 0")
  case True
  then show ?thesis using that [of blk d] ok by (simp add: same_device_def)
next
  case False
  then have "ci_cold (info blk ! i) = 0"
    using cache_invD(3) [OF cached_okD(3) [OF ok] i] by (simp add: line_ok_def Let_def split: if_splits)
  then obtain d' where "sysace_block_cachestore C (of_nat i) (blk, d) =
      Some (SUCCESS, blk\<lparr>info := (info blk)[i := (info blk ! i)\<lparr>ci_dirty := 0\<rparr>]\<rparr>, d')"
      "cached_ok C view wait (blk\<lparr>info := (info blk)[i := (info blk ! i)\<lparr>ci_dirty := 0\<rparr>]\<rparr>, d')"
      "same_device view (blk, d) (blk\<lparr>info := (info blk)[i := (info blk ! i)\<lparr>ci_dirty := 0\<rparr>]\<rparr>, d')"
    using cachestore_ok [OF ok i _ refl] by blast
  then show ?thesis using that False i by (simp add: nth_list_update)
qed

lemma cold_device:
  assumes "cached_ok C view wait (blk, d)" "i < length (info blk)" "ci_dirty (info blk ! i) = 0"
    and "blk' = blk\<lparr>info := (info blk)[i := cold_info (info blk ! i)]\<rparr>"
  shows "cached_ok C view wait (blk', d)" "same_device view (blk, d) (blk', d)"
  using assms(1,4) cold_keeps [OF cached_okD(3) [OF assms(1)] assms(2-4)]
  by (simp_all add: cached_ok_def same_device_def cached_disk_def fun_eq_iff)

lemma flush_lines_ok:
  "\<lbrakk>cached_ok C view wait (blk, d); i + n \<le> length (info blk)\<rbrakk> \<Longrightarrow>
   \<exists>blk' d'. flush_lines C n i (blk, d) = Some (SUCCESS, blk', d') \<and> cached_ok C view wait (blk', d') \<and>
     same_device view (blk, d) (blk', d') \<and> length (info blk') = length (info blk) \<and> depth blk' = depth blk \<and>
     (\<forall>j. info blk' ! j = (if i \<le> j \<and> j < i + n then cold_info (info blk' ! j) else info blk ! j))"
proof (induction n arbitrary: i blk d)
  case 0
  then show ?case by (auto simp: same_device_def)
next
  case (Suc n)
  then have i: "i < length (info blk)" by simp
  obtain b1 d1 where s1: "(if ci_dirty (info blk ! i) \<noteq> 0 then sysace_block_cachestore C (of_nat i) (blk, d)
      else Some (SUCCESS, blk, d)) = Some (SUCCESS, b1, d1)"
    "cached_ok C view wait (b1, d1)" "same_device view (blk, d) (b1, d1)" "ci_dirty (info b1 ! i) = 0"
    "length (info b1) = length (info blk)" "depth b1 = depth blk" "\<And>j. j \<noteq> i \<Longrightarrow> info b1 ! j = info blk ! j"
    using flush_step [OF Suc.prems(1) i] by blast
  let ?b2 = "b1\<lparr>info := (info b1)[i := cold_info (info b1 ! i)]\<rparr>"
  have i1: "i < length (info b1)" using i s1(5) by simp
  note s2 = cold_device [OF s1(2) i1 s1(4) refl]
  have "Suc i + n \<le> length (info ?b2)" using Suc.prems(2) s1(5) by simp
  from Suc.IH [OF s2(1) this] obtain b3 d3 where s3: "flush_lines C n (Suc i) (?b2, d1) = Some (SUCCESS, b3, d3)"
    "cached_ok C view wait (b3, d3)" "same_device view (?b2, d1) (b3, d3)" "length (info b3) = length (info ?b2)"
    "depth b3 = depth ?b2"
    "\<And>j. info b3 ! j = (if Suc i \<le> j \<and> j < Suc i + n then cold_info (info b3 ! j) else info ?b2 ! j)" by blast
  have "flush_lines C (Suc n) i (blk, d) = Some (SUCCESS, b3, d3)" using s1(1) s3(1) by simp
  moreover have "same_device view (blk, d) (b3, d3)"
    by (rule same_device_trans [OF same_device_trans [OF s1(3) s2(2)] s3(3)])
  moreover have "info b3 ! j = (if i \<le> j \<and> j < i + Suc n then cold_info (info b3 ! j) else info blk ! j)" for j
    using s3(6) [of j] s1(7) [of j] i1 by (cases "j = i") (auto simp: cold_info_def nth_list_update)
  ultimately show ?case using s3(2,4,5) s1(5,6) by auto
qed

lemma cold_content:
  assumes "\<And>j. j < length (info blk) \<Longrightarrow> ci_cold (info blk ! j) \<noteq> 0"
  shows "content blk D = D"
proof
  fix b
  have "\<not> holds_line blk b j" for j using assms by (auto simp: holds_line_def)
  then show "content blk D b = D b" by (simp add: content_miss)
qed

lemma cacheflush_ok:
  assumes ok: "cached_ok C view wait s"
  obtains blk' d' where "sysace_block_cacheflush C s = Some (SUCCESS, blk', d')" "cached_ok C view wait (blk', d')"
    "same_device view s (blk', d')" "c_disk (view d') = cached_disk view s" "hit blk' = 0" "miss blk' = 0"
proof -
  obtain blk d where s: "s = (blk, d)" by fastforce
  note c = cached_okD [OF ok [unfolded s]]
  obtain b1 d1 where b1: "flush_lines C (unat (depth blk)) 0 (blk, d) = Some (SUCCESS, b1, d1)"
    "cached_ok C view wait (b1, d1)" "same_device view (blk, d) (b1, d1)" "length (info b1) = length (info blk)"
    "\<And>j. info b1 ! j = (if 0 \<le> j \<and> j < 0 + unat (depth blk) then cold_info (info b1 ! j) else info blk ! j)"
    using flush_lines_ok [OF ok [unfolded s], of 0 "unat (depth blk)"] c(5) by auto
  let ?b = "b1\<lparr>hit := 0, miss := 0\<rparr>"
  have same: "same_lines b1 ?b" by (simp add: same_lines_def)
  note dev = same_lines_device [OF same b1(2)]
  have "ci_cold (info ?b ! j) \<noteq> 0" if "j < length (info ?b)" for j
  proof -
    have "info b1 ! j = cold_info (info b1 ! j)" using b1(5) [of j] that b1(4) c(5) by simp
    then have "ci_cold (info b1 ! j) = ci_cold (cold_info (info b1 ! j))" by simp
    then show ?thesis by (simp add: cold_info_def)
  qed
  from cold_content [of ?b, OF this] have "cached_disk view (?b, d1) = c_disk (view d1)" by (simp add: cached_disk_def)
  then have "c_disk (view d1) = cached_disk view s"
    using same_device_trans [OF b1(3) dev(2)] s by (simp add: same_device_def)
  then show ?thesis
    using that [of ?b d1] b1(1) dev(1) same_device_trans [OF b1(3) dev(2)] s
    by (simp add: sysace_block_cacheflush_def)
qed

section \<open>Replacement\<close>

text \<open>The scan does not look at the second chance bits.\<close>

lemma replace_scan_second:
  "b < length cs \<Longrightarrow> replace_scan (cs[b := (cs ! b)\<lparr>ci_second := v\<rparr>]) n i best = replace_scan cs n i best"
proof (induction n arbitrary: i best)
  case (Suc n)
  let ?cs = "cs[b := (cs ! b)\<lparr>ci_second := v\<rparr>]"
  have "ci_cold (?cs ! j) = ci_cold (cs ! j)" "ci_lru (?cs ! j) = ci_lru (cs ! j)" for j
    using Suc.prems by (simp_all add: nth_list_update)
  then show ?case using Suc by simp
qed simp

lemma second_chance_evicts:
  assumes scan: "replace_scan (info blk) (unat (depth blk)) 0 0 = Inr best" and b: "best < length (info blk)"
    and c: "ci_dirty (info blk ! best) \<noteq> 0" "ci_second (info blk ! best) = 0"
    and blk': "blk' = blk\<lparr>info := (info blk)[best := (info blk ! best)\<lparr>ci_second := 1\<rparr>]\<rparr>"
  shows "sysace_block_cachereplace C (blk, d) =
    do { (_, blk, d) \<leftarrow> sysace_block_cachestore C (of_nat best) (blk', d); Some (of_nat best, blk, d) }"
proof -
  have "sysace_block_cachereplace C (blk, d) = sysace_block_cachereplace C (blk', d)"
    using scan b c by (subst sysace_block_cachereplace.simps) (simp add: blk')
  moreover have "replace_scan (info blk') (unat (depth blk')) 0 0 = Inr best"
    using scan b by (simp add: blk' replace_scan_second)
  ultimately show ?thesis
    using b c by (subst (asm) (2) sysace_block_cachereplace.simps) (simp add: blk')
qed

section \<open>Errors\<close>

text \<open>A cold cache finds nothing and replaces its first line.\<close>

lemma cold_cache:
  assumes "\<forall>c\<in>set (info blk). ci_cold c \<noteq> 0" "length (info blk) = unat (depth blk)" "0 < unat (depth blk)"
  shows "sysace_block_cachefind blk i = (-1, blk\<lparr>miss := miss blk + 1\<rparr>)"
    "sysace_block_cachereplace C (blk, d) = Some (0, blk, d)"
proof -
  have "find_from (info blk) (lines blk) i 0 = -1"
    using assms(1) by (intro find_from_miss) (auto simp: line_hit_def Let_def)
  then show "sysace_block_cachefind blk i = (-1, blk\<lparr>miss := miss blk + 1\<rparr>)"
    using assms(2) by (simp add: sysace_block_cachefind_def)
  obtain n where n: "unat (depth blk) = Suc n" using assms(3) gr0_conv_Suc by blast
  have "ci_cold (info blk ! 0) \<noteq> 0" using assms by (simp add: n)
  then show "sysace_block_cachereplace C (blk, d) = Some (0, blk, d)"
    by (subst sysace_block_cachereplace.simps) (simp add: n)
qed

lemma short_load:
  assumes "sysace_lock C (ace blk) d = Some (SUCCESS, d1)" "sysace_cf_ready C (ace blk) d1 = Some (SUCCESS, d2)"
    "sysace_cf_readsector C (ace blk) sec (lines blk) d2 = Some (sz, bs, d3)" "sz < lines blk * SYSACE_DATA_SECTOR"
  shows "sysace_block_cacheload C 0 sec (blk, d) = Some (EIO, blk\<lparr>cache := put_bytes 0 bs (cache blk)\<rparr>, d3)"
  using assms by (simp add: sysace_block_cacheload_def Let_def)

end
