(* ===== verification/Storage.thy ===== *)
theory Storage
  imports Cache_Flush
begin

text \<open>
  The storage stack put together: FAT16 on the block cache on the CompactFlash driver. The
  properties of the file system are stated for \<^verbatim>\<open>block->read\<close> being
  \<^verbatim>\<open>sysace_block_read\<close> on a chip that keeps the laws of \<open>chip_ok\<close>; they come from the lemmas
  of \<open>block_device\<close> through its interpretation. An example chip shows that the laws can be kept.
\<close>

section \<open>An example chip\<close>

definition example_ace :: sysace where
  "example_ace = \<lparr>mode = (0, 2), control = (0x18, 0x1A), error = (8, 10), status = (4, 6), version = 0x16,
     count_reg = 0x14, fat_reg = 0x1C, data_reg = 0x40, clba = (0x0C, 0x0E), mlba = (0x10, 0x12)\<rparr>"

definition seen :: "card \<Rightarrow> card" where
  "seen v = v\<lparr>granted := granted v \<or> bit (c_control v) 1, cready := cready v \<or> c_phase v = Idle,
     dready := dready v \<or> c_phase v \<noteq> Idle\<rparr>"

definition status_word :: "card \<Rightarrow> Hushort" where
  "status_word v = (if granted v then 0x2 else 0) OR (if cready v then 0x100 else 0) OR (if dready v then 0x20 else 0)"

definition example_rd :: "Huint \<Rightarrow> card \<Rightarrow> Hushort \<times> card" where
  "example_rd a v =
     (if a = 4 then (from_littles (status_word (seen v)), seen v)
      else if a = 0x18 then (from_littles (ucast (c_control v)), v)
      else if a = 0x1A then (from_littles (ucast (drop_bit 16 (c_control v))), v)
      else if a = 0x40 then (case c_phase v of
          Sending (x # y # bs) \<Rightarrow> (from_littles (be16 y x),
            v\<lparr>c_phase := if bs = [] then Idle else Sending bs, dready := length bs mod 32 \<noteq> 0\<rparr>)
        | _ \<Rightarrow> (0, v))
      else (0, v))"

definition example_command :: "Hubyte \<Rightarrow> Hubyte \<Rightarrow> card \<Rightarrow> card" where
  "example_command cmd n v =
     (if cmd = 3 then v\<lparr>c_phase := Sending (disk_read (c_disk v) (c_lba v) (ucast n)), cready := False, dready := False\<rparr>
      else if cmd = 4 then v\<lparr>c_phase := Receiving (c_lba v) [] (512 * unat n), cready := False, dready := False\<rparr>
      else v)"

definition example_data :: "Hubyte \<Rightarrow> Hubyte \<Rightarrow> card \<Rightarrow> card" where
  "example_data x y v = (case c_phase v of
     Receiving l got k \<Rightarrow> (if k = 2 then v\<lparr>c_phase := Idle, dready := False,
          c_disk := disk_write l (of_nat (length (got @ [x, y]) div 512)) (got @ [x, y]) (c_disk v)\<rparr>
        else v\<lparr>c_phase := Receiving l (got @ [x, y]) (k - 2), dready := (k - 2) mod 32 \<noteq> 0\<rparr>)
   | _ \<Rightarrow> v)"

definition example_wr :: "Huint \<Rightarrow> Hushort \<Rightarrow> card \<Rightarrow> card" where
  "example_wr a w v = (let u = from_littles w in
     if a = 0x18 then v\<lparr>c_control := (c_control v AND 0xFFFF0000) OR ucast u, granted := granted v \<and> bit u 1\<rparr>
     else if a = 0x1A then v\<lparr>c_control := (c_control v AND 0xFFFF) OR push_bit 16 (ucast u)\<rparr>
     else if a = 0x10 then v\<lparr>c_lba := (c_lba v AND 0xFFFF0000) OR ucast u\<rparr>
     else if a = 0x12 then v\<lparr>c_lba := (c_lba v AND 0xFFFF) OR push_bit 16 (ucast u)\<rparr>
     else if a = 0x14 then example_command (ucast (drop_bit 8 u)) (ucast u) v
     else if a = 0x40 then example_data (ucast u) (ucast (drop_bit 8 u)) v
     else v)"

definition example_chip :: "card chip" where
  "example_chip = \<lparr>rd16 = example_rd, wr16 = example_wr\<rparr>"

lemma count_byte: "n < 256 \<Longrightarrow> unat (of_nat n :: Hubyte) = n" "n < 256 \<Longrightarrow> ucast (of_nat n :: Hubyte) = (of_nat n :: 'a :: len word)"
proof -
  show u: "unat (of_nat n :: Hubyte) = n" if "n < 256" using that by (simp add: unat_of_nat)
  have c: "ucast w = (of_nat (unat w) :: 'a word)" for w :: Hubyte by simp
  show "ucast (of_nat n :: Hubyte) = (of_nat n :: 'a word)" if "n < 256"
    unfolding c u [OF that] ..
qed

lemma command_bytes: "n < 256 \<Longrightarrow> (0x300 OR of_nat n :: Hushort) = be16 3 (of_nat n)"
    "n < 256 \<Longrightarrow> (0x400 OR of_nat n :: Hushort) = be16 4 (of_nat n)"
  by (simp_all add: be16_def count_byte)

lemma example_chip_ok: "chip_ok example_chip example_ace (\<lambda>v. v) (\<lambda>_. 0)"
proof -
  note a = example_chip_def example_ace_def example_rd_def example_wr_def
  have "status_law example_chip example_ace (\<lambda>v. v) (\<lambda>_. 0)"
    by (simp add: status_law_def a calm_def seen_def status_word_def bit_or_iff)
  moreover have "quiet_law example_chip example_ace (\<lambda>v. v) (\<lambda>_. 0)" by (auto simp: quiet_law_def a)
  moreover have "control_law example_chip example_ace (\<lambda>v. v)" by (auto simp: control_law_def a Let_def)
  moreover have "lba_law example_chip example_ace (\<lambda>v. v)" by (auto simp: lba_law_def a Let_def)
  moreover have "command_law example_chip example_ace (\<lambda>v. v)"
    by (auto simp: command_law_def a Let_def command_bytes example_command_def count_byte)
  moreover have "data_read_law example_chip example_ace (\<lambda>v. v)" by (auto simp: data_read_law_def a)
  moreover have "data_write_law example_chip example_ace (\<lambda>v. v)" by (auto simp: data_write_law_def a Let_def example_data_def)
  ultimately show ?thesis by (simp add: chip_ok_def)
qed

section \<open>An example device\<close>

text \<open>A rested card with the given sectors, behind an empty cache of two lines of four sectors.\<close>

definition example_card :: "disk \<Rightarrow> card" where
  "example_card D = \<lparr>c_control = 0, c_lba = 0, c_phase = Idle, c_disk = D, c_size = 1024,
     granted = False, cready = False, dready = False\<rparr>"

definition example_block :: sysace_block where
  "example_block = \<lparr>ace = example_ace, hit = 0, miss = 0, lines = 4, depth = 2, info_ptr = True, cache_ptr = True,
     info = replicate 2 \<lparr>ci_lru = 0xFFFFFFFF, ci_sector = 0, ci_dirty = 0, ci_second = 0, ci_cold = 1\<rparr>,
     cache = (\<lambda>_. 0)\<rparr>"

lemma example_device:
  assumes "\<And>i. length (D i) = 512"
  shows "cached_ok example_chip (\<lambda>v. v) (\<lambda>_. 0) (example_block, example_card D)"
    "cached_disk (\<lambda>v. v) (example_block, example_card D) = D"
    "cached_size (\<lambda>v. v) (example_block, example_card D) = 1024"
proof -
  let ?b = example_block
  have i: "length (info ?b) = 2" "l < 2 \<Longrightarrow> ci_cold (info ?b ! l) = 1 \<and> ci_dirty (info ?b ! l) = 0" for l
    by (simp_all add: example_block_def)
  have "geometry_ok ?b 1024" by (simp add: geometry_ok_def example_block_def)
  moreover have "lines_apart ?b" using i by (simp add: lines_apart_def)
  moreover have "line_ok ?b D 1024 l" if "l < length (info ?b)" for l using i that by (simp add: line_ok_def)
  ultimately have "cache_inv ?b D 1024" by (simp add: cache_inv_def)
  then show "cached_ok example_chip (\<lambda>v. v) (\<lambda>_. 0) (?b, example_card D)"
    using example_chip_ok assms by (simp add: cached_ok_def rested_def example_card_def) (simp add: example_block_def)
  have "\<not> holds_line ?b x l" for x l using i by (auto simp: holds_line_def)
  then show "cached_disk (\<lambda>v. v) (?b, example_card D) = D"
    unfolding cached_disk_def by (intro ext) (simp add: content_miss example_card_def)
  show "cached_size (\<lambda>v. v) (?b, example_card D) = 1024"
    by (simp add: cached_size_def example_block_def example_card_def)
qed

section \<open>Properties\<close>

text \<open>
  C4: The block cache is transparent: on a card without errors, whatever sequence of reads and
  writes is issued within the device, every request succeeds and the data returned are those of a
  plain disk, however lines are loaded, replaced and written back on the way.
\<close>

theorem cache_is_transparent:
  assumes "cached_ok C view wait s" "list_all (op_within (cached_size view s)) ops"
  shows "\<exists>s'. block_run (sysace_block_read C) (sysace_block_write C) ops s =
      Some (map (\<lambda>bs. (SUCCESS, bs)) (disk_run ops (cached_disk view s)), s') \<and> cached_ok C view wait s'"
  by (rule sysace_cache.run_is_disk_run [OF assms])

theorem cache_is_transparent_witness:
  "\<exists>s'. block_run (sysace_block_read example_chip) (sysace_block_write example_chip)
      [Write 7 1 (replicate 512 1), Write 100 1 (replicate 512 2), Write 200 1 (replicate 512 3), Read 7 1, Read 8 1]
      (example_block, example_card (\<lambda>_. replicate 512 0)) =
    Some ([(SUCCESS, []), (SUCCESS, []), (SUCCESS, []), (SUCCESS, replicate 512 1), (SUCCESS, replicate 512 0)], s')"
proof -
  let ?D = "\<lambda>_. replicate 512 0" and ?ops = "[Write 7 1 (replicate 512 1), Write 100 1 (replicate 512 2),
    Write 200 1 (replicate 512 3), Read 7 1, Read 8 1]"
  have ex: "cached_ok example_chip (\<lambda>v. v) (\<lambda>_. 0) (example_block, example_card ?D)"
    "cached_disk (\<lambda>v. v) (example_block, example_card ?D) = ?D"
    "cached_size (\<lambda>v. v) (example_block, example_card ?D) = 1024"
    by (rule example_device, simp)+
  have ops: "list_all (op_within 1024) ?ops" by simp
  have "disk_run ?ops ?D = [[], [], [], replicate 512 1, replicate 512 0]"
    by (simp add: disk_write_def)
  then show ?thesis
    using cache_is_transparent [OF ex(1), unfolded ex(2,3), OF ops] by auto
qed

text \<open>
  C18: Listing a directory on the card: the next call finds the first used entry after the current one
  that is not part of a long name, skipping deleted entries over any number of blocks. When the
  slot before it is not part of a long name, the call returns the entry's number, attributes, size, first cluster
  and 8.3 name. When slots of the first block before it form a long name, up to the one that is
  marked as the last part, the call returns the same with the characters of the long name written
  over the start of the 8.3 name. For an entry from number 17 on with a part of a long name before it the call
  reads outside of an array. The card does not change.
\<close>

theorem next_lists_files:
  assumes ok: "cached_ok C view wait s" and cur: "entryno cur + 1 = of_nat i" "sblk = dir_block (parent cur)"
    and k: "unat sblk + k div 16 < cached_size view s" "k < 2 ^ 31"
    and slot: "first_stop (cached_disk view s) sblk i k" "slot_file (dir_slot (cached_disk view s) sblk k)"
    and e: "e = filled_entry (nxt\<lparr>parent := parent cur\<rparr>) k (dir_slot (cached_disk view s) sblk k)"
  shows "((2 \<le> k \<longrightarrow> fat16_direntry_longname (dir_slot (cached_disk view s) sblk (k - 1)) = 0) \<longrightarrow>
      (\<exists>s'. fat16_dir_next (sysace_block_read C) cur nxt s = Some (SUCCESS, e, s') \<and>
        cached_ok C view wait s' \<and> cached_disk view s' = cached_disk view s)) \<and>
    (long_entries (cached_disk view s sblk) l (k - 1) \<and> length (ent_name nxt) = 261 \<longrightarrow>
      (\<exists>s'. fat16_dir_next (sysace_block_read C) cur nxt s =
          Some (SUCCESS, e\<lparr>ent_name := write_chars (ent_name e) 0 (long_name (cached_disk view s sblk) l (k - 1))\<rparr>, s') \<and>
        cached_ok C view wait s' \<and> cached_disk view s' = cached_disk view s)) \<and>
    (17 \<le> k \<and> fat16_direntry_longname (dir_slot (cached_disk view s) sblk (k - 1)) \<noteq> 0 \<longrightarrow>
      fat16_dir_next (sysace_block_read C) cur nxt s = None)"
proof -
  have k32: "unat sblk + k div 16 < 2 ^ 32" using k(1) cached_size_bound [OF ok] by simp
  note pre = ok cur k(1) k32 k(2) slot
  show ?thesis
    using sysace_cache.next_file [OF pre, of nxt] sysace_cache.next_long [OF pre, of l nxt]
      sysace_cache.next_long_outside [OF pre, of nxt]
    unfolding e Let_def by (intro conjI impI) (blast, blast, blast)
qed

definition slot_bytes :: "Hubyte list \<Rightarrow> Hubyte \<Rightarrow> Hubyte list" where
  "slot_bytes nm attr = nm @ [attr] @ replicate 20 0"

text \<open>A directory in sector 10: the file \<^verbatim>\<open>A\<close>, a deleted entry, the file \<^verbatim>\<open>B\<close>, the end.\<close>

definition example_dir :: disk where
  "example_dir = (\<lambda>_. replicate 512 0)(10 := slot_bytes (65 # replicate 10 32) 0x20 @
     slot_bytes (0xE5 # replicate 10 32) 0x20 @ slot_bytes (66 # replicate 10 32) 0x20 @ replicate 416 0)"

definition example_entry :: "nat \<Rightarrow> fat16_dir_entry" where
  "example_entry n = \<lparr>parent = \<lparr>dir_block = 10, dir_size = 2\<rparr>, ent_name = replicate 261 0, entryno = of_nat n,
     ent_attrs = 0, ent_size = 0, ent_cluster = 0\<rparr>"

lemma example_dir_slots:
  "j < 16 \<Longrightarrow> dir_slot example_dir 10 j = direntry_at (example_dir 10) j"
  "slot_file (dir_slot example_dir 10 0)" "\<not> slot_file (dir_slot example_dir 10 1)" "\<not> slot_end (dir_slot example_dir 10 1)"
  "slot_file (dir_slot example_dir 10 2)" "slot_end (dir_slot example_dir 10 3)"
  "fat16_direntry_longname (dir_slot example_dir 10 1) = 0" "length (example_dir b) = 512"
  by (simp_all add: dir_slot_def example_dir_def slot_bytes_def slot_file_at slot_end_at longname_at nth_append nth_Cons'
      FAT16_DIRENTRY_LONGNAME_def C_bool_def)

theorem next_lists_files_witness:
  "\<exists>s' e. fat16_dir_next (sysace_block_read example_chip) (example_entry 0) (example_entry 0)
      (example_block, example_card example_dir) = Some (SUCCESS, e, s') \<and>
     entryno e = 2 \<and> ent_attrs e = 0x20"
proof -
  note ex = example_device [of example_dir, OF example_dir_slots(8)]
  have stop: "first_stop example_dir 10 1 2"
  proof -
    have "{1..<2} = {1 :: nat}" by auto
    then show ?thesis using example_dir_slots by (simp add: first_stop_def)
  qed
  let ?e = "filled_entry (example_entry 0) 2 (dir_slot example_dir 10 2)"
  have cur: "entryno (example_entry 0) + 1 = of_nat 1" "10 = dir_block (parent (example_entry 0))"
      "(example_entry 0)\<lparr>parent := parent (example_entry 0)\<rparr> = example_entry 0"
    by (simp_all add: example_entry_def)
  have k: "unat (10 :: Huint) + 2 div 16 < 1024" "(2 :: nat) < 2 ^ 31" by simp_all
  have l: "fat16_direntry_longname (dir_slot example_dir 10 (2 - 1)) = 0" using example_dir_slots(7) by simp
  have "\<exists>s'. fat16_dir_next (sysace_block_read example_chip) (example_entry 0) (example_entry 0)
      (example_block, example_card example_dir) = Some (SUCCESS, ?e, s')"
    using next_lists_files [OF ex(1) cur(1,2), unfolded ex(2,3), OF k stop example_dir_slots(5) refl,
        of "example_entry 0", THEN conjunct1] l
    unfolding cur(3) by blast
  moreover have "entryno ?e = 2" "ent_attrs ?e = 0x20"
    by (simp_all add: filled_entry_def example_dir_slots(1))
       (simp add: direntry_at_def Let_def example_dir_def slot_bytes_def nth_append)
  ultimately show ?thesis by blast
qed

text \<open>
  The end of a directory is not reported: when no entry is left before the end marker, the
  next call returns success and leaves the entry as it was, because the internal search signals
  the end with a positive error number and the caller only takes negative ones for errors.
\<close>

theorem directory_end_is_success:
  assumes ok: "cached_ok C view wait s" and cur: "entryno cur + 1 = of_nat i" "sblk = dir_block (parent cur)"
    and k: "unat sblk + k div 16 < cached_size view s" "k < 2 ^ 31"
    and slot: "first_stop (cached_disk view s) sblk i k" "slot_end (dir_slot (cached_disk view s) sblk k)"
  shows "\<exists>s'. fat16_dir_next (sysace_block_read C) cur nxt s = Some (SUCCESS, nxt\<lparr>parent := parent cur\<rparr>, s') \<and>
    cached_ok C view wait s'"
  using sysace_cache.next_end [OF ok cur k(1) _ k(2) slot, of nxt] k(1) cached_size_bound [OF ok] by auto

theorem directory_end_is_success_witness:
  "\<exists>s'. fat16_dir_next (sysace_block_read example_chip) (example_entry 2) (example_entry 2)
      (example_block, example_card example_dir) = Some (SUCCESS, example_entry 2, s')"
proof -
  note ex = example_device [of example_dir, OF example_dir_slots(8)]
  have stop: "first_stop example_dir 10 3 3" using example_dir_slots(6) by (simp add: first_stop_def)
  have cur: "entryno (example_entry 2) + 1 = of_nat 3" "10 = dir_block (parent (example_entry 2))"
      "(example_entry 2)\<lparr>parent := parent (example_entry 2)\<rparr> = example_entry 2"
    by (simp_all add: example_entry_def)
  have k: "unat (10 :: Huint) + 3 div 16 < 1024" "(3 :: nat) < 2 ^ 31" by simp_all
  show ?thesis
    using directory_end_is_success [OF ex(1) cur(1,2), unfolded ex(2,3), OF k stop example_dir_slots(6), of "example_entry 2"]
    unfolding cur(3) by blast
qed

text \<open>
  A long name is put together from the entries before the file, nearest first, up to the one
  that is marked as the last: the characters, thirteen per entry, replace the start of the 8.3 name.
  This holds for files in the first block of a directory.
\<close>

theorem long_name_is_read:
  assumes ok: "cached_ok C view wait s" and cur: "entryno cur + 1 = of_nat i" "sblk = dir_block (parent cur)"
    and k: "unat sblk + k div 16 < cached_size view s" "k < 2 ^ 31"
    and slot: "first_stop (cached_disk view s) sblk i k" "slot_file (dir_slot (cached_disk view s) sblk k)"
    and long: "long_entries (cached_disk view s sblk) l (k - 1)" "length (ent_name nxt) = 261"
  shows "\<exists>s' e. fat16_dir_next (sysace_block_read C) cur nxt s = Some (SUCCESS, e, s') \<and> entryno e = of_nat k \<and>
    take (13 * (k - l)) (ent_name e) = long_name (cached_disk view s sblk) l (k - 1) \<and> length (ent_name e) = 261"
proof -
  let ?e = "filled_entry (nxt\<lparr>parent := parent cur\<rparr>) k (dir_slot (cached_disk view s) sblk k)"
  let ?nm = "long_name (cached_disk view s sblk) l (k - 1)"
  have lk: "l \<le> k - 1" "1 \<le> l" "k - 1 < 16" using long(1) by (simp_all add: long_entries_def)
  have len: "length ?nm = 13 * (k - l)" using length_long_name [OF lk(1)] lk by (simp add: Suc_diff_le [symmetric])
  moreover have e: "length (ent_name ?e) = 261" using long(2) by (simp add: filled_entry_def length_direntry_name)
  ultimately have "length (write_chars (ent_name ?e) 0 ?nm) = 261" "take (13 * (k - l)) (write_chars (ent_name ?e) 0 ?nm) = ?nm"
    using lk by (simp_all add: write_chars_def)
  moreover have "entryno ?e = of_nat k" by (simp add: filled_entry_def)
  ultimately show ?thesis
    using sysace_cache.next_long [OF ok cur k(1) _ k(2) slot long] k(1) cached_size_bound [OF ok] by (auto simp: Let_def)
qed

text \<open>A directory whose second entry belongs to the long name of the third.\<close>

definition example_long_dir :: disk where
  "example_long_dir = (\<lambda>_. replicate 512 0)(10 := slot_bytes (65 # replicate 10 32) 0x08 @
     slot_bytes [0x41, 104, 0, 105, 0, 0, 0, 0xFF, 0xFF, 0xFF, 0xFF] 0x0F @ slot_bytes (72 # replicate 10 32) 0x20 @ replicate 416 0)"

lemma example_long_slots:
  "slot_file (dir_slot example_long_dir 10 2)" "\<not> slot_file (dir_slot example_long_dir 10 1)"
  "\<not> slot_end (dir_slot example_long_dir 10 1)" "length (example_long_dir b) = 512"
  "long_entries (example_long_dir 10) 1 1" "take 3 (long_name (example_long_dir 10) 1 1) = [104, 105, 0]"
  by (simp_all add: dir_slot_def example_long_dir_def slot_bytes_def slot_file_at slot_end_at nth_append nth_Cons'
      FAT16_DIRENTRY_LONGNAME_def long_entries_def long_name_def longname_chars_def bytes16_def)

theorem long_name_is_read_witness:
  "\<exists>s' e. fat16_dir_next (sysace_block_read example_chip) (example_entry 0) (example_entry 0)
      (example_block, example_card example_long_dir) = Some (SUCCESS, e, s') \<and> take 3 (ent_name e) = [104, 105, 0]"
proof -
  note ex = example_device [of example_long_dir, OF example_long_slots(4)]
  have "{1..<2} = {1 :: nat}" by auto
  then have stop: "first_stop example_long_dir 10 1 2" using example_long_slots by (simp add: first_stop_def)
  have cur: "entryno (example_entry 0) + 1 = of_nat 1" "10 = dir_block (parent (example_entry 0))"
      "length (ent_name (example_entry 0)) = 261"
    by (simp_all add: example_entry_def)
  have k: "unat (10 :: Huint) + 2 div 16 < 1024" "(2 :: nat) < 2 ^ 31" by simp_all
  have l: "long_entries (example_long_dir 10) 1 (2 - 1)" using example_long_slots(5) by simp
  obtain s' e where e: "fat16_dir_next (sysace_block_read example_chip) (example_entry 0) (example_entry 0)
      (example_block, example_card example_long_dir) = Some (SUCCESS, e, s')"
      "take (13 * (2 - 1)) (ent_name e) = long_name (example_long_dir 10) 1 (2 - 1)"
    using long_name_is_read [OF ex(1) cur(1,2), unfolded ex(2,3), OF k stop example_long_slots(1) l cur(3)] by blast
  have "take 3 (take (13 * (2 - 1)) (ent_name e)) = [104, 105, 0]" unfolding e(2) using example_long_slots(6) by simp
  then show ?thesis using e(1) by (simp add: min_def)
qed

text \<open>
  Beyond the first block of a directory long names cannot be read: for a file at entry 17 or later
  that has one, the search for its first part looks up the order byte at the entry's number in
  the directory instead of its place in the block, outside of the array of sixteen entries.
\<close>

theorem long_name_outside_array:
  assumes ok: "cached_ok C view wait s" and cur: "entryno cur + 1 = of_nat i" "sblk = dir_block (parent cur)"
    and k: "unat sblk + k div 16 < cached_size view s" "k < 2 ^ 31"
    and slot: "first_stop (cached_disk view s) sblk i k" "slot_file (dir_slot (cached_disk view s) sblk k)"
    and long: "17 \<le> k" "fat16_direntry_longname (dir_slot (cached_disk view s) sblk (k - 1)) \<noteq> 0"
  shows "fat16_dir_next (sysace_block_read C) cur nxt s = None"
  using sysace_cache.next_long_outside [OF ok cur k(1) _ k(2) slot long] k(1) cached_size_bound [OF ok] by simp

definition example_big_dir :: disk where
  "example_big_dir = (\<lambda>_. replicate 512 0)(10 := replicate 512 0xE5,
     11 := slot_bytes (0x41 # replicate 10 0) 0x0F @ slot_bytes (72 # replicate 10 32) 0x20 @ replicate 448 0)"

lemma example_big_slots:
  "length (example_big_dir b) = 512" "slot_file (dir_slot example_big_dir 10 17)"
  "fat16_direntry_longname (dir_slot example_big_dir 10 16) \<noteq> 0"
  "\<not> slot_file (dir_slot example_big_dir 10 16)" "\<not> slot_end (dir_slot example_big_dir 10 16)"
  "j < 16 \<Longrightarrow> \<not> slot_file (dir_slot example_big_dir 10 j) \<and> \<not> slot_end (dir_slot example_big_dir 10 j)"
  by (simp_all add: dir_slot_def example_big_dir_def slot_bytes_def slot_file_at slot_end_at longname_at nth_append nth_Cons'
      FAT16_DIRENTRY_LONGNAME_def C_bool_def)

theorem long_name_outside_array_witness:
  "fat16_dir_next (sysace_block_read example_chip) (example_entry 0) (example_entry 0)
      (example_block, example_card example_big_dir) = None"
proof -
  note ex = example_device [of example_big_dir, OF example_big_slots(1)]
  have "\<not> slot_file (dir_slot example_big_dir 10 j) \<and> \<not> slot_end (dir_slot example_big_dir 10 j)" if "j < 17" for j
    using that example_big_slots(4-6) by (cases "j = 16") auto
  then have stop: "first_stop example_big_dir 10 1 17" using example_big_slots(2) by (simp add: first_stop_def)
  have cur: "entryno (example_entry 0) + 1 = of_nat 1" "10 = dir_block (parent (example_entry 0))"
    by (simp_all add: example_entry_def)
  have k: "unat (10 :: Huint) + 17 div 16 < 1024" "(17 :: nat) < 2 ^ 31" "17 \<le> (17 :: nat)" by simp_all
  have l: "fat16_direntry_longname (dir_slot example_big_dir 10 (17 - 1)) \<noteq> 0" using example_big_slots(3) by simp
  show ?thesis
    by (rule long_name_outside_array [OF ex(1) cur, unfolded ex(2,3), OF k(1,2) stop example_big_slots(2) k(3) l])
qed

end
