(* ===== verification/Storage_Limits.thy ===== *)
theory Storage_Limits
  imports Storage
begin

text \<open>
  More of the storage stack on the card: mounting a file system and finding its clusters, what
  a flush leaves on the card, and where the code departs from what it is written for (the
  fourth partition, the entries of the file allocation table, second chances, read errors).
\<close>

section \<open>Transfers\<close>

text \<open>
  C20: Reading 1 to 255 sectors of the card ends: on a chip and card without errors every polling loop on
  the way (for the lock, for the controller and for each of the buffers) leaves, the
  sectors named are delivered, and after the lock is returned the card is ready for the
  next transfer with its contents as before. Other numbers of sectors are excluded: the command has
  eight bits for the number, while the driver waits for all of the data it was asked for.
\<close>

theorem transfer_ends:
  assumes ok: "chip_ok C a view wait" "rested (view d)"
    and n: "0 < unat num" "unat num < 256" "unat sec + unat num \<le> c_size (view d)"
  shows "\<exists>d1 d2 d3. sysace_lock C a d = Some (SUCCESS, d1) \<and> sysace_cf_ready C a d1 = Some (SUCCESS, d2) \<and>
    sysace_cf_readsector C a sec num d2 = Some (num * SYSACE_DATA_SECTOR, disk_read (c_disk (view d)) sec num, d3) \<and>
    rested (view (snd (sysace_unlock C a d3))) \<and> same_store (view d) (view (snd (sysace_unlock C a d3)))"
proof -
  obtain d1 d2 where d2: "sysace_lock C a d = Some (SUCCESS, d1)" "sysace_cf_ready C a d1 = Some (SUCCESS, d2)"
    "rested (view d2)" "same_store (view d) (view d2)" "granted (view d2)" "cready (view d2)"
    using lock_ready [OF ok] by blast
  have range: "unat sec + unat num \<le> c_size (view d2)" using n(3) d2(4) by (simp add: same_store_def)
  obtain d3 where d3: "sysace_cf_readsector C a sec num d2 =
      Some (num * SYSACE_DATA_SECTOR, disk_read (c_disk (view d2)) sec num, d3)" "rested (view d3)" "same_store (view d2) (view d3)"
    using readsector_delivers [OF ok(1) d2(3,5,6) n(1,2) range] by blast
  then show ?thesis using d2 unlock_rests [OF ok(1) d3(2)] by (simp add: same_store_def)
qed

theorem transfer_ends_witness:
  "\<exists>d1 d2 d3. sysace_lock example_chip example_ace (example_card (\<lambda>_. replicate 512 7)) = Some (SUCCESS, d1) \<and>
    sysace_cf_ready example_chip example_ace d1 = Some (SUCCESS, d2) \<and>
    sysace_cf_readsector example_chip example_ace 9 1 d2 = Some (SYSACE_DATA_SECTOR, replicate 512 7, d3)"
proof -
  let ?d = "example_card (\<lambda>_. replicate 512 7)"
  have "rested ?d" "c_size ?d = 1024" "c_disk ?d = (\<lambda>_. replicate 512 7)"
    by (simp_all add: rested_def example_card_def)
  then show ?thesis using transfer_ends [OF example_chip_ok, of ?d 1 9] by auto
qed

section \<open>Write-back\<close>

text \<open>
  C19: Flushing the cache writes everything back: on a card without errors it returns success, the
  sectors of the card itself are then what the device held (all writes so far included), the
  device still reads the same, and the statistics start again from zero.
\<close>

theorem flush_writes_back:
  assumes "cached_ok C view wait s"
  shows "\<exists>blk d. sysace_block_cacheflush C s = Some (SUCCESS, blk, d) \<and> cached_ok C view wait (blk, d) \<and>
    c_disk (view d) = cached_disk view s \<and> cached_disk view (blk, d) = cached_disk view s \<and> hit blk = 0 \<and> miss blk = 0"
proof -
  obtain blk d where "sysace_block_cacheflush C s = Some (SUCCESS, blk, d)" "cached_ok C view wait (blk, d)"
    "same_device view s (blk, d)" "c_disk (view d) = cached_disk view s" "hit blk = 0" "miss blk = 0"
    using cacheflush_ok [OF assms] by blast
  then show ?thesis by (intro exI [of _ blk] exI [of _ d]) (simp add: same_device_def)
qed

theorem flush_writes_back_witness:
  "\<exists>s1 blk d. sysace_block_write example_chip (example_block, example_card (\<lambda>_. replicate 512 0)) 7 1 (replicate 512 1) =
      Some (SUCCESS, s1) \<and> sysace_block_cacheflush example_chip s1 = Some (SUCCESS, blk, d) \<and>
      c_disk d 7 = replicate 512 1 \<and> c_disk d 8 = replicate 512 0"
proof -
  let ?s = "(example_block, example_card (\<lambda>_. replicate 512 0))"
  have ex: "cached_ok example_chip (\<lambda>v. v) (\<lambda>_. 0) ?s" "cached_disk (\<lambda>v. v) ?s = (\<lambda>_. replicate 512 0)"
    "cached_size (\<lambda>v. v) ?s = 1024" by (rule example_device, simp)+
  obtain s1 where s1: "sysace_block_write example_chip ?s 7 1 (replicate 512 1) = Some (SUCCESS, s1)"
    "cached_ok example_chip (\<lambda>v. v) (\<lambda>_. 0) s1"
    "cached_disk (\<lambda>v. v) s1 = disk_write 7 1 (replicate 512 1) (\<lambda>_. replicate 512 0)"
    using sysace_cache.wr_ok [OF ex(1), of 7 1 "replicate 512 1"] ex(2,3) by auto
  then show ?thesis using flush_writes_back [OF s1(2)] by (auto simp: disk_write_def)
qed

section \<open>Mounting\<close>

lemma unat_widen: "unat (ucast (v :: Hushort) :: Huint) = unat v" "unat (ucast (b :: Hubyte) :: Huint) = unat b"
  using unsigned_less [of v, where 'a = nat] unsigned_less [of b, where 'a = nat]
  by (simp_all add: unsigned_ucast_eq take_bit_nat_eq_self_iff)

lemma small_ops:
  "unat x + unat y < 2 ^ 32 \<Longrightarrow> unat (x + y :: Huint) = unat x + unat y"
  "unat x * unat y < 2 ^ 32 \<Longrightarrow> unat (x * y :: Huint) = unat x * unat y"
  by (simp_all add: unat_word_ariths)

lemma data_sector_value:
  fixes w11 w14 w17 w22 :: Hushort and b16 :: Hubyte
  assumes r: "bt_sector fat = ucast w11" "fat_sector fat = f + ucast w14" "fat_size fat = ucast w22"
    "root_sector fat = fat_sector fat + ucast b16 * fat_size fat"
    "root_size fat = (ucast w17 * 32 + (bt_sector fat - 1)) div bt_sector fat"
    "data_sector fat = root_sector fat + root_size fat"
    and w: "w11 \<noteq> 0"
      "d0 = unat f + unat w14 + unat b16 * unat w22 + (unat w17 * 32 + (unat w11 - 1)) div unat w11" "d0 < 2 ^ 32"
  shows "unat (data_sector fat) = d0"
proof -
  note u = unat_widen
  have lt: "unat (v :: Hushort) < 65536" for v using unsigned_less [of v] by simp
  have bt: "unat (bt_sector fat) = unat w11" using r(1) u by simp
  have "bt_sector fat \<noteq> 0" using r(1) w(1) by (simp add: ucast_widen_eq_0)
  then have b1: "unat (bt_sector fat - 1) = unat w11 - 1" using bt by (simp add: unat_minus_one)
  have n: "unat (ucast w17 * 32 :: Huint) = unat w17 * 32" using lt [of w17] by (subst small_ops(2)) (simp_all add: u)
  have "unat (ucast w17 * 32 + (bt_sector fat - 1)) = unat w17 * 32 + (unat w11 - 1)"
    using lt [of w17] lt [of w11] by (subst small_ops(1)) (simp_all add: n b1)
  then have root: "unat (root_size fat) = (unat w17 * 32 + (unat w11 - 1)) div unat w11"
    using r(5) bt by (simp add: unat_div)
  have fs: "unat (fat_sector fat) = unat f + unat w14" using w(2,3) r(2) u by (simp add: small_ops(1))
  have "unat (ucast b16 * fat_size fat) = unat b16 * unat w22" using w(2,3) r(3) u by (simp add: small_ops(2))
  then have "unat (root_sector fat) = unat f + unat w14 + unat b16 * unat w22"
    using w(2,3) r(4) fs by (simp add: small_ops(1))
  then show ?thesis using w(2,3) r(6) root by (simp add: small_ops(1))
qed

text \<open>
  Creating a file system from a partition on the card: the boot sector is read, and the first
  sector of cluster \<open>c\<close> comes out where the FAT16 layout has it: after the reserved sectors,
  the tables and the root directory, rounded up to whole sectors, \<open>c - 2\<close> clusters on.
\<close>

theorem cluster_location:
  assumes ok: "cached_ok C view wait s" and f: "f = load32 m (part + 8)" "unat f < cached_size view s"
    and bs: "bs = cached_disk view s f" "le16 bs 11 \<noteq> 0"
    and lay: "d0 = unat f + unat (le16 bs 14) + unat (bs ! 16) * unat (le16 bs 22) +
        (unat (le16 bs 17) * 32 + (unat (le16 bs 11) - 1)) div unat (le16 bs 11)"
    and c: "2 \<le> c" "d0 + (unat c - 2) * unat (bs ! 13) < 2 ^ 32"
  shows "\<exists>fat s' m'. fat16_create (sysace_block_read C) part boot fat0 s m = Some (SUCCESS, fat, s', m') \<and>
    cached_ok C view wait s' \<and> cached_disk view s' = cached_disk view s \<and>
    unat (fat16_sector fat c) = d0 + (unat c - 2) * unat (bs ! 13)"
proof -
  obtain fat s' m' where r: "fat16_create (sysace_block_read C) part boot fat0 s m = Some (SUCCESS, fat, s', m')"
    "cached_ok C view wait s'" "cached_disk view s' = cached_disk view s"
    "bt_sector fat = ucast (le16 bs 11)" "cl_sectors fat = ucast (bs ! 13)"
    "fat_sector fat = f + ucast (le16 bs 14)" "fat_size fat = ucast (le16 bs 22)"
    "root_sector fat = fat_sector fat + ucast (bs ! 16) * fat_size fat"
    "root_size fat = (ucast (le16 bs 17) * 32 + (bt_sector fat - 1)) div bt_sector fat"
    "data_sector fat = root_sector fat + root_size fat"
    using sysace_cache.create_result [OF ok f bs, of boot fat0] by metis
  have "unat (data_sector fat) = d0"
    by (rule data_sector_value [OF r(4,6-10)]) (use bs(2) lay c(2) in simp_all)
  then show ?thesis using r(1-3,5) cluster_sector_value [OF c(1), of fat] c(2) by (simp add: unat_widen)
qed

text \<open>A boot sector: 512 bytes per sector, 4 sectors per cluster, two tables of 16 sectors, 512 root entries.\<close>

definition example_boot :: "Hubyte list" where
  "example_boot = replicate 11 0 @ [0, 2, 4, 1, 0, 2, 0, 2, 0, 8, 0xF8, 16, 0] @ replicate 488 0"

theorem cluster_location_witness:
  "\<forall>fat0. \<exists>fat s' m'. fat16_create (sysace_block_read example_chip) 0 100 fat0
      (example_block, example_card (\<lambda>_. example_boot)) ((\<lambda>_. 0)(11 := 63)) = Some (SUCCESS, fat, s', m') \<and>
    unat (fat16_sector fat 5) = 140"
proof -
  let ?D = "\<lambda>_ :: Huint. example_boot" and ?m = "(\<lambda>_. 0)(11 := 63) :: memory" and ?bs = example_boot
  have ex: "cached_ok example_chip (\<lambda>v. v) (\<lambda>_. 0) (example_block, example_card ?D)"
    "cached_disk (\<lambda>v. v) (example_block, example_card ?D) = ?D"
    "cached_size (\<lambda>v. v) (example_block, example_card ?D) = 1024"
    by (rule example_device, simp add: example_boot_def)+
  have f: "63 = load32 ?m (0 + 8)" by (simp add: load32_def be32_def)
  have b: "le16 ?bs 11 = 512" "le16 ?bs 14 = 1" "?bs ! 16 = 2" "le16 ?bs 22 = 16" "le16 ?bs 17 = 512" "?bs ! 13 = 4"
    by (simp_all add: example_boot_def le16_def be16_def nth_append)
  have d0: "128 = unat (63 :: Huint) + unat (le16 ?bs 14) + unat (?bs ! 16) * unat (le16 ?bs 22) +
        (unat (le16 ?bs 17) * 32 + (unat (le16 ?bs 11) - 1)) div unat (le16 ?bs 11)"
    unfolding b by simp
  have nz: "le16 ?bs 11 \<noteq> 0" and c: "2 \<le> (5 :: Huint)" "128 + (unat (5 :: Huint) - 2) * unat (?bs ! 13) < 2 ^ 32"
    "unat (63 :: Huint) < 1024"
    unfolding b by simp_all
  have "128 + (unat (5 :: Huint) - 2) * unat (?bs ! 13) = 140" unfolding b by simp
  then show ?thesis
    using cluster_location [OF ex(1) f, unfolded ex(2,3), OF c(3) refl nz d0 c(1,2), of 100] by metis
qed

section \<open>Departures\<close>

text \<open>
  The master boot record is converted to the processor's byte order only in part: the first
  three partitions and the signature are read right, the fourth keeps the byte order of the disk
  and the two bytes after the record in memory are exchanged instead.
\<close>

theorem mbr_fourth_partition:
  assumes "cached_ok C view wait s" "unat sec < cached_size view s" "bs = cached_disk view s sec"
  shows "\<exists>s' m'. fat16_mbr_read (sysace_block_read C) mbr sec s m = Some (SUCCESS, s', m') \<and>
    (\<forall>i<3. partition_fields mbr i m' = disk_partition bs i) \<and> load16 m' (mbr + 510) = le16 bs 510 \<and>
    partition_fields mbr 3 m' = (from_littles (le16 bs 496), from_littles (le16 bs 500),
      from_littlel (le32 bs 502), from_littlel (le32 bs 506)) \<and>
    m' (mbr + 512) = m (mbr + 513) \<and> m' (mbr + 513) = m (mbr + 512)"
proof -
  let ?m = "snd (fat16_mbr_readconvert mbr (put_bytes mbr bs m))"
  have len: "length bs = 512" using sysace_cache.sector_length [OF assms(1)] assms(3) by simp
  obtain s' where "fat16_mbr_read (sysace_block_read C) mbr sec s m = Some (SUCCESS, s', ?m)"
    using sysace_cache.mbr_read_result [OF assms(1,2)] assms(3) by metis
  then show ?thesis
    using mbr_convert_low [OF len] mbr_convert_high [OF len, of mbr m] by (simp add: Let_def)
qed

theorem mbr_fourth_partition_witness:
  "\<exists>s' m'. fat16_mbr_read (sysace_block_read example_chip) 0 0
      (example_block, example_card (\<lambda>_. replicate 510 1 @ [0x55, 0xAA])) (\<lambda>a. if a = 512 then 7 else 9) = Some (SUCCESS, s', m') \<and>
     load16 m' 510 = 0xAA55 \<and> m' 512 = 9 \<and> m' 513 = 7"
proof -
  let ?D = "\<lambda>_ :: Huint. replicate 510 1 @ [0x55, 0xAA :: Hubyte]"
  have ex: "cached_ok example_chip (\<lambda>v. v) (\<lambda>_. 0) (example_block, example_card ?D)"
    "cached_disk (\<lambda>v. v) (example_block, example_card ?D) = ?D"
    "cached_size (\<lambda>v. v) (example_block, example_card ?D) = 1024"
    by (rule example_device, simp)+
  have "le16 (?D 0) 510 = 0xAA55" by (simp add: le16_def nth_append be16_def)
  then show ?thesis
    using mbr_fourth_partition [OF ex(1), of 0 "?D 0" 0 "\<lambda>a. if a = 512 then 7 else 9"] unfolding ex(2,3) by auto
qed

text \<open>
  Looking up a cluster in the file allocation table reads the wrong place: instead of the
  entry at byte \<open>2 c\<close> of its sector the code takes the one at byte \<open>4 c\<close>, in the byte order of the
  disk, and for the upper half of the clusters of every sector it reads behind the buffer.
\<close>

theorem getentry_reads_wrong_entry:
  assumes "cached_ok C view wait s" "bt_sector fat = 512" "c < 0x80000000"
    and "sec = fat_sector fat + c div 256" "unat sec < cached_size view s"
  shows "table_entry (cached_disk view s) fat c = le16 (cached_disk view s sec) (2 * unat (c mod 256)) \<and>
    (if c mod 256 < 128 then \<exists>s'. fat16_getentry (sysace_block_read C) fat c e s =
        Some (SUCCESS, from_littles (le16 (cached_disk view s sec) (4 * unat (c mod 256))), s')
     else fat16_getentry (sysace_block_read C) fat c e s = None)"
proof -
  obtain s' where "fat16_getentry (sysace_block_read C) fat c e s = (if c mod 256 < 128
       then Some (SUCCESS, from_littles (le16 (cached_disk view s sec) (4 * unat (c mod 256))), s') else None)"
    using sysace_cache.getentry_result [OF assms, of e] by blast
  then show ?thesis using assms(4) by (simp add: table_entry_def)
qed

theorem getentry_reads_wrong_entry_witness:
  "\<exists>fat. table_entry (\<lambda>_. map of_nat [0..<512]) fat 3 = 0x0706 \<and>
    (\<exists>s'. fat16_getentry (sysace_block_read example_chip) fat 3 0 (example_block, example_card (\<lambda>_. map of_nat [0..<512])) =
       Some (SUCCESS, 0x0C0D, s')) \<and>
    fat16_getentry (sysace_block_read example_chip) fat 200 0 (example_block, example_card (\<lambda>_. map of_nat [0..<512])) = None"
proof -
  let ?D = "\<lambda>_ :: Huint. map of_nat [0..<512] :: Hubyte list" and ?fat = "undefined\<lparr>bt_sector := 512, fat_sector := 1\<rparr> :: fat16"
  have ex: "cached_ok example_chip (\<lambda>v. v) (\<lambda>_. 0) (example_block, example_card ?D)"
    "cached_disk (\<lambda>v. v) (example_block, example_card ?D) = ?D"
    "cached_size (\<lambda>v. v) (example_block, example_card ?D) = 1024"
    by (rule example_device, simp)+
  have "le16 (?D 1) 12 = 0x0D0C" "le16 (?D 1) 6 = 0x0706" by (simp_all add: le16_def be16_def)
  moreover have "from_littles 0x0D0C = 0x0C0D" by (simp add: from_littles_def)
  ultimately show ?thesis
    using getentry_reads_wrong_entry [OF ex(1), of ?fat 3 1 0] getentry_reads_wrong_entry [OF ex(1), of ?fat 200 1 0]
    unfolding ex(2,3) by (intro exI [of _ ?fat]) simp
qed

text \<open>
  The second chance of a dirty line is without effect: when the scan finds a dirty line that
  has not had one, the replacement starts over once, finds the same line again and writes it
  back; so the line that is replaced is always the one the first scan found, and the function
  returns after at most one repetition.
\<close>

theorem second_chance_is_ineffective:
  assumes "replace_scan (info blk) (unat (depth blk)) 0 0 = Inr best" "best < length (info blk)"
    "ci_dirty (info blk ! best) \<noteq> 0" "ci_second (info blk ! best) = 0"
  shows "sysace_block_cachereplace C (blk, d) =
    do { (_, blk, d) \<leftarrow> sysace_block_cachestore C (of_nat best)
           (blk\<lparr>info := (info blk)[best := (info blk ! best)\<lparr>ci_second := 1\<rparr>]\<rparr>, d);
         Some (of_nat best, blk, d) }"
  by (rule second_chance_evicts [OF assms refl])

definition dirty_block :: sysace_block where
  "dirty_block = example_block\<lparr>info := [
     \<lparr>ci_lru = 0, ci_sector = 4, ci_dirty = 0, ci_second = 0, ci_cold = 0\<rparr>,
     \<lparr>ci_lru = 1, ci_sector = 8, ci_dirty = 1, ci_second = 0, ci_cold = 0\<rparr>]\<rparr>"

lemma replace_scan_2: "replace_scan cs 2 = replace_scan cs (Suc (Suc 0))"
  by (simp add: numeral_2_eq_2)

theorem second_chance_is_ineffective_witness:
  "sysace_block_cachereplace example_chip (dirty_block, example_card (\<lambda>_. replicate 512 0)) =
    do { (_, blk, d) \<leftarrow> sysace_block_cachestore example_chip 1
           (dirty_block\<lparr>info := (info dirty_block)[1 := (info dirty_block ! 1)\<lparr>ci_second := 1\<rparr>]\<rparr>,
            example_card (\<lambda>_. replicate 512 0));
         Some (1, blk, d) }"
proof -
  have "replace_scan (info dirty_block) (unat (depth dirty_block)) 0 0 = Inr 1" "1 < length (info dirty_block)"
      "ci_dirty (info dirty_block ! 1) \<noteq> 0" "ci_second (info dirty_block ! 1) = 0"
    by (simp_all add: dirty_block_def example_block_def replace_scan_2)
  from second_chance_is_ineffective [OF this, of example_chip] show ?thesis by simp
qed

text \<open>
  A read error is taken for a line number: when the transfer of a line comes up short, the
  driver's error number 5 is positive, so reading a sector from a cold cache of more than five
  lines returns success with whatever is in line five, and the controller stays locked.
\<close>

theorem read_error_taken_for_line:
  assumes cold: "\<forall>c\<in>set (info blk). ci_cold c \<noteq> 0" "length (info blk) = unat (depth blk)" "5 < depth blk"
    and i: "i < 0xFFFFFFFF" "lines blk \<noteq> 0"
    and chip: "sysace_lock C (ace blk) d = Some (SUCCESS, d1)" "sysace_cf_ready C (ace blk) d1 = Some (SUCCESS, d2)"
      "sysace_cf_readsector C (ace blk) (i - i mod lines blk) (lines blk) d2 = Some (sz, bs, d3)"
      "sz < lines blk * SYSACE_DATA_SECTOR"
  shows "\<exists>blk'. sysace_block_read C (blk, d) i 1 =
    Some (SUCCESS, get_bytes (sector_addr blk 5 i) 512 (put_bytes 0 bs (cache blk)), blk', d3)"
proof -
  let ?blk = "blk\<lparr>miss := miss blk + 1\<rparr>"
  have c: "\<forall>c\<in>set (info ?blk). ci_cold c \<noteq> 0" "length (info ?blk) = unat (depth ?blk)" "0 < unat (depth ?blk)"
    using cold by (simp_all add: word_less_nat_alt)
  have "sysace_block_cacheload C 0 (i - i mod lines blk) (?blk, d) = Some (EIO, ?blk\<lparr>cache := put_bytes 0 bs (cache blk)\<rparr>, d3)"
    using short_load [of C ?blk d d1 d2 "i - i mod lines blk" sz bs d3] chip by simp
  then have line: "get_line C i (blk, d) = Some (EIO, ?blk\<lparr>cache := put_bytes 0 bs (cache blk)\<rparr>, d3)"
    using cold_cache(1) [of blk i] cold_cache(2) [OF c, of C d] c i(2)
    by (simp add: get_line_def sysace_block_cacheread_def)
  have "block_steps i 1 = 1"
    using i(1) by (subst block_steps_eq) (simp_all add: word_less_nat_alt)
  moreover have "5 < length (info blk)" using cold(2,3) by (simp add: word_less_nat_alt)
  ultimately show ?thesis
    using line by (simp add: sysace_block_read_def EIO_def sector_addr_def)
qed

text \<open>A chip whose card is ready for three looks at the status, and then not any more.\<close>

definition failing_chip :: "nat chip" where
  "failing_chip = \<lparr>rd16 = (\<lambda>a n. if a = 4 then (from_littles (if n < 3 then 0x102 else 2), Suc n) else (0, n)),
     wr16 = (\<lambda>_ _ n. n)\<rparr>"

theorem read_error_taken_for_line_witness:
  "\<exists>blk'. sysace_block_read failing_chip
     (example_block\<lparr>depth := 8, info := replicate 8 (info example_block ! 0)\<rparr>, 0) 7 1 =
    Some (SUCCESS, replicate 512 0, blk', 4)"
proof -
  let ?b = "example_block\<lparr>depth := 8, info := replicate 8 (info example_block ! 0)\<rparr>"
  have a: "ace ?b = example_ace" by (simp add: example_block_def)
  have st: "sysace_getstatus failing_chip example_ace n = (if n < 3 then 0x102 else 2, Suc n)" for n
    by (simp add: failing_chip_def example_ace_def sysace_getreg32_def from_littles_def [of 0])
  have or: "sysace_orcontrol failing_chip example_ace x n = n" for x n
  proof -
    have "(\<lambda>n. snd (sysace_getversion failing_chip example_ace n)) = id"
      by (simp add: sysace_getreg16_def failing_chip_def example_ace_def fun_eq_iff)
    then show ?thesis
      by (simp add: sysace_orcontrol_def sysace_orreg32_def DELAY_CTRL_def)
         (simp add: sysace_getreg32_def sysace_setreg32_def failing_chip_def example_ace_def)
  qed
  have lock: "sysace_lock failing_chip example_ace 0 = Some (SUCCESS, 1)"
    by (simp add: sysace_lock_def or wait_status.simps [of _ _ _ 0] st SYSACE_STATUS_MLOCK_def)
  have ready: "sysace_cf_ready failing_chip example_ace 1 = Some (SUCCESS, 2)"
    by (subst sysace_cf_ready.simps) (simp add: sysace_cf_isready_def st SYSACE_STATUS_CREADY_def SUCCESS_def)
  have read: "sysace_cf_readsector failing_chip example_ace (7 - 7 mod lines ?b) (lines ?b) 2 = Some (EBUSY, [], 4)"
    by (simp add: sysace_cf_readsector_def cf_check_def st SYSACE_STATUS_MLOCK_def SYSACE_STATUS_CREADY_def SUCCESS_def EBUSY_def)
  have "\<forall>c\<in>set (info ?b). ci_cold c \<noteq> 0" "length (info ?b) = unat (depth ?b)" "5 < depth ?b" "lines ?b \<noteq> 0"
      "EBUSY < lines ?b * SYSACE_DATA_SECTOR"
    by (simp_all add: example_block_def EBUSY_def SYSACE_DATA_SECTOR_def)
  from read_error_taken_for_line [of ?b 7 failing_chip 0, unfolded a, OF this(1-3) _ this(4) lock ready read this(5)] show ?thesis
    by (simp add: get_bytes_def put_bytes_def example_block_def map_replicate_const)
qed

end
