(* ===== verification/Accel_Sort.thy ===== *)
theory Accel_Sort
  imports Block_Device "HOL-Library.Multiset"
begin

text \<open>
  The sorting routines that the system offers in software and hardware
  (\<^verbatim>\<open>src/software/accelerators/sort.c\<close>): bubble sort of signed and quick sort of unsigned
  words. An array is the list of its elements; an access outside of it is \<open>None\<close>.
\<close>

section \<open>Arrays and exchanges\<close>

definition fetch :: "'v list \<Rightarrow> int \<Rightarrow> 'v option" where
  "fetch a i = (if 0 \<le> i \<and> i < int (length a) then Some (a ! nat i) else None)"

definition exchange :: "'v list \<Rightarrow> int \<Rightarrow> int \<Rightarrow> 'v list" where
  "exchange a i j = a[nat i := a ! nat j, nat j := a ! nat i]"

section \<open>Quick sort\<close>

text \<open>The two inner loops of \<^verbatim>\<open>poly_quickSort\<close>; pointers are indices relative to the array.\<close>

function scan_left :: "Huint list \<Rightarrow> Huint \<Rightarrow> int \<Rightarrow> int \<Rightarrow> int option" where
  "scan_left a pivot l r =
     (if l < r then do { v \<leftarrow> fetch a l; if v \<le> pivot then scan_left a pivot (l + 1) r else Some l } else Some l)"
  by pat_completeness auto
termination by (relation "measure (\<lambda>(a, pivot, l, r). nat (r - l))") auto

function scan_right :: "Huint list \<Rightarrow> Huint \<Rightarrow> int \<Rightarrow> int \<Rightarrow> int option" where
  "scan_right a pivot l r =
     (if l \<le> r then do { v \<leftarrow> fetch a r; if pivot < v then scan_right a pivot l (r - 1) else Some r } else Some r)"
  by pat_completeness auto
termination by (relation "measure (\<lambda>(a, pivot, l, r). nat (r - l + 1))") auto

declare scan_left.simps [simp del] scan_right.simps [simp del]

partial_function (option) part_loop ::
  "Huint list \<Rightarrow> Huint \<Rightarrow> int \<Rightarrow> int \<Rightarrow> (Huint list \<times> int \<times> int) option" where
  "part_loop a pivot l r =
     (if l < r then
        do { l \<leftarrow> scan_left a pivot l r;
             r \<leftarrow> scan_right a pivot l r;
             if l < r then do { _ \<leftarrow> fetch a l; _ \<leftarrow> fetch a r; part_loop (exchange a l r) pivot l r }
             else part_loop a pivot l r }
      else Some (a, l, r))"

text \<open>Where the two parts end and start.\<close>

definition split_ends :: "Huint list \<Rightarrow> Huint \<Rightarrow> int \<Rightarrow> int \<Rightarrow> (int \<times> int) option" where
  "split_ends a pivot l r =
     do { v \<leftarrow> fetch a r;
          if l = r then Some (if pivot \<le> v then (r - 1, r) else (l, r + 1))
          else Some (if pivot < v then (r - 1, r) else (r, l)) }"

partial_function (option) poly_quickSort :: "int \<Rightarrow> int \<Rightarrow> Huint list \<Rightarrow> (Hint \<times> Huint list) option" where
  "poly_quickSort startPtr endPtr a =
     (if startPtr = endPtr then Some (SUCCESS, a)
      else do { x \<leftarrow> fetch a startPtr;
                y \<leftarrow> fetch a endPtr;
                let pivot = (x + y) div 2;
                (a, l, r) \<leftarrow> part_loop a pivot startPtr endPtr;
                (l, r) \<leftarrow> split_ends a pivot l r;
                (_, a) \<leftarrow> poly_quickSort r endPtr a;
                (_, a) \<leftarrow> poly_quickSort startPtr l a;
                Some (SUCCESS, a) })"

section \<open>Bubble sort\<close>

text \<open>\<open>bubble_pass n d xs\<close>: the inner loop from \<open>d\<close> on, \<open>n\<close> steps.\<close>

primrec bubble_pass :: "nat \<Rightarrow> nat \<Rightarrow> Hint list \<Rightarrow> Hint list option" where
  "bubble_pass 0 d xs = Some xs"
| "bubble_pass (Suc n) d xs =
     do { x \<leftarrow> fetch xs (int d);
          y \<leftarrow> fetch xs (int d + 1);
          bubble_pass n (Suc d) (if sint y < sint x then exchange xs (int d) (int d + 1) else xs) }"

primrec bubble_passes :: "nat \<Rightarrow> Huint \<Rightarrow> Huint \<Rightarrow> Hint list \<Rightarrow> Hint list option" where
  "bubble_passes 0 sz c xs = Some xs"
| "bubble_passes (Suc n) sz c xs =
     do { xs \<leftarrow> bubble_pass (unat (sz - c - 1)) 0 xs; bubble_passes n sz (c + 1) xs }"

definition poly_bubblesort :: "Hint list \<Rightarrow> Huint \<Rightarrow> (Hint \<times> Hint list) option" where
  "poly_bubblesort xs sz = do { xs \<leftarrow> bubble_passes (unat (sz - 1)) sz 0 xs; Some (SUCCESS, xs) }"

definition sw_bubblesort :: "Hint list \<Rightarrow> Huint \<Rightarrow> (Hint \<times> Hint list) option" where
  "sw_bubblesort xs sz = poly_bubblesort xs sz"

section \<open>Rearranging a part of an array\<close>

inductive rearranged :: "int \<Rightarrow> int \<Rightarrow> 'v list \<Rightarrow> 'v list \<Rightarrow> bool" for s e where
  same: "rearranged s e a a"
| swap: "\<lbrakk>rearranged s e a b; s \<le> i; i \<le> e; s \<le> j; j \<le> e\<rbrakk> \<Longrightarrow> rearranged s e a (exchange b i j)"

lemma exchange_at:
  assumes "0 \<le> i" "0 \<le> j" "i < int (length a)" "j < int (length a)" "0 \<le> k"
  shows "exchange a i j ! nat k = (if k = j then a ! nat i else if k = i then a ! nat j else a ! nat k)"
  using assms by (auto simp: exchange_def nth_list_update eq_nat_nat_iff)

lemma length_exchange [simp]: "length (exchange a i j) = length a"
  by (simp add: exchange_def)

lemma rearranged_length: "rearranged s e a b \<Longrightarrow> length b = length a"
  by (induction rule: rearranged.induct) simp_all

lemma rearranged_mset:
  assumes "rearranged s e a b" "0 \<le> s" "e < int (length a)"
  shows "mset b = mset a"
  using assms
proof (induction rule: rearranged.induct)
  case (swap a b i j)
  then have "nat i < length b" "nat j < length b" using rearranged_length by fastforce+
  then show ?case using swap by (simp add: exchange_def mset_swap)
qed simp

lemma rearranged_outside:
  "\<lbrakk>rearranged s e a b; 0 \<le> s; e < int (length a); 0 \<le> k; k < s \<or> e < k\<rbrakk> \<Longrightarrow> b ! nat k = a ! nat k"
  by (induction rule: rearranged.induct) (auto simp: exchange_at rearranged_length)

lemma rearranged_all:
  assumes "rearranged s e a b" "0 \<le> s" "e < int (length a)"
  shows "(\<forall>k. s \<le> k \<and> k \<le> e \<longrightarrow> P (b ! nat k)) \<longleftrightarrow> (\<forall>k. s \<le> k \<and> k \<le> e \<longrightarrow> P (a ! nat k))"
  using assms
proof (induction rule: rearranged.induct)
  case (swap a b i j)
  have at: "exchange b i j ! nat k = (if k = j then b ! nat i else if k = i then b ! nat j else b ! nat k)" if "s \<le> k" for k
    using swap that rearranged_length [OF swap(1)] by (intro exchange_at) auto
  then have "(\<forall>k. s \<le> k \<and> k \<le> e \<longrightarrow> P (exchange b i j ! nat k)) \<longleftrightarrow> (\<forall>k. s \<le> k \<and> k \<le> e \<longrightarrow> P (b ! nat k))"
    using swap(2-5) by (auto split: if_splits)
  then show ?case using swap by simp
qed simp

lemma rearranged_mono: "\<lbrakk>rearranged s e a b; s' \<le> s; e \<le> e'\<rbrakk> \<Longrightarrow> rearranged s' e' a b"
  by (induction rule: rearranged.induct) (auto intro: rearranged.intros)

lemma rearranged_trans: "rearranged s e b c \<Longrightarrow> rearranged s e a b \<Longrightarrow> rearranged s e a c"
  by (induction rule: rearranged.induct) (auto intro: rearranged.intros)

section \<open>Partitioning\<close>

lemma scan_left_spec:
  assumes "0 \<le> l" "r < int (length a)"
  shows "\<exists>l'. scan_left a p l r = Some l' \<and> l \<le> l' \<and> (l \<le> r \<longrightarrow> l' \<le> r) \<and>
    (\<forall>i. l \<le> i \<and> i < l' \<longrightarrow> a ! nat i \<le> p) \<and> (l' < r \<longrightarrow> p < a ! nat l')"
  using assms
proof (induction a p l r rule: scan_left.induct)
  case (1 a p l r)
  show ?case
  proof (cases "l < r \<and> a ! nat l \<le> p")
    case True
    then have f: "fetch a l = Some (a ! nat l)" using 1(2,3) by (simp add: fetch_def)
    obtain l' where l': "scan_left a p (l + 1) r = Some l'" "l + 1 \<le> l'" "l' \<le> r"
        "\<forall>i. l + 1 \<le> i \<and> i < l' \<longrightarrow> a ! nat i \<le> p" "l' < r \<longrightarrow> p < a ! nat l'"
      using 1(1) [OF _ f] True 1(2,3) by auto
    have "a ! nat i \<le> p" if "l \<le> i" "i < l'" for i using l'(4) that True by (cases "i = l") auto
    then show ?thesis using l' f True by (subst scan_left.simps) auto
  next
    case False
    then show ?thesis using 1(2,3) by (subst scan_left.simps) (auto simp: fetch_def not_le)
  qed
qed

lemma scan_right_spec:
  assumes "0 \<le> l" "r < int (length a)"
  shows "\<exists>r'. scan_right a p l r = Some r' \<and> r' \<le> r \<and> (l \<le> r + 1 \<longrightarrow> l \<le> r' + 1) \<and>
    (\<forall>i. r' < i \<and> i \<le> r \<longrightarrow> p < a ! nat i) \<and> (l \<le> r' \<longrightarrow> a ! nat r' \<le> p)"
  using assms
proof (induction a p l r rule: scan_right.induct)
  case (1 a p l r)
  show ?case
  proof (cases "l \<le> r \<and> p < a ! nat r")
    case True
    then have f: "fetch a r = Some (a ! nat r)" using 1(2,3) by (simp add: fetch_def)
    obtain r' where r': "scan_right a p l (r - 1) = Some r'" "r' \<le> r - 1" "l \<le> r' + 1"
        "\<forall>i. r' < i \<and> i \<le> r - 1 \<longrightarrow> p < a ! nat i" "l \<le> r' \<longrightarrow> a ! nat r' \<le> p"
      using 1(1) [OF _ f] True 1(2,3) by auto
    have "p < a ! nat i" if "r' < i" "i \<le> r" for i using r'(4) that True by (cases "i = r") auto
    then show ?thesis using r' f True by (subst scan_right.simps) auto
  next
    case False
    then show ?thesis using 1(2,3) by (subst scan_right.simps) (auto simp: fetch_def not_le)
  qed
qed

text \<open>What the two scans of a pass over \<open>l < r\<close> find.\<close>

lemma scans:
  assumes "0 \<le> l" "l < r" "r < int (length a)"
  obtains l' r' where "scan_left a p l r = Some l'" "scan_right a p l' r = Some r'" "l \<le> l'" "l' \<le> r" "r' \<le> r" "l' \<le> r' + 1"
    "\<And>i. l \<le> i \<Longrightarrow> i < l' \<Longrightarrow> a ! nat i \<le> p" "\<And>i. r' < i \<Longrightarrow> i \<le> r \<Longrightarrow> p < a ! nat i"
    "l' < r \<Longrightarrow> p < a ! nat l'" "l' \<le> r' \<Longrightarrow> a ! nat r' \<le> p"
proof -
  obtain l' where l': "scan_left a p l r = Some l'" "l \<le> l'" "l' \<le> r"
      "\<forall>i. l \<le> i \<and> i < l' \<longrightarrow> a ! nat i \<le> p" "l' < r \<longrightarrow> p < a ! nat l'"
    using scan_left_spec [OF assms(1,3), of p] assms(2) by auto
  obtain r' where r': "scan_right a p l' r = Some r'" "r' \<le> r" "l' \<le> r' + 1"
      "\<forall>i. r' < i \<and> i \<le> r \<longrightarrow> p < a ! nat i" "l' \<le> r' \<longrightarrow> a ! nat r' \<le> p"
    using scan_right_spec [of l' r a p] assms l'(2,3) by auto
  show ?thesis using that [of l' r'] l' r' by blast
qed

definition parted :: "Huint \<Rightarrow> int \<Rightarrow> int \<Rightarrow> int \<Rightarrow> int \<Rightarrow> Huint list \<Rightarrow> bool" where
  "parted p s e l r a \<longleftrightarrow> s \<le> l \<and> l \<le> e \<and> r \<le> e \<and>
     (\<forall>i. s \<le> i \<and> i < l \<longrightarrow> a ! nat i \<le> p) \<and> (\<forall>i. r < i \<and> i \<le> e \<longrightarrow> p < a ! nat i)"

text \<open>
  The partition ends: with every exchange or every step the distance shrinks, or the left
  element changes sides.
\<close>

definition part_measure :: "Huint \<Rightarrow> int \<Rightarrow> int \<Rightarrow> Huint list \<Rightarrow> nat" where
  "part_measure p l r a = 2 * nat (r - l) + (if p < a ! nat l then 1 else 0)"

lemma part_loop_spec:
  assumes "0 \<le> s" "e < int (length a)" "parted p s e l r a" "l < r"
  shows "\<exists>b l' r'. part_loop a p l r = Some (b, l', r') \<and> rearranged s e a b \<and> parted p s e l' r' b \<and>
    r' \<le> l' \<and> l' \<le> r' + 1 \<and> (l' = r' \<longrightarrow> b ! nat r' \<le> p) \<and> (l' = s \<longrightarrow> p < b ! nat s) \<and>
    ((\<forall>i. s \<le> i \<and> i \<le> e \<longrightarrow> a ! nat i \<le> p) \<longrightarrow> b = a)"
  using assms
proof (induction "part_measure p l r a" arbitrary: a l r rule: less_induct)
  case less
  have par: "s \<le> l" "l \<le> e" "r \<le> e" "\<And>i. s \<le> i \<Longrightarrow> i < l \<Longrightarrow> a ! nat i \<le> p" "\<And>i. r < i \<Longrightarrow> i \<le> e \<Longrightarrow> p < a ! nat i"
    using less.prems(3) by (simp_all add: parted_def)
  have len: "0 \<le> l" "r < int (length a)" using less.prems par by auto
  obtain l' r' where sc: "scan_left a p l r = Some l'" "scan_right a p l' r = Some r'" "l \<le> l'" "l' \<le> r" "r' \<le> r" "l' \<le> r' + 1"
    "\<And>i. l \<le> i \<Longrightarrow> i < l' \<Longrightarrow> a ! nat i \<le> p" "\<And>i. r' < i \<Longrightarrow> i \<le> r \<Longrightarrow> p < a ! nat i"
    "l' < r \<Longrightarrow> p < a ! nat l'" "l' \<le> r' \<Longrightarrow> a ! nat r' \<le> p"
    using scans [OF len(1) less.prems(4) len(2), of p] by blast
  have low: "a ! nat i \<le> p" if "s \<le> i" "i < l'" for i using par(4) sc(7) that by (cases "i < l") auto
  have high: "p < a ! nat i" if "r' < i" "i \<le> e" for i using par(5) sc(8) that by (cases "r < i") auto
  show ?case
  proof (cases "l' < r'")
    case False
    then have "part_loop a p l' r' = Some (a, l', r')" by (subst part_loop.simps) simp
    then have "part_loop a p l r = Some (a, l', r')" using sc(1,2) less.prems(4) False by (subst part_loop.simps) simp
    moreover have "parted p s e l' r' a" using low high par sc(3-5) by (auto simp: parted_def)
    moreover have "l' = s \<longrightarrow> p < a ! nat s" using sc(3,9) par(1) less.prems(4) by auto
    ultimately show ?thesis using False sc(6,10) by (auto intro: rearranged.same)
  next
    case True
    let ?b = "exchange a l' r'"
    have bnd: "0 \<le> l'" "0 \<le> r'" "l' < int (length a)" "r' < int (length a)" "s \<le> l'" "r' \<le> e"
      using True sc(3-5) par(1,3) len less.prems(1,2) by auto
    have f: "fetch a l' = Some (a ! nat l')" "fetch a r' = Some (a ! nat r')" using bnd by (simp_all add: fetch_def)
    have at: "?b ! nat k = (if k = r' then a ! nat l' else if k = l' then a ! nat r' else a ! nat k)" if "s \<le> k" for k
      using exchange_at [OF bnd(1-4)] that less.prems(1) by auto
    have big: "p < a ! nat l'" and small: "a ! nat r' \<le> p" using sc(9,10) True sc(5) by auto
    have "parted p s e l' r' ?b"
      unfolding parted_def using low high at bnd True by (auto simp: not_le)
    moreover have "part_measure p l' r' ?b < part_measure p l r a"
      using big small at [OF bnd(5)] True sc(3,5,7) less.prems(4) unfolding part_measure_def
      by (cases "l = l'") (auto simp: not_le)
    ultimately obtain b l2 r2 where b: "part_loop ?b p l' r' = Some (b, l2, r2)" "rearranged s e ?b b" "parted p s e l2 r2 b"
        "r2 \<le> l2" "l2 \<le> r2 + 1" "l2 = r2 \<longrightarrow> b ! nat r2 \<le> p" "l2 = s \<longrightarrow> p < b ! nat s"
      using less.hyps [of l' r' ?b] less.prems(1,2) True by auto
    have "part_loop a p l r = Some (b, l2, r2)"
      using sc(1,2) f True less.prems(4) b(1) by (subst part_loop.simps) simp
    moreover have "rearranged s e a ?b" using bnd True by (intro rearranged.swap rearranged.same) auto
    then have "rearranged s e a b" using rearranged_trans [OF b(2)] by blast
    moreover have "\<not> (\<forall>i. s \<le> i \<and> i \<le> e \<longrightarrow> a ! nat i \<le> p)" using big bnd(5,6) True by (auto simp: not_le)
    ultimately show ?thesis using b by blast
  qed
qed

lemma pivot_value:
  assumes "x < 0x80000000" "y < 0x80000000" "p = (x + y) div (2 :: Huint)"
  shows "unat p = (unat x + unat y) div 2"
  using assms by (simp add: unat_div unat_word_ariths word_less_nat_alt)

lemma pivot_between:
  assumes "x < 0x80000000" "y < 0x80000000" "p = (x + y) div (2 :: Huint)"
  shows "x \<le> p \<or> y \<le> p" "x \<le> p \<Longrightarrow> y \<le> p \<Longrightarrow> y = p"
proof -
  note u = pivot_value [OF assms]
  show "x \<le> p \<or> y \<le> p" unfolding word_le_nat_alt u by arith
  assume "x \<le> p" "y \<le> p"
  then have "unat y = unat p" unfolding word_le_nat_alt u by arith
  then show "y = p" by (simp add: word_unat_eq_iff)
qed

lemma partition_splits:
  assumes "0 \<le> s" "s < e" "e < int (length a)" and small: "\<And>i. s \<le> i \<Longrightarrow> i \<le> e \<Longrightarrow> a ! nat i < 0x80000000"
    and p: "p = (a ! nat s + a ! nat e) div 2"
  obtains b l0 r0 l where "part_loop a p s e = Some (b, l0, r0)" "split_ends b p l0 r0 = Some (l, l + 1)"
    "rearranged s e a b" "s \<le> l" "l < e" "\<And>i. s \<le> i \<Longrightarrow> i \<le> l \<Longrightarrow> b ! nat i \<le> p" "\<And>i. l < i \<Longrightarrow> i \<le> e \<Longrightarrow> p \<le> b ! nat i"
proof -
  note pv = pivot_between [OF small small p]
  have "parted p s e s e a" using assms(2) by (auto simp: parted_def)
  from part_loop_spec [OF assms(1,3) this assms(2)] obtain b l r where
    b: "part_loop a p s e = Some (b, l, r)" "rearranged s e a b" "r \<le> l" "l \<le> r + 1"
      "l = r \<longrightarrow> b ! nat r \<le> p" "l = s \<longrightarrow> p < b ! nat s"
      "(\<forall>i. s \<le> i \<and> i \<le> e \<longrightarrow> a ! nat i \<le> p) \<longrightarrow> b = a" and par: "parted p s e l r b" by blast
  have low: "\<And>i. s \<le> i \<Longrightarrow> i < l \<Longrightarrow> b ! nat i \<le> p" and high: "\<And>i. r < i \<Longrightarrow> i \<le> e \<Longrightarrow> p < b ! nat i"
    and le: "s \<le> l" "l \<le> e" "r \<le> e" using par by (auto simp: parted_def)
  note all = rearranged_all [OF b(2) assms(1,3)]
  have rs: "s \<le> r"
  proof (rule ccontr)
    assume "\<not> s \<le> r"
    then have "\<forall>i. s \<le> i \<and> i \<le> e \<longrightarrow> p < b ! nat i" using high by auto
    then have "\<forall>i. s \<le> i \<and> i \<le> e \<longrightarrow> p < a ! nat i" using all [of "\<lambda>v. p < v"] by simp
    then have "p < a ! nat s" "p < a ! nat e" using assms(2) by auto
    then show False using pv(1) assms(2) by (auto simp: not_le [symmetric])
  qed
  have f: "fetch b r = Some (b ! nat r)"
    using rs assms(1,3) le(3) rearranged_length [OF b(2)] by (simp add: fetch_def)
  consider (up) "l = r" "p \<le> b ! nat r" | (down) "l = r" "b ! nat r < p" | (apart) "l = r + 1" using b(3,4) by force
  then show ?thesis
  proof cases
    case up
    have "s \<noteq> r" using b(5,6) up(1) by (auto dest: leD)
    moreover have "p \<le> b ! nat i" if "r - 1 < i" "i \<le> e" for i
      using high [THEN less_imp_le] that up by (cases "i = r") simp_all
    ultimately show ?thesis
      using that [OF b(1) _ b(2), of "r - 1"] up f low le rs by (simp add: split_ends_def)
  next
    case down
    have "r \<noteq> e"
    proof
      assume "r = e"
      then have "\<forall>i. s \<le> i \<and> i \<le> e \<longrightarrow> b ! nat i \<le> p" using low down b(5) by (metis order.order_iff_strict)
      then have a: "\<forall>i. s \<le> i \<and> i \<le> e \<longrightarrow> a ! nat i \<le> p" using all [of "\<lambda>v. v \<le> p"] by simp
      then have "b = a" "a ! nat e = p" using b(7) pv(2) assms(2) by auto
      then show False using down \<open>r = e\<close> by simp
    qed
    moreover have "b ! nat i \<le> p" if "s \<le> i" "i \<le> r" for i using low that down by (cases "i = r") auto
    ultimately show ?thesis
      using that [OF b(1) _ b(2), of r] down f high rs le by (simp add: split_ends_def less_imp_le)
  next
    case apart
    have "\<not> p < b ! nat r" using low apart rs by (simp add: not_less)
    then show ?thesis
      using that [OF b(1) _ b(2), of r] apart f low high rs le by (simp add: split_ends_def less_imp_le)
  qed
qed

section \<open>Sorting\<close>

definition sorted_between :: "int \<Rightarrow> int \<Rightarrow> Huint list \<Rightarrow> bool" where
  "sorted_between s e a \<longleftrightarrow> (\<forall>i j. s \<le> i \<and> i \<le> j \<and> j \<le> e \<longrightarrow> a ! nat i \<le> a ! nat j)"

lemma sorted_join:
  assumes "sorted_between s l a" "sorted_between (l + 1) e a"
    and "\<And>i. s \<le> i \<Longrightarrow> i \<le> l \<Longrightarrow> a ! nat i \<le> p" "\<And>i. l < i \<Longrightarrow> i \<le> e \<Longrightarrow> p \<le> a ! nat i"
  shows "sorted_between s e a"
  unfolding sorted_between_def
proof (intro allI impI)
  fix i j assume ij: "s \<le> i \<and> i \<le> j \<and> j \<le> e"
  show "a ! nat i \<le> a ! nat j"
  proof (cases "j \<le> l \<or> l < i")
    case True
    then show ?thesis using assms(1,2) ij by (auto simp: sorted_between_def)
  next
    case False
    then have "a ! nat i \<le> p" "p \<le> a ! nat j" using assms(3,4) ij by auto
    then show ?thesis by (rule order_trans)
  qed
qed

lemma quickSort_spec:
  assumes "0 \<le> s" "s \<le> e" "e < int (length a)" "\<And>i. s \<le> i \<Longrightarrow> i \<le> e \<Longrightarrow> a ! nat i < 0x80000000"
  shows "\<exists>b. poly_quickSort s e a = Some (SUCCESS, b) \<and> rearranged s e a b \<and> sorted_between s e b"
  using assms
proof (induction "nat (e - s)" arbitrary: s e a rule: less_induct)
  case less
  show ?case
  proof (cases "s = e")
    case True
    moreover have "i = j" if "e \<le> i" "i \<le> j" "j \<le> e" for i j using that by simp
    then have "sorted_between e e a" unfolding sorted_between_def by blast
    ultimately show ?thesis by (subst poly_quickSort.simps) (auto intro: rearranged.same)
  next
    case False
    then have se: "s < e" using less.prems(2) by simp
    let ?p = "(a ! nat s + a ! nat e) div 2"
    obtain b l0 r0 l where b: "part_loop a ?p s e = Some (b, l0, r0)" "split_ends b ?p l0 r0 = Some (l, l + 1)"
      "rearranged s e a b" "s \<le> l" "l < e" "\<And>i. s \<le> i \<Longrightarrow> i \<le> l \<Longrightarrow> b ! nat i \<le> ?p" "\<And>i. l < i \<Longrightarrow> i \<le> e \<Longrightarrow> ?p \<le> b ! nat i"
      using partition_splits [OF less.prems(1) se less.prems(3,4) refl] by blast
    have sb: "b ! nat i < 0x80000000" if "s \<le> i" "i \<le> e" for i
      using rearranged_all [OF b(3) less.prems(1,3), of "\<lambda>v. v < 0x80000000"] less.prems(4) that by blast
    have len: "length b = length a" by (rule rearranged_length [OF b(3)])
    obtain c where c: "poly_quickSort (l + 1) e b = Some (SUCCESS, c)" "rearranged (l + 1) e b c" "sorted_between (l + 1) e c"
      using less.hyps [of e "l + 1" b] less.prems(1,3) b(4,5) sb len by auto
    have lc: "length c = length b" by (rule rearranged_length [OF c(2)])
    have out: "c ! nat i = b ! nat i" if "s \<le> i" "i \<le> l" for i
      using rearranged_outside [OF c(2)] that less.prems(1,3) b(4) len by auto
    obtain d where d: "poly_quickSort s l c = Some (SUCCESS, d)" "rearranged s l c d" "sorted_between s l d"
      using less.hyps [of l s c] less.prems(1,3) b(4,5) sb out len lc by auto
    have out': "d ! nat i = c ! nat i" if "l < i" "i \<le> e" for i
      using rearranged_outside [OF d(2)] that less.prems(1,3) b(4,5) len lc by auto
    have "\<forall>i. s \<le> i \<and> i \<le> l \<longrightarrow> c ! nat i \<le> ?p" using out b(6) by simp
    then have lo: "d ! nat i \<le> ?p" if "s \<le> i" "i \<le> l" for i
      using rearranged_all [OF d(2) less.prems(1), of "\<lambda>v. v \<le> ?p"] that b(5) less.prems(3) len lc by auto
    have "\<forall>i. l + 1 \<le> i \<and> i \<le> e \<longrightarrow> ?p \<le> b ! nat i" using b(7) by simp
    then have hi: "?p \<le> d ! nat i" if "l < i" "i \<le> e" for i
      using rearranged_all [OF c(2), of "\<lambda>v. ?p \<le> v"] that less.prems(1,3) b(4) len out' by auto
    have "sorted_between (l + 1) e d" using c(3) out' by (simp add: sorted_between_def)
    then have "sorted_between s e d" using sorted_join [OF d(3)] lo hi by blast
    moreover have "rearranged s e a d"
      using rearranged_trans [OF rearranged_mono [OF d(2)] rearranged_trans [OF rearranged_mono [OF c(2)] b(3)]] b(4,5) by simp
    moreover have "poly_quickSort s e a = Some (SUCCESS, d)"
      using se less.prems(1,3) b(1,2) c(1) d(1) by (subst poly_quickSort.simps) (simp add: fetch_def)
    ultimately show ?thesis by blast
  qed
qed

text \<open>With the whole array between, the result is the sorted list.\<close>

lemma sorted_between_all: "sorted_between 0 (int (length a) - 1) a \<Longrightarrow> sorted a"
  unfolding sorted_iff_nth_mono sorted_between_def
proof (intro allI impI)
  fix i j assume a: "\<forall>i j. 0 \<le> i \<and> i \<le> j \<and> j \<le> int (length a) - 1 \<longrightarrow> a ! nat i \<le> a ! nat j" and "i \<le> j" "j < length a"
  then show "a ! i \<le> a ! j" using a [rule_format, of "int i" "int j"] by simp
qed

lemma scan_right_past:
  assumes "\<And>i. 0 \<le> i \<Longrightarrow> i \<le> r \<Longrightarrow> p < a ! nat i" "- 1 \<le> r" "r < int (length a)"
  shows "scan_right a p 0 r = Some (- 1)"
  using assms
proof (induction "nat (r + 1)" arbitrary: r)
  case 0
  then show ?case by (subst scan_right.simps) simp
next
  case (Suc n)
  then have "fetch a r = Some (a ! nat r)" "p < a ! nat r" "0 \<le> r" by (simp_all add: fetch_def)
  then show ?case using Suc by (subst scan_right.simps) simp
qed

section \<open>Bubble sort\<close>

lemma bubble_pass_spec:
  "d + n < length xs \<Longrightarrow> \<exists>ys. bubble_pass n d xs = Some ys \<and> rearranged (int d) (int d + int n) xs ys \<and>
     (\<forall>i. int d \<le> i \<and> i \<le> int d + int n \<longrightarrow> sint (ys ! nat i) \<le> sint (ys ! (d + n)))"
proof (induction n arbitrary: d xs)
  case 0
  then show ?case by (auto intro: rearranged.same)
next
  case (Suc n)
  let ?x = "xs ! d" and ?y = "xs ! Suc d"
  define zs where "zs = (if sint ?y < sint ?x then exchange xs (int d) (int d + 1) else xs)"
  have f: "fetch xs (int d) = Some ?x" "fetch xs (int d + 1) = Some ?y"
    using Suc.prems by (simp_all add: fetch_def nat_add_distrib)
  have le: "sint (zs ! d) \<le> sint (zs ! Suc d)"
    using Suc.prems by (auto simp: zs_def exchange_def nth_list_update nat_add_distrib)
  have "Suc d + n < length zs" using Suc.prems by (simp add: zs_def)
  from Suc.IH [OF this] obtain ys where ys: "bubble_pass n (Suc d) zs = Some ys"
    "rearranged (int (Suc d)) (int (Suc d) + int n) zs ys"
    "\<forall>i. int (Suc d) \<le> i \<and> i \<le> int (Suc d) + int n \<longrightarrow> sint (ys ! nat i) \<le> sint (ys ! (Suc d + n))" by blast
  let ?top = "sint (ys ! (Suc d + n))"
  have "\<forall>i. int (Suc d) \<le> i \<and> i \<le> int (Suc d) + int n \<longrightarrow> sint (zs ! nat i) \<le> ?top"
    using rearranged_all [OF ys(2), of "\<lambda>v. sint v \<le> ?top"] ys(3) Suc.prems by (simp add: zs_def)
  then have "sint (zs ! nat (int (Suc d))) \<le> ?top" by (rule allE [of _ "int (Suc d)"]) simp
  then have "sint (zs ! Suc d) \<le> ?top" unfolding nat_int .
  moreover have "ys ! d = zs ! d" using rearranged_outside [OF ys(2), of "int d"] Suc.prems by (simp add: zs_def)
  ultimately have first: "sint (ys ! d) \<le> ?top" using le by simp
  have top: "sint (ys ! nat i) \<le> ?top" if "int d \<le> i" "i \<le> int d + int (Suc n)" for i
    using ys(3) that first by (cases "i = int d") auto
  have "rearranged (int d) (int d + int (Suc n)) xs zs"
    by (auto simp: zs_def intro!: rearranged.swap rearranged.same)
  then have "rearranged (int d) (int d + int (Suc n)) xs ys"
    using rearranged_trans [OF rearranged_mono [OF ys(2)]] by simp
  then show ?case using f ys(1) top by (auto simp: zs_def)
qed

definition topped :: "int \<Rightarrow> int \<Rightarrow> Hint list \<Rightarrow> bool" where
  "topped m n xs \<longleftrightarrow> (\<forall>i j. 0 \<le> i \<and> i \<le> j \<and> m \<le> j \<and> j < n \<longrightarrow> sint (xs ! nat i) \<le> sint (xs ! nat j))"

lemma pass_tops:
  assumes "topped (int m + 1) n xs" "int m < n" "n \<le> int (length xs)" "rearranged 0 (int m) xs ys"
    and "\<forall>i. 0 \<le> i \<and> i \<le> int m \<longrightarrow> sint (ys ! nat i) \<le> sint (ys ! m)"
  shows "topped (int m) n ys"
  unfolding topped_def
proof (intro allI impI)
  fix i j assume ij: "0 \<le> i \<and> i \<le> j \<and> int m \<le> j \<and> j < n"
  have out: "ys ! nat k = xs ! nat k" if "int m < k" for k
    using rearranged_outside [OF assms(4)] that assms(2,3) by simp
  show "sint (ys ! nat i) \<le> sint (ys ! nat j)"
  proof (cases "j = int m")
    case True
    then show ?thesis using assms(5) ij by simp
  next
    case False
    then have top: "0 \<le> k \<and> k \<le> j \<longrightarrow> sint (xs ! nat k) \<le> sint (ys ! nat j)" for k
      using assms(1) ij out by (auto simp: topped_def)
    then have "\<forall>k. 0 \<le> k \<and> k \<le> int m \<longrightarrow> sint (ys ! nat k) \<le> sint (ys ! nat j)"
      using rearranged_all [OF assms(4), of "\<lambda>v. sint v \<le> sint (ys ! nat j)"] ij assms(2,3) by simp
    then show ?thesis using ij top [of i] out [of i] by (cases "i \<le> int m") auto
  qed
qed

lemma bubble_passes_spec:
  assumes "unat c + n + 1 = unat sz" "unat sz \<le> length xs" "topped (int n + 1) (int (unat sz)) xs"
  shows "\<exists>ys. bubble_passes n sz c xs = Some ys \<and> rearranged 0 (int (unat sz) - 1) xs ys \<and> topped 1 (int (unat sz)) ys"
  using assms
proof (induction n arbitrary: c xs)
  case 0
  then show ?case by (auto intro: rearranged.same)
next
  case (Suc n)
  have c: "unat (sz - c - 1) = Suc n" "unat (c + 1) = unat c + 1"
  proof -
    have b: "unat sz < 2 ^ 32" using unsigned_less [of sz] by simp
    show c1: "unat (c + 1) = unat c + 1" using Suc.prems(1) b by (simp add: unat_word_ariths)
    have "unat (sz - c - 1) = unat (sz - (c + 1))" by (simp only: diff_diff_eq)
    also have "unat (sz - (c + 1)) = unat sz - unat (c + 1)" using Suc.prems(1) c1 by (intro unat_sub) (simp add: word_le_nat_alt)
    finally show "unat (sz - c - 1) = Suc n" using Suc.prems(1) c1 by simp
  qed
  obtain ys where ys: "bubble_pass (Suc n) 0 xs = Some ys" "rearranged 0 (int (Suc n)) xs ys"
      "\<forall>i. 0 \<le> i \<and> i \<le> int (Suc n) \<longrightarrow> sint (ys ! nat i) \<le> sint (ys ! Suc n)"
    using bubble_pass_spec [of 0 "Suc n" xs] Suc.prems(1,2) by auto
  have bound: "int (Suc n) < int (unat sz)" "int (unat sz) \<le> int (length xs)"
    unfolding of_nat_less_iff of_nat_le_iff using Suc.prems(1,2) by simp_all
  from pass_tops [OF Suc.prems(3) bound ys(2,3)] have "topped (int (Suc n)) (int (unat sz)) ys" .
  then obtain zs where zs: "bubble_passes n sz (c + 1) ys = Some zs" "rearranged 0 (int (unat sz) - 1) ys zs" "topped 1 (int (unat sz)) zs"
    using Suc.IH [of "c + 1" ys] Suc.prems(1,2) c(2) rearranged_length [OF ys(2)] by (auto simp: add.commute)
  have "rearranged 0 (int (unat sz) - 1) xs zs"
    using rearranged_trans [OF zs(2) rearranged_mono [OF ys(2)]] bound(1) by simp
  then show ?case using zs ys(1) c(1) by (auto simp del: bubble_pass.simps)
qed

section \<open>Properties\<close>

text \<open>
  C32: Quick sort is correct for values below \<open>2\<^sup>3\<^sup>1\<close>: it returns, whatever the array, and leaves
  the elements between the two pointers in ascending order.
\<close>

theorem quickSort_sorts:
  assumes "a \<noteq> []" "\<forall>v\<in>set a. v < 0x80000000"
  shows "poly_quickSort 0 (int (length a) - 1) a = Some (SUCCESS, sort a)"
proof -
  let ?e = "int (length a) - 1"
  have e: "0 \<le> ?e" using assms(1) by (cases a) simp_all
  have "a ! nat i < 0x80000000" if "0 \<le> i" "i \<le> ?e" for i using assms(2) that by (simp add: nat_less_iff)
  with quickSort_spec [OF order_refl e, of a] obtain b where
    b: "poly_quickSort 0 ?e a = Some (SUCCESS, b)" "rearranged 0 ?e a b" "sorted_between 0 ?e b" by auto
  have "mset b = mset a" using rearranged_mset [OF b(2)] by simp
  moreover have "sorted b" using b(3) rearranged_length [OF b(2)] by (intro sorted_between_all) simp
  ultimately have "sort a = b" by (intro properties_for_sort) simp_all
  then show ?thesis using b(1) by simp
qed

theorem quickSort_sorts_witness:
  "poly_quickSort 0 4 [9, 3, 0x7FFFFFFF, 3, 0] = Some (SUCCESS, [0, 3, 3, 9, 0x7FFFFFFF])"
proof -
  have "sort [9, 3, 0x7FFFFFFF, 3, 0 :: Huint] = [0, 3, 3, 9, 0x7FFFFFFF]" by simp
  then show ?thesis using quickSort_sorts [of "[9, 3, 0x7FFFFFFF, 3, 0]"] by simp
qed

text \<open>
  The pivot of quick sort is the wrapped sum of two elements, halved: on an array of at least two
  values of \<open>2\<^sup>3\<^sup>1\<close> or more it is smaller than all of them, and the search from the right runs
  out of the array at its lower end.
\<close>

theorem quickSort_leaves_array:
  assumes "2 \<le> length a" "\<forall>v\<in>set a. 0x80000000 \<le> v"
  shows "poly_quickSort 0 (int (length a) - 1) a = None"
proof -
  let ?e = "int (length a) - 1" and ?x = "a ! 0" and ?y = "a ! nat (int (length a) - 1)"
  define p where "p = (?x + ?y) div 2"
  have ne: "a \<noteq> []" using assms(1) by auto
  have f: "fetch a 0 = Some ?x" "fetch a ?e = Some ?y" "?e \<noteq> 0" "0 < ?e" using assms(1) ne by (simp_all add: fetch_def)
  have "?x \<in> set a" "?y \<in> set a" using ne by (simp_all add: nat_less_iff)
  then have xy: "2 ^ 31 \<le> unat ?x" "2 ^ 31 \<le> unat ?y" using assms(2) by (simp_all add: word_le_nat_alt)
  have "unat (?x + ?y) < 2 ^ 32" using unsigned_less [of "?x + ?y"] by simp
  then have "unat p < 2 ^ 31" by (simp add: p_def unat_div)
  then have "p < 0x80000000" by (simp add: word_less_nat_alt)
  then have big: "p < a ! nat i" if "0 \<le> i" "i \<le> ?e" for i
  proof -
    have "a ! nat i \<in> set a" using that by (simp add: nat_less_iff)
    then show ?thesis using assms(2) \<open>p < 0x80000000\<close> less_le_trans by blast
  qed
  have "\<not> a ! 0 \<le> p" using big [of 0] ne by (simp add: not_le)
  then have "scan_left a p 0 ?e = Some 0" using f(1,4) by (subst scan_left.simps) simp
  moreover have "scan_right a p 0 ?e = Some (- 1)" using f(4) big by (intro scan_right_past) simp_all
  moreover have "part_loop a p 0 (- 1) = Some (a, 0, - 1)" by (subst part_loop.simps) simp
  ultimately have "part_loop a p 0 ?e = Some (a, 0, - 1)" using f(4) by (subst part_loop.simps) simp
  moreover have "split_ends a p 0 (- 1) = None" by (simp add: split_ends_def fetch_def)
  ultimately show ?thesis using f by (subst poly_quickSort.simps) (simp add: p_def)
qed

theorem quickSort_leaves_array_witness: "poly_quickSort 0 1 [0xC0000000, 0x80000000] = None"
  using quickSort_leaves_array [of "[0xC0000000, 0x80000000]"] by simp

text \<open>
  Bubble sort of a positive number of elements returns with these elements in ascending signed
  order and everything behind them in the array as it was; asked to sort none, it
  accesses memory outside of an empty array.
\<close>

theorem bubblesort_sorts:
  assumes "unat sz \<le> length xs" "n = unat sz"
  shows "if sz = 0 then xs = [] \<longrightarrow> poly_bubblesort xs sz = None
    else \<exists>ys. poly_bubblesort xs sz = Some (SUCCESS, ys) \<and> mset (take n ys) = mset (take n xs) \<and>
      sorted (map sint (take n ys)) \<and> drop n ys = drop n xs"
proof (cases "sz = 0")
  case True
  have "unat (sz - 1) = Suc (2 ^ 32 - 2)" using True by (simp add: unsigned_minus_1_eq_mask mask_eq_exp_minus_1)
  moreover have "unat (sz - 0 - 1) = Suc (2 ^ 32 - 2)" using calculation by simp
  ultimately have "bubble_passes (unat (sz - 1)) sz 0 [] = None"
    by (simp only: bubble_passes.simps bubble_pass.simps) (simp add: fetch_def)
  then show ?thesis using True by (simp add: poly_bubblesort_def)
next
  case False
  then have n: "0 < n" using assms(2) by (simp add: unat_gt_0)
  have "unat (0 :: Huint) + unat (sz - 1) + 1 = unat sz" using False n assms(2) by (simp add: unat_minus_one)
  moreover have "topped (int (unat (sz - 1)) + 1) (int (unat sz)) xs"
    using False n assms(2) by (auto simp: topped_def unat_minus_one)
  ultimately obtain ys where ys: "bubble_passes (unat (sz - 1)) sz 0 xs = Some ys" "rearranged 0 (int n - 1) xs ys" "topped 1 (int n) ys"
    using bubble_passes_spec [of 0 "unat (sz - 1)" sz xs] assms by blast
  have len: "length ys = length xs" "n \<le> length xs" using rearranged_length [OF ys(2)] assms by simp_all
  have "ys ! k = xs ! k" if "n \<le> k" for k
    using rearranged_outside [OF ys(2), of "int k"] that len(2) by simp
  then have d: "drop n ys = drop n xs" using len by (intro nth_equalityI) simp_all
  have "mset (take n ys @ drop n ys) = mset (take n xs @ drop n xs)"
    unfolding append_take_drop_id using rearranged_mset [OF ys(2)] len(2) n by simp
  then have m: "mset (take n ys) = mset (take n xs)" unfolding mset_append d by simp
  have "sint (ys ! i) \<le> sint (ys ! j)" if "i \<le> j" "j < n" for i j
    using ys(3) [unfolded topped_def, rule_format, of "int i" "int j"] that by (cases "j = 0") simp_all
  then have "sorted (map sint (take n ys))" using len by (simp add: sorted_iff_nth_mono)
  then show ?thesis using False ys(1) m d by (simp add: poly_bubblesort_def)
qed

theorem bubblesort_sorts_witness:
  "\<exists>ys. poly_bubblesort [5, -2, 7, 1] 3 = Some (SUCCESS, ys) \<and> mset (take 3 ys) = mset [5, -2, 7 :: Hint] \<and>
     sorted (map sint (take 3 ys)) \<and> drop 3 ys = [1]"
proof -
  have a: "unat (3 :: Huint) \<le> length [5, -2, 7, 1 :: Hint]" and b: "3 = unat (3 :: Huint)" and c: "(3 :: Huint) \<noteq> 0"
    and d: "take 3 [5, -2, 7, 1 :: Hint] = [5, -2, 7]" "drop 3 [5, -2, 7, 1 :: Hint] = [1]" by simp_all
  show ?thesis using bubblesort_sorts [OF a b] unfolding if_not_P [OF c] d .
qed

end
