(* ===== verification/Accel_Math.thy ===== *)
theory Accel_Math
  imports Block_Device
begin

text \<open>
  The arithmetic routines that the system offers in software and hardware
  (\<^verbatim>\<open>crc.c\<close>, \<^verbatim>\<open>vector.c\<close> and \<^verbatim>\<open>matrix.c\<close> under \<^verbatim>\<open>src/software/accelerators\<close>). Vectors and
  matrices lie in one memory of words, so that operands may overlap; pointers are word indices.
\<close>

type_synonym words = "nat \<Rightarrow> Huint"

section \<open>Checksums (crc.c)\<close>

text \<open>The loop of \<^verbatim>\<open>gen_crc\<close> with \<open>n\<close> steps to go.\<close>

primrec crc_loop :: "nat \<Rightarrow> Huint \<Rightarrow> Huint \<Rightarrow> Huint \<Rightarrow> Huint" where
  "crc_loop 0 divisor msk result = result"
| "crc_loop (Suc n) divisor msk result =
     (if result AND msk = 0 then crc_loop n (divisor div 2) (msk div 2) result
      else crc_loop n (divisor div 2) (msk div 2) (result XOR divisor))"

definition gen_crc :: "Huint \<Rightarrow> Huint" where
  "gen_crc input = crc_loop (32 - 4 + 1) 0xB0000000 0x80000000 input"

primrec crc_array :: "nat \<Rightarrow> nat \<Rightarrow> words \<Rightarrow> words" where
  "crc_array 0 p m = m"
| "crc_array (Suc n) p m = crc_array n (p + 1) (m(p := gen_crc (m p)))"

definition poly_crc :: "nat \<Rightarrow> Huint \<Rightarrow> words \<Rightarrow> Hint \<times> words" where
  "poly_crc list_ptr sz m = (SUCCESS, crc_array (unat sz) list_ptr m)"

definition sw_crc :: "nat \<Rightarrow> Huint \<Rightarrow> words \<Rightarrow> Hint \<times> words" where
  "sw_crc list_ptr sz m = poly_crc list_ptr sz m"

section \<open>Vectors (vector.c)\<close>

text \<open>What one step stores; \<open>None\<close> for an unknown operation.\<close>

definition vector_value :: "Huint \<Rightarrow> Huint \<Rightarrow> Huint \<Rightarrow> Huint \<Rightarrow> Huint option" where
  "vector_value op_code x y z =
     (if op_code = 0 then Some (x + y) else if op_code = 1 then Some (x - y)
      else if op_code = 2 then Some (x * y)
      else if op_code = 3 then Some (if y \<noteq> 0 then x div y else z) else None)"

primrec vector_loop :: "nat \<Rightarrow> nat \<Rightarrow> nat \<Rightarrow> nat \<Rightarrow> nat \<Rightarrow> Huint \<Rightarrow> words \<Rightarrow> Hint \<times> words" where
  "vector_loop a b c 0 i op_code m = (SUCCESS, m)"
| "vector_loop a b c (Suc n) i op_code m =
     (case vector_value op_code (m (a + i)) (m (b + i)) (m (c + i)) of
        None \<Rightarrow> (FAILURE, m)
      | Some v \<Rightarrow> vector_loop a b c n (Suc i) op_code (m(c + i := v)))"

definition poly_vector :: "nat \<Rightarrow> nat \<Rightarrow> nat \<Rightarrow> Huint \<Rightarrow> Huint \<Rightarrow> words \<Rightarrow> Hint \<times> words" where
  "poly_vector a_ptr b_ptr c_ptr sz op_code m = vector_loop a_ptr b_ptr c_ptr (unat sz) 0 op_code m"

definition poly_vectoradd :: "nat \<Rightarrow> nat \<Rightarrow> nat \<Rightarrow> Huint \<Rightarrow> words \<Rightarrow> Hint \<times> words" where
  "poly_vectoradd a_ptr b_ptr c_ptr sz m = poly_vector a_ptr b_ptr c_ptr sz 0 m"

definition poly_vectorsub :: "nat \<Rightarrow> nat \<Rightarrow> nat \<Rightarrow> Huint \<Rightarrow> words \<Rightarrow> Hint \<times> words" where
  "poly_vectorsub a_ptr b_ptr c_ptr sz m = poly_vector a_ptr b_ptr c_ptr sz 1 m"

definition poly_vectormul :: "nat \<Rightarrow> nat \<Rightarrow> nat \<Rightarrow> Huint \<Rightarrow> words \<Rightarrow> Hint \<times> words" where
  "poly_vectormul a_ptr b_ptr c_ptr sz m = poly_vector a_ptr b_ptr c_ptr sz 2 m"

definition poly_vectordiv :: "nat \<Rightarrow> nat \<Rightarrow> nat \<Rightarrow> Huint \<Rightarrow> words \<Rightarrow> Hint \<times> words" where
  "poly_vectordiv a_ptr b_ptr c_ptr sz m = poly_vector a_ptr b_ptr c_ptr sz 3 m"

section \<open>Matrices (matrix.c)\<close>

text \<open>
  The loop counters have type \<^verbatim>\<open>char\<close>, which the compiler may take to be signed or not
  (\<open>sg\<close>); in comparisons and index computations they become unsigned words.
\<close>

definition char_word :: "bool \<Rightarrow> Hubyte \<Rightarrow> Huint" where
  "char_word sg c = (if sg then scast c else ucast c)"

partial_function (option) matrix_sum ::
  "bool \<Rightarrow> nat \<Rightarrow> nat \<Rightarrow> Huint \<Rightarrow> Huint \<Rightarrow> Hubyte \<Rightarrow> Hubyte \<Rightarrow> Hubyte \<Rightarrow> Huint \<Rightarrow> words \<Rightarrow> Huint option" where
  "matrix_sum sg a b a_cols b_cols i j k acc m =
     (if char_word sg k < a_cols
      then matrix_sum sg a b a_cols b_cols i j (k + 1)
        (acc + m (a + unat (char_word sg i * a_cols + char_word sg k)) *
               m (b + unat (char_word sg k * b_cols + char_word sg j))) m
      else Some acc)"

partial_function (option) matrix_row ::
  "bool \<Rightarrow> nat \<Rightarrow> nat \<Rightarrow> nat \<Rightarrow> Huint \<Rightarrow> Huint \<Rightarrow> Hubyte \<Rightarrow> Hubyte \<Rightarrow> words \<Rightarrow> words option" where
  "matrix_row sg a b c a_cols b_cols i j m =
     (if char_word sg j < b_cols
      then do { acc \<leftarrow> matrix_sum sg a b a_cols b_cols i j 0 0 m;
                matrix_row sg a b c a_cols b_cols i (j + 1)
                  (m(c + unat (char_word sg i * b_cols + char_word sg j) := acc)) }
      else Some m)"

partial_function (option) matrix_rows ::
  "bool \<Rightarrow> nat \<Rightarrow> nat \<Rightarrow> nat \<Rightarrow> Huint \<Rightarrow> Huint \<Rightarrow> Huint \<Rightarrow> Hubyte \<Rightarrow> words \<Rightarrow> words option" where
  "matrix_rows sg a b c a_rows a_cols b_cols i m =
     (if char_word sg i < a_rows
      then do { m \<leftarrow> matrix_row sg a b c a_cols b_cols i 0 m;
                matrix_rows sg a b c a_rows a_cols b_cols (i + 1) m }
      else Some m)"

text \<open>The assertion that the first matrix is square ends the program when it fails.\<close>

definition sw_matrix_multiply ::
  "bool \<Rightarrow> nat \<Rightarrow> nat \<Rightarrow> nat \<Rightarrow> Huint \<Rightarrow> Huint \<Rightarrow> Huint \<Rightarrow> words \<Rightarrow> (Hint \<times> words) option" where
  "sw_matrix_multiply sg a_ptr b_ptr c_ptr a_rows a_cols b_cols m =
     (if a_cols \<noteq> a_rows then None
      else do { m \<leftarrow> matrix_rows sg a_ptr b_ptr c_ptr a_rows a_cols b_cols 0 m; Some (SUCCESS, m) })"

definition poly_matrix_mul ::
  "bool \<Rightarrow> nat \<Rightarrow> nat \<Rightarrow> nat \<Rightarrow> Huint \<Rightarrow> Huint \<Rightarrow> Huint \<Rightarrow> words \<Rightarrow> (Hint \<times> words) option" where
  "poly_matrix_mul sg a_ptr b_ptr c_ptr a_rows a_cols b_cols m =
     sw_matrix_multiply sg a_ptr b_ptr c_ptr a_rows a_cols b_cols m"

section \<open>The checksum is a polynomial remainder\<close>

text \<open>
  Words as polynomials over the field of two elements: \<open>poly_mult q\<close> is the product of the
  polynomial with the coefficients \<open>q\<close>, highest first, and \<open>x\<^sup>3 + x + 1\<close>.
\<close>

primrec poly_mult :: "bool list \<Rightarrow> Huint" where
  "poly_mult [] = 0"
| "poly_mult (b # q) = (if b then push_bit (length q) 0xB else 0) XOR poly_mult q"

definition degree_below :: "nat \<Rightarrow> Huint \<Rightarrow> bool" where
  "degree_below n w \<longleftrightarrow> (\<forall>k\<ge>n. \<not> bit w k)"

lemma bit_divisor: "bit (0xB :: Huint) k \<longleftrightarrow> k = 0 \<or> k = 1 \<or> k = 3"
proof -
  have "(0xB :: Huint) = 2 ^ 0 OR 2 ^ 1 OR 2 ^ 3" by simp
  then have "bit (0xB :: Huint) k \<longleftrightarrow> bit (2 ^ 0 OR 2 ^ 1 OR 2 ^ 3 :: Huint) k" by (simp only:)
  then show ?thesis unfolding bit_or_iff bit_exp_iff by auto
qed

lemma bit_shifted_divisor: "bit (push_bit n (0xB :: Huint)) k \<longleftrightarrow> k < 32 \<and> (k = n \<or> k = n + 1 \<or> k = n + 3)"
  unfolding bit_push_bit_iff bit_divisor by auto

lemma degree_mult: "degree_below (length q + 3) (poly_mult q)"
  by (induction q) (auto simp: degree_below_def bit_xor_iff bit_shifted_divisor)

lemma degree_below_8: "degree_below 3 w \<longleftrightarrow> w < 8"
proof -
  have b: "bit (take_bit 3 w) k \<longleftrightarrow> k < 3 \<and> bit w k" for k by (simp add: bit_take_bit_iff)
  have "degree_below 3 w \<longleftrightarrow> take_bit 3 w = w"
  proof
    assume "degree_below 3 w"
    then have "bit (take_bit 3 w) k \<longleftrightarrow> bit w k" for k unfolding b degree_below_def by (metis not_less)
    then show "take_bit 3 w = w" by (intro bit_eqI)
  next
    assume "take_bit 3 w = w"
    then show "degree_below 3 w" unfolding degree_below_def by (metis b not_less)
  qed
  also have "\<dots> \<longleftrightarrow> w < 8"
    by (simp add: word_unat_eq_iff unsigned_take_bit_eq take_bit_nat_eq_self_iff word_less_nat_alt)
  finally show ?thesis by simp
qed

lemma crc_loop_mult:
  assumes "n \<le> 29" "length q = n" "degree_below 3 r"
  shows "crc_loop n (push_bit (n - 1) 0xB) (push_bit (n + 2) 1) (poly_mult q XOR r) = r"
  using assms
proof (induction n arbitrary: q)
  case (Suc n)
  then obtain b q' where q: "q = b # q'" "length q' = n" by (cases q) auto
  have n: "n \<le> 28" using Suc.prems(1) by simp
  have half: "push_bit n (0xB :: Huint) div 2 = push_bit (n - 1) 0xB" if "0 < n"
  proof -
    have "drop_bit 1 (push_bit n (0xB :: Huint)) = push_bit (n - 1) 0xB"
      by (rule bit_word_eqI) (use n that in \<open>auto simp: bit_drop_bit_eq bit_shifted_divisor\<close>)
    then show ?thesis by (simp add: drop_bit_eq_div)
  qed
  have msk: "push_bit (n + 3) (1 :: Huint) div 2 = push_bit (n + 2) 1"
  proof -
    have "drop_bit 1 (push_bit (n + 3) (1 :: Huint)) = push_bit (n + 2) 1"
      unfolding push_bit_of_1 by (rule bit_word_eqI, unfold bit_drop_bit_eq bit_exp_iff) (use n in auto)
    then show ?thesis by (simp add: drop_bit_eq_div)
  qed
  have "\<not> bit (poly_mult q') (n + 3)" "\<not> bit r (n + 3)"
    using degree_mult [of q'] q(2) Suc.prems(3) by (auto simp: degree_below_def)
  then have top: "bit (poly_mult q XOR r) (n + 3) \<longleftrightarrow> b" using n q by (auto simp: bit_xor_iff bit_shifted_divisor)
  have test: "(poly_mult q XOR r) AND push_bit (n + 3) 1 = 0 \<longleftrightarrow> \<not> b"
    by (simp only: push_bit_of_1 and_exp_eq_0_iff_not_bit top)
  have step: "(if b then (poly_mult q XOR r) XOR push_bit n 0xB else poly_mult q XOR r) = poly_mult q' XOR r"
    using q by (auto simp: xor.assoc xor.left_commute xor.commute)
  have IH: "crc_loop n (push_bit (n - 1) 0xB) (push_bit (n + 2) 1) (poly_mult q' XOR r) = r"
    using Suc.IH [of q'] Suc.prems q by simp
  have eq: "crc_loop n (push_bit n 0xB div 2) (push_bit (n + 2) 1) w = crc_loop n (push_bit (n - 1) 0xB) (push_bit (n + 2) 1) w" for w
    using half by (cases n) simp_all
  have s: "Suc n - 1 = n" "Suc n + 2 = n + 3" by simp_all
  show ?case
    unfolding s crc_loop.simps msk eq test using IH step by (cases b) (simp_all only: if_True if_False not_True_eq_False not_False_eq_True)
qed simp

lemma poly_division:
  "\<lbrakk>n \<le> 29; degree_below (n + 3) w\<rbrakk> \<Longrightarrow> \<exists>q r. length q = n \<and> degree_below 3 r \<and> w = poly_mult q XOR r"
proof (induction n arbitrary: w)
  case (Suc n)
  define b where "b = bit w (n + 3)"
  define v where "v = (if b then push_bit n 0xB else 0) XOR w"
  have "degree_below (n + 3) v"
    unfolding degree_below_def
  proof (intro allI impI)
    fix k assume k: "n + 3 \<le> k"
    show "\<not> bit v k"
      using Suc.prems k by (cases "k = n + 3") (auto simp: v_def b_def degree_below_def bit_xor_iff bit_shifted_divisor)
  qed
  then obtain q r where q: "length q = n" "degree_below 3 r" "v = poly_mult q XOR r" using Suc.IH [of v] Suc.prems(1) by auto
  have "w = (if b then push_bit n 0xB else 0) XOR v" by (simp add: v_def flip: xor.assoc)
  then have "w = poly_mult (b # q) XOR r" using q by (simp add: xor.assoc)
  then show ?case using q(1,2) by (metis length_Cons)
qed simp

lemma gen_crc_mult:
  assumes "length q = 29" "r < 8"
  shows "gen_crc (poly_mult q XOR r) = r"
  using crc_loop_mult [of 29 q r] assms by (simp add: gen_crc_def degree_below_8)

lemma crc_array_maps: "crc_array n p m = (\<lambda>x. if p \<le> x \<and> x < p + n then gen_crc (m x) else m x)"
  by (induction n arbitrary: p m) (auto simp: fun_eq_iff)

text \<open>
  C33: The checksum of a word is its remainder modulo the polynomial \<open>x\<^sup>3 + x + 1\<close>: the one value
  below 8 that differs from the word by a multiple of the divisor.
\<close>

theorem crc_is_remainder:
  "gen_crc w = r \<longleftrightarrow> r < 8 \<and> (\<exists>q. length q = 29 \<and> w = poly_mult q XOR r)"
proof -
  have "degree_below (29 + 3) w" using bit_imp_le_length [of w] by (force simp: degree_below_def)
  then obtain q r' where q: "length q = 29" "r' < 8" "w = poly_mult q XOR r'"
    using poly_division [of 29 w] degree_below_8 by auto
  then have "gen_crc w = r'" using gen_crc_mult by simp
  then show ?thesis using q gen_crc_mult by blast
qed

section \<open>Vectors\<close>

text \<open>Two vectors of length \<open>n\<close> that are the same or do not overlap.\<close>

definition aligned :: "nat \<Rightarrow> nat \<Rightarrow> nat \<Rightarrow> bool" where
  "aligned p q n \<longleftrightarrow> p = q \<or> p + n \<le> q \<or> q + n \<le> p"

definition vector_result :: "nat \<Rightarrow> nat \<Rightarrow> nat \<Rightarrow> Huint \<Rightarrow> words \<Rightarrow> nat \<Rightarrow> Huint" where
  "vector_result a b c op_code m k = the (vector_value op_code (m (a + k)) (m (b + k)) (m (c + k)))"

lemma vector_loop_spec:
  assumes "op_code < 4" "aligned a c (i + n)" "aligned b c (i + n)"
  shows "vector_loop a b c n i op_code m =
    (SUCCESS, \<lambda>x. if c + i \<le> x \<and> x < c + i + n then vector_result a b c op_code m (x - c) else m x)"
  using assms(2,3)
proof (induction n arbitrary: i m)
  case (Suc n)
  have "op_code = 0 \<or> op_code = 1 \<or> op_code = 2 \<or> op_code = 3"
    using assms(1) by (auto simp: word_less_nat_alt word_unat_eq_iff)
  then have v: "vector_value op_code x y z = Some (the (vector_value op_code x y z))" for x y z
    by (auto simp: vector_value_def)
  let ?v = "vector_result a b c op_code m i" and ?m = "m(c + i := vector_result a b c op_code m i)"
  have off: "?m (p + k) = m (p + k)" if "Suc i \<le> k" "k < Suc (i + n)" "aligned p c (i + Suc n)" for p k
    using that by (auto simp: aligned_def)
  have same: "vector_result a b c op_code ?m k = vector_result a b c op_code m k" if "Suc i \<le> k" "k < Suc (i + n)" for k
    using off [OF that Suc.prems(1)] off [OF that Suc.prems(2)] off [OF that, of c]
    by (simp add: vector_result_def aligned_def)
  have "vector_loop a b c (Suc n) i op_code m = vector_loop a b c n (Suc i) op_code ?m"
    by (subst vector_loop.simps, subst v) (simp add: vector_result_def)
  also have "\<dots> = (SUCCESS, \<lambda>x. if c + Suc i \<le> x \<and> x < c + Suc i + n then vector_result a b c op_code ?m (x - c) else ?m x)"
    by (rule Suc.IH) (use Suc.prems in simp_all)
  also have "\<dots> = (SUCCESS, \<lambda>x. if c + i \<le> x \<and> x < c + i + Suc n then vector_result a b c op_code m (x - c) else m x)"
    using same by (auto simp: fun_eq_iff)
  finally show ?case .
qed (auto simp: fun_eq_iff)

text \<open>
  The vector operations work element by element with wrapping arithmetic, also in place: when the
  result is one of the operands or apart from them, each element of the result is the sum,
  difference, product or quotient of the old elements (a division by zero keeps the old value of
  the result), and nothing else changes. An unknown operation fails without effect.
\<close>

theorem vector_elementwise:
  assumes "n = unat sz" "aligned a c n" "aligned b c n"
  shows "if op_code < 4 then poly_vector a b c sz op_code m =
      (SUCCESS, \<lambda>x. if c \<le> x \<and> x < c + n then the (vector_value op_code (m (a + (x - c))) (m (b + (x - c))) (m x)) else m x)
    else poly_vector a b c sz op_code m = (if sz = 0 then SUCCESS else FAILURE, m)"
proof (cases "op_code < 4")
  case True
  then show ?thesis
    using vector_loop_spec [OF True, of a c 0 n b m] assms
    by (auto simp: poly_vector_def vector_result_def fun_eq_iff)
next
  case False
  then have "vector_value op_code x y z = None" for x y z
    by (auto simp: vector_value_def)
  then show ?thesis using False by (cases "unat sz") (auto simp: poly_vector_def unat_eq_0)
qed

theorem vector_elementwise_witness:
  "snd (poly_vector 0 4 0 4 1 (\<lambda>x. of_nat (10 * x))) 1 = - 40"
  using vector_elementwise [of 4 4 0 0 4 1 "\<lambda>x. of_nat (10 * x)"] by (simp add: aligned_def vector_value_def)

section \<open>Matrices\<close>

definition matrix_entry :: "nat \<Rightarrow> nat \<Rightarrow> nat \<Rightarrow> nat \<Rightarrow> words \<Rightarrow> nat \<Rightarrow> nat \<Rightarrow> Huint" where
  "matrix_entry a b n p m i j = (\<Sum>k<n. m (a + (i * n + k)) * m (b + (k * p + j)))"

lemma char_small: "k < 128 \<Longrightarrow> char_word sg (of_nat k) = of_nat k"
proof -
  assume k: "k < 128"
  then have u: "unat (of_nat k :: Hubyte) = k" "uint (of_nat k :: Hubyte) = int k"
    by (simp_all add: unat_of_nat uint_nat)
  then have "sint (of_nat k :: Hubyte) = int k"
    using k by (simp add: sint_uint signed_take_bit_int_eq_self)
  moreover have "scast w = (of_int (sint w) :: Huint)" "ucast w = (of_nat (unat w) :: Huint)" for w :: Hubyte by simp_all
  ultimately show ?thesis using u(1) by (simp only: char_word_def) simp
qed

lemma index_value:
  assumes "i < 128" "k < 128" "n < 128"
  shows "unat (of_nat i * of_nat n + of_nat k :: Huint) = i * n + k"
proof -
  have "i * n \<le> 127 * 127" using assms by (intro mult_le_mono) simp_all
  then have "i * n + k < 2 ^ 32" using assms(2) by simp
  moreover have "of_nat i * of_nat n + of_nat k = (of_nat (i * n + k) :: Huint)" by simp
  ultimately show ?thesis by (simp only: unat_of_nat) simp
qed

lemma small_less: "k < 128 \<Longrightarrow> n < 128 \<Longrightarrow> (of_nat k :: Huint) < of_nat n \<longleftrightarrow> k < n"
  by (simp add: word_less_nat_alt unat_of_nat)

lemma char_less: "k < 128 \<Longrightarrow> n < 128 \<Longrightarrow> char_word sg (of_nat k) < (of_nat n :: Huint) \<longleftrightarrow> k < n"
  by (simp add: char_small small_less)

lemma matrix_sum_spec:
  assumes "n < 128" "p < 128" "i < 128" "j < 128" "k \<le> n"
  shows "matrix_sum sg a b (of_nat n) (of_nat p) (of_nat i) (of_nat j) (of_nat k) acc m =
    Some (acc + (\<Sum>t\<in>{k..<n}. m (a + (i * n + t)) * m (b + (t * p + j))))"
  using assms(5)
proof (induction "n - k" arbitrary: k acc)
  case 0
  then show ?case using assms by (subst matrix_sum.simps) (simp add: char_less)
next
  case (Suc d)
  then have k: "k < n" "Suc k \<le> n" "d = n - Suc k" by simp_all
  have "{k..<n} = insert k {Suc k..<n}" using k(1) by auto
  then have split: "(\<Sum>t\<in>{k..<n}. f t) = f k + (\<Sum>t\<in>{Suc k..<n}. f t)" for f :: "nat \<Rightarrow> Huint" by simp
  have "(of_nat (Suc k) :: Hubyte) = of_nat k + 1" by simp
  note nxt = Suc.hyps(1) [OF k(3,2), unfolded this]
  show ?case
    using nxt k(1) assms
    by (subst matrix_sum.simps) (simp add: small_less char_small index_value split add.assoc)
qed

text \<open>The memory when the first \<open>y\<close> elements of the result are in place.\<close>

definition filled :: "nat \<Rightarrow> nat \<Rightarrow> nat \<Rightarrow> nat \<Rightarrow> nat \<Rightarrow> words \<Rightarrow> nat \<Rightarrow> words" where
  "filled a b c n p m y = (\<lambda>x. if c \<le> x \<and> x < c + y then matrix_entry a b n p m ((x - c) div p) ((x - c) mod p) else m x)"

definition matrices_apart :: "nat \<Rightarrow> nat \<Rightarrow> nat \<Rightarrow> nat \<Rightarrow> nat \<Rightarrow> bool" where
  "matrices_apart a b c n p \<longleftrightarrow> (a + n * n \<le> c \<or> c + n * p \<le> a) \<and> (b + n * p \<le> c \<or> c + n * p \<le> b)"

lemma index_bound: "i < n \<Longrightarrow> j < p \<Longrightarrow> i * p + j < n * (p :: nat)"
proof -
  assume "i < n" "j < p"
  then have "i * p + j < Suc i * p" by simp
  also have "\<dots> \<le> n * p" using \<open>i < n\<close> by (intro mult_le_mono1) simp
  finally show ?thesis .
qed

lemma filled_entry_same:
  assumes "matrices_apart a b c n p" "y \<le> n * p" "i < n" "j < p"
  shows "matrix_entry a b n p (filled a b c n p m y) i j = matrix_entry a b n p m i j"
  unfolding matrix_entry_def
proof (rule sum.cong [OF refl])
  fix k assume "k \<in> {..<n}"
  then have "i * n + k < n * n" "k * p + j < n * p" using assms(3,4) by (auto intro: index_bound)
  then show "filled a b c n p m y (a + (i * n + k)) * filled a b c n p m y (b + (k * p + j)) =
      m (a + (i * n + k)) * m (b + (k * p + j))"
    using assms(1,2) by (auto simp: filled_def matrices_apart_def)
qed

lemma matrix_row_spec:
  assumes "matrices_apart a b c n p" "n < 128" "p < 128" "i < n" "j \<le> p"
  shows "matrix_row sg a b c (of_nat n) (of_nat p) (of_nat i) (of_nat j) (filled a b c n p m (i * p + j)) =
    Some (filled a b c n p m (i * p + p))"
  using assms(5)
proof (induction "p - j" arbitrary: j)
  case 0
  then show ?case using assms by (subst matrix_row.simps) (simp add: char_less)
next
  case (Suc d)
  then have j: "j < p" "Suc j \<le> p" "d = p - Suc j" by simp_all
  let ?M = "filled a b c n p m"
  have e: "matrix_sum sg a b (of_nat n) (of_nat p) (of_nat i) (of_nat j) 0 0 (?M (i * p + j)) = Some (matrix_entry a b n p m i j)"
    using matrix_sum_spec [of n p i j 0 sg a b 0 "?M (i * p + j)"] assms j(1)
      filled_entry_same [OF assms(1) _ assms(4) j(1), of "i * p + j" m] index_bound [OF assms(4) j(1)]
    by (simp add: matrix_entry_def atLeast0LessThan)
  have "(i * p + j) div p = i" "(i * p + j) mod p = j" using j(1) by simp_all
  then have step: "(?M (i * p + j))(c + (i * p + j) := matrix_entry a b n p m i j) = ?M (i * p + Suc j)"
    by (auto simp: filled_def fun_eq_iff)
  have "(of_nat (Suc j) :: Hubyte) = of_nat j + 1" by simp
  note nxt = Suc.hyps(1) [OF j(3,2), unfolded this]
  show ?case
    using nxt e step j(1) assms
    by (subst matrix_row.simps) (simp add: small_less char_small index_value)
qed

lemma matrix_rows_spec:
  assumes "matrices_apart a b c n p" "n < 128" "p < 128" "i \<le> n"
  shows "matrix_rows sg a b c (of_nat n) (of_nat n) (of_nat p) (of_nat i) (filled a b c n p m (i * p)) =
    Some (filled a b c n p m (n * p))"
  using assms(4)
proof (induction "n - i" arbitrary: i)
  case 0
  then show ?case using assms by (subst matrix_rows.simps) (simp add: char_less)
next
  case (Suc d)
  then have i: "i < n" "Suc i \<le> n" "d = n - Suc i" by simp_all
  have row: "matrix_row sg a b c (of_nat n) (of_nat p) (of_nat i) 0 (filled a b c n p m (i * p)) =
      Some (filled a b c n p m (Suc i * p))"
    using matrix_row_spec [OF assms(1-3) i(1), of 0 sg m] by (simp add: add.commute)
  have "(of_nat (Suc i) :: Hubyte) = of_nat i + 1" by simp
  note nxt = Suc.hyps(1) [OF i(3,2), unfolded this]
  show ?case
    using nxt row i(1) assms by (subst matrix_rows.simps) (simp add: char_less del: mult_Suc)
qed

text \<open>
  Multiplying a square matrix with a matrix of the same height, both with at most 127 rows and
  columns and apart from the result, returns with the product in the result, in wrapping
  arithmetic, and changes nothing else, whether characters are signed or not.
\<close>

theorem matrix_product:
  assumes "n < 128" "p < 128" "matrices_apart a b c n p"
  shows "\<exists>m'. sw_matrix_multiply sg a b c (of_nat n) (of_nat n) (of_nat p) m = Some (SUCCESS, m') \<and>
    (\<forall>i<n. \<forall>j<p. m' (c + (i * p + j)) = (\<Sum>k<n. m (a + (i * n + k)) * m (b + (k * p + j)))) \<and>
    (\<forall>x. x < c \<or> c + n * p \<le> x \<longrightarrow> m' x = m x)"
proof -
  have "filled a b c n p m 0 = m" by (auto simp: filled_def fun_eq_iff)
  then have "matrix_rows sg a b c (of_nat n) (of_nat n) (of_nat p) 0 m = Some (filled a b c n p m (n * p))"
    using matrix_rows_spec [OF assms(3,1,2), of 0 sg m] by simp
  moreover have "filled a b c n p m (n * p) (c + (i * p + j)) = matrix_entry a b n p m i j" if "i < n" "j < p" for i j
    using that index_bound [OF that] by (simp add: filled_def)
  ultimately show ?thesis by (auto simp: sw_matrix_multiply_def matrix_entry_def filled_def)
qed

theorem matrix_product_witness:
  "\<exists>m'. sw_matrix_multiply True 0 4 8 2 2 1 (\<lambda>x. of_nat x) = Some (SUCCESS, m') \<and> m' 8 = 5 \<and> m' 9 = 23 \<and> m' 10 = 10"
proof -
  have "matrices_apart 0 4 8 2 1" by (simp add: matrices_apart_def)
  from matrix_product [OF _ _ this, of True "\<lambda>x. of_nat x"] obtain m' where
    m': "sw_matrix_multiply True 0 4 8 2 2 1 (\<lambda>x. of_nat x) = Some (SUCCESS, m')"
      "\<forall>i<2. \<forall>j<1. m' (8 + (i * 1 + j)) = (\<Sum>k<2. of_nat (0 + (i * 2 + k)) * of_nat (4 + (k * 1 + j)))"
      "\<forall>x. x < 8 \<or> 8 + 2 * 1 \<le> x \<longrightarrow> m' x = of_nat x" by auto
  have "m' (8 + (0 * 1 + 0)) = 5" "m' (8 + (1 * 1 + 0)) = 23"
    using m'(2) [rule_format, of 0 0] m'(2) [rule_format, of 1 0] by (simp_all add: numeral_2_eq_2)
  then show ?thesis using m'(1,3) by simp
qed

end
