(* ===== verification/Ps2_Keyboard.thy ===== *)
theory Ps2_Keyboard
  imports Block_Device
begin

text \<open>
  The PS/2 port and the keyboard on it (\<^verbatim>\<open>ps2.c\<close> and \<^verbatim>\<open>keyboard.c\<close> under
  \<^verbatim>\<open>src/software/drivers/ps2\<close>). The port is the parameter \<open>D\<close>, two functions that read and
  write an 8-bit register and may change the device's state \<open>'d\<close>; \<open>port_ok\<close> states what the
  driver relies on. Waiting for a byte that never comes is \<open>None\<close>.
\<close>

section \<open>The port (ps2.c)\<close>

record 'd port =
  rd8 :: "Huint \<Rightarrow> 'd \<Rightarrow> Hubyte \<times> 'd"
  wr8 :: "Huint \<Rightarrow> Hubyte \<Rightarrow> 'd \<Rightarrow> 'd"

record ps2 =
  reset_reg :: Huint
  status_reg :: Huint
  recv_reg :: Huint
  send_reg :: Huint
  intr_reg :: Huint
  clear_reg :: Huint
  enable_reg :: Huint
  disable_reg :: Huint

definition ps2_reset :: "'d port \<Rightarrow> ps2 \<Rightarrow> 'd \<Rightarrow> 'd" where
  "ps2_reset D p d = wr8 D (reset_reg p) 0x00 (wr8 D (reset_reg p) 0x01 d)"

definition ps2_create :: "'d port \<Rightarrow> Huint \<Rightarrow> 'd \<Rightarrow> Hint \<times> ps2 \<times> 'd" where
  "ps2_create D base d =
     (let p = \<lparr>reset_reg = base + 0x00, status_reg = base + 0x04, recv_reg = base + 0x08, send_reg = base + 0x0C,
        intr_reg = base + 0x10, clear_reg = base + 0x14, enable_reg = base + 0x18, disable_reg = base + 0x1C\<rparr>
      in (SUCCESS, p, ps2_reset D p d))"

definition ps2_destroy :: "ps2 \<Rightarrow> Hint" where "ps2_destroy p = SUCCESS"

definition ps2_status :: "'d port \<Rightarrow> ps2 \<Rightarrow> 'd \<Rightarrow> Hubyte \<times> 'd" where
  "ps2_status D p d = rd8 D (status_reg p) d"

definition ps2_interrupts :: "'d port \<Rightarrow> ps2 \<Rightarrow> 'd \<Rightarrow> Hubyte \<times> 'd" where
  "ps2_interrupts D p d = rd8 D (intr_reg p) d"

definition ps2_clear :: "'d port \<Rightarrow> ps2 \<Rightarrow> Hubyte \<Rightarrow> 'd \<Rightarrow> 'd" where
  "ps2_clear D p msk d = wr8 D (clear_reg p) msk d"

definition ps2_isenabled :: "'d port \<Rightarrow> ps2 \<Rightarrow> Hubyte \<Rightarrow> 'd \<Rightarrow> Hubyte \<times> 'd" where
  "ps2_isenabled D p msk d = (let (v, d) = rd8 D (enable_reg p) d in (v AND msk, d))"

definition ps2_enable :: "'d port \<Rightarrow> ps2 \<Rightarrow> Hubyte \<Rightarrow> 'd \<Rightarrow> 'd" where
  "ps2_enable D p msk d = wr8 D (enable_reg p) msk d"

definition ps2_disable :: "'d port \<Rightarrow> ps2 \<Rightarrow> Hubyte \<Rightarrow> 'd \<Rightarrow> 'd" where
  "ps2_disable D p msk d = wr8 D (disable_reg p) msk d"

definition ps2_sendfull :: "'d port \<Rightarrow> ps2 \<Rightarrow> 'd \<Rightarrow> bool \<times> 'd" where
  "ps2_sendfull D p d = (let (v, d) = rd8 D (status_reg p) d in (v AND 0x02 \<noteq> 0, d))"

definition ps2_recvempty :: "'d port \<Rightarrow> ps2 \<Rightarrow> 'd \<Rightarrow> bool \<times> 'd" where
  "ps2_recvempty D p d = (let (v, d) = rd8 D (status_reg p) d in (v AND 0x01 = 0, d))"

partial_function (option) ps2_sendbyte :: "'d port \<Rightarrow> ps2 \<Rightarrow> Hubyte \<Rightarrow> 'd \<Rightarrow> 'd option" where
  "ps2_sendbyte D p v d =
     (let (full, d) = ps2_sendfull D p d in
      if full then ps2_sendbyte D p v d else Some (wr8 D (send_reg p) v d))"

partial_function (option) ps2_recvbyte :: "'d port \<Rightarrow> ps2 \<Rightarrow> 'd \<Rightarrow> (Hubyte \<times> 'd) option" where
  "ps2_recvbyte D p d =
     (let (empty, d) = ps2_recvempty D p d in
      if empty then ps2_recvbyte D p d else Some (rd8 D (recv_reg p) d))"

section \<open>Tables (keyboard.c)\<close>

definition keycode :: "Hubyte list" where
  "keycode = [
     0, 0x01, 0, 0x03, 0x04, 0x05, 0x06, 0x07, 0, 0x09, 0x0A, 0x0B, 0x0C, 0x0D, 0x0E, 0,
     0, 0x11, 0x12, 0, 0x14, 0x15, 0x16, 0, 0, 0, 0x1A, 0x1B, 0x1C, 0x1D, 0x1E, 0x1F,
     0, 0x21, 0x22, 0x23, 0x24, 0x25, 0x26, 0x1F, 0, 0x29, 0x2A, 0x2B, 0x2C, 0x2D, 0x2E, 0x2F,
     0, 0x31, 0x32, 0x33, 0x34, 0x35, 0x36, 0, 0, 0, 0x3A, 0x3B, 0x3C, 0x3D, 0x3E, 0,
     0, 0x41, 0x42, 0x43, 0x44, 0x45, 0x46, 0, 0, 0x49, 0x4A, 0x4B, 0x4C, 0x4D, 0x4E, 0,
     0, 0, 0x52, 0, 0x54, 0x55, 0, 0, 0x58, 0x12, 0x5A, 0x5B, 0, 0x5D, 0, 0,
     0, 0, 0, 0, 0, 0, 0x66, 0, 0, 0x69, 0, 0x6B, 0x6C, 0, 0, 0,
     0x70, 0x71, 0x72, 0x73, 0x74, 0x75, 0x76, 0x77, 0x78, 0x79, 0x7A, 0x7B, 0x7C, 0x7D, 0x7E, 0,
     0, 0, 0, 0x83, 0, 0, 0, 0, 0, 0, 0, 0, 0, 0, 0, 0,
     0, 0, 0, 0, 0, 0, 0, 0, 0, 0, 0, 0, 0, 0, 0, 0,
     0, 0, 0, 0, 0, 0, 0, 0, 0, 0, 0, 0, 0, 0, 0, 0,
     0, 0, 0, 0, 0, 0, 0, 0, 0, 0, 0, 0, 0, 0, 0, 0,
     0, 0, 0, 0, 0, 0, 0, 0, 0, 0, 0, 0, 0, 0, 0, 0,
     0, 0, 0, 0, 0, 0, 0, 0, 0, 0, 0, 0, 0, 0, 0, 0,
     0, 0xE1, 0, 0, 0, 0, 0, 0, 0, 0, 0, 0, 0, 0, 0, 0,
     0, 0, 0, 0, 0, 0, 0, 0, 0, 0, 0, 0, 0, 0, 0, 0]"

definition ascii :: "Hubyte list" where
  "ascii = [
     0, 0, 0, 0, 0, 0, 0, 0, 0, 0, 0, 0, 0, 0x09, 0x60, 0,
     0, 0, 0, 0, 0, 0x71, 0x31, 0, 0, 0, 0x7A, 0x73, 0x61, 0x77, 0x32, 0,
     0, 0x63, 0x78, 0x64, 0x65, 0x34, 0x33, 0, 0, 0x20, 0x76, 0x66, 0x74, 0x72, 0x35, 0,
     0, 0x6E, 0x62, 0x68, 0x67, 0x79, 0x36, 0, 0, 0, 0x6D, 0x6A, 0x75, 0x37, 0x38, 0,
     0, 0x2C, 0x6B, 0x69, 0x6F, 0x30, 0x39, 0, 0, 0x2E, 0x2F, 0x6C, 0x3B, 0x70, 0x2D, 0,
     0, 0, 0x27, 0, 0x5B, 0x3D, 0, 0, 0, 0, 0x0D, 0x5D, 0, 0x5C, 0, 0,
     0, 0, 0, 0, 0, 0, 0x08, 0, 0, 0x03, 0, 0, 0x02, 0, 0, 0,
     0, 0x7F, 0, 0, 0, 0, 0x1B, 0, 0, 0x2B, 0, 0x2D, 0x2A, 0, 0, 0,
     0, 0, 0, 0, 0, 0, 0, 0, 0, 0, 0, 0, 0, 0x09, 0x7E, 0,
     0, 0, 0, 0, 0, 0x51, 0x21, 0, 0, 0, 0x5A, 0x53, 0x41, 0x57, 0x40, 0,
     0, 0x43, 0x58, 0x44, 0x45, 0x24, 0x23, 0, 0, 0x20, 0x56, 0x46, 0x54, 0x52, 0x25, 0,
     0, 0x4E, 0x42, 0x48, 0x47, 0x59, 0x5E, 0, 0, 0, 0x4D, 0x4A, 0x55, 0x26, 0x2A, 0,
     0, 0x3C, 0x4B, 0x49, 0x4F, 0x29, 0x28, 0, 0, 0x3E, 0x3F, 0x4C, 0x3A, 0x50, 0x5F, 0,
     0, 0, 0x22, 0, 0x7B, 0x2B, 0, 0, 0, 0, 0x0D, 0x7D, 0, 0x7C, 0, 0,
     0, 0, 0, 0, 0, 0, 0x08, 0, 0, 0x03, 0, 0, 0x02, 0, 0, 0,
     0, 0x7F, 0, 0, 0, 0, 0x1B, 0, 0, 0x2B, 0, 0x2D, 0x2A, 0, 0, 0]"

definition KEY_EXTEND :: Hubyte where "KEY_EXTEND = 0xE0"

definition KEY_RELEASE :: Hubyte where "KEY_RELEASE = 0xF0"

definition KEYCODE_SHIFT :: Hubyte where "KEYCODE_SHIFT = 0x12"

definition KEYCODE_CTRL :: Hubyte where "KEYCODE_CTRL = 0x14"

definition KEYCODE_ALT :: Hubyte where "KEYCODE_ALT = 0x11"

definition KEYCODE_NUMLOCK :: Hubyte where "KEYCODE_NUMLOCK = 0x77"

definition KEYCODE_SCROLL :: Hubyte where "KEYCODE_SCROLL = 0x7E"

definition KEYCODE_CAPS :: Hubyte where "KEYCODE_CAPS = 0x58"

definition KEYCODE_ENTER :: Hubyte where "KEYCODE_ENTER = 0x5A"

definition KEYCODE_BS :: Hubyte where "KEYCODE_BS = 0x66"

definition KEYBOARD_CMD_RESET :: Hubyte where "KEYBOARD_CMD_RESET = 0xFF"

definition KEYBOARD_CMD_DISABLE :: Hubyte where "KEYBOARD_CMD_DISABLE = 0xF5"

definition KEYBOARD_CMD_ENABLE :: Hubyte where "KEYBOARD_CMD_ENABLE = 0xF4"

definition KEYBOARD_CMD_SETRATE :: Hubyte where "KEYBOARD_CMD_SETRATE = 0xF3"

definition KEYBOARD_CMD_SETLED :: Hubyte where "KEYBOARD_CMD_SETLED = 0xED"

definition KEYBOARD_LED_SCROLL :: Hubyte where "KEYBOARD_LED_SCROLL = 0x01"

definition KEYBOARD_LED_NUM :: Hubyte where "KEYBOARD_LED_NUM = 0x02"

definition KEYBOARD_LED_CAPS :: Hubyte where "KEYBOARD_LED_CAPS = 0x04"

section \<open>The keyboard (keyboard.c)\<close>

record keyboard =
  shift :: bool
  ctrl :: bool
  alt :: bool
  caps :: bool
  scroll :: bool
  numlock :: bool
  leds :: Hubyte
  rate :: Hubyte
  delay :: Hubyte
  queued :: Hubyte
  data :: "Hubyte list"
  ps2_port :: "ps2 option"

type_synonym 'd kbd = "keyboard \<times> 'd"

text \<open>The port of a keyboard is a pointer; the null pointer, \<open>None\<close>, gives no result.\<close>

definition kb_send :: "'d port \<Rightarrow> keyboard \<Rightarrow> Hubyte \<Rightarrow> 'd \<Rightarrow> 'd option" where
  "kb_send D kb v d = do { p \<leftarrow> ps2_port kb; ps2_sendbyte D p v d }"

definition kb_recv :: "'d port \<Rightarrow> keyboard \<Rightarrow> 'd \<Rightarrow> (Hubyte \<times> 'd) option" where
  "kb_recv D kb d = do { p \<leftarrow> ps2_port kb; ps2_recvbyte D p d }"

text \<open>A command byte and an argument, each followed by a byte from the keyboard that is ignored.\<close>

definition command :: "'d port \<Rightarrow> Hubyte \<Rightarrow> Hubyte \<Rightarrow> 'd kbd \<Rightarrow> 'd kbd option" where
  "command D cmd arg = (\<lambda>(kb, d).
     do { d \<leftarrow> kb_send D kb cmd d;
          (_, d) \<leftarrow> kb_recv D kb d;
          d \<leftarrow> kb_send D kb arg d;
          (_, d) \<leftarrow> kb_recv D kb d;
          Some (kb, d) })"

definition keyboard_enablecaps :: "'d port \<Rightarrow> 'd kbd \<Rightarrow> 'd kbd option" where
  "keyboard_enablecaps D = (\<lambda>(kb, d). let kb = kb\<lparr>caps := True, leds := leds kb OR KEYBOARD_LED_CAPS\<rparr>
     in command D KEYBOARD_CMD_SETLED (leds kb) (kb, d))"

definition keyboard_disablecaps :: "'d port \<Rightarrow> 'd kbd \<Rightarrow> 'd kbd option" where
  "keyboard_disablecaps D = (\<lambda>(kb, d). let kb = kb\<lparr>caps := False, leds := leds kb AND NOT KEYBOARD_LED_CAPS\<rparr>
     in command D KEYBOARD_CMD_SETLED (leds kb) (kb, d))"

definition keyboard_togglecaps :: "'d port \<Rightarrow> 'd kbd \<Rightarrow> 'd kbd option" where
  "keyboard_togglecaps D s =
     (if leds (fst s) AND KEYBOARD_LED_CAPS \<noteq> 0 then keyboard_disablecaps D s else keyboard_enablecaps D s)"

definition keyboard_enablenum :: "'d port \<Rightarrow> 'd kbd \<Rightarrow> 'd kbd option" where
  "keyboard_enablenum D = (\<lambda>(kb, d). let kb = kb\<lparr>numlock := True, leds := leds kb OR KEYBOARD_LED_NUM\<rparr>
     in command D KEYBOARD_CMD_SETLED (leds kb) (kb, d))"

definition keyboard_disablenum :: "'d port \<Rightarrow> 'd kbd \<Rightarrow> 'd kbd option" where
  "keyboard_disablenum D = (\<lambda>(kb, d). let kb = kb\<lparr>numlock := False, leds := leds kb AND NOT KEYBOARD_LED_NUM\<rparr>
     in command D KEYBOARD_CMD_SETLED (leds kb) (kb, d))"

definition keyboard_togglenum :: "'d port \<Rightarrow> 'd kbd \<Rightarrow> 'd kbd option" where
  "keyboard_togglenum D s =
     (if leds (fst s) AND KEYBOARD_LED_NUM \<noteq> 0 then keyboard_disablenum D s else keyboard_enablenum D s)"

definition keyboard_enablescroll :: "'d port \<Rightarrow> 'd kbd \<Rightarrow> 'd kbd option" where
  "keyboard_enablescroll D = (\<lambda>(kb, d). let kb = kb\<lparr>scroll := True, leds := leds kb OR KEYBOARD_LED_SCROLL\<rparr>
     in command D KEYBOARD_CMD_SETLED (leds kb) (kb, d))"

definition keyboard_disablescroll :: "'d port \<Rightarrow> 'd kbd \<Rightarrow> 'd kbd option" where
  "keyboard_disablescroll D = (\<lambda>(kb, d). let kb = kb\<lparr>scroll := False, leds := leds kb AND NOT KEYBOARD_LED_SCROLL\<rparr>
     in command D KEYBOARD_CMD_SETLED (leds kb) (kb, d))"

definition keyboard_togglescroll :: "'d port \<Rightarrow> 'd kbd \<Rightarrow> 'd kbd option" where
  "keyboard_togglescroll D s =
     (if leds (fst s) AND KEYBOARD_LED_SCROLL \<noteq> 0 then keyboard_disablescroll D s else keyboard_enablescroll D s)"

definition keyboard_setdelay :: "'d port \<Rightarrow> Hubyte \<Rightarrow> 'd kbd \<Rightarrow> 'd kbd option" where
  "keyboard_setdelay D v = (\<lambda>(kb, d). let kb = kb\<lparr>delay := v\<rparr>
     in command D KEYBOARD_CMD_SETRATE (delay kb OR rate kb) (kb, d))"

definition keyboard_getdelay :: "keyboard \<Rightarrow> Hubyte" where "keyboard_getdelay kb = delay kb"

definition keyboard_setrate :: "'d port \<Rightarrow> Hubyte \<Rightarrow> 'd kbd \<Rightarrow> 'd kbd option" where
  "keyboard_setrate D v = (\<lambda>(kb, d). let kb = kb\<lparr>rate := v\<rparr> in command D 0xF3 (delay kb OR rate kb) (kb, d))"

definition keyboard_getrate :: "keyboard \<Rightarrow> Hubyte" where "keyboard_getrate kb = rate kb"

definition keyboard_disable :: "'d port \<Rightarrow> 'd kbd \<Rightarrow> 'd kbd option" where
  "keyboard_disable D = (\<lambda>(kb, d).
     do { d \<leftarrow> kb_send D kb KEYBOARD_CMD_DISABLE d;
          (_, d) \<leftarrow> kb_recv D kb d; Some (kb, d) })"

definition keyboard_enable :: "'d port \<Rightarrow> 'd kbd \<Rightarrow> 'd kbd option" where
  "keyboard_enable D = (\<lambda>(kb, d).
     do { d \<leftarrow> kb_send D kb KEYBOARD_CMD_ENABLE d;
          (_, d) \<leftarrow> kb_recv D kb d; Some (kb, d) })"

definition keyboard_reset :: "'d port \<Rightarrow> 'd kbd \<Rightarrow> (Hint \<times> 'd kbd) option" where
  "keyboard_reset D = (\<lambda>(kb, d).
     do { d \<leftarrow> kb_send D kb KEYBOARD_CMD_RESET d;
          (ack, d) \<leftarrow> kb_recv D kb d;
          if ack \<noteq> 0xFA then Some (FAILURE, kb, d)
          else do { (ack, d) \<leftarrow> kb_recv D kb d;
                    if ack \<noteq> 0xAA then Some (FAILURE, kb, d) else Some (SUCCESS, kb, d) } })"

definition keyboard_create :: "'d port \<Rightarrow> keyboard \<Rightarrow> ps2 \<Rightarrow> 'd \<Rightarrow> (Hint \<times> 'd kbd) option" where
  "keyboard_create D kb p d =
     do { let kb = kb\<lparr>ps2_port := Some p, leds := 0, shift := False, ctrl := False, alt := False, caps := False,
            numlock := False, scroll := False, queued := 0\<rparr>;
          (_, s) \<leftarrow> keyboard_reset D (kb, d);
          s \<leftarrow> keyboard_enablenum D s;
          Some (SUCCESS, s) }"

definition keyboard_destroy :: "keyboard \<Rightarrow> Hint \<times> keyboard" where
  "keyboard_destroy kb = (SUCCESS, kb\<lparr>ps2_port := None, shift := False, ctrl := False, alt := False\<rparr>)"

definition keyboard_getkey :: "'d port \<Rightarrow> 'd kbd \<Rightarrow> (Huint \<times> 'd kbd) option" where
  "keyboard_getkey D = (\<lambda>(kb, d). do { (key, d) \<leftarrow> kb_recv D kb d; Some (ucast key, kb, d) })"

definition keyboard_getcode :: "'d port \<Rightarrow> 'd kbd \<Rightarrow> (Huint \<times> 'd kbd) option" where
  "keyboard_getcode D = (\<lambda>(kb, d).
     do { (key, d) \<leftarrow> kb_recv D kb d;
          (key, d) \<leftarrow> (if key = KEY_EXTEND \<or> key = KEY_RELEASE then kb_recv D kb d else Some (key, d));
          Some (ucast (keycode ! unat key), kb, d) })"

text \<open>The \<^verbatim>\<open>switch\<close> on a key without a character; \<open>up\<close> tells that it was released.\<close>

definition modifier :: "'d port \<Rightarrow> bool \<Rightarrow> Hubyte \<Rightarrow> 'd kbd \<Rightarrow> 'd kbd option" where
  "modifier D up key = (\<lambda>(kb, d). let code = keycode ! unat key in
     if code = KEYCODE_SHIFT then Some (kb\<lparr>shift := \<not> up\<rparr>, d)
     else if code = KEYCODE_CTRL then Some (kb\<lparr>ctrl := \<not> up\<rparr>, d)
     else if code = KEYCODE_ALT then Some (kb\<lparr>alt := \<not> up\<rparr>, d)
     else if code = KEYCODE_NUMLOCK then
       (let kb = kb\<lparr>scroll := \<not> up\<rparr> in if \<not> up then keyboard_togglenum D (kb, d) else Some (kb, d))
     else if code = KEYCODE_SCROLL then (if \<not> up then keyboard_togglescroll D (kb, d) else Some (kb, d))
     else if code = KEYCODE_CAPS then (if \<not> up then keyboard_togglecaps D (kb, d) else Some (kb, d))
     else Some (kb, d))"

text \<open>The loop that skips everything without a character, with the last byte received.\<close>

partial_function (option) skip_keys :: "'d port \<Rightarrow> Hubyte \<Rightarrow> keyboard \<Rightarrow> 'd \<Rightarrow> (Hubyte \<times> 'd kbd) option" where
  "skip_keys D key kb d =
     (if ascii ! unat key \<noteq> 0 then Some (key, kb, d)
      else do { (key', d) \<leftarrow> (if key = KEY_RELEASE then kb_recv D kb d else Some (key, d));
                (kb, d) \<leftarrow> modifier D (key = KEY_RELEASE) key' (kb, d);
                (key', d) \<leftarrow> kb_recv D kb d;
                skip_keys D key' kb d })"

text \<open>
  The queue holds three bytes; a greater count or a table index from 256 on would be an
  access outside of an array, \<open>None\<close>.
\<close>

definition keyboard_getascii :: "'d port \<Rightarrow> 'd kbd \<Rightarrow> (Hubyte \<times> 'd kbd) option" where
  "keyboard_getascii D = (\<lambda>(kb, d).
     if 0 < queued kb then
       (if 3 < queued kb then None else Some (data kb ! 0, kb\<lparr>data := fold (\<lambda>i xs. xs[i - 1 := xs ! i]) [1..<unat (queued kb)] (data kb),
         queued := queued kb - 1\<rparr>, d))
     else do { (key, d) \<leftarrow> kb_recv D kb d;
               (key, kb, d) \<leftarrow> skip_keys D key kb d;
               let kb = (if keycode ! unat key = KEYCODE_ENTER
                         then kb\<lparr>data := (data kb)[unat (queued kb) := 0x0A], queued := queued kb + 1\<rparr>
                         else if keycode ! unat key = KEYCODE_BS
                         then kb\<lparr>data := (data kb)[unat (queued kb) := 0x20, unat (queued kb) + 1 := 0x08], queued := queued kb + 2\<rparr>
                         else kb);
               if shift kb \<or> caps kb
               then (if unat key + 128 < 256 then Some (ascii ! (unat key + 128), kb, d) else None)
               else Some (ascii ! unat key, kb, d) })"

text \<open>A destroyed keyboard has no port any more: using it follows a null pointer.\<close>

lemma destroyed_keyboard: "keyboard_getkey D (snd (keyboard_destroy kb), d) = None"
  by (simp add: keyboard_destroy_def keyboard_getkey_def kb_recv_def)

section \<open>A keyboard on the port\<close>

text \<open>
  \<open>inp d\<close> are the bytes that have arrived and were not read yet; \<open>wait d\<close> bounds how long the port
  still takes to show a byte or to accept one. The keyboard acknowledges every byte it is
  sent, except for the reset command, after what it has sent before.
\<close>

definition port_ok :: "'d port \<Rightarrow> ps2 \<Rightarrow> ('d \<Rightarrow> Hubyte list) \<Rightarrow> ('d \<Rightarrow> nat) \<Rightarrow> bool" where
  "port_ok D p inp wait \<longleftrightarrow>
     (\<forall>d. case rd8 D (status_reg p) d of (v, d') \<Rightarrow> inp d' = inp d \<and> (bit v 0 \<longrightarrow> inp d \<noteq> []) \<and>
        (inp d \<noteq> [] \<and> \<not> bit v 0 \<longrightarrow> wait d' < wait d) \<and> (bit v 1 \<longrightarrow> wait d' < wait d)) \<and>
     (\<forall>d b bs. inp d = b # bs \<longrightarrow> (case rd8 D (recv_reg p) d of (v, d') \<Rightarrow> v = b \<and> inp d' = bs)) \<and>
     (\<forall>d v. v \<noteq> 0xFF \<longrightarrow> inp (wr8 D (send_reg p) v d) = inp d @ [0xFA])"

lemma status_bits: "(v :: Hubyte) AND 0x01 = 0 \<longleftrightarrow> \<not> bit v 0" "v AND 0x02 = 0 \<longleftrightarrow> \<not> bit v 1"
  using and_exp_eq_0_iff_not_bit [of v 0] and_exp_eq_0_iff_not_bit [of v 1] by simp_all

lemma port_status:
  assumes "port_ok D p inp wait" "rd8 D (status_reg p) d = (v, d')"
  shows "inp d' = inp d" "bit v 0 \<Longrightarrow> inp d \<noteq> []" "inp d \<noteq> [] \<Longrightarrow> \<not> bit v 0 \<Longrightarrow> wait d' < wait d" "bit v 1 \<Longrightarrow> wait d' < wait d"
  using assms unfolding port_ok_def by (auto dest!: spec [of _ d])

lemma recvbyte_ok:
  assumes ok: "port_ok D p inp wait" and "inp d = b # bs"
  shows "\<exists>d'. ps2_recvbyte D p d = Some (b, d') \<and> inp d' = bs"
  using assms(2)
proof (induction "wait d" arbitrary: d rule: less_induct)
  case less
  obtain v d1 where v: "rd8 D (status_reg p) d = (v, d1)" by fastforce
  note st = port_status [OF ok v]
  show ?case
  proof (cases "bit v 0")
    case True
    have "inp d1 = b # bs" using st(1) less.prems by simp
    then have "case rd8 D (recv_reg p) d1 of (w, d') \<Rightarrow> w = b \<and> inp d' = bs" using ok by (simp add: port_ok_def)
    then show ?thesis using True v
      by (subst ps2_recvbyte.simps) (auto simp: ps2_recvempty_def status_bits split: prod.splits)
  next
    case False
    then have "\<exists>d'. ps2_recvbyte D p d1 = Some (b, d') \<and> inp d' = bs" using less st(1,3) by simp
    then show ?thesis using False v by (subst ps2_recvbyte.simps) (simp add: ps2_recvempty_def status_bits)
  qed
qed

lemma sendbyte_ok:
  assumes ok: "port_ok D p inp wait" and "w \<noteq> 0xFF"
  shows "\<exists>d'. ps2_sendbyte D p w d = Some d' \<and> inp d' = inp d @ [0xFA]"
proof (induction "wait d" arbitrary: d rule: less_induct)
  case less
  obtain v d1 where v: "rd8 D (status_reg p) d = (v, d1)" by fastforce
  note st = port_status [OF ok v]
  show ?case
  proof (cases "bit v 1")
    case True
    then have "\<exists>d'. ps2_sendbyte D p w d1 = Some d' \<and> inp d' = inp d @ [0xFA]" using less st(1,4) by metis
    then show ?thesis using True v by (subst ps2_sendbyte.simps) (simp add: ps2_sendfull_def status_bits)
  next
    case False
    have "inp (wr8 D (send_reg p) w d1) = inp d @ [0xFA]" using ok assms(2) st(1) by (simp add: port_ok_def)
    then show ?thesis using False v by (subst ps2_sendbyte.simps) (simp add: ps2_sendfull_def status_bits)
  qed
qed

section \<open>Key events\<close>

datatype key_event = Press Hubyte | Release Hubyte

fun event_bytes :: "key_event \<Rightarrow> Hubyte list" where
  "event_bytes (Press k) = [k]"
| "event_bytes (Release k) = [KEY_RELEASE, k]"

text \<open>Keys that give no character and switch no light when pressed.\<close>

fun silent :: "key_event \<Rightarrow> bool" where
  "silent (Press k) = (ascii ! unat k = 0 \<and> k \<noteq> KEY_RELEASE \<and>
     keycode ! unat k \<notin> {KEYCODE_NUMLOCK, KEYCODE_SCROLL, KEYCODE_CAPS})"
| "silent (Release k) = True"

fun shift_after :: "key_event \<Rightarrow> bool \<Rightarrow> bool" where
  "shift_after (Press k) b = (if keycode ! unat k = KEYCODE_SHIFT then True else b)"
| "shift_after (Release k) b = (if keycode ! unat k = KEYCODE_SHIFT then False else b)"

lemma release_silent: "ascii ! unat KEY_RELEASE = 0"
  by (simp add: ascii_def KEY_RELEASE_def)

lemma kb_recv_ok:
  assumes "port_ok D p inp wait" "ps2_port kb = Some p" "inp d = b # bs"
  shows "\<exists>d'. kb_recv D kb d = Some (b, d') \<and> inp d' = bs"
  using recvbyte_ok [OF assms(1,3)] assms(2) by (simp add: kb_recv_def)

lemma kb_recv_port: "ps2_port kb' = ps2_port kb \<Longrightarrow> kb_recv D kb' = kb_recv D kb"
  by (simp add: kb_recv_def fun_eq_iff)

lemma kb_send_ok:
  assumes "port_ok D p inp wait" "ps2_port kb = Some p" "w \<noteq> 0xFF"
  shows "\<exists>d'. kb_send D kb w d = Some d' \<and> inp d' = inp d @ [0xFA]"
  using sendbyte_ok [OF assms(1,3)] assms(2) by (simp add: kb_send_def)

lemma modifier_silent:
  assumes "silent (if up then Release k else Press k)"
  shows "\<exists>kb'. modifier D up k (kb, d) = Some (kb', d) \<and> shift kb' = shift_after (if up then Release k else Press k) (shift kb) \<and>
    caps kb' = caps kb \<and> queued kb' = queued kb \<and> ps2_port kb' = ps2_port kb \<and> data kb' = data kb"
  using assms by (cases up) (auto simp: modifier_def Let_def)

text \<open>One silent event, read from its first byte on.\<close>

lemma skip_event:
  assumes ok: "port_ok D p inp wait" "ps2_port kb = Some p" and "silent ev"
    and first: "event_bytes ev = b # bs" "inp d = bs @ c # cs"
  obtains kb' d' where "skip_keys D b kb d = skip_keys D c kb' d'" "inp d' = cs" "shift kb' = shift_after ev (shift kb)"
    "caps kb' = caps kb" "queued kb' = queued kb" "ps2_port kb' = ps2_port kb" "data kb' = data kb"
proof (cases ev)
  case (Press k)
  then have k: "b = k" "bs = []" "ascii ! unat k = 0" "k \<noteq> KEY_RELEASE" using assms(3) first(1) by auto
  obtain kb' where kb': "modifier D False k (kb, d) = Some (kb', d)" "shift kb' = shift_after ev (shift kb)"
    "caps kb' = caps kb" "queued kb' = queued kb" "ps2_port kb' = ps2_port kb" "data kb' = data kb"
    using modifier_silent [of False k D kb d] assms(3) Press by auto
  obtain d' where d': "kb_recv D kb d = Some (c, d')" "inp d' = cs"
    using kb_recv_ok [OF ok(1,2), of d c cs] first(2) k(2) by auto
  have "skip_keys D b kb d = skip_keys D c kb' d'"
    using k kb'(1) d'(1) kb_recv_port [OF kb'(5), of D] by (subst skip_keys.simps) simp
  then show ?thesis using that kb' d'(2) by blast
next
  case (Release k)
  then have k: "b = KEY_RELEASE" "bs = [k]" using first(1) by auto
  obtain d1 where d1: "kb_recv D kb d = Some (k, d1)" "inp d1 = c # cs"
    using kb_recv_ok [OF ok(1,2), of d k "c # cs"] first(2) k(2) by auto
  obtain kb' where kb': "modifier D True k (kb, d1) = Some (kb', d1)" "shift kb' = shift_after ev (shift kb)"
    "caps kb' = caps kb" "queued kb' = queued kb" "ps2_port kb' = ps2_port kb" "data kb' = data kb"
    using modifier_silent [of True k D kb d1] assms(3) Release by auto
  obtain d' where d': "kb_recv D kb d1 = Some (c, d')" "inp d' = cs"
    using kb_recv_ok [OF ok(1,2) d1(2)] by auto
  have "skip_keys D b kb d = skip_keys D c kb' d'"
    using k kb'(1) d1(1) d'(1) kb_recv_port [OF kb'(5), of D] release_silent by (subst skip_keys.simps) simp
  then show ?thesis using that kb' d'(2) by blast
qed

lemma skip_events:
  assumes "port_ok D p inp wait" "list_all silent evs" "ascii ! unat key \<noteq> 0"
    and "concat (map event_bytes evs) @ [key] = b # bs" "inp d = bs @ rest" "ps2_port kb = Some p"
  shows "\<exists>kb' d'. skip_keys D b kb d = Some (key, kb', d') \<and> inp d' = rest \<and>
    shift kb' = fold shift_after evs (shift kb) \<and> caps kb' = caps kb \<and> queued kb' = queued kb \<and>
    ps2_port kb' = ps2_port kb \<and> data kb' = data kb"
  using assms
proof (induction evs arbitrary: b bs kb d)
  case Nil
  then show ?case by (subst skip_keys.simps) auto
next
  case (Cons ev evs)
  obtain c cs where c: "concat (map event_bytes evs) @ [key] = c # cs" by (cases "concat (map event_bytes evs) @ [key]") auto
  obtain b' bs' where ev: "event_bytes ev = b' # bs'" by (cases ev) auto
  have b: "b' = b" "inp d = bs' @ c # (cs @ rest)" using Cons.prems(4,5) ev c by auto
  obtain kb' d' where s: "skip_keys D b kb d = skip_keys D c kb' d'" "inp d' = cs @ rest" "shift kb' = shift_after ev (shift kb)"
    "caps kb' = caps kb" "queued kb' = queued kb" "ps2_port kb' = ps2_port kb" "data kb' = data kb"
    using skip_event [OF Cons.prems(1,6) _ ev [unfolded b(1)] b(2)] Cons.prems(2) by auto
  have "ps2_port kb' = Some p" using Cons.prems(6) s(6) by simp
  from Cons.IH [OF Cons.prems(1) _ Cons.prems(3) c s(2) this] Cons.prems(2) show ?case using s by auto
qed

text \<open>The characters that are still to be delivered for a key, and what a key leaves behind.\<close>

definition pending :: "keyboard \<Rightarrow> Hubyte list" where
  "pending kb = take (unat (queued kb)) (data kb)"

definition leaves :: "Hubyte \<Rightarrow> Hubyte list" where
  "leaves key = (if keycode ! unat key = KEYCODE_ENTER then [0x0A]
     else if keycode ! unat key = KEYCODE_BS then [0x20, 0x08] else [])"

lemma getascii_pending:
  assumes "length (data kb) = 3" "queued kb \<le> 3" "pending kb = c # cs"
  shows "\<exists>kb'. keyboard_getascii D (kb, d) = Some (c, kb', d) \<and> pending kb' = cs"
proof -
  obtain x y z where xyz: "data kb = [x, y, z]" using assms(1) by (auto simp: numeral_3_eq_3 length_Suc_conv)
  have "unat (queued kb) \<le> 3" using assms(2) by (simp add: word_le_nat_alt)
  moreover have "unat (queued kb) \<noteq> 0" using assms(3) by (cases "unat (queued kb)") (simp_all add: pending_def)
  ultimately consider "unat (queued kb) = 1" | "unat (queued kb) = 2" | "unat (queued kb) = 3" by linarith
  then consider "queued kb = 1" | "queued kb = 2" | "queued kb = 3" by cases (simp_all add: word_unat_eq_iff)
  then show ?thesis
    using assms(3) xyz by cases (auto simp: keyboard_getascii_def pending_def upt_rec)
qed

lemma getascii_key:
  assumes "port_ok D p inp wait" "ps2_port kb = Some p" "pending kb = []" "length (data kb) = 3" "list_all silent evs"
    and key: "ascii ! unat key \<noteq> 0" "key < 0x80"
    and "inp d = concat (map event_bytes evs) @ [key] @ rest"
  shows "\<exists>kb' d'. keyboard_getascii D (kb, d) =
      Some (ascii ! (unat key + (if fold shift_after evs (shift kb) \<or> caps kb then 128 else 0)), kb', d') \<and>
    inp d' = rest \<and> shift kb' = fold shift_after evs (shift kb) \<and> caps kb' = caps kb \<and>
    pending kb' = leaves key \<and> ps2_port kb' = ps2_port kb"
proof -
  obtain b bs where b: "concat (map event_bytes evs) @ [key] = b # bs" by (cases "concat (map event_bytes evs) @ [key]") auto
  then have "inp d = b # bs @ rest" using assms(8) by (metis append_Cons append_assoc)
  with kb_recv_ok [OF assms(1,2)] obtain d1 where d1: "kb_recv D kb d = Some (b, d1)" "inp d1 = bs @ rest" by blast
  obtain kb' d' where s: "skip_keys D b kb d1 = Some (key, kb', d')" "inp d' = rest"
    "shift kb' = fold shift_after evs (shift kb)" "caps kb' = caps kb" "queued kb' = queued kb" "ps2_port kb' = ps2_port kb"
    "data kb' = data kb"
    using skip_events [OF assms(1,5) key(1) b d1(2) assms(2)] by blast
  obtain x y z where xyz: "data kb = [x, y, z]" using assms(4) by (auto simp: numeral_3_eq_3 length_Suc_conv)
  then have q: "queued kb = 0" using assms(3) by (auto simp: pending_def unat_eq_0)
  have "unat key + 128 < 256" using key(2) by (simp add: word_less_nat_alt)
  then show ?thesis
    using q d1(1) s xyz by (auto simp: keyboard_getascii_def pending_def leaves_def)
qed

text \<open>
  C34: Reading a character from the keyboard. With a character left over from an earlier key, that one
  is returned and nothing is read. Otherwise, after any sequence of events in which keys without a
  character other than caps lock, num lock and scroll lock are pressed (shift, other modifiers, function keys) and
  any keys are released, the next key with a character gives the character printed on it, the
  upper one exactly when shift was left pressed or caps lock is on; nothing behind it is consumed.
  Enter leaves a line feed to be returned next, backspace a blank and another backspace, other keys nothing. The
  lock keys are excluded because switching their lights loses input (lemma \<open>command_eats_input\<close>).
\<close>

theorem getascii_reads_key:
  assumes "port_ok D p inp wait" "ps2_port kb = Some p" "length (data kb) = 3" "queued kb \<le> 3"
  shows "(\<forall>c cs. pending kb = c # cs \<longrightarrow>
      (\<exists>kb'. keyboard_getascii D (kb, d) = Some (c, kb', d) \<and> pending kb' = cs)) \<and>
    (pending kb = [] \<and> list_all silent evs \<and> ascii ! unat key \<noteq> 0 \<and> key < 0x80 \<and>
       inp d = concat (map event_bytes evs) @ [key] @ rest \<longrightarrow>
     (\<exists>kb' d'. keyboard_getascii D (kb, d) =
        Some (ascii ! (unat key + (if fold shift_after evs (shift kb) \<or> caps kb then 128 else 0)), kb', d') \<and>
      inp d' = rest \<and> shift kb' = fold shift_after evs (shift kb) \<and> caps kb' = caps kb \<and>
      pending kb' = leaves key \<and> ps2_port kb' = ps2_port kb))"
proof (intro conjI allI impI)
  fix c cs assume "pending kb = c # cs"
  then show "\<exists>kb'. keyboard_getascii D (kb, d) = Some (c, kb', d) \<and> pending kb' = cs"
    by (rule getascii_pending [OF assms(3,4)])
qed (elim conjE, rule getascii_key [OF assms(1,2) _ assms(3)])

text \<open>A port with an empty transmitter that hands out the bytes of a list.\<close>

definition example_port :: "Hubyte list port" where
  "example_port = \<lparr>rd8 = (\<lambda>a q. if a = 0x04 then (if q = [] then 0 else 1, q) else if a = 0x08 then (hd q, tl q) else (0, q)),
     wr8 = (\<lambda>a v q. if a = 0x0C then q @ [0xFA] else q)\<rparr>"

lemma example_port_ok: "ps2_create example_port 0 q = (SUCCESS, p, q') \<Longrightarrow> port_ok example_port p (\<lambda>q. q) (\<lambda>_. 0)"
  by (auto simp: ps2_create_def Let_def port_ok_def example_port_def)

definition example_keyboard :: keyboard where
  "example_keyboard = \<lparr>shift = False, ctrl = False, alt = False, caps = False, scroll = False, numlock = False, leds = 0,
     rate = 0, delay = 0, queued = 0, data = [0, 0, 0], ps2_port = Some (fst (snd (ps2_create example_port 0 [])))\<rparr>"

theorem getascii_reads_key_witness:
  "\<exists>kb d. keyboard_getascii example_port (example_keyboard, [0x12, 0xF0, 0x2A, 0x1C, 0xF0, 0x1C]) = Some (0x41, kb, d) \<and> d = [0xF0, 0x1C]"
proof -
  obtain p where p: "ps2_create example_port 0 [] = (SUCCESS, p, [])"
    by (simp add: ps2_create_def Let_def ps2_reset_def example_port_def)
  then have ok: "port_ok example_port p (\<lambda>q. q) (\<lambda>_. 0)" by (rule example_port_ok)
  have kb: "ps2_port example_keyboard = Some p" "length (data example_keyboard) = 3" "queued example_keyboard \<le> 3"
      "pending example_keyboard = []"
    using p by (simp_all add: example_keyboard_def pending_def)
  have t: "ascii ! 0x12 = 0" "keycode ! 0x12 = 0x12" "keycode ! 0x2A = 0x2A" "ascii ! 0x1C = 0x61" "ascii ! 0x9C = 0x41" "keycode ! 0x1C = 0x1C"
    by (simp_all add: ascii_def keycode_def)
  note k = KEY_RELEASE_def KEYCODE_SHIFT_def KEYCODE_NUMLOCK_def KEYCODE_SCROLL_def KEYCODE_CAPS_def KEYCODE_ENTER_def KEYCODE_BS_def
  let ?evs = "[Press 0x12, Release 0x2A]" and ?d = "[0x12, 0xF0, 0x2A, 0x1C, 0xF0, 0x1C] :: Hubyte list"
  have pre: "pending example_keyboard = [] \<and> list_all silent ?evs \<and> ascii ! unat (0x1C :: Hubyte) \<noteq> 0 \<and> (0x1C :: Hubyte) < 0x80 \<and>
      ?d = concat (map event_bytes ?evs) @ [0x1C] @ [0xF0, 0x1C]"
    using t kb(4) by (simp add: k)
  from getascii_reads_key [OF ok kb(1-3), of ?d ?evs "0x1C" "[0xF0, 0x1C]", THEN conjunct2, THEN mp, OF pre]
  show ?thesis using t by (auto simp: k)
qed

section \<open>Lights\<close>

text \<open>
  Setting the lights throws away the next two bytes, whatever they are: with bytes of key events
  waiting, the events are lost and the acknowledgements stay behind as input.
\<close>

lemma command_eats_input:
  assumes "port_ok D p inp wait" "ps2_port kb = Some p" "cmd \<noteq> 0xFF" "arg \<noteq> 0xFF"
  shows "\<exists>d'. command D cmd arg (kb, d) = Some (kb, d') \<and> inp d' = drop 2 (inp d @ [0xFA, 0xFA])"
proof -
  obtain d1 where d1: "kb_send D kb cmd d = Some d1" "inp d1 = inp d @ [0xFA]"
    using kb_send_ok [OF assms(1,2,3)] by blast
  obtain x xs where x: "inp d1 = x # xs" using d1(2) by (metis append_is_Nil_conv neq_Nil_conv)
  obtain d2 where d2: "kb_recv D kb d1 = Some (x, d2)" "inp d2 = xs" using kb_recv_ok [OF assms(1,2) x] by blast
  obtain d3 where d3: "kb_send D kb arg d2 = Some d3" "inp d3 = xs @ [0xFA]"
    using kb_send_ok [OF assms(1,2,4), of d2] d2(2) by auto
  obtain y ys where y: "inp d3 = y # ys" using d3(2) by (metis append_is_Nil_conv neq_Nil_conv)
  obtain d4 where d4: "kb_recv D kb d3 = Some (y, d4)" "inp d4 = ys" using kb_recv_ok [OF assms(1,2) y] by blast
  have "inp d @ [0xFA, 0xFA] = x # y # ys" using d1(2) x d3(2) y by (metis append.assoc append_Cons append_Nil)
  then show ?thesis using d1(1) d2(1) d3(1) d4 by (simp add: command_def)
qed

end
