(* ===== verification/Console.thy ===== *)
theory Console
  imports Block_Device
begin

text \<open>
  The console: the driver of the serial port (\<^verbatim>\<open>drivers/uartlite/uartlite.c\<close>) and the part of
  the C library on top of it (\<^verbatim>\<open>read.c\<close>, \<^verbatim>\<open>write.c\<close>, \<^verbatim>\<open>recv_byte.c\<close>, \<^verbatim>\<open>send_byte.c\<close>, \<^verbatim>\<open>stdio.c\<close>,
  \<^verbatim>\<open>fcntl.c\<close>, \<^verbatim>\<open>sbrk.c\<close> and the calls without an implementation under \<^verbatim>\<open>src/software/lib\<close>). The
  serial port is the parameter \<open>B\<close>, two functions on the device's state \<open>'d\<close>; \<open>uart_ok\<close> states
  what the driver relies on. \<open>None\<close> stands for waiting forever and for an access outside of a
  buffer.
\<close>

section \<open>The serial port (uartlite.c)\<close>

record uartlite =
  ustatus :: Huint
  ucontrol :: Huint
  usend :: Huint
  urecv :: Huint

definition UARTLITE_STATUS_TXFULL :: Huint where "UARTLITE_STATUS_TXFULL = 0x00000008"

definition UARTLITE_STATUS_RXVALID :: Huint where "UARTLITE_STATUS_RXVALID = 0x00000001"

definition UARTLITE_CONTROL_INTR :: Huint where "UARTLITE_CONTROL_INTR = 0x00000010"

definition uartlite_create :: "Huint \<Rightarrow> Hint \<times> uartlite" where
  "uartlite_create base = (SUCCESS, \<lparr>ustatus = base + 0x8, ucontrol = base + 0xC, usend = base + 0x4, urecv = base + 0x0\<rparr>)"

definition uartlite_destroy :: "uartlite \<Rightarrow> Hint \<times> uartlite" where
  "uartlite_destroy u = (SUCCESS, \<lparr>ustatus = 0, ucontrol = 0, usend = 0, urecv = 0\<rparr>)"

definition uartlite_enable :: "'d reg_bus \<Rightarrow> uartlite \<Rightarrow> 'd \<Rightarrow> Hint \<times> 'd" where
  "uartlite_enable B u d = (let (v, d) = rd32 B (ucontrol u) d in (SUCCESS, wr32 B (ucontrol u) (v OR UARTLITE_CONTROL_INTR) d))"

definition uartlite_disable :: "'d reg_bus \<Rightarrow> uartlite \<Rightarrow> 'd \<Rightarrow> Hint \<times> 'd" where
  "uartlite_disable B u d = (let (v, d) = rd32 B (ucontrol u) d in (SUCCESS, wr32 B (ucontrol u) (v AND NOT UARTLITE_CONTROL_INTR) d))"

definition uartlite_cansend :: "'d reg_bus \<Rightarrow> uartlite \<Rightarrow> 'd \<Rightarrow> bool \<times> 'd" where
  "uartlite_cansend B u d = (let (v, d) = rd32 B (ustatus u) d in (v AND UARTLITE_STATUS_TXFULL \<noteq> UARTLITE_STATUS_TXFULL, d))"

definition uartlite_canrecv :: "'d reg_bus \<Rightarrow> uartlite \<Rightarrow> 'd \<Rightarrow> bool \<times> 'd" where
  "uartlite_canrecv B u d = (let (v, d) = rd32 B (ustatus u) d in (v AND UARTLITE_STATUS_RXVALID = UARTLITE_STATUS_RXVALID, d))"

text \<open>The two polling loops, which the driver repeats in each function that transfers a byte.\<close>

partial_function (option) wait_recv :: "'d reg_bus \<Rightarrow> uartlite \<Rightarrow> 'd \<Rightarrow> 'd option" where
  "wait_recv B u d =
     (let (v, d) = rd32 B (ustatus u) d in
      if v AND UARTLITE_STATUS_RXVALID = UARTLITE_STATUS_RXVALID then Some d else wait_recv B u d)"

partial_function (option) wait_send :: "'d reg_bus \<Rightarrow> uartlite \<Rightarrow> 'd \<Rightarrow> 'd option" where
  "wait_send B u d =
     (let (v, d) = rd32 B (ustatus u) d in
      if v AND UARTLITE_STATUS_TXFULL = UARTLITE_STATUS_TXFULL then wait_send B u d else Some d)"

definition uartlite_recv :: "'d reg_bus \<Rightarrow> uartlite \<Rightarrow> 'd \<Rightarrow> (Hint \<times> Hubyte \<times> 'd) option" where
  "uartlite_recv B u d =
     do { d \<leftarrow> wait_recv B u d; let (v, d) = rd32 B (urecv u) d; Some (SUCCESS, ucast v, d) }"

definition uartlite_send :: "'d reg_bus \<Rightarrow> uartlite \<Rightarrow> Hubyte \<Rightarrow> 'd \<Rightarrow> (Hint \<times> 'd) option" where
  "uartlite_send B u b d = do { d \<leftarrow> wait_send B u d; Some (SUCCESS, wr32 B (usend u) (ucast b) d) }"

text \<open>A byte stored through a pointer to a buffer.\<close>

definition store_at :: "nat \<Rightarrow> Hubyte \<Rightarrow> Hubyte list \<Rightarrow> Hubyte list option" where
  "store_at i b buf = (if i < length buf then Some (buf[i := b]) else None)"

primrec uart_read_loop :: "nat \<Rightarrow> 'd reg_bus \<Rightarrow> uartlite \<Rightarrow> nat \<Rightarrow> Hubyte list \<Rightarrow> 'd \<Rightarrow> (Hubyte list \<times> 'd) option" where
  "uart_read_loop 0 B u i buf d = Some (buf, d)"
| "uart_read_loop (Suc n) B u i buf d =
     do { d \<leftarrow> wait_recv B u d;
          let (v, d) = rd32 B (urecv u) d;
          buf \<leftarrow> store_at i (ucast v) buf;
          uart_read_loop n B u (i + 1) buf d }"

definition uartlite_read :: "'d reg_bus \<Rightarrow> uartlite \<Rightarrow> Hubyte list \<Rightarrow> Huint \<Rightarrow> 'd \<Rightarrow> (Huint \<times> Hubyte list \<times> 'd) option" where
  "uartlite_read B u buf num d =
     do { (buf, d) \<leftarrow> uart_read_loop (unat num) B u 0 buf d; Some (num, buf, d) }"

primrec uart_write_loop :: "nat \<Rightarrow> 'd reg_bus \<Rightarrow> uartlite \<Rightarrow> nat \<Rightarrow> Hubyte list \<Rightarrow> 'd \<Rightarrow> 'd option" where
  "uart_write_loop 0 B u i buf d = Some d"
| "uart_write_loop (Suc n) B u i buf d =
     (if i < length buf
      then do { d \<leftarrow> wait_send B u d; uart_write_loop n B u (i + 1) buf (wr32 B (usend u) (ucast (buf ! i)) d) }
      else None)"

definition uartlite_write :: "'d reg_bus \<Rightarrow> uartlite \<Rightarrow> Hubyte list \<Rightarrow> Huint \<Rightarrow> 'd \<Rightarrow> (Huint \<times> 'd) option" where
  "uartlite_write B u buf num d = do { d \<leftarrow> uart_write_loop (unat num) B u 0 buf d; Some (num, d) }"

section \<open>Standard input and output (stdio.c, recv_byte.c, send_byte.c, fcntl.c)\<close>

text \<open>
  The variables of the library: the flags of the two streams, the error number of the running
  thread, the last byte written, the end of the heap and the serial port.
\<close>

record console =
  stdin_flags :: Hint
  stdout_flags :: Hint
  errno :: Hint
  last_char :: Hubyte
  heap :: Huint
  io_uart :: uartlite

type_synonym 'd con = "console \<times> 'd"

text \<open>\<^verbatim>\<open>O_NONBLOCK\<close> has the value of the C library the system is built with.\<close>

definition O_NONBLOCK :: Hint where "O_NONBLOCK = 0x4000"

definition stdio_init :: "Huint \<Rightarrow> console \<Rightarrow> console" where
  "stdio_init base c = c\<lparr>io_uart := snd (uartlite_create base), stdin_flags := 0, stdout_flags := 0\<rparr>"

definition can_recv :: "'d reg_bus \<Rightarrow> 'd con \<Rightarrow> bool \<times> 'd con" where
  "can_recv B = (\<lambda>(c, d). let (ok, d) = uartlite_canrecv B (io_uart c) d in (ok, c, d))"

text \<open>\<open>recv_byte\<close> always returns 0; without a byte it leaves the destination as it is, here \<open>None\<close>.\<close>

definition recv_byte :: "'d reg_bus \<Rightarrow> 'd con \<Rightarrow> (Hint \<times> Hubyte option \<times> 'd con) option" where
  "recv_byte B = (\<lambda>(c, d).
     if stdin_flags c AND O_NONBLOCK = O_NONBLOCK
     then (let (ok, d) = uartlite_canrecv B (io_uart c) d in
           if ok then do { (_, b, d) \<leftarrow> uartlite_recv B (io_uart c) d; Some (0, Some b, c, d) }
           else Some (0, None, c\<lparr>errno := EAGAIN\<rparr>, d))
     else do { (_, b, d) \<leftarrow> uartlite_recv B (io_uart c) d; Some (0, Some b, c, d) })"

definition send_byte :: "'d reg_bus \<Rightarrow> Hubyte \<Rightarrow> 'd con \<Rightarrow> 'd con option" where
  "send_byte B b = (\<lambda>(c, d). do { (_, d) \<leftarrow> uartlite_send B (io_uart c) b d; Some (c, d) })"

datatype fcntl_cmd = F_GETFL | F_SETFL Hint | F_OTHER

fun fcntl :: "Hint \<Rightarrow> fcntl_cmd \<Rightarrow> console \<Rightarrow> Hint \<times> console" where
  "fcntl fd F_GETFL c = (if fd = 0 then (stdin_flags c, c) else if fd = 1 then (stdout_flags c, c) else (-1, c\<lparr>errno := EINVAL\<rparr>))"
| "fcntl fd (F_SETFL v) c =
     (if fd = 0 then (0, c\<lparr>stdin_flags := v\<rparr>) else if fd = 1 then (0, c\<lparr>stdout_flags := v\<rparr>) else (-1, c\<lparr>errno := EINVAL\<rparr>))"
| "fcntl fd F_OTHER c = (-1, c\<lparr>errno := EINVAL\<rparr>)"

section \<open>read and write (read.c, write.c)\<close>

definition put_recv :: "nat \<Rightarrow> Hubyte option \<Rightarrow> Hubyte list \<Rightarrow> Hubyte list option" where
  "put_recv i b buf = (case b of Some v \<Rightarrow> store_at i v buf | None \<Rightarrow> if i < length buf then Some buf else None)"

definition ends_line :: "Hubyte \<Rightarrow> bool" where
  "ends_line b \<longleftrightarrow> b = 0x0A \<or> b = 0x0D \<or> b = 0x04 \<or> b = 0x1A"

primrec read_block_loop :: "nat \<Rightarrow> 'd reg_bus \<Rightarrow> nat \<Rightarrow> Hubyte list \<Rightarrow> 'd con \<Rightarrow> (Hint \<times> Hubyte list \<times> 'd con) option" where
  "read_block_loop 0 B i buf s = Some (of_nat i, buf, s)"
| "read_block_loop (Suc n) B i buf s =
     do { (err, b, s) \<leftarrow> recv_byte B s;
          buf \<leftarrow> put_recv i b buf;
          if err \<noteq> 0 then Some (err, buf, s)
          else if ends_line (buf ! i) then do { buf \<leftarrow> store_at (i + 1) 0 buf; Some (of_nat (i + 1), buf, s) }
          else read_block_loop n B (i + 1) buf s }"

definition read_block :: "'d reg_bus \<Rightarrow> Hubyte list \<Rightarrow> Huint \<Rightarrow> 'd con \<Rightarrow> (Hint \<times> Hubyte list \<times> 'd con) option" where
  "read_block B buf nbytes = read_block_loop (unat nbytes) B 0 buf"

definition no_data :: "nat \<Rightarrow> console \<Rightarrow> Hint \<times> console" where
  "no_data i c = (if i = 0 then (-1, c\<lparr>errno := EAGAIN\<rparr>) else (of_nat i, c))"

primrec read_nonblock_loop :: "nat \<Rightarrow> 'd reg_bus \<Rightarrow> nat \<Rightarrow> Hubyte list \<Rightarrow> 'd con \<Rightarrow> (Hint \<times> Hubyte list \<times> 'd con) option" where
  "read_nonblock_loop 0 B i buf s = (let (r, c) = no_data i (fst s) in Some (r, buf, c, snd s))"
| "read_nonblock_loop (Suc n) B i buf s =
     (let (ok, s) = can_recv B s in
      if \<not> ok then (let (r, c) = no_data i (fst s) in Some (r, buf, c, snd s))
      else do { (err, b, s) \<leftarrow> recv_byte B s;
                buf \<leftarrow> put_recv i b buf;
                if err \<noteq> 0 then Some (err, buf, s)
                else if ends_line (buf ! i)
                then do { buf \<leftarrow> store_at (i + 1) 0 buf;
                          let (r, c) = no_data (i + 1) (fst s);
                          Some (r, buf, c, snd s) }
                else read_nonblock_loop n B (i + 1) buf s })"

definition read_nonblock :: "'d reg_bus \<Rightarrow> Hubyte list \<Rightarrow> Huint \<Rightarrow> 'd con \<Rightarrow> (Hint \<times> Hubyte list \<times> 'd con) option" where
  "read_nonblock B buf nbytes = read_nonblock_loop (unat nbytes) B 0 buf"

definition lib_read :: "'d reg_bus \<Rightarrow> Hubyte list \<Rightarrow> Huint \<Rightarrow> 'd con \<Rightarrow> (Hint \<times> Hubyte list \<times> 'd con) option" where
  "lib_read B buf nbytes s =
     (if stdin_flags (fst s) AND O_NONBLOCK = O_NONBLOCK then read_nonblock B buf nbytes s else read_block B buf nbytes s)"

primrec put_loop :: "nat \<Rightarrow> 'd reg_bus \<Rightarrow> nat \<Rightarrow> Hubyte list \<Rightarrow> 'd con \<Rightarrow> 'd con option" where
  "put_loop 0 B i buf s = Some s"
| "put_loop (Suc n) B i buf s =
     (if i < length buf
      then do { s \<leftarrow> (if last_char (fst s) \<noteq> 0x0D \<and> buf ! i = 0x0A then send_byte B 0x0D s else Some s);
                let s = ((fst s)\<lparr>last_char := buf ! i\<rparr>, snd s);
                s \<leftarrow> send_byte B (last_char (fst s)) s;
                put_loop n B (i + 1) buf s }
      else None)"

definition lib_write :: "'d reg_bus \<Rightarrow> Hubyte list \<Rightarrow> Huint \<Rightarrow> 'd con \<Rightarrow> (Huint \<times> 'd con) option" where
  "lib_write B buf nbytes s = do { s \<leftarrow> put_loop (unat nbytes) B 0 buf s; Some (nbytes, s) }"

section \<open>The heap (sbrk.c)\<close>

text \<open>\<^verbatim>\<open>_heap_start\<close> and \<^verbatim>\<open>_heap_end\<close> come from the linker and are parameters.\<close>

definition sbrk :: "Huint \<Rightarrow> Huint \<Rightarrow> Hint \<Rightarrow> console \<Rightarrow> Huint \<times> console" where
  "sbrk heap_start heap_end incr c =
     (let c = (if heap c = 0 then c\<lparr>heap := heap_start\<rparr> else c); prev = heap c in
      if heap_end < heap c + incr then (-1, c\<lparr>errno := ENOMEM\<rparr>)
      else (prev, c\<lparr>heap := heap c + incr\<rparr>))"

section \<open>Calls without an implementation\<close>

definition lib_fail :: "Hint \<Rightarrow> console \<Rightarrow> Hint \<times> console" where
  "lib_fail e c = (-1, c\<lparr>errno := e\<rparr>)"

definition lib_close :: "console \<Rightarrow> Hint \<times> console" where "lib_close = lib_fail 9"

definition lib_execve :: "console \<Rightarrow> Hint \<times> console" where "lib_execve = lib_fail ENOMEM"

definition lib_fork :: "console \<Rightarrow> Hint \<times> console" where "lib_fork = lib_fail EAGAIN"

definition lib_kill :: "console \<Rightarrow> Hint \<times> console" where "lib_kill = lib_fail EINVAL"

definition lib_link :: "console \<Rightarrow> Hint \<times> console" where "lib_link = lib_fail 31"

definition lib_open :: "console \<Rightarrow> Hint \<times> console" where "lib_open = lib_fail 24"

definition lib_unlink :: "console \<Rightarrow> Hint \<times> console" where "lib_unlink = lib_fail 2"

definition lib_wait :: "console \<Rightarrow> Hint \<times> console" where "lib_wait = lib_fail 10"

section \<open>A serial line on the port\<close>

text \<open>
  \<open>inp d\<close> are the bytes that arrive and were not read yet, \<open>out d\<close> those that were sent; \<open>wait d\<close>
  bounds how long the port still takes to show a byte or to accept one. A byte that was
  shown stays until it is read.
\<close>

definition uart_ok :: "'d reg_bus \<Rightarrow> uartlite \<Rightarrow> ('d \<Rightarrow> Hubyte list) \<Rightarrow> ('d \<Rightarrow> Hubyte list) \<Rightarrow> ('d \<Rightarrow> nat) \<Rightarrow> bool" where
  "uart_ok B u inp out wait \<longleftrightarrow>
     (\<forall>d. case rd32 B (ustatus u) d of (v, d') \<Rightarrow> inp d' = inp d \<and> out d' = out d \<and>
        (bit v 0 \<longrightarrow> inp d \<noteq> [] \<and> bit (fst (rd32 B (ustatus u) d')) 0) \<and>
        (inp d \<noteq> [] \<and> \<not> bit v 0 \<longrightarrow> wait d' < wait d) \<and> (bit v 3 \<longrightarrow> wait d' < wait d)) \<and>
     (\<forall>d b bs. inp d = b # bs \<longrightarrow> (case rd32 B (urecv u) d of (v, d') \<Rightarrow> ucast v = b \<and> inp d' = bs \<and> out d' = out d)) \<and>
     (\<forall>d b. inp (wr32 B (usend u) (ucast b) d) = inp d \<and> out (wr32 B (usend u) (ucast b) d) = out d @ [b])"

lemma uart_bits: "(v :: Huint) AND UARTLITE_STATUS_RXVALID = UARTLITE_STATUS_RXVALID \<longleftrightarrow> bit v 0"
    "v AND UARTLITE_STATUS_TXFULL = UARTLITE_STATUS_TXFULL \<longleftrightarrow> bit v 3"
proof -
  have "(v AND 2 ^ n = 2 ^ n) = bit v n" if "n < 32" for n
    using that by (auto simp: bit_eq_iff [where 'a = "32 word"] bit_and_iff bit_exp_iff)
  from this [of 0] this [of 3] show "v AND UARTLITE_STATUS_RXVALID = UARTLITE_STATUS_RXVALID \<longleftrightarrow> bit v 0"
    "v AND UARTLITE_STATUS_TXFULL = UARTLITE_STATUS_TXFULL \<longleftrightarrow> bit v 3"
    by (simp_all add: UARTLITE_STATUS_RXVALID_def UARTLITE_STATUS_TXFULL_def)
qed

lemma uart_status:
  assumes "uart_ok B u inp out wait" "rd32 B (ustatus u) d = (v, d')"
  shows "inp d' = inp d" "out d' = out d" "bit v 0 \<Longrightarrow> inp d \<noteq> []" "bit v 0 \<Longrightarrow> bit (fst (rd32 B (ustatus u) d')) 0"
    "inp d \<noteq> [] \<Longrightarrow> \<not> bit v 0 \<Longrightarrow> wait d' < wait d" "bit v 3 \<Longrightarrow> wait d' < wait d"
  using assms unfolding uart_ok_def by (auto dest!: spec [of _ d])

lemma wait_recv_ok:
  assumes ok: "uart_ok B u inp out wait" and "inp d \<noteq> []"
  shows "\<exists>d'. wait_recv B u d = Some d' \<and> inp d' = inp d \<and> out d' = out d"
  using assms(2)
proof (induction "wait d" arbitrary: d rule: less_induct)
  case less
  obtain v d1 where v: "rd32 B (ustatus u) d = (v, d1)" by fastforce
  note st = uart_status [OF ok v]
  show ?case
  proof (cases "bit v 0")
    case True
    then show ?thesis using v st(1,2) by (subst wait_recv.simps) (simp add: uart_bits)
  next
    case False
    then have "\<exists>d'. wait_recv B u d1 = Some d' \<and> inp d' = inp d1 \<and> out d' = out d1"
      using less.hyps [of d1] less.prems st(1,5) by simp
    then show ?thesis using False v st(1,2) by (subst wait_recv.simps) (simp add: uart_bits)
  qed
qed

lemma wait_send_ok:
  assumes ok: "uart_ok B u inp out wait"
  shows "\<exists>d'. wait_send B u d = Some d' \<and> inp d' = inp d \<and> out d' = out d"
proof (induction "wait d" arbitrary: d rule: less_induct)
  case less
  obtain v d1 where v: "rd32 B (ustatus u) d = (v, d1)" by fastforce
  note st = uart_status [OF ok v]
  show ?case
  proof (cases "bit v 3")
    case True
    then have "\<exists>d'. wait_send B u d1 = Some d' \<and> inp d' = inp d1 \<and> out d' = out d1"
      using less.hyps [of d1] st(6) by simp
    then show ?thesis using True v st(1,2) by (subst wait_send.simps) (simp add: uart_bits)
  next
    case False
    then show ?thesis using v st(1,2) by (subst wait_send.simps) (simp add: uart_bits)
  qed
qed

lemma uartlite_recv_ok:
  assumes ok: "uart_ok B u inp out wait" and "inp d = b # bs"
  shows "\<exists>d'. uartlite_recv B u d = Some (SUCCESS, b, d') \<and> inp d' = bs \<and> out d' = out d"
proof -
  obtain d1 where d1: "wait_recv B u d = Some d1" "inp d1 = b # bs" "out d1 = out d"
    using wait_recv_ok [OF ok, of d] assms(2) by auto
  have "case rd32 B (urecv u) d1 of (v, d') \<Rightarrow> ucast v = b \<and> inp d' = bs \<and> out d' = out d1"
    using ok d1(2) by (simp add: uart_ok_def)
  then show ?thesis using d1 by (auto simp: uartlite_recv_def split: prod.splits)
qed

lemma uartlite_send_ok:
  assumes ok: "uart_ok B u inp out wait"
  shows "\<exists>d'. uartlite_send B u b d = Some (SUCCESS, d') \<and> inp d' = inp d \<and> out d' = out d @ [b]"
proof -
  obtain d1 where d1: "wait_send B u d = Some d1" "inp d1 = inp d" "out d1 = out d" using wait_send_ok [OF ok] by blast
  then show ?thesis using ok by (auto simp: uartlite_send_def uart_ok_def)
qed

lemma send_byte_ok:
  assumes "uart_ok B (io_uart c) inp out wait"
  shows "\<exists>d'. send_byte B b (c, d) = Some (c, d') \<and> inp d' = inp d \<and> out d' = out d @ [b]"
  using uartlite_send_ok [OF assms, of b d] by (auto simp: send_byte_def)

abbreviation blocking :: "console \<Rightarrow> bool" where
  "blocking c \<equiv> stdin_flags c AND O_NONBLOCK \<noteq> O_NONBLOCK"

lemma recv_byte_ok:
  assumes "uart_ok B (io_uart c) inp out wait" "blocking c" "inp d = b # bs"
  shows "\<exists>d'. recv_byte B (c, d) = Some (0, Some b, c, d') \<and> inp d' = bs \<and> out d' = out d"
  using uartlite_recv_ok [OF assms(1,3)] assms(2) by (auto simp: recv_byte_def)

section \<open>Output\<close>

text \<open>A line feed that does not follow a carriage return gets one.\<close>

fun crlf :: "Hubyte \<Rightarrow> Hubyte list \<Rightarrow> Hubyte list" where
  "crlf l [] = []"
| "crlf l (b # bs) = (if l \<noteq> 0x0D \<and> b = 0x0A then [0x0D, 0x0A] else [b]) @ crlf b bs"

lemma crlf_append: "crlf l (xs @ ys) = crlf l xs @ crlf (last (l # xs)) ys"
  by (induction xs arbitrary: l) auto

lemma put_loop_ok:
  assumes "uart_ok B (io_uart c) inp out wait" "i + n \<le> length buf"
  shows "\<exists>d'. put_loop n B i buf (c, d) = Some (c\<lparr>last_char := last (last_char c # take n (drop i buf))\<rparr>, d') \<and>
    inp d' = inp d \<and> out d' = out d @ crlf (last_char c) (take n (drop i buf))"
  using assms
proof (induction n arbitrary: i c d)
  case 0
  then show ?case by simp
next
  case (Suc n)
  let ?b = "buf ! i" and ?cr = "last_char c \<noteq> 0x0D \<and> buf ! i = 0x0A"
  have i: "i < length buf" "take (Suc n) (drop i buf) = ?b # take n (drop (i + 1) buf)"
    using Suc.prems(2) by (simp_all add: Cons_nth_drop_Suc [symmetric])
  obtain d1 where d1: "(if ?cr then send_byte B 0x0D (c, d) else Some (c, d)) = Some (c, d1)"
      "inp d1 = inp d" "out d1 = out d @ (if ?cr then [0x0D] else [])"
    using send_byte_ok [OF Suc.prems(1), of "0x0D" d] by (cases ?cr) auto
  let ?c = "c\<lparr>last_char := ?b\<rparr>"
  have ok: "uart_ok B (io_uart ?c) inp out wait" using Suc.prems(1) by simp
  obtain d2 where d2: "send_byte B ?b (?c, d1) = Some (?c, d2)" "inp d2 = inp d1" "out d2 = out d1 @ [?b]"
    using send_byte_ok [OF ok] by blast
  have "i + 1 + n \<le> length buf" using Suc.prems(2) by simp
  from Suc.IH [OF ok this, of d2] obtain d' where d': "put_loop n B (i + 1) buf (?c, d2) =
      Some (?c\<lparr>last_char := last (?b # take n (drop (i + 1) buf))\<rparr>, d')" "inp d' = inp d2"
      "out d' = out d2 @ crlf ?b (take n (drop (i + 1) buf))" by auto
  have "put_loop (Suc n) B i buf (c, d) = put_loop n B (i + 1) buf (?c, d2)"
    using i(1) d1(1) d2(1) by simp
  then show ?case using d' d1(2,3) d2(2,3) i(2) by auto
qed

primrec write_all :: "'d reg_bus \<Rightarrow> Hubyte list list \<Rightarrow> 'd con \<Rightarrow> 'd con option" where
  "write_all B [] s = Some s"
| "write_all B (buf # bufs) s =
     do { (n, s) \<leftarrow> lib_write B buf (of_nat (length buf)) s;
          if n = of_nat (length buf) then write_all B bufs s else None }"

text \<open>
  C35: Whatever pieces a text is written in, every call returns, reports its whole piece as written, and
  the serial line sends the text with each line feed made a carriage return and a line feed,
  unless a carriage return was there already, also when the piece before ended with it.
\<close>

theorem write_translates:
  assumes "uart_ok B (io_uart c) inp out wait" "\<forall>buf \<in> set bufs. length buf < 2 ^ 32"
  shows "\<exists>c' d'. write_all B bufs (c, d) = Some (c', d') \<and> inp d' = inp d \<and>
    out d' = out d @ crlf (last_char c) (concat bufs)"
  using assms
proof (induction bufs arbitrary: c d)
  case Nil
  then show ?case by simp
next
  case (Cons buf bufs)
  have n: "unat (of_nat (length buf) :: Huint) = length buf" using Cons.prems(2) by (simp add: unat_of_nat)
  obtain d1 where d1: "lib_write B buf (of_nat (length buf)) (c, d) =
      Some (of_nat (length buf), c\<lparr>last_char := last (last_char c # buf)\<rparr>, d1)"
      "inp d1 = inp d" "out d1 = out d @ crlf (last_char c) buf"
    using put_loop_ok [OF Cons.prems(1), of 0 "length buf" buf d] n by (auto simp: lib_write_def)
  have "uart_ok B (io_uart (c\<lparr>last_char := last (last_char c # buf)\<rparr>)) inp out wait" using Cons.prems(1) by simp
  from Cons.IH [OF this, of d1] Cons.prems(2) obtain c' d' where
      "write_all B bufs (c\<lparr>last_char := last (last_char c # buf)\<rparr>, d1) = Some (c', d')" "inp d' = inp d1"
      "out d' = out d1 @ crlf (last (last_char c # buf)) (concat bufs)" by auto
  then show ?case using d1 by (auto simp: crlf_append)
qed

section \<open>Input\<close>

text \<open>What a read of at most \<open>n\<close> bytes takes from the input: everything up to the end of a line.\<close>

fun line_of :: "nat \<Rightarrow> Hubyte list \<Rightarrow> Hubyte list" where
  "line_of (Suc n) (b # bs) = b # (if ends_line b then [] else line_of n bs)"
| "line_of n bs = []"

definition line_ended :: "Hubyte list \<Rightarrow> bool" where
  "line_ended l \<longleftrightarrow> l \<noteq> [] \<and> ends_line (last l)"

definition terminated :: "Hubyte list \<Rightarrow> Hubyte list" where
  "terminated l = l @ (if line_ended l then [0] else [])"

lemma line_of_length: "length (line_of n bs) \<le> n"
  by (induction n bs rule: line_of.induct) auto

lemma read_block_loop_ok:
  assumes "uart_ok B (io_uart c) inp out wait" "blocking c" "i + n \<le> length buf"
    and "length (line_of n (inp d)) = n \<or> line_ended (line_of n (inp d))"
  shows "if i + length (terminated (line_of n (inp d))) \<le> length buf
    then \<exists>d'. read_block_loop n B i buf (c, d) = Some (of_nat (i + length (line_of n (inp d))),
        take i buf @ terminated (line_of n (inp d)) @ drop (i + length (terminated (line_of n (inp d)))) buf, c, d') \<and>
      inp d' = drop (length (line_of n (inp d))) (inp d) \<and> out d' = out d
    else read_block_loop n B i buf (c, d) = None"
  using assms(3,4)
proof (induction n arbitrary: i buf d)
  case 0
  then show ?case by (simp add: terminated_def line_ended_def)
next
  case (Suc n)
  obtain b bs where b: "inp d = b # bs" using Suc.prems(2) by (cases "inp d") (auto simp: line_ended_def)
  obtain d1 where d1: "recv_byte B (c, d) = Some (0, Some b, c, d1)" "inp d1 = bs" "out d1 = out d"
    using recv_byte_ok [OF assms(1,2) b] by blast
  have i: "i < length buf" using Suc.prems(1) by simp
  have tk: "take (Suc i) (buf[i := b]) = take i buf @ [b]" using i by (simp add: take_Suc_conv_app_nth)
  have step: "read_block_loop (Suc n) B i buf (c, d) =
      (if ends_line b then do { buf \<leftarrow> store_at (i + 1) 0 (buf[i := b]); Some (of_nat (i + 1), buf, c, d1) }
       else read_block_loop n B (i + 1) (buf[i := b]) (c, d1))"
    using d1(1) i by (simp add: put_recv_def store_at_def)
  show ?case
  proof (cases "ends_line b")
    case True
    then have l: "line_of (Suc n) (inp d) = [b]" "terminated (line_of (Suc n) (inp d)) = [b, 0]"
      using b by (simp_all add: terminated_def line_ended_def)
    have "buf[i := b, i + 1 := 0] = take i buf @ [b, 0] @ drop (i + 2) buf" if "i + 2 \<le> length buf"
      using that tk by (subst upd_conv_take_nth_drop) simp_all
    then show ?thesis using True step l b d1(2,3) i by (auto simp: store_at_def)
  next
    case False
    let ?l = "line_of n (inp d1)"
    have l: "line_of (Suc n) (inp d) = b # ?l" "terminated (line_of (Suc n) (inp d)) = b # terminated ?l"
      using False b d1(2) by (simp_all add: terminated_def line_ended_def)
    have pre: "i + 1 + n \<le> length (buf[i := b])" "length ?l = n \<or> line_ended ?l"
      using Suc.prems l(1) by (auto simp: line_ended_def False split: if_splits)
    have "drop (i + 1 + k) (buf[i := b]) = drop (i + Suc k) buf" for k by simp
    then show ?thesis using Suc.IH [OF pre] False step l b d1(2,3) tk
      by (cases "i + length (terminated (line_of (Suc n) (inp d))) \<le> length buf") (simp_all add: add.assoc)
  qed
qed

text \<open>
  A blocking read into a buffer with room for one byte more than requested returns the input up to
  and including the next end of a line, at most as many bytes as requested, followed by a
  zero byte after the end of a line; the rest of the input and of the buffer is left alone.
\<close>

theorem read_line:
  assumes "uart_ok B (io_uart c) inp out wait" "blocking c" "unat nbytes < length buf"
    and "l = line_of (unat nbytes) (inp d)" "length l = unat nbytes \<or> line_ended l"
  shows "\<exists>d'. lib_read B buf nbytes (c, d) = Some (of_nat (length l), terminated l @ drop (length (terminated l)) buf, c, d') \<and>
    inp d' = drop (length l) (inp d) \<and> out d' = out d"
proof -
  have "length (terminated l) \<le> length buf"
    using assms(3,4) line_of_length [of "unat nbytes" "inp d"] by (simp add: terminated_def)
  then show ?thesis
    using read_block_loop_ok [OF assms(1,2), of 0 "unat nbytes" buf d] assms(2-5)
    by (simp add: lib_read_def read_block_def)
qed

text \<open>
  A blocking read into a buffer of exactly the requested size writes a zero byte behind the buffer
  when the line ends with the last byte requested.
\<close>

theorem read_overruns_buffer:
  assumes "uart_ok B (io_uart c) inp out wait" "blocking c" "length buf = unat nbytes"
    and "length (line_of (unat nbytes) (inp d)) = unat nbytes" "line_ended (line_of (unat nbytes) (inp d))"
  shows "lib_read B buf nbytes (c, d) = None"
  using read_block_loop_ok [OF assms(1,2), of 0 "unat nbytes" buf d] assms
  by (simp add: lib_read_def read_block_def terminated_def)

text \<open>A read that must not block takes some of the bytes that are there, or reports that there are none.\<close>

lemma recv_byte_shown:
  assumes ok: "uart_ok B (io_uart c) inp out wait" and "can_recv B (c, d) = (True, c, d1)"
  shows "\<exists>b bs d'. inp d = b # bs \<and> recv_byte B (c, d1) = Some (0, Some b, c, d') \<and> inp d' = bs \<and> out d' = out d"
proof -
  obtain v where v: "rd32 B (ustatus (io_uart c)) d = (v, d1)" "bit v 0"
    using assms(2) by (auto simp: can_recv_def uartlite_canrecv_def uart_bits split: prod.splits)
  note st = uart_status [OF ok v(1)]
  obtain b bs where b: "inp d = b # bs" using st(3) v(2) by (meson neq_Nil_conv)
  obtain w d2 where w: "rd32 B (ustatus (io_uart c)) d1 = (w, d2)" by fastforce
  have wb: "bit w 0" using st(4) v(2) w by simp
  have d2: "inp d2 = b # bs" "out d2 = out d" using uart_status(1,2) [OF ok w] st(1,2) b by simp_all
  have d1: "inp d1 = b # bs" "out d1 = out d" using st(1,2) b by simp_all
  have "\<exists>d'. recv_byte B (c, d1) = Some (0, Some b, c, d') \<and> inp d' = bs \<and> out d' = out d"
    using uartlite_recv_ok [OF ok d1(1)] uartlite_recv_ok [OF ok d2(1)] d1(2) d2(2) w wb
    by (auto simp: recv_byte_def uartlite_canrecv_def uart_bits)
  then show ?thesis using b by blast
qed

lemma read_nonblock_loop_ok:
  assumes ok: "uart_ok B (io_uart c) inp out wait" and "i + n < length buf"
  shows "\<exists>k d'. k \<le> length (line_of n (inp d)) \<and> inp d' = drop k (inp d) \<and> out d' = out d \<and>
    read_nonblock_loop n B i buf (c, d) = Some (fst (no_data (i + k) c),
      take i buf @ terminated (take k (line_of n (inp d))) @ drop (i + length (terminated (take k (line_of n (inp d))))) buf,
      snd (no_data (i + k) c), d')"
  using assms(2)
proof (induction n arbitrary: i buf d)
  case 0
  then show ?case by (intro exI [of _ 0] exI [of _ d]) (simp add: terminated_def line_ended_def split: prod.splits)
next
  case (Suc n)
  obtain ok d1 where cr: "can_recv B (c, d) = (ok, c, d1)"
    by (cases "uartlite_canrecv B (io_uart c) d") (simp add: can_recv_def)
  have d1: "inp d1 = inp d" "out d1 = out d"
    using cr uart_status(1,2) [OF assms(1), of d] by (auto simp: can_recv_def uartlite_canrecv_def split: prod.splits)
  show ?case
  proof (cases ok)
    case False
    then show ?thesis using cr d1
      by (intro exI [of _ 0] exI [of _ d1]) (simp add: terminated_def line_ended_def split: prod.splits)
  next
    case True
    obtain b bs d2 where b: "inp d = b # bs" "recv_byte B (c, d1) = Some (0, Some b, c, d2)" "inp d2 = bs" "out d2 = out d"
      using recv_byte_shown [OF assms(1), of d d1] cr True by auto
    have i: "i < length buf" "take (Suc i) (buf[i := b]) = take i buf @ [b]"
      using Suc.prems by (simp_all add: take_Suc_conv_app_nth)
    have step: "read_nonblock_loop (Suc n) B i buf (c, d) =
        (if ends_line b then do { buf \<leftarrow> store_at (i + 1) 0 (buf[i := b]);
           Some (fst (no_data (i + 1) c), buf, snd (no_data (i + 1) c), d2) }
         else read_nonblock_loop n B (i + 1) (buf[i := b]) (c, d2))"
      using cr True b(2) i(1) by (simp add: put_recv_def store_at_def split: prod.splits)
    show ?thesis
    proof (cases "ends_line b")
      case True
      have "buf[i := b, i + 1 := 0] = take i buf @ [b, 0] @ drop (i + 2) buf"
        using Suc.prems i(2) by (subst upd_conv_take_nth_drop) simp_all
      then show ?thesis using True step b Suc.prems
        by (intro exI [of _ 1] exI [of _ d2]) (simp add: terminated_def line_ended_def store_at_def)
    next
      case False
      have "i + 1 + n < length (buf[i := b])" using Suc.prems by simp
      from Suc.IH [OF this, of d2] obtain k d' where k: "k \<le> length (line_of n bs)" "inp d' = drop k bs" "out d' = out d"
          "read_nonblock_loop n B (i + 1) (buf[i := b]) (c, d2) = Some (fst (no_data (i + 1 + k) c),
             take (i + 1) (buf[i := b]) @ terminated (take k (line_of n bs)) @
               drop (i + 1 + length (terminated (take k (line_of n bs)))) (buf[i := b]),
             snd (no_data (i + 1 + k) c), d')"
        using b(3,4) by auto
      have "terminated (b # l) = b # terminated l" for l using False by (simp add: terminated_def line_ended_def)
      then show ?thesis using k False step b(1) i by (intro exI [of _ "Suc k"] exI [of _ d']) simp
    qed
  qed
qed

text \<open>
  A read that must not block returns at once with some of the bytes of the next line, in order and
  removed from the input, or with -1 and \<open>EAGAIN\<close> when it took none.
\<close>

theorem read_nonblock_prefix:
  assumes "uart_ok B (io_uart c) inp out wait" "\<not> blocking c" "unat nbytes < length buf"
    and "l = line_of (unat nbytes) (inp d)"
  shows "\<exists>k d'. k \<le> length l \<and> inp d' = drop k (inp d) \<and> out d' = out d \<and>
    lib_read B buf nbytes (c, d) =
      Some (if k = 0 then -1 else of_nat k, terminated (take k l) @ drop (length (terminated (take k l))) buf,
        if k = 0 then c\<lparr>errno := EAGAIN\<rparr> else c, d')"
proof -
  obtain k d' where k: "k \<le> length l" "inp d' = drop k (inp d)" "out d' = out d"
      "read_nonblock_loop (unat nbytes) B 0 buf (c, d) = Some (fst (no_data k c),
        terminated (take k l) @ drop (length (terminated (take k l))) buf, snd (no_data k c), d')"
    using read_nonblock_loop_ok [OF assms(1), of 0 "unat nbytes" buf d] assms(3,4) by auto
  then show ?thesis using assms(2)
    by (intro exI [of _ k] exI [of _ d']) (simp add: lib_read_def read_nonblock_def no_data_def)
qed

section \<open>Blocks of the heap\<close>

primrec sbrk_all :: "Huint \<Rightarrow> Huint \<Rightarrow> Hint list \<Rightarrow> console \<Rightarrow> (Huint \<times> Hint) list \<times> console" where
  "sbrk_all a e [] c = ([], c)"
| "sbrk_all a e (n # ns) c =
     (let (p, c) = sbrk a e n c; (bs, c) = sbrk_all a e ns c in (if p = -1 then bs else (p, n) # bs, c))"

definition heap_top :: "Huint \<Rightarrow> console \<Rightarrow> Huint" where
  "heap_top a c = (if heap c = 0 then a else heap c)"

lemma sbrk_block:
  assumes "a \<noteq> 0" "heap_top a c \<le> e" "e < 0x80000000" "n < 0x80000000"
  shows "unat (heap_top a c + n) = unat (heap_top a c) + unat n"
    "sbrk a e n c = (if e < heap_top a c + n then (-1, c\<lparr>heap := heap_top a c, errno := ENOMEM\<rparr>)
       else (heap_top a c, c\<lparr>heap := heap_top a c + n\<rparr>))"
proof -
  have "unat (heap_top a c) + unat n < 2 ^ 32" using assms(2-4) by (simp add: word_le_nat_alt word_less_nat_alt)
  then show "unat (heap_top a c + n) = unat (heap_top a c) + unat n" by (simp add: unat_add_lem [symmetric])
qed (simp add: sbrk_def heap_top_def Let_def)

lemma heap_top_nonzero: "a \<noteq> 0 \<Longrightarrow> heap_top a c \<noteq> 0"
  by (simp add: heap_top_def)

text \<open>
  The blocks that a sequence of calls of \<open>sbrk\<close> with sizes that are not negative hands out lie
  inside the heap and behind each other, whichever calls fail, as long as the heap is in the
  lower half of the address space.
\<close>

theorem sbrk_disjoint:
  assumes "a \<noteq> 0" "heap_top a c \<le> e" "e < 0x80000000" "\<forall>n \<in> set ns. n < 0x80000000"
    and "sbrk_all a e ns c = (bs, c')"
  shows "(\<forall>(p, n) \<in> set bs. unat (heap_top a c) \<le> unat p \<and> unat p + unat n \<le> unat e) \<and>
    sorted_wrt (\<lambda>(p, n) (q, m). unat p + unat n \<le> unat q) bs"
  using assms(2,4,5)
proof (induction ns arbitrary: c bs)
  case Nil
  then show ?case by simp
next
  case (Cons n ns)
  let ?h = "heap_top a c"
  have n: "n < 0x80000000" using Cons.prems(2) by simp
  note blk = sbrk_block [OF assms(1) Cons.prems(1) assms(3) n]
  obtain p c1 where p: "sbrk a e n c = (p, c1)" by fastforce
  obtain bs1 where bs1: "sbrk_all a e ns c1 = (bs1, c')" "bs = (if p = -1 then bs1 else (p, n) # bs1)"
    using Cons.prems(3) p by (auto simp: Let_def split: prod.splits)
  have "?h < 0x80000000" using Cons.prems(1) assms(3) by (rule le_less_trans)
  then have h: "?h \<noteq> 0" "?h \<noteq> -1" using heap_top_nonzero [OF assms(1), of c] by auto
  show ?case
  proof (cases "e < ?h + n")
    case True
    then have "p = -1" "heap_top a c1 = ?h" using blk(2) p h(1) by (auto simp: heap_top_def)
    then show ?thesis using Cons.IH [of c1 bs1] Cons.prems(1,2) bs1 by simp
  next
    case False
    then have c1: "p = ?h" "heap c1 = ?h + n" using blk(2) p by auto
    have top: "heap_top a c1 = ?h + n" using c1(2) h(1) blk(1) by (auto simp: heap_top_def unat_eq_0 [symmetric])
    have "heap_top a c1 \<le> e" using False top by simp
    then have "(\<forall>(q, m) \<in> set bs1. unat (?h + n) \<le> unat q \<and> unat q + unat m \<le> unat e) \<and>
        sorted_wrt (\<lambda>(p, n) (q, m). unat p + unat n \<le> unat q) bs1"
      using Cons.IH [of c1 bs1] Cons.prems(2) bs1(1) top by simp
    moreover have "unat ?h + unat n \<le> unat e" using False blk(1) by (simp add: word_less_nat_alt)
    ultimately show ?thesis using bs1(2) c1(1) h(2) blk(1) by fastforce
  qed
qed

text \<open>In the upper half a large request wraps around, succeeds and makes the heap start over.\<close>

lemma sbrk_wraps:
  assumes "a = 0x90000000" "heap c = 0"
  shows "sbrk a e 0x70000000 c = (a, c\<lparr>heap := 0\<rparr>)"
    "0x90000010 \<le> e \<Longrightarrow> fst (sbrk a e 0x10 (snd (sbrk a e 0x70000000 c))) = a"
proof -
  have "(4294967296 :: Huint) = 0" by simp
  then have "\<not> e < (4294967296 :: Huint)" by (simp only: linorder_not_less word_zero_le)
  then show "sbrk a e 0x70000000 c = (a, c\<lparr>heap := 0\<rparr>)" using assms by (simp add: sbrk_def Let_def)
  then show "0x90000010 \<le> e \<Longrightarrow> fst (sbrk a e 0x10 (snd (sbrk a e 0x70000000 c))) = a"
    using assms(1) by (simp add: sbrk_def Let_def linorder_not_less)
qed

section \<open>An example line\<close>

text \<open>A port that is always ready, with the input and the output as its state.\<close>

definition example_bus :: "(Hubyte list \<times> Hubyte list) reg_bus" where
  "example_bus = \<lparr>rd32 = (\<lambda>a (i, w). if a = 0x8 then (if i = [] then 0 else 1, i, w)
       else if a = 0x0 then (ucast (hd i), tl i, w) else (0, i, w)),
     wr32 = (\<lambda>a v (i, w). if a = 0x4 then (i, w @ [ucast v]) else (i, w))\<rparr>"

definition example_console :: console where
  "example_console = stdio_init 0 \<lparr>stdin_flags = 0, stdout_flags = 0, errno = 0, last_char = 0, heap = 0,
     io_uart = \<lparr>ustatus = 0, ucontrol = 0, usend = 0, urecv = 0\<rparr>\<rparr>"

lemma example_uart: "io_uart example_console = \<lparr>ustatus = 0x8, ucontrol = 0xC, usend = 0x4, urecv = 0x0\<rparr>"
  by (simp add: example_console_def stdio_init_def uartlite_create_def)

lemma example_blocking: "blocking example_console"
  by (simp add: example_console_def stdio_init_def O_NONBLOCK_def)

lemma ucast_byte: "ucast (ucast (b :: Hubyte) :: Huint) = b"
  by (rule bit_word_eqI) (simp add: bit_ucast_iff)

lemma example_ok: "uart_ok example_bus (io_uart example_console) fst snd (\<lambda>_. 0)"
  by (auto simp: uart_ok_def example_uart example_bus_def ucast_byte split: prod.splits)

theorem write_translates_witness:
  "\<exists>c' d'. write_all example_bus [[0x41, 0x0A], [0x0D], [0x0A]] (example_console, [], []) = Some (c', d') \<and>
    snd d' = [0x41, 0x0D, 0x0A, 0x0D, 0x0A]"
  using write_translates [OF example_ok, of "[[0x41, 0x0A], [0x0D], [0x0A]]" "([], [])"]
  by (auto simp: example_console_def stdio_init_def)

theorem read_line_witness:
  "\<exists>d'. lib_read example_bus [1, 2, 3, 4, 5] 4 (example_console, [0x41, 0x0A, 0x42], []) =
    Some (2, [0x41, 0x0A, 0, 4, 5], example_console, d') \<and> fst d' = [0x42]"
proof -
  have n: "unat (4 :: Huint) = Suc (Suc (Suc (Suc 0)))" by simp
  have l: "line_of (unat (4 :: Huint)) (fst ([0x41, 0x0A, 0x42], [] :: Hubyte list)) = [0x41, 0x0A]"
    unfolding n by (simp add: ends_line_def)
  then show ?thesis
    using read_line [OF example_ok example_blocking, of 4 "[1, 2, 3, 4, 5]" "[0x41, 0x0A]" "([0x41, 0x0A, 0x42], [])"]
    by (simp add: line_ended_def terminated_def ends_line_def)
qed

theorem read_overruns_buffer_witness:
  "lib_read example_bus [1, 2] 2 (example_console, [0x41, 0x0A, 0x42], []) = None"
proof -
  have n: "unat (2 :: Huint) = Suc (Suc 0)" by simp
  have l: "line_of (unat (2 :: Huint)) (fst ([0x41, 0x0A, 0x42], [] :: Hubyte list)) = [0x41, 0x0A]"
    unfolding n by (simp add: ends_line_def)
  show ?thesis
    using read_overruns_buffer [OF example_ok example_blocking, of "[1, 2]" 2 "([0x41, 0x0A, 0x42], [])"] l
    by (simp add: line_ended_def ends_line_def)
qed

theorem sbrk_disjoint_witness:
  "sbrk_all 0x1000 0x2000 [0x800, 0x1000, 0x10] example_console =
     ([(0x1000, 0x800), (0x1800, 0x10)], snd (sbrk_all 0x1000 0x2000 [0x800, 0x1000, 0x10] example_console)) \<and>
   unat (0x1000 :: Huint) + unat (0x800 :: Huint) \<le> unat (0x1800 :: Huint)"
proof -
  have r: "sbrk_all 0x1000 0x2000 [0x800, 0x1000, 0x10] example_console =
     ([(0x1000, 0x800), (0x1800, 0x10)], snd (sbrk_all 0x1000 0x2000 [0x800, 0x1000, 0x10] example_console))"
    by (simp add: sbrk_def Let_def example_console_def stdio_init_def)
  then show ?thesis
    using sbrk_disjoint [OF _ _ _ _ r] by (simp add: heap_top_def example_console_def stdio_init_def)
qed

end
