(* ===== verification/Device_List.thy ===== *)
theory Device_List
  imports Hthreads_Prelude "HOL-Library.Monad_Syntax"
begin

text \<open>
  The lists of block and character devices (\<^verbatim>\<open>src/software/dev/block.c\<close> and \<^verbatim>\<open>char.c\<close>, which
  differ only in the names of the types). Nodes live in a store from addresses to nodes;
  address 0 is the null pointer. \<open>None\<close> stands for following a pointer that is null or leads to
  no node. What \<^verbatim>\<open>malloc\<close> returns is an argument; a device is known by the address \<open>'i\<close> of its
  information, whose name is given by \<open>name\<close>.
\<close>

section \<open>The lists (block.c, char.c)\<close>

record 'i dev_node =
  node_next :: nat
  node_prev :: nat
  node_info :: 'i

record bdev =
  dev_head :: nat
  dev_tail :: nat
  devices :: Huint

type_synonym 'i dev_store = "nat \<rightharpoonup> 'i dev_node"

definition ENOENT :: Hint where "ENOENT = 2"

definition deref :: "'i dev_store \<Rightarrow> nat \<Rightarrow> 'i dev_node option" where
  "deref m p = (if p = 0 then None else m p)"

definition bdev_create :: "bdev \<Rightarrow> Hint \<times> bdev" where
  "bdev_create dev = (SUCCESS, dev\<lparr>dev_head := 0, dev_tail := 0, devices := 0\<rparr>)"

definition bdev_destroy :: "bdev \<Rightarrow> Hint \<times> bdev" where
  "bdev_destroy dev = (SUCCESS, dev\<lparr>dev_head := 0, dev_tail := 0, devices := 0\<rparr>)"

definition bdev_insert :: "nat \<Rightarrow> 'i \<Rightarrow> bdev \<Rightarrow> 'i dev_store \<Rightarrow> (Hint \<times> bdev \<times> 'i dev_store) option" where
  "bdev_insert new info dev m =
     (if new = 0 then Some (- ENOMEM, dev, m)
      else let m = m(new \<mapsto> \<lparr>node_next = 0, node_prev = dev_tail dev, node_info = info\<rparr>)
        in do { t \<leftarrow> deref m (dev_tail dev);
                Some (SUCCESS, dev\<lparr>devices := devices dev + 1\<rparr>, m(dev_tail dev \<mapsto> t\<lparr>node_next := new\<rparr>)) })"

text \<open>Taking the node \<open>cur\<close> out of the list, with both neighbours, and freeing it.\<close>

definition unlink_node :: "nat \<Rightarrow> 'i dev_node \<Rightarrow> bdev \<Rightarrow> 'i dev_store \<Rightarrow> (bdev \<times> 'i dev_store) option" where
  "unlink_node cur n dev m =
     do { p \<leftarrow> deref m (node_prev n);
          let m = m(node_prev n \<mapsto> p\<lparr>node_next := node_next n\<rparr>);
          q \<leftarrow> deref m (node_next n);
          let m = m(node_next n \<mapsto> q\<lparr>node_prev := node_prev n\<rparr>);
          Some (dev\<lparr>devices := devices dev - 1\<rparr>, m(cur := None)) }"

partial_function (option) remove_from :: "'i dev_store \<Rightarrow> nat \<Rightarrow> 'i \<Rightarrow> bdev \<Rightarrow> (Hint \<times> bdev \<times> 'i dev_store) option" where
  "remove_from m cur info dev =
     (if cur = 0 then Some (- ENOENT, dev, m)
      else do { n \<leftarrow> deref m cur;
                if node_info n = info then do { (dev, m) \<leftarrow> unlink_node cur n dev m; Some (SUCCESS, dev, m) }
                else remove_from m (node_next n) info dev })"

definition bdev_remove :: "'i \<Rightarrow> bdev \<Rightarrow> 'i dev_store \<Rightarrow> (Hint \<times> bdev \<times> 'i dev_store) option" where
  "bdev_remove info dev m = remove_from m (dev_head dev) info dev"

partial_function (option) find_from_node :: "('i \<Rightarrow> string) \<Rightarrow> 'i dev_store \<Rightarrow> nat \<Rightarrow> string \<Rightarrow> 'i option option" where
  "find_from_node name m cur s =
     (if cur = 0 then Some None
      else do { n \<leftarrow> deref m cur;
                if s = name (node_info n) then Some (Some (node_info n)) else find_from_node name m (node_next n) s })"

definition bdev_find :: "('i \<Rightarrow> string) \<Rightarrow> bdev \<Rightarrow> 'i dev_store \<Rightarrow> string \<Rightarrow> 'i option option" where
  "bdev_find name dev m s = find_from_node name m (dev_head dev) s"

text \<open>The functions of \<^verbatim>\<open>char.c\<close> have the same bodies.\<close>

definition cdev_create :: "bdev \<Rightarrow> Hint \<times> bdev" where "cdev_create = bdev_create"

definition cdev_destroy :: "bdev \<Rightarrow> Hint \<times> bdev" where "cdev_destroy = bdev_destroy"

definition cdev_insert :: "nat \<Rightarrow> 'i \<Rightarrow> bdev \<Rightarrow> 'i dev_store \<Rightarrow> (Hint \<times> bdev \<times> 'i dev_store) option" where
  "cdev_insert = bdev_insert"

definition cdev_remove :: "'i \<Rightarrow> bdev \<Rightarrow> 'i dev_store \<Rightarrow> (Hint \<times> bdev \<times> 'i dev_store) option" where
  "cdev_remove = bdev_remove"

definition cdev_find :: "('i \<Rightarrow> string) \<Rightarrow> bdev \<Rightarrow> 'i dev_store \<Rightarrow> string \<Rightarrow> 'i option option" where
  "cdev_find = bdev_find"

section \<open>Linked nodes\<close>

text \<open>The nodes from an address on, forward and backward linked, up to the null pointer.\<close>

fun chain :: "'i dev_store \<Rightarrow> nat \<Rightarrow> nat \<Rightarrow> nat list \<Rightarrow> bool" where
  "chain m prev p [] = (p = 0)"
| "chain m prev p (a # as) = (p = a \<and> a \<noteq> 0 \<and> (\<exists>n. m a = Some n \<and> node_prev n = prev \<and> chain m a (node_next n) as))"

definition infos :: "'i dev_store \<Rightarrow> nat list \<Rightarrow> 'i list" where
  "infos m as = map (\<lambda>a. node_info (the (m a))) as"

text \<open>Looking a name up in a list returns the first device with that name, if there is one.\<close>

lemma find_chain:
  assumes "chain m prev p as"
  shows "find_from_node name m p s = Some (find (\<lambda>i. s = name i) (infos m as))"
  using assms
proof (induction as arbitrary: prev p)
  case Nil
  then show ?case by (subst find_from_node.simps) (simp add: infos_def)
next
  case (Cons a as)
  then show ?case by (subst find_from_node.simps) (auto simp: infos_def deref_def)
qed

text \<open>Removing a device that is not in the list is reported and changes nothing.\<close>

lemma remove_missing:
  assumes "chain m prev p as" "info \<notin> set (infos m as)"
  shows "remove_from m p info dev = Some (- ENOENT, dev, m)"
  using assms
proof (induction as arbitrary: prev p)
  case Nil
  then show ?case by (subst remove_from.simps) simp
next
  case (Cons a as)
  then show ?case by (subst remove_from.simps) (auto simp: infos_def deref_def)
qed

text \<open>
  A device list that was just created is empty, no name is found in it, and no device can be added to
  it: there is no last node to link to, and the null pointer is followed. Devices are
  therefore never registered.
\<close>

theorem insert_into_created_list:
  assumes "bdev_create dev0 = (r, dev)" "new \<noteq> 0"
  shows "bdev_insert new info dev m = None" "bdev_find name dev m s = Some None"
proof -
  have dev: "dev_head dev = 0" "dev_tail dev = 0" using assms(1) by (auto simp: bdev_create_def)
  show "bdev_insert new info dev m = None" using assms(2) dev by (simp add: bdev_insert_def deref_def)
  show "bdev_find name dev m s = Some None"
    using find_chain [of m 0 0 "[]"] dev by (simp add: bdev_find_def infos_def)
qed

text \<open>The last node is never updated: a second device takes the place of the first one.\<close>

lemma insert_forgets_last:
  assumes "dev_tail dev = t" "t \<noteq> 0" "m t = Some n" "a \<noteq> 0" "b \<noteq> 0" "a \<noteq> t" "b \<noteq> t" "a \<noteq> b"
    and "bdev_insert a i dev m = Some (r, dev', m')" "bdev_insert b j dev' m' = Some (r', dev'', m'')"
  shows "dev_tail dev'' = t \<and> devices dev'' = devices dev + 2 \<and>
    m'' t = Some (n\<lparr>node_next := b\<rparr>) \<and> node_next (the (m'' b)) = 0"
  using assms by (auto simp: bdev_insert_def deref_def Let_def)

text \<open>Removing the first or the last node follows the null pointer; only inner nodes can be removed.\<close>

lemma remove_first:
  assumes "m p = Some n" "p \<noteq> 0" "node_prev n = 0" "node_info n = info"
  shows "remove_from m p info dev = None"
  using assms by (subst remove_from.simps) (simp add: deref_def unlink_node_def)

end
