(* ===== verification/Ethlite.thy ===== *)
theory Ethlite
  imports Block_Device
begin

text \<open>
  The driver of the small Ethernet controller (\<^verbatim>\<open>src/software/drivers/ethlite/ethlite.c\<close>): one or
  two buffers per direction with a length and a control register, which the driver fills and
  hands to the controller. The controller is the parameter \<open>B\<close>, memory is the processor's bytes.
  \<open>None\<close> stands for waiting forever and for an access outside of an object.
\<close>

section \<open>Data (ethlite.h)\<close>

text \<open>Addresses of registers; 0 is the null pointer of a buffer that is not there.\<close>

record ethlite =
  mac :: "Hubyte list"
  txintr :: Huint
  rxintr :: Huint
  txbuffer :: "nat \<Rightarrow> Huint"
  rxbuffer :: "nat \<Rightarrow> Huint"
  txcontrol :: "nat \<Rightarrow> Huint"
  rxcontrol :: "nat \<Rightarrow> Huint"
  txlength :: "nat \<Rightarrow> Huint"
  rxlength :: "nat \<Rightarrow> Huint"

record ethlite_config =
  eth_base :: Huint
  recv_toggle :: bool
  send_toggle :: bool

definition ETHLITE_CONTROL_STATUS :: Huint where "ETHLITE_CONTROL_STATUS = 0x1"

definition ETHLITE_CONTROL_PROGRAM :: Huint where "ETHLITE_CONTROL_PROGRAM = 0x2"

definition ETHLITE_CONTROL_INTR :: Huint where "ETHLITE_CONTROL_INTR = 0x8"

section \<open>Waiting for buffers\<close>

definition eth_status :: "'d reg_bus \<Rightarrow> Huint \<Rightarrow> 'd \<Rightarrow> bool \<times> 'd" where
  "eth_status B r d = (let (v, d) = rd32 B r d in (v AND ETHLITE_CONTROL_STATUS \<noteq> 0, d))"

partial_function (option) ethlite_txwait :: "'d reg_bus \<Rightarrow> ethlite \<Rightarrow> 'd \<Rightarrow> (nat \<times> 'd) option" where
  "ethlite_txwait B eth d =
     (if txcontrol eth 1 = 0
      then let (s, d) = eth_status B (txcontrol eth 0) d in if s then ethlite_txwait B eth d else Some (0, d)
      else let (s0, d) = eth_status B (txcontrol eth 0) d;
               (s1, d) = (if s0 then eth_status B (txcontrol eth 1) d else (False, d))
           in if s0 \<and> s1 then ethlite_txwait B eth d
              else let (s, d) = eth_status B (txcontrol eth 0) d in Some (if s then 1 else 0, d))"

partial_function (option) ethlite_rxwait :: "'d reg_bus \<Rightarrow> ethlite \<Rightarrow> 'd \<Rightarrow> (nat \<times> 'd) option" where
  "ethlite_rxwait B eth d =
     (if rxcontrol eth 1 = 0
      then let (s, d) = eth_status B (rxcontrol eth 0) d in if \<not> s then ethlite_rxwait B eth d else Some (0, d)
      else let (s0, d) = eth_status B (rxcontrol eth 0) d;
               (s1, d) = (if s0 then (True, d) else eth_status B (rxcontrol eth 1) d)
           in if \<not> s0 \<and> \<not> s1 then ethlite_rxwait B eth d
              else let (s, d) = eth_status B (rxcontrol eth 0) d in Some (if s then 0 else 1, d))"

definition ethlite_cansend :: "'d reg_bus \<Rightarrow> ethlite \<Rightarrow> 'd \<Rightarrow> bool \<times> 'd" where
  "ethlite_cansend B eth d =
     (let (s0, d) = eth_status B (txcontrol eth 0) d in
      if txcontrol eth 1 = 0 \<or> \<not> s0 then (\<not> s0, d)
      else let (s1, d) = eth_status B (txcontrol eth 1) d in (\<not> s1, d))"

definition ethlite_canrecv :: "'d reg_bus \<Rightarrow> ethlite \<Rightarrow> 'd \<Rightarrow> bool \<times> 'd" where
  "ethlite_canrecv B eth d =
     (let (s0, d) = eth_status B (rxcontrol eth 0) d in
      if rxcontrol eth 1 = 0 \<or> s0 then (s0, d) else eth_status B (rxcontrol eth 1) d)"

section \<open>Copying into a buffer\<close>

text \<open>A loop that writes \<open>n\<close> words, each made by \<open>w\<close> from the bytes at the source.\<close>

primrec copy_words :: "nat \<Rightarrow> 'd reg_bus \<Rightarrow> (nat \<Rightarrow> Huint) \<Rightarrow> Huint \<Rightarrow> nat \<Rightarrow> 'd \<Rightarrow> 'd" where
  "copy_words 0 B w dst src d = d"
| "copy_words (Suc n) B w dst src d = copy_words n B w (dst + 4) (src + 4) (wr32 B dst (w src) d)"

definition byte_word :: "memory \<Rightarrow> nat \<Rightarrow> Huint" where
  "byte_word m src =
     (let v = ucast (m src); v = push_bit 8 v OR ucast (m (src + 1)); v = push_bit 8 v OR ucast (m (src + 2))
      in push_bit 8 v OR ucast (m (src + 3)))"

definition hword_word :: "memory \<Rightarrow> nat \<Rightarrow> Huint" where
  "hword_word m src = push_bit 16 (ucast (load16 m src)) OR ucast (load16 m (src + 2))"

definition rest_word :: "memory \<Rightarrow> nat \<Rightarrow> nat \<Rightarrow> Huint" where
  "rest_word m src n = fold (\<lambda>b v. push_bit 8 v OR ucast b) (get_bytes src n m) 0"

definition ethlite_bytealignedwrite :: "'d reg_bus \<Rightarrow> Huint \<Rightarrow> nat \<Rightarrow> Huint \<Rightarrow> memory \<Rightarrow> 'd \<Rightarrow> 'd" where
  "ethlite_bytealignedwrite B dst src len m d =
     (let flen = len div 4; len = len - flen * 2; n = unat flen; d = copy_words n B (byte_word m) dst src d
      in if 0 < len then wr32 B (dst + 4 * flen) (rest_word m (src + 4 * n) (unat len)) d else d)"

definition ethlite_hwordalignedwrite :: "'d reg_bus \<Rightarrow> Huint \<Rightarrow> nat \<Rightarrow> Huint \<Rightarrow> memory \<Rightarrow> 'd \<Rightarrow> 'd" where
  "ethlite_hwordalignedwrite B dst src len m d =
     (let flen = len div 4; len = len - flen * 2; n = unat flen; d = copy_words n B (hword_word m) dst src d
      in if 0 < len then ethlite_bytealignedwrite B (dst + 4 * flen) (src + 4 * n) len m d else d)"

definition ethlite_wordalignedwrite :: "'d reg_bus \<Rightarrow> Huint \<Rightarrow> nat \<Rightarrow> Huint \<Rightarrow> memory \<Rightarrow> 'd \<Rightarrow> 'd" where
  "ethlite_wordalignedwrite B dst src len m d =
     (let flen = len div 4; len = len - flen * 4; n = unat flen; d = copy_words n B (load32 m) dst src d
      in if 0 < len then ethlite_bytealignedwrite B (dst + 4 * flen) (src + 4 * n) len m d else d)"

definition ethlite_alignedwrite :: "'d reg_bus \<Rightarrow> Huint \<Rightarrow> nat \<Rightarrow> Huint \<Rightarrow> memory \<Rightarrow> 'd \<Rightarrow> 'd" where
  "ethlite_alignedwrite B dst src len m d =
     (if bit src 0 then ethlite_bytealignedwrite B dst src len m d
      else if bit src 1 then ethlite_hwordalignedwrite B dst src len m d
      else ethlite_wordalignedwrite B dst src len m d)"

section \<open>Operations (ethlite.c)\<close>

definition mac_word :: "Hubyte list \<Rightarrow> nat \<Rightarrow> Huint" where
  "mac_word bs i = be32 (bs ! i) (bs ! (i + 1)) (bs ! (i + 2)) (bs ! (i + 3))"

definition ethlite_setmac :: "'d reg_bus \<Rightarrow> Hubyte list \<Rightarrow> ethlite \<times> 'd \<Rightarrow> (ethlite \<times> 'd) option" where
  "ethlite_setmac B a = (\<lambda>(eth, d).
     do { let eth = eth\<lparr>mac := take 6 a @ drop 6 (mac eth)\<rparr>;
          (b, d) \<leftarrow> ethlite_txwait B eth d;
          let d = wr32 B (txbuffer eth b) (mac_word (mac eth) 0) d;
          let d = wr32 B (txbuffer eth b + 4) (mac_word (mac eth) 4) d;
          Some (eth, wr32 B (txcontrol eth b) (ETHLITE_CONTROL_STATUS OR ETHLITE_CONTROL_PROGRAM) d) })"

definition ethlite_getmac :: "ethlite \<Rightarrow> Hubyte list" where
  "ethlite_getmac eth = take 6 (mac eth)"

definition ethlite_send :: "'d reg_bus \<Rightarrow> ethlite \<Rightarrow> nat \<Rightarrow> Hushort \<Rightarrow> memory \<times> 'd \<Rightarrow> (memory \<times> 'd) option" where
  "ethlite_send B eth frame len = (\<lambda>(m, d).
     do { (b, d) \<leftarrow> ethlite_txwait B eth d;
          let m = put_bytes (frame + 6) (take 6 (mac eth)) m;
          let d = ethlite_alignedwrite B (txbuffer eth b) frame (ucast len) m d;
          let d = wr32 B (txlength eth b) (ucast len AND 0x0000FFFF) d;
          Some (m, wr32 B (txcontrol eth b) (txintr eth OR ETHLITE_CONTROL_STATUS) d) })"

text \<open>
  The second copy of \<open>ethlite_recv\<close> starts at \<^verbatim>\<open>eth->rxbuffer+14\<close>, fourteen pointers behind the array
  of two pointers, outside of the structure: with a length other than zero this is an access
  outside of an object. The first copy reads the header, fourteen bytes, from the buffer.
\<close>

definition word_bytes :: "Huint \<Rightarrow> Hubyte list" where
  "word_bytes w = [ucast (drop_bit 24 w), ucast (drop_bit 16 w), ucast (drop_bit 8 w), ucast w]"

primrec read_regs :: "nat \<Rightarrow> 'd reg_bus \<Rightarrow> Huint \<Rightarrow> 'd \<Rightarrow> Huint list \<times> 'd" where
  "read_regs 0 B r d = ([], d)"
| "read_regs (Suc n) B r d = (let (v, d) = rd32 B r d; (vs, d) = read_regs n B (r + 4) d in (v # vs, d))"

definition ethlite_recv :: "'d reg_bus \<Rightarrow> ethlite \<Rightarrow> nat \<Rightarrow> memory \<times> 'd \<Rightarrow> (memory \<times> 'd) option" where
  "ethlite_recv B eth frame = (\<lambda>(m, d).
     do { (b, d) \<leftarrow> ethlite_rxwait B eth d;
          let (ws, d) = read_regs 4 B (rxbuffer eth b) d;
          let m = put_bytes frame (take 14 (concat (map word_bytes ws))) m;
          if load16 m (frame + 12) = 0 then Some (m, wr32 B (rxcontrol eth b) (rxintr eth) d) else None })"

definition ethlite_enablesend :: "'d reg_bus \<Rightarrow> ethlite \<times> 'd \<Rightarrow> ethlite \<times> 'd" where
  "ethlite_enablesend B = (\<lambda>(eth, d). let eth = eth\<lparr>txintr := ETHLITE_CONTROL_INTR\<rparr>; (v, d) = rd32 B (txcontrol eth 0) d
     in (eth, wr32 B (txcontrol eth 0) (v OR ETHLITE_CONTROL_INTR) d))"

definition ethlite_disablesend :: "'d reg_bus \<Rightarrow> ethlite \<times> 'd \<Rightarrow> ethlite \<times> 'd" where
  "ethlite_disablesend B = (\<lambda>(eth, d). let eth = eth\<lparr>txintr := 0\<rparr>; (v, d) = rd32 B (txcontrol eth 0) d
     in (eth, wr32 B (txcontrol eth 0) (v AND NOT ETHLITE_CONTROL_INTR) d))"

definition ethlite_enablerecv :: "'d reg_bus \<Rightarrow> ethlite \<times> 'd \<Rightarrow> ethlite \<times> 'd" where
  "ethlite_enablerecv B = (\<lambda>(eth, d). let eth = eth\<lparr>rxintr := ETHLITE_CONTROL_INTR\<rparr>; (v, d) = rd32 B (rxcontrol eth 0) d
     in (eth, wr32 B (rxcontrol eth 0) (v OR ETHLITE_CONTROL_INTR) d))"

definition ethlite_disablerecv :: "'d reg_bus \<Rightarrow> ethlite \<times> 'd \<Rightarrow> ethlite \<times> 'd" where
  "ethlite_disablerecv B = (\<lambda>(eth, d). let eth = eth\<lparr>rxintr := 0\<rparr>; (v, d) = rd32 B (rxcontrol eth 0) d
     in (eth, wr32 B (rxcontrol eth 0) (v AND NOT ETHLITE_CONTROL_INTR) d))"

definition word_count :: "Huint \<Rightarrow> nat" where
  "word_count len = unat (if len mod 4 = 0 then len div 4 else len div 4 + 1)"

definition ethlite_sendfill :: "'d reg_bus \<Rightarrow> ethlite \<Rightarrow> nat \<Rightarrow> nat \<Rightarrow> Huint \<Rightarrow> memory \<Rightarrow> 'd \<Rightarrow> 'd" where
  "ethlite_sendfill B eth b src len m d = copy_words (word_count len) B (load32 m) (txbuffer eth b) src d"

definition ethlite_sendsignal :: "'d reg_bus \<Rightarrow> ethlite \<Rightarrow> nat \<Rightarrow> Hushort \<Rightarrow> 'd \<Rightarrow> 'd" where
  "ethlite_sendsignal B eth b len d =
     wr32 B (txcontrol eth b) (txintr eth OR ETHLITE_CONTROL_STATUS) (wr32 B (txlength eth b) (ucast len) d)"

definition ethlite_recvfill :: "'d reg_bus \<Rightarrow> ethlite \<Rightarrow> nat \<Rightarrow> nat \<Rightarrow> Huint \<Rightarrow> memory \<Rightarrow> 'd \<Rightarrow> memory \<times> 'd" where
  "ethlite_recvfill B eth b dst len m d =
     (let (ws, d) = read_regs (word_count len) B (rxbuffer eth b) d in (put_bytes dst (concat (map word_bytes ws)) m, d))"

definition ethlite_recvack :: "'d reg_bus \<Rightarrow> ethlite \<Rightarrow> nat \<Rightarrow> 'd \<Rightarrow> 'd" where
  "ethlite_recvack B eth b d = wr32 B (rxcontrol eth b) (rxintr eth) d"

definition ethlite_recvsize :: "'d reg_bus \<Rightarrow> ethlite \<Rightarrow> nat \<Rightarrow> 'd \<Rightarrow> Hushort \<times> 'd" where
  "ethlite_recvsize B eth b d =
     (let (len, d) = rd32 B (rxlength eth b) d; len = drop_bit 16 len in (if len > 1500 then 1500 else ucast len, d))"

definition ethlite_sendflush :: "'d reg_bus \<Rightarrow> ethlite \<Rightarrow> 'd \<Rightarrow> 'd" where
  "ethlite_sendflush B eth d =
     (let d = (if txcontrol eth 0 \<noteq> 0 then wr32 B (txcontrol eth 0) (txintr eth) d else d)
      in if txcontrol eth 1 \<noteq> 0 then wr32 B (txcontrol eth 1) (txintr eth) d else d)"

definition flush_control :: "'d reg_bus \<Rightarrow> Huint \<Rightarrow> 'd \<Rightarrow> 'd" where
  "flush_control B r d = (if r \<noteq> 0 then let (v, d) = rd32 B r d in wr32 B r (v AND ETHLITE_CONTROL_INTR) d else d)"

partial_function (option) ethlite_recvflush :: "'d reg_bus \<Rightarrow> ethlite \<Rightarrow> 'd \<Rightarrow> 'd option" where
  "ethlite_recvflush B eth d =
     (let (con, d) = ethlite_canrecv B eth d; d = flush_control B (rxcontrol eth 0) d; d = flush_control B (rxcontrol eth 1) d
      in if con then ethlite_recvflush B eth d else Some d)"

definition ethlite_pointers :: "ethlite_config \<Rightarrow> ethlite" where
  "ethlite_pointers c =
     (let at = (\<lambda>on ping pong b. if b = (0 :: nat) then eth_base c + ping else if on then eth_base c + pong else 0)
      in \<lparr>mac = [0x00, 0x00, 0x5E, 0x00, 0xFA, 0xCE, 0x00, 0x00], txintr = 0, rxintr = 0,
          txbuffer = at (send_toggle c) 0x0000 0x0800, rxbuffer = at (recv_toggle c) 0x1000 0x1800,
          txcontrol = at (send_toggle c) 0x07FC 0x0FFC, rxcontrol = at (recv_toggle c) 0x17FC 0x1FFC,
          txlength = at (send_toggle c) 0x07F4 0x0FF4, rxlength = at (recv_toggle c) 0x100C 0x180C\<rparr>)"

definition ethlite_create :: "'d reg_bus \<Rightarrow> ethlite_config \<Rightarrow> 'd \<Rightarrow> (Hint \<times> ethlite \<times> 'd) option" where
  "ethlite_create B c d =
     do { let eth = ethlite_pointers c;
          d \<leftarrow> ethlite_recvflush B eth d;
          let d = ethlite_sendflush B eth d;
          s \<leftarrow> ethlite_setmac B (mac eth) (eth, d);
          Some (SUCCESS, s) }"

definition ethlite_destroy :: "ethlite \<Rightarrow> Hint \<times> ethlite" where
  "ethlite_destroy eth = (SUCCESS, eth\<lparr>txbuffer := (\<lambda>_. 0), txcontrol := (\<lambda>_. 0), txlength := (\<lambda>_. 0),
     rxbuffer := (\<lambda>_. 0), rxcontrol := (\<lambda>_. 0), rxlength := (\<lambda>_. 0)\<rparr>)"

section \<open>The transmitter\<close>

text \<open>
  What the driver relies on of the transmitting side of the controller. \<open>busy b d\<close> tells that buffer
  \<open>b\<close> is being sent; a buffer becomes free by itself, and \<open>wait d\<close> bounds how often it is still seen
  busy. A free buffer stores what is written to it, and writing the status bit sends its first
  bytes, as many as the length register says.
\<close>

record net =
  tx_mem :: "nat \<Rightarrow> nat \<Rightarrow> Huint"
  tx_len :: "nat \<Rightarrow> Huint"
  sent :: "Hubyte list list"

definition tx_bufs :: "ethlite \<Rightarrow> nat set" where
  "tx_bufs eth = {b. b < 2 \<and> txcontrol eth b \<noteq> 0}"

definition status_ok :: "'d reg_bus \<Rightarrow> ethlite \<Rightarrow> ('d \<Rightarrow> net) \<Rightarrow> (nat \<Rightarrow> 'd \<Rightarrow> bool) \<Rightarrow> ('d \<Rightarrow> nat) \<Rightarrow> bool" where
  "status_ok B eth view busy wait \<longleftrightarrow>
     (\<forall>b \<in> tx_bufs eth. \<forall>d. case rd32 B (txcontrol eth b) d of (v, d') \<Rightarrow> view d' = view d \<and> (bit v 0 \<longleftrightarrow> busy b d) \<and>
        (\<forall>b'. busy b' d' \<longrightarrow> busy b' d) \<and> wait d' \<le> wait d \<and> (bit v 0 \<longrightarrow> wait d' < wait d))"

definition buffer_ok :: "'d reg_bus \<Rightarrow> ethlite \<Rightarrow> ('d \<Rightarrow> net) \<Rightarrow> (nat \<Rightarrow> 'd \<Rightarrow> bool) \<Rightarrow> bool" where
  "buffer_ok B eth view busy \<longleftrightarrow>
     (\<forall>b \<in> tx_bufs eth. \<forall>d. \<not> busy b d \<longrightarrow>
        (\<forall>i v. i < 509 \<longrightarrow> \<not> busy b (wr32 B (txbuffer eth b + 4 * of_nat i) v d) \<and>
           view (wr32 B (txbuffer eth b + 4 * of_nat i) v d) =
             (view d)\<lparr>tx_mem := (tx_mem (view d))(b := (tx_mem (view d) b)(i := v))\<rparr>) \<and>
        (\<forall>v. \<not> busy b (wr32 B (txlength eth b) v d) \<and>
           view (wr32 B (txlength eth b) v d) = (view d)\<lparr>tx_len := (tx_len (view d))(b := v)\<rparr>) \<and>
        (\<forall>v. bit v 0 \<and> \<not> bit v 1 \<longrightarrow> view (wr32 B (txcontrol eth b) v d) = (view d)\<lparr>sent := sent (view d) @
           [take (unat (tx_len (view d) b)) (concat (map (\<lambda>i. word_bytes (tx_mem (view d) b i)) [0..<509]))]\<rparr>))"

lemma status_bit: "(v :: Huint) AND ETHLITE_CONTROL_STATUS = 0 \<longleftrightarrow> \<not> bit v 0"
  using and_exp_eq_0_iff_not_bit [of v 0] by (simp add: ETHLITE_CONTROL_STATUS_def)

lemma eth_status_ok:
  assumes "status_ok B eth view busy wait" "b \<in> tx_bufs eth" "eth_status B (txcontrol eth b) d = (s, d')"
  shows "view d' = view d" "s \<longleftrightarrow> busy b d" "busy b' d' \<Longrightarrow> busy b' d" "wait d' \<le> wait d" "s \<Longrightarrow> wait d' < wait d"
proof -
  obtain v where v: "rd32 B (txcontrol eth b) d = (v, d')" "s = bit v 0"
    using assms(3) by (auto simp: eth_status_def status_bit split: prod.splits)
  have "case rd32 B (txcontrol eth b) d of (v, d') \<Rightarrow> view d' = view d \<and> (bit v 0 \<longleftrightarrow> busy b d) \<and>
      (\<forall>b'. busy b' d' \<longrightarrow> busy b' d) \<and> wait d' \<le> wait d \<and> (bit v 0 \<longrightarrow> wait d' < wait d)"
    by (rule spec [OF bspec [OF assms(1) [unfolded status_ok_def] assms(2)]])
  then show "view d' = view d" "s \<longleftrightarrow> busy b d" "busy b' d' \<Longrightarrow> busy b' d" "wait d' \<le> wait d" "s \<Longrightarrow> wait d' < wait d"
    using v by auto
qed

text \<open>Waiting ends with a buffer that is free.\<close>

lemma txwait_free:
  assumes ok: "status_ok B eth view busy wait" and ping: "0 \<in> tx_bufs eth"
  shows "\<exists>b d'. ethlite_txwait B eth d = Some (b, d') \<and> b \<in> tx_bufs eth \<and> \<not> busy b d' \<and> view d' = view d"
proof (induction "wait d" arbitrary: d rule: less_induct)
  case less
  obtain s0 d1 where s0: "eth_status B (txcontrol eth 0) d = (s0, d1)" by fastforce
  note r0 = eth_status_ok [OF ok ping s0]
  have again: ?case if "ethlite_txwait B eth d = ethlite_txwait B eth d'" "wait d' < wait d" "view d' = view d" for d'
    using less [OF that(2)] that(1,3) by simp
  show ?case
  proof (cases "txcontrol eth 1 = 0")
    case True
    show ?thesis
    proof (cases s0)
      case True
      then have "ethlite_txwait B eth d = ethlite_txwait B eth d1"
        using \<open>txcontrol eth 1 = 0\<close> s0 by (subst ethlite_txwait.simps) simp
      then show ?thesis using again True r0(1,5) by blast
    next
      case False
      then show ?thesis using \<open>txcontrol eth 1 = 0\<close> s0 r0(1,2,3) ping by (subst ethlite_txwait.simps) auto
    qed
  next
    case False
    then have pong: "1 \<in> tx_bufs eth" by (simp add: tx_bufs_def)
    obtain s1 d2 where s1: "eth_status B (txcontrol eth 1) d1 = (s1, d2)" by fastforce
    note r1 = eth_status_ok [OF ok pong s1]
    obtain s2 d3 where s2: "eth_status B (txcontrol eth 0) (if s0 then d2 else d1) = (s2, d3)" by fastforce
    note r2 = eth_status_ok [OF ok ping s2]
    show ?thesis
    proof (cases "s0 \<and> s1")
      case True
      then have "wait d2 < wait d" using r0(5) r1(4) by simp
      moreover have "ethlite_txwait B eth d = ethlite_txwait B eth d2"
        using False True s0 s1 by (subst ethlite_txwait.simps) simp
      ultimately show ?thesis using again r0(1) r1(1) by simp
    next
      case both: False
      have "ethlite_txwait B eth d = Some (if s2 then 1 else 0, d3)"
        using False both s0 s1 s2 by (subst ethlite_txwait.simps) (auto split: if_splits)
      moreover have "\<not> busy (if s2 then 1 else 0) d3"
        using both r0(2,3) r1(2,3) r2(2,3) by (auto split: if_splits)
      moreover have "view d3 = view d" using r0(1) r1(1) r2(1) by (simp split: if_splits)
      ultimately show ?thesis using ping pong by auto
    qed
  qed
qed

section \<open>Sending a frame\<close>

lemma byte_word_load: "byte_word m a = load32 m a"
  by (simp add: byte_word_def load32_def be32_def Let_def push_bit_or push_bit_push_bit or.assoc)

lemma hword_word_load: "hword_word m a = load32 m a"
proof (rule bit_word_eqI)
  fix n assume "n < LENGTH(32)"
  then show "bit (hword_word m a) n = bit (load32 m a) n"
    by (auto simp: hword_word_def load32_def load16_def bit_be32 bit_be16 bit_or_iff bit_push_bit_iff bit_ucast_iff numeral_3_eq_3 dest: bit_byte_less)
qed

lemma word_bytes_load [simp]: "word_bytes (load32 m a) = [m a, m (a + 1), m (a + 2), m (a + 3)]"
  by (simp add: word_bytes_def load32_def)

lemma length_word_bytes [simp]: "length (word_bytes w) = 4"
  by (simp add: word_bytes_def)

lemma words_are_bytes: "concat (map (\<lambda>i. word_bytes (load32 m (a + 4 * i))) [0..<n]) = get_bytes a (4 * n) m"
proof (induction n)
  case 0
  then show ?case by (simp add: get_bytes_def)
next
  case (Suc n)
  have "a + 4 * Suc n = Suc (Suc (Suc (Suc (a + 4 * n))))" by simp
  then have "get_bytes a (4 * Suc n) m = get_bytes a (4 * n) m @ word_bytes (load32 m (a + 4 * n))"
    unfolding get_bytes_def by (simp only:) (simp add: numeral_2_eq_2 numeral_3_eq_3)
  then show ?case using Suc by simp
qed

lemma take_words:
  assumes "n \<le> k" "\<And>i. length (f i) = 4"
  shows "take (4 * n) (concat (map f [0..<k])) = concat (map f [0..<n])"
proof -
  have "length (concat (map f [0..<n])) = 4 * n" for n using assms(2) by (induction n) auto
  moreover have "[0..<k] = [0..<n] @ [n..<k]" using upt_add_eq_append [of 0 n "k - n"] assms(1) by simp
  ultimately show ?thesis by simp
qed

lemma copy_words_stored:
  assumes "buffer_ok B eth view busy" "b \<in> tx_bufs eth" "\<not> busy b d" "k + n \<le> 509"
  shows "\<not> busy b (copy_words n B w (txbuffer eth b + 4 * of_nat k) src d) \<and>
    view (copy_words n B w (txbuffer eth b + 4 * of_nat k) src d) = (view d)\<lparr>tx_mem := (tx_mem (view d))(b :=
      (\<lambda>i. if k \<le> i \<and> i < k + n then w (src + 4 * (i - k)) else tx_mem (view d) b i))\<rparr>"
  using assms(3,4)
proof (induction n arbitrary: k src d)
  case 0
  have "(\<lambda>i. if k \<le> i \<and> i < k + 0 then w (src + 4 * (i - k)) else tx_mem (view d) b i) = tx_mem (view d) b"
    by (rule ext) auto
  then show ?case using 0 by (cases "view d") (simp only: copy_words.simps fun_upd_triv, simp)
next
  case (Suc n)
  let ?d = "wr32 B (txbuffer eth b + 4 * of_nat k) (w src) d"
  have "k < 509" and room: "Suc k + n \<le> 509" using Suc.prems(2) by simp_all
  with \<open>k < 509\<close> have d: "\<not> busy b ?d" "view ?d = (view d)\<lparr>tx_mem := (tx_mem (view d))(b := (tx_mem (view d) b)(k := w src))\<rparr>"
    using assms(1,2) Suc.prems(1) unfolding buffer_ok_def by blast+
  have "txbuffer eth b + 4 * of_nat k + 4 = txbuffer eth b + 4 * of_nat (Suc k)" by (simp add: algebra_simps)
  then have step: "copy_words (Suc n) B w (txbuffer eth b + 4 * of_nat k) src d =
      copy_words n B w (txbuffer eth b + 4 * of_nat (Suc k)) (src + 4) ?d" by (simp only: copy_words.simps)
  let ?g = "\<lambda>i. if k \<le> i \<and> i < k + Suc n then w (src + 4 * (i - k)) else tx_mem (view d) b i"
  have "(\<lambda>i. if Suc k \<le> i \<and> i < Suc k + n then w (src + 4 + 4 * (i - Suc k)) else tx_mem (view ?d) b i) = ?g"
  proof (rule ext)
    fix i
    have "w (src + 4 + 4 * (i - Suc k)) = w (src + 4 * (i - k))" if "Suc k \<le> i"
    proof -
      have "src + 4 + 4 * (i - Suc k) = src + 4 * (i - k)" using that by simp
      then show ?thesis by (simp only:)
    qed
    moreover have "tx_mem (view ?d) b i = (if i = k then w src else tx_mem (view d) b i)" unfolding d(2) by simp
    ultimately show "(if Suc k \<le> i \<and> i < Suc k + n then w (src + 4 + 4 * (i - Suc k)) else tx_mem (view ?d) b i) = ?g i"
      by (cases "i = k") (auto simp: le_less)
  qed
  then have "\<not> busy b (copy_words n B w (txbuffer eth b + 4 * of_nat (Suc k)) (src + 4) ?d) \<and>
      view (copy_words n B w (txbuffer eth b + 4 * of_nat (Suc k)) (src + 4) ?d) =
        (view ?d)\<lparr>tx_mem := (tx_mem (view ?d))(b := ?g)\<rparr>"
    using Suc.IH [OF d(1) room, of "src + 4"] by (simp only: simp_thms)
  then show ?case unfolding step d(2) by (simp add: fun_upd_def cong: if_cong)
qed

lemma length_word: "ucast (len :: Hushort) AND 0x0000FFFF = (ucast len :: Huint)"
proof -
  have m: "(0x0000FFFF :: Huint) = mask 16" by (simp add: mask_eq_exp_minus_1)
  have "bit len n \<Longrightarrow> n < 16" for n using bit_imp_le_length [of len n] by simp
  then show ?thesis unfolding m by (auto intro!: bit_word_eqI simp: bit_simps)
qed

lemma unat_length: "unat (ucast (len :: Hushort) :: Huint) = unat len"
  by (simp add: unsigned_ucast_eq take_bit_nat_eq_self_iff less_trans [OF unsigned_less])

lemma aligned_frame:
  assumes "frame mod 4 = 0" "unat len mod 4 = 0"
  shows "ethlite_alignedwrite B dst frame (ucast (len :: Hushort)) m d = copy_words (unat len div 4) B (load32 m) dst frame d"
proof -
  have "\<not> bit frame 0" "\<not> bit frame 1" using assms(1) by (auto simp: bit_iff_odd)
  moreover have q: "unat (ucast len div 4 :: Huint) = unat len div 4" by (simp add: unat_div unat_length)
  moreover have "(ucast len :: Huint) - ucast len div 4 * 4 = ucast len mod 4" by (simp add: minus_div_mult_eq_mod)
  moreover have "(ucast len :: Huint) mod 4 = 0"
    using assms(2) by (simp add: unat_eq_0 [symmetric] unat_mod unat_length)
  ultimately show ?thesis
    by (simp add: ethlite_alignedwrite_def ethlite_wordalignedwrite_def Let_def)
qed

text \<open>
  C36: Sending a frame that starts at a multiple of four and whose length is a multiple of four, up to the
  size of a buffer: the call waits for a free buffer, puts the own address into the frame and
  the controller sends exactly the bytes of the frame.
\<close>

theorem send_transmits:
  assumes "status_ok B eth view busy wait" "buffer_ok B eth view busy" "txcontrol eth 0 \<noteq> 0"
    and "frame mod 4 = 0" "unat len mod 4 = 0" "unat len \<le> 2036" "txintr eth \<in> {0, ETHLITE_CONTROL_INTR}"
    and m': "m' = put_bytes (frame + 6) (take 6 (mac eth)) m"
  shows "\<exists>d'. ethlite_send B eth frame len (m, d) = Some (m', d') \<and>
    sent (view d') = sent (view d) @ [get_bytes frame (unat len) m']"
proof -
  have "0 \<in> tx_bufs eth" using assms(3) by (simp add: tx_bufs_def)
  then obtain b d1 where b: "ethlite_txwait B eth d = Some (b, d1)" "b \<in> tx_bufs eth" "\<not> busy b d1" "view d1 = view d"
    using txwait_free [OF assms(1)] by blast
  let ?n = "unat len div 4"
  define d2 where "d2 = copy_words ?n B (load32 m') (txbuffer eth b) frame d1"
  define d3 where "d3 = wr32 B (txlength eth b) (ucast len) d2"
  let ?v = "txintr eth OR ETHLITE_CONTROL_STATUS"
  have n: "0 + ?n \<le> 509" using assms(6) by simp
  have d2: "\<not> busy b d2" "tx_mem (view d2) b i = load32 m' (frame + 4 * i)" "sent (view d2) = sent (view d)" if "i < ?n" for i
    using copy_words_stored [OF assms(2) b(2,3) n, of "load32 m'" frame] b(4) that by (auto simp: d2_def)
  have free: "\<not> busy b d2" and s2: "sent (view d2) = sent (view d)"
    using copy_words_stored [OF assms(2) b(2,3) n, of "load32 m'" frame] b(4) by (auto simp: d2_def)
  have d3: "\<not> busy b d3" "view d3 = (view d2)\<lparr>tx_len := (tx_len (view d2))(b := ucast len)\<rparr>"
    using assms(2) b(2) free unfolding buffer_ok_def d3_def by blast+
  have "bit ?v 0" "\<not> bit ?v 1" using assms(7) by (auto simp: ETHLITE_CONTROL_INTR_def ETHLITE_CONTROL_STATUS_def bit_simps)
  then have d4: "view (wr32 B (txcontrol eth b) ?v d3) = (view d3)\<lparr>sent := sent (view d3) @
      [take (unat (tx_len (view d3) b)) (concat (map (\<lambda>i. word_bytes (tx_mem (view d3) b i)) [0..<509]))]\<rparr>"
    using assms(2) b(2) d3(1) unfolding buffer_ok_def by blast
  have "take (4 * ?n) (concat (map (\<lambda>i. word_bytes (tx_mem (view d2) b i)) [0..<509])) =
      concat (map (\<lambda>i. word_bytes (tx_mem (view d2) b i)) [0..<?n])"
    using n by (intro take_words) simp_all
  also have "\<dots> = concat (map (\<lambda>i. word_bytes (load32 m' (frame + 4 * i))) [0..<?n])"
    by (intro arg_cong [of _ _ concat] map_cong refl) (use d2(2) in simp)
  also have "\<dots> = get_bytes frame (unat len) m'" using words_are_bytes [of m' frame ?n] assms(5) by (simp add: mod_0_imp_dvd)
  finally have "sent (view (wr32 B (txcontrol eth b) ?v d3)) = sent (view d) @ [get_bytes frame (unat len) m']"
    using d4 d3(2) s2 assms(5) by (simp add: unat_length mod_0_imp_dvd)
  moreover have "ethlite_send B eth frame len (m, d) = Some (m', wr32 B (txcontrol eth b) ?v d3)"
    using b(1) m' aligned_frame [OF assms(4,5), of B] by (simp add: ethlite_send_def d3_def d2_def length_word Let_def)
  ultimately show ?thesis by blast
qed

section \<open>Frames that are not aligned\<close>

text \<open>
  A frame at an odd multiple of two: after the full words the driver takes half of the bytes for not
  yet copied and goes on copying from behind the frame.
\<close>

lemma copy_words_addresses:
  "wr32 B = (\<lambda>a v ws. ws @ [(a, v)]) \<Longrightarrow>
    map fst (copy_words n B w dst src ws) = map fst ws @ map (\<lambda>i. dst + 4 * of_nat i) [0..<n]"
proof (induction n arbitrary: dst src ws)
  case 0
  then show ?case by simp
next
  case (Suc n)
  have "map (\<lambda>i. dst + 4 * of_nat i) [0..<Suc n] = dst # map (\<lambda>i. dst + 4 + 4 * of_nat i) [0..<n]"
    unfolding upt_conv_Cons [OF zero_less_Suc] by (simp add: map_Suc_upt [symmetric] algebra_simps del: upt_Suc)
  then show ?case using Suc by simp
qed

theorem halfword_frame_overruns:
  assumes "wr32 B = (\<lambda>a v ws. ws @ [(a, v)])" "src mod 4 = 2"
  shows "dst + 0x7FC \<in> fst ` set (ethlite_alignedwrite B dst src 1514 m [])"
proof -
  have "\<not> bit src 0" "bit src 1" using assms(2) by (auto simp: bit_iff_odd) presburger+
  then have w: "ethlite_alignedwrite B dst src 1514 m [] = ethlite_bytealignedwrite B (dst + 1512) (src + 1512) 758 m
      (copy_words 378 B (hword_word m) dst src [])"
    by (simp add: ethlite_alignedwrite_def ethlite_hwordalignedwrite_def)
  let ?ws = "copy_words 378 B (hword_word m) dst src []"
  have "map fst (copy_words 189 B (byte_word m) (dst + 1512) (src + 1512) ?ws) =
      map fst ?ws @ map (\<lambda>i. dst + 1512 + 4 * of_nat i) [0..<189]"
    by (rule copy_words_addresses [OF assms(1)])
  moreover have "dst + 0x7FC \<in> (\<lambda>i. dst + 1512 + 4 * of_nat i) ` set [0..<189]" by (rule image_eqI [of _ _ 133]) simp_all
  ultimately have "dst + 0x7FC \<in> set (map fst (copy_words 189 B (byte_word m) (dst + 1512) (src + 1512) ?ws))"
    by (simp only: set_append set_map Un_iff) simp
  then show ?thesis using assms(1) by (auto simp: w ethlite_bytealignedwrite_def Let_def)
qed

text \<open>
  A last word that is not full has its bytes at the low end, where the controller takes them from
  the high end: the last byte of a frame of \<open>4 n + 1\<close> bytes is sent as zero.
\<close>

lemma partial_word_misplaced: "word_bytes (rest_word m src 1) = [0, 0, 0, m src]"
proof -
  have "\<not> bit (m src) (8 + n)" "\<not> bit (m src) (16 + n)" "\<not> bit (m src) (24 + n)" for n
    using bit_byte_less [of "m src"] by fastforce+
  then show ?thesis by (auto simp: word_bytes_def rest_word_def get_bytes_def bit_simps intro!: bit_word_eqI)
qed

section \<open>An example controller\<close>

text \<open>One transmit buffer at address 0 that is free again at once.\<close>

definition example_eth :: ethlite where
  "example_eth = ethlite_pointers \<lparr>eth_base = 0, recv_toggle = False, send_toggle = False\<rparr>"

definition example_eth_bus :: "net reg_bus" where
  "example_eth_bus = \<lparr>rd32 = (\<lambda>a d. (0, d)),
     wr32 = (\<lambda>a v d. if a = 0x7FC then (if bit v 0 \<and> \<not> bit v 1 then d\<lparr>sent := sent d @
           [take (unat (tx_len d 0)) (concat (map (\<lambda>i. word_bytes (tx_mem d 0 i)) [0..<509]))]\<rparr> else d)
       else if a = 0x7F4 then d\<lparr>tx_len := (tx_len d)(0 := v)\<rparr>
       else d\<lparr>tx_mem := (tx_mem d)(0 := (tx_mem d 0)(unat a div 4 := v))\<rparr>)\<rparr>"

lemma example_eth_fields:
  "txcontrol example_eth 0 = 0x7FC" "txlength example_eth 0 = 0x7F4" "txbuffer example_eth 0 = 0" "txintr example_eth = 0"
  "tx_bufs example_eth = {0}" "take 6 (mac example_eth) = [0x00, 0x00, 0x5E, 0x00, 0xFA, 0xCE]"
  by (auto simp: example_eth_def ethlite_pointers_def Let_def tx_bufs_def less_2_cases_iff)

lemma buffer_address: "i < 509 \<Longrightarrow> unat (4 * of_nat i :: Huint) = 4 * i"
  by (simp add: unat_word_ariths unat_of_nat)

lemma example_eth_ok:
  "status_ok example_eth_bus example_eth (\<lambda>d. d) (\<lambda>_ _. False) (\<lambda>_. 0)"
  "buffer_ok example_eth_bus example_eth (\<lambda>d. d) (\<lambda>_ _. False)"
proof -
  show "status_ok example_eth_bus example_eth (\<lambda>d. d) (\<lambda>_ _. False) (\<lambda>_. 0)"
    by (simp add: status_ok_def example_eth_bus_def)
  have "4 * of_nat i \<noteq> (0x7FC :: Huint)" "4 * of_nat i \<noteq> (0x7F4 :: Huint)" if "i < 509" for i
    using that buffer_address [OF that] by (auto dest: arg_cong [of _ _ unat])
  then show "buffer_ok example_eth_bus example_eth (\<lambda>d. d) (\<lambda>_ _. False)"
    by (simp add: buffer_ok_def example_eth_fields example_eth_bus_def buffer_address)
qed

theorem send_transmits_witness:
  "\<exists>m' d'. ethlite_send example_eth_bus example_eth 0 16 (\<lambda>_. 7, \<lparr>tx_mem = \<lambda>_ _. 0, tx_len = \<lambda>_. 0, sent = []\<rparr>) = Some (m', d') \<and>
    sent d' = [[7, 7, 7, 7, 7, 7, 0x00, 0x00, 0x5E, 0x00, 0xFA, 0xCE, 7, 7, 7, 7]]"
proof -
  let ?m = "put_bytes (0 + 6) (take 6 (mac example_eth)) (\<lambda>_. 7)"
  have "\<exists>d'. ethlite_send example_eth_bus example_eth 0 16 (\<lambda>_. 7, \<lparr>tx_mem = \<lambda>_ _. 0, tx_len = \<lambda>_. 0, sent = []\<rparr>) = Some (?m, d') \<and>
      sent d' = sent \<lparr>tx_mem = \<lambda>_ _. 0, tx_len = \<lambda>_. 0, sent = []\<rparr> @ [get_bytes 0 (unat (16 :: Hushort)) ?m]"
    by (rule send_transmits [OF example_eth_ok]) (simp_all add: example_eth_fields)
  moreover have "[0..<16] = [0, 1, 2, 3, 4, 5, 6, 7, 8, 9, 10, 11, 12, 13, 14, 15 :: nat]" by (simp add: upt_rec)
  then have "get_bytes 0 (unat (16 :: Hushort)) ?m = [7, 7, 7, 7, 7, 7, 0x00, 0x00, 0x5E, 0x00, 0xFA, 0xCE, 7, 7, 7, 7]"
    by (simp add: get_bytes_def put_bytes_def example_eth_fields)
  ultimately show ?thesis by auto
qed

end
