(* ===== verification/Vhwti.thy ===== *)
theory Vhwti
  imports User_API
begin

text \<open>
  The hardware thread interface of a processor slave (V-HWTI), as the host and the slave see
  it: \<^verbatim>\<open>include/hthread/hwti/commands.h\<close> and the accessors of
  \<^verbatim>\<open>include/hthread/hwti/hardware.h\<close> that \<open>Kernel\<close> does not have already. A V-HWTI is a block
  of dual-ported memory; reading one of its words has no effect on it. The locale
  \<open>register_file\<close> states what a block of independent registers promises, and \<open>vhwti\<close>
  interprets it on the accessors: two interfaces at different aligned base addresses never
  disturb each other, and the registers of one interface do not overlap.
\<close>

section \<open>Registers and accessors\<close>

definition FLAG_HWTI_FREE :: Huint where "FLAG_HWTI_FREE = 0"

definition FLAG_HWTI_UTILIZED :: Huint where "FLAG_HWTI_UTILIZED = 1"

definition HT_HWTI_GO :: Huint where "HT_HWTI_GO = 1"

definition hwti_read :: "Huint \<Rightarrow> Huint \<Rightarrow> kernel \<Rightarrow> Huint" where
  "hwti_read base reg k = mem (mach k) (hwti_cmd base reg)"

definition hwti_set_free :: "env \<Rightarrow> Huint \<Rightarrow> kernel \<Rightarrow> kernel" where
  "hwti_set_free E base = hwti_write E base 0x0004 FLAG_HWTI_FREE"

definition hwti_get_utilized_flag :: "Huint \<Rightarrow> kernel \<Rightarrow> Huint" where
  "hwti_get_utilized_flag base = hwti_read base 0x0004"

definition hwti_results :: "Huint \<Rightarrow> kernel \<Rightarrow> Huint" where
  "hwti_results base = hwti_read base 0x0014"

definition hwti_timer :: "Huint \<Rightarrow> kernel \<Rightarrow> Huint" where
  "hwti_timer base = hwti_read base 0x0004"

definition hwti_get_last_accelerator :: "Huint \<Rightarrow> kernel \<Rightarrow> Huint" where
  "hwti_get_last_accelerator base = hwti_read base 0x0040"

definition hwti_set_last_accelerator :: "env \<Rightarrow> Huint \<Rightarrow> Huint \<Rightarrow> kernel \<Rightarrow> kernel" where
  "hwti_set_last_accelerator E base = hwti_write E base 0x0040"

definition hwti_get_last_accelerator_ptr :: "Huint \<Rightarrow> kernel \<Rightarrow> Huint" where
  "hwti_get_last_accelerator_ptr base = hwti_read base 0x0044"

definition hwti_set_last_accelerator_ptr :: "env \<Rightarrow> Huint \<Rightarrow> Huint \<Rightarrow> kernel \<Rightarrow> kernel" where
  "hwti_set_last_accelerator_ptr E base = hwti_write E base 0x0044"

definition hwti_get_first_accelerator :: "Huint \<Rightarrow> kernel \<Rightarrow> Huint" where
  "hwti_get_first_accelerator base = hwti_read base 0x0038"

definition hwti_set_first_accelerator :: "env \<Rightarrow> Huint \<Rightarrow> Huint \<Rightarrow> kernel \<Rightarrow> kernel" where
  "hwti_set_first_accelerator E base = hwti_write E base 0x0038"

definition hwti_get_first_accelerator_ptr :: "Huint \<Rightarrow> kernel \<Rightarrow> Huint" where
  "hwti_get_first_accelerator_ptr base = hwti_read base 0x003C"

definition hwti_set_first_accelerator_ptr :: "env \<Rightarrow> Huint \<Rightarrow> Huint \<Rightarrow> kernel \<Rightarrow> kernel" where
  "hwti_set_first_accelerator_ptr E base = hwti_write E base 0x003C"

definition hwti_get_last_function :: "Huint \<Rightarrow> kernel \<Rightarrow> Huint" where
  "hwti_get_last_function base = hwti_read base 0x0018"

definition hwti_get_tuning_table_ptr :: "Huint \<Rightarrow> kernel \<Rightarrow> Huint" where
  "hwti_get_tuning_table_ptr base = hwti_read base 0x0048"

definition hwti_set_tuning_table_ptr :: "env \<Rightarrow> Huint \<Rightarrow> Huint \<Rightarrow> kernel \<Rightarrow> kernel" where
  "hwti_set_tuning_table_ptr E base = hwti_write E base 0x0048"

definition hwti_get_PR_flag :: "Huint \<Rightarrow> kernel \<Rightarrow> Huint" where
  "hwti_get_PR_flag base = hwti_read base 0x004C"

definition hwti_set_PR_flag :: "env \<Rightarrow> Huint \<Rightarrow> Huint \<Rightarrow> kernel \<Rightarrow> kernel" where
  "hwti_set_PR_flag E base = hwti_write E base 0x004C"

definition hwti_get_accelerator_hw_counter :: "Huint \<Rightarrow> kernel \<Rightarrow> Huint" where
  "hwti_get_accelerator_hw_counter base = hwti_read base 0x0050"

definition hwti_set_accelerator_hw_counter :: "env \<Rightarrow> Huint \<Rightarrow> Huint \<Rightarrow> kernel \<Rightarrow> kernel" where
  "hwti_set_accelerator_hw_counter E base = hwti_write E base 0x0050"

definition hwti_get_accelerator_sw_counter :: "Huint \<Rightarrow> kernel \<Rightarrow> Huint" where
  "hwti_get_accelerator_sw_counter base = hwti_read base 0x0054"

definition hwti_set_accelerator_sw_counter :: "env \<Rightarrow> Huint \<Rightarrow> Huint \<Rightarrow> kernel \<Rightarrow> kernel" where
  "hwti_set_accelerator_sw_counter E base = hwti_write E base 0x0054"

definition hwti_get_accelerator_pr_counter :: "Huint \<Rightarrow> kernel \<Rightarrow> Huint" where
  "hwti_get_accelerator_pr_counter base = hwti_read base 0x0058"

definition hwti_set_accelerator_pr_counter :: "env \<Rightarrow> Huint \<Rightarrow> Huint \<Rightarrow> kernel \<Rightarrow> kernel" where
  "hwti_set_accelerator_pr_counter E base = hwti_write E base 0x0058"

text \<open>The base addresses the platform generator hands out: 256-byte blocks of plain memory.\<close>

definition hwti_base :: "env \<Rightarrow> Huint \<Rightarrow> bool" where
  "hwti_base E b \<longleftrightarrow> b \<noteq> 0 \<and> take_bit 8 b = 0 \<and> mem_addr (plat E) b"

text \<open>An address outside the block of an interface.\<close>

definition outside :: "Huint \<Rightarrow> Huint \<Rightarrow> bool" where
  "outside b a \<longleftrightarrow> drop_bit 8 a \<noteq> drop_bit 8 b"

lemmas hwti_set_defs =
  hwti_set_free_def hwti_set_last_accelerator_def hwti_set_last_accelerator_ptr_def
  hwti_set_first_accelerator_def hwti_set_first_accelerator_ptr_def hwti_set_tuning_table_ptr_def
  hwti_set_PR_flag_def hwti_set_accelerator_hw_counter_def hwti_set_accelerator_sw_counter_def
  hwti_set_accelerator_pr_counter_def

lemmas hwti_get_defs =
  hwti_get_utilized_flag_def hwti_results_def hwti_timer_def hwti_get_last_accelerator_def
  hwti_get_last_accelerator_ptr_def hwti_get_first_accelerator_def
  hwti_get_first_accelerator_ptr_def hwti_get_last_function_def hwti_get_tuning_table_ptr_def
  hwti_get_PR_flag_def hwti_get_accelerator_hw_counter_def hwti_get_accelerator_sw_counter_def
  hwti_get_accelerator_pr_counter_def

section \<open>Addresses of registers\<close>

lemma reg_small: "(r :: Huint) < 0x100 \<Longrightarrow> take_bit 8 r = r"
  by (rule word_unat_eq_iff [THEN iffD2]) (simp add: unsigned_take_bit_eq word_less_nat_alt take_bit_nat_eq_self)

lemma reg_bits: "(r :: Huint) < 0x100 \<Longrightarrow> bit r n \<Longrightarrow> n < 8"
  by (metis reg_small bit_take_bit_iff)

lemma reg_block:
  assumes "r < 0x100" and "8 \<le> n"
  shows "drop_bit n (hwti_cmd b r) = drop_bit n b"
  using reg_bits [OF assms(1)] assms(2)
  by (intro bit_word_eqI) (fastforce simp: hwti_cmd_def bit_simps)

lemma mem_addr_reg: "hwti_base E b \<Longrightarrow> r < 0x100 \<Longrightarrow> mem_addr (plat E) (hwti_cmd b r)"
  by (simp add: hwti_base_def mem_addr_def window_def reg_block)

lemma reg_inj:
  assumes "take_bit 8 b = 0" "take_bit 8 b' = 0" "r < 0x100" "r' < 0x100"
  shows "hwti_cmd b r = hwti_cmd b' r' \<longleftrightarrow> b = b' \<and> r = r'"
proof
  assume e: "hwti_cmd b r = hwti_cmd b' r'"
  have t: "take_bit 8 (hwti_cmd b r) = r" "take_bit 8 (hwti_cmd b' r') = r'"
    using assms by (simp_all add: hwti_cmd_def take_bit_or reg_small)
  have "r = r'" using t(1) unfolding e t(2) by (rule sym)
  moreover have "drop_bit 8 b = drop_bit 8 b'" using e reg_block [OF _ order_refl] assms by metis
  then have "push_bit 8 (drop_bit 8 b) + take_bit 8 b = push_bit 8 (drop_bit 8 b') + take_bit 8 b'"
    using assms(1,2) by simp
  then have "b = b'" by (simp only: bits_ident)
  ultimately show "b = b' \<and> r = r'" by (intro conjI)
qed simp

lemma reg_plus:
  assumes "take_bit 8 b = 0" "r < 0x100"
  shows "hwti_cmd b r = b + r"
proof -
  have "\<not> (bit b n \<and> bit r n)" for n
    using reg_bits [OF assms(2), of n] arg_cong [OF assms(1), of "\<lambda>w. bit w n"] by (auto simp: bit_simps)
  then have "b AND r = 0" by (intro bit_word_eqI) (simp add: bit_simps)
  then show ?thesis by (simp add: hwti_cmd_def disjunctive_add_eq_or)
qed

text \<open>The scheduler takes the address of a register for the address of a hardware thread.\<close>

lemma reg_not_priority:
  assumes "hwti_base E b" "r < 0x100"
  shows "\<not> sw_range (hwti_cmd b r)"
proof
  assume "sw_range (hwti_cmd b r)"
  then have "drop_bit 1 (drop_bit 7 (hwti_cmd b r)) = 0" by (simp only: sw_range_def drop_bit_of_0)
  then have "drop_bit 8 b = 0" using reg_block [OF assms(2), of 8 b] by (simp add: drop_bit_drop_bit)
  then have "b = 0"
    using assms(1) bits_ident [of 8 b] by (simp add: hwti_base_def)
  with assms(1) show False by (simp add: hwti_base_def)
qed

lemma outside_reg: "outside b a \<Longrightarrow> r < 0x100 \<Longrightarrow> hwti_cmd b r \<noteq> a"
  using reg_block [OF _ order_refl, of r b] by (auto simp: outside_def)

section \<open>Register files\<close>

text \<open>
  A register file: reading a register after a write to a register gives the written value
  when it is the same one, and what it held before otherwise. It follows that a sequence of
  writes to different registers can be read back, in any order, and leaves the others alone.
\<close>

locale register_file =
  fixes reg_ok :: "'r \<Rightarrow> bool" and rd :: "'r \<Rightarrow> 's \<Rightarrow> 'v" and wr :: "'r \<Rightarrow> 'v \<Rightarrow> 's \<Rightarrow> 's"
  assumes rd_wr: "reg_ok r \<Longrightarrow> reg_ok r' \<Longrightarrow> rd r' (wr r v s) = (if r' = r then v else rd r' s)"
begin

definition writes :: "('r \<times> 'v) list \<Rightarrow> 's \<Rightarrow> 's" where
  "writes ws = fold (\<lambda>(r, v). wr r v) ws"

lemma writes_frame:
  "list_all (\<lambda>(r, v). reg_ok r) ws \<Longrightarrow> reg_ok r' \<Longrightarrow> r' \<notin> fst ` set ws \<Longrightarrow>
   rd r' (writes ws s) = rd r' s"
  by (induction ws arbitrary: s) (auto simp: writes_def rd_wr)

lemma writes_read:
  "list_all (\<lambda>(r, v). reg_ok r) ws \<Longrightarrow> distinct (map fst ws) \<Longrightarrow> (r', v') \<in> set ws \<Longrightarrow>
   rd r' (writes ws s) = v'"
proof (induction ws arbitrary: s)
  case Nil
  then show ?case by simp
next
  case (Cons w ws)
  obtain r v where w: "w = (r, v)" by fastforce
  have step: "writes (w # ws) s = writes ws (wr r v s)" by (simp add: writes_def w)
  show ?case
  proof (cases "(r', v') = w")
    case True
    with Cons.prems have "r' \<notin> fst ` set ws" by (auto simp: w)
    with Cons.prems True show ?thesis by (simp add: w writes_frame rd_wr step [unfolded w])
  next
    case False
    with Cons show ?thesis by (simp add: step)
  qed
qed

end

text \<open>The state outside the memory is untouched by a write to a register.\<close>

lemma hwti_write_mem:
  "hwti_base E b \<Longrightarrow> r < 0x100 \<Longrightarrow>
   hwti_write E b r v k = k\<lparr>mach := (mach k)\<lparr>mem := (mem (mach k))(hwti_cmd b r := v)\<rparr>\<rparr>"
  by (simp add: hwti_write_def store_mem mem_addr_reg)

lemma hwti_bus_read:
  "hwti_base E b \<Longrightarrow> r < 0x100 \<Longrightarrow>
   on_mach (read_reg (plat E) (hwti_cmd b r)) k = (hwti_read b r k, k)"
  using mem_addr_reg [of E b r] by (simp add: on_mach_def read_reg_def mem_addr_def hwti_read_def)

interpretation vhwti: register_file
  "\<lambda>(b, r). hwti_base E b \<and> r < 0x100" "\<lambda>(b, r). hwti_read b r" "\<lambda>(b, r). hwti_write E b r" for E
proof (unfold_locales, goal_cases)
  case (1 r r' v s)
  obtain b q b' q' where "r = (b, q)" "r' = (b', q')" by fastforce
  then show ?case
    using 1 reg_inj [of b b' q q'] by (auto simp: hwti_write_mem hwti_read_def hwti_base_def)
qed

lemma hwti_read_write:
  "hwti_base E b \<Longrightarrow> hwti_base E b' \<Longrightarrow> r < 0x100 \<Longrightarrow> r' < 0x100 \<Longrightarrow>
   hwti_read b' r' (hwti_write E b r v k) = (if b' = b \<and> r' = r then v else hwti_read b' r' k)"
  using vhwti.rd_wr [of E "(b, r)" "(b', r')" v k] by simp

lemma hwti_write_frame [simp]:
  assumes "hwti_base E b" "r < 0x100"
  shows "cores (mach (hwti_write E b r v k)) = cores (mach k)"
    "kcores (hwti_write E b r v k) = kcores k"
    "syncm (mach (hwti_write E b r v k)) = syncm (mach k)"
    "threads (hwti_write E b r v k) = threads k" "attr_heap (hwti_write E b r v k) = attr_heap k"
    "cpu (hwti_write E b r v k) = cpu k" "saved (hwti_write E b r v k) = saved k"
  using assms by (simp_all add: hwti_write_mem kcores_def)

section \<open>Handing a thread to an interface\<close>

text \<open>
  What \<^verbatim>\<open>_setup_thread\<close> leaves in the interface of a hardware thread. The writes of
  \<open>setup_hwti\<close> go to nine different registers, so each can be read back.
\<close>

definition setup_words :: "env \<Rightarrow> Huint \<Rightarrow> Huint \<Rightarrow> Huint \<Rightarrow> (Huint \<times> Huint) list" where
  "setup_words E t start arg =
     [(0x0C, 2), (0x00, t), (0x10, arg), (0x18, start), (0x24, threads_base E),
      (0x28, mb_context_base E), (0x20, stacks_base E), (0x2C, bootstrap_thread E), (0x04, 1)]"

lemma setup_hwti_writes:
  "setup_hwti E b t start arg k =
   vhwti.writes E (map (\<lambda>(r, v). ((b, r), v)) (setup_words E t start arg)) k"
  by (simp add: setup_hwti_def vhwti.writes_def setup_words_def hwti_reset_def hwti_setid_def hwti_setarg_def
      hwti_set_fcn_ptr_def hwti_set_global_context_ptr_def hwti_set_global_context_table_ptr_def
      hwti_set_global_stack_ptr_def hwti_set_bootstrap_ptr_def hwti_set_utilized_def)

lemma setup_words_ok:
  "hwti_base E b \<Longrightarrow> list_all (\<lambda>(r, v). case r of (b, r) \<Rightarrow> hwti_base E b \<and> r < 0x100)
     (map (\<lambda>(r, v). ((b, r), v)) (setup_words E t start arg))"
  by (simp add: setup_words_def)

lemma setup_hwti_reads:
  assumes "hwti_base E b" "(r, v) \<in> set (setup_words E t start arg)"
  shows "hwti_read b r (setup_hwti E b t start arg k) = v"
proof -
  have "((b, r), v) \<in> set (map (\<lambda>(r, v). ((b, r), v)) (setup_words E t start arg))"
    using assms(2) by force
  from vhwti.writes_read [OF setup_words_ok [OF assms(1)] _ this]
  show ?thesis by (simp add: setup_hwti_writes) (simp add: setup_words_def)
qed

lemma setup_hwti_other:
  assumes "hwti_base E b" "hwti_base E b'" "r < 0x100" "b' \<noteq> b \<or> r \<notin> fst ` set (setup_words E t start arg)"
  shows "hwti_read b' r (setup_hwti E b t start arg k) = hwti_read b' r k"
proof -
  have "(b', r) \<notin> fst ` set (map (\<lambda>(r, v). ((b, r), v)) (setup_words E t start arg))"
    using assms(4) by force
  from vhwti.writes_frame [OF setup_words_ok [OF assms(1)] _ this] assms(2,3)
  show ?thesis by (simp add: setup_hwti_writes)
qed

lemma setup_hwti_frame [simp]:
  assumes "hwti_base E b"
  shows "kcores (setup_hwti E b t start arg k) = kcores k"
    "syncm (mach (setup_hwti E b t start arg k)) = syncm (mach k)"
    "threads (setup_hwti E b t start arg k) = threads k"
    "attr_heap (setup_hwti E b t start arg k) = attr_heap k"
    "cpu (setup_hwti E b t start arg k) = cpu k" "saved (setup_hwti E b t start arg k) = saved k"
  using assms by (simp_all add: setup_hwti_writes vhwti.writes_def setup_words_def)

text \<open>
  The state of an interface whose slave has been given thread \<open>t\<close>: its registers hold what
  the kernel wrote, the slave is marked as utilized and the command register says go.
\<close>

definition handed_over :: "env \<Rightarrow> Huint \<Rightarrow> tid \<Rightarrow> Huint \<Rightarrow> Huint \<Rightarrow> kernel \<Rightarrow> bool" where
  "handed_over E b t func arg k \<longleftrightarrow>
     hwti_read b 0x00 k = ucast t \<and> hwti_read b 0x04 k = FLAG_HWTI_UTILIZED \<and>
     hwti_read b 0x0C k = HT_HWTI_GO \<and> hwti_read b 0x10 k = arg \<and> hwti_read b 0x18 k = func \<and>
     hwti_read b 0x24 k = threads_base E \<and> hwti_read b 0x20 k = stacks_base E \<and>
     running (entries (tm (kcores k)) t) \<and> \<not> queue_bit (thread_ram (sch (kcores k)) t) \<and>
     param_ram (sch (kcores k)) t = hwti_cmd b 0x0C \<and> retval (threads k (ucast t)) = 0"

end
