(* ===== verification/Dispatch.thy ===== *)
theory Dispatch
  imports Vhwti
begin

text \<open>
  The heterogeneous dispatcher: \<^verbatim>\<open>compiler/common/table_code_template.c\<close> and \<^verbatim>\<open>typedefs.c\<close>, the
  C code that the heterogeneous compiler splices into every program, and
  \<^verbatim>\<open>src/software/accelerators/pr.c\<close>. The host keeps a table of the program's thread functions
  (one handle per instruction set), a table of the slave processors and a queue of threads
  that found no slave; \<^verbatim>\<open>find_best_match\<close> picks the slave for a function and
  \<^verbatim>\<open>thread_create\<close> hands the thread to it through the kernel.

  What the compiler generates around this code (the addresses of the slaves' interfaces, the
  thread profiles, the lists of preferred slaves, the calls that load the table) and the
  build's switches (\<^verbatim>\<open>PR\<close>, \<^verbatim>\<open>OPCODE_FLAGGING\<close>, \<^verbatim>\<open>CHECK_FIRST_POLYMORPHIC\<close>, \<^verbatim>\<open>BASE_SCHEDULER\<close>)
  are fields of the parameter \<open>dispatch\<close>. The word \<^verbatim>\<open>slave_table[i].acc\<close> and the table
  \<^verbatim>\<open>func_2_acc_table\<close> are written by the slaves through pointers, so they live in the machine's
  memory. An index outside an array, a failed assertion and a loop that never ends give
  \<open>None\<close>. The field \<open>elsewhere\<close> is what the slaves, the devices and the other threads do between
  two polls of a waiting loop. The floating-point tuning table is not filled in here.
\<close>

section \<open>Constants and data\<close>

definition SOFTWARE_THREAD :: Huint where "SOFTWARE_THREAD = 0"

definition DYNAMIC_HW :: Huint where "DYNAMIC_HW = 1"

definition STATIC_HW_OFFSET :: Huint where "STATIC_HW_OFFSET = -2"

definition TABLE_INIT :: Huint where "TABLE_INIT = 0xDEADBEEF"

definition MAGIC_NUMBER :: Huint where "MAGIC_NUMBER = TABLE_INIT"

definition ENQUEUE_THREAD :: Hint where "ENQUEUE_THREAD = -2"

definition THREAD_QUEUE_MAX :: Huint where "THREAD_QUEUE_MAX = 100"

definition NO_ACC :: Huint where "NO_ACC = -1"

definition NUM_ACCELERATORS :: nat where "NUM_ACCELERATORS = 5"

definition PR_FLAG :: Huint where "PR_FLAG = 1"

lemmas dispatch_consts = SOFTWARE_THREAD_def DYNAMIC_HW_def STATIC_HW_OFFSET_def TABLE_INIT_def
  MAGIC_NUMBER_def ENQUEUE_THREAD_def THREAD_QUEUE_MAX_def NO_ACC_def PR_FLAG_def

record thread_profile_t =
  idiv :: Huint
  fpu :: Huint
  barrel :: Huint
  mul :: Huint
  idiv_ratio :: Huint
  fpu_ratio :: Huint
  barrel_ratio :: Huint
  mul_ratio :: Huint
  first_accelerator :: Hint
  prefer_PR :: Huint

record slave_t =
  isa :: Huint
  vhwti_address :: Huint
  has_pr :: Huint
  configuration :: thread_profile_t

record thread_entry_t =
  entry_id :: Huint
  handles :: "Huint list"
  binary :: "Huint list"
  binary_size :: "Huint list"
  entry_configuration :: thread_profile_t
  preferred_processors :: "Huint list"

record Qnode_t =
  q_tid :: Huint
  q_attr :: Huint
  q_func_id :: Huint
  q_arg :: Huint

record dispatch =
  kenv :: env
  dflt_attrs :: Huint
  hwti_array :: "Huint list"
  slave_table_addr :: Huint
  slave_table_size :: Huint
  thread_profile :: "thread_profile_t list"
  preferred_list :: "Huint list list"
  non_preferred_list :: "Huint list list"
  table_entries :: "(Huint \<times> Huint \<times> Huint \<times> Huint \<times> Huint) list"
  func_2_acc_addr :: Huint
  tuning_table_addr :: Huint
  TYPE_HOST :: Huint
  SW_TRIGGER :: "Huint list"
  STATUS :: "Huint list"
  PR :: bool
  OPCODE_FLAGGING :: bool
  CHECK_FIRST_POLYMORPHIC :: bool
  BASE_SCHEDULER :: bool
  pr_config_mb :: "kernel \<Rightarrow> kernel"
  elsewhere :: "kernel \<Rightarrow> kernel"
  time_get :: "kernel \<Rightarrow> 64 word"

record matches =
  total_calls :: Huint
  perfect_match_counter :: Huint
  best_match_counter :: Huint
  better_match_counter :: Huint
  possible_match_counter :: Huint
  best_match :: Hint
  better_match :: Hint
  possible_match :: Hint

record host =
  kern :: kernel
  global_thread_table :: "thread_entry_t list"
  table_initialized_flag :: Huint
  slave_table :: "slave_t list"
  found :: matches
  ThreadQueue :: "Qnode_t list"
  head :: Huint
  tail :: Huint
  thread_head_index :: Huint
  thread_tail_index :: Huint
  thread_entries :: Huint
  create_overhead :: "64 word"
  join_overhead :: "64 word"
  randomize_overhead :: "64 word"
  START :: "64 word"
  STOP :: "64 word"
  DIFF :: "64 word"

text \<open>An array access: \<open>None\<close> when the index is outside the array.\<close>

definition at :: "'a list \<Rightarrow> Huint \<Rightarrow> 'a option" where
  "at xs i = (if unat i < length xs then Some (xs ! unat i) else None)"

definition NUM_AVAILABLE_HETERO_CPUS :: "dispatch \<Rightarrow> Huint" where
  "NUM_AVAILABLE_HETERO_CPUS D = of_nat (length (hwti_array D))"

definition slave_numbers :: "dispatch \<Rightarrow> Huint list" where
  "slave_numbers D = map of_nat [0..<length (hwti_array D)]"

text \<open>The addresses of \<^verbatim>\<open>slave_table[i].acc\<close>, the first member, and of \<^verbatim>\<open>func_2_acc_table[f]\<close>.\<close>

definition acc_addr :: "dispatch \<Rightarrow> Huint \<Rightarrow> Huint" where
  "acc_addr D i = slave_table_addr D + i * slave_table_size D"

definition func_2_acc_entry :: "dispatch \<Rightarrow> Huint \<Rightarrow> Huint" where
  "func_2_acc_entry D f = func_2_acc_addr D + 4 * f"

definition upd_kern :: "(kernel \<Rightarrow> kernel) \<Rightarrow> host \<Rightarrow> host" where
  "upd_kern f h = h\<lparr>kern := f (kern h)\<rparr>"

section \<open>Partial reconfiguration (pr.c)\<close>

partial_function (option) pr_poll :: "(kernel \<Rightarrow> kernel) \<Rightarrow> Huint \<Rightarrow> kernel \<Rightarrow> (Hint \<times> kernel) option" where
  "pr_poll dev status k =
     (let ReadStatus = mem (mach k) status in
      if ReadStatus AND 0x78 \<noteq> 0 then Some (FAILURE, k)
      else if ReadStatus AND 0x07 \<noteq> 7 then pr_poll dev status (dev k)
      else Some (SUCCESS, k))"

definition perform_PR :: "dispatch \<Rightarrow> Huint \<Rightarrow> Huint \<Rightarrow> kernel \<Rightarrow> (Hint \<times> kernel) option" where
  "perform_PR D mb accelerator_type k =
     (if mb \<ge> 16 then Some (FAILURE, k)
      else case (at (SW_TRIGGER D) mb, at (STATUS D) mb) of
        (Some trigger, Some status) \<Rightarrow>
          (let k1 = (if mem (mach k) trigger AND 0x8000 = 0 then store (kenv D) trigger accelerator_type k
                     else k)
           in case pr_poll (elsewhere D) status k1 of
                None \<Rightarrow> None
              | Some (r, k2) \<Rightarrow>
                  if r = FAILURE then Some (FAILURE, k2)
                  else (case at (hwti_array D) mb of
                          None \<Rightarrow> None
                        | Some b \<Rightarrow> Some (SUCCESS, hwti_set_last_accelerator (kenv D) b accelerator_type k2)))
      | _ \<Rightarrow> None)"

section \<open>The thread table\<close>

definition init_thread_table :: "thread_entry_t list \<Rightarrow> thread_entry_t list" where
  "init_thread_table tb =
     map (\<lambda>e. e\<lparr>entry_id := TABLE_INIT, handles := map (\<lambda>_. TABLE_INIT) (handles e),
               binary := map (\<lambda>_. TABLE_INIT) (binary e),
               binary_size := map (\<lambda>_. 0) (binary_size e)\<rparr>) tb"

definition insert_table_entry ::
  "thread_entry_t list \<Rightarrow> Huint \<Rightarrow> Huint \<Rightarrow> Huint \<Rightarrow> Huint \<Rightarrow> Huint \<Rightarrow> thread_entry_t list option" where
  "insert_table_entry t func_id type thread_handle bin intermediate_size =
     (case at t func_id of
        None \<Rightarrow> None
      | Some e \<Rightarrow>
          if unat type < length (handles e) \<and> unat type < length (binary e) \<and>
             unat type < length (binary_size e)
          then Some (t[unat func_id := e\<lparr>entry_id := func_id,
                 handles := (handles e)[unat type := thread_handle],
                 binary := (binary e)[unat type := bin],
                 binary_size := (binary_size e)[unat type := intermediate_size]\<rparr>])
          else None)"

definition lookup_thread :: "thread_entry_t list \<Rightarrow> Huint \<Rightarrow> Huint \<Rightarrow> Huint option" where
  "lookup_thread t func_id type = (case at t func_id of None \<Rightarrow> None | Some e \<Rightarrow> at (handles e) type)"

definition lookup_binary :: "thread_entry_t list \<Rightarrow> Huint \<Rightarrow> Huint \<Rightarrow> Huint option" where
  "lookup_binary t func_id type = (case at t func_id of None \<Rightarrow> None | Some e \<Rightarrow> at (binary e) type)"

definition lookup_size :: "thread_entry_t list \<Rightarrow> Huint \<Rightarrow> Huint \<Rightarrow> Huint option" where
  "lookup_size t func_id type = (case at t func_id of None \<Rightarrow> None | Some e \<Rightarrow> at (binary_size e) type)"

definition lookup_type :: "thread_entry_t list \<Rightarrow> Huint \<Rightarrow> Huint" where
  "lookup_type tb handle =
     fold (\<lambda>e. fold (\<lambda>(t, x) found_type. if handle = x then of_nat t else found_type)
                 (enumerate 0 (handles e))) tb TABLE_INIT"

text \<open>The generated \<^verbatim>\<open>load_my_table\<close> is a sequence of calls of \<^verbatim>\<open>insert_table_entry\<close>.\<close>

fun load_my_table ::
  "(Huint \<times> Huint \<times> Huint \<times> Huint \<times> Huint) list \<Rightarrow> thread_entry_t list \<Rightarrow> thread_entry_t list option" where
  "load_my_table [] tb = Some tb"
| "load_my_table ((f, ty, handle, bin, sz) # es) tb =
     (case insert_table_entry tb f ty handle bin sz of None \<Rightarrow> None | Some tb' \<Rightarrow> load_my_table es tb')"

section \<open>Access to the slaves\<close>

definition check_valid_slave_num :: "dispatch \<Rightarrow> Huint \<Rightarrow> bool" where
  "check_valid_slave_num D slave_num = (\<not> slave_num > NUM_AVAILABLE_HETERO_CPUS D)"

definition get_last_function :: "dispatch \<Rightarrow> Huint \<Rightarrow> host \<Rightarrow> Huint option" where
  "get_last_function D slave_num h =
     (if \<not> check_valid_slave_num D slave_num then None
      else map_option (\<lambda>b. hwti_get_last_function b (kern h)) (at (hwti_array D) slave_num))"

definition get_last_accelerator :: "dispatch \<Rightarrow> Huint \<Rightarrow> host \<Rightarrow> Huint option" where
  "get_last_accelerator D slave_num h =
     (if \<not> check_valid_slave_num D slave_num then None
      else map_option (\<lambda>b. hwti_get_last_accelerator b (kern h)) (at (hwti_array D) slave_num))"

definition get_first_accelerator :: "dispatch \<Rightarrow> Huint \<Rightarrow> host \<Rightarrow> Huint option" where
  "get_first_accelerator D slave_num h =
     (if \<not> check_valid_slave_num D slave_num then None
      else map_option (\<lambda>b. hwti_get_first_accelerator b (kern h)) (at (hwti_array D) slave_num))"

definition get_num_free_slaves :: "dispatch \<Rightarrow> kernel \<Rightarrow> Huint" where
  "get_num_free_slaves D k =
     fold (\<lambda>b free. if hwti_get_utilized_flag b k = FLAG_HWTI_FREE then free + 1 else free)
       (hwti_array D) 0"

definition get_utilized_flags :: "Huint \<Rightarrow> kernel \<Rightarrow> Huint" where
  "get_utilized_flags arg k = (if hwti_get_utilized_flag arg k = FLAG_HWTI_FREE then 1 else 0)"

definition clear_utilized_flags :: "dispatch \<Rightarrow> kernel \<Rightarrow> kernel" where
  "clear_utilized_flags D = fold (hwti_set_free (kenv D)) (hwti_array D)"

section \<open>Initialisation\<close>

definition init_func_2_acc_table :: "dispatch \<Rightarrow> host \<Rightarrow> host" where
  "init_func_2_acc_table D h =
     upd_kern (fold (\<lambda>f. store (kenv D) (func_2_acc_entry D (of_nat f)) MAGIC_NUMBER)
       [0..<length (global_thread_table h)]) h"

definition init_slave :: "dispatch \<Rightarrow> Huint \<times> Huint \<Rightarrow> kernel \<Rightarrow> kernel" where
  "init_slave D x k =
     (case x of (i, b) \<Rightarrow>
        let E = kenv D;
            k1 = hwti_set_last_accelerator_ptr E b (acc_addr D i) k;
            k2 = hwti_set_last_accelerator E b (mem (mach k1) (acc_addr D i)) k1;
            k3 = hwti_set_tuning_table_ptr E b (tuning_table_addr D) k2
        in hwti_set_PR_flag E b (if PR D then PR_FLAG else 0) k3)"

text \<open>The self-test of the reconfigurable regions: a failure stops the program for ever.\<close>

fun pr_selftest :: "dispatch \<Rightarrow> (Huint \<times> Huint) list \<Rightarrow> kernel \<Rightarrow> kernel option" where
  "pr_selftest D [] k = Some k"
| "pr_selftest D ((i, a) # rest) k =
     (case perform_PR D i a k of
        None \<Rightarrow> None
      | Some (r, k') \<Rightarrow>
          if r \<noteq> SUCCESS then None else pr_selftest D rest (store (kenv D) (acc_addr D i) a k'))"

definition init_slaves :: "dispatch \<Rightarrow> host \<Rightarrow> host option" where
  "init_slaves D h =
     (let h1 = upd_kern (fold (init_slave D) (zip (slave_numbers D) (hwti_array D))) h;
          h2 = h1\<lparr>slave_table := map (\<lambda>s. s\<lparr>has_pr := if PR D then PR_FLAG else 0\<rparr>) (slave_table h1)\<rparr>
      in if PR D then
           map_option (\<lambda>k. h2\<lparr>kern := k\<rparr>)
             (pr_selftest D (List.product (slave_numbers D) (map of_nat [0..<NUM_ACCELERATORS]))
               (pr_config_mb D (kern h2)))
         else Some h2)"

definition reset_counters :: "dispatch \<Rightarrow> Huint \<Rightarrow> kernel \<Rightarrow> kernel" where
  "reset_counters D b k =
     (let E = kenv D in
      hwti_set_accelerator_pr_counter E b 0
        (hwti_set_accelerator_sw_counter E b 0 (hwti_set_accelerator_hw_counter E b 0 k)))"

definition init_host_tables :: "dispatch \<Rightarrow> host \<Rightarrow> host option" where
  "init_host_tables D h =
     (if table_initialized_flag h \<noteq> 0 then Some h
      else
        let h1 = h\<lparr>table_initialized_flag := 1\<rparr> in
        case load_my_table (table_entries D) (init_thread_table (global_thread_table h1)) of
          None \<Rightarrow> None
        | Some tb \<Rightarrow>
            case init_slaves D (init_func_2_acc_table D (h1\<lparr>global_thread_table := tb\<rparr>)) of
              None \<Rightarrow> None
            | Some h2 \<Rightarrow>
                let h3 = h2\<lparr>join_overhead := 0, randomize_overhead := 0, create_overhead := 0\<rparr>;
                    h4 = upd_kern (fold (reset_counters D) (hwti_array D)) h3
                in Some (h4\<lparr>found := (found h4)\<lparr>total_calls := 0, perfect_match_counter := 0,
                         best_match_counter := 0, better_match_counter := 0,
                         possible_match_counter := 0\<rparr>,
                       head := 0, tail := 0, thread_head_index := 0, thread_tail_index := 0,
                       thread_entries := 0\<rparr>))"

section \<open>Choosing a slave\<close>

text \<open>The slave looked at in one turn of the loop (lines 1269 to 1295).\<close>

definition candidate :: "dispatch \<Rightarrow> Huint \<Rightarrow> bool \<Rightarrow> Huint \<Rightarrow> Huint option" where
  "candidate D func_id hasPolyFunction i =
     (if \<not> OPCODE_FLAGGING D then Some i
      else case (at (preferred_list D) func_id, at (non_preferred_list D) func_id) of
        (Some ps, Some ns) \<Rightarrow>
          if \<not> hasPolyFunction then
            (case at ps 0 of None \<Rightarrow> None | Some p \<Rightarrow> if p = -1 then at ns i else at ps i)
          else (case at ps i of None \<Rightarrow> None | Some p \<Rightarrow> if p = -1 then at ns i else Some p)
      | _ \<Rightarrow> None)"

text \<open>
  A free slave is weighed: \<open>Some r\<close> when the function returns \<open>r\<close> at once. The first version is
  that of \<^verbatim>\<open>CHECK_FIRST_POLYMORPHIC\<close>, the second only counts and takes the slave.
\<close>

definition weigh_first :: "thread_profile_t \<Rightarrow> Huint \<Rightarrow> Huint \<Rightarrow> Huint \<Rightarrow> matches \<Rightarrow> Hint option \<times> matches" where
  "weigh_first prof pr acc slave m =
     (let first = first_accelerator prof;
          perfect = (Some slave, m\<lparr>perfect_match_counter := perfect_match_counter m + 1\<rparr>);
          best = (None, if best_match m = -1 then m\<lparr>best_match := slave\<rparr> else m);
          better = (None, if better_match m = -1 then m\<lparr>better_match := slave\<rparr> else m);
          possible = (None, if possible_match m = -1 then m\<lparr>possible_match := slave\<rparr> else m)
      in if first \<noteq> NO_ACC then
           (if prefer_PR prof \<noteq> 0 then
              (if pr \<noteq> 0 then (if first = acc then perfect else best)
               else (if first = acc then better else possible))
            else
              (if first = acc then (if pr \<noteq> 0 then best else perfect)
               else (if pr \<noteq> 0 then better else possible)))
         else (Some slave, m))"

definition weigh_any :: "thread_profile_t \<Rightarrow> Huint \<Rightarrow> Huint \<Rightarrow> Huint \<Rightarrow> matches \<Rightarrow> Hint option \<times> matches" where
  "weigh_any prof pr acc slave m =
     (let first = first_accelerator prof;
          perfect = m\<lparr>perfect_match_counter := perfect_match_counter m + 1\<rparr>;
          best = m\<lparr>best_match_counter := best_match_counter m + 1\<rparr>;
          better = m\<lparr>better_match_counter := better_match_counter m + 1\<rparr>;
          possible = m\<lparr>possible_match_counter := possible_match_counter m + 1\<rparr>
      in (Some slave,
          if first \<noteq> NO_ACC then
            (if prefer_PR prof \<noteq> 0 then
               (if pr \<noteq> 0 then (if first = acc then perfect else best)
                else (if first = acc then better else possible))
             else
               (if first = acc then (if pr \<noteq> 0 then (if best_match m = -1 then best else m) else perfect)
                else (if pr \<noteq> 0 then better else possible)))
          else m))"

definition weigh :: "dispatch \<Rightarrow> thread_profile_t \<Rightarrow> Huint \<Rightarrow> Huint \<Rightarrow> Huint \<Rightarrow> matches \<Rightarrow> Hint option \<times> matches" where
  "weigh D = (if CHECK_FIRST_POLYMORPHIC D then weigh_first else weigh_any)"

fun scan_slaves ::
  "dispatch \<Rightarrow> host \<Rightarrow> Huint \<Rightarrow> thread_profile_t \<Rightarrow> Huint list \<Rightarrow> matches \<Rightarrow> (Hint option \<times> matches) option" where
  "scan_slaves D h func_id prof [] m = Some (None, m)"
| "scan_slaves D h func_id prof (i # is) m =
     (let poly = (first_accelerator prof \<noteq> NO_ACC) in
      case candidate D func_id poly i of
        None \<Rightarrow> None
      | Some slave \<Rightarrow>
          if OPCODE_FLAGGING D \<and> \<not> poly \<and> slave = -1 then Some (Some ENQUEUE_THREAD, m)
          else case at (hwti_array D) slave of
            None \<Rightarrow> None
          | Some b \<Rightarrow>
              if hwti_get_utilized_flag b (kern h) = FLAG_HWTI_FREE then
                (case at (slave_table h) slave of
                   None \<Rightarrow> None
                 | Some s \<Rightarrow>
                     (case weigh D prof (has_pr s) (mem (mach (kern h)) (acc_addr D slave)) slave m of
                        (Some r, m') \<Rightarrow> Some (Some r, m')
                      | (None, m') \<Rightarrow> scan_slaves D h func_id prof is m'))
              else scan_slaves D h func_id prof is m)"

definition pick_match :: "matches \<Rightarrow> Hint \<times> matches" where
  "pick_match m =
     (if sint (best_match m) \<ge> 0
      then (best_match m, m\<lparr>best_match_counter := best_match_counter m + 1\<rparr>)
      else if sint (better_match m) \<ge> 0
      then (better_match m, m\<lparr>better_match_counter := better_match_counter m + 1\<rparr>)
      else if sint (possible_match m) \<ge> 0
      then (possible_match m, m\<lparr>possible_match_counter := possible_match_counter m + 1\<rparr>)
      else (ENQUEUE_THREAD, m))"

definition find_best_match :: "dispatch \<Rightarrow> Huint \<Rightarrow> host \<Rightarrow> (Hint \<times> host) option" where
  "find_best_match D func_id h =
     (let m = (found h)\<lparr>total_calls := total_calls (found h) + 1, best_match := -1, better_match := -1,
                        possible_match := -1\<rparr>
      in case at (thread_profile D) func_id of
           None \<Rightarrow> None
         | Some prof \<Rightarrow>
             (case scan_slaves D h func_id prof (slave_numbers D) m of
                None \<Rightarrow> None
              | Some (Some r, m') \<Rightarrow> Some (r, h\<lparr>found := m'\<rparr>)
              | Some (None, m') \<Rightarrow> (case pick_match m' of (r, m'') \<Rightarrow> Some (r, h\<lparr>found := m''\<rparr>))))"

section \<open>Creating and joining threads\<close>

definition start_timing :: "dispatch \<Rightarrow> host \<Rightarrow> host" where
  "start_timing D h = h\<lparr>START := time_get D (kern h)\<rparr>"

definition stop_create :: "dispatch \<Rightarrow> host \<Rightarrow> host" where
  "stop_create D h =
     (let now = time_get D (kern h) in
      h\<lparr>STOP := now, DIFF := now - START h, create_overhead := create_overhead h + (now - START h)\<rparr>)"

definition software_create :: "dispatch \<Rightarrow> Huint \<Rightarrow> Huint \<Rightarrow> Huint \<Rightarrow> Huint \<Rightarrow> host \<Rightarrow> (Hint \<times> host) option" where
  "software_create D t attr func_id arg h =
     (let start = time_get D (kern h) in
      case init_host_tables D h of
        None \<Rightarrow> None
      | Some h1 \<Rightarrow>
          (case lookup_thread (global_thread_table h1) func_id (TYPE_HOST D) of
             None \<Rightarrow> None
           | Some func \<Rightarrow>
               (case hthread_create (kenv D) (dflt_attrs D) t attr func arg
                       ((kern h1)\<lparr>thread_counter := thread_counter (kern h1) + 1\<rparr>) of
                  Some (Returned status, k) \<Rightarrow>
                    Some (status, h1\<lparr>kern := k,
                            create_overhead := create_overhead h1 + (time_get D k - start)\<rparr>)
                | _ \<Rightarrow> None)))"

text \<open>Handing a thread to slave \<open>slave_num\<close> (lines 1559 to 1579, and again 1604 to 1625).\<close>

definition create_on_slave ::
  "dispatch \<Rightarrow> Huint \<Rightarrow> Huint \<Rightarrow> Huint \<Rightarrow> Huint \<Rightarrow> Huint \<Rightarrow> host \<Rightarrow> (Hint \<times> host) option" where
  "create_on_slave D t attr func_id arg slave_num h =
     (case (at (slave_table h) slave_num, at (hwti_array D) slave_num) of
        (Some s, Some b) \<Rightarrow>
          (case lookup_thread (global_thread_table h) func_id (isa s) of
             None \<Rightarrow> None
           | Some func \<Rightarrow>
               (let k1 = hwti_set_first_accelerator_ptr (kenv D) b (func_2_acc_entry D func_id) (kern h);
                    k2 = k1\<lparr>attr_heap := (attr_heap k1)(attr := snd (hthread_attr_sethardware b (attr_heap k1 attr)))\<rparr>
                in case hthread_create (kenv D) (dflt_attrs D) t attr func arg k2 of
                     Some (Returned ret, k) \<Rightarrow> Some (ret, h\<lparr>kern := k\<rparr>)
                   | _ \<Rightarrow> None))
      | _ \<Rightarrow> None)"

text \<open>Appending to the thread queue (lines 1544 to 1557): there is no check for a full queue.\<close>

definition enqueue_thread :: "Huint \<Rightarrow> Huint \<Rightarrow> Huint \<Rightarrow> Huint \<Rightarrow> host \<Rightarrow> host" where
  "enqueue_thread t attr func_id arg h =
     (let q = (ThreadQueue h)[unat (tail h) := \<lparr>q_tid = t, q_attr = attr, q_func_id = func_id, q_arg = arg\<rparr>];
          i = (thread_tail_index h + 1) mod THREAD_QUEUE_MAX
      in h\<lparr>ThreadQueue := q, thread_tail_index := i, tail := i, thread_entries := thread_entries h + 1\<rparr>)"

partial_function (option) wait_free :: "dispatch \<Rightarrow> host \<Rightarrow> host option" where
  "wait_free D h =
     (if get_num_free_slaves D (kern h) = 0 then
        (if BASE_SCHEDULER D then wait_free D (upd_kern (elsewhere D) h)
         else
           (let h1 = stop_create D h in
            case hthread_yield (kenv D) (kern h1) of
              None \<Rightarrow> None
            | Some x \<Rightarrow> wait_free D (start_timing D (h1\<lparr>kern := elsewhere D (snd x)\<rparr>))))
      else Some h)"

definition create_dynamic :: "dispatch \<Rightarrow> Huint \<Rightarrow> Huint \<Rightarrow> Huint \<Rightarrow> Huint \<Rightarrow> host \<Rightarrow> (Hint \<times> host) option" where
  "create_dynamic D t attr func_id arg h =
     (case find_best_match D func_id h of
        None \<Rightarrow> None
      | Some (slave_num, h1) \<Rightarrow>
          if slave_num = FAILURE then software_create D t 0 func_id arg h1
          else if slave_num = ENQUEUE_THREAD then Some (SUCCESS, enqueue_thread t attr func_id arg h1)
          else create_on_slave D t attr func_id arg slave_num h1)"

definition create_static :: "dispatch \<Rightarrow> Huint \<Rightarrow> Huint \<Rightarrow> Huint \<Rightarrow> Huint \<Rightarrow> Huint \<Rightarrow> host \<Rightarrow> (Hint \<times> host) option" where
  "create_static D t attr func_id arg type h =
     (let slave_num = type + STATIC_HW_OFFSET in
      case (if slave_num \<ge> NUM_AVAILABLE_HETERO_CPUS D
            then map_option snd (software_create D t 0 func_id arg h) else Some h) of
        None \<Rightarrow> None
      | Some h1 \<Rightarrow>
          (case at (hwti_array D) slave_num of
             None \<Rightarrow> None
           | Some b \<Rightarrow>
               if hwti_get_utilized_flag b (kern h1) = FLAG_HWTI_UTILIZED
               then software_create D t 0 func_id arg h1
               else create_on_slave D t attr func_id arg slave_num h1))"

definition thread_create ::
  "dispatch \<Rightarrow> Huint \<Rightarrow> Huint \<Rightarrow> Huint \<Rightarrow> Huint \<Rightarrow> Huint \<Rightarrow> Huint \<Rightarrow> host \<Rightarrow> (Hint \<times> host) option" where
  "thread_create D t attr func_id arg type dma_length h =
     (let h0 = start_timing D h in
      if attr = 0 then None
      else case init_host_tables D h0 of
        None \<Rightarrow> None
      | Some h1 \<Rightarrow>
          (case (if type = DYNAMIC_HW then wait_free D h1 else Some h1) of
             None \<Rightarrow> None
           | Some h2 \<Rightarrow>
               map_option (\<lambda>(ret, h3). (ret, stop_create D h3))
                 (if type = SOFTWARE_THREAD then
                    (if hardware (attr_heap (kern h2) attr) \<noteq> 0 then Some (FAILURE, h2)
                     else software_create D t attr func_id arg h2)
                  else if type = DYNAMIC_HW then create_dynamic D t attr func_id arg h2
                  else create_static D t attr func_id arg type h2)))"

text \<open>
  What \<^verbatim>\<open>thread_join\<close> does once \<^verbatim>\<open>hthread_join\<close> has returned; a 64-bit time is stored with its
  low word first. When the join has to wait, this runs after the thread is switched back.
\<close>

definition thread_join_rest :: "dispatch \<Rightarrow> Huint \<Rightarrow> Huint \<Rightarrow> host \<Rightarrow> host" where
  "thread_join_rest D th exec_time h =
     (let x = execution_time (threads (kern h) th);
          h1 = upd_kern (\<lambda>k. store (kenv D) (exec_time + 4) (ucast (drop_bit 32 x))
                          (store (kenv D) exec_time (ucast x) k)) h;
          now = time_get D (kern h1)
      in h1\<lparr>STOP := now, DIFF := now - START h1, join_overhead := join_overhead h1 + (now - START h1)\<rparr>)"

definition thread_join :: "dispatch \<Rightarrow> Huint \<Rightarrow> Huint \<Rightarrow> Huint \<Rightarrow> host \<Rightarrow> (outcome \<times> host) option" where
  "thread_join D th ret exec_time h =
     (let h0 = start_timing D h in
      case hthread_join (kenv D) th ret (kern h0) of
        None \<Rightarrow> None
      | Some (Switched, k) \<Rightarrow> Some (Switched, h0\<lparr>kern := k\<rparr>)
      | Some (Returned status, k) \<Rightarrow>
          Some (Returned status, thread_join_rest D th exec_time (h0\<lparr>kern := k\<rparr>)))"

end
