(* ===== verification/Dispatch_Laws.thy ===== *)
theory Dispatch_Laws
  imports Dispatch
begin

text \<open>
  What the dispatcher promises: the slave it picks, where a created thread ends up, what the
  thread table and the thread queue hold, and the limits of its checks.
\<close>

section \<open>Definitions used in the statements\<close>

definition slave_free :: "dispatch \<Rightarrow> host \<Rightarrow> nat \<Rightarrow> bool" where
  "slave_free D h i \<longleftrightarrow> hwti_get_utilized_flag (hwti_array D ! i) (kern h) = FLAG_HWTI_FREE"

text \<open>
  The preference of a function for a slave, as the comments of \<^verbatim>\<open>find_best_match\<close> describe it:
  0 perfect, 1 best, 2 better, 3 possible.
\<close>

definition match_rank :: "thread_profile_t \<Rightarrow> Huint \<Rightarrow> Huint \<Rightarrow> nat" where
  "match_rank prof pr acc =
     (if first_accelerator prof = NO_ACC then 0
      else if first_accelerator prof = acc
      then (if prefer_PR prof \<noteq> 0 then (if pr \<noteq> 0 then 0 else 2) else (if pr \<noteq> 0 then 1 else 0))
      else (if prefer_PR prof \<noteq> 0 then (if pr \<noteq> 0 then 1 else 3) else (if pr \<noteq> 0 then 2 else 3)))"

definition slave_rank :: "dispatch \<Rightarrow> host \<Rightarrow> thread_profile_t \<Rightarrow> nat \<Rightarrow> nat" where
  "slave_rank D h prof i =
     match_rank prof (has_pr (slave_table h ! i)) (mem (mach (kern h)) (acc_addr D (of_nat i)))"

text \<open>The arrays have one element per slave, and slave numbers are positive as \<^verbatim>\<open>Hint\<close>.\<close>

definition dispatch_ok :: "dispatch \<Rightarrow> host \<Rightarrow> bool" where
  "dispatch_ok D h \<longleftrightarrow>
     length (slave_table h) = length (hwti_array D) \<and> length (hwti_array D) < 2 ^ 31"

section \<open>Array indices\<close>

lemma unat_index: "i < 2 ^ 31 \<Longrightarrow> unat (of_nat i :: Huint) = i"
  by (simp add: unat_of_nat)

lemma at_index: "i < length xs \<Longrightarrow> i < 2 ^ 31 \<Longrightarrow> at xs (of_nat i) = Some (xs ! i)"
  by (simp add: at_def unat_index)

lemma index_nonneg: "i < 2 ^ 31 \<Longrightarrow> 0 \<le> sint (of_nat i :: Hint)"
  by (simp add: sint_of_nat_small)

lemma index_codes:
  "i < 2 ^ 31 \<Longrightarrow> (of_nat i :: Hint) \<noteq> FAILURE" "i < 2 ^ 31 \<Longrightarrow> (of_nat i :: Hint) \<noteq> ENQUEUE_THREAD"
  using index_nonneg [of i] by (auto simp: FAILURE_def ENQUEUE_THREAD_def)

section \<open>The choice of a slave\<close>

text \<open>The match variables hold the first slave of their class, or \<open>-1\<close>.\<close>

definition enc :: "nat option \<Rightarrow> Hint" where
  "enc x = (case x of None \<Rightarrow> -1 | Some i \<Rightarrow> of_nat i)"

definition first_of :: "(nat \<Rightarrow> bool) \<Rightarrow> (nat \<Rightarrow> nat) \<Rightarrow> nat \<Rightarrow> nat \<Rightarrow> nat option" where
  "first_of fr rk c n = List.find (\<lambda>i. fr i \<and> rk i = c) [0..<n]"

definition scanned :: "(nat \<Rightarrow> bool) \<Rightarrow> (nat \<Rightarrow> nat) \<Rightarrow> nat \<Rightarrow> matches \<Rightarrow> bool" where
  "scanned fr rk n m \<longleftrightarrow> first_of fr rk 0 n = None \<and> best_match m = enc (first_of fr rk 1 n) \<and>
     better_match m = enc (first_of fr rk 2 n) \<and> possible_match m = enc (first_of fr rk 3 n)"

lemma find_snoc:
  "List.find P (xs @ [x]) = (case List.find P xs of None \<Rightarrow> if P x then Some x else None | Some y \<Rightarrow> Some y)"
  by (induction xs) auto

lemma first_of_Suc:
  "first_of fr rk c (Suc n) =
   (case first_of fr rk c n of None \<Rightarrow> if fr n \<and> rk n = c then Some n else None | Some y \<Rightarrow> Some y)"
  by (simp add: first_of_def find_snoc)

lemma first_of_Some:
  "first_of fr rk c n = Some i \<longleftrightarrow> i < n \<and> fr i \<and> rk i = c \<and> (\<forall>j<i. \<not> (fr j \<and> rk j = c))"
  by (auto simp: first_of_def find_Some_iff intro!: exI [of _ i])

lemma first_of_None: "first_of fr rk c n = None \<longleftrightarrow> (\<forall>i<n. \<not> (fr i \<and> rk i = c))"
  by (auto simp: first_of_def find_None_iff)

lemma enc_unset: "first_of fr rk c n = x \<Longrightarrow> n < 2 ^ 31 \<Longrightarrow> enc x = -1 \<longleftrightarrow> x = None"
  using index_codes(1) by (force simp: enc_def FAILURE_def first_of_Some split: option.splits)

lemma enc_set: "n < 2 ^ 31 \<Longrightarrow> 0 \<le> sint (enc (first_of fr rk c n)) \<longleftrightarrow> first_of fr rk c n \<noteq> None"
proof (cases "first_of fr rk c n")
  case (Some i)
  moreover assume "n < 2 ^ 31"
  moreover have "i < n" using Some by (simp add: first_of_Some)
  ultimately show ?thesis by (simp add: enc_def index_nonneg)
qed (simp add: enc_def)

lemma slave_rank_le: "slave_rank D h prof i \<le> 3"
  by (simp add: slave_rank_def match_rank_def)

text \<open>One slave: a perfect one is taken at once, the others are noted in their class.\<close>

lemma weigh_first_taken:
  "match_rank prof pr acc = 0 \<Longrightarrow> \<exists>m'. weigh_first prof pr acc slave m = (Some slave, m')"
  by (auto simp: weigh_first_def match_rank_def Let_def split: if_splits)

lemma weigh_first_noted:
  assumes "scanned fr rk n m" "fr n" "rk n = match_rank prof pr acc" "rk n \<noteq> 0" "n < 2 ^ 31"
  shows "\<exists>m'. weigh_first prof pr acc (of_nat n) m = (None, m') \<and> scanned fr rk (Suc n) m'"
  using assms enc_unset [OF refl assms(5), of fr rk]
  by (auto simp: weigh_first_def match_rank_def Let_def scanned_def first_of_Suc enc_def split: if_splits option.splits)

lemma scanned_busy: "scanned fr rk n m \<Longrightarrow> \<not> fr n \<Longrightarrow> scanned fr rk (Suc n) m"
  by (simp add: scanned_def first_of_Suc split: option.splits)

lemma scan_from:
  assumes ok: "dispatch_ok D h" and fl: "\<not> OPCODE_FLAGGING D" "CHECK_FIRST_POLYMORPHIC D"
    and "scanned (slave_free D h) (slave_rank D h prof) n m" "n \<le> length (hwti_array D)"
  shows "(\<exists>s m'. s < length (hwti_array D) \<and> slave_free D h s \<and> slave_rank D h prof s = 0 \<and>
            (\<forall>j < s. \<not> (slave_free D h j \<and> slave_rank D h prof j = 0)) \<and>
            scan_slaves D h f prof (map of_nat [n..<length (hwti_array D)]) m = Some (Some (of_nat s), m')) \<or>
         (\<exists>m'. scan_slaves D h f prof (map of_nat [n..<length (hwti_array D)]) m = Some (None, m') \<and>
            scanned (slave_free D h) (slave_rank D h prof) (length (hwti_array D)) m')"
  using assms(4,5)
proof (induction "length (hwti_array D) - n" arbitrary: n m)
  case 0
  then show ?case by simp
next
  case (Suc d)
  let ?N = "length (hwti_array D)"
  have n: "n < ?N" using Suc.hyps(2) by simp
  then have n31: "n < 2 ^ 31" using ok unfolding dispatch_ok_def by (meson order_less_trans)
  have next': "Suc n \<le> ?N" "d = ?N - Suc n" using Suc.hyps(2) n by simp_all
  have at': "at (hwti_array D) (of_nat n) = Some (hwti_array D ! n)"
      "at (slave_table h) (of_nat n) = Some (slave_table h ! n)"
    using n n31 ok by (simp_all add: at_index dispatch_ok_def)
  have scan: "scan_slaves D h f prof (map of_nat [n..<?N]) m =
      (if slave_free D h n then
         (case weigh_first prof (has_pr (slave_table h ! n)) (mem (mach (kern h)) (acc_addr D (of_nat n))) (of_nat n) m of
            (Some r, m') \<Rightarrow> Some (Some r, m')
          | (None, m') \<Rightarrow> scan_slaves D h f prof (map of_nat [Suc n..<?N]) m')
       else scan_slaves D h f prof (map of_nat [Suc n..<?N]) m)"
    using n fl by (simp add: upt_conv_Cons candidate_def at' slave_free_def weigh_def)
  consider (busy) "\<not> slave_free D h n" | (perfect) "slave_free D h n" "slave_rank D h prof n = 0"
    | (other) "slave_free D h n" "slave_rank D h prof n \<noteq> 0" by blast
  then show ?case
  proof cases
    case busy
    with Suc.hyps(1) [OF next'(2) scanned_busy [OF Suc.prems(1) busy] next'(1)] scan show ?thesis by simp
  next
    case perfect
    then obtain m' where "weigh_first prof (has_pr (slave_table h ! n)) (mem (mach (kern h)) (acc_addr D (of_nat n)))
        (of_nat n) m = (Some (of_nat n), m')"
      using weigh_first_taken by (metis slave_rank_def)
    moreover have "\<forall>j<n. \<not> (slave_free D h j \<and> slave_rank D h prof j = 0)"
      using Suc.prems(1) by (simp add: scanned_def first_of_None)
    ultimately show ?thesis using perfect n scan by auto
  next
    case other
    then obtain m' where "weigh_first prof (has_pr (slave_table h ! n)) (mem (mach (kern h)) (acc_addr D (of_nat n)))
        (of_nat n) m = (None, m')" "scanned (slave_free D h) (slave_rank D h prof) (Suc n) m'"
      using weigh_first_noted [OF Suc.prems(1) other(1) slave_rank_def other(2) n31] by metis
    with Suc.hyps(1) [OF next'(2) this(2) next'(1)] other scan show ?thesis by simp
  qed
qed

lemma pick_match_best:
  assumes "scanned fr rk n m" "n < 2 ^ 31" "\<And>i. rk i \<le> 3"
  shows "if \<exists>i<n. fr i
    then \<exists>s<n. fst (pick_match m) = of_nat s \<and> fr s \<and> (\<forall>j<n. fr j \<longrightarrow> rk s < rk j \<or> rk s = rk j \<and> s \<le> j)
    else fst (pick_match m) = ENQUEUE_THREAD"
proof -
  note sc = assms(1) [unfolded scanned_def]
  have set': "0 \<le> sint (best_match m) \<longleftrightarrow> first_of fr rk 1 n \<noteq> None"
      "0 \<le> sint (better_match m) \<longleftrightarrow> first_of fr rk 2 n \<noteq> None"
      "0 \<le> sint (possible_match m) \<longleftrightarrow> first_of fr rk 3 n \<noteq> None"
    using sc enc_set [OF assms(2), of fr rk] by simp_all
  have r0: "\<forall>i<n. fr i \<longrightarrow> rk i \<noteq> 0" using sc by (auto simp: first_of_None)
  have least: "fst (pick_match m) = of_nat s \<and> s < n \<and> fr s \<and> (\<forall>j<n. fr j \<longrightarrow> rk s < rk j \<or> rk s = rk j \<and> s \<le> j)"
    if "first_of fr rk c n = Some s" "fst (pick_match m) = enc (first_of fr rk c n)"
      "\<forall>j<n. fr j \<longrightarrow> c \<le> rk j" for c s
  proof -
    have s: "s < n" "fr s" "rk s = c" "\<forall>j < s. \<not> (fr j \<and> rk j = c)" using that(1) by (simp_all add: first_of_Some)
    then have "rk s < rk j \<or> rk s = rk j \<and> s \<le> j" if "j < n" "fr j" for j
      using that \<open>\<forall>j<n. fr j \<longrightarrow> c \<le> rk j\<close> by (metis le_neq_implies_less not_less)
    with s that(1,2) show ?thesis by (simp add: enc_def)
  qed
  consider s where "first_of fr rk 1 n = Some s" | s where "first_of fr rk 1 n = None" "first_of fr rk 2 n = Some s"
    | s where "first_of fr rk 1 n = None" "first_of fr rk 2 n = None" "first_of fr rk 3 n = Some s"
    | "first_of fr rk 1 n = None" "first_of fr rk 2 n = None" "first_of fr rk 3 n = None"
    by (metis not_None_eq)
  then show ?thesis
  proof cases
    case 1
    have "\<forall>j<n. fr j \<longrightarrow> 1 \<le> rk j" using r0 by (simp add: Suc_le_eq)
    with least [OF 1 _ this] 1 sc set' show ?thesis by (auto simp: pick_match_def)
  next
    case 2
    have "\<forall>j<n. fr j \<longrightarrow> 2 \<le> rk j" using r0 2(1) unfolding first_of_None by (metis One_nat_def Suc_1 Suc_leI le_neq_implies_less less_one not_less)
    with least [OF 2(2) _ this] 2 sc set' show ?thesis by (auto simp: pick_match_def)
  next
    case 3
    have "\<forall>j<n. fr j \<longrightarrow> 3 \<le> rk j" using r0 3(1,2) unfolding first_of_None
      by (metis One_nat_def Suc_1 Suc_leI le_neq_implies_less less_one not_less numeral_3_eq_3)
    with least [OF 3(3) _ this] 3 sc set' show ?thesis by (auto simp: pick_match_def)
  next
    case 4
    then have "\<not> (\<exists>i<n. fr i)" using r0 assms(3) unfolding first_of_None
      by (metis One_nat_def Suc_1 Suc_leI le_antisym le_neq_implies_less less_one not_less numeral_3_eq_3)
    with 4 set' show ?thesis by (auto simp: pick_match_def)
  qed
qed

lemma find_best_match_result:
  assumes ok: "dispatch_ok D h" and fl: "\<not> OPCODE_FLAGGING D" "CHECK_FIRST_POLYMORPHIC D"
    and prof: "at (thread_profile D) f = Some prof"
  shows "\<exists>r m. find_best_match D f h = Some (r, h\<lparr>found := m\<rparr>) \<and>
    (if \<exists>i<length (hwti_array D). slave_free D h i
     then \<exists>s<length (hwti_array D). r = of_nat s \<and> slave_free D h s \<and>
       (\<forall>j<length (hwti_array D). slave_free D h j \<longrightarrow>
          slave_rank D h prof s < slave_rank D h prof j \<or>
          slave_rank D h prof s = slave_rank D h prof j \<and> s \<le> j)
     else r = ENQUEUE_THREAD)"
proof -
  let ?N = "length (hwti_array D)"
  define m where "m = (found h)\<lparr>total_calls := total_calls (found h) + 1, best_match := -1, better_match := -1,
    possible_match := -1\<rparr>"
  have "scanned (slave_free D h) (slave_rank D h prof) 0 m"
    by (simp add: scanned_def first_of_def enc_def m_def)
  from scan_from [OF ok fl this] consider
      s m' where "s < ?N" "slave_free D h s" "slave_rank D h prof s = 0"
        "\<forall>j < s. \<not> (slave_free D h j \<and> slave_rank D h prof j = 0)"
        "scan_slaves D h f prof (slave_numbers D) m = Some (Some (of_nat s), m')"
    | m' where "scan_slaves D h f prof (slave_numbers D) m = Some (None, m')"
        "scanned (slave_free D h) (slave_rank D h prof) ?N m'"
    unfolding slave_numbers_def by (metis le0)
  then show ?thesis
  proof cases
    case 1
    then have "find_best_match D f h = Some (of_nat s, h\<lparr>found := m'\<rparr>)"
      by (simp add: find_best_match_def prof m_def)
    with 1(1-4) show ?thesis by (metis neq0_conv not_less)
  next
    case 2
    then have "find_best_match D f h = Some (fst (pick_match m'), h\<lparr>found := snd (pick_match m')\<rparr>)"
      by (simp add: find_best_match_def prof m_def split: prod.splits)
    then show ?thesis
      using pick_match_best [OF 2(2) _ slave_rank_le] ok unfolding dispatch_ok_def by blast
  qed
qed

text \<open>
  C12: With \<^verbatim>\<open>CHECK_FIRST_POLYMORPHIC\<close> and without \<^verbatim>\<open>OPCODE_FLAGGING\<close>, \<^verbatim>\<open>find_best_match\<close> picks the
  free slave of the best class (perfect, best, better, possible) and among those the one with
  the lowest number; it asks to enqueue the thread exactly when no slave is free. It changes
  nothing but its statistics.
\<close>

theorem find_best_match_optimal:
  assumes ok: "dispatch_ok D h" and fl: "\<not> OPCODE_FLAGGING D" "CHECK_FIRST_POLYMORPHIC D"
    and prof: "at (thread_profile D) f = Some prof"
  shows "\<exists>r m. find_best_match D f h = Some (r, h\<lparr>found := m\<rparr>) \<and>
    (if \<exists>i<length (hwti_array D). slave_free D h i
     then \<exists>s<length (hwti_array D). r = of_nat s \<and> slave_free D h s \<and>
       (\<forall>j<length (hwti_array D). slave_free D h j \<longrightarrow>
          slave_rank D h prof s < slave_rank D h prof j \<or>
          slave_rank D h prof s = slave_rank D h prof j \<and> s \<le> j)
     else r = ENQUEUE_THREAD)"
  using find_best_match_result [OF assms] .

section \<open>Creating a hardware thread\<close>

lemma setup_hardware:
  assumes b: "hwti_base E b" and a: "hardware attr = Htrue" "hardware_addr attr = hwti_cmd b 0x0C"
  shows "\<exists>k'. setup_thread E (ucast (t :: tid)) attr start arg k = (SUCCESS, k') \<and>
    mach k' = mach (setup_hwti E b (ucast t) start arg k) \<and> retval (threads k' (ucast t)) = 0 \<and>
    t_hardware (threads k' (ucast t)) = hwti_cmd b 0x0C \<and> attr_heap k' = attr_heap k \<and>
    cpu k' = cpu k \<and> saved k' = saved k \<and> (\<forall>u. u \<noteq> ucast t \<longrightarrow> threads k' u = threads k u)"
proof -
  define k1 where "k1 = upd_thread (ucast t) (\<lambda>x. x\<lparr>stack := stack_addr attr, stacksize := stack_size attr,
    newthread := Htrue, retval := 0, execution_time := 0\<rparr>) k"
  have base: "hardware_addr attr - 0x0C = b"
    using b reg_plus [of b "0x0C"] by (simp add: a(2) hwti_base_def)
  have frame: "mach (setup_hwti E b (ucast t) start arg k1) = mach (setup_hwti E b (ucast t) start arg k)"
    by (simp add: setup_hwti_def hwti_reset_def hwti_setid_def hwti_setarg_def hwti_set_fcn_ptr_def
        hwti_set_global_context_ptr_def hwti_set_global_context_table_ptr_def hwti_set_global_stack_ptr_def
        hwti_set_bootstrap_ptr_def hwti_set_utilized_def hwti_write_def kernel_access k1_def Let_def)
  have "setup_thread E (ucast t) attr start arg k = (SUCCESS, upd_thread (ucast t)
      (\<lambda>x. x\<lparr>t_hardware := hwti_cmd b 0x0C\<rparr>) (setup_hwti E b (ucast t) start arg k1))"
    using tid_in_range [of t] base
    by (simp add: setup_thread_def Let_def a k1_def [symmetric] not_le [symmetric])
  moreover have "threads (setup_hwti E b (ucast t) start arg k1) = threads k1"
      "attr_heap (setup_hwti E b (ucast t) start arg k1) = attr_heap k1"
      "cpu (setup_hwti E b (ucast t) start arg k1) = cpu k1"
      "saved (setup_hwti E b (ucast t) start arg k1) = saved k1"
    using b by simp_all
  ultimately show ?thesis by (simp add: upd_thread_def frame) (simp add: k1_def upd_thread_def)
qed

lemma create_hardware:
  assumes P: "platform_ok (plat E)" and ok: "ready_ok (kcores k) Q"
    and run: "running (entries (tm (kcores k)) (kcurrent k))"
    and free: "free_ids (tm (kcores k)) = t # ts"
    and attr: "attr_heap k ap = attr" "hardware attr = Htrue" "hardware_addr attr = hwti_cmd b 0x0C" "ap \<noteq> 0"
    and b: "hwti_base E b" and th: "mem_addr (plat E) th" "th \<noteq> 0" "outside b th"
  shows "\<exists>k'. hthread_create E dflt th ap start arg k = Some (Returned SUCCESS, k') \<and>
    handed_over E b t start arg k' \<and> mem (mach k') th = ucast t \<and> ready_ok (kcores k') Q \<and>
    kcurrent k' = kcurrent k \<and> free_ids (tm (kcores k')) = ts \<and>
    e_detached (entries (tm (kcores k')) t) = (detached attr \<noteq> 0) \<and>
    \<not> e_joined (entries (tm (kcores k')) t) \<and>
    e_pid (entries (tm (kcores k')) t) = (if detached attr \<noteq> 0 then 0 else kcurrent k) \<and>
    (\<forall>u. u \<noteq> t \<longrightarrow> entries (tm (kcores k')) u = entries (tm (kcores k)) u) \<and>
    (\<forall>b' r. hwti_base E b' \<longrightarrow> outside b' th \<longrightarrow> r < 0x100 \<longrightarrow>
       b' \<noteq> b \<or> r \<notin> fst ` set (setup_words E (ucast t) start arg) \<longrightarrow>
       hwti_read b' r k' = hwti_read b' r k) \<and>
    cpu k' = cpu k \<and> saved k' = saved k \<and> cur_invalid (tm (kcores k')) = cur_invalid (tm (kcores k))"
proof -
  let ?c = "kcores k" and ?det = "detached attr \<noteq> 0" and ?v = "hwti_cmd b 0x0C"
  obtain r s1 where c1: "tm_create ?det (tm ?c) = (r, s1)" by fastforce
  note cr = create_keeps_ready [OF ok free run [unfolded kcurrent_def] c1]
  note cr' = create_ok [OF ready_ok_D(1) [OF ok] free c1]
  define k1 where "k1 = k\<lparr>mach := (mach k)\<lparr>cores := ?c\<lparr>tm := s1\<rparr>\<rparr>\<rparr>"
  have k1: "kcores k1 = ?c\<lparr>tm := s1\<rparr>" "hwti_read b' q k1 = hwti_read b' q k" for b' q
    by (simp_all add: k1_def kcores_def hwti_read_def)
  have st1: "on_mach (if ?det then create_detached (plat E) else create_joinable (plat E)) k = (id_word t, k1)"
    using P c1 cr by (auto simp: on_mach_def hw_ops with_tm_def kcores_def k1_def)
  from setup_hardware [OF b attr(2,3), of t start arg k1] obtain k2 where
    st2: "setup_thread E (ucast t) attr start arg k1 = (SUCCESS, k2)"
      "mach k2 = mach (setup_hwti E b (ucast t) start arg k1)" "retval (threads k2 (ucast t)) = 0"
      "cpu k2 = cpu k1" "saved k2 = saved k1" by auto
  have k2: "kcores k2 = ?c\<lparr>tm := s1\<rparr>" "hwti_read b' q k2 = hwti_read b' q (setup_hwti E b (ucast t) start arg k1)" for b' q
    using st2(2) setup_hwti_frame(1) [OF b, of "ucast t" start arg k1] k1 by (simp_all add: kcores_def hwti_read_def)
  have pre: "ready_ok (kcores k2) Q" "running (entries (tm (kcores k2)) t)"
      "\<not> queue_bit (thread_ram (sch (kcores k2)) t)" "\<not> sw_range ?v"
    using cr k2(1) reg_not_priority [OF b, of "0x0C"] by simp_all
  from publish_hardware [OF P pre] obtain m k3 i where
    st3: "on_mach (set_schedparam (plat E) (ucast t) ?v) k2 = (SUCCESS, m)"
      "on_mach (add_thread (plat E) (ucast t)) m = (0, k3)" "ready_ok (kcores k3) Q"
      "k3 = k2\<lparr>mach := (mach k2)\<lparr>cores := (kcores k2)\<lparr>sch := (sch (kcores k2))\<lparr>param_ram :=
        (param_ram (sch (kcores k2)))(t := ?v)\<rparr>\<rparr>, irq := i, mem := (mem (mach k2))(?v := 1)\<rparr>\<rparr>"
    by blast
  have "\<not> has_error 0" by (simp add: has_error_def)
  then have "syscall_create E th ap start arg k = (SUCCESS, store E th (ucast t) k3)"
    using attr st1 st2(1) st3 unfolding syscall_create_def Let_def attr(1) by simp
  then have res: "hthread_create E dflt th ap start arg k = Some (Returned SUCCESS, store E th (ucast t) k3)"
    using attr th(2) by (simp add: hthread_create_def do_syscall_def system_call_handler_def finish_def)
  define k' where "k' = store E th (ucast t) k3"
  have reads: "hwti_read b' q k' = (if b' = b \<and> q = 0x0C then 1 else hwti_read b' q (setup_hwti E b (ucast t) start arg k1))"
    if "hwti_base E b'" "outside b' th" "q < 0x100" for b' q
    using that b outside_reg [OF that(2,3)] reg_inj [of b' b q "0x0C"] k2(2) st3(4)
    by (auto simp: k'_def store_mem [OF th(1)] hwti_read_def hwti_base_def)
  have cores': "kcores k' = ?c\<lparr>tm := s1, sch := (sch ?c)\<lparr>param_ram := (param_ram (sch ?c))(t := ?v)\<rparr>\<rparr>"
    using st3(4) k2(1) by (simp add: k'_def store_mem [OF th(1)] kcores_def)
  have "handed_over E b t start arg k'"
    using reads [OF b th(3)] cores' cr st2(3) st3(4) setup_hwti_reads [OF b, of _ _ "ucast t" start arg k1]
    by (simp add: handed_over_def setup_words_def FLAG_HWTI_UTILIZED_def HT_HWTI_GO_def)
      (simp add: k'_def store_mem [OF th(1)])
  moreover have "hwti_read b' q k' = hwti_read b' q k" if "hwti_base E b'" "outside b' th" "q < 0x100"
      "b' \<noteq> b \<or> q \<notin> fst ` set (setup_words E (ucast t) start arg)" for b' q
    using reads [OF that(1-3)] setup_hwti_other [OF b that(1,3,4), of k1] that(4) k1(2)
    by (auto simp: setup_words_def)
  moreover have "mem (mach k') th = ucast t" "ready_ok (kcores k') Q" "cpu k' = cpu k" "saved k' = saved k"
    using st3(3,4) st2(4,5) by (simp_all add: k'_def store_mem [OF th(1)] kcores_def k1_def)
  moreover have "cur_invalid s1 = cur_invalid (tm ?c)"
    using c1 by (auto simp: tm_create_def Let_def split: if_splits)
  ultimately show ?thesis
    using res cr cr' cores' by (auto simp: k'_def [symmetric] kcurrent_def)
qed

section \<open>Dynamic creation\<close>

text \<open>The interfaces of the slaves: aligned blocks of memory, one per slave.\<close>

definition slaves_ok :: "dispatch \<Rightarrow> bool" where
  "slaves_ok D \<longleftrightarrow> list_all (hwti_base (kenv D)) (hwti_array D) \<and> distinct (hwti_array D)"

text \<open>A word in memory that belongs to none of the interfaces.\<close>

definition plain_word :: "dispatch \<Rightarrow> Huint \<Rightarrow> bool" where
  "plain_word D a \<longleftrightarrow> mem_addr (plat (kenv D)) a \<and> a \<noteq> 0 \<and> list_all (\<lambda>b. outside b a) (hwti_array D)"

lemma slave_base:
  "slaves_ok D \<Longrightarrow> i < length (hwti_array D) \<Longrightarrow> hwti_base (kenv D) (hwti_array D ! i)"
  by (simp add: slaves_ok_def list_all_length)

lemma slave_outside:
  "plain_word D a \<Longrightarrow> i < length (hwti_array D) \<Longrightarrow> outside (hwti_array D ! i) a"
  by (simp add: plain_word_def list_all_length)

lemma slave_base_inj:
  "slaves_ok D \<Longrightarrow> i < length (hwti_array D) \<Longrightarrow> j < length (hwti_array D) \<Longrightarrow>
   hwti_array D ! i = hwti_array D ! j \<longleftrightarrow> i = j"
  by (simp add: slaves_ok_def nth_eq_iff_index_eq)

text \<open>The counting loop counts.\<close>

lemma count_loop:
  "fold (\<lambda>b free. if P b then free + 1 else free) bs (w :: Huint) = w + of_nat (length (filter P bs))"
  by (induction bs arbitrary: w) (simp_all add: algebra_simps)

lemma num_free_slaves:
  "get_num_free_slaves D k =
   of_nat (length (filter (\<lambda>b. hwti_get_utilized_flag b k = FLAG_HWTI_FREE) (hwti_array D)))"
  by (simp add: get_num_free_slaves_def count_loop)

lemma num_free_nonzero:
  assumes "dispatch_ok D h" "i < length (hwti_array D)" "slave_free D h i"
  shows "get_num_free_slaves D (kern h) \<noteq> 0"
proof -
  let ?fs = "filter (\<lambda>b. hwti_get_utilized_flag b (kern h) = FLAG_HWTI_FREE) (hwti_array D)"
  have "?fs \<noteq> []" using assms(2,3) by (auto simp: filter_empty_conv slave_free_def)
  moreover have "length ?fs < 2 ^ 31"
    using assms(1) length_filter_le [of _ "hwti_array D"] unfolding dispatch_ok_def by (meson order_le_less_trans)
  ultimately show ?thesis unfolding num_free_slaves using unat_index [of "length ?fs"] by fastforce
qed

lemma wait_free_now: "get_num_free_slaves D (kern h) \<noteq> 0 \<Longrightarrow> wait_free D h = Some h"
  by (simp add: wait_free.simps)

lemma sethardware_attr:
  assumes "hwti_base E b"
  shows "hardware (snd (hthread_attr_sethardware b a)) = Htrue"
    "hardware_addr (snd (hthread_attr_sethardware b a)) = hwti_cmd b 0x0C"
    "detached (snd (hthread_attr_sethardware b a)) = detached a"
  using assms reg_plus [of b "0x0C"]
  by (simp_all add: hthread_attr_sethardware_def HT_HWTI_COMMAND_OFFSET_def hwti_base_def)

text \<open>Handing a thread to slave \<open>s\<close>: the interface of \<open>s\<close> gets it, no other interface changes.\<close>

lemma create_on_slave_hands_over:
  assumes P: "platform_ok (plat (kenv D))" and sl: "slaves_ok D" and dok: "dispatch_ok D h"
    and ok: "ready_ok (kcores (kern h)) Q"
    and run: "running (entries (tm (kcores (kern h))) (kcurrent (kern h)))"
    and free: "free_ids (tm (kcores (kern h))) = t # ts"
    and s: "s < length (hwti_array D)" and th: "plain_word D th" "ap \<noteq> 0"
    and func: "lookup_thread (global_thread_table h) f (isa (slave_table h ! s)) = Some func"
  shows "\<exists>k'. create_on_slave D th ap f arg (of_nat s) h = Some (SUCCESS, h\<lparr>kern := k'\<rparr>) \<and>
    handed_over (kenv D) (hwti_array D ! s) t func arg k' \<and> mem (mach k') th = ucast t \<and>
    hwti_read (hwti_array D ! s) 0x3C k' = func_2_acc_entry D f \<and>
    hwti_read (hwti_array D ! s) 0x44 k' = hwti_read (hwti_array D ! s) 0x44 (kern h) \<and>
    ready_ok (kcores k') Q \<and> kcurrent k' = kcurrent (kern h) \<and> free_ids (tm (kcores k')) = ts \<and>
    cur_invalid (tm (kcores k')) = cur_invalid (tm (kcores (kern h))) \<and>
    e_detached (entries (tm (kcores k')) t) = (detached (attr_heap (kern h) ap) \<noteq> 0) \<and>
    \<not> e_joined (entries (tm (kcores k')) t) \<and>
    (detached (attr_heap (kern h) ap) = 0 \<longrightarrow> e_pid (entries (tm (kcores k')) t) = kcurrent (kern h)) \<and>
    (\<forall>u. u \<noteq> t \<longrightarrow> entries (tm (kcores k')) u = entries (tm (kcores (kern h))) u) \<and>
    (\<forall>j < length (hwti_array D). \<forall>r < 0x100. j \<noteq> s \<longrightarrow>
       hwti_read (hwti_array D ! j) r k' = hwti_read (hwti_array D ! j) r (kern h))"
proof -
  let ?E = "kenv D" and ?b = "hwti_array D ! s"
  have b: "hwti_base ?E ?b" using slave_base [OF sl s] .
  have s31: "s < 2 ^ 31" using s dok unfolding dispatch_ok_def by (meson order_less_trans)
  define k1 where "k1 = hwti_set_first_accelerator_ptr ?E ?b (func_2_acc_entry D f) (kern h)"
  define k2 where "k2 = k1\<lparr>attr_heap := (attr_heap k1)(ap := snd (hthread_attr_sethardware ?b (attr_heap k1 ap)))\<rparr>"
  have k1: "kcores k1 = kcores (kern h)" "attr_heap k1 = attr_heap (kern h)"
    "hwti_base ?E b' \<Longrightarrow> r < 0x100 \<Longrightarrow> hwti_read b' r k1 =
      (if b' = ?b \<and> r = 0x3C then func_2_acc_entry D f else hwti_read b' r (kern h))" for b' r
    using b by (simp_all add: k1_def hwti_set_first_accelerator_ptr_def hwti_read_write)
  have k2: "kcores k2 = kcores (kern h)" "kcurrent k2 = kcurrent (kern h)" "hwti_read b' r k2 = hwti_read b' r k1" for b' r
    using k1 by (simp_all add: k2_def kcores_def kcurrent_def hwti_read_def)
  define attr where "attr = attr_heap k2 ap"
  have a: "attr_heap k2 ap = attr" "hardware attr = Htrue" "hardware_addr attr = hwti_cmd ?b 0x0C"
      "detached attr = detached (attr_heap (kern h) ap)"
    using sethardware_attr [OF b, of "attr_heap k1 ap"] k1(2) by (simp_all add: attr_def k2_def)
  have h2: "ready_ok (kcores k2) Q" "running (entries (tm (kcores k2)) (kcurrent k2))"
      "free_ids (tm (kcores k2)) = t # ts" "mem_addr (plat ?E) th" "th \<noteq> 0"
    using k2(1,2) ok run free th by (simp_all add: plain_word_def)
  from create_hardware [OF P h2(1-3) a(1-3) th(2) b h2(4,5) slave_outside [OF th(1) s], of "dflt_attrs D" func arg]
  obtain k' where k': "hthread_create ?E (dflt_attrs D) th ap func arg k2 = Some (Returned SUCCESS, k')"
    "handed_over ?E ?b t func arg k'" "mem (mach k') th = ucast t" "ready_ok (kcores k') Q"
    "kcurrent k' = kcurrent k2" "e_detached (entries (tm (kcores k')) t) = (detached attr \<noteq> 0)"
    "\<not> e_joined (entries (tm (kcores k')) t)"
    "e_pid (entries (tm (kcores k')) t) = (if detached attr \<noteq> 0 then 0 else kcurrent k2)"
    "\<forall>u. u \<noteq> t \<longrightarrow> entries (tm (kcores k')) u = entries (tm (kcores k2)) u"
    "\<forall>b' r. hwti_base ?E b' \<longrightarrow> outside b' th \<longrightarrow> r < 0x100 \<longrightarrow>
       b' \<noteq> ?b \<or> r \<notin> fst ` set (setup_words ?E (ucast t) func arg) \<longrightarrow> hwti_read b' r k' = hwti_read b' r k2"
    "free_ids (tm (kcores k')) = ts" "cur_invalid (tm (kcores k')) = cur_invalid (tm (kcores k2))"
    by blast
  have "at (slave_table h) (of_nat s) = Some (slave_table h ! s)" "at (hwti_array D) (of_nat s) = Some ?b"
    using s s31 dok by (simp_all add: at_index dispatch_ok_def)
  then have res: "create_on_slave D th ap f arg (of_nat s) h = Some (SUCCESS, h\<lparr>kern := k'\<rparr>)"
    using func k'(1) by (simp add: create_on_slave_def Let_def k1_def [symmetric] k2_def [symmetric])
  have others: "hwti_read (hwti_array D ! j) r k' = hwti_read (hwti_array D ! j) r (kern h)"
    if j: "j < length (hwti_array D)" "r < 0x100" "j \<noteq> s" for j r
    using k'(10) slave_base [OF sl j(1)] slave_outside [OF th(1) j(1)] j slave_base_inj [OF sl j(1) s] k2(3) k1(3) by simp
  have ptr: "hwti_read ?b 0x3C k' = func_2_acc_entry D f" "hwti_read ?b 0x44 k' = hwti_read ?b 0x44 (kern h)"
    using k'(10) b slave_outside [OF th(1) s] k2(3) k1(3) by (simp_all add: setup_words_def)
  from res k'(2-4) k'(5) k'(6-9) k'(11,12) ptr others show ?thesis by (auto simp: k2(1,2) a(4))
qed

lemma start_timing_frame [simp]:
  "kern (start_timing D h) = kern h" "global_thread_table (start_timing D h) = global_thread_table h"
  "slave_table (start_timing D h) = slave_table h" "found (start_timing D h) = found h"
  "table_initialized_flag (start_timing D h) = table_initialized_flag h"
  "slave_free D (start_timing D h) = slave_free D h" "slave_rank D (start_timing D h) = slave_rank D h"
  "dispatch_ok D (start_timing D h) = dispatch_ok D h"
  by (simp_all add: start_timing_def fun_eq_iff slave_free_def slave_rank_def dispatch_ok_def)

lemma stop_create_frame [simp]:
  "kern (stop_create D h) = kern h" "slave_free D (stop_create D h) = slave_free D h"
  by (simp_all add: stop_create_def Let_def fun_eq_iff slave_free_def)

text \<open>Whatever the build switches: when a free slave is chosen, the thread is handed to it.\<close>

lemma dynamic_create_on:
  assumes P: "platform_ok (plat (kenv D))" and sl: "slaves_ok D" and dok: "dispatch_ok D h"
    and fl: "table_initialized_flag h \<noteq> 0" and ok: "ready_ok (kcores (kern h)) Q"
    and run: "running (entries (tm (kcores (kern h))) (kcurrent (kern h)))"
    and free: "free_ids (tm (kcores (kern h))) = t # ts"
    and s: "s < length (hwti_array D)" "slave_free D h s"
    and fb: "find_best_match D f (start_timing D h) = Some (of_nat s, (start_timing D h)\<lparr>found := m\<rparr>)"
    and th: "plain_word D th" "ap \<noteq> 0"
    and code: "lookup_thread (global_thread_table h) f (isa (slave_table h ! s)) = Some func"
  shows "\<exists>h'. thread_create D th ap f arg DYNAMIC_HW dma h = Some (SUCCESS, h') \<and>
    handed_over (kenv D) (hwti_array D ! s) t func arg (kern h') \<and>
    mem (mach (kern h')) th = ucast t \<and> ready_ok (kcores (kern h')) Q \<and>
    (\<forall>j < length (hwti_array D). slave_free D h' j \<longleftrightarrow> slave_free D h j \<and> j \<noteq> s) \<and>
    hwti_read (hwti_array D ! s) 0x44 (kern h') = hwti_read (hwti_array D ! s) 0x44 (kern h) \<and>
    free_ids (tm (kcores (kern h'))) = ts \<and> kcurrent (kern h') = kcurrent (kern h) \<and>
    cur_invalid (tm (kcores (kern h'))) = cur_invalid (tm (kcores (kern h))) \<and>
    e_detached (entries (tm (kcores (kern h'))) t) = (detached (attr_heap (kern h) ap) \<noteq> 0) \<and>
    \<not> e_joined (entries (tm (kcores (kern h'))) t) \<and>
    (detached (attr_heap (kern h) ap) = 0 \<longrightarrow> e_pid (entries (tm (kcores (kern h'))) t) = kcurrent (kern h))"
proof -
  let ?h = "start_timing D h" and ?N = "length (hwti_array D)"
  define h1 where "h1 = ?h\<lparr>found := m\<rparr>"
  have h1: "kern h1 = kern h" "slave_table h1 = slave_table h" "global_thread_table h1 = global_thread_table h"
      "dispatch_ok D h1" using dok by (simp_all add: h1_def dispatch_ok_def)
  have c: "lookup_thread (global_thread_table h1) f (isa (slave_table h1 ! s)) = Some func"
    using code by (simp add: h1)
  have s31: "s < 2 ^ 31" using s(1) dok unfolding dispatch_ok_def by (meson order_less_trans)
  from create_on_slave_hands_over [OF P sl h1(4) ok [folded h1(1)] run [folded h1(1)] free [folded h1(1)]
      s(1) th c, of arg]
  obtain k' where k': "create_on_slave D th ap f arg (of_nat s) h1 = Some (SUCCESS, h1\<lparr>kern := k'\<rparr>)"
      "handed_over (kenv D) (hwti_array D ! s) t func arg k'" "mem (mach k') th = ucast t"
      "ready_ok (kcores k') Q"
      "\<forall>j < ?N. \<forall>r < 0x100. j \<noteq> s \<longrightarrow> hwti_read (hwti_array D ! j) r k' = hwti_read (hwti_array D ! j) r (kern h)"
      "hwti_read (hwti_array D ! s) 0x44 k' = hwti_read (hwti_array D ! s) 0x44 (kern h)"
      "free_ids (tm (kcores k')) = ts" "kcurrent k' = kcurrent (kern h)"
      "cur_invalid (tm (kcores k')) = cur_invalid (tm (kcores (kern h)))"
      "e_detached (entries (tm (kcores k')) t) = (detached (attr_heap (kern h) ap) \<noteq> 0)"
      "\<not> e_joined (entries (tm (kcores k')) t)"
      "detached (attr_heap (kern h) ap) = 0 \<longrightarrow> e_pid (entries (tm (kcores k')) t) = kcurrent (kern h)"
    unfolding h1(1) by blast
  have "wait_free D ?h = Some ?h"
    using num_free_nonzero [OF dok s] by (simp add: wait_free_now)
  then have tc: "thread_create D th ap f arg DYNAMIC_HW dma h = Some (SUCCESS, stop_create D (h1\<lparr>kern := k'\<rparr>))"
    using th(2) fl fb k'(1) index_codes [OF s31]
    by (simp add: thread_create_def init_host_tables_def create_dynamic_def dispatch_consts h1_def [symmetric])
  have "slave_free D (h1\<lparr>kern := k'\<rparr>) j \<longleftrightarrow> slave_free D h j \<and> j \<noteq> s" if "j < ?N" for j
    using k'(2,5) that
    by (cases "j = s") (simp_all add: slave_free_def hwti_get_utilized_flag_def handed_over_def
        FLAG_HWTI_UTILIZED_def FLAG_HWTI_FREE_def)
  then show ?thesis
    using tc k'(2-4,6-12) by (intro exI [of _ "stop_create D (h1\<lparr>kern := k'\<rparr>)"]) simp
qed

text \<open>In the build that compares the slaves, the slave is the best one.\<close>

lemma best_slave_found:
  assumes "dispatch_ok D h" "\<not> OPCODE_FLAGGING D" "CHECK_FIRST_POLYMORPHIC D"
    "i < length (hwti_array D)" "slave_free D h i" "at (thread_profile D) f = Some prof"
  shows "\<exists>s m. s < length (hwti_array D) \<and> slave_free D h s \<and>
    (\<forall>j < length (hwti_array D). slave_free D h j \<longrightarrow>
       slave_rank D h prof s < slave_rank D h prof j \<or>
       slave_rank D h prof s = slave_rank D h prof j \<and> s \<le> j) \<and>
    find_best_match D f (start_timing D h) = Some (of_nat s, (start_timing D h)\<lparr>found := m\<rparr>)"
  using find_best_match_result [of D "start_timing D h" f prof] assms by (auto split: if_splits)

text \<open>
  C14: In a build with \<^verbatim>\<open>CHECK_FIRST_POLYMORPHIC\<close> and without \<^verbatim>\<open>OPCODE_FLAGGING\<close> (with the latter the
  thread may be put into the queue instead, without the former the first free slave is taken), a
  thread created with \<^verbatim>\<open>DYNAMIC_HW\<close> while a slave is free runs on the best free slave: the
  call succeeds and returns the new thread's ID, the slave's interface holds the ID, the
  argument, the function compiled for that slave's instruction set and the go command, and
  the slave is no longer free, while every other slave is as free or busy as before. The
  ready queue of the host does not change. The tables have been initialised and have the function
  for every slave; the caller passes attributes, and its variable for the ID is outside of the interfaces.
\<close>

theorem dynamic_create_dispatches:
  assumes P: "platform_ok (plat (kenv D))" and sl: "slaves_ok D" and dok: "dispatch_ok D h"
    and fl: "\<not> OPCODE_FLAGGING D" "CHECK_FIRST_POLYMORPHIC D" "table_initialized_flag h \<noteq> 0"
    and ok: "ready_ok (kcores (kern h)) Q"
    and run: "running (entries (tm (kcores (kern h))) (kcurrent (kern h)))"
    and free: "free_ids (tm (kcores (kern h))) = t # ts"
    and sfree: "i < length (hwti_array D)" "slave_free D h i"
    and th: "plain_word D th" "ap \<noteq> 0"
    and prof: "at (thread_profile D) f = Some prof"
    and code: "\<And>s. s < length (hwti_array D) \<Longrightarrow>
      lookup_thread (global_thread_table h) f (isa (slave_table h ! s)) = Some (func s)"
  shows "\<exists>s h'. s < length (hwti_array D) \<and> slave_free D h s \<and>
    (\<forall>j < length (hwti_array D). slave_free D h j \<longrightarrow>
       slave_rank D h prof s < slave_rank D h prof j \<or>
       slave_rank D h prof s = slave_rank D h prof j \<and> s \<le> j) \<and>
    thread_create D th ap f arg DYNAMIC_HW dma h = Some (SUCCESS, h') \<and>
    handed_over (kenv D) (hwti_array D ! s) t (func s) arg (kern h') \<and>
    mem (mach (kern h')) th = ucast t \<and> ready_ok (kcores (kern h')) Q \<and>
    (\<forall>j < length (hwti_array D). slave_free D h' j \<longleftrightarrow> slave_free D h j \<and> j \<noteq> s)"
proof -
  obtain s m where s: "s < length (hwti_array D)" "slave_free D h s"
      "\<forall>j < length (hwti_array D). slave_free D h j \<longrightarrow> slave_rank D h prof s < slave_rank D h prof j \<or>
         slave_rank D h prof s = slave_rank D h prof j \<and> s \<le> j"
      and fb: "find_best_match D f (start_timing D h) = Some (of_nat s, (start_timing D h)\<lparr>found := m\<rparr>)"
    using best_slave_found [OF dok fl(1,2) sfree prof] by blast
  from dynamic_create_on [OF P sl dok fl(3) ok run free s(1,2) fb th code [OF s(1)], of arg dma] s show ?thesis by blast
qed

text \<open>A host with two slaves for the concrete instances: slave 1 has the accelerator of function 0.\<close>

definition example_dispatch :: dispatch where
  "example_dispatch = \<lparr>kenv = example_env, dflt_attrs = 0x100, hwti_array = [0x51000000, 0x51000100],
     slave_table_addr = 0x52000000, slave_table_size = 56,
     thread_profile = [\<lparr>idiv = 0, fpu = 0, barrel = 0, mul = 0, idiv_ratio = 0, fpu_ratio = 0,
       barrel_ratio = 0, mul_ratio = 0, first_accelerator = 2, prefer_PR = 0\<rparr>],
     preferred_list = [[-1, -1]], non_preferred_list = [[0, 1]], table_entries = [(0, 1, 0x4000, 0x3000, 64)],
     func_2_acc_addr = 0x53000000, tuning_table_addr = 0x54000000, TYPE_HOST = 0,
     SW_TRIGGER = [0x55000000, 0x55000010], STATUS = [0x55000004, 0x55000014], PR = False,
     OPCODE_FLAGGING = False, CHECK_FIRST_POLYMORPHIC = True, BASE_SCHEDULER = False,
     pr_config_mb = id, elsewhere = id, time_get = (\<lambda>_. 0)\<rparr>"

definition example_slave :: slave_t where
  "example_slave = \<lparr>isa = 1, vhwti_address = 0, has_pr = 0, configuration = hd (thread_profile example_dispatch)\<rparr>"

definition example_entry :: thread_entry_t where
  "example_entry = \<lparr>entry_id = 0, handles = [0, 0x4000], binary = [0, 0x3000], binary_size = [0, 64],
     entry_configuration = hd (thread_profile example_dispatch), preferred_processors = []\<rparr>"

definition example_host :: "kernel \<Rightarrow> host" where
  "example_host k = \<lparr>kern = k, global_thread_table = [example_entry], table_initialized_flag = 1,
     slave_table = [example_slave, example_slave],
     found = \<lparr>total_calls = 0, perfect_match_counter = 0, best_match_counter = 0, better_match_counter = 0,
       possible_match_counter = 0, best_match = 0, better_match = 0, possible_match = 0\<rparr>,
     ThreadQueue = replicate 100 \<lparr>q_tid = 0, q_attr = 0, q_func_id = 0, q_arg = 0\<rparr>,
     head = 0, tail = 0, thread_head_index = 0, thread_tail_index = 0, thread_entries = 0,
     create_overhead = 0, join_overhead = 0, randomize_overhead = 0, START = 0, STOP = 0, DIFF = 0\<rparr>"

lemma example_slaves: "slaves_ok example_dispatch" "plain_word example_dispatch 0x50000000"
  "platform_ok (plat (kenv example_dispatch))" "dispatch_ok example_dispatch (example_host k)"
  using example_platform
  by (simp_all add: slaves_ok_def plain_word_def example_dispatch_def hwti_base_def mem_addr_def outside_def
      example_env_def window_def dispatch_ok_def example_host_def)

definition example_board :: "cores \<Rightarrow> host" where
  "example_board c = example_host ((example_kernel c)\<lparr>mach := (mach (example_kernel c))
     \<lparr>mem := (\<lambda>_. 0)(0x52000038 := 2)\<rparr>\<rparr>)"

lemma example_board:
  "kcores (kern (example_board c)) = c"
  "slave_free example_dispatch (example_board c) 0" "slave_free example_dispatch (example_board c) 1"
  "slave_rank example_dispatch (example_board c) (hd (thread_profile example_dispatch)) 0 = 3"
  "slave_rank example_dispatch (example_board c) (hd (thread_profile example_dispatch)) 1 = 0"
  "dispatch_ok example_dispatch (example_board c)" "table_initialized_flag (example_board c) \<noteq> 0"
  "length (hwti_array example_dispatch) = 2"
  "at (thread_profile example_dispatch) 0 = Some (hd (thread_profile example_dispatch))"
  "\<not> OPCODE_FLAGGING example_dispatch" "CHECK_FIRST_POLYMORPHIC example_dispatch"
  by (simp_all add: kcores_def slave_free_def hwti_get_utilized_flag_def hwti_read_def hwti_cmd_def example_board_def
      example_host_def example_dispatch_def FLAG_HWTI_FREE_def example_kernel_def slave_rank_def match_rank_def
      example_slave_def acc_addr_def NO_ACC_def dispatch_ok_def at_def)

theorem find_best_match_optimal_witness:
  "\<exists>h h'. slave_free example_dispatch h 0 \<and> slave_free example_dispatch h 1 \<and>
     find_best_match example_dispatch 0 h = Some (1, h')"
proof -
  let ?D = example_dispatch and ?h = "example_board cores_reset" and ?prof = "hd (thread_profile example_dispatch)"
  have "\<exists>i<length (hwti_array ?D). slave_free ?D ?h i"
    by (intro exI [of _ 0]) (simp add: example_board(2,8))
  with find_best_match_optimal [OF example_board(6,10,11,9), of cores_reset]
  obtain m s where s: "find_best_match ?D 0 ?h = Some (of_nat s, ?h\<lparr>found := m\<rparr>)" "s < 2"
      "\<forall>j<2. slave_free ?D ?h j \<longrightarrow> slave_rank ?D ?h ?prof s < slave_rank ?D ?h ?prof j \<or>
         slave_rank ?D ?h ?prof s = slave_rank ?D ?h ?prof j \<and> s \<le> j"
    unfolding example_board(8) by metis
  have "s = 1" using s(2) s(3) [rule_format, of 1] example_board(3,4,5) [of cores_reset] by (cases s) auto
  then show ?thesis using s(1) example_board(2,3) by auto
qed

theorem dynamic_create_dispatches_witness:
  "\<exists>h h'. \<not> slave_free example_dispatch h' 1 \<and> slave_free example_dispatch h' 0 \<and>
     thread_create example_dispatch 0x50000000 0x200 0 7 DYNAMIC_HW 0 h = Some (SUCCESS, h') \<and>
     handed_over example_env 0x51000100 2 0x4000 7 (kern h')"
proof -
  obtain c ts where c: "ready_ok c ((\<lambda>_. [])(64 := [1]))" "is_current 0 (tm c)"
    "running (entries (tm c) 0)" "free_ids (tm c) = 2 # ts" using two_threads by metis
  let ?D = example_dispatch and ?h = "example_board c" and ?prof = "hd (thread_profile example_dispatch)"
  have code: "lookup_thread (global_thread_table ?h) 0 (isa (slave_table ?h ! s)) = Some ((\<lambda>_. 0x4000) s)"
    if "s < length (hwti_array ?D)" for s
    using that by (cases s) (simp_all add: lookup_thread_def at_def example_board_def example_host_def
        example_entry_def example_slave_def example_dispatch_def)
  have run: "ready_ok (kcores (kern ?h)) ((\<lambda>_. [])(64 := [1]))"
      "running (entries (tm (kcores (kern ?h))) (kcurrent (kern ?h)))" "free_ids (tm (kcores (kern ?h))) = 2 # ts"
    using c unfolding kcurrent_def example_board(1) by (simp_all add: is_current_def)
  have nz: "(0x200 :: Huint) \<noteq> 0" "0 < length (hwti_array ?D)" by (simp_all add: example_board(8))
  from dynamic_create_dispatches [OF example_slaves(3,1) example_board(6,10,11,7) run nz(2) example_board(2)
      example_slaves(2) nz(1) example_board(9) code, of 7 0]
  obtain s h' where s: "s < 2" "\<forall>j < 2. slave_free ?D ?h j \<longrightarrow> slave_rank ?D ?h ?prof s < slave_rank ?D ?h ?prof j \<or>
      slave_rank ?D ?h ?prof s = slave_rank ?D ?h ?prof j \<and> s \<le> j"
      and h': "thread_create ?D 0x50000000 0x200 0 7 DYNAMIC_HW 0 ?h = Some (SUCCESS, h')"
      "handed_over (kenv ?D) (hwti_array ?D ! s) 2 0x4000 7 (kern h')"
      "\<forall>j < 2. slave_free ?D h' j \<longleftrightarrow> slave_free ?D ?h j \<and> j \<noteq> s"
    unfolding example_board(8) by blast
  have "s = 1" using s(1) s(2) [rule_format, of 1] example_board(3,4,5) [of c] by (cases s) auto
  then show ?thesis
    using h' example_board(2) [of c] by (intro exI [of _ ?h] exI [of _ h']) (simp add: example_dispatch_def)
qed

section \<open>The build without \<^verbatim>\<open>CHECK_FIRST_POLYMORPHIC\<close>\<close>

text \<open>The other version of the loop only counts the class of the match: it takes the first free slave.\<close>

lemma scan_any:
  assumes ok: "dispatch_ok D h" and fl: "\<not> OPCODE_FLAGGING D" "\<not> CHECK_FIRST_POLYMORPHIC D"
    and s: "s < length (hwti_array D)" "slave_free D h s" "\<forall>j < s. \<not> slave_free D h j"
  shows "n \<le> s \<Longrightarrow> \<exists>m'. scan_slaves D h f prof (map of_nat [n..<length (hwti_array D)]) m = Some (Some (of_nat s), m')"
proof (induction "s - n" arbitrary: n)
  case (0 n)
  then have n: "n = s" by simp
  have s31: "s < 2 ^ 31" using s(1) ok unfolding dispatch_ok_def by (meson order_less_trans)
  show ?case
    using s fl s31 ok
    by (simp add: n upt_conv_Cons candidate_def at_index slave_free_def weigh_def weigh_any_def dispatch_ok_def Let_def)
next
  case (Suc d)
  then have n: "n < s" "n < length (hwti_array D)" using s(1) by simp_all
  then have n31: "n < 2 ^ 31" using ok unfolding dispatch_ok_def by (meson order_less_trans)
  have "scan_slaves D h f prof (map of_nat [n..<length (hwti_array D)]) m =
      scan_slaves D h f prof (map of_nat [Suc n..<length (hwti_array D)]) m"
    using n s(3) fl n31 by (simp add: upt_conv_Cons candidate_def at_index slave_free_def)
  then show ?case using Suc n by simp
qed

lemma find_any_first_free:
  assumes "dispatch_ok D h" "\<not> OPCODE_FLAGGING D" "\<not> CHECK_FIRST_POLYMORPHIC D"
    "s < length (hwti_array D)" "slave_free D h s" "\<forall>j < s. \<not> slave_free D h j"
    "at (thread_profile D) f = Some prof"
  shows "\<exists>m. find_best_match D f h = Some (of_nat s, h\<lparr>found := m\<rparr>)"
proof -
  let ?m = "(found h)\<lparr>total_calls := total_calls (found h) + 1, best_match := -1, better_match := -1,
    possible_match := -1\<rparr>"
  obtain m' where "scan_slaves D h f prof (slave_numbers D) ?m = Some (Some (of_nat s), m')"
    using scan_any [OF assms(1-6), of 0] unfolding slave_numbers_def by blast
  then have "find_best_match D f h = Some (of_nat s, h\<lparr>found := m'\<rparr>)"
    using assms(7) by (simp add: find_best_match_def Let_def)
  then show ?thesis by blast
qed

end
