(* ===== verification/Dispatch_Tables.thy ===== *)
theory Dispatch_Tables
  imports Dispatch_Laws
begin

text \<open>
  The dispatcher's tables: what the thread table returns after the compiler's entries have
  been loaded, what the thread queue holds, how partial reconfiguration ends, and where the
  checks on slave numbers let a wrong number through.
\<close>

section \<open>The thread table\<close>

lemma at_update:
  "unat i < length xs \<Longrightarrow> at (xs[unat i := x]) j = (if j = i then Some x else at xs j)"
  by (auto simp: at_def nth_list_update word_unat_eq_iff)

lemma insert_entry:
  assumes "insert_table_entry t f ty hdl bin sz = Some t'"
  shows "lookup_thread t' f' ty' = (if f' = f \<and> ty' = ty then Some hdl else lookup_thread t f' ty')"
    and "lookup_binary t' f' ty' = (if f' = f \<and> ty' = ty then Some bin else lookup_binary t f' ty')"
    and "lookup_size t' f' ty' = (if f' = f \<and> ty' = ty then Some sz else lookup_size t f' ty')"
proof -
  obtain e where e: "at t f = Some e" "unat ty < length (handles e)" "unat ty < length (binary e)"
      "unat ty < length (binary_size e)"
      "t' = t[unat f := e\<lparr>entry_id := f, handles := (handles e)[unat ty := hdl],
         binary := (binary e)[unat ty := bin], binary_size := (binary_size e)[unat ty := sz]\<rparr>]"
    using assms by (auto simp: insert_table_entry_def split: option.splits if_splits)
  have "unat f < length t" using e(1) by (auto simp: at_def split: if_splits)
  note upd = at_update [OF this] at_update [OF e(2)] at_update [OF e(3)] at_update [OF e(4)]
  show "lookup_thread t' f' ty' = (if f' = f \<and> ty' = ty then Some hdl else lookup_thread t f' ty')"
    "lookup_binary t' f' ty' = (if f' = f \<and> ty' = ty then Some bin else lookup_binary t f' ty')"
    "lookup_size t' f' ty' = (if f' = f \<and> ty' = ty then Some sz else lookup_size t f' ty')"
    using e(1) by (simp_all add: e(5) upd lookup_thread_def lookup_binary_def lookup_size_def)
qed

text \<open>The slots that the generated calls write.\<close>

definition slot :: "Huint \<times> Huint \<times> Huint \<times> Huint \<times> Huint \<Rightarrow> Huint \<times> Huint" where
  "slot e = (case e of (f, ty, _, _, _) \<Rightarrow> (f, ty))"

lemma load_frame:
  assumes "load_my_table es tb = Some tb'" "(f, ty) \<notin> slot ` set es"
  shows "lookup_thread tb' f ty = lookup_thread tb f ty" "lookup_binary tb' f ty = lookup_binary tb f ty"
    "lookup_size tb' f ty = lookup_size tb f ty"
  using assms
  by (induction es tb rule: load_my_table.induct) (auto simp: slot_def insert_entry split: option.splits)

text \<open>
  C23: After the generated entries have been loaded into the thread table, looking up any of
  them gives back its handle, its binary and its size, provided no two entries are for the
  same function and processor type.
\<close>

theorem load_lookup_roundtrip:
  assumes "load_my_table es tb = Some tb'" and "distinct (map slot es)" and "(f, ty, hdl, bin, sz) \<in> set es"
  shows "lookup_thread tb' f ty = Some hdl \<and> lookup_binary tb' f ty = Some bin \<and> lookup_size tb' f ty = Some sz"
  using assms
proof (induction es tb rule: load_my_table.induct)
  case (1 tb)
  then show ?case by simp
next
  case (2 f0 ty0 h0 b0 z0 es tb)
  then obtain tb1 where tb1: "insert_table_entry tb f0 ty0 h0 b0 z0 = Some tb1" "load_my_table es tb1 = Some tb'"
    by (auto split: option.splits)
  show ?case
  proof (cases "(f, ty, hdl, bin, sz) \<in> set es")
    case True
    then show ?thesis using "2.IH" [OF tb1(1)] tb1(2) "2.prems"(2) by simp
  next
    case False
    then have "(f, ty) \<notin> slot ` set es" "f = f0" "ty = ty0" "hdl = h0" "bin = b0" "sz = z0"
      using "2.prems"(2,3) by (auto simp: slot_def)
    then show ?thesis using load_frame [OF tb1(2)] insert_entry [OF tb1(1)] by simp
  qed
qed

theorem load_lookup_roundtrip_witness:
  "\<exists>tb'. load_my_table [(0, 1, 0x4000, 0x3000, 64), (0, 0, 0x2000, 0, 0)] (init_thread_table [example_entry]) = Some tb' \<and>
     lookup_thread tb' 0 1 = Some 0x4000 \<and> lookup_size tb' 0 1 = Some 64"
proof -
  let ?es = "[(0, 1, 0x4000, 0x3000, 64), (0, 0, 0x2000, 0, 0)] :: (Huint \<times> Huint \<times> Huint \<times> Huint \<times> Huint) list"
  obtain tb' where tb': "load_my_table ?es (init_thread_table [example_entry]) = Some tb'"
    by (simp add: init_thread_table_def example_entry_def insert_table_entry_def at_def)
  have "distinct (map slot ?es)" "(0, 1, 0x4000, 0x3000, 64) \<in> set ?es" by (simp_all add: slot_def)
  from load_lookup_roundtrip [OF tb' this] tb' show ?thesis by auto
qed

section \<open>The thread queue\<close>

definition request :: "Huint \<times> Huint \<times> Huint \<times> Huint \<Rightarrow> Qnode_t" where
  "request r = (case r of (t, a, f, x) \<Rightarrow> \<lparr>q_tid = t, q_attr = a, q_func_id = f, q_arg = x\<rparr>)"

definition enqueue_all :: "(Huint \<times> Huint \<times> Huint \<times> Huint) list \<Rightarrow> host \<Rightarrow> host" where
  "enqueue_all rs = fold (\<lambda>(t, a, f, x). enqueue_thread t a f x) rs"

lemma next_slot:
  assumes "n < 100"
  shows "(of_nat n + 1 :: Huint) mod THREAD_QUEUE_MAX = of_nat (Suc n mod 100)"
proof (rule word_unat_eq_iff [THEN iffD2])
  have "unat (of_nat n + 1 :: Huint) = Suc n" using assms unat_index [of "Suc n"] by (simp add: add.commute)
  moreover have "unat (of_nat (Suc n mod 100) :: Huint) = Suc n mod 100" by (rule unat_index) simp
  ultimately show "unat ((of_nat n + 1 :: Huint) mod THREAD_QUEUE_MAX) = unat (of_nat (Suc n mod 100) :: Huint)"
    by (simp add: unat_mod_distrib THREAD_QUEUE_MAX_def)
qed

lemma mod_window:
  assumes "i < n" "n < i + 100"
  shows "i mod 100 \<noteq> n mod (100 :: nat)"
proof
  assume "i mod 100 = n mod 100"
  then have "100 dvd n - i" using assms(1) by (metis mod_eq_dvd_iff_nat less_imp_le)
  with assms show False by (auto dest: dvd_imp_le)
qed

text \<open>
  C39: The thread queue, started empty, keeps the last hundred requests in the order of arrival
  at consecutive slots, and its counter counts every request. Nothing refuses a request when
  the queue is full: the hundred and first overwrites the oldest one.
\<close>

theorem queue_keeps_last_hundred:
  assumes "tail h = 0" "thread_tail_index h = 0" "thread_entries h = 0" "length (ThreadQueue h) = 100"
    and h': "h' = enqueue_all rs h"
  shows "length (ThreadQueue h') = 100 \<and> thread_entries h' = of_nat (length rs) \<and>
    tail h' = of_nat (length rs mod 100) \<and> thread_tail_index h' = of_nat (length rs mod 100) \<and>
    (\<forall>i. i < length rs \<and> length rs \<le> i + 100 \<longrightarrow> ThreadQueue h' ! (i mod 100) = request (rs ! i))"
  unfolding h'
proof (induction rs rule: rev_induct)
  case Nil
  then show ?case using assms(1-4) by (simp add: enqueue_all_def)
next
  case (snoc r rs)
  let ?n = "length rs" and ?g = "enqueue_all rs h"
  obtain t a f x where r: "r = (t, a, f, x)" by (cases r)
  have step: "enqueue_all (rs @ [r]) h = enqueue_thread t a f x ?g" by (simp add: enqueue_all_def r)
  have u: "unat (of_nat (?n mod 100) :: Huint) = ?n mod 100" by (rule unat_index) simp
  have nx: "(of_nat (?n mod 100) + 1 :: Huint) mod THREAD_QUEUE_MAX = of_nat (Suc ?n mod 100)"
    using next_slot [of "?n mod 100"] by (simp add: mod_Suc_eq)
  have old: "ThreadQueue (enqueue_thread t a f x ?g) ! (i mod 100) = request ((rs @ [r]) ! i)"
    if i: "i < Suc ?n" "Suc ?n \<le> i + 100" for i
  proof (cases "i = ?n")
    case True
    then show ?thesis using snoc u by (simp add: enqueue_thread_def Let_def request_def r)
  next
    case False
    then have "i < ?n" "?n \<le> i + 100" "i mod 100 \<noteq> ?n mod 100" using i mod_window [of i ?n] by simp_all
    then show ?thesis using snoc u by (simp add: enqueue_thread_def Let_def nth_append)
  qed
  show ?case
    unfolding step using snoc nx old by (simp add: enqueue_thread_def Let_def add.commute)
qed

theorem queue_keeps_last_hundred_witness:
  "\<exists>h. thread_entries (enqueue_all (replicate 100 (1, 0, 0, 0) @ [(2, 0, 0, 0)]) h) = 101 \<and>
       ThreadQueue (enqueue_all (replicate 100 (1, 0, 0, 0) @ [(2, 0, 0, 0)]) h) ! 0 = request (2, 0, 0, 0)"
proof -
  define h where "h = example_host (example_kernel cores_reset)"
  have h: "tail h = 0" "thread_tail_index h = 0" "thread_entries h = 0" "length (ThreadQueue h) = 100"
    by (simp_all add: h_def example_host_def)
  let ?rs = "replicate 100 (1, 0, 0, 0) @ [(2, 0, 0, 0)] :: (Huint \<times> Huint \<times> Huint \<times> Huint) list"
  have n: "length ?rs = 101" "?rs ! 100 = (2, 0, 0, 0)" by (simp_all add: nth_append)
  have q: "thread_entries (enqueue_all ?rs h) = of_nat 101"
      "\<forall>i. i < 101 \<and> 101 \<le> i + 100 \<longrightarrow> ThreadQueue (enqueue_all ?rs h) ! (i mod 100) = request (?rs ! i)"
    using queue_keeps_last_hundred [OF h refl, of ?rs] unfolding n(1) by blast+
  from q(2) have "ThreadQueue (enqueue_all ?rs h) ! (100 mod 100) = request (?rs ! 100)" by (elim allE [of _ 100]) simp
  then show ?thesis using q(1) unfolding n(2) by auto
qed

section \<open>Partial reconfiguration\<close>

text \<open>What the status register shows after \<open>n\<close> polls: still busy, an error, or done.\<close>

definition pr_busy :: "Huint \<Rightarrow> kernel \<Rightarrow> bool" where
  "pr_busy status k \<longleftrightarrow> mem (mach k) status AND 0x78 = 0 \<and> mem (mach k) status AND 0x07 \<noteq> 7"

definition pr_done :: "Huint \<Rightarrow> kernel \<Rightarrow> bool" where
  "pr_done status k \<longleftrightarrow> mem (mach k) status AND 0x78 = 0 \<and> mem (mach k) status AND 0x07 = 7"

lemma pr_poll_ends:
  assumes "\<And>i. i < n \<Longrightarrow> pr_busy status ((dev ^^ i) k)" "\<not> pr_busy status ((dev ^^ n) k)"
  shows "pr_poll dev status k =
    Some (if pr_done status ((dev ^^ n) k) then SUCCESS else FAILURE, (dev ^^ n) k)"
  using assms
proof (induction n arbitrary: k)
  case 0
  then show ?case by (auto simp: pr_poll.simps [of dev status k] pr_busy_def pr_done_def Let_def)
next
  case (Suc n)
  have "pr_poll dev status k = pr_poll dev status (dev k)"
    using Suc.prems(1) [of 0] by (simp add: pr_poll.simps [of dev status k] pr_busy_def Let_def)
  moreover have "pr_busy status ((dev ^^ i) (dev k))" if "i < n" for i
    using Suc.prems(1) [of "Suc i"] that by (simp add: funpow_swap1)
  moreover have "\<not> pr_busy status ((dev ^^ n) (dev k))" using Suc.prems(2) by (simp add: funpow_swap1)
  ultimately show ?case using Suc.IH [of "dev k"] by (simp add: funpow_swap1)
qed

text \<open>
  Partial reconfiguration of a slave ends as soon as the controller stops being busy. When
  no request was pending the accelerator's number is in the trigger register while the
  controller works; on success the slave's interface names it as the loaded accelerator, and
  an error bit in the status register makes the call fail without touching the interface.
\<close>

theorem perform_PR_ends:
  assumes sl: "slaves_ok D" and mb: "mb < 16" "at (SW_TRIGGER D) mb = Some trigger"
      "at (STATUS D) mb = Some status" "at (hwti_array D) mb = Some b"
    and tr: "mem_addr (plat (kenv D)) trigger" "mem (mach k) trigger AND 0x8000 = 0"
    and k1: "k1 = store (kenv D) trigger acc k"
    and dev: "\<And>i. i < n \<Longrightarrow> pr_busy status ((elsewhere D ^^ i) k1)"
      "\<not> pr_busy status ((elsewhere D ^^ n) k1)"
  shows "mem (mach k1) trigger = acc \<and>
    (if pr_done status ((elsewhere D ^^ n) k1)
     then \<exists>k'. perform_PR D mb acc k = Some (SUCCESS, k') \<and> hwti_get_last_accelerator b k' = acc
     else perform_PR D mb acc k = Some (FAILURE, (elsewhere D ^^ n) k1))"
proof -
  have b: "hwti_base (kenv D) b"
    using sl mb(4) by (auto simp: slaves_ok_def at_def list_all_length split: if_splits)
  have "\<not> mb \<ge> 16" using mb(1) by (simp add: not_le)
  then show ?thesis
    using mb(2-4) tr b pr_poll_ends [of n status "elsewhere D" k1, OF dev]
    by (simp add: perform_PR_def k1 [symmetric] status_values hwti_set_last_accelerator_def
        hwti_get_last_accelerator_def hwti_read_write) (simp add: k1 store_mem)
qed

theorem perform_PR_ends_witness:
  "\<exists>k k'. mem (mach k) 0x55000004 = 7 \<and> perform_PR example_dispatch 0 3 k = Some (SUCCESS, k') \<and>
     hwti_get_last_accelerator 0x51000000 k' = 3"
proof -
  define k where "k = (example_kernel cores_reset)\<lparr>mach := (mach (example_kernel cores_reset))
    \<lparr>mem := (\<lambda>_. 0)(0x55000004 := 7)\<rparr>\<rparr>"
  let ?D = example_dispatch
  define k1 where "k1 = store (kenv ?D) 0x55000000 3 k"
  have d: "(0 :: Huint) < 16" "at (SW_TRIGGER ?D) 0 = Some 0x55000000" "at (STATUS ?D) 0 = Some 0x55000004"
      "at (hwti_array ?D) 0 = Some 0x51000000" "mem_addr (plat (kenv ?D)) 0x55000000"
      "mem (mach k) 0x55000000 AND 0x8000 = 0"
    by (simp_all add: example_dispatch_def at_def mem_addr_def example_env_def window_def k_def)
  have "mem (mach k1) 0x55000004 = 7" using d(5) by (simp add: k1_def store_mem k_def)
  then have p: "\<not> pr_busy 0x55000004 ((elsewhere ?D ^^ 0) k1)" "pr_done 0x55000004 k1"
    by (simp_all add: pr_busy_def pr_done_def)
  from perform_PR_ends [OF example_slaves(1) d k1_def _ p(1)] p(2)
  obtain k' where "perform_PR ?D 0 3 k = Some (SUCCESS, k')" "hwti_get_last_accelerator 0x51000000 k' = 3"
    by auto
  moreover have "mem (mach k) 0x55000004 = 7" by (simp add: k_def)
  ultimately show ?thesis by blast
qed

text \<open>
  A pending request for the same region is not waited for: the trigger register is left alone,
  and when the status is ready the call reports success and names the accelerator it was
  asked for as the loaded one, although nothing asked the controller to load it.
\<close>

lemma perform_PR_skips_pending:
  assumes sl: "slaves_ok D" and mb: "mb < 16" "at (SW_TRIGGER D) mb = Some trigger"
      "at (STATUS D) mb = Some status" "at (hwti_array D) mb = Some b"
    and pending: "mem (mach k) trigger AND 0x8000 \<noteq> 0" "pr_done status k"
    and out: "outside b trigger"
  shows "\<exists>k'. perform_PR D mb acc k = Some (SUCCESS, k') \<and> mem (mach k') trigger = mem (mach k) trigger \<and>
    hwti_get_last_accelerator b k' = acc"
proof -
  have b: "hwti_base (kenv D) b"
    using sl mb(4) by (auto simp: slaves_ok_def at_def list_all_length split: if_splits)
  have "pr_poll (elsewhere D) status k = Some (SUCCESS, k)"
    using pr_poll_ends [of 0 status "elsewhere D" k] pending(2) by (simp add: pr_busy_def pr_done_def)
  moreover have "\<not> mb \<ge> 16" using mb(1) by (simp add: not_le)
  ultimately show ?thesis
    using mb(2-4) pending(1) b outside_reg [OF out, of "0x40"]
    by (simp add: perform_PR_def status_values hwti_set_last_accelerator_def hwti_get_last_accelerator_def
        hwti_write_mem hwti_read_def)
qed

section \<open>Slave numbers\<close>

text \<open>
  The number of slaves itself passes \<^verbatim>\<open>check_valid_slave_num\<close>, although it is one past the end
  of \<^verbatim>\<open>hwti_array\<close>.
\<close>

lemma slave_number_off_by_one:
  assumes "length (hwti_array D) < 2 ^ 31" and "N = NUM_AVAILABLE_HETERO_CPUS D"
  shows "check_valid_slave_num D N" "at (hwti_array D) N = None"
    "get_last_function D N h = None" "i < length (hwti_array D) \<Longrightarrow> check_valid_slave_num D (of_nat i)"
  using assms
  by (simp_all add: check_valid_slave_num_def NUM_AVAILABLE_HETERO_CPUS_def at_def unat_index get_last_function_def
      word_less_nat_alt)

text \<open>
  A static request for a slave that does not exist creates a software thread, as its message
  says, and then goes on to use the number as an index: the interface it reads lies outside
  the array.
\<close>

lemma static_create_falls_through:
  assumes "length (hwti_array D) < 2 ^ 31" and "type + STATIC_HW_OFFSET \<ge> NUM_AVAILABLE_HETERO_CPUS D"
  shows "at (hwti_array D) (type + STATIC_HW_OFFSET) = None" "create_static D th ap f arg type h = None"
proof -
  show "at (hwti_array D) (type + STATIC_HW_OFFSET) = None"
    using assms by (simp add: at_def NUM_AVAILABLE_HETERO_CPUS_def word_le_nat_alt unat_index)
  then show "create_static D th ap f arg type h = None"
    by (simp add: create_static_def Let_def split: option.splits)
qed

text \<open>
  A static request for a slave that exists and is free hands the thread to exactly that slave.
\<close>

lemma static_create_on_slave:
  assumes "dispatch_ok D h" "s < length (hwti_array D)" "slave_free D h s" "type = of_nat s + 2"
  shows "create_static D th ap f arg type h = create_on_slave D th ap f arg (of_nat s) h"
proof -
  have s31: "s < 2 ^ 31" using assms(1,2) unfolding dispatch_ok_def by (meson order_less_trans)
  have "\<not> (of_nat s :: Huint) \<ge> NUM_AVAILABLE_HETERO_CPUS D"
    using assms(1,2) s31 by (simp add: NUM_AVAILABLE_HETERO_CPUS_def word_le_nat_alt unat_index dispatch_ok_def)
  then show ?thesis
    using assms at_index [OF assms(2) s31]
    by (simp add: create_static_def STATIC_HW_OFFSET_def Let_def slave_free_def FLAG_HWTI_FREE_def FLAG_HWTI_UTILIZED_def)
qed

end
