(* ===== verification/Slave.thy ===== *)
theory Slave
  imports Vhwti
begin

text \<open>
  The software of a slave processor. The first part is the nanokernel that every slave runs,
  \<^verbatim>\<open>hw_thread.c\<close> and \<^verbatim>\<open>proc_hw_thread.c\<close> of
  \<^verbatim>\<open>src/platforms/xilinx/vivado_archgen/slave_src\<close>: it waits for the go command in the slave's
  interface, runs the function named there and reports the thread's exit. The second part is
  the choice between an accelerator and software, \<^verbatim>\<open>hal/src/software/accelerators/acc_common.c\<close>
  and \<^verbatim>\<open>pr_mblaze.c\<close>.

  The slave shares the machine and the table of thread control blocks with the host; it
  reaches the table through the pointer in its interface, and an access through any other
  pointer gives \<open>None\<close>. Parameters: the base address of the interface and the number of the
  slave (the processor version registers), what the rest of the system does between two polls,
  what the timer reads, the code at an address, and the outcome of the floating-point
  comparison of the tuning table. The processor is little-endian, as
  \<^verbatim>\<open>_arch_get_time\<close> assumes: a 64-bit time has its low word first.
\<close>

section \<open>The interface as the slave sees it\<close>

record proc_interface_t =
  base_reg :: Huint
  tid_reg :: Huint
  uti_reg :: Huint
  sta_reg :: Huint
  cmd_reg :: Huint
  arg_reg :: Huint
  res_reg :: Huint
  fcn_reg :: Huint
  stack_ptr :: Huint
  gctx_ptr :: Huint
  arch_ctx_ptr :: Huint
  bstrap_ptr :: Huint
  exec_time_reg :: Huint
  first_used_accelerator :: Huint
  first_used_ptr :: Huint
  last_used_accelerator :: Huint
  last_used_ptr :: Huint
  tuning_table_ptr :: Huint
  has_PR :: Huint
  acc_hw_counter :: Huint
  acc_sw_counter :: Huint
  acc_pr_counter :: Huint

text \<open>Pointers to words: \<^verbatim>\<open>baseAddr + n\<close> is \<open>4 * n\<close> bytes further.\<close>

definition initialize_interface :: "Huint \<Rightarrow> proc_interface_t" where
  "initialize_interface baseAddr =
     (let word = (\<lambda>n. baseAddr + 4 * n) in
      \<lparr>base_reg = baseAddr, tid_reg = word 0, uti_reg = word 1, sta_reg = word 2, cmd_reg = word 3,
       arg_reg = word 4, res_reg = word 5, fcn_reg = word 6, stack_ptr = word 8, gctx_ptr = word 9,
       arch_ctx_ptr = word 10, bstrap_ptr = word 11, exec_time_reg = word 12,
       first_used_accelerator = word 14, first_used_ptr = word 15, last_used_accelerator = word 16,
       last_used_ptr = word 17, tuning_table_ptr = word 18, has_PR = word 19, acc_hw_counter = word 20,
       acc_sw_counter = word 21, acc_pr_counter = word 22\<rparr>)"

record slave_env =
  senv :: env
  vhwti_base :: Huint
  slave_num :: Huint
  around :: "kernel \<Rightarrow> kernel"
  slave_time :: "kernel \<Rightarrow> 64 word"
  thread_code :: "Huint \<Rightarrow> Huint \<Rightarrow> kernel \<Rightarrow> (Huint \<times> kernel) option"
  PR_build :: bool
  mb_trigger :: "Huint list"
  mb_status :: "Huint list"
  tuned_faster :: "Huint \<Rightarrow> Huint \<Rightarrow> Huint \<Rightarrow> Huint \<Rightarrow> kernel \<Rightarrow> bool"

record slave =
  world :: kernel
  prev_last_used_accelerator :: Huint

definition SLAVE_NO_ACC :: Huint where "SLAVE_NO_ACC = -1"

definition GO_COMMAND :: Huint where "GO_COMMAND = 1"

definition RESET_COMMAND :: Huint where "RESET_COMMAND = 2"

definition load :: "Huint \<Rightarrow> kernel \<Rightarrow> Huint" where
  "load a k = mem (mach k) a"

definition load64 :: "Huint \<Rightarrow> kernel \<Rightarrow> 64 word" where
  "load64 a k = ucast (load a k) OR push_bit 32 (ucast (load (a + 4) k))"

definition store64 :: "env \<Rightarrow> Huint \<Rightarrow> 64 word \<Rightarrow> kernel \<Rightarrow> kernel" where
  "store64 E a v k = store E (a + 4) (ucast (drop_bit 32 v)) (store E a (ucast v) k)"

definition iface_of :: "slave_env \<Rightarrow> proc_interface_t" where
  "iface_of S = initialize_interface (vhwti_base S)"

definition upd_world :: "(kernel \<Rightarrow> kernel) \<Rightarrow> slave \<Rightarrow> slave" where
  "upd_world f s = s\<lparr>world := f (world s)\<rparr>"

text \<open>The slave's command macros leave out the processor number.\<close>

definition slave_encode_cmd :: "platform \<Rightarrow> Huint \<Rightarrow> Huint \<Rightarrow> Huint" where
  "slave_encode_cmd P th cd =
     MANAGER_BASEADDR P OR push_bit 2 (th AND 0xFF) OR push_bit 10 (cd AND 0x1F)"

section \<open>Waiting for commands\<close>

partial_function (option) poll_command :: "slave_env \<Rightarrow> Huint \<Rightarrow> Huint \<Rightarrow> kernel \<Rightarrow> kernel option" where
  "poll_command S reg cmd k = (if load reg k \<noteq> cmd then poll_command S reg cmd (around S k) else Some k)"

definition wait_for_reset_command :: "slave_env \<Rightarrow> proc_interface_t \<Rightarrow> kernel \<Rightarrow> kernel option" where
  "wait_for_reset_command S iface k = poll_command S (cmd_reg iface) RESET_COMMAND k"

definition wait_for_go_command :: "slave_env \<Rightarrow> proc_interface_t \<Rightarrow> kernel \<Rightarrow> kernel option" where
  "wait_for_go_command S iface k =
     (case poll_command S (cmd_reg iface) GO_COMMAND k of
        None \<Rightarrow> None
      | Some k0 \<Rightarrow>
          let E = senv S;
              k1 = store E (first_used_accelerator iface) SLAVE_NO_ACC k0;
              k2 = store64 E (exec_time_reg iface) 0 k1;
              k3 = store64 E (exec_time_reg iface) (slave_time S k2) k2
          in Some (store E (cmd_reg iface) 0 k3))"

section \<open>System calls of the nanokernel\<close>

text \<open>The parts of \<^verbatim>\<open>proc_hw_thread_exit\<close>: time and return value, then the accelerators.\<close>

definition exit_record :: "slave_env \<Rightarrow> proc_interface_t \<Rightarrow> Huint \<Rightarrow> kernel \<Rightarrow> kernel option" where
  "exit_record S iface ret k =
     (let E = senv S;
          tcb_array = load (gctx_ptr iface) k;
          stop = slave_time S k;
          start = load64 (exec_time_reg iface) k;
          k1 = store64 E (exec_time_reg iface) (stop - start) k;
          t = load (tid_reg iface) k1
      in if tcb_array \<noteq> threads_base E \<or> t \<ge> MAX_THREADS then None
         else
           let k2 = upd_thread t (\<lambda>x. x\<lparr>execution_time := stop - start\<rparr>) k1
           in Some (if ret \<noteq> 0
                then upd_thread t (\<lambda>x. x\<lparr>retval := ret\<rparr>) (store E (res_reg iface) ret k2) else k2))"

definition exit_accelerators :: "slave_env \<Rightarrow> proc_interface_t \<Rightarrow> slave \<Rightarrow> slave" where
  "exit_accelerators S iface s =
     (let E = senv S; k = world s;
          p = load (first_used_ptr iface) k;
          k1 = (if load (first_used_accelerator iface) k \<noteq> SLAVE_NO_ACC \<and> p \<noteq> 0
                then store E p (load (first_used_accelerator iface) k) k else k)
      in if load (last_used_accelerator iface) k1 \<noteq> prev_last_used_accelerator s then
           (let q = load (last_used_ptr iface) k1;
                k2 = (if q \<noteq> 0 then store E q (load (last_used_accelerator iface) k1) k1 else k1)
            in s\<lparr>world := k2, prev_last_used_accelerator := load (last_used_accelerator iface) k2\<rparr>)
         else s\<lparr>world := k1\<rparr>)"

definition proc_hw_thread_exit ::
  "slave_env \<Rightarrow> proc_interface_t \<Rightarrow> Huint \<Rightarrow> slave \<Rightarrow> (Huint \<times> slave) option" where
  "proc_hw_thread_exit S iface ret s =
     (case exit_record S iface ret (world s) of
        None \<Rightarrow> None
      | Some k1 \<Rightarrow>
          (let E = senv S;
               s2 = exit_accelerators S iface (s\<lparr>world := k1\<rparr>);
               cmd = slave_encode_cmd (plat E) (load (tid_reg iface) (world s2)) 0x07
           in case on_mach (read_reg (plat E) cmd) (world s2) of
                (status, k3) \<Rightarrow> Some (status, s2\<lparr>world := store E (uti_reg iface) 0 k3\<rparr>)))"

definition proc_hw_mutex_lock :: "slave_env \<Rightarrow> proc_interface_t \<Rightarrow> Huint \<Rightarrow> kernel \<Rightarrow> kernel option" where
  "proc_hw_mutex_lock S iface lock_number k =
     (case on_mach (read_reg (plat (senv S)) (mutex_cmd (plat (senv S)) 0 (load (tid_reg iface) k) lock_number)) k of
        (status, k1) \<Rightarrow> if status = HT_MUTEX_BLOCK then wait_for_go_command S iface k1 else Some k1)"

definition proc_hw_mutex_unlock :: "slave_env \<Rightarrow> proc_interface_t \<Rightarrow> Huint \<Rightarrow> kernel \<Rightarrow> kernel" where
  "proc_hw_mutex_unlock S iface lock_number k =
     snd (on_mach (read_reg (plat (senv S)) (mutex_cmd (plat (senv S)) 1 (load (tid_reg iface) k) lock_number)) k)"

definition slave_mutex_lock :: "slave_env \<Rightarrow> Huint \<Rightarrow> kernel \<Rightarrow> kernel option" where
  "slave_mutex_lock S lock_number k = proc_hw_mutex_lock S (initialize_interface (vhwti_base S)) lock_number k"

definition slave_mutex_unlock :: "slave_env \<Rightarrow> Huint \<Rightarrow> kernel \<Rightarrow> kernel" where
  "slave_mutex_unlock S lock_number k = proc_hw_mutex_unlock S (initialize_interface (vhwti_base S)) lock_number k"

section \<open>The nanokernel's main loop\<close>

definition slave_bootstrap_thread ::
  "slave_env \<Rightarrow> proc_interface_t \<Rightarrow> Huint \<Rightarrow> Huint \<Rightarrow> slave \<Rightarrow> (Huint \<times> slave) option" where
  "slave_bootstrap_thread S iface func arg s =
     (case thread_code S func arg (world s) of
        None \<Rightarrow> None
      | Some (ret, k) \<Rightarrow> proc_hw_thread_exit S iface ret (s\<lparr>world := k\<rparr>))"

definition slave_start :: "slave_env \<Rightarrow> slave \<Rightarrow> slave" where
  "slave_start S s =
     (let E = senv S; i = iface_of S;
          k1 = store E (last_used_accelerator i) SLAVE_NO_ACC (world s);
          k2 = store E (last_used_ptr i) 0 (store E (first_used_ptr i) 0 k1);
          k3 = store E (acc_pr_counter i) 0 (store E (acc_sw_counter i) 0 (store E (acc_hw_counter i) 0 k2))
      in s\<lparr>world := k3, prev_last_used_accelerator := SLAVE_NO_ACC\<rparr>)"

text \<open>One turn of the loop: wait for a thread, run it, report its exit.\<close>

definition slave_turn :: "slave_env \<Rightarrow> slave \<Rightarrow> slave option" where
  "slave_turn S s =
     (let i = iface_of S; k1 = store (senv S) (first_used_accelerator i) SLAVE_NO_ACC (world s) in
      case wait_for_go_command S i k1 of
        None \<Rightarrow> None
      | Some k2 \<Rightarrow> map_option snd
          (slave_bootstrap_thread S i (load (fcn_reg i) k2) (load (arg_reg i) k2) (s\<lparr>world := k2\<rparr>)))"

section \<open>Accelerator or software (acc\_common.c)\<close>

partial_function (option) slave_pr_poll :: "slave_env \<Rightarrow> Huint \<Rightarrow> kernel \<Rightarrow> (Hint \<times> kernel) option" where
  "slave_pr_poll S status k =
     (let ReadStatus = load status k in
      if ReadStatus AND 0x78 \<noteq> 0 then Some (FAILURE, k)
      else if ReadStatus AND 0x07 \<noteq> 7 then slave_pr_poll S status (around S k)
      else Some (SUCCESS, k))"

definition slave_perform_PR :: "slave_env \<Rightarrow> Huint \<Rightarrow> Huint \<Rightarrow> kernel \<Rightarrow> (Hint \<times> kernel) option" where
  "slave_perform_PR S mb accelerator_type k =
     (if mb \<ge> 16 then Some (FAILURE, k)
      else if unat mb < length (mb_trigger S) \<and> unat mb < length (mb_status S) then
        (let trigger = mb_trigger S ! unat mb;
             k1 = (if load trigger k AND 0x8000 = 0 then store (senv S) trigger accelerator_type k else k)
         in case slave_pr_poll S (mb_status S ! unat mb) k1 of
              None \<Rightarrow> None
            | Some (r, k2) \<Rightarrow>
                if r = FAILURE then Some (FAILURE, k2)
                else Some (SUCCESS, hwti_set_last_accelerator (senv S) (vhwti_base S) accelerator_type k2))
      else None)"

text \<open>
  The entry of the tuning table for an accelerator and a size. A row has 64 entries
  (\<^verbatim>\<open>BRAM_SIZE/BRAM_GRANULARITY_SIZE\<close>), a slave has one row per accelerator; an index outside of
  them is an access outside of the array, \<open>None\<close>.
\<close>

definition MATRIXMUL :: Hint where "MATRIXMUL = 4"

definition SLAVE_NUM_ACCELERATORS :: Huint where "SLAVE_NUM_ACCELERATORS = 5"

definition BRAM_SIZE :: Huint where "BRAM_SIZE = 4096"

definition BRAM_GRANULARITY_SIZE :: Huint where "BRAM_GRANULARITY_SIZE = 64"

definition tuning_entry :: "Huint \<Rightarrow> Huint \<Rightarrow> Huint option" where
  "tuning_entry accelerator_type n =
     (let i = (if accelerator_type \<noteq> MATRIXMUL then n div BRAM_GRANULARITY_SIZE else n) in
      if accelerator_type < SLAVE_NUM_ACCELERATORS \<and> i < BRAM_SIZE div BRAM_GRANULARITY_SIZE then Some i else None)"

text \<open>
  \<^verbatim>\<open>useHW\<close>. Whether reconfiguring pays off is the comparison of the two floating-point times that
  the entry of the tuning table has for this slave.
\<close>

definition useHW :: "slave_env \<Rightarrow> Huint \<Rightarrow> Huint \<Rightarrow> kernel \<Rightarrow> (bool \<times> kernel) option" where
  "useHW S accelerator_type n k =
     (let E = senv S; b = vhwti_base S;
          current_accelerator = hwti_get_last_accelerator b k;
          pr = hwti_get_PR_flag b k
      in if pr \<noteq> 1 \<and> current_accelerator \<noteq> accelerator_type then Some (False, k)
         else
           let k1 = (if hwti_get_first_accelerator b k = SLAVE_NO_ACC
                     then hwti_set_first_accelerator E b accelerator_type k else k)
           in if current_accelerator = accelerator_type then Some (True, k1)
              else if PR_build S \<and> pr \<noteq> 0 then
                (case tuning_entry accelerator_type n of
                   None \<Rightarrow> None
                 | Some i \<Rightarrow>
                     if tuned_faster S (hwti_get_tuning_table_ptr b k1) (slave_num S) accelerator_type i k1 then
                       (case slave_perform_PR S (slave_num S) accelerator_type k1 of
                          None \<Rightarrow> None
                        | Some (r, k2) \<Rightarrow>
                            if r \<noteq> SUCCESS then Some (False, k2)
                            else Some (True, hwti_set_accelerator_pr_counter E b
                                               (hwti_get_accelerator_pr_counter b k2 + 1) k2))
                     else Some (False, k1))
              else Some (False, k1))"

definition poly_init :: "slave_env \<Rightarrow> Huint \<Rightarrow> Huint \<Rightarrow> kernel \<Rightarrow> (bool \<times> kernel) option" where
  "poly_init S acc n k =
     (case useHW S acc n k of
        None \<Rightarrow> None
      | Some (use, k1) \<Rightarrow>
          (let E = senv S; b = vhwti_base S in
           Some (use, if use
             then hwti_set_accelerator_hw_counter E b (hwti_get_accelerator_hw_counter b k1 + 1) k1
             else hwti_set_accelerator_sw_counter E b (hwti_get_accelerator_sw_counter b k1 + 1) k1)))"

end
