(* ===== verification/Slave_Laws.thy ===== *)
theory Slave_Laws
  imports Slave
begin

text \<open>
  What the software of a slave promises: host and slave agree on the layout of the interface,
  a turn of the nanokernel runs the thread that was handed over and frees the slave, and an
  accelerator is used exactly when it is loaded or can be loaded with profit.
\<close>

section \<open>Both views of the interface\<close>

lemma word_reg:
  assumes "take_bit 8 b = 0" "4 * n < (0x100 :: Huint)"
  shows "b + 4 * n = hwti_cmd b (4 * n)"
  using reg_plus [OF assms] by simp

lemma iface_regs:
  assumes "take_bit 8 b = 0"
  shows "tid_reg (initialize_interface b) = hwti_cmd b 0x00" "uti_reg (initialize_interface b) = hwti_cmd b 0x04"
    "sta_reg (initialize_interface b) = hwti_cmd b 0x08" "cmd_reg (initialize_interface b) = hwti_cmd b 0x0C"
    "arg_reg (initialize_interface b) = hwti_cmd b 0x10" "res_reg (initialize_interface b) = hwti_cmd b 0x14"
    "fcn_reg (initialize_interface b) = hwti_cmd b 0x18" "stack_ptr (initialize_interface b) = hwti_cmd b 0x20"
    "gctx_ptr (initialize_interface b) = hwti_cmd b 0x24" "arch_ctx_ptr (initialize_interface b) = hwti_cmd b 0x28"
    "bstrap_ptr (initialize_interface b) = hwti_cmd b 0x2C" "exec_time_reg (initialize_interface b) = hwti_cmd b 0x30"
    "exec_time_reg (initialize_interface b) + 4 = hwti_cmd b 0x34"
    "first_used_accelerator (initialize_interface b) = hwti_cmd b 0x38"
    "first_used_ptr (initialize_interface b) = hwti_cmd b 0x3C"
    "last_used_accelerator (initialize_interface b) = hwti_cmd b 0x40"
    "last_used_ptr (initialize_interface b) = hwti_cmd b 0x44"
    "tuning_table_ptr (initialize_interface b) = hwti_cmd b 0x48"
    "has_PR (initialize_interface b) = hwti_cmd b 0x4C" "acc_hw_counter (initialize_interface b) = hwti_cmd b 0x50"
    "acc_sw_counter (initialize_interface b) = hwti_cmd b 0x54" "acc_pr_counter (initialize_interface b) = hwti_cmd b 0x58"
  using assms by (simp_all add: initialize_interface_def Let_def reg_plus)

text \<open>
  The registers that the slave's nanokernel finds at its word offsets are those that the
  host's accessors read and write at their byte offsets: thread ID, utilized flag, command,
  argument, result, function, context table and all accelerator fields.
\<close>

theorem host_slave_layout_agree:
  assumes "hwti_base E b" and "i = initialize_interface b"
  shows "load (uti_reg i) k = hwti_get_utilized_flag b k \<and>
    load (res_reg i) k = hwti_results b k \<and>
    load (fcn_reg i) k = hwti_get_last_function b k \<and>
    load (last_used_accelerator i) k = hwti_get_last_accelerator b k \<and>
    load (last_used_ptr i) k = hwti_get_last_accelerator_ptr b k \<and>
    load (first_used_accelerator i) k = hwti_get_first_accelerator b k \<and>
    load (first_used_ptr i) k = hwti_get_first_accelerator_ptr b k \<and>
    load (tuning_table_ptr i) k = hwti_get_tuning_table_ptr b k \<and>
    load (has_PR i) k = hwti_get_PR_flag b k \<and>
    load (acc_hw_counter i) k = hwti_get_accelerator_hw_counter b k \<and>
    load (acc_sw_counter i) k = hwti_get_accelerator_sw_counter b k \<and>
    load (acc_pr_counter i) k = hwti_get_accelerator_pr_counter b k \<and>
    load (tid_reg i) (hwti_setid E b v k) = v \<and>
    load (arg_reg i) (hwti_setarg E b v k) = v \<and>
    load (fcn_reg i) (hwti_set_fcn_ptr E b v k) = v \<and>
    load (uti_reg i) (hwti_set_free E b k) = FLAG_HWTI_FREE \<and>
    load (gctx_ptr i) (hwti_set_global_context_ptr E b v k) = v \<and>
    load (cmd_reg i) (hwti_reset E b k) = RESET_COMMAND"
  using assms(1) iface_regs [of b] hwti_write_mem [OF assms(1)]
  by (simp add: assms(2) hwti_base_def hwti_get_defs load_def hwti_read_def hwti_setid_def hwti_setarg_def
      hwti_set_fcn_ptr_def hwti_set_free_def hwti_set_global_context_ptr_def hwti_reset_def RESET_COMMAND_def)

theorem host_slave_layout_agree_witness:
  "load (uti_reg (initialize_interface 0x51000000)) (hwti_set_free example_env 0x51000000 (example_kernel cores_reset)) = 0 \<and>
   load (fcn_reg (initialize_interface 0x51000000)) (hwti_set_fcn_ptr example_env 0x51000000 0x4000 (example_kernel cores_reset)) = 0x4000"
proof -
  have b: "hwti_base example_env 0x51000000" by (simp add: hwti_base_def mem_addr_def example_env_def window_def)
  show ?thesis
    using host_slave_layout_agree [OF b refl, of "example_kernel cores_reset" "0x4000"] by (simp add: FLAG_HWTI_FREE_def)
qed

section \<open>Changes inside one interface\<close>

definition only_block :: "Huint \<Rightarrow> kernel \<Rightarrow> kernel \<Rightarrow> bool" where
  "only_block b k k' \<longleftrightarrow> (\<exists>m. k' = k\<lparr>mach := (mach k)\<lparr>mem := m\<rparr>\<rparr> \<and> (\<forall>a. outside b a \<longrightarrow> m a = mem (mach k) a))"

lemma only_block_refl: "only_block b k k"
  by (auto simp: only_block_def intro!: exI [of _ "mem (mach k)"])

lemma only_block_trans: "only_block b k k' \<Longrightarrow> only_block b k' k'' \<Longrightarrow> only_block b k k''"
  by (auto simp: only_block_def)

lemma only_block_write: "hwti_base E b \<Longrightarrow> r < 0x100 \<Longrightarrow> only_block b k (hwti_write E b r v k)"
  using outside_reg by (fastforce simp: only_block_def hwti_write_mem)

lemma only_block_frame:
  assumes "only_block b k k'"
  shows "kcores k' = kcores k" "threads k' = threads k" "syncm (mach k') = syncm (mach k)" "saved k' = saved k"
    "cpu k' = cpu k" "attr_heap k' = attr_heap k" "outside b a \<Longrightarrow> mem (mach k') a = mem (mach k) a"
  using assms by (auto simp: only_block_def kcores_def)

lemma store_is_write: "store E (hwti_cmd b r) v k = hwti_write E b r v k"
  by (simp add: hwti_write_def)

lemma load_is_read: "load (hwti_cmd b r) k = hwti_read b r k"
  by (simp add: load_def hwti_read_def)

text \<open>The slave's accesses as reads and writes of its register file.\<close>

lemma store64_regs:
  assumes "take_bit 8 b = 0"
  shows "store64 E (hwti_cmd b 0x30) v k = hwti_write E b 0x34 (ucast (drop_bit 32 v)) (hwti_write E b 0x30 (ucast v) k)"
    "load64 (hwti_cmd b 0x30) k = ucast (hwti_read b 0x30 k) OR push_bit 32 (ucast (hwti_read b 0x34 k))"
proof -
  have "hwti_cmd b 0x30 = b + 0x30" "hwti_cmd b 0x34 = b + 0x34" by (simp_all add: reg_plus [OF assms])
  then have "hwti_cmd b 0x30 + 4 = hwti_cmd b 0x34" by (simp add: add.commute)
  then show "store64 E (hwti_cmd b 0x30) v k = hwti_write E b 0x34 (ucast (drop_bit 32 v)) (hwti_write E b 0x30 (ucast v) k)"
    "load64 (hwti_cmd b 0x30) k = ucast (hwti_read b 0x30 k) OR push_bit 32 (ucast (hwti_read b 0x34 k))"
    by (simp_all add: store64_def load64_def hwti_write_def load_def hwti_read_def)
qed

lemma poll_now: "load reg k = cmd \<Longrightarrow> poll_command S reg cmd k = Some k"
  by (simp add: poll_command.simps)

text \<open>The go command is consumed: the record of the first accelerator and the time start afresh.\<close>

lemma wait_for_go_now:
  assumes b: "hwti_base (senv S) b" and go: "hwti_read b 0x0C k = GO_COMMAND"
  shows "\<exists>k'. wait_for_go_command S (initialize_interface b) k = Some k' \<and> only_block b k k' \<and>
    hwti_read b 0x0C k' = 0 \<and> hwti_read b 0x38 k' = SLAVE_NO_ACC \<and>
    (\<forall>r < 0x100. r \<notin> {0x0C, 0x30, 0x34, 0x38} \<longrightarrow> hwti_read b r k' = hwti_read b r k)"
proof -
  let ?E = "senv S"
  have al: "take_bit 8 b = 0" using b by (simp add: hwti_base_def)
  define k1 where "k1 = hwti_write ?E b 0x38 SLAVE_NO_ACC k"
  define k2 where "k2 = store64 ?E (hwti_cmd b 0x30) 0 k1"
  define k3 where "k3 = store64 ?E (hwti_cmd b 0x30) (slave_time S k2) k2"
  define k4 where "k4 = hwti_write ?E b 0x0C 0 k3"
  have eq: "wait_for_go_command S (initialize_interface b) k = Some k4"
    using go poll_now [of "hwti_cmd b 0x0C" k GO_COMMAND S]
    by (simp add: wait_for_go_command_def iface_regs [OF al] load_is_read store_is_write k1_def k2_def k3_def k4_def Let_def)
  have "only_block b k k4"
    unfolding k4_def k3_def k2_def k1_def store64_regs [OF al]
    by (intro only_block_trans [OF _ only_block_write [OF b]] only_block_refl) simp_all
  with eq show ?thesis
    by (intro exI [of _ k4]) (simp add: k4_def k3_def k2_def k1_def store64_regs [OF al] hwti_read_write [OF b b])
qed

section \<open>The exit command of a slave\<close>

lemma read_reg_procid: "read_reg (P\<lparr>procid := x\<rparr>) = read_reg P"
  by (simp add: fun_eq_iff read_reg_def tm_read_def sch_read_def Let_def)

lemma slave_exit_cmd:
  assumes "platform_ok P"
  shows "read_reg P (slave_encode_cmd P (ucast (t :: tid)) 0x07) m = with_cores (tm_exit t (cores m)) m"
proof -
  let ?P = "P\<lparr>procid := 0\<rparr>"
  have "platform_ok ?P" using assms by (simp add: platform_ok_def)
  moreover have "slave_encode_cmd P (ucast t) 0x07 = encode_cmd ?P (ucast t) 0x07"
    by (simp add: slave_encode_cmd_def encode_cmd_def)
  ultimately show ?thesis
    using thread_ops [of ?P "ucast t" m] by (simp add: exit_thread_def read_reg_procid)
qed

section \<open>One turn of the nanokernel\<close>

text \<open>
  A thread function that computes \<open>ret\<close> from its argument: it may change any memory except the
  interface of its slave, and it does not call the kernel.
\<close>

definition computes :: "slave_env \<Rightarrow> Huint \<Rightarrow> Huint \<Rightarrow> Huint \<Rightarrow> bool" where
  "computes S func arg ret \<longleftrightarrow>
     (\<forall>k. \<exists>m. thread_code S func arg k = Some (ret, k\<lparr>mach := (mach k)\<lparr>mem := m\<rparr>\<rparr>) \<and>
        (\<forall>r < 0x100. m (hwti_cmd (vhwti_base S) r) = hwti_read (vhwti_base S) r k))"

lemma exit_record_ok:
  assumes b: "hwti_base (senv S) b"
    and r: "hwti_read b 0x00 k = ucast (t :: tid)" "hwti_read b 0x24 k = threads_base (senv S)"
  shows "\<exists>k' x. exit_record S (initialize_interface b) ret k = Some k' \<and> kcores k' = kcores k \<and>
    threads k' = (threads k)(ucast t := (threads k (ucast t))\<lparr>execution_time := x,
      retval := if ret \<noteq> 0 then ret else retval (threads k (ucast t))\<rparr>) \<and>
    hwti_read b 0x14 k' = (if ret \<noteq> 0 then ret else hwti_read b 0x14 k) \<and>
    (\<forall>q < 0x100. q \<notin> {0x14, 0x30, 0x34} \<longrightarrow> hwti_read b q k' = hwti_read b q k)"
proof -
  let ?E = "senv S" and ?th = "ucast t :: Huint"
  have al: "take_bit 8 b = 0" using b by (simp add: hwti_base_def)
  define x where "x = slave_time S k - load64 (hwti_cmd b 0x30) k"
  define k1 where "k1 = store64 ?E (hwti_cmd b 0x30) x k"
  define k2 where "k2 = upd_thread ?th (\<lambda>y. y\<lparr>execution_time := x\<rparr>) k1"
  have k1: "kcores k1 = kcores k" "threads k1 = threads k"
    "q < 0x100 \<Longrightarrow> q \<notin> {0x30, 0x34} \<Longrightarrow> hwti_read b q k1 = hwti_read b q k" for q
    using b by (simp_all add: k1_def store64_regs [OF al] hwti_read_write [OF b b])
  have t: "\<not> ?th \<ge> MAX_THREADS" using tid_in_range [of t] by (simp add: not_le)
  have "hwti_read b 0x00 k1 = ?th" using k1(3) r(1) by simp
  then have eq: "exit_record S (initialize_interface b) ret k = Some (if ret \<noteq> 0
      then upd_thread ?th (\<lambda>y. y\<lparr>retval := ret\<rparr>) (hwti_write ?E b 0x14 ret k2) else k2)"
    using r(2) t by (simp add: exit_record_def iface_regs [OF al] load_is_read store_is_write Let_def
        x_def [symmetric] k1_def [symmetric] k2_def [symmetric])
  have k2: "kcores k2 = kcores k" "hwti_read b q k2 = hwti_read b q k1" for q
    using k1 by (simp_all add: k2_def upd_thread_def kcores_def hwti_read_def)
  have w: "hwti_read b q (upd_thread u f k0) = hwti_read b q k0" "kcores (upd_thread u f k0) = kcores k0" for q u f k0
    by (simp_all add: upd_thread_def hwti_read_def kcores_def)
  show ?thesis
    using eq b k2 k1
    by (cases "ret = 0") (auto simp: w hwti_read_write [OF b b] intro!: exI [of _ x],
        simp_all add: k2_def upd_thread_def k1 fun_eq_iff)
qed

lemma exit_accelerators_ok:
  assumes b: "hwti_base (senv S) b" and r: "hwti_read b 0x38 (world s) = SLAVE_NO_ACC"
    and q: "q = hwti_read b 0x44 (world s)" "q = 0 \<or> mem_addr (plat (senv S)) q \<and> outside b q"
  shows "\<exists>m. exit_accelerators S (initialize_interface b) s =
      \<lparr>world = (world s)\<lparr>mach := (mach (world s))\<lparr>mem := m\<rparr>\<rparr>,
       prev_last_used_accelerator = hwti_get_last_accelerator b (world s)\<rparr> \<and>
    (\<forall>r < 0x100. m (hwti_cmd b r) = hwti_read b r (world s))"
proof -
  let ?k = "world s" and ?a = "hwti_read b 0x40 (world s)"
  have al: "take_bit 8 b = 0" using b by (simp add: hwti_base_def)
  have kept: "hwti_read b r (store (senv S) q v ?k) = hwti_read b r ?k"
    "\<exists>m. store (senv S) q v ?k = ?k\<lparr>mach := (mach ?k)\<lparr>mem := m\<rparr>\<rparr> \<and> (\<forall>r < 0x100. m (hwti_cmd b r) = hwti_read b r ?k)"
    if "q \<noteq> 0" "r < 0x100" for r v
    using that q(2) outside_reg [of b q] by (auto simp: store_mem hwti_read_def intro!: exI [of _ "(mem (mach ?k))(q := v)"])
  have same: "\<exists>m. ?k = ?k\<lparr>mach := (mach ?k)\<lparr>mem := m\<rparr>\<rparr> \<and> (\<forall>r < 0x100. m (hwti_cmd b r) = hwti_read b r ?k)"
    by (intro exI [of _ "mem (mach ?k)"]) (simp add: hwti_read_def)
  show ?thesis
  proof (cases "?a = prev_last_used_accelerator s \<or> q = 0")
    case True
    then have "exit_accelerators S (initialize_interface b) s = \<lparr>world = ?k, prev_last_used_accelerator = ?a\<rparr>"
      using r q(1) by (auto simp: exit_accelerators_def iface_regs [OF al] load_is_read Let_def)
    with same show ?thesis by (auto simp: hwti_get_last_accelerator_def)
  next
    case False
    then have "exit_accelerators S (initialize_interface b) s =
        \<lparr>world = store (senv S) q ?a ?k, prev_last_used_accelerator = ?a\<rparr>"
      using r kept(1) by (simp add: exit_accelerators_def iface_regs [OF al] load_is_read Let_def q(1) [symmetric])
    with kept(2) [of 0 ?a] False show ?thesis by (auto simp: hwti_get_last_accelerator_def)
  qed
qed

text \<open>The part of the machine that an exit without a waiting parent changes.\<close>

definition exited_entry :: "tid \<Rightarrow> cores \<Rightarrow> cores" where
  "exited_entry t c = c\<lparr>tm := (tm c)\<lparr>entries := (entries (tm c))
     (t := (entries (tm c) t)\<lparr>e_used := True, e_alive := False\<rparr>)\<rparr>\<rparr>"

lemma exit_no_waiter:
  "e_detached (entries (tm c) t) \<or> \<not> e_joined (entries (tm c) t) \<Longrightarrow>
   tm_exit t c = (0, no_event, exited_entry t c)"
  by (auto simp: tm_exit_def Let_def exited_entry_def)

lemma hw_exit_ok:
  assumes P: "platform_ok (plat (senv S))" and b: "hwti_base (senv S) b"
    and r: "hwti_read b 0x00 (world s) = ucast (t :: tid)" "hwti_read b 0x24 (world s) = threads_base (senv S)"
      "hwti_read b 0x38 (world s) = SLAVE_NO_ACC"
    and q: "q = hwti_read b 0x44 (world s)" "q = 0 \<or> mem_addr (plat (senv S)) q \<and> outside b q"
    and e: "e_detached (entries (tm (kcores (world s))) t) \<or> \<not> e_joined (entries (tm (kcores (world s))) t)"
  shows "\<exists>s'. proc_hw_thread_exit S (initialize_interface b) ret s = Some (0, s') \<and>
    kcores (world s') = exited_entry t (kcores (world s)) \<and>
    retval (threads (world s') (ucast t)) = (if ret \<noteq> 0 then ret else retval (threads (world s) (ucast t))) \<and>
    hwti_read b 0x04 (world s') = FLAG_HWTI_FREE \<and>
    hwti_read b 0x14 (world s') = (if ret \<noteq> 0 then ret else hwti_read b 0x14 (world s)) \<and>
    (\<forall>i < 0x100. i \<notin> {0x04, 0x14, 0x30, 0x34} \<longrightarrow> hwti_read b i (world s') = hwti_read b i (world s)) \<and>
    prev_last_used_accelerator s' = hwti_get_last_accelerator b (world s)"
proof -
  let ?E = "senv S" and ?i = "initialize_interface b" and ?th = "ucast t :: Huint"
  have al: "take_bit 8 b = 0" using b by (simp add: hwti_base_def)
  obtain k1 x where k1: "exit_record S ?i ret (world s) = Some k1" "kcores k1 = kcores (world s)"
      "threads k1 = (threads (world s))(?th := (threads (world s) ?th)\<lparr>execution_time := x,
        retval := if ret \<noteq> 0 then ret else retval (threads (world s) ?th)\<rparr>)"
      "hwti_read b 0x14 k1 = (if ret \<noteq> 0 then ret else hwti_read b 0x14 (world s))"
      "\<forall>i < 0x100. i \<notin> {0x14, 0x30, 0x34} \<longrightarrow> hwti_read b i k1 = hwti_read b i (world s)"
    using exit_record_ok [OF b r(1,2), of ret] by blast
  define s1 where "s1 = s\<lparr>world := k1\<rparr>"
  have "hwti_read b 0x38 (world s1) = SLAVE_NO_ACC" "q = hwti_read b 0x44 (world s1)"
    using k1(5) r(3) q(1) by (simp_all add: s1_def)
  from exit_accelerators_ok [OF b this q(2)] obtain m where
    m: "exit_accelerators S ?i s1 = \<lparr>world = k1\<lparr>mach := (mach k1)\<lparr>mem := m\<rparr>\<rparr>,
         prev_last_used_accelerator = hwti_get_last_accelerator b k1\<rparr>"
      "\<forall>i < 0x100. m (hwti_cmd b i) = hwti_read b i k1" by (auto simp: s1_def)
  define k2 where "k2 = k1\<lparr>mach := (mach k1)\<lparr>mem := m\<rparr>\<rparr>"
  have k2: "kcores k2 = kcores (world s)" "threads k2 = threads k1" "i < 0x100 \<Longrightarrow> hwti_read b i k2 = hwti_read b i k1" for i
    using k1(2) m(2) by (simp_all add: k2_def kcores_def hwti_read_def)
  define k3 where "k3 = k2\<lparr>mach := (mach k2)\<lparr>cores := exited_entry t (kcores k2)\<rparr>\<rparr>"
  have "on_mach (read_reg (plat ?E) (slave_encode_cmd (plat ?E) ?th 0x07)) k2 = (0, k3)"
    using e k2(1) by (simp add: on_mach_def slave_exit_cmd [OF P] exit_no_waiter with_cores_def apply_events_def
        k3_def kcores_def no_event_def)
  moreover have "load (tid_reg ?i) k2 = ?th"
    using k2(3) k1(5) r(1) by (simp add: iface_regs [OF al] load_is_read)
  ultimately have ex: "proc_hw_thread_exit S ?i ret s = Some (0, \<lparr>world = hwti_write ?E b 0x04 0 k3,
      prev_last_used_accelerator = hwti_get_last_accelerator b k1\<rparr>)"
    using k1(1) m(1) by (simp add: proc_hw_thread_exit_def s1_def [symmetric] k2_def [symmetric] iface_regs [OF al]
        store_is_write Let_def)
  have rd: "hwti_read b i k3 = hwti_read b i k2" for i by (simp add: k3_def hwti_read_def)
  show ?thesis
    unfolding ex using b k1(3-5) k2 rd
    by (auto simp: hwti_read_write [OF b b] FLAG_HWTI_FREE_def hwti_get_last_accelerator_def k3_def kcores_def)
qed

lemma slave_turn_result:
  assumes P: "platform_ok (plat (senv S))" and b: "hwti_base (senv S) (vhwti_base S)"
    and h: "handed_over (senv S) (vhwti_base S) t func arg (world s)"
    and f: "computes S func arg ret"
    and q: "q = hwti_read (vhwti_base S) 0x44 (world s)"
      "q = 0 \<or> mem_addr (plat (senv S)) q \<and> outside (vhwti_base S) q"
    and e: "e_detached (entries (tm (kcores (world s))) t) \<or> \<not> e_joined (entries (tm (kcores (world s))) t)"
  shows "\<exists>s'. slave_turn S s = Some s' \<and> kcores (world s') = exited_entry t (kcores (world s)) \<and>
    retval (threads (world s') (ucast t)) = ret \<and>
    hwti_get_utilized_flag (vhwti_base S) (world s') = FLAG_HWTI_FREE \<and>
    hwti_read (vhwti_base S) 0x0C (world s') = 0 \<and>
    hwti_results (vhwti_base S) (world s') = (if ret \<noteq> 0 then ret else hwti_results (vhwti_base S) (world s))"
proof -
  let ?E = "senv S" and ?b = "vhwti_base S" and ?i = "initialize_interface (vhwti_base S)"
  have al: "take_bit 8 ?b = 0" using b by (simp add: hwti_base_def)
  define k1 where "k1 = hwti_write ?E ?b 0x38 SLAVE_NO_ACC (world s)"
  have k1: "only_block ?b (world s) k1" "hwti_read ?b 0x0C k1 = GO_COMMAND"
    "r < 0x100 \<Longrightarrow> r \<noteq> 0x38 \<Longrightarrow> hwti_read ?b r k1 = hwti_read ?b r (world s)" for r
    using h b by (simp_all add: k1_def only_block_write hwti_read_write [OF b b] handed_over_def HT_HWTI_GO_def GO_COMMAND_def)
  from wait_for_go_now [OF b k1(2)] obtain k2 where
    k2: "wait_for_go_command S ?i k1 = Some k2" "only_block ?b k1 k2" "hwti_read ?b 0x0C k2 = 0"
      "hwti_read ?b 0x38 k2 = SLAVE_NO_ACC"
      "\<forall>r < 0x100. r \<notin> {0x0C, 0x30, 0x34, 0x38} \<longrightarrow> hwti_read ?b r k2 = hwti_read ?b r k1" by blast
  have ob: "only_block ?b (world s) k2" using only_block_trans [OF k1(1) k2(2)] .
  from f obtain m where m: "thread_code S func arg k2 = Some (ret, k2\<lparr>mach := (mach k2)\<lparr>mem := m\<rparr>\<rparr>)"
      "\<forall>r < 0x100. m (hwti_cmd ?b r) = hwti_read ?b r k2" by (auto simp: computes_def)
  define k3 where "k3 = k2\<lparr>mach := (mach k2)\<lparr>mem := m\<rparr>\<rparr>"
  define s3 where "s3 = s\<lparr>world := k3\<rparr>"
  have k3: "kcores k3 = kcores (world s)" "threads k3 = threads (world s)"
    "r < 0x100 \<Longrightarrow> hwti_read ?b r k3 = hwti_read ?b r k2" for r
    using only_block_frame [OF ob] m(2) by (simp_all add: k3_def kcores_def hwti_read_def)
  have r: "hwti_read ?b 0x00 (world s3) = ucast t" "hwti_read ?b 0x24 (world s3) = threads_base ?E"
      "hwti_read ?b 0x38 (world s3) = SLAVE_NO_ACC" "q = hwti_read ?b 0x44 (world s3)"
      "hwti_read ?b 0x14 (world s3) = hwti_read ?b 0x14 (world s)" "hwti_read ?b 0x0C (world s3) = 0"
    using k3(3) k2(3-5) k1(3) h q(1) by (simp_all add: s3_def handed_over_def)
  have e3: "e_detached (entries (tm (kcores (world s3))) t) \<or> \<not> e_joined (entries (tm (kcores (world s3))) t)"
    using e k3(1) by (simp add: s3_def)
  from hw_exit_ok [OF P b r(1-4) q(2) e3, of ret] obtain s' where s': "proc_hw_thread_exit S ?i ret s3 = Some (0, s')"
    "kcores (world s') = exited_entry t (kcores (world s))" "hwti_read ?b 0x04 (world s') = FLAG_HWTI_FREE"
    "retval (threads (world s') (ucast t)) = (if ret \<noteq> 0 then ret else retval (threads (world s) (ucast t)))"
    "hwti_read ?b 0x14 (world s') = (if ret \<noteq> 0 then ret else hwti_read ?b 0x14 (world s))"
    "hwti_read ?b 0x0C (world s') = 0"
    using k3(1,2) r(5,6) by (auto simp: s3_def)
  have "hwti_read ?b 0x18 k2 = func" "hwti_read ?b 0x10 k2 = arg"
    using k2(5) k1(3) h by (simp_all add: handed_over_def)
  then have "slave_turn S s = Some s'"
    using k2(1) m(1) s'(1) by (simp add: slave_turn_def iface_of_def iface_regs [OF al] store_is_write load_is_read
        k1_def [symmetric] slave_bootstrap_thread_def k3_def [symmetric] s3_def [symmetric] Let_def)
  then show ?thesis
    using s'(2-6) h by (auto simp: handed_over_def hwti_get_utilized_flag_def hwti_results_def)
qed

text \<open>
  C13: One turn of a slave's nanokernel, started with a thread handed over in its interface,
  takes the go command, runs the function there with the argument there, and ends with the
  thread exited in the thread manager, its result in the thread's control block, and the
  slave free again. The result register is written only when the result is not null.
\<close>

theorem slave_turn_runs_thread:
  assumes P: "platform_ok (plat (senv S))" and b: "hwti_base (senv S) (vhwti_base S)"
    and h: "handed_over (senv S) (vhwti_base S) t func arg (world s)"
    and f: "computes S func arg ret"
    and q: "q = hwti_read (vhwti_base S) 0x44 (world s)"
      "q = 0 \<or> mem_addr (plat (senv S)) q \<and> outside (vhwti_base S) q"
    and e: "e_detached (entries (tm (kcores (world s))) t) \<or> \<not> e_joined (entries (tm (kcores (world s))) t)"
  shows "\<exists>s'. slave_turn S s = Some s' \<and> kcores (world s') = exited_entry t (kcores (world s)) \<and>
    retval (threads (world s') (ucast t)) = ret \<and>
    hwti_get_utilized_flag (vhwti_base S) (world s') = FLAG_HWTI_FREE \<and>
    hwti_read (vhwti_base S) 0x0C (world s') = 0 \<and>
    hwti_results (vhwti_base S) (world s') = (if ret \<noteq> 0 then ret else hwti_results (vhwti_base S) (world s))"
  using slave_turn_result [OF assms] .

definition example_slave_env :: "Huint \<Rightarrow> slave_env" where
  "example_slave_env b = \<lparr>senv = example_env, vhwti_base = b, slave_num = 0, around = id, slave_time = (\<lambda>_. 0),
     thread_code = (\<lambda>func arg k. Some (func + arg, k)), PR_build = True, mb_trigger = [0x55000000],
     mb_status = [0x55000004], tuned_faster = (\<lambda>_ _ _ _ _. True)\<rparr>"

lemma example_computes: "computes (example_slave_env b) func arg (func + arg)"
  unfolding computes_def
proof
  fix k :: kernel
  show "\<exists>m. thread_code (example_slave_env b) func arg k = Some (func + arg, k\<lparr>mach := (mach k)\<lparr>mem := m\<rparr>\<rparr>) \<and>
      (\<forall>r<0x100. m (hwti_cmd (vhwti_base (example_slave_env b)) r) = hwti_read (vhwti_base (example_slave_env b)) r k)"
    by (intro exI [of _ "mem (mach k)"]) (simp add: example_slave_env_def hwti_read_def)
qed

lemma example_base: "hwti_base example_env 0x51000000"
  by (simp add: hwti_base_def mem_addr_def example_env_def window_def)

theorem slave_turn_runs_thread_witness:
  "\<exists>s s'. slave_turn (example_slave_env 0x51000000) s = Some s' \<and>
     retval (threads (world s') 1) = 0x4007 \<and> hwti_get_utilized_flag 0x51000000 (world s') = FLAG_HWTI_FREE"
proof -
  let ?b = "0x51000000 :: Huint" and ?S = "example_slave_env 0x51000000"
  obtain c :: cores where c: "running (entries (tm c) 1)" "\<not> e_joined (entries (tm c) 1)" "sch c = sched_reset"
    using blocked_child by blast
  define k0 where "k0 = example_kernel (c\<lparr>sch := sched_reset\<lparr>param_ram := (param_ram sched_reset)(1 := hwti_cmd ?b 0x0C)\<rparr>\<rparr>)"
  define k where "k = hwti_write example_env ?b 0x0C 1 (setup_hwti example_env ?b (ucast (1 :: tid)) 0x4000 7 k0)"
  have k: "hwti_read ?b r k = (if r = 0x0C then 1 else hwti_read ?b r (setup_hwti example_env ?b 1 0x4000 7 k0))"
    if "r < 0x100" for r
    using that by (simp add: k_def hwti_read_write [OF example_base example_base])
  have kc: "kcores k = c\<lparr>sch := sched_reset\<lparr>param_ram := (param_ram sched_reset)(1 := hwti_cmd ?b 0x0C)\<rparr>\<rparr>"
      "threads k = threads k0" using example_base by (simp_all add: k_def k0_def)
  have h: "handed_over (senv ?S) (vhwti_base ?S) 1 0x4000 7 (world \<lparr>world = k, prev_last_used_accelerator = 0\<rparr>)"
    using k setup_hwti_reads [OF example_base, of _ _ 1 "0x4000" 7 k0] c kc
    by (simp add: handed_over_def example_slave_env_def setup_words_def FLAG_HWTI_UTILIZED_def HT_HWTI_GO_def)
      (simp add: k0_def example_kernel_def)
  have q: "0 = hwti_read (vhwti_base ?S) 0x44 (world \<lparr>world = k, prev_last_used_accelerator = 0\<rparr>)"
    using k [of "0x44"] setup_hwti_other [OF example_base example_base, of "0x44" 1 "0x4000" 7 k0]
    by (simp add: example_slave_env_def setup_words_def) (simp add: k0_def example_kernel_def hwti_read_def)
  have e: "\<not> e_joined (entries (tm (kcores (world \<lparr>world = k, prev_last_used_accelerator = 0\<rparr>))) 1)"
    using c(2) kc by simp
  have P: "platform_ok (plat (senv ?S))" "hwti_base (senv ?S) (vhwti_base ?S)"
    using example_platform example_base by (simp_all add: example_slave_env_def)
  from slave_turn_runs_thread [OF P h example_computes q] e obtain s' where
    "slave_turn ?S \<lparr>world = k, prev_last_used_accelerator = 0\<rparr> = Some s'"
    "retval (threads (world s') (ucast (1 :: tid))) = 0x4000 + 7"
    "hwti_get_utilized_flag (vhwti_base ?S) (world s') = FLAG_HWTI_FREE" by blast
  then show ?thesis by (auto simp: example_slave_env_def)
qed

section \<open>Accelerators\<close>

text \<open>
  The status word of the reconfiguration controller: done without an error, or still busy
  without an error.
\<close>

definition status_done :: "Huint \<Rightarrow> kernel \<Rightarrow> bool" where
  "status_done status k \<longleftrightarrow> load status k AND 0x78 = 0 \<and> load status k AND 0x07 = 7"

definition status_busy :: "Huint \<Rightarrow> kernel \<Rightarrow> bool" where
  "status_busy status k \<longleftrightarrow> load status k AND 0x78 = 0 \<and> load status k AND 0x07 \<noteq> 7"

lemmas pr_poll_induct = slave_pr_poll.raw_induct [rotated, consumes 1, case_names poll]

lemma pr_poll_success:
  assumes "slave_pr_poll S status k = Some r" "fst r \<noteq> FAILURE"
  shows "\<exists>j. snd r = (around S ^^ j) k \<and> status_done status (snd r) \<and> (\<forall>i<j. status_busy status ((around S ^^ i) k))"
  using assms
proof (induction rule: pr_poll_induct)
  case (poll poll S status k r)
  show ?case
  proof (cases "status_busy status k")
    case True
    then have "poll S status (around S k) = Some r"
      using poll.hyps by (auto simp: status_busy_def Let_def split: if_splits)
    then obtain j where j: "snd r = (around S ^^ j) (around S k)" "status_done status (snd r)"
        "\<forall>i<j. status_busy status ((around S ^^ i) (around S k))" using poll.IH poll.prems by blast
    have "status_busy status ((around S ^^ i) k)" if "i < Suc j" for i
      using that True j(3) by (cases i) (simp_all add: funpow_swap1)
    then show ?thesis using j(1,2) by (intro exI [of _ "Suc j"]) (simp add: funpow_swap1)
  next
    case False
    then have "snd r = k" "status_done status k"
      using poll.hyps poll.prems by (auto simp: status_busy_def status_done_def Let_def split: if_splits)
    then show ?thesis by (intro exI [of _ 0]) simp
  qed
qed

lemma perform_PR_success:
  assumes b: "hwti_base (senv S) (vhwti_base S)" and p: "slave_perform_PR S mb acc k = Some (SUCCESS, k')"
  shows "mb < 16 \<and> hwti_get_last_accelerator (vhwti_base S) k' = acc \<and>
    (let k1 = (if load (mb_trigger S ! unat mb) k AND 0x8000 = 0 then store (senv S) (mb_trigger S ! unat mb) acc k else k)
     in \<exists>j. status_done (mb_status S ! unat mb) ((around S ^^ j) k1) \<and>
          (\<forall>i<j. status_busy (mb_status S ! unat mb) ((around S ^^ i) k1)))"
proof -
  define k1 where "k1 = (if load (mb_trigger S ! unat mb) k AND 0x8000 = 0 then store (senv S) (mb_trigger S ! unat mb) acc k else k)"
  obtain r k2 where mb: "mb < 16" and q: "slave_pr_poll S (mb_status S ! unat mb) k1 = Some (r, k2)" "r \<noteq> FAILURE"
      "k' = hwti_set_last_accelerator (senv S) (vhwti_base S) acc k2"
    using p by (auto simp: slave_perform_PR_def Let_def k1_def [symmetric] not_le status_values split: if_splits option.splits)
  from pr_poll_success [OF q(1)] q(2) obtain j where "status_done (mb_status S ! unat mb) ((around S ^^ j) k1)"
      "\<forall>i<j. status_busy (mb_status S ! unat mb) ((around S ^^ i) k1)" by auto
  moreover have "hwti_get_last_accelerator (vhwti_base S) k' = acc"
    using b by (simp add: q(3) hwti_get_defs hwti_set_defs hwti_read_write)
  ultimately show ?thesis using mb unfolding k1_def [symmetric] Let_def by blast
qed

text \<open>
  The rows of the tuning table have an entry for every list of fewer than 4096 words, but none for
  4096 words, and only the products of fewer than 64 words have one.
\<close>

lemma tuning_row_ends:
  "accelerator_type < SLAVE_NUM_ACCELERATORS \<Longrightarrow> accelerator_type \<noteq> MATRIXMUL \<Longrightarrow>
     tuning_entry accelerator_type n = (if n div 64 < 64 then Some (n div 64) else None)"
  "tuning_entry accelerator_type 4096 = None"
  "tuning_entry MATRIXMUL n = (if n < 64 then Some n else None)"
  by (simp_all add: tuning_entry_def MATRIXMUL_def SLAVE_NUM_ACCELERATORS_def BRAM_SIZE_def BRAM_GRANULARITY_SIZE_def)

text \<open>
  C24: A polymorphic function runs on an accelerator only when the slave's interface names that
  accelerator as the loaded one after the choice, and then one of two things has happened. Either the
  interface named it before. Or the slave can be reconfigured, the tuning table has an entry for the
  size that says that it pays off, and reconfiguration has been reported as done: the accelerator was written to
  the trigger register, unless a request was pending there, and then the status register was polled until it
  said done, with no error bit set in this or any earlier poll.
\<close>

theorem useHW_only_loaded:
  assumes b: "hwti_base (senv S) (vhwti_base S)" and u: "useHW S acc n k = Some (True, k')"
    and k1: "k1 = (if hwti_get_first_accelerator (vhwti_base S) k = SLAVE_NO_ACC
      then hwti_set_first_accelerator (senv S) (vhwti_base S) acc k else k)"
    and regs: "trigger = mb_trigger S ! unat (slave_num S)" "status = mb_status S ! unat (slave_num S)"
    and k2: "k2 = (if load trigger k1 AND 0x8000 = 0 then store (senv S) trigger acc k1 else k1)"
  shows "hwti_get_last_accelerator (vhwti_base S) k' = acc \<and>
    (hwti_get_last_accelerator (vhwti_base S) k = acc \<or>
     hwti_get_PR_flag (vhwti_base S) k = 1 \<and> PR_build S \<and> slave_num S < 16 \<and>
     (\<exists>i. tuning_entry acc n = Some i \<and>
        tuned_faster S (hwti_get_tuning_table_ptr (vhwti_base S) k1) (slave_num S) acc i k1) \<and>
     (\<exists>j. status_done status ((around S ^^ j) k2) \<and> (\<forall>i<j. status_busy status ((around S ^^ i) k2))))"
proof -
  let ?b = "vhwti_base S" and ?E = "senv S"
  have same: "hwti_get_last_accelerator ?b k1 = hwti_get_last_accelerator ?b k"
    using b by (simp add: k1 hwti_get_defs hwti_set_defs hwti_read_write)
  consider (loaded) "hwti_get_last_accelerator ?b k = acc" "k' = k1"
    | (reconfigured) i k3 where "hwti_get_PR_flag ?b k = 1" "PR_build S" "tuning_entry acc n = Some i"
        "tuned_faster S (hwti_get_tuning_table_ptr ?b k1) (slave_num S) acc i k1"
        "slave_perform_PR S (slave_num S) acc k1 = Some (SUCCESS, k3)"
        "k' = hwti_set_accelerator_pr_counter ?E ?b (hwti_get_accelerator_pr_counter ?b k3 + 1) k3"
    using u by (auto simp: useHW_def Let_def k1 [symmetric] split: if_splits option.splits prod.splits)
  then show ?thesis
  proof cases
    case loaded
    then show ?thesis using same by simp
  next
    case reconfigured
    note p = perform_PR_success [OF b reconfigured(5), unfolded Let_def, folded regs, folded k2]
    moreover have "hwti_get_last_accelerator ?b k' = hwti_get_last_accelerator ?b k3"
      using b reconfigured(6) by (simp add: hwti_get_defs hwti_set_defs hwti_read_write)
    ultimately show ?thesis using reconfigured(1-4) by blast
  qed
qed

theorem useHW_only_loaded_witness:
  "\<exists>k k1 k'. hwti_get_last_accelerator 0x51000000 k = 0 \<and> useHW (example_slave_env 0x51000000) 3 64 k = Some (True, k') \<and>
     hwti_get_last_accelerator 0x51000000 k' = 3 \<and> status_done 0x55000004 k1"
proof -
  let ?b = "0x51000000 :: Huint" and ?S = "example_slave_env 0x51000000"
  define k where "k = (example_kernel cores_reset)\<lparr>mach := (mach (example_kernel cores_reset))
    \<lparr>mem := (\<lambda>_. 0)(0x55000004 := 7, 0x5100004C := 1)\<rparr>\<rparr>"
  have m: "mem_addr (plat example_env) 0x55000000" by (simp add: mem_addr_def example_env_def window_def)
  have l: "hwti_get_last_accelerator ?b k = 0" "hwti_get_PR_flag ?b k = 1" "hwti_get_first_accelerator ?b k \<noteq> SLAVE_NO_ACC"
    by (simp_all add: hwti_get_defs hwti_read_def hwti_cmd_def k_def SLAVE_NO_ACC_def)
  have t: "tuning_entry 3 64 = Some 1"
    by (simp add: tuning_entry_def MATRIXMUL_def SLAVE_NUM_ACCELERATORS_def BRAM_SIZE_def BRAM_GRANULARITY_SIZE_def)
  have "slave_pr_poll ?S 0x55000004 (store example_env 0x55000000 3 k) = Some (SUCCESS, store example_env 0x55000000 3 k)"
    by (simp add: slave_pr_poll.simps load_def store_mem [OF m] k_def)
  then have "slave_perform_PR ?S 0 3 k = Some (SUCCESS, hwti_set_last_accelerator example_env ?b 3 (store example_env 0x55000000 3 k))"
    by (simp add: slave_perform_PR_def example_slave_env_def load_def k_def status_values)
  then obtain k' where u: "useHW ?S 3 64 k = Some (True, k')"
    using l t by (simp add: useHW_def Let_def) (simp add: example_slave_env_def)
  have e: "vhwti_base ?S = ?b" "mb_status ?S ! unat (slave_num ?S) = 0x55000004" "(3 :: Huint) \<noteq> 0"
    by (simp_all add: example_slave_env_def)
  have "hwti_base (senv ?S) (vhwti_base ?S)" using example_base by (simp add: example_slave_env_def)
  from useHW_only_loaded [OF this u refl refl refl refl] l(1) e
  have "hwti_get_last_accelerator ?b k' = 3" "\<exists>k1. status_done 0x55000004 k1" by auto
  then show ?thesis using u l(1) by blast
qed

section \<open>Blocking inside a thread\<close>

text \<open>
  A thread that has to wait for a mutex waits with the routine that waits for a new thread:
  when it goes on, the record of the first accelerator it used is gone (and its execution time
  starts again), so that the host never learns of it.
\<close>

lemma blocked_lock_forgets_accelerator:
  assumes b: "hwti_base (senv S) (vhwti_base S)"
    and m: "on_mach (read_reg (plat (senv S)) (mutex_cmd (plat (senv S)) 0 (hwti_read (vhwti_base S) 0 k) l)) k =
      (HT_MUTEX_BLOCK, k1)"
    and go: "hwti_read (vhwti_base S) 0x0C k1 = GO_COMMAND"
  shows "\<exists>k'. slave_mutex_lock S l k = Some k' \<and> hwti_get_first_accelerator (vhwti_base S) k' = SLAVE_NO_ACC"
proof -
  have al: "take_bit 8 (vhwti_base S) = 0" using b by (simp add: hwti_base_def)
  from wait_for_go_now [OF b go] m show ?thesis
    by (auto simp: slave_mutex_lock_def proc_hw_mutex_lock_def iface_regs [OF al] load_is_read hwti_get_first_accelerator_def)
qed

end
