(* ===== verification/Offload.thy ===== *)
theory Offload
  imports Dispatch_Tables Slave_Laws
begin

text \<open>
  Host and slaves together: a thread created by the dispatcher is run by the slave it was
  handed to and joined by the host, and a slave that waits for a mutex is resumed by the
  host's unlock through the scheduler and the slave's command register.
\<close>

section \<open>From creation to join\<close>

lemma exited_keeps_ready:
  assumes ok: "ready_ok c Q" and t: "running (entries (tm c) t)" "\<not> queue_bit (thread_ram (sch c) t)"
  shows "ready_ok (exited_entry t c) Q" "free_ids (tm (exited_entry t c)) = free_ids (tm c)"
proof -
  have "tm_ok (tm (exited_entry t c))"
    by (rule tm_ok_frame [OF ready_ok_D(1) [OF ok]])
      (use t in \<open>auto simp: exited_entry_def running_def split: if_splits\<close>)
  moreover have "t \<notin> set (Q p)" for p using ready_ok_D(6) [OF ok, of t] t(2) by auto
  ultimately show "ready_ok (exited_entry t c) Q"
    using ok by (auto simp: ready_ok_def exited_entry_def)
  show "free_ids (tm (exited_entry t c)) = free_ids (tm c)" by (auto simp: free_ids_def exited_entry_def)
qed

text \<open>
  C5: A joinable thread created with \<^verbatim>\<open>DYNAMIC_HW\<close> comes back from the slave that the dispatcher chooses. Let
  \<^verbatim>\<open>find_best_match\<close> choose a free slave; every build does so except one with \<^verbatim>\<open>OPCODE_FLAGGING\<close>, which may
  choose the queue of threads instead, and this says nothing of threads in the queue. Let the function be
  one that returns on the slave and changes there nothing but memory outside of the slave's interface;
  calls of the kernel from it are excluded. Then the creation succeeds and the slave is busy, the slave's
  nanokernel runs the function in its next turn, \<^verbatim>\<open>thread_join\<close> then returns at once with success and stores the
  value that the function computed, the slave is free for the next thread, and the thread's
  ID is free again. The caller passes attributes, and its variables for the ID, the
  result and the time are outside of the interfaces.
\<close>

theorem offload_roundtrip:
  assumes P: "platform_ok (plat (kenv D))" and sl: "slaves_ok D" and dok: "dispatch_ok D h"
    and fl: "table_initialized_flag h \<noteq> 0"
    and ok: "ready_ok (kcores (kern h)) Q" and cur: "is_current (kcurrent (kern h)) (tm (kcores (kern h)))"
    and run: "running (entries (tm (kcores (kern h))) (kcurrent (kern h)))"
    and free: "free_ids (tm (kcores (kern h))) = t # ts"
    and s: "s < length (hwti_array D)" "slave_free D h s"
    and fb: "find_best_match D f (start_timing D h) = Some (of_nat s, (start_timing D h)\<lparr>found := m\<rparr>)"
    and th: "plain_word D th" "ap \<noteq> 0" "detached (attr_heap (kern h) ap) = 0"
    and code: "lookup_thread (global_thread_table h) f (isa (slave_table h ! s)) = Some func"
    and env: "senv S = kenv D" "vhwti_base S = hwti_array D ! s" "computes S func arg ret"
    and ptr: "hwti_get_last_accelerator_ptr (hwti_array D ! s) (kern h) = 0 \<or>
      plain_word D (hwti_get_last_accelerator_ptr (hwti_array D ! s) (kern h))"
    and rp: "plain_word D rp" "plain_word D ep" "plain_word D (ep + 4)" "rp \<noteq> ep" "rp \<noteq> ep + 4"
  shows "\<exists>h1 s1 h2. thread_create D th ap f arg DYNAMIC_HW dma h = Some (SUCCESS, h1) \<and> \<not> slave_free D h1 s \<and>
    slave_turn S \<lparr>world = kern h1, prev_last_used_accelerator = pv\<rparr> = Some s1 \<and>
    thread_join D (ucast t) rp ep (h1\<lparr>kern := world s1\<rparr>) = Some (Returned SUCCESS, h2) \<and>
    mem (mach (kern h2)) rp = ret \<and> slave_free D h2 s \<and> free_ids (tm (kcores (kern h2))) = t # ts"
proof -
  let ?N = "length (hwti_array D)"
  obtain h1 where tc: "thread_create D th ap f arg DYNAMIC_HW dma h = Some (SUCCESS, h1)"
      and h1: "handed_over (kenv D) (hwti_array D ! s) t func arg (kern h1)" "ready_ok (kcores (kern h1)) Q"
        "\<forall>j < ?N. slave_free D h1 j \<longleftrightarrow> slave_free D h j \<and> j \<noteq> s"
        "hwti_read (hwti_array D ! s) 0x44 (kern h1) = hwti_read (hwti_array D ! s) 0x44 (kern h)"
        "free_ids (tm (kcores (kern h1))) = ts" "kcurrent (kern h1) = kcurrent (kern h)"
        "cur_invalid (tm (kcores (kern h1))) = cur_invalid (tm (kcores (kern h)))"
        "e_detached (entries (tm (kcores (kern h1))) t) = (detached (attr_heap (kern h) ap) \<noteq> 0)"
        "\<not> e_joined (entries (tm (kcores (kern h1))) t)"
        "detached (attr_heap (kern h) ap) = 0 \<longrightarrow> e_pid (entries (tm (kcores (kern h1))) t) = kcurrent (kern h)"
    using dynamic_create_on [OF P sl dok fl ok run free s fb th(1,2) code, of arg dma] by blast
  let ?b = "hwti_array D ! s" and ?s = "\<lparr>world = kern h1, prev_last_used_accelerator = pv\<rparr>"
  have b: "hwti_base (kenv D) ?b" using slave_base [OF sl s(1)] .
  define q where "q = hwti_read ?b 0x44 (kern h)"
  have q: "q = hwti_read (vhwti_base S) 0x44 (world ?s)"
      "q = 0 \<or> mem_addr (plat (senv S)) q \<and> outside (vhwti_base S) q"
    using ptr slave_outside [of D q s] s(1)
    by (auto simp: q_def h1(4) env hwti_get_last_accelerator_ptr_def plain_word_def)
  have pre: "platform_ok (plat (senv S))" "hwti_base (senv S) (vhwti_base S)"
      "handed_over (senv S) (vhwti_base S) t func arg (world ?s)"
      "e_detached (entries (tm (kcores (world ?s))) t) \<or> \<not> e_joined (entries (tm (kcores (world ?s))) t)"
    using P b h1 by (simp_all add: env)
  from slave_turn_result [OF pre(1-3) env(3) q pre(4)] obtain s1 where
    s1: "slave_turn S ?s = Some s1" "kcores (world s1) = exited_entry t (kcores (kern h1))"
      "retval (threads (world s1) (ucast t)) = ret" "hwti_get_utilized_flag ?b (world s1) = FLAG_HWTI_FREE"
    by (auto simp: env)
  define h2 where "h2 = h1\<lparr>kern := world s1\<rparr>"
  let ?k = "kern (start_timing D h2)"
  have k: "?k = world s1" "kern h2 = world s1" by (simp_all add: h2_def)
  from exited_keeps_ready [OF h1(2), of t] h1(1)
  have ex: "ready_ok (kcores ?k) Q" "free_ids (tm (kcores ?k)) = ts"
    unfolding k(1) s1(2) using h1(5) by (simp_all add: handed_over_def)
  have child: "e_used (entries (tm (kcores ?k)) t)" "\<not> e_alive (entries (tm (kcores ?k)) t)"
      "\<not> e_detached (entries (tm (kcores ?k)) t)" "\<not> e_joined (entries (tm (kcores ?k)) t)"
      "is_current (e_pid (entries (tm (kcores ?k)) t)) (tm (kcores ?k))"
    unfolding k(1) s1(2) using h1(6-10) cur th(3) by (simp_all add: exited_entry_def is_current_def kcurrent_def)
  have r0: "rp \<noteq> 0" "mem_addr (plat (kenv D)) rp" using rp(1) by (simp_all add: plain_word_def)
  have rv: "retval (threads ?k (ucast t)) = ret" unfolding k(1) using s1(3) .
  from join_collects_exited [OF P ex(1) child r0, unfolded rv ex(2)] obtain k3 where
    k3: "syscall_join (kenv D) (ucast t) rp ?k = (Returned SUCCESS, k3)"
      "mem (mach k3) = (mem (mach ?k))(rp := ret)" "free_ids (tm (kcores k3)) = t # ts"
    by blast
  have "hthread_join (kenv D) (ucast t) rp ?k = Some (Returned SUCCESS, k3)"
    using k3(1) by (simp add: hthread_join_def do_syscall_def system_call_handler_def)
  then have tj: "thread_join D (ucast t) rp ep h2 = Some (Returned SUCCESS, thread_join_rest D (ucast t) ep ((start_timing D h2)\<lparr>kern := k3\<rparr>))"
    by (simp add: thread_join_def)
  let ?h3 = "thread_join_rest D (ucast t) ep ((start_timing D h2)\<lparr>kern := k3\<rparr>)"
  have m: "mem_addr (plat (kenv D)) ep" "mem_addr (plat (kenv D)) (ep + 4)" using rp(2,3) by (simp_all add: plain_word_def)
  have h3: "kcores (kern ?h3) = kcores k3" "a \<noteq> ep \<Longrightarrow> a \<noteq> ep + 4 \<Longrightarrow> mem (mach (kern ?h3)) a = mem (mach k3) a" for a
    by (simp_all add: thread_join_rest_def upd_kern_def store_mem [OF m(1)] store_mem [OF m(2)] kcores_def Let_def)
  have "hwti_cmd ?b 0x04 \<noteq> a" if "plain_word D a" for a using outside_reg [OF slave_outside [OF that s(1)], of "0x04"] by simp
  then have "slave_free D ?h3 s"
    using h3(2) [of "hwti_cmd ?b 0x04"] rp(1-3) k3(2) s1(4)
    by (auto simp: slave_free_def hwti_get_utilized_flag_def hwti_read_def k)
  moreover have "mem (mach (kern ?h3)) rp = ret" using h3(2) [of rp] rp(4,5) k3(2) by simp
  moreover have "\<not> slave_free D h1 s" using h1(3) s(1) by simp
  ultimately show ?thesis using tc s1(1) tj h3(1) k3(3) unfolding h2_def by metis
qed

theorem offload_roundtrip_witness:
  "\<exists>h s h1 s1 h2. thread_create example_dispatch 0x50000000 0x200 0 7 DYNAMIC_HW 0 h = Some (SUCCESS, h1) \<and>
     slave_turn (example_slave_env (hwti_array example_dispatch ! s)) \<lparr>world = kern h1, prev_last_used_accelerator = 0\<rparr> = Some s1 \<and>
     thread_join example_dispatch 2 0x50000010 0x50000020 (h1\<lparr>kern := world s1\<rparr>) = Some (Returned SUCCESS, h2) \<and>
     mem (mach (kern h2)) 0x50000010 = 0x4007"
proof -
  obtain c ts where c: "ready_ok c ((\<lambda>_. [])(64 := [1]))" "is_current 0 (tm c)"
    "running (entries (tm c) 0)" "free_ids (tm c) = 2 # ts" using two_threads by metis
  let ?D = example_dispatch and ?h = "example_board c"
  have run: "ready_ok (kcores (kern ?h)) ((\<lambda>_. [])(64 := [1]))"
      "is_current (kcurrent (kern ?h)) (tm (kcores (kern ?h)))"
      "running (entries (tm (kcores (kern ?h))) (kcurrent (kern ?h)))" "free_ids (tm (kcores (kern ?h))) = 2 # ts"
    using c unfolding kcurrent_def example_board(1) by (simp_all add: is_current_def)
  have nz: "(0x200 :: Huint) \<noteq> 0" "0 < length (hwti_array ?D)" "detached (attr_heap (kern ?h) 0x200) = 0"
    by (simp_all add: example_board(8)) (simp add: example_board_def example_host_def example_kernel_def Hfalse_def)
  obtain s m where s: "s < length (hwti_array ?D)" "slave_free ?D ?h s"
      "find_best_match ?D 0 (start_timing ?D ?h) = Some (of_nat s, (start_timing ?D ?h)\<lparr>found := m\<rparr>)"
    using best_slave_found [OF example_board(6,10,11) nz(2) example_board(2,9)] by blast
  let ?S = "example_slave_env (hwti_array ?D ! s)"
  have env: "senv ?S = kenv ?D" "vhwti_base ?S = hwti_array ?D ! s" "computes ?S 0x4000 7 0x4007"
    using example_computes [of _ "0x4000" 7] by (simp_all add: example_slave_env_def example_dispatch_def)
  have code: "lookup_thread (global_thread_table ?h) 0 (isa (slave_table ?h ! s)) = Some 0x4000"
    using s(1) by (cases s) (simp_all add: lookup_thread_def at_def example_board_def example_host_def
        example_entry_def example_slave_def example_dispatch_def)
  have ptr: "hwti_get_last_accelerator_ptr (hwti_array ?D ! s) (kern ?h) = 0 \<or>
      plain_word ?D (hwti_get_last_accelerator_ptr (hwti_array ?D ! s) (kern ?h))"
    using s(1) by (cases s) (simp_all add: hwti_get_last_accelerator_ptr_def hwti_read_def hwti_cmd_def example_dispatch_def
        example_board_def example_host_def example_kernel_def)
  have w: "plain_word ?D 0x50000010" "plain_word ?D 0x50000020" "plain_word ?D (0x50000020 + 4)"
      "(0x50000010 :: Huint) \<noteq> 0x50000020" "(0x50000010 :: Huint) \<noteq> 0x50000020 + 4"
    by (simp_all add: plain_word_def example_dispatch_def mem_addr_def outside_def example_env_def window_def)
  from offload_roundtrip [OF example_slaves(3,1) example_board(6,7) run s example_slaves(2) nz(1,3) code env ptr w, of 0 0]
  obtain h1 s1 h2 where "thread_create ?D 0x50000000 0x200 0 7 DYNAMIC_HW 0 ?h = Some (SUCCESS, h1)"
    "slave_turn ?S \<lparr>world = kern h1, prev_last_used_accelerator = 0\<rparr> = Some s1"
    "thread_join ?D (ucast (2 :: tid)) 0x50000010 0x50000020 (h1\<lparr>kern := world s1\<rparr>) = Some (Returned SUCCESS, h2)"
    "mem (mach (kern h2)) 0x50000010 = 0x4007" by blast
  then show ?thesis by (intro exI [of _ ?h] exI [of _ s] exI [of _ h1] exI [of _ s1] exI [of _ h2]) simp
qed

section \<open>A mutex between host and slave\<close>

text \<open>Releasing a mutex to a thread on a slave sends the go command to the slave's interface.\<close>

lemma wake_hardware:
  assumes "running (entries (tm (cores m)) t)" "\<not> queue_bit (thread_ram (sch (cores m)) t)"
    "\<not> sw_range (param_ram (sch (cores m)) t)"
  shows "wake t m = m\<lparr>mem := (mem m)(param_ram (sch (cores m)) t := 1)\<rparr>"
  using assms
  by (simp add: wake_def with_cores_def tm_add_def Let_def sch_is_queued_def do_enqueue_def sch_enqueue_def apply_events_def)

text \<open>
  C15: A slave that asks for a mutex which a thread of the host holds, locked once and with nobody else
  waiting for it, blocks; when the next thing that happens is that the host unlocks the mutex,
  the slave's lock returns and its thread owns the mutex. The answer travels through the
  synchronisation manager, the thread manager and the scheduler, which writes the go command into
  the slave's interface. (With more locks or earlier waiters it takes more than one unlock.)
\<close>

theorem host_unlock_resumes_slave:
  assumes P: "platform_ok (plat (senv S))" and b: "hwti_base (senv S) (vhwti_base S)"
    and A: "sync_repr (syncm (mach k)) A" "A m = ([w], 1)" "t \<noteq> w" "\<And>l. t \<notin> set (tl (fst (A l)))"
    and m: "m = ucast (m_num (mutex_heap k mutex))" "ucast lock = m"
    and t: "hwti_read (vhwti_base S) 0x00 k = ucast t" "hwti_read (vhwti_base S) 0x0C k \<noteq> GO_COMMAND"
      "running (entries (tm (kcores k)) t)" "\<not> queue_bit (thread_ram (sch (kcores k)) t)"
      "param_ram (sch (kcores k)) t = hwti_cmd (vhwti_base S) 0x0C"
    and nxt: "\<And>k. around S k = snd (syscall_mutex_unlock (senv S) mutex k)"
  shows "\<exists>k'. slave_mutex_lock S lock k = Some k' \<and> m_owner (mutexes (syncm (mach k')) m) = t \<and>
    sync_repr (syncm (mach k')) (A(m := ([t], 1))) \<and> hwti_read (vhwti_base S) 0x0C k' = 0"
proof -
  let ?E = "senv S" and ?b = "vhwti_base S" and ?s = "syncm (mach k)"
  have al: "take_bit 8 ?b = 0" using b by (simp add: hwti_base_def)
  obtain r s1 where l: "lock_fsm m t ?s = (r, s1)" by fastforce
  have "lock_ok A (m_kind (mutexes ?s m)) m t" using A by (simp add: lock_ok_def)
  from lock_refines [OF A(1) this] l A(2,3)
  have r: "r = HT_MUTEX_BLOCK" "sync_repr s1 (A(m := ([w, t], 1)))"
    by (simp_all add: spec_lock_def data1_def HT_MUTEX_BLOCK_def)
  define k1 where "k1 = k\<lparr>mach := (mach k)\<lparr>syncm := s1\<rparr>\<rparr>"
  have q: "on_mach (read_reg (plat ?E) (mutex_cmd (plat ?E) 0 (ucast t) lock)) k = (HT_MUTEX_BLOCK, k1)"
    using mutex_ops(1) [OF P, of "ucast t" lock "mach k"] l r(1) m(2)
    by (simp add: mutex_acquire_def on_mach_def k1_def)
  obtain r2 s2 where u: "unlock_fsm m s1 = (r2, Some t, s2)" and R: "sync_repr s2 (A(m := ([t], 1)))"
    using unlock_refines [OF r(2), of m] by (auto simp: spec_unlock_def)
  have own: "m_owner (mutexes s2 m) = t"
    using mutex_repr_tests(3) [OF sync_repr_mutex [OF R, of m]] by simp
  define k2 where "k2 = around S k1"
  have hw: "\<not> sw_range (param_ram (sch (kcores k)) t)" using t(5) reg_not_priority [OF b, of "0x0C"] by simp
  have "k2 = k1\<lparr>mach := wake t ((mach k1)\<lparr>syncm := s2\<rparr>)\<rparr>"
    using P u m(1) by (simp add: k2_def nxt syscall_mutex_unlock_def kernel_access hw_ops k1_def)
  then have k2: "k2 = k1\<lparr>mach := (mach k1)\<lparr>syncm := s2, mem := (mem (mach k1))(hwti_cmd ?b 0x0C := 1)\<rparr>\<rparr>"
    using t(3-5) hw by (simp add: wake_hardware k1_def kcores_def)
  have go: "hwti_read ?b 0x0C k2 = GO_COMMAND" "hwti_read ?b 0x0C k1 \<noteq> GO_COMMAND"
    using t(2) by (simp_all add: k2 hwti_read_def GO_COMMAND_def k1_def)
  from wait_for_go_now [OF b go(1)] obtain k3 where
    k3: "wait_for_go_command S (initialize_interface ?b) k2 = Some k3" "only_block ?b k2 k3" "hwti_read ?b 0x0C k3 = 0" by blast
  have "wait_for_go_command S (initialize_interface ?b) k1 = wait_for_go_command S (initialize_interface ?b) k2"
    using go(2) by (simp add: wait_for_go_command_def iface_regs [OF al] load_is_read poll_command.simps [of S _ _ k1] k2_def)
  then have "slave_mutex_lock S lock k = Some k3"
    using q t(1) k3(1) by (simp add: slave_mutex_lock_def proc_hw_mutex_lock_def iface_regs [OF al] load_is_read)
  then show ?thesis
    using only_block_frame(3) [OF k3(2)] R own k3(3) by (simp add: k2)
qed

theorem host_unlock_resumes_slave_witness:
  "\<exists>S k k'. slave_mutex_lock S 0 k = Some k' \<and> m_owner (mutexes (syncm (mach k')) 0) = 1"
proof -
  let ?b = "0x51000000 :: Huint"
  obtain c :: cores where c: "running (entries (tm c) 1)" "sch c = sched_reset"
    using blocked_child by blast
  define S where "S = (example_slave_env ?b)\<lparr>around := \<lambda>k. snd (syscall_mutex_unlock example_env 0 k)\<rparr>"
  define k where "k = (example_kernel (c\<lparr>sch := sched_reset\<lparr>param_ram := (param_ram sched_reset)(1 := hwti_cmd ?b 0x0C)\<rparr>\<rparr>))
    \<lparr>mach := (mach (example_kernel (c\<lparr>sch := sched_reset\<lparr>param_ram := (param_ram sched_reset)(1 := hwti_cmd ?b 0x0C)\<rparr>\<rparr>)))
      \<lparr>syncm := snd (lock_fsm 0 0 sync_reset), mem := (\<lambda>_. 0)(?b := 1)\<rparr>\<rparr>"
  have S: "senv S = example_env" "vhwti_base S = ?b" "\<And>k. around S k = snd (syscall_mutex_unlock (senv S) 0 k)"
    by (simp_all add: S_def example_slave_env_def)
  have A: "sync_repr (syncm (mach k)) ((\<lambda>_. ([], 0))(0 := ([0], 1)))"
    using lock_free_refines [OF sync_reset_repr, of 0] by (simp add: k_def example_kernel_def)
  have "\<exists>k'. slave_mutex_lock S 0 k = Some k' \<and> m_owner (mutexes (syncm (mach k')) 0) = 1 \<and>
    sync_repr (syncm (mach k')) (((\<lambda>_. ([], 0))(0 := ([0], 1)))(0 := ([1], 1))) \<and> hwti_read (vhwti_base S) 0x0C k' = 0"
    by (rule host_unlock_resumes_slave [OF _ _ A _ _ _ _ _ _ _ _ _ _ S(3), where w = 0])
      (use example_platform example_base c in \<open>simp_all add: S, simp_all add: k_def example_kernel_def hwti_read_def
        hwti_cmd_def GO_COMMAND_def kcores_def\<close>)
  then show ?thesis by blast
qed

end
