(* ===== verification/Slave_Kernel.thy ===== *)
theory Slave_Kernel
  imports Slave_Laws
begin

text \<open>
  The kernel that programs on a slave processor are linked with:
  \<^verbatim>\<open>hal/src/software/system/mblaze\<close> (\<^verbatim>\<open>setup.c\<close>, \<^verbatim>\<open>sched.c\<close>, \<^verbatim>\<open>syscall.c\<close>, \<^verbatim>\<open>bootstrap.c\<close>),
  \<^verbatim>\<open>hal/src/archs/mblaze/src/arch.c\<close> and the inline functions of
  \<^verbatim>\<open>hal/include/hthread/processor/hardware.h\<close> and \<^verbatim>\<open>manager/hardware.h\<close>. It offers the system
  calls of the host's kernel, but a thread stays on its slave for life: there are no context
  switches, and blocking means polling the command register of the slave's interface.

  The current thread is the one named in the interface, the thread control blocks are the
  host's, reached through the pointer in the interface (any other pointer gives \<open>None\<close>). Two
  tables are the slave's own: the saved contexts of \<^verbatim>\<open>arch.c\<close> and the array \<^verbatim>\<open>threads\<close> that
  \<^verbatim>\<open>bootstrap.c\<close> names. A call that never returns gives \<open>None\<close>. The build has no
  special interrupt controller (\<^verbatim>\<open>SPIC_BASEADDR\<close>) and no \<^verbatim>\<open>HTHREADS_SMP\<close>.
\<close>

section \<open>State and access to the interface\<close>

record hal_env =
  henv :: slave_env
  own_context_base :: Huint
  own_bootstrap :: Huint
  hal_msr_cache :: Huint

record hal =
  hkern :: kernel
  own_contexts :: "Huint \<Rightarrow> nat \<Rightarrow> Huint"
  own_threads :: "Huint \<Rightarrow> hthread_thread"

text \<open>The slave's command macros leave out the processor number.\<close>

definition hplat :: "hal_env \<Rightarrow> platform" where
  "hplat H = (plat (senv (henv H)))\<lparr>procid := 0\<rparr>"

definition proc_id :: "hal_env \<Rightarrow> Huint" where
  "proc_id H = vhwti_base (henv H)"

definition vhwti_field :: "hal_env \<Rightarrow> Huint \<Rightarrow> kernel \<Rightarrow> Huint" where
  "vhwti_field H word_offset k = load (proc_id H + 4 * word_offset) k"

definition hal_current_thread :: "hal_env \<Rightarrow> kernel \<Rightarrow> Huint" where
  "hal_current_thread H k = vhwti_field H 0 k"

definition hal_exit_thread :: "hal_env \<Rightarrow> Huint \<Rightarrow> kernel \<Rightarrow> Huint \<times> kernel" where
  "hal_exit_thread H i k =
     (case on_mach (exit_thread (hplat H) i) k of
        (res, k1) \<Rightarrow> (res, hwti_set_free (senv (henv H)) (proc_id H) k1))"

definition on_hal :: "(kernel \<Rightarrow> 'a \<times> kernel) \<Rightarrow> hal \<Rightarrow> 'a \<times> hal" where
  "on_hal f s = (case f (hkern s) of (r, k) \<Rightarrow> (r, s\<lparr>hkern := k\<rparr>))"

text \<open>An access to \<^verbatim>\<open>threads[th]\<close> through the context pointer of the interface.\<close>

definition hal_tcb :: "hal_env \<Rightarrow> Huint \<Rightarrow> kernel \<Rightarrow> bool" where
  "hal_tcb H th k \<longleftrightarrow> vhwti_field H 9 k = threads_base (senv (henv H)) \<and> th < MAX_THREADS"

section \<open>Scheduling, setting up and destroying threads\<close>

definition hal_run_sched :: "hal_env \<Rightarrow> bool \<Rightarrow> hal \<Rightarrow> hal option" where
  "hal_run_sched H save s =
     (if save then
        (let cmd_ptr = proc_id H + 4 * 3 in
         map_option (\<lambda>k. s\<lparr>hkern := store (senv (henv H)) cmd_ptr 0 k\<rparr>)
           (poll_command (henv H) cmd_ptr HT_HWTI_GO (hkern s)))
      else Some s)"

definition hal_arch_setup_thread :: "hal_env \<Rightarrow> Huint \<Rightarrow> Huint \<Rightarrow> Huint \<Rightarrow> hal \<Rightarrow> Huint \<times> hal" where
  "hal_arch_setup_thread H th start arg s =
     (let k1 = upd_thread th (\<lambda>x. x\<lparr>context_ptr := own_context_base H + th * mb_context_size (senv (henv H))\<rparr>) (hkern s);
          regs = (own_contexts s th)
            (MB_SP := stack_top (threads k1 th),
             MB_LR := own_bootstrap H,
             MB_ARG0 := start,
             MB_ARG1 := arg,
             MB_MSR := 0x00000002 OR 0x00000100 OR 0x00000800 OR hal_msr_cache H)
      in (SUCCESS, s\<lparr>hkern := k1, own_contexts := (own_contexts s)(th := regs)\<rparr>))"

definition hal_setup_hwti :: "hal_env \<Rightarrow> Huint \<Rightarrow> Huint \<Rightarrow> Huint \<Rightarrow> Huint \<Rightarrow> kernel \<Rightarrow> kernel" where
  "hal_setup_hwti H base t start arg k =
     (let E = senv (henv H);
          k1 = hwti_reset E base k;
          k2 = hwti_setid E base t k1;
          k3 = hwti_setarg E base arg k2;
          k4 = hwti_set_fcn_ptr E base start k3;
          k5 = hwti_set_global_context_ptr E base (vhwti_field H 9 k) k4;
          k6 = hwti_set_global_stack_ptr E base (vhwti_field H 8 k) k5;
          k7 = hwti_set_global_context_table_ptr E base (vhwti_field H 10 k) k6
      in hwti_set_bootstrap_ptr E base (own_bootstrap H) k7)"

definition hal_setup_thread :: "hal_env \<Rightarrow> Huint \<Rightarrow> hthread_attr \<Rightarrow> Huint \<Rightarrow> Huint \<Rightarrow> hal \<Rightarrow> (Huint \<times> hal) option" where
  "hal_setup_thread H t attr start arg s =
     (if t \<ge> MAX_THREADS then Some (EINVAL, s)
      else
        let k = hkern s;
            alloc = (stack_addr attr = 0 \<and> hardware attr \<noteq> Htrue);
            stk = (if alloc then vhwti_field H 8 k + t * HT_STACK_SIZE else stack_addr attr)
        in if alloc \<and> stack_size attr \<le> HTHREAD_STACK_MIN then Some (EINVAL, s)
           else if alloc \<and> stk = 0 then Some (ENOMEM, s)
           else if \<not> hal_tcb H t k then None
           else
             let k1 = upd_thread t (\<lambda>x. x\<lparr>stack := stk, stacksize := stack_size attr,
                        newthread := Htrue, retval := 0, execution_time := 0\<rparr>) k
             in if hardware attr \<noteq> Htrue
                then Some (hal_arch_setup_thread H t start arg
                       (s\<lparr>hkern := upd_thread t (\<lambda>x. x\<lparr>t_hardware := 0\<rparr>) k1\<rparr>))
                else
                  let k2 = hal_setup_hwti H (hardware_addr attr - HT_HWTI_COMMAND_OFFSET) t start arg k1
                  in Some (SUCCESS, s\<lparr>hkern := upd_thread t (\<lambda>x. x\<lparr>t_hardware := hardware_addr attr\<rparr>) k2\<rparr>))"

definition hal_destroy_thread :: "hal_env \<Rightarrow> Huint \<Rightarrow> hal \<Rightarrow> (Huint \<times> hal) option" where
  "hal_destroy_thread H i s =
     (if \<not> hal_tcb H i (hkern s) then None
      else case on_mach (clear_thread (hplat H) i) (hkern s) of
        (r, k1) \<Rightarrow> Some (SUCCESS, s\<lparr>hkern := upd_thread i (\<lambda>x. x\<lparr>stack := 0\<rparr>) k1\<rparr>))"

section \<open>System calls\<close>

definition hal_syscall_create ::
  "hal_env \<Rightarrow> Huint \<Rightarrow> Huint \<Rightarrow> Huint \<Rightarrow> Huint \<Rightarrow> hal \<Rightarrow> (Hint \<times> hal) option" where
  "hal_syscall_create H th attr_ptr start arg s =
     (let P = hplat H; attr = attr_heap (hkern s) attr_ptr in
      case on_hal (on_mach (if detached attr \<noteq> 0 then create_detached P else create_joinable P)) s of
        (threadStatus, s1) \<Rightarrow>
          if has_error threadStatus then Some (EAGAIN, s1)
          else
            let threadID = extract_id threadStatus in
            case hal_setup_thread H threadID attr start arg s1 of
              None \<Rightarrow> None
            | Some (setupStatus, s2) \<Rightarrow>
                if setupStatus \<noteq> SUCCESS then Some (setupStatus, s2)
                else
                  case on_hal (on_mach (set_schedparam P threadID
                         (if hardware attr \<noteq> Htrue then sched_param attr else hardware_addr attr))) s2 of
                    (schedStatus, s3) \<Rightarrow>
                      if schedStatus \<noteq> SUCCESS then Some (schedStatus, s3)
                      else
                        case on_hal (on_mach (add_thread P threadID)) s3 of
                          (addStatus, s4) \<Rightarrow>
                            if has_error addStatus then
                              (case hal_destroy_thread H threadID (snd (on_hal (on_mach (read_sched_status P threadID)) s4)) of
                                 None \<Rightarrow> None
                               | Some (_, s5) \<Rightarrow>
                                   Some (EAGAIN, snd (on_hal (on_mach (clear_thread P threadID)) s5)))
                            else Some (SUCCESS, s4\<lparr>hkern := store (senv (henv H)) th threadID (hkern s4)\<rparr>))"

definition hal_join_rest :: "hal_env \<Rightarrow> Huint \<Rightarrow> Huint \<Rightarrow> hal \<Rightarrow> (Hint \<times> hal) option" where
  "hal_join_rest H th ret s =
     (let E = senv (henv H); k = hkern s in
      if ret \<noteq> 0 \<and> \<not> hal_tcb H th k then None
      else
        let v = (if t_hardware (threads k th) \<noteq> 0
                 then hwti_results (t_hardware (threads k th) - HT_HWTI_COMMAND_OFFSET) k
                 else retval (threads k th));
            s1 = (if ret \<noteq> 0 then s\<lparr>hkern := store E ret v k\<rparr> else s)
        in case on_hal (on_mach (detached_thread (hplat H) th)) s1 of
             (d, s2) \<Rightarrow> if \<not> d then map_option (\<lambda>x. (SUCCESS, snd x)) (hal_destroy_thread H th s2)
                       else Some (SUCCESS, s2))"

definition hal_syscall_join :: "hal_env \<Rightarrow> Huint \<Rightarrow> Huint \<Rightarrow> hal \<Rightarrow> (Hint \<times> hal) option" where
  "hal_syscall_join H th ret s =
     (case on_hal (on_mach (join_thread (hplat H) th)) s of
        (status, s1) \<Rightarrow>
          if has_error status \<and> extract_error status \<noteq> HT_ALREADY_EXITED then Some (EINVAL, s1)
          else
            case (if extract_error status \<noteq> HT_ALREADY_EXITED then hal_run_sched H True s1 else Some s1) of
              None \<Rightarrow> None
            | Some s2 \<Rightarrow> hal_join_rest H th ret s2)"

definition hal_syscall_detach :: "hal_env \<Rightarrow> Huint \<Rightarrow> hal \<Rightarrow> Hint \<times> hal" where
  "hal_syscall_detach H th s =
     (case on_hal (on_mach (detach_thread (hplat H) th)) s of
        (sta, s1) \<Rightarrow> (if sta \<noteq> 0 then SUCCESS else EINVAL, s1))"

definition hal_syscall_yield :: "hal \<Rightarrow> Hint \<times> hal" where
  "hal_syscall_yield s = (SUCCESS, s)"

partial_function (option) hal_exit_loop :: "hal_env \<Rightarrow> Huint \<Rightarrow> hal \<Rightarrow> hal option" where
  "hal_exit_loop H cur s =
     (case on_hal (hal_exit_thread H cur) s of
        (status, s1) \<Rightarrow> if has_error status then hal_exit_loop H cur (snd (hal_syscall_yield s1)) else Some s1)"

definition hal_syscall_exit :: "hal_env \<Rightarrow> Huint \<Rightarrow> hal \<Rightarrow> hal option" where
  "hal_syscall_exit H ret s =
     (let cur = hal_current_thread H (hkern s) in
      if \<not> hal_tcb H cur (hkern s) then None
      else
        case hal_exit_loop H cur (s\<lparr>hkern := upd_thread cur (\<lambda>x. x\<lparr>retval := ret\<rparr>) (hkern s)\<rparr>) of
          None \<Rightarrow> None
        | Some s1 \<Rightarrow>
            (case on_hal (on_mach (detached_thread (hplat H) cur)) s1 of
               (d, s2) \<Rightarrow>
                 case (if d then map_option snd (hal_destroy_thread H cur s2) else Some s2) of
                   None \<Rightarrow> None
                 | Some s3 \<Rightarrow> hal_run_sched H False s3))"

definition hal_syscall_current_id :: "hal_env \<Rightarrow> hal \<Rightarrow> Huint" where
  "hal_syscall_current_id H s = hal_current_thread H (hkern s)"

definition hal_syscall_set_schedparam :: "hal_env \<Rightarrow> Huint \<Rightarrow> Huint \<Rightarrow> hal \<Rightarrow> Hint \<times> hal" where
  "hal_syscall_set_schedparam H th pr = on_hal (on_mach (set_schedparam (hplat H) th pr))"

definition hal_syscall_get_schedparam :: "hal_env \<Rightarrow> Huint \<Rightarrow> Huint \<Rightarrow> hal \<Rightarrow> Hint \<times> hal" where
  "hal_syscall_get_schedparam H th pr s =
     (case on_hal (on_mach (get_schedparam (hplat H) th)) s of
        (v, s1) \<Rightarrow> (SUCCESS, s1\<lparr>hkern := store (senv (henv H)) pr v (hkern s1)\<rparr>))"

definition hal_syscall_intr_assoc :: "Huint \<Rightarrow> Hint" where
  "hal_syscall_intr_assoc iid = 0"

definition hal_syscall_mutex_lock :: "hal_env \<Rightarrow> Huint \<Rightarrow> hal \<Rightarrow> (Hint \<times> hal) option" where
  "hal_syscall_mutex_lock H mutex s =
     (case on_hal (on_mach (mutex_acquire (hplat H) (hal_current_thread H (hkern s))
             (m_num (mutex_heap (hkern s) mutex)))) s of
        (sta, s1) \<Rightarrow>
          if sta = HT_MUTEX_BLOCK then map_option (\<lambda>s2. (SUCCESS, s2)) (hal_run_sched H True s1)
          else Some (if sta = SUCCESS then SUCCESS else FAILURE, s1))"

definition hal_syscall_mutex_unlock :: "hal_env \<Rightarrow> Huint \<Rightarrow> hal \<Rightarrow> Hint \<times> hal" where
  "hal_syscall_mutex_unlock H mutex s =
     (SUCCESS, s\<lparr>hkern := upd_mach (mutex_release (hplat H) (hal_current_thread H (hkern s))
        (m_num (mutex_heap (hkern s) mutex))) (hkern s)\<rparr>)"

definition hal_syscall_mutex_trylock :: "hal_env \<Rightarrow> Huint \<Rightarrow> hal \<Rightarrow> Hint \<times> hal" where
  "hal_syscall_mutex_trylock H mutex s =
     (case on_hal (on_mach (mutex_tryacquire (hplat H) (hal_current_thread H (hkern s))
             (m_num (mutex_heap (hkern s) mutex)))) s of
        (sta, s1) \<Rightarrow> (if sta \<noteq> SUCCESS then EBUSY else SUCCESS, s1))"

definition hal_opt :: "(machine \<Rightarrow> ('a \<times> machine) option) \<Rightarrow> hal \<Rightarrow> ('a \<times> hal) option" where
  "hal_opt f s = map_option (\<lambda>x. (fst x, s\<lparr>hkern := snd x\<rparr>)) (opt_mach f (hkern s))"

definition hal_syscall_cond_wait :: "hal_env \<Rightarrow> Huint \<Rightarrow> Huint \<Rightarrow> hal \<Rightarrow> (Hint \<times> hal) option" where
  "hal_syscall_cond_wait H cond mutex s =
     (case hal_opt (condvar_wait (hplat H) (hal_current_thread H (hkern s)) (c_num (cond_heap (hkern s) cond))) s of
        None \<Rightarrow> None
      | Some (_, s1) \<Rightarrow>
          (case hal_syscall_mutex_unlock H mutex s1 of
             (sta, s2) \<Rightarrow>
               if sta \<noteq> SUCCESS then Some (sta, s2)
               else
                 case hal_run_sched H True s2 of
                   None \<Rightarrow> None
                 | Some s3 \<Rightarrow>
                     (case hal_syscall_mutex_lock H mutex s3 of
                        None \<Rightarrow> None
                      | Some (sta2, s4) \<Rightarrow> Some (if sta2 \<noteq> SUCCESS then sta2 else SUCCESS, s4))))"

definition hal_syscall_cond_signal :: "hal_env \<Rightarrow> Huint \<Rightarrow> hal \<Rightarrow> (Hint \<times> hal) option" where
  "hal_syscall_cond_signal H cond s = hal_opt (condvar_signal (hplat H) (c_num (cond_heap (hkern s) cond))) s"

definition hal_syscall_cond_broadcast :: "hal_env \<Rightarrow> Huint \<Rightarrow> hal \<Rightarrow> (Hint \<times> hal) option" where
  "hal_syscall_cond_broadcast H cond s = hal_opt (condvar_broadcast (hplat H) (c_num (cond_heap (hkern s) cond))) s"

definition hal_syscall_sched :: "hal_env \<Rightarrow> hal \<Rightarrow> (Hint \<times> hal) option" where
  "hal_syscall_sched H s = map_option (\<lambda>s1. (SUCCESS, s1)) (hal_run_sched H True s)"

definition hal_system_call_handler ::
  "hal_env \<Rightarrow> Huint \<Rightarrow> Huint \<Rightarrow> Huint \<Rightarrow> Huint \<Rightarrow> Huint \<Rightarrow> hal \<Rightarrow> (Huint \<times> hal) option" where
  "hal_system_call_handler H c p2 p3 p4 p5 s =
     (if c = 1 then hal_syscall_create H p2 p3 p4 p5 s
      else if c = 2 then hal_syscall_join H p2 p3 s
      else if c = 3 then Some (hal_syscall_detach H p2 s)
      else if c = 4 then Some (hal_syscall_yield s)
      else if c = 5 then map_option (\<lambda>s1. (0, s1)) (hal_syscall_exit H p2 s)
      else if c = 6 then Some (hal_syscall_current_id H s, s)
      else if c = 7 then Some (hal_syscall_set_schedparam H p2 p3 s)
      else if c = 8 then Some (hal_syscall_get_schedparam H p2 p3 s)
      else if c = 9 then Some (hal_syscall_intr_assoc p2, s)
      else if c = 10 then hal_syscall_mutex_lock H p2 s
      else if c = 11 then Some (hal_syscall_mutex_unlock H p2 s)
      else if c = 12 then Some (hal_syscall_mutex_trylock H p2 s)
      else if c = 13 then hal_syscall_cond_wait H p2 p3 s
      else if c = 14 then hal_syscall_cond_signal H p2 s
      else if c = 15 then hal_syscall_cond_broadcast H p2 s
      else if c = 16 then hal_syscall_sched H s
      else Some (EINVAL, s))"

text \<open>
  \<^verbatim>\<open>hthread_exit\<close> of \<^verbatim>\<open>hal/src/software/user/thread_manag.c\<close>: the system call, and then a loop whose
  condition is constantly true. \<open>Some s\<close> would be a return to the caller in state \<open>s\<close>.
\<close>

partial_function (option) exited_loop :: "hal \<Rightarrow> hal option" where
  "exited_loop s = exited_loop s"

definition hal_hthread_exit :: "hal_env \<Rightarrow> Huint \<Rightarrow> hal \<Rightarrow> hal option" where
  "hal_hthread_exit H ret s =
     (case hal_system_call_handler H 5 ret 0 0 0 s of
        None \<Rightarrow> None
      | Some (_, s1) \<Rightarrow> exited_loop s1)"

text \<open>\<^verbatim>\<open>_bootstrap_thread\<close>: \<^verbatim>\<open>threads\<close> is the slave's own array here.\<close>

definition hal_bootstrap_thread :: "hal_env \<Rightarrow> Huint \<Rightarrow> Huint \<Rightarrow> hal \<Rightarrow> hal option" where
  "hal_bootstrap_thread H func arg s =
     (let start = slave_time (henv H) (hkern s) in
      case thread_code (henv H) func arg (hkern s) of
        None \<Rightarrow> None
      | Some (ret, k) \<Rightarrow>
          let s1 = s\<lparr>hkern := k\<rparr>;
              stop = slave_time (henv H) k;
              t = hal_syscall_current_id H s1;
              s2 = s1\<lparr>own_threads := (own_threads s1)(t := (own_threads s1 t)\<lparr>execution_time := stop - start\<rparr>)\<rparr>
          in hal_hthread_exit H ret s2)"

section \<open>Laws\<close>

lemma hplat_ok: "platform_ok (plat (senv (henv H))) \<Longrightarrow> platform_ok (hplat H)"
  by (simp add: hplat_def platform_ok_def)

lemma field_regs:
  assumes "take_bit 8 (proc_id H) = 0"
  shows "vhwti_field H 0 k = hwti_read (proc_id H) 0x00 k" "vhwti_field H 8 k = hwti_read (proc_id H) 0x20 k"
    "vhwti_field H 9 k = hwti_read (proc_id H) 0x24 k" "vhwti_field H 10 k = hwti_read (proc_id H) 0x28 k"
    "proc_id H + 4 * 3 = hwti_cmd (proc_id H) 0x0C"
  using reg_plus [OF assms] by (simp_all add: vhwti_field_def load_def hwti_read_def)

lemma exited_loop_never_returns: "exited_loop s = None"
proof -
  have False if "exited_loop s = Some r" for r
    using exited_loop.raw_induct [OF _ that, of "\<lambda>_ _. False"] by blast
  then show ?thesis by (cases "exited_loop s") auto
qed

text \<open>
  A joinable thread on a slave that calls \<^verbatim>\<open>hthread_exit\<close> while nobody waits for it: the system call
  returns, and by then the thread has exited in the thread manager, its value is recorded and the
  slave's interface says that the slave is free; but \<^verbatim>\<open>hthread_exit\<close> itself does not return, and
  the nanokernel that would take the next thread is not reached.
\<close>

theorem slave_exit_spins_but_free:
  assumes P: "platform_ok (plat (senv (henv H)))" and b: "hwti_base (senv (henv H)) (proc_id H)"
    and r: "hwti_read (proc_id H) 0x00 (hkern s) = ucast t"
      "hwti_read (proc_id H) 0x24 (hkern s) = threads_base (senv (henv H))"
    and e: "\<not> e_detached (entries (tm (kcores (hkern s))) t)" "\<not> e_joined (entries (tm (kcores (hkern s))) t)"
  shows "\<exists>s'. hal_system_call_handler H 5 ret 0 0 0 s = Some (0, s') \<and> hal_hthread_exit H ret s = None \<and>
    hwti_get_utilized_flag (proc_id H) (hkern s') = FLAG_HWTI_FREE \<and>
    retval (threads (hkern s') (ucast t)) = ret \<and>
    kcores (hkern s') = exited_entry t (kcores (hkern s))"
proof -
  let ?b = "proc_id H" and ?E = "senv (henv H)" and ?th = "ucast t :: Huint"
  have al: "take_bit 8 ?b = 0" using b by (simp add: hwti_base_def)
  have cur: "hal_current_thread H (hkern s) = ?th" using r(1) by (simp add: hal_current_thread_def field_regs [OF al])
  have tcb: "hal_tcb H ?th (hkern s)" using r(2) tid_in_range [of t] by (simp add: hal_tcb_def field_regs [OF al])
  define k1 where "k1 = upd_thread ?th (\<lambda>x. x\<lparr>retval := ret\<rparr>) (hkern s)"
  define k2 where "k2 = k1\<lparr>mach := (mach k1)\<lparr>cores := exited_entry t (kcores k1)\<rparr>\<rparr>"
  define k3 where "k3 = hwti_set_free ?E ?b k2"
  have kc: "kcores k1 = kcores (hkern s)" by (simp add: k1_def upd_thread_def kcores_def)
  have "on_mach (exit_thread (hplat H) ?th) k1 = (0, k2)"
    using e kc thread_ops(4) [OF hplat_ok [OF P], of ?th "mach k1"]
    by (simp add: on_mach_def exit_no_waiter with_cores_def apply_events_def no_event_def k2_def kcores_def)
  then have ex: "on_hal (hal_exit_thread H ?th) (s\<lparr>hkern := k1\<rparr>) = (0, s\<lparr>hkern := k3\<rparr>)"
    by (simp add: on_hal_def hal_exit_thread_def k3_def)
  have loop: "hal_exit_loop H ?th (s\<lparr>hkern := k1\<rparr>) = Some (s\<lparr>hkern := k3\<rparr>)"
    by (subst hal_exit_loop.simps) (simp add: ex has_error_def)
  have k3: "kcores k3 = exited_entry t (kcores (hkern s))"
    using b kc by (simp add: k3_def k2_def hwti_set_free_def) (simp add: kcores_def)
  have "on_mach (detached_thread (hplat H) ?th) k3 = (False, k3)"
    using hplat_ok [OF P] e(1) k3 by (simp add: on_mach_def hw_ops kcores_def exited_entry_def)
  then have "hal_syscall_exit H ret s = Some (s\<lparr>hkern := k3\<rparr>)"
    using loop by (simp add: hal_syscall_exit_def cur tcb k1_def [symmetric] on_hal_def hal_run_sched_def Let_def)
  then have "hal_system_call_handler H 5 ret 0 0 0 s = Some (0, s\<lparr>hkern := k3\<rparr>)" "hal_hthread_exit H ret s = None"
    by (simp_all add: hal_hthread_exit_def hal_system_call_handler_def exited_loop_never_returns)
  moreover have "hwti_get_utilized_flag ?b k3 = FLAG_HWTI_FREE"
    using b by (simp add: k3_def hwti_set_free_def hwti_get_utilized_flag_def hwti_read_write)
  moreover have "retval (threads k3 ?th) = ret"
    using b by (simp add: k3_def hwti_set_free_def) (simp add: k2_def k1_def upd_thread_def)
  ultimately show ?thesis using k3 by auto
qed

definition example_hal_env :: hal_env where
  "example_hal_env = \<lparr>henv = example_slave_env 0x51000000, own_context_base = 0x60000000, own_bootstrap = 0x60100000,
     hal_msr_cache = 0\<rparr>"

theorem slave_exit_spins_but_free_witness:
  "\<exists>s s'. hal_system_call_handler example_hal_env 5 5 0 0 0 s = Some (0, s') \<and> hal_hthread_exit example_hal_env 5 s = None \<and>
     hwti_get_utilized_flag 0x51000000 (hkern s') = FLAG_HWTI_FREE"
proof -
  obtain c :: cores where c: "\<not> e_detached (entries (tm c) 1)" "\<not> e_joined (entries (tm c) 1)"
    using blocked_child by blast
  define k where "k = (example_kernel c)\<lparr>mach := (mach (example_kernel c))\<lparr>mem := (\<lambda>_. 0)
    (0x51000000 := 1, 0x51000024 := threads_base example_env)\<rparr>\<rparr>"
  define s where "s = \<lparr>hkern = k, own_contexts = (\<lambda>_ _. 0), own_threads = threads k\<rparr>"
  let ?H = example_hal_env
  have H: "senv (henv ?H) = example_env" "proc_id ?H = 0x51000000"
    by (simp_all add: example_hal_env_def example_slave_env_def proc_id_def)
  have "\<exists>s'. hal_system_call_handler ?H 5 5 0 0 0 s = Some (0, s') \<and> hal_hthread_exit ?H 5 s = None \<and>
    hwti_get_utilized_flag (proc_id ?H) (hkern s') = FLAG_HWTI_FREE \<and>
    retval (threads (hkern s') (ucast (1 :: tid))) = 5 \<and> kcores (hkern s') = exited_entry 1 (kcores (hkern s))"
    by (rule slave_exit_spins_but_free)
      (use example_platform example_base c in \<open>simp_all add: H, simp_all add: s_def k_def example_kernel_def hwti_read_def
        hwti_cmd_def kcores_def\<close>)
  then show ?thesis unfolding H(2) by blast
qed

text \<open>
  A slave that creates a hardware thread does not mark the slave it gives it to as utilized:
  its utilized flag stays what it was, so that the host's dispatcher may pick it again.
\<close>

lemma slave_setup_leaves_flag:
  assumes b: "hwti_base (senv (henv H)) base"
  shows "hwti_get_utilized_flag base (hal_setup_hwti H base t start arg k) = hwti_get_utilized_flag base k"
    "hwti_read base 0x00 (hal_setup_hwti H base t start arg k) = t"
    "hwti_read base 0x18 (hal_setup_hwti H base t start arg k) = start"
  using b by (simp_all add: hal_setup_hwti_def Let_def hwti_get_utilized_flag_def hwti_reset_def hwti_setid_def
      hwti_setarg_def hwti_set_fcn_ptr_def hwti_set_global_context_ptr_def hwti_set_global_stack_ptr_def
      hwti_set_global_context_table_ptr_def hwti_set_bootstrap_ptr_def hwti_read_write [OF b b])

text \<open>
  The thread manager knows the processor of the host only. A thread that a slave creates gets
  the host's current thread as its parent, and the slave can join it only while the host
  happens to run that same thread; otherwise the join is refused.
\<close>

lemma not_child_not_exited: "extract_error (err_word e JOIN_ERROR_NOT_CHILD) \<noteq> HT_ALREADY_EXITED"
proof
  assume "extract_error (err_word e JOIN_ERROR_NOT_CHILD) = HT_ALREADY_EXITED"
  then have "bit (extract_error (err_word e JOIN_ERROR_NOT_CHILD)) 2 = bit HT_ALREADY_EXITED 2"
    by simp
  moreover have "bit (7 :: Huint) 2" "bit (11 :: Huint) 3" "\<not> bit (1 :: Huint) 2"
    by (code_simp)+
  ultimately show False
    by (simp add: extract_error_def err_word_def JOIN_ERROR_NOT_CHILD_def HT_ALREADY_EXITED_def
        bit_and_iff bit_or_iff bit_drop_bit_eq)
qed

lemma slave_join_refused:
  assumes P: "platform_ok (plat (senv (henv H)))"
    and e: "e_used (entries (tm (kcores (hkern s))) t)" "\<not> e_detached (entries (tm (kcores (hkern s))) t)"
      "\<not> e_joined (entries (tm (kcores (hkern s))) t)"
    and host: "\<not> is_current (e_pid (entries (tm (kcores (hkern s))) t)) (tm (kcores (hkern s)))"
  shows "hal_syscall_join H (ucast t) ret s = Some (EINVAL, s)"
proof -
  let ?e = "entries (tm (kcores (hkern s))) t"
  have "tm_join t (tm (kcores (hkern s))) = (err_word ?e JOIN_ERROR_NOT_CHILD, tm (kcores (hkern s)))"
    using e host by (simp add: tm_join_def Let_def)
  then have "on_hal (on_mach (join_thread (hplat H) (ucast t))) s = (err_word ?e JOIN_ERROR_NOT_CHILD, s)"
    using hplat_ok [OF P] by (simp add: on_hal_def on_mach_def hw_ops with_tm_def kcores_def)
  moreover have "has_error (err_word ?e JOIN_ERROR_NOT_CHILD)"
    by (simp add: has_error_odd err_word_def JOIN_ERROR_NOT_CHILD_def bit_or_iff)
  moreover have "extract_error (err_word ?e JOIN_ERROR_NOT_CHILD) \<noteq> HT_ALREADY_EXITED"
    by (rule not_child_not_exited)
  ultimately show ?thesis by (simp add: hal_syscall_join_def)
qed

lemma slave_create_parent:
  assumes "tm_ok s" "free_ids s = t # ts" "tm_create False s = (r, s')"
  shows "e_pid (entries s' t) = current s"
  using create_ok [OF assms] by simp

end
