(* ===== verification/Dma.thy ===== *)
theory Dma
  imports Accel_Math
begin

text \<open>
  The driver of the direct memory access engine (\<^verbatim>\<open>hal/src/software/drivers/dma/dma.c\<close>) and the transfer
  that the accelerators use (\<^verbatim>\<open>hal/src/software/accelerators/acc_common.c\<close>). The engine is reached
  through the vendor's \<^verbatim>\<open>XAxiCdma\<close> library, which is a parameter: a record of its functions on the
  engine's state and the memory. What the driver relies on is \<open>cdma_ok\<close>, the documented behaviour of
  a simple transfer: it is accepted when the engine is idle, and when the engine is no longer
  busy the words have been copied. A loop that polls for ever has the value \<open>None\<close>.
  Addresses are those of words and lengths are in bytes, as in the calls.
\<close>

section \<open>The library and the driver\<close>

type_synonym 'd dma_state = "'d \<times> words"

record 'd XAxiCdma =
  XAxiCdma_CfgInitialize :: "'d dma_state \<Rightarrow> Hint \<times> 'd dma_state"
  XAxiCdma_IntrDisable :: "'d dma_state \<Rightarrow> 'd dma_state"
  XAxiCdma_Reset :: "'d dma_state \<Rightarrow> 'd dma_state"
  XAxiCdma_ResetIsDone :: "'d dma_state \<Rightarrow> bool \<times> 'd dma_state"
  XAxiCdma_IsBusy :: "'d dma_state \<Rightarrow> bool \<times> 'd dma_state"
  XAxiCdma_GetError :: "'d dma_state \<Rightarrow> Hint"
  XAxiCdma_SimpleTransfer :: "nat \<Rightarrow> nat \<Rightarrow> Hint \<Rightarrow> 'd dma_state \<Rightarrow> Hint \<times> 'd dma_state"

text \<open>A loop with an empty body: it ends at the first poll that answers \<open>False\<close>.\<close>

partial_function (option) spin :: "('s \<Rightarrow> bool \<times> 's) \<Rightarrow> 's \<Rightarrow> 's option" where
  "spin poll s = (case poll s of (b, s') \<Rightarrow> if b then spin poll s' else Some s')"

definition dma_create :: "'d XAxiCdma \<Rightarrow> 'd dma_state \<Rightarrow> Hint \<times> 'd dma_state" where
  "dma_create D s =
     (case XAxiCdma_CfgInitialize D s of
        (status, s) \<Rightarrow> if status \<noteq> 0 then (FAILURE, s) else (SUCCESS, XAxiCdma_IntrDisable D s))"

definition dma_reset :: "'d XAxiCdma \<Rightarrow> 'd dma_state \<Rightarrow> 'd dma_state option" where
  "dma_reset D s = spin (\<lambda>s. case XAxiCdma_ResetIsDone D s of (b, s) \<Rightarrow> (\<not> b, s)) (XAxiCdma_Reset D s)"

definition dma_getbusy :: "'d XAxiCdma \<Rightarrow> 'd dma_state \<Rightarrow> bool \<times> 'd dma_state" where
  "dma_getbusy D s = XAxiCdma_IsBusy D s"

definition dma_geterror :: "'d XAxiCdma \<Rightarrow> 'd dma_state \<Rightarrow> Hint" where
  "dma_geterror D s = XAxiCdma_GetError D s"

definition dma_getdone :: "'d XAxiCdma \<Rightarrow> 'd dma_state \<Rightarrow> bool \<times> 'd dma_state" where
  "dma_getdone D s = XAxiCdma_IsBusy D s"

definition dma_transfer ::
  "'d XAxiCdma \<Rightarrow> nat \<Rightarrow> nat \<Rightarrow> Hint \<Rightarrow> 'd dma_state \<Rightarrow> (Hint \<times> 'd dma_state) option" where
  "dma_transfer D SrcAddr DstAddr byte_Length s =
     do { s \<leftarrow> spin (dma_getbusy D) s;
          (case XAxiCdma_SimpleTransfer D SrcAddr DstAddr byte_Length s of
             (status, s) \<Rightarrow>
               if status \<noteq> SUCCESS then
                 do { s \<leftarrow> (if dma_geterror D s \<noteq> SUCCESS then dma_reset D s else Some s);
                      Some (FAILURE, s) }
               else Some (SUCCESS, s)) }"

definition transfer_dma ::
  "'d XAxiCdma \<Rightarrow> nat \<Rightarrow> nat \<Rightarrow> Hint \<Rightarrow> 'd dma_state \<Rightarrow> (Hint \<times> 'd dma_state) option" where
  "transfer_dma D src des n s =
     (case dma_create D s of
        (status, s) \<Rightarrow>
          if status \<noteq> SUCCESS then Some (FAILURE, s)
          else do { s \<leftarrow> dma_reset D s;
                    (status, s) \<leftarrow> dma_transfer D src des n s;
                    if status \<noteq> SUCCESS then Some (FAILURE, s)
                    else do { s \<leftarrow> spin (dma_getbusy D) s; Some (dma_geterror D s, s) } })"

section \<open>What the library promises\<close>

text \<open>\<open>settles poll s s'\<close>: polling from \<open>s\<close> on ends, and \<open>s'\<close> is the state then.\<close>

inductive settles :: "('s \<Rightarrow> bool \<times> 's) \<Rightarrow> 's \<Rightarrow> 's \<Rightarrow> bool" for poll where
  stop: "poll s = (False, s') \<Longrightarrow> settles poll s s'"
| again: "poll s = (True, s1) \<Longrightarrow> settles poll s1 s' \<Longrightarrow> settles poll s s'"

lemma spin_settles: "settles poll s s' \<Longrightarrow> spin poll s = Some s'"
  by (induction rule: settles.induct) (subst spin.simps; simp)+

definition copied :: "nat \<Rightarrow> nat \<Rightarrow> nat \<Rightarrow> words \<Rightarrow> words" where
  "copied src des n m = (\<lambda>x. if des \<le> x \<and> x < des + n then m (src + (x - des)) else m x)"

definition cdma_ok :: "'d XAxiCdma \<Rightarrow> ('d \<Rightarrow> bool) \<Rightarrow> bool" where
  "cdma_ok D idle \<longleftrightarrow>
     (\<forall>d m. \<exists>d'. XAxiCdma_CfgInitialize D (d, m) = (0, d', m)) \<and>
     (\<forall>d m. \<exists>d'. XAxiCdma_IntrDisable D (d, m) = (d', m)) \<and>
     (\<forall>d m. \<exists>d'. idle d' \<and>
        settles (\<lambda>s. case XAxiCdma_ResetIsDone D s of (b, s) \<Rightarrow> (\<not> b, s)) (XAxiCdma_Reset D (d, m)) (d', m)) \<and>
     (\<forall>d m. idle d \<longrightarrow> XAxiCdma_IsBusy D (d, m) = (False, d, m)) \<and>
     (\<forall>d m src des n. idle d \<longrightarrow> 0 < n \<longrightarrow> n \<le> 4096 \<longrightarrow> src + n \<le> des \<or> des + n \<le> src \<longrightarrow>
        (\<exists>s d'. XAxiCdma_SimpleTransfer D src des (of_nat n * 4) (d, m) = (0, s) \<and>
           settles (XAxiCdma_IsBusy D) s (d', copied src des n m) \<and>
           XAxiCdma_GetError D (d', copied src des n m) = 0))"

lemma cdma_okD:
  assumes "cdma_ok D idle"
  shows cdma_init: "\<exists>d'. XAxiCdma_CfgInitialize D (d, m) = (0, d', m)"
    and cdma_intr: "\<exists>d'. XAxiCdma_IntrDisable D (d, m) = (d', m)"
    and cdma_reset: "\<exists>d'. idle d' \<and> dma_reset D (d, m) = Some (d', m)"
    and cdma_idle: "idle d \<Longrightarrow> spin (dma_getbusy D) (d, m) = Some (d, m)"
proof -
  show "\<exists>d'. XAxiCdma_CfgInitialize D (d, m) = (0, d', m)" "\<exists>d'. XAxiCdma_IntrDisable D (d, m) = (d', m)"
    using assms unfolding cdma_ok_def by simp_all
  obtain d' where "idle d'"
    "settles (\<lambda>s. case XAxiCdma_ResetIsDone D s of (b, s) \<Rightarrow> (\<not> b, s)) (XAxiCdma_Reset D (d, m)) (d', m)"
    using assms [unfolded cdma_ok_def, THEN conjunct2, THEN conjunct2, THEN conjunct1, rule_format, of d m] by (elim exE conjE)
  then show "\<exists>d'. idle d' \<and> dma_reset D (d, m) = Some (d', m)"
    unfolding dma_reset_def by (intro exI [of _ d'] conjI spin_settles)
  show "spin (dma_getbusy D) (d, m) = Some (d, m)" if "idle d"
    using assms [unfolded cdma_ok_def, THEN conjunct2, THEN conjunct2, THEN conjunct2, THEN conjunct1] that
    by (intro spin_settles settles.stop) (simp add: dma_getbusy_def)
qed

lemma cdma_copies:
  assumes "cdma_ok D idle" "idle d" "0 < n" "n \<le> 4096" "src + n \<le> des \<or> des + n \<le> src"
  shows "\<exists>s d'. XAxiCdma_SimpleTransfer D src des (of_nat n * 4) (d, m) = (0, s) \<and>
    spin (dma_getbusy D) s = Some (d', copied src des n m) \<and> dma_geterror D (d', copied src des n m) = 0"
proof -
  have g: "dma_getbusy D = XAxiCdma_IsBusy D" by (simp add: dma_getbusy_def fun_eq_iff)
  obtain s d' where s: "XAxiCdma_SimpleTransfer D src des (of_nat n * 4) (d, m) = (0, s)"
    "settles (XAxiCdma_IsBusy D) s (d', copied src des n m)" "XAxiCdma_GetError D (d', copied src des n m) = 0"
    using assms(1) [unfolded cdma_ok_def, THEN conjunct2, THEN conjunct2, THEN conjunct2, THEN conjunct2,
      rule_format, OF assms(2-5), of m] by (elim exE conjE)
  show ?thesis using s(1,3) spin_settles [OF s(2)]
    unfolding g dma_geterror_def by (intro exI [of _ s] exI [of _ d'] conjI)
qed

text \<open>Then a transfer copies, and reports no error.\<close>

lemma transfer_dma_copies:
  assumes "cdma_ok D idle" "0 < n" "n \<le> 4096" "src + n \<le> des \<or> des + n \<le> src"
  shows "\<exists>d'. transfer_dma D src des (of_nat n * 4) (d, m) = Some (SUCCESS, d', copied src des n m)"
proof -
  obtain d0 where i: "XAxiCdma_CfgInitialize D (d, m) = (0, d0, m)" using cdma_init [OF assms(1), of d m] by (elim exE)
  obtain d1 where r: "XAxiCdma_IntrDisable D (d0, m) = (d1, m)" using cdma_intr [OF assms(1), of d0 m] by (elim exE)
  obtain d2 where d2: "idle d2" "dma_reset D (d1, m) = Some (d2, m)" using cdma_reset [OF assms(1), of d1 m] by (elim exE conjE)
  obtain s d3 where t: "XAxiCdma_SimpleTransfer D src des (of_nat n * 4) (d2, m) = (0, s)"
    "spin (dma_getbusy D) s = Some (d3, copied src des n m)" "dma_geterror D (d3, copied src des n m) = 0"
    using cdma_copies [OF assms(1) d2(1) assms(2-4), of m] by (elim exE conjE)
  show ?thesis
    using i r d2(2) cdma_idle [OF assms(1) d2(1)] t
    by (simp add: transfer_dma_def dma_create_def dma_transfer_def SUCCESS_def)
qed

text \<open>An engine that does not initialise, or does not accept the transfer, is reported.\<close>

lemma transfer_dma_reports:
  assumes "XAxiCdma_CfgInitialize D s = (e, s')" "e \<noteq> 0"
  shows "transfer_dma D src des n s = Some (FAILURE, s')"
  using assms by (simp add: transfer_dma_def dma_create_def SUCCESS_def FAILURE_def)

section \<open>An engine\<close>

text \<open>
  The promises can be kept: an engine that holds at most one transfer and copies
  a word at every poll. Its state is the number of words to go, the source and the destination.
\<close>

definition copy_engine :: "(nat \<times> nat \<times> nat) XAxiCdma" where
  "copy_engine =
     \<lparr>XAxiCdma_CfgInitialize = \<lambda>s. (0, s),
      XAxiCdma_IntrDisable = \<lambda>s. s,
      XAxiCdma_Reset = \<lambda>(d, m). ((0, 0, 0), m),
      XAxiCdma_ResetIsDone = \<lambda>s. (True, s),
      XAxiCdma_IsBusy = \<lambda>((r, s, t), m).
        (case r of 0 \<Rightarrow> (False, (0, s, t), m) | Suc r \<Rightarrow> (True, (r, s + 1, t + 1), m(t := m s))),
      XAxiCdma_GetError = \<lambda>s. 0,
      XAxiCdma_SimpleTransfer = \<lambda>s t n (d, m).
        (if fst d = 0 then (0, ((unat n div 4, s, t), m)) else (1, (d, m)))\<rparr>"

lemma copied_step:
  "src + Suc n \<le> des \<or> des + Suc n \<le> src \<Longrightarrow>
    copied (Suc src) (Suc des) n (m(des := m src)) = copied src des (Suc n) m"
  by (rule ext) (auto simp: copied_def Suc_diff_Suc dest!: not_less_eq_eq [THEN iffD1])

lemma copy_engine_settles:
  "src + n \<le> des \<or> des + n \<le> src \<Longrightarrow>
    settles (XAxiCdma_IsBusy copy_engine) ((n, src, des), m) ((0, src + n, des + n), copied src des n m)"
proof (induction n arbitrary: src des m)
  case 0
  then show ?case by (auto simp: copy_engine_def copied_def intro!: settles.stop ext)
next
  case (Suc n)
  then have "settles (XAxiCdma_IsBusy copy_engine) ((n, Suc src, Suc des), m(des := m src))
      ((0, Suc src + n, Suc des + n), copied (Suc src) (Suc des) n (m(des := m src)))"
    by (intro Suc.IH) linarith
  then have rest: "settles (XAxiCdma_IsBusy copy_engine) ((n, Suc src, Suc des), m(des := m src))
      ((0, src + Suc n, des + Suc n), copied src des (Suc n) m)"
    unfolding copied_step [OF Suc.prems] by simp
  show ?case by (rule settles.again [OF _ rest]) (simp add: copy_engine_def)
qed

lemma copy_engine_ok: "cdma_ok copy_engine (\<lambda>d. fst d = 0)"
proof -
  let ?D = copy_engine
  have "\<exists>s d'. XAxiCdma_SimpleTransfer ?D src des (of_nat n * 4) (d, m) = (0, s) \<and>
      settles (XAxiCdma_IsBusy ?D) s (d', copied src des n m) \<and> XAxiCdma_GetError ?D (d', copied src des n m) = 0"
    if "fst d = 0" "n \<le> 4096" "src + n \<le> des \<or> des + n \<le> src" for d :: "nat \<times> nat \<times> nat" and m src des n
  proof -
    have "unat (of_nat n * 4 :: Hint) div 4 = n" using that(2) by (simp add: unat_word_ariths unat_of_nat)
    then show ?thesis using that copy_engine_settles [OF that(3), of m]
      by (intro exI [of _ "((n, src, des), m)"] exI [of _ "(0, src + n, des + n)"]) (simp add: copy_engine_def)
  qed
  moreover have r: "settles (\<lambda>s. case XAxiCdma_ResetIsDone ?D s of (b, s) \<Rightarrow> (\<not> b, s)) (XAxiCdma_Reset ?D (d, m))
      ((0, 0, 0), m)" for d m by (auto simp: copy_engine_def intro!: settles.stop)
  have "\<exists>d'. fst d' = 0 \<and> settles (\<lambda>s. case XAxiCdma_ResetIsDone ?D s of (b, s) \<Rightarrow> (\<not> b, s))
      (XAxiCdma_Reset ?D (d, m)) (d', m)" for d m
    by (intro exI [of _ "(0, 0, 0)"] conjI r) (rule fst_conv)
  moreover have "\<exists>d'. XAxiCdma_CfgInitialize ?D (d, m) = (0, d', m)" "\<exists>d'. XAxiCdma_IntrDisable ?D (d, m) = (d', m)"
    "fst d = 0 \<Longrightarrow> XAxiCdma_IsBusy ?D (d, m) = (False, d, m)" for d m by (cases d; simp add: copy_engine_def)+
  ultimately show ?thesis unfolding cdma_ok_def by (intro conjI allI impI)
qed

end
