(* ===== verification/Accel_Cores.thy ===== *)
theory Accel_Cores
  imports Accel_Math Accel_Sort "HOL-Library.Signed_Division"
begin

text \<open>
  The accelerators themselves, C functions that a synthesis tool turns into hardware
  (\<^verbatim>\<open>src/hardware/MyRepository/pcores/vivado_cores/hls_cores\<close>: \<^verbatim>\<open>crc_top.c\<close>, \<^verbatim>\<open>vectoradd_top.c\<close>,
  \<^verbatim>\<open>vectormul_top.c\<close>, \<^verbatim>\<open>bubblesort_top.c\<close>, \<^verbatim>\<open>Matrix_Multiply_Vivado_Multiplication.cpp\<close>), and that each
  computes what the software version computes. A core loops for ever: it reads its parameters from
  a stream of commands, works on three block memories of 4096 words and writes a 1 to a stream of
  responses when it is done. A definition below is one turn of that loop; its result has the
  responses and the memory. The block memories start at the word addresses \<open>a\<close>, \<open>b\<close> and \<open>c\<close>.
  Sums and products wrap around, as they do in hardware; an access outside of a block
  memory and a division by zero give \<open>None\<close>.
\<close>

section \<open>The cores\<close>

text \<open>The loop that \<^verbatim>\<open>crc\<close>, \<^verbatim>\<open>vectoradd\<close> and \<^verbatim>\<open>vectormul\<close> share: \<open>f i m\<close> is the new value of element \<open>i\<close>.\<close>

primrec core_loop ::
  "nat \<Rightarrow> (nat \<Rightarrow> words \<Rightarrow> Huint option) \<Rightarrow> nat \<Rightarrow> int \<Rightarrow> int \<Rightarrow> words \<Rightarrow> (Huint list \<times> words) option" where
  "core_loop 0 f c i e m = Some ([], m)"
| "core_loop (Suc n) f c i e m =
     (if 0 \<le> i \<and> i < 4096 then
        do { v \<leftarrow> f (nat i) m;
             (rs, m') \<leftarrow> core_loop n f c (i + 1) e (m(c + nat i := v));
             Some ((if i = e - 1 then [1] else []) @ rs, m') }
      else None)"

definition core_for ::
  "(nat \<Rightarrow> words \<Rightarrow> Huint option) \<Rightarrow> nat \<Rightarrow> Hint \<Rightarrow> Hint \<Rightarrow> words \<Rightarrow> (Huint list \<times> words) option" where
  "core_for f c start e m = core_loop (nat (sint e - sint start)) f c (sint start) (sint e) m"

definition crc_core :: "nat \<Rightarrow> Hint \<Rightarrow> Hint \<Rightarrow> words \<Rightarrow> (Huint list \<times> words) option" where
  "crc_core c e start m = core_for (\<lambda>i m. Some (gen_crc (m (c + i)))) c start e m"

definition vectoradd_core :: "nat \<Rightarrow> nat \<Rightarrow> nat \<Rightarrow> Hint \<Rightarrow> Hint \<Rightarrow> Hint \<Rightarrow> words \<Rightarrow> (Huint list \<times> words) option" where
  "vectoradd_core a b c opc e start m =
     (if opc = 1 then core_for (\<lambda>i m. Some (m (a + i) + m (b + i))) c start e m
      else if opc = 2 then core_for (\<lambda>i m. Some (m (a + i) - m (b + i))) c start e m
      else Some ([], m))"

definition quotient :: "Huint \<Rightarrow> Huint \<Rightarrow> Huint" where
  "quotient x y = of_int (sint x sdiv sint y)"

definition vectormul_core :: "nat \<Rightarrow> nat \<Rightarrow> nat \<Rightarrow> Hint \<Rightarrow> Hint \<Rightarrow> Hint \<Rightarrow> words \<Rightarrow> (Huint list \<times> words) option" where
  "vectormul_core a b c opc e start m =
     (if opc = 1 then core_for (\<lambda>i m. Some (m (a + i) * m (b + i))) c start e m
      else if opc = 2 then
        core_for (\<lambda>i m. if m (b + i) = 0 then None else Some (quotient (m (a + i)) (m (b + i)))) c start e m
      else Some ([], m))"

text \<open>
  \<^verbatim>\<open>sw_bubblesort\<close> of \<^verbatim>\<open>bubblesort_top.c\<close>: a pass over a block memory is that of the software version;
  after it \<^verbatim>\<open>bound\<close> is one less than where the pass ended.
\<close>

primrec core_passes :: "nat \<Rightarrow> int \<Rightarrow> int \<Rightarrow> Hint list \<Rightarrow> Hint list option" where
  "core_passes 0 start bound xs = Some xs"
| "core_passes (Suc n) start bound xs =
     do { xs \<leftarrow> (if bound \<le> start then Some xs
                else if 0 \<le> start then bubble_pass (nat (bound - start)) (nat start) xs else None);
          core_passes n start (max bound start - 1) xs }"

definition bubblesort_core :: "Hint \<Rightarrow> Hint \<Rightarrow> Hint list \<Rightarrow> (Huint list \<times> Hint list) option" where
  "bubblesort_core e start xs =
     do { xs \<leftarrow> core_passes (nat (sint e - sint start)) (sint start) (sint e) xs; Some ([1], xs) }"

text \<open>The three loops of \<^verbatim>\<open>matrix_mul\<close>.\<close>

primrec core_dot :: "nat \<Rightarrow> nat \<Rightarrow> nat \<Rightarrow> nat \<Rightarrow> nat \<Rightarrow> nat \<Rightarrow> nat \<Rightarrow> nat \<Rightarrow> Huint \<Rightarrow> words \<Rightarrow> Huint option" where
  "core_dot 0 a b common cols i j k temp m = Some temp"
| "core_dot (Suc r) a b common cols i j k temp m =
     (if i * common + k < 4096 \<and> k * cols + j < 4096
      then core_dot r a b common cols i j (k + 1)
             (temp + m (a + (i * common + k)) * m (b + (k * cols + j))) m
      else None)"

primrec core_cols ::
  "nat \<Rightarrow> nat \<Rightarrow> nat \<Rightarrow> nat \<Rightarrow> nat \<Rightarrow> nat \<Rightarrow> nat \<Rightarrow> nat \<Rightarrow> nat \<Rightarrow> words \<Rightarrow> (Huint list \<times> words) option" where
  "core_cols 0 a b c rows common cols i j m = Some ([], m)"
| "core_cols (Suc r) a b c rows common cols i j m =
     do { temp \<leftarrow> core_dot common a b common cols i j 0 0 m;
          (if common = 0 then core_cols r a b c rows common cols i (j + 1) m
           else if i * cols + j < 4096 then
             do { (rs, m') \<leftarrow> core_cols r a b c rows common cols i (j + 1) (m(c + (i * cols + j) := temp));
                  Some ((if i + 1 = rows \<and> j + 1 = cols then [1] else []) @ rs, m') }
           else None) }"

primrec core_rows ::
  "nat \<Rightarrow> nat \<Rightarrow> nat \<Rightarrow> nat \<Rightarrow> nat \<Rightarrow> nat \<Rightarrow> nat \<Rightarrow> nat \<Rightarrow> words \<Rightarrow> (Huint list \<times> words) option" where
  "core_rows 0 a b c rows common cols i m = Some ([], m)"
| "core_rows (Suc r) a b c rows common cols i m =
     do { (rs, m) \<leftarrow> core_cols cols a b c rows common cols i 0 m;
          (rs', m) \<leftarrow> core_rows r a b c rows common cols (i + 1) m;
          Some (rs @ rs', m) }"

definition matrix_core :: "nat \<Rightarrow> nat \<Rightarrow> nat \<Rightarrow> Hint \<Rightarrow> Hint \<Rightarrow> Hint \<Rightarrow> words \<Rightarrow> (Huint list \<times> words) option" where
  "matrix_core a b c A_rows B_cols AB_common m =
     (let rows = nat (sint A_rows); cols = nat (sint B_cols); common = nat (sint AB_common) in
      core_rows rows a b c rows common cols 0 m)"

section \<open>Element by element\<close>

text \<open>An element depends on the memory only at its own index.\<close>

definition local_at :: "(nat \<Rightarrow> words \<Rightarrow> Huint option) \<Rightarrow> nat \<Rightarrow> nat \<Rightarrow> bool" where
  "local_at f c n \<longleftrightarrow> (\<forall>i j m v. i < n \<longrightarrow> j < i \<longrightarrow> f i (m(c + j := v)) = f i m)"

lemma core_loop_spec:
  assumes "i + n \<le> 4096" "\<And>k. i \<le> k \<Longrightarrow> k < i + n \<Longrightarrow> f k m = Some (g k)" "local_at f c (i + n)"
  shows "core_loop n f c (int i) (int (i + n)) m =
    Some (if n = 0 then [] else [1], \<lambda>x. if c + i \<le> x \<and> x < c + i + n then g (x - c) else m x)"
  using assms
proof (induction n arbitrary: i m)
  case 0
  then show ?case by (auto simp: fun_eq_iff)
next
  case (Suc n)
  let ?m = "m(c + i := g i)"
  have "f k ?m = Some (g k)" if "Suc i \<le> k" "k < Suc i + n" for k
    using Suc.prems(2) [of k] Suc.prems(3) that by (simp add: local_at_def)
  moreover have "local_at f c (Suc i + n)" using Suc.prems(3) by simp
  ultimately have "core_loop n f c (int (Suc i)) (int (Suc i + n)) ?m =
      Some (if n = 0 then [] else [1], \<lambda>x. if c + Suc i \<le> x \<and> x < c + Suc i + n then g (x - c) else ?m x)"
    using Suc.prems(1) by (intro Suc.IH [of "Suc i" ?m]) (simp_all del: fun_upd_apply)
  moreover have "(\<lambda>x. if c + Suc i \<le> x \<and> x < c + Suc i + n then g (x - c) else ?m x) =
      (\<lambda>x. if c + i \<le> x \<and> x < c + i + Suc n then g (x - c) else m x)" by (auto simp: fun_eq_iff)
  ultimately show ?case using Suc.prems(1,2) by (simp add: add.commute)
qed

lemma core_for_spec:
  assumes "unat sz \<le> 4096" "\<And>k. k < unat sz \<Longrightarrow> f k m = Some (g k)" "local_at f c (unat sz)"
  shows "core_for f c 0 sz m =
    Some (if sz = 0 then [] else [1], \<lambda>x. if c \<le> x \<and> x < c + unat sz then g (x - c) else m x)"
proof -
  have "sint sz = int (unat sz)" using assms(1) sint_of_nat_small [of "unat sz"] by simp
  then show ?thesis
    using core_loop_spec [of 0 "unat sz" f m g c] assms by (simp add: core_for_def unat_eq_0)
qed

text \<open>The checksum core computes what \<^verbatim>\<open>sw_crc\<close> computes.\<close>

lemma crc_core_is_software:
  assumes "unat sz \<le> 4096"
  shows "crc_core c sz 0 m = Some (if sz = 0 then [] else [1], snd (sw_crc c sz m))"
proof -
  have "crc_core c sz 0 m =
      Some (if sz = 0 then [] else [1], \<lambda>x. if c \<le> x \<and> x < c + unat sz then gen_crc (m (c + (x - c))) else m x)"
    unfolding crc_core_def using assms by (intro core_for_spec) (simp_all add: local_at_def)
  then show ?thesis by (auto simp: sw_crc_def poly_crc_def crc_array_maps fun_eq_iff)
qed

section \<open>Sorting\<close>

lemma core_passes_same:
  "c + n < unat sz \<Longrightarrow> core_passes n 0 (int (unat sz) - 1 - int c) xs = bubble_passes n sz (of_nat c) xs"
proof (induction n arbitrary: c xs)
  case (Suc n)
  let ?b = "int (unat sz) - 1 - int c"
  have "c < 2 ^ 32" using Suc.prems unat_bound [of sz] by simp
  then have c: "unat (of_nat c :: Huint) = c" by (simp add: unat_of_nat)
  then have "unat (sz - of_nat c) = unat sz - c" using Suc.prems by (simp add: unat_sub word_le_nat_alt)
  then have "unat (sz - of_nat c - 1) = unat sz - c - 1"
    using Suc.prems unat_sub [of 1 "sz - of_nat c"] by (simp add: word_le_nat_alt)
  then have u: "unat (sz - of_nat c - 1) = nat ?b" by linarith
  have pos: "\<not> ?b \<le> 0" using Suc.prems by linarith
  have m: "max ?b 0 - 1 = int (unat sz) - 1 - int (Suc c)"
    unfolding max_absorb1 [OF less_imp_le [OF pos [unfolded not_le]]] by linarith
  have "core_passes n 0 (max ?b 0 - 1) ys = bubble_passes n sz (of_nat (Suc c)) ys" for ys
    unfolding m using Suc.prems by (intro Suc.IH) linarith
  then have step: "core_passes n 0 (max ?b 0 - 1) = bubble_passes n sz (of_nat c + 1)"
    by (auto simp: fun_eq_iff add.commute)
  show ?case unfolding core_passes.simps bubble_passes.simps step using u pos by simp
qed simp

text \<open>The sorting core, told to sort the elements 0 to \<open>sz - 1\<close>, does what \<^verbatim>\<open>sw_bubblesort\<close> does.\<close>

lemma bubblesort_core_is_software:
  assumes "0 < unat sz" "unat sz \<le> 4096"
  shows "bubblesort_core (sz - 1) 0 xs = map_option (\<lambda>r. ([1], snd r)) (sw_bubblesort xs sz)"
proof -
  have u: "unat (sz - 1) = unat sz - 1" using assms unat_sub [of 1 sz] by (simp add: word_le_nat_alt)
  then have e: "sint (sz - 1) = int (unat sz) - 1"
    using sint_of_nat_small [of "unat (sz - 1)"] assms by (simp add: of_nat_diff)
  then have n: "nat (sint (sz - 1) - sint (0 :: Hint)) = unat (sz - 1)" unfolding e u sint_0 by linarith
  have "core_passes (unat (sz - 1)) 0 (sint (sz - 1)) xs = bubble_passes (unat (sz - 1)) sz 0 xs"
    using core_passes_same [of 0 "unat (sz - 1)" sz xs] u assms(1) e by simp
  then show ?thesis using n
    by (simp add: bubblesort_core_def sw_bubblesort_def poly_bubblesort_def)
      (cases "bubble_passes (unat (sz - 1)) sz 0 xs"; simp)
qed

section \<open>Matrices\<close>

lemma core_dot_spec:
  assumes "k + r = n" "i < n" "j < p" "n * n \<le> 4096" "n * p \<le> 4096"
  shows "core_dot r a b n p i j k temp m = Some (temp + (\<Sum>t\<in>{k..<n}. m (a + (i * n + t)) * m (b + (t * p + j))))"
  using assms(1)
proof (induction r arbitrary: k temp)
  case (Suc r)
  then have k: "k < n" "Suc k + r = n" by simp_all
  have "i * n + k < n * n" "k * p + j < n * p" using k assms(2,3) by (auto intro: index_bound)
  moreover have "{k..<n} = insert k {Suc k..<n}" using k(1) by auto
  ultimately show ?case using Suc.IH [OF k(2)] assms(4,5) by (simp add: add.assoc)
qed simp

lemma core_cols_spec:
  assumes "matrices_apart a b c n p" "i < n" "j + r = p" "n * n \<le> 4096" "n * p \<le> 4096"
  shows "core_cols r a b c n n p i j (filled a b c n p m (i * p + j)) =
    Some (if i + 1 = n \<and> 0 < r then [1] else [], filled a b c n p m (i * p + p))"
  using assms(3)
proof (induction r arbitrary: j)
  case (Suc r)
  then have j: "j < p" "Suc j + r = p" by simp_all
  let ?M = "filled a b c n p m"
  have b: "i * p + j < n * p" using assms(2) j(1) by (rule index_bound)
  have e: "core_dot n a b n p i j 0 0 (?M (i * p + j)) = Some (matrix_entry a b n p m i j)"
    using core_dot_spec [of 0 n n i j p a b 0 "?M (i * p + j)"] assms j(1)
      filled_entry_same [OF assms(1) _ assms(2) j(1), of "i * p + j" m] b
    by (simp add: matrix_entry_def atLeast0LessThan)
  have "(i * p + j) div p = i" "(i * p + j) mod p = j" using j(1) by simp_all
  then have step: "(?M (i * p + j))(c + (i * p + j) := matrix_entry a b n p m i j) = ?M (i * p + Suc j)"
    by (auto simp: filled_def fun_eq_iff)
  show ?case using e step Suc.IH [OF j(2)] assms b j by (auto simp del: fun_upd_apply)
qed simp

lemma core_rows_spec:
  assumes "matrices_apart a b c n p" "i + r = n" "n * n \<le> 4096" "n * p \<le> 4096" "0 < p"
  shows "core_rows r a b c n n p i (filled a b c n p m (i * p)) =
    Some (if 0 < r then [1] else [], filled a b c n p m (n * p))"
  using assms(2)
proof (induction r arbitrary: i)
  case (Suc r)
  then have i: "i < n" "Suc i + r = n" by simp_all
  have "core_cols p a b c n n p i 0 (filled a b c n p m (i * p)) =
      Some (if i + 1 = n then [1] else [], filled a b c n p m (Suc i * p))"
    using core_cols_spec [OF assms(1) i(1) _ assms(3,4), of 0 p m] assms(5) by (simp add: add.commute)
  moreover have "core_rows r a b c n n p (Suc i) (filled a b c n p m (Suc i * p)) =
      Some (if 0 < r then [1] else [], filled a b c n p m (n * p))" using Suc.IH [OF i(2)] .
  ultimately show ?case using i by (auto simp del: mult_Suc)
qed simp

text \<open>The matrix core computes what \<^verbatim>\<open>sw_matrix_multiply\<close> computes.\<close>

lemma matrix_core_fills:
  assumes "matrices_apart a b c n p" "0 < n" "0 < p" "n * n \<le> 4096" "n * p \<le> 4096" "n < 128" "p < 128"
  shows "matrix_core a b c (of_nat n) (of_nat p) (of_nat n) m = Some ([1], filled a b c n p m (n * p))"
    and "sw_matrix_multiply sg a b c (of_nat n) (of_nat n) (of_nat p) m = Some (SUCCESS, filled a b c n p m (n * p))"
proof -
  have z: "filled a b c n p m 0 = m" by (auto simp: filled_def fun_eq_iff)
  have "nat (sint (of_nat n :: Hint)) = n" "nat (sint (of_nat p :: Hint)) = p"
    using assms(6,7) by (simp_all add: sint_of_nat_small)
  then show "matrix_core a b c (of_nat n) (of_nat p) (of_nat n) m = Some ([1], filled a b c n p m (n * p))"
    using core_rows_spec [OF assms(1) _ assms(4,5,3), of 0 n m] assms(2) z by (simp add: matrix_core_def)
  show "sw_matrix_multiply sg a b c (of_nat n) (of_nat n) (of_nat p) m = Some (SUCCESS, filled a b c n p m (n * p))"
    using matrix_rows_spec [OF assms(1,6,7), of 0 sg m] z by (simp add: sw_matrix_multiply_def)
qed

end
