(* ===== verification/Polymorphic.thy ===== *)
theory Polymorphic
  imports Slave_Laws Dma Accel_Cores
begin

text \<open>
  The polymorphic functions of a slave (\<^verbatim>\<open>crc_mblaze.c\<close>, \<^verbatim>\<open>sort_mblaze.c\<close>, \<^verbatim>\<open>vector_mblaze.c\<close>,
  \<^verbatim>\<open>matrix_mblaze.c\<close> of \<^verbatim>\<open>hal/src/software/accelerators\<close>): each copies its operands to the block
  memories, computes there with the accelerator or in software, as \<^verbatim>\<open>poly_init\<close> decides, and
  copies the result back. They are put together from the choice (theory \<open>Slave\<close>), the transfers
  (\<open>Dma\<close>), the cores (\<open>Accel_Cores\<close>) and the software versions (\<open>Accel_Math\<close>, \<open>Accel_Sort\<close>).

  The state is that of the machine and that of the transfer engine with the memory of the slave,
  by word addresses. A read from a core that has sent nothing blocks, which is \<open>None\<close>. The two readings
  of the timer around the software version are a parameter.
\<close>

section \<open>The operations\<close>

record 'd poly_env =
  on_slave :: slave_env
  cdma :: "'d XAxiCdma"
  readings :: "kernel \<Rightarrow> 64 word \<times> 64 word"
  signed_char :: bool

definition ACC_BRAMA :: nat where "ACC_BRAMA = 0xE0000000 div 4"

definition ACC_BRAMB :: nat where "ACC_BRAMB = 0xE0010000 div 4"

definition ACC_BRAMC :: nat where "ACC_BRAMC = 0xE0020000 div 4"

definition CRC :: Hint where "CRC = 0"

definition BUBBLESORT :: Hint where "BUBBLESORT = 1"

definition VECTORADD :: Hint where "VECTORADD = 2"

definition VECTORMUL :: Hint where "VECTORMUL = 3"


text \<open>\<^verbatim>\<open>if (transfer_dma(...)) return FAILURE;\<close> and the rest of the function.\<close>

definition transferred ::
  "'d poly_env \<Rightarrow> nat \<Rightarrow> nat \<Rightarrow> Hint \<Rightarrow> kernel \<Rightarrow> 'd dma_state \<Rightarrow>
   ('d dma_state \<Rightarrow> (Hint \<times> kernel \<times> 'd dma_state) option) \<Rightarrow> (Hint \<times> kernel \<times> 'd dma_state) option" where
  "transferred P src des n k s rest =
     (case transfer_dma (cdma P) src des n s of
        None \<Rightarrow> None
      | Some (e, s) \<Rightarrow> if e \<noteq> 0 then Some (FAILURE, k, s) else rest s)"

definition write_back ::
  "'d poly_env \<Rightarrow> nat \<Rightarrow> Hint \<Rightarrow> Hint \<Rightarrow> kernel \<Rightarrow> 'd dma_state \<Rightarrow> (Hint \<times> kernel \<times> 'd dma_state) option" where
  "write_back P des n result k s = transferred P ACC_BRAMC des n k s (\<lambda>s. Some (result, k, s))"

text \<open>\<^verbatim>\<open>getfslx\<close>: the first response of the core.\<close>

definition getfslx :: "(Huint list \<times> words) option \<Rightarrow> (Huint \<times> words) option" where
  "getfslx r = (case r of Some (e # es, m) \<Rightarrow> Some (e, m) | _ \<Rightarrow> None)"

text \<open>The time that the software version took, added to the counter behind the interface.\<close>

definition add_sw_time :: "'d poly_env \<Rightarrow> kernel \<Rightarrow> kernel" where
  "add_sw_time P k =
     (let a = vhwti_base (on_slave P) + 0x100 in
      case readings P k of
        (start, stop) \<Rightarrow> store64 (senv (on_slave P)) a (load64 a k + (stop - start)) k)"

definition slave_poly_crc ::
  "'d poly_env \<Rightarrow> nat \<Rightarrow> Huint \<Rightarrow> kernel \<Rightarrow> 'd dma_state \<Rightarrow> (Hint \<times> kernel \<times> 'd dma_state) option" where
  "slave_poly_crc P list_ptr sz k s =
     (case poly_init (on_slave P) CRC sz k of
        None \<Rightarrow> None
      | Some (use_accelerator, k) \<Rightarrow>
          transferred P list_ptr ACC_BRAMC (sz * 4) k s (\<lambda>(d, m).
            if use_accelerator then
              (case getfslx (crc_core ACC_BRAMC sz 0 m) of
                 None \<Rightarrow> None
               | Some (e, m) \<Rightarrow>
                   if e \<noteq> 1 then Some (FAILURE, k, d, m) else write_back P list_ptr (sz * 4) SUCCESS k (d, m))
            else
              (case sw_crc ACC_BRAMC sz m of
                 (result, m) \<Rightarrow> write_back P list_ptr (sz * 4) result (add_sw_time P k) (d, m))))"

text \<open>A block memory as an array.\<close>

definition block :: "nat \<Rightarrow> words \<Rightarrow> Huint list" where
  "block c m = map (\<lambda>i. m (c + i)) [0..<4096]"

definition put_block :: "nat \<Rightarrow> Huint list \<Rightarrow> words \<Rightarrow> words" where
  "put_block c xs m = (\<lambda>x. if c \<le> x \<and> x < c + length xs then xs ! (x - c) else m x)"

definition slave_poly_bubblesort ::
  "'d poly_env \<Rightarrow> nat \<Rightarrow> Huint \<Rightarrow> kernel \<Rightarrow> 'd dma_state \<Rightarrow> (Hint \<times> kernel \<times> 'd dma_state) option" where
  "slave_poly_bubblesort P list_ptr sz k s =
     (case poly_init (on_slave P) BUBBLESORT sz k of
        None \<Rightarrow> None
      | Some (use_accelerator, k) \<Rightarrow>
          transferred P list_ptr ACC_BRAMC (sz * 4) k s (\<lambda>(d, m).
            if use_accelerator then
              (case bubblesort_core (sz - 1) 0 (block ACC_BRAMC m) of
                 None \<Rightarrow> None
               | Some (_, xs) \<Rightarrow> write_back P list_ptr (sz * 4) SUCCESS k (d, put_block ACC_BRAMC xs m))
            else
              (case sw_bubblesort (block ACC_BRAMC m) sz of
                 None \<Rightarrow> None
               | Some (result, xs) \<Rightarrow>
                   write_back P list_ptr (sz * 4) result (add_sw_time P k) (d, put_block ACC_BRAMC xs m))))"

text \<open>
  The loops of \<^verbatim>\<open>poly_vector\<close> in software: which of them runs, as a function of the two operands and
  the old value, and the loop.
\<close>

definition vector_op :: "Hint \<Rightarrow> Huint \<Rightarrow> (Huint \<Rightarrow> Huint \<Rightarrow> Huint \<Rightarrow> Huint) option" where
  "vector_op acc op_code =
     (if acc = VECTORADD then
        (if op_code = 1 then Some (\<lambda>x y z. x + y) else if op_code = 2 then Some (\<lambda>x y z. x - y) else None)
      else if acc = VECTORMUL then
        (if op_code = 1 then Some (\<lambda>x y z. x * y)
         else if op_code = 2 then Some (\<lambda>x y z. if y \<noteq> 0 then quotient x y else z) else None)
      else None)"

primrec sw_vector :: "nat \<Rightarrow> (Huint \<Rightarrow> Huint \<Rightarrow> Huint \<Rightarrow> Huint) \<Rightarrow> nat \<Rightarrow> words \<Rightarrow> words" where
  "sw_vector 0 g e m = m"
| "sw_vector (Suc n) g e m =
     sw_vector n g (e + 1) (m(ACC_BRAMC + e := g (m (ACC_BRAMA + e)) (m (ACC_BRAMB + e)) (m (ACC_BRAMC + e))))"

definition vector_core :: "Hint \<Rightarrow> Huint \<Rightarrow> Huint \<Rightarrow> words \<Rightarrow> (Huint list \<times> words) option" where
  "vector_core acc op_code sz m =
     (if acc = VECTORADD then vectoradd_core ACC_BRAMA ACC_BRAMB ACC_BRAMC op_code sz 0 m
      else if acc = VECTORMUL then vectormul_core ACC_BRAMA ACC_BRAMB ACC_BRAMC op_code sz 0 m
      else None)"

definition slave_poly_vector ::
  "'d poly_env \<Rightarrow> nat \<Rightarrow> nat \<Rightarrow> nat \<Rightarrow> Huint \<Rightarrow> Huint \<Rightarrow> Hint \<Rightarrow> kernel \<Rightarrow> 'd dma_state \<Rightarrow>
   (Hint \<times> kernel \<times> 'd dma_state) option" where
  "slave_poly_vector P a_ptr b_ptr c_ptr sz op_code acc k s =
     (case poly_init (on_slave P) acc sz k of
        None \<Rightarrow> None
      | Some (use_accelerator, k) \<Rightarrow>
          transferred P a_ptr ACC_BRAMA (sz * 4) k s (\<lambda>s.
          transferred P b_ptr ACC_BRAMB (sz * 4) k s (\<lambda>(d, m).
            if use_accelerator then
              (case getfslx (vector_core acc op_code sz m) of
                 None \<Rightarrow> None
               | Some (e, m) \<Rightarrow> write_back P c_ptr (sz * 4) SUCCESS k (d, m))
            else
              write_back P c_ptr (sz * 4) SUCCESS (add_sw_time P k)
                (d, case vector_op acc op_code of None \<Rightarrow> m | Some g \<Rightarrow> sw_vector (unat sz) g 0 m))))"

definition slave_poly_vectoradd ::
  "'d poly_env \<Rightarrow> nat \<Rightarrow> nat \<Rightarrow> nat \<Rightarrow> Huint \<Rightarrow> kernel \<Rightarrow> 'd dma_state \<Rightarrow> (Hint \<times> kernel \<times> 'd dma_state) option" where
  "slave_poly_vectoradd P a_ptr b_ptr c_ptr sz = slave_poly_vector P a_ptr b_ptr c_ptr sz 1 VECTORADD"

definition slave_poly_vectorsub ::
  "'d poly_env \<Rightarrow> nat \<Rightarrow> nat \<Rightarrow> nat \<Rightarrow> Huint \<Rightarrow> kernel \<Rightarrow> 'd dma_state \<Rightarrow> (Hint \<times> kernel \<times> 'd dma_state) option" where
  "slave_poly_vectorsub P a_ptr b_ptr c_ptr sz = slave_poly_vector P a_ptr b_ptr c_ptr sz 2 VECTORADD"

definition slave_poly_vectormul ::
  "'d poly_env \<Rightarrow> nat \<Rightarrow> nat \<Rightarrow> nat \<Rightarrow> Huint \<Rightarrow> kernel \<Rightarrow> 'd dma_state \<Rightarrow> (Hint \<times> kernel \<times> 'd dma_state) option" where
  "slave_poly_vectormul P a_ptr b_ptr c_ptr sz = slave_poly_vector P a_ptr b_ptr c_ptr sz 1 VECTORMUL"

definition slave_poly_vectordiv ::
  "'d poly_env \<Rightarrow> nat \<Rightarrow> nat \<Rightarrow> nat \<Rightarrow> Huint \<Rightarrow> kernel \<Rightarrow> 'd dma_state \<Rightarrow> (Hint \<times> kernel \<times> 'd dma_state) option" where
  "slave_poly_vectordiv P a_ptr b_ptr c_ptr sz = slave_poly_vector P a_ptr b_ptr c_ptr sz 2 VECTORMUL"

definition slave_poly_matrix_mul ::
  "'d poly_env \<Rightarrow> nat \<Rightarrow> nat \<Rightarrow> nat \<Rightarrow> Huint \<Rightarrow> Huint \<Rightarrow> Huint \<Rightarrow> kernel \<Rightarrow> 'd dma_state \<Rightarrow>
   (Hint \<times> kernel \<times> 'd dma_state) option" where
  "slave_poly_matrix_mul P a_ptr b_ptr c_ptr a_rows a_cols b_cols k s =
     (case poly_init (on_slave P) MATRIXMUL (a_rows * b_cols) k of
        None \<Rightarrow> None
      | Some (use_accelerator, k) \<Rightarrow>
          transferred P a_ptr ACC_BRAMA (a_rows * a_cols * 4) k s (\<lambda>s.
          transferred P b_ptr ACC_BRAMB (a_cols * b_cols * 4) k s (\<lambda>(d, m).
            if use_accelerator then
              (case getfslx (matrix_core ACC_BRAMA ACC_BRAMB ACC_BRAMC a_rows b_cols a_cols m) of
                 None \<Rightarrow> None
               | Some (e, m) \<Rightarrow> write_back P c_ptr (a_rows * b_cols * 4) SUCCESS k (d, m))
            else
              (case sw_matrix_multiply (signed_char P) ACC_BRAMA ACC_BRAMB ACC_BRAMC a_rows a_cols b_cols m of
                 None \<Rightarrow> None
               | Some (result, m) \<Rightarrow> write_back P c_ptr (a_rows * b_cols * 4) result k (d, m)))))"

section \<open>Transfers\<close>

text \<open>A region of \<open>n\<close> words that a call is given lies below the block memories.\<close>

definition in_ram :: "nat \<Rightarrow> nat \<Rightarrow> bool" where
  "in_ram p n \<longleftrightarrow> p + n \<le> ACC_BRAMA"

lemmas brams = ACC_BRAMA_def ACC_BRAMB_def ACC_BRAMC_def in_ram_def

lemma bram_apart:
  assumes "in_ram p n" "n \<le> 4096"
  shows "p + n \<le> ACC_BRAMA" "p + n \<le> ACC_BRAMB" "p + n \<le> ACC_BRAMC"
    "ACC_BRAMA + 4096 \<le> ACC_BRAMB" "ACC_BRAMB + 4096 \<le> ACC_BRAMC"
  using assms by (simp_all add: brams)

lemma transferred_copies:
  assumes "cdma_ok (cdma P) idle" "0 < unat n" "unat n \<le> 4096" "src + unat n \<le> des \<or> des + unat n \<le> src"
  shows "\<exists>d'. \<forall>rest. transferred P src des (n * 4) k (d, m) rest = rest (d', copied src des (unat n) m)"
  using transfer_dma_copies [OF assms, of d m] by (auto simp: transferred_def SUCCESS_def)

lemma write_back_copies:
  assumes "cdma_ok (cdma P) idle" "0 < unat n" "unat n \<le> 4096" "in_ram des (unat n)"
  shows "\<exists>d'. write_back P des (n * 4) r k (d, m) = Some (r, k, d', copied ACC_BRAMC des (unat n) m)"
  using transferred_copies [OF assms(1-3), of ACC_BRAMC des k d m] bram_apart(3) [OF assms(4,3)]
  by (auto simp: write_back_def)

text \<open>A call succeeds, with the machine and the memory as stated.\<close>

definition call_returns ::
  "(Hint \<times> kernel \<times> 'd dma_state) option \<Rightarrow> kernel \<Rightarrow> words \<Rightarrow> bool" where
  "call_returns r k m \<longleftrightarrow> (\<exists>d. r = Some (SUCCESS, k, d, m))"

section \<open>Lists\<close>

lemma slave_poly_crc_result:
  assumes "cdma_ok (cdma P) idle" "0 < unat sz" "unat sz \<le> 4096" "in_ram l (unat sz)"
    "poly_init (on_slave P) CRC sz k = Some (use, k1)"
  shows "call_returns (slave_poly_crc P l sz k (d, m)) (if use then k1 else add_sw_time P k1)
    (copied ACC_BRAMC l (unat sz) (snd (sw_crc ACC_BRAMC sz (copied l ACC_BRAMC (unat sz) m))))"
proof -
  let ?M = "copied l ACC_BRAMC (unat sz) m"
  obtain d1 where t: "\<And>rest. transferred P l ACC_BRAMC (sz * 4) k1 (d, m) rest = rest (d1, ?M)"
    using transferred_copies [OF assms(1-3), of l ACC_BRAMC k1 d m] bram_apart(3) [OF assms(4,3)] by auto
  have f: "fst (sw_crc ACC_BRAMC sz ?M) = SUCCESS" by (simp add: sw_crc_def poly_crc_def)
  have c: "getfslx (crc_core ACC_BRAMC sz 0 ?M) = Some (1, snd (sw_crc ACC_BRAMC sz ?M))"
    using assms(2,3) by (auto simp: getfslx_def crc_core_is_software)
  show ?thesis
    using write_back_copies [OF assms(1-4), of SUCCESS k1 d1 "snd (sw_crc ACC_BRAMC sz ?M)"]
      write_back_copies [OF assms(1-4), of SUCCESS "add_sw_time P k1" d1 "snd (sw_crc ACC_BRAMC sz ?M)"] f
    by (cases use) (auto simp: slave_poly_crc_def assms(5) t c call_returns_def split: prod.splits)
qed

lemma slave_poly_bubblesort_result:
  assumes "cdma_ok (cdma P) idle" "0 < unat sz" "unat sz \<le> 4096" "in_ram l (unat sz)"
    "poly_init (on_slave P) BUBBLESORT sz k = Some (use, k1)"
    "sw_bubblesort (block ACC_BRAMC (copied l ACC_BRAMC (unat sz) m)) sz = Some (SUCCESS, ys)"
  shows "call_returns (slave_poly_bubblesort P l sz k (d, m)) (if use then k1 else add_sw_time P k1)
    (copied ACC_BRAMC l (unat sz) (put_block ACC_BRAMC ys (copied l ACC_BRAMC (unat sz) m)))"
proof -
  let ?M = "copied l ACC_BRAMC (unat sz) m"
  obtain d1 where t: "\<And>rest. transferred P l ACC_BRAMC (sz * 4) k1 (d, m) rest = rest (d1, ?M)"
    using transferred_copies [OF assms(1-3), of l ACC_BRAMC k1 d m] bram_apart(3) [OF assms(4,3)] by auto
  have c: "bubblesort_core (sz - 1) 0 (block ACC_BRAMC ?M) = Some ([1], ys)"
    using assms(2,3,6) by (simp add: bubblesort_core_is_software)
  show ?thesis
    using write_back_copies [OF assms(1-4), of SUCCESS k1 d1 "put_block ACC_BRAMC ys ?M"]
      write_back_copies [OF assms(1-4), of SUCCESS "add_sw_time P k1" d1 "put_block ACC_BRAMC ys ?M"]
    by (cases use) (auto simp: slave_poly_bubblesort_def assms(5,6) t c call_returns_def)
qed

definition elements :: "nat \<Rightarrow> nat \<Rightarrow> words \<Rightarrow> Huint list" where
  "elements p n m = map (\<lambda>i. m (p + i)) [0..<n]"

text \<open>Nothing has changed but the \<open>n\<close> words at \<open>p\<close> and the block memories.\<close>

definition only_result :: "nat \<Rightarrow> nat \<Rightarrow> words \<Rightarrow> words \<Rightarrow> bool" where
  "only_result p n m m' \<longleftrightarrow> (\<forall>x. x < ACC_BRAMA \<and> \<not> (p \<le> x \<and> x < p + n) \<longrightarrow> m' x = m x)"

lemma elements_copied_back: "elements p n (copied c p n m) = elements c n m"
  by (simp add: elements_def copied_def)

lemma crc_elements: "elements c (unat sz) (snd (sw_crc c sz m)) = map gen_crc (elements c (unat sz) m)"
  by (simp add: elements_def sw_crc_def poly_crc_def crc_array_maps)

lemma crc_outside: "x < c \<Longrightarrow> snd (sw_crc c sz m) x = m x"
  by (simp add: sw_crc_def poly_crc_def crc_array_maps)

lemma elements_block: "n \<le> 4096 \<Longrightarrow> take n (block c m) = elements c n m"
  by (simp add: block_def elements_def take_map)

lemma elements_put_block:
  assumes "n \<le> length xs"
  shows "elements c n (put_block c xs m) = take n xs"
  using assms by (auto simp: elements_def put_block_def intro!: nth_equalityI)

lemma bubblesort_block:
  assumes "0 < unat sz" "unat sz \<le> 4096"
  shows "\<exists>ys. sw_bubblesort (block c m) sz = Some (SUCCESS, ys) \<and> unat sz \<le> length ys \<and>
    mset (take (unat sz) ys) = mset (elements c (unat sz) m) \<and> sorted (map sint (take (unat sz) ys))"
proof -
  let ?n = "unat sz"
  have len: "length (block c m) = 4096" by (simp add: block_def)
  have "sz \<noteq> 0" using assms(1) by auto
  then obtain ys where ys: "poly_bubblesort (block c m) sz = Some (SUCCESS, ys)"
    "mset (take ?n ys) = mset (take ?n (block c m))" "sorted (map sint (take ?n ys))"
    using bubblesort_sorts [of sz "block c m" ?n] assms(2) len by auto
  have "length (take ?n ys) = length (take ?n (block c m))" using ys(2) by (rule mset_eq_length)
  then have "?n \<le> length ys" using len assms(2) by simp
  then show ?thesis using ys elements_block [OF assms(2), of c m] by (simp add: sw_bubblesort_def)
qed

text \<open>
  C21: A slave's checksum and sort give the same list whether the accelerator or the software
  version runs: for a list of 1 to 4095 words below the block memories, and a transfer engine that
  keeps its promises, the call returns \<^verbatim>\<open>SUCCESS\<close> when \<^verbatim>\<open>poly_init\<close> returns; the list then holds the
  checksums of its elements, or the same elements in ascending order, and no other word below
  the block memories has changed. The time of the computation is recorded only in software.
  The size need not be a power of two, nor the numbers divisible by eight, as the comments in
  \<^verbatim>\<open>crc_mblaze.c\<close> and \<^verbatim>\<open>sort_mblaze.c\<close> ask; 4096, which they exclude, is excluded: \<^verbatim>\<open>useHW\<close> may
  then look outside its row of the tuning table (lemma \<open>tuning_row_ends\<close> of theory \<open>Slave_Laws\<close>).
\<close>

theorem slave_poly_lists:
  assumes "cdma_ok (cdma P) idle" "0 < unat sz" "unat sz < 4096" "in_ram l (unat sz)"
  shows "(case poly_init (on_slave P) CRC sz k of
      None \<Rightarrow> slave_poly_crc P l sz k (d, m) = None
    | Some (use, k1) \<Rightarrow> \<exists>m'.
        call_returns (slave_poly_crc P l sz k (d, m)) (if use then k1 else add_sw_time P k1) m' \<and>
        elements l (unat sz) m' = map gen_crc (elements l (unat sz) m) \<and> only_result l (unat sz) m m') \<and>
    (case poly_init (on_slave P) BUBBLESORT sz k of
      None \<Rightarrow> slave_poly_bubblesort P l sz k (d, m) = None
    | Some (use, k1) \<Rightarrow> \<exists>m'.
        call_returns (slave_poly_bubblesort P l sz k (d, m)) (if use then k1 else add_sw_time P k1) m' \<and>
        mset (elements l (unat sz) m') = mset (elements l (unat sz) m) \<and>
        sorted (map sint (elements l (unat sz) m')) \<and> only_result l (unat sz) m m')"
proof -
  let ?n = "unat sz" and ?M = "copied l ACC_BRAMC (unat sz) m"
  have n: "?n \<le> 4096" using assms(3) by (rule less_imp_le)
  note call = assms(1,2) n assms(4)
  note apart = bram_apart [OF assms(4) n]
  have below: "x < ACC_BRAMC" if "x < ACC_BRAMA" for x using that apart by linarith
  have "only_result l ?n m (copied ACC_BRAMC l ?n M)" if "\<And>x. x < ACC_BRAMC \<Longrightarrow> M x = ?M x" for M
    using that below by (fastforce simp: only_result_def copied_def)
  then have only: "only_result l ?n m (copied ACC_BRAMC l ?n (snd (sw_crc ACC_BRAMC sz ?M)))"
    "only_result l ?n m (copied ACC_BRAMC l ?n (put_block ACC_BRAMC ys ?M))" for ys
    by (simp_all add: crc_outside put_block_def)
  obtain ys where ys: "sw_bubblesort (block ACC_BRAMC ?M) sz = Some (SUCCESS, ys)" "?n \<le> length ys"
    "mset (take ?n ys) = mset (elements ACC_BRAMC ?n ?M)" "sorted (map sint (take ?n ys))"
    using bubblesort_block [OF assms(2) n] by blast
  have same: "elements ACC_BRAMC ?n ?M = elements l ?n m" by (simp add: elements_copied_back)
  show ?thesis (is "?crc \<and> ?sort")
  proof
    show ?crc
    proof (cases "poly_init (on_slave P) CRC sz k")
      case (Some r)
      then show ?thesis
        using slave_poly_crc_result [OF call, of k "fst r" "snd r" d m] only(1) same
        by (cases r) (auto simp: elements_copied_back crc_elements intro!: exI)
    qed (simp add: slave_poly_crc_def)
    show ?sort
    proof (cases "poly_init (on_slave P) BUBBLESORT sz k")
      case (Some r)
      then show ?thesis
        using slave_poly_bubblesort_result [OF call _ ys(1), of k "fst r" "snd r" d] only(2) [of ys] same ys(2-4)
        by (cases r) (auto simp: elements_copied_back elements_put_block intro!: exI)
    qed (simp add: slave_poly_bubblesort_def)
  qed
qed

definition example_poly_env :: "(nat \<times> nat \<times> nat) poly_env" where
  "example_poly_env =
     \<lparr>on_slave = example_slave_env 0x51000000, cdma = copy_engine, readings = (\<lambda>_. (5, 12)), signed_char = True\<rparr>"

text \<open>In the example the checksum core is loaded, so the sort runs in software.\<close>

theorem slave_poly_lists_witness:
  "\<exists>k k1 k2 m1 m2.
     poly_init (on_slave example_poly_env) CRC 3 k = Some (True, k1) \<and>
     call_returns (slave_poly_crc example_poly_env 0x1000 3 k ((0, 0, 0), (\<lambda>_. 0)(0x1000 := 3, 0x1001 := -1, 0x1002 := 2))) k1 m1 \<and>
     elements 0x1000 3 m1 = map gen_crc [3, -1, 2] \<and>
     poly_init (on_slave example_poly_env) BUBBLESORT 3 k = Some (False, k2) \<and>
     call_returns (slave_poly_bubblesort example_poly_env 0x1000 3 k ((0, 0, 0), (\<lambda>_. 0)(0x1000 := 3, 0x1001 := -1, 0x1002 := 2)))
       (add_sw_time example_poly_env k2) m2 \<and>
     mset (elements 0x1000 3 m2) = mset [3, -1, 2] \<and> sorted (map sint (elements 0x1000 3 m2))"
proof -
  define k where "k = (example_kernel cores_reset)\<lparr>mach := (mach (example_kernel cores_reset))\<lparr>mem := (\<lambda>_. 0)\<rparr>\<rparr>"
  let ?P = example_poly_env and ?m = "(\<lambda>_. 0)(0x1000 := 3, 0x1001 := -1, 0x1002 := 2 :: Huint) :: words"
  have u: "useHW (on_slave ?P) CRC 3 k = Some (True, k)" "useHW (on_slave ?P) BUBBLESORT 3 k = Some (False, k)"
    by (simp_all add: useHW_def example_poly_env_def example_slave_env_def hwti_get_defs hwti_read_def hwti_cmd_def
        k_def SLAVE_NO_ACC_def CRC_def BUBBLESORT_def)
  then obtain k1 k2 where p: "poly_init (on_slave ?P) CRC 3 k = Some (True, k1)"
    "poly_init (on_slave ?P) BUBBLESORT 3 k = Some (False, k2)" by (simp add: poly_init_def Let_def)
  have e: "elements 0x1000 3 ?m = [3, -1, 2]" by (simp add: elements_def upt_rec)
  have c: "cdma_ok (cdma ?P) (\<lambda>d. fst d = 0)" using copy_engine_ok by (simp add: example_poly_env_def)
  have z: "0 < unat (3 :: Huint)" "unat (3 :: Huint) < 4096" "in_ram 0x1000 (unat (3 :: Huint))" by (simp_all add: brams)
  have n: "unat (3 :: Huint) = 3" by simp
  obtain m1 m2 where "call_returns (slave_poly_crc ?P 0x1000 3 k ((0, 0, 0), ?m)) k1 m1"
    "elements 0x1000 3 m1 = map gen_crc [3, -1, 2]"
    "call_returns (slave_poly_bubblesort ?P 0x1000 3 k ((0, 0, 0), ?m)) (add_sw_time ?P k2) m2"
    "mset (elements 0x1000 3 m2) = mset [3, -1, 2]" "sorted (map sint (elements 0x1000 3 m2))"
    using slave_poly_lists [OF c z, of k "(0, 0, 0)" ?m] p unfolding n e by (auto simp del: fun_upd_apply)
  with p show ?thesis by (intro exI [of _ k] exI [of _ k1] exI [of _ k2] exI [of _ m1] exI [of _ m2] conjI)
qed

section \<open>Vectors and matrices\<close>

text \<open>The two operands in their block memories.\<close>

definition operands_in :: "nat \<Rightarrow> nat \<Rightarrow> nat \<Rightarrow> nat \<Rightarrow> words \<Rightarrow> words" where
  "operands_in a na b nb m = copied b ACC_BRAMB nb (copied a ACC_BRAMA na m)"

lemma operands_in_at:
  assumes "in_ram a na" "in_ram b nb" "na \<le> 4096" "nb \<le> 4096"
  shows "i < na \<Longrightarrow> operands_in a na b nb m (ACC_BRAMA + i) = m (a + i)"
    and "i < nb \<Longrightarrow> operands_in a na b nb m (ACC_BRAMB + i) = m (b + i)"
    and "x < ACC_BRAMA \<Longrightarrow> operands_in a na b nb m x = m x"
  using assms by (auto simp: operands_in_def copied_def brams)

lemma only_result_back:
  assumes "in_ram a na" "in_ram b nb" "na \<le> 4096" "nb \<le> 4096" "\<And>x. x < ACC_BRAMC \<Longrightarrow> M x = operands_in a na b nb m x"
  shows "only_result c n m (copied ACC_BRAMC c n M)"
proof -
  have "x < ACC_BRAMC" if "x < ACC_BRAMA" for x using that by (simp add: brams)
  then show ?thesis using assms(5) operands_in_at(3) [OF assms(1-4)]
    by (simp add: only_result_def copied_def)
qed

lemma operands_transferred:
  assumes "cdma_ok (cdma P) idle" "0 < unat na" "unat na \<le> 4096" "0 < unat nb" "unat nb \<le> 4096"
    "in_ram a (unat na)" "in_ram b (unat nb)"
  shows "\<exists>d'. \<forall>rest. transferred P a ACC_BRAMA (na * 4) k (d, m) (\<lambda>s. transferred P b ACC_BRAMB (nb * 4) k s rest) =
    rest (d', operands_in a (unat na) b (unat nb) m)"
proof -
  obtain d1 where t: "\<And>rest. transferred P a ACC_BRAMA (na * 4) k (d, m) rest = rest (d1, copied a ACC_BRAMA (unat na) m)"
    using transferred_copies [OF assms(1-3), of a ACC_BRAMA k d m] bram_apart(1) [OF assms(6,3)] by blast
  obtain d2 where "\<And>rest. transferred P b ACC_BRAMB (nb * 4) k (d1, copied a ACC_BRAMA (unat na) m) rest =
      rest (d2, copied b ACC_BRAMB (unat nb) (copied a ACC_BRAMA (unat na) m))"
    using transferred_copies [OF assms(1,4,5), of b ACC_BRAMB k d1 "copied a ACC_BRAMA (unat na) m"]
      bram_apart(2) [OF assms(7,5)] by blast
  then show ?thesis using t by (auto simp: operands_in_def)
qed

definition combined :: "(Huint \<Rightarrow> Huint \<Rightarrow> Huint \<Rightarrow> Huint) \<Rightarrow> nat \<Rightarrow> words \<Rightarrow> words" where
  "combined g n m = (\<lambda>x. if ACC_BRAMC \<le> x \<and> x < ACC_BRAMC + n
     then g (m (ACC_BRAMA + (x - ACC_BRAMC))) (m (ACC_BRAMB + (x - ACC_BRAMC))) (m x) else m x)"

lemma sw_vector_spec:
  assumes "e + n \<le> 4096"
  shows "sw_vector n g e m = (\<lambda>x. if ACC_BRAMC + e \<le> x \<and> x < ACC_BRAMC + e + n
     then g (m (ACC_BRAMA + (x - ACC_BRAMC))) (m (ACC_BRAMB + (x - ACC_BRAMC))) (m x) else m x)"
  using assms
proof (induction n arbitrary: e m)
  case (Suc n)
  let ?m = "m(ACC_BRAMC + e := g (m (ACC_BRAMA + e)) (m (ACC_BRAMB + e)) (m (ACC_BRAMC + e)))"
  have off: "?m (ACC_BRAMA + i) = m (ACC_BRAMA + i)" "?m (ACC_BRAMB + i) = m (ACC_BRAMB + i)" if "i < 4096" for i
    using that by (simp_all add: brams)
  have ih: "sw_vector n g (e + 1) ?m x = (if ACC_BRAMC + (e + 1) \<le> x \<and> x < ACC_BRAMC + (e + 1) + n
     then g (?m (ACC_BRAMA + (x - ACC_BRAMC))) (?m (ACC_BRAMB + (x - ACC_BRAMC))) (?m x) else ?m x)" for x
    by (subst Suc.IH) (use Suc.prems in linarith, rule refl)
  have "sw_vector n g (e + 1) ?m x = (if ACC_BRAMC + (e + 1) \<le> x \<and> x < ACC_BRAMC + (e + 1) + n
     then g (m (ACC_BRAMA + (x - ACC_BRAMC))) (m (ACC_BRAMB + (x - ACC_BRAMC))) (?m x) else ?m x)" for x
  proof (cases "ACC_BRAMC + (e + 1) \<le> x \<and> x < ACC_BRAMC + (e + 1) + n")
    case True
    then have below: "x - ACC_BRAMC < 4096" using Suc.prems by linarith
    show ?thesis unfolding ih off [OF below] by (rule refl)
  qed (simp only: ih if_False)
  then show ?case by (auto simp: fun_eq_iff)
qed (auto simp: fun_eq_iff)

lemma vector_core_combines:
  assumes "vector_op acc op_code = Some g" "0 < unat sz" "unat sz \<le> 4096"
    "acc = VECTORMUL \<Longrightarrow> op_code = 2 \<Longrightarrow> \<forall>i<unat sz. m (ACC_BRAMB + i) \<noteq> 0"
  shows "vector_core acc op_code sz m = Some ([1], combined g (unat sz) m)"
proof -
  have "sz \<noteq> 0" using assms(2) by auto
  then have f: "core_for (\<lambda>i m. h (m (ACC_BRAMA + i)) (m (ACC_BRAMB + i))) ACC_BRAMC 0 sz m = Some ([1], combined g (unat sz) m)"
    if "\<And>i. i < unat sz \<Longrightarrow> h (m (ACC_BRAMA + i)) (m (ACC_BRAMB + i)) =
      Some (g (m (ACC_BRAMA + i)) (m (ACC_BRAMB + i)) (m (ACC_BRAMC + i)))" for h
    using that assms(3)
    by (subst core_for_spec [where g = "\<lambda>i. g (m (ACC_BRAMA + i)) (m (ACC_BRAMB + i)) (m (ACC_BRAMC + i))"])
      (auto simp: local_at_def brams combined_def fun_eq_iff)
  consider (add) "acc = VECTORADD" "op_code = 1" "g = (\<lambda>x y z. x + y)"
    | (sub) "acc = VECTORADD" "op_code = 2" "g = (\<lambda>x y z. x - y)"
    | (mul) "acc = VECTORMUL" "op_code = 1" "g = (\<lambda>x y z. x * y)"
    | (div) "acc = VECTORMUL" "op_code = 2" "g = (\<lambda>x y z. if y \<noteq> 0 then quotient x y else z)"
    using assms(1) by (auto simp: vector_op_def split: if_splits)
  then show ?thesis
  proof cases
    case add
    then show ?thesis using f [of "\<lambda>x y. Some (x + y)"] by (simp add: vector_core_def vectoradd_core_def)
  next
    case sub
    then show ?thesis using f [of "\<lambda>x y. Some (x - y)"] by (simp add: vector_core_def vectoradd_core_def)
  next
    case mul
    then show ?thesis using f [of "\<lambda>x y. Some (x * y)"]
      by (simp add: vector_core_def vectormul_core_def VECTORADD_def VECTORMUL_def)
  next
    case div
    then show ?thesis using f [of "\<lambda>x y. if y = 0 then None else Some (quotient x y)"] assms(4)
      by (simp add: vector_core_def vectormul_core_def VECTORADD_def VECTORMUL_def)
  qed
qed

lemma slave_poly_vector_result:
  assumes "cdma_ok (cdma P) idle" "0 < unat sz" "unat sz \<le> 4096"
    "in_ram a (unat sz)" "in_ram b (unat sz)" "in_ram c (unat sz)" "vector_op acc op_code = Some g"
    "acc = VECTORMUL \<Longrightarrow> op_code = 2 \<Longrightarrow> \<forall>i<unat sz. m (b + i) \<noteq> 0"
    "poly_init (on_slave P) acc sz k = Some (use, k1)"
  shows "call_returns (slave_poly_vector P a b c sz op_code acc k (d, m)) (if use then k1 else add_sw_time P k1)
    (copied ACC_BRAMC c (unat sz) (combined g (unat sz) (operands_in a (unat sz) b (unat sz) m)))"
proof -
  let ?M = "operands_in a (unat sz) b (unat sz) m" and ?R = "combined g (unat sz) (operands_in a (unat sz) b (unat sz) m)"
  obtain d1 where t: "\<And>rest. transferred P a ACC_BRAMA (sz * 4) k1 (d, m) (\<lambda>s. transferred P b ACC_BRAMB (sz * 4) k1 s rest) =
      rest (d1, ?M)" using operands_transferred [OF assms(1-3,2-5), of k1 d m] by blast
  have "\<forall>i<unat sz. ?M (ACC_BRAMB + i) \<noteq> 0" if "acc = VECTORMUL" "op_code = 2"
    using assms(8) [OF that] operands_in_at(2) [OF assms(4,5,3,3)] by simp
  then have h: "vector_core acc op_code sz ?M = Some ([1], ?R)"
    using assms(2,3,7) by (intro vector_core_combines)
  have s: "sw_vector (unat sz) g 0 ?M = ?R" using assms(3) sw_vector_spec [of 0 "unat sz" g ?M] by (simp add: combined_def)
  show ?thesis
    using write_back_copies [OF assms(1-3,6), of SUCCESS k1 d1 ?R]
      write_back_copies [OF assms(1-3,6), of SUCCESS "add_sw_time P k1" d1 ?R]
    by (cases use) (auto simp: slave_poly_vector_def assms(7,9) t h s getfslx_def call_returns_def)
qed

lemma product_words: "n < 128 \<Longrightarrow> p < 128 \<Longrightarrow> unat (of_nat n * of_nat p :: Huint) = n * p"
proof -
  assume "n < 128" "p < 128"
  then have "n * p < 128 * 128" by (intro mult_strict_mono) auto
  then show ?thesis using unat_of_nat [of "n * p", where 'a = 32] by simp
qed

lemma slave_poly_matrix_result:
  assumes "cdma_ok (cdma P) idle" "0 < n" "0 < p" "n < 128" "p < 128" "n * n \<le> 4096" "n * p \<le> 4096"
    "in_ram a (n * n)" "in_ram b (n * p)" "in_ram c (n * p)"
    "poly_init (on_slave P) MATRIXMUL (of_nat n * of_nat p) k = Some (use, k1)"
  shows "call_returns (slave_poly_matrix_mul P a b c (of_nat n) (of_nat n) (of_nat p) k (d, m)) k1
    (copied ACC_BRAMC c (n * p)
      (filled ACC_BRAMA ACC_BRAMB ACC_BRAMC n p (operands_in a (n * n) b (n * p) m) (n * p)))"
proof -
  let ?M = "operands_in a (n * n) b (n * p) m"
  let ?R = "filled ACC_BRAMA ACC_BRAMB ACC_BRAMC n p ?M (n * p)"
  note nn = product_words [OF assms(4,4)] and np = product_words [OF assms(4,5)]
  have ap: "matrices_apart ACC_BRAMA ACC_BRAMB ACC_BRAMC n p" using assms(6,7) by (simp add: matrices_apart_def brams)
  obtain d1 where t: "\<And>rest. transferred P a ACC_BRAMA (of_nat n * of_nat n * 4) k1 (d, m)
      (\<lambda>s. transferred P b ACC_BRAMB (of_nat n * of_nat p * 4) k1 s rest) = rest (d1, ?M)"
    using operands_transferred [OF assms(1), of "of_nat n * of_nat n" "of_nat n * of_nat p" a b k1 d m] assms(2-9)
    unfolding nn np by auto
  have "\<exists>d'. write_back P c (of_nat n * of_nat p * 4) SUCCESS k1 (d1, ?R) = Some (SUCCESS, k1, d', copied ACC_BRAMC c (n * p) ?R)"
    using write_back_copies [OF assms(1), of "of_nat n * of_nat p" c SUCCESS k1 d1 ?R] assms(2,3,7,10) unfolding np by auto
  then show ?thesis using matrix_core_fills [OF ap assms(2,3,6,7,4,5), where m = ?M]
    by (cases use) (auto simp: slave_poly_matrix_mul_def assms(11) t getfslx_def call_returns_def)
qed

lemma vector_op_old:
  "\<lbrakk>vector_op acc op_code = Some g; acc = VECTORMUL \<Longrightarrow> op_code = 2 \<Longrightarrow> y \<noteq> 0\<rbrakk> \<Longrightarrow> g x y z = g x y 0"
  by (auto simp: vector_op_def split: if_splits)

lemma combined_elements:
  assumes "in_ram a n" "in_ram b n" "n \<le> 4096" "vector_op acc op_code = Some g"
    "acc = VECTORMUL \<Longrightarrow> op_code = 2 \<Longrightarrow> \<forall>i<n. m (b + i) \<noteq> 0"
  shows "elements ACC_BRAMC n (combined g n (operands_in a n b n m)) = map (\<lambda>i. g (m (a + i)) (m (b + i)) 0) [0..<n]"
proof -
  have "combined g n (operands_in a n b n m) (ACC_BRAMC + i) = g (m (a + i)) (m (b + i)) 0" if i: "i < n" for i
  proof -
    have "combined g n (operands_in a n b n m) (ACC_BRAMC + i) =
        g (m (a + i)) (m (b + i)) (operands_in a n b n m (ACC_BRAMC + i))"
      using operands_in_at(1,2) [OF assms(1,2,3,3), of i m] i by (simp add: combined_def)
    also have "\<dots> = g (m (a + i)) (m (b + i)) 0" by (rule vector_op_old [OF assms(4)]) (use assms(5) i in blast)
    finally show ?thesis .
  qed
  then show ?thesis by (simp add: elements_def)
qed

lemma filled_at:
  assumes "in_ram a (n * n)" "in_ram b (n * p)" "n * n \<le> 4096" "n * p \<le> 4096" "i < n" "j < p"
  shows "copied ACC_BRAMC c (n * p) (filled ACC_BRAMA ACC_BRAMB ACC_BRAMC n p (operands_in a (n * n) b (n * p) m) (n * p))
    (c + (i * p + j)) = matrix_entry a b n p m i j"
proof -
  have ij: "i * p + j < n * p" "(i * p + j) div p = i" "(i * p + j) mod p = j"
    using assms(5,6) by (auto intro: index_bound)
  have "operands_in a (n * n) b (n * p) m (ACC_BRAMA + (i * n + k)) = m (a + (i * n + k))"
    "operands_in a (n * n) b (n * p) m (ACC_BRAMB + (k * p + j)) = m (b + (k * p + j))" if "k < n" for k
    using operands_in_at(1,2) [OF assms(1-4)] index_bound [OF assms(5) that] index_bound [OF that assms(6)] by blast+
  then have "matrix_entry ACC_BRAMA ACC_BRAMB n p (operands_in a (n * n) b (n * p) m) i j = matrix_entry a b n p m i j"
    by (simp add: matrix_entry_def)
  then show ?thesis using ij by (simp add: copied_def filled_def)
qed

lemma slave_poly_vector_gives:
  assumes "cdma_ok (cdma P) idle" "vector_op acc op_code = Some g" "0 < unat sz" "unat sz \<le> 4096"
    "in_ram a (unat sz)" "in_ram b (unat sz)" "in_ram c (unat sz)"
    "acc = VECTORMUL \<Longrightarrow> op_code = 2 \<Longrightarrow> \<forall>i<unat sz. m (b + i) \<noteq> 0"
    "poly_init (on_slave P) acc sz k = Some (use, k1)"
  shows "\<exists>m'. call_returns (slave_poly_vector P a b c sz op_code acc k (d, m)) (if use then k1 else add_sw_time P k1) m' \<and>
    elements c (unat sz) m' = map (\<lambda>i. g (m (a + i)) (m (b + i)) 0) [0..<unat sz] \<and> only_result c (unat sz) m m'"
proof -
  let ?R = "combined g (unat sz) (operands_in a (unat sz) b (unat sz) m)"
  have "only_result c (unat sz) m (copied ACC_BRAMC c (unat sz) ?R)"
    by (rule only_result_back [OF assms(5,6,4,4)]) (simp add: combined_def)
  then show ?thesis
    using slave_poly_vector_result [OF assms(1,3-7,2,8,9), of d] combined_elements [OF assms(5,6,4,2,8)]
    by (intro exI [of _ "copied ACC_BRAMC c (unat sz) ?R"] conjI) (simp_all add: elements_copied_back)
qed

lemma slave_poly_matrix_gives:
  assumes "cdma_ok (cdma P) idle" "0 < n" "0 < p" "n < 128" "p < 128" "n * n \<le> 4096" "n * p \<le> 4096"
    "in_ram a (n * n)" "in_ram b (n * p)" "in_ram c (n * p)"
    "poly_init (on_slave P) MATRIXMUL (of_nat n * of_nat p) k = Some (use, k1)"
  shows "\<exists>m'. call_returns (slave_poly_matrix_mul P a b c (of_nat n) (of_nat n) (of_nat p) k (d, m)) k1 m' \<and>
    (\<forall>i<n. \<forall>j<p. m' (c + (i * p + j)) = matrix_entry a b n p m i j) \<and> only_result c (n * p) m m'"
proof -
  let ?R = "filled ACC_BRAMA ACC_BRAMB ACC_BRAMC n p (operands_in a (n * n) b (n * p) m) (n * p)"
  have "only_result c (n * p) m (copied ACC_BRAMC c (n * p) ?R)"
    by (rule only_result_back [OF assms(8,9,6,7)]) (simp add: filled_def)
  then show ?thesis
    using slave_poly_matrix_result [OF assms, of d m] filled_at [OF assms(8,9,6,7)]
    by (intro exI [of _ "copied ACC_BRAMC c (n * p) ?R"] conjI) simp_all
qed

text \<open>
  C22: A slave's vector operations give the same vector whether the accelerator or the software
  version runs, provided that a division has no zero divisor: the sum, difference, product or
  signed quotient of each pair of elements, for vectors of 1 to 4096 words. Its product of a
  square matrix with another matrix, of fewer than 128 rows and columns each and at most 4096 words,
  is the matrix product in both cases. Nothing else below the block memories changes.
\<close>

theorem slave_poly_vectors_matrices:
  assumes "cdma_ok (cdma P) idle"
  shows "(vector_op acc op_code = Some g \<and> 0 < unat sz \<and> unat sz \<le> 4096 \<and>
      in_ram a (unat sz) \<and> in_ram b (unat sz) \<and> in_ram c (unat sz) \<and>
      (acc = VECTORMUL \<and> op_code = 2 \<longrightarrow> (\<forall>i<unat sz. m (b + i) \<noteq> 0)) \<and>
      poly_init (on_slave P) acc sz k = Some (use, k1) \<longrightarrow>
    (\<exists>m'. call_returns (slave_poly_vector P a b c sz op_code acc k (d, m)) (if use then k1 else add_sw_time P k1) m' \<and>
      elements c (unat sz) m' = map (\<lambda>i. g (m (a + i)) (m (b + i)) 0) [0..<unat sz] \<and> only_result c (unat sz) m m')) \<and>
    (0 < n \<and> 0 < p \<and> n < 128 \<and> p < 128 \<and> n * n \<le> 4096 \<and> n * p \<le> 4096 \<and>
      in_ram a (n * n) \<and> in_ram b (n * p) \<and> in_ram c (n * p) \<and>
      poly_init (on_slave P) MATRIXMUL (of_nat n * of_nat p) k = Some (use, k1) \<longrightarrow>
    (\<exists>m'. call_returns (slave_poly_matrix_mul P a b c (of_nat n) (of_nat n) (of_nat p) k (d, m)) k1 m' \<and>
      (\<forall>i<n. \<forall>j<p. m' (c + (i * p + j)) = matrix_entry a b n p m i j) \<and> only_result c (n * p) m m'))"
  using slave_poly_vector_gives [OF assms, of acc op_code g sz a b c m k use k1 d]
    slave_poly_matrix_gives [OF assms, of n p a b c k use k1 d m] by blast

theorem slave_poly_vectors_matrices_witness:
  "\<exists>k k1 k2 m1 m2.
     call_returns (slave_poly_vector example_poly_env 0x1000 0x1004 0x1008 2 2 VECTORMUL k ((0, 0, 0), \<lambda>x. of_nat x)) k1 m1 \<and>
     elements 0x1008 2 m1 = [quotient 0x1000 0x1004, quotient 0x1001 0x1005] \<and>
     call_returns (slave_poly_matrix_mul example_poly_env 0x1000 0x1004 0x1008 2 2 1 k ((0, 0, 0), \<lambda>x. of_nat x)) k2 m2 \<and>
     m2 0x1009 = 0x1002 * 0x1004 + 0x1003 * 0x1005"
proof -
  define k where "k = (example_kernel cores_reset)\<lparr>mach := (mach (example_kernel cores_reset))\<lparr>mem := (\<lambda>_. 3)\<rparr>\<rparr>"
  let ?P = example_poly_env and ?m = "(\<lambda>x. of_nat x) :: words"
  have u: "useHW (on_slave ?P) VECTORMUL 2 k = Some (True, k)" "useHW (on_slave ?P) MATRIXMUL 2 k = Some (False, k)"
    by (simp_all add: useHW_def example_poly_env_def example_slave_env_def hwti_get_defs hwti_read_def hwti_cmd_def
        k_def SLAVE_NO_ACC_def VECTORMUL_def MATRIXMUL_def)
  then obtain k1 k2 where p: "poly_init (on_slave ?P) VECTORMUL 2 k = Some (True, k1)"
    "poly_init (on_slave ?P) MATRIXMUL 2 k = Some (False, k2)" by (simp add: poly_init_def Let_def)
  have c: "cdma_ok (cdma ?P) (\<lambda>d. fst d = 0)" using copy_engine_ok by (simp add: example_poly_env_def)
  let ?g = "\<lambda>x y z. if y \<noteq> 0 then quotient x y else z"
  have g: "vector_op VECTORMUL 2 = Some ?g"
    by (simp add: vector_op_def VECTORADD_def VECTORMUL_def)
  have "?m (0x1004 + i) \<noteq> 0" if "i < 2" for i using less_2_cases [OF that] by auto
  then have nz: "\<forall>i<unat (2 :: Huint). ?m (0x1004 + i) \<noteq> 0" by simp
  have two: "[0..<2] = [0, 1]" by (simp add: upt_rec)
  obtain m1 where m1: "call_returns (slave_poly_vector ?P 0x1000 0x1004 0x1008 2 2 VECTORMUL k ((0, 0, 0), ?m)) k1 m1"
    "elements 0x1008 2 m1 = [quotient 0x1000 0x1004, quotient 0x1001 0x1005]"
    using slave_poly_vectors_matrices [of ?P "\<lambda>d. fst d = 0" VECTORMUL 2 ?g 2 "0x1000" "0x1004" "0x1008" ?m k True k1
        "(0, 0, 0)", OF c, THEN conjunct1] g nz p(1)
    by (auto simp: brams two)
  have w: "0 < (2 :: nat) \<and> 0 < (1 :: nat) \<and> (2 :: nat) < 128 \<and> (1 :: nat) < 128 \<and> 2 * 2 \<le> (4096 :: nat) \<and>
      2 * 1 \<le> (4096 :: nat) \<and> in_ram 0x1000 (2 * 2) \<and> in_ram 0x1004 (2 * 1) \<and> in_ram 0x1008 (2 * 1) \<and>
      poly_init (on_slave ?P) MATRIXMUL (of_nat 2 * of_nat 1) k = Some (False, k2)" using p(2) by (simp add: brams)
  obtain m2 where m2: "call_returns (slave_poly_matrix_mul ?P 0x1000 0x1004 0x1008 (of_nat 2) (of_nat 2) (of_nat 1) k ((0, 0, 0), ?m)) k2 m2"
    "\<forall>i<2. \<forall>j<1. m2 (0x1008 + (i * 1 + j)) = matrix_entry 0x1000 0x1004 2 1 ?m i j"
    using slave_poly_vectors_matrices [of ?P "\<lambda>d. fst d = 0" VECTORMUL 2 ?g 2 "0x1000" "0x1004" "0x1008" ?m k False k2
        "(0, 0, 0)" 2 1, OF c, THEN conjunct2, THEN mp, OF w] by (elim exE conjE)
  have "matrix_entry 0x1000 0x1004 2 1 ?m 1 0 = 0x1002 * 0x1004 + 0x1003 * 0x1005"
    by (simp add: matrix_entry_def lessThan_nat_numeral)
  then have "m2 0x1009 = 0x1002 * 0x1004 + 0x1003 * 0x1005" using m2(2) [rule_format, of 1 0] by simp
  with m1 m2(1) [unfolded of_nat_numeral of_nat_1] show ?thesis
    by (intro exI [of _ k] exI [of _ k1] exI [of _ k2] exI [of _ m1] exI [of _ m2] conjI)
qed


section \<open>Where the cores differ\<close>

text \<open>A core that is given nothing to do does not answer, so a read of its answer blocks.\<close>

lemma empty_never_answers:
  "getfslx (crc_core c 0 0 m) = None" "getfslx (vector_core acc op_code 0 m) = None"
  by (simp_all add: getfslx_def crc_core_def vector_core_def vectoradd_core_def vectormul_core_def core_for_def)

text \<open>The software version skips a zero divisor; the core divides by it.\<close>

lemma zero_divisor_differs:
  assumes "0 < unat sz" "unat sz \<le> 4096" "m ACC_BRAMB = 0"
  shows "vector_core VECTORMUL 2 sz m = None" "vector_op VECTORMUL 2 = Some g \<Longrightarrow> g x 0 z = z"
proof -
  have "sint sz = int (unat sz)" using assms(2) sint_of_nat_small [of "unat sz"] by simp
  then have "nat (sint sz) \<noteq> 0" using assms(1) by linarith
  then obtain r where "nat (sint sz) = Suc r" using not0_implies_Suc by blast
  then show "vector_core VECTORMUL 2 sz m = None"
    using assms(3) by (simp add: vector_core_def vectormul_core_def core_for_def VECTORADD_def VECTORMUL_def)
  show "g x 0 z = z" if "vector_op VECTORMUL 2 = Some g"
    using that by (auto simp: vector_op_def VECTORADD_def VECTORMUL_def)
qed

end
