(* ===== verification/Clock.thy ===== *)
theory Clock
  imports Block_Device "HOL-Library.Signed_Division"
begin

text \<open>
  The clock of the MicroBlaze port: \<^verbatim>\<open>src/archs/mblaze/include/arch/htime.h\<close> (the slaves have a copy
  of it) and the library call \<^verbatim>\<open>times\<close> of \<^verbatim>\<open>src/software/lib/times.c\<close>. Two 32-bit counters are
  cascaded into one of 64 bits, whose halves can only be read one after the other;
  \<^verbatim>\<open>_arch_get_time\<close> reads the upper half twice and starts over when it has changed. The timer
  is the parameter \<open>B\<close>; \<open>timer_ok\<close> states what its data sheet says, with a bound on the time
  between two reads. Times have 64 bits; \<open>None\<close> stands for a loop that does not end and for an
  overflow of signed numbers, which C leaves undefined.
\<close>

section \<open>Registers and operations\<close>

definition HTHREADS_TIMER0_CONTROL :: "Huint \<Rightarrow> Huint" where
  "HTHREADS_TIMER0_CONTROL base = base + 0x0"

definition HTHREADS_TIMER1_CONTROL :: "Huint \<Rightarrow> Huint" where
  "HTHREADS_TIMER1_CONTROL base = base + 0x10 + 0x0"

definition HTHREADS_TIMER0_LOAD :: "Huint \<Rightarrow> Huint" where
  "HTHREADS_TIMER0_LOAD base = base + 0x4"

definition HTHREADS_TIMER1_LOAD :: "Huint \<Rightarrow> Huint" where
  "HTHREADS_TIMER1_LOAD base = base + 0x10 + 0x4"

definition HTHREADS_TIMER_DATA_HI :: "Huint \<Rightarrow> Huint" where
  "HTHREADS_TIMER_DATA_HI base = base + 0x10 + 0x8"

definition HTHREADS_TIMER_DATA_LO :: "Huint \<Rightarrow> Huint" where
  "HTHREADS_TIMER_DATA_LO base = base + 0x8"

lemmas timer_regs = HTHREADS_TIMER0_CONTROL_def HTHREADS_TIMER1_CONTROL_def HTHREADS_TIMER0_LOAD_def
  HTHREADS_TIMER1_LOAD_def HTHREADS_TIMER_DATA_HI_def HTHREADS_TIMER_DATA_LO_def

text \<open>
  An assignment to one bit of the structure \<^verbatim>\<open>CTRL_STATUS_REG\<close> reads the register, changes the bit
  and writes it back; the members count from the lowest bit.
\<close>

datatype ctrl_field = MDT | UDT | GENT | CAPT | ARHT | LOAD | ENIT | ENT | T0INT | PWMA | ENALL | CASC

fun field_bit :: "ctrl_field \<Rightarrow> nat" where
  "field_bit MDT = 0" | "field_bit UDT = 1" | "field_bit GENT = 2" | "field_bit CAPT = 3"
| "field_bit ARHT = 4" | "field_bit LOAD = 5" | "field_bit ENIT = 6" | "field_bit ENT = 7"
| "field_bit T0INT = 8" | "field_bit PWMA = 9" | "field_bit ENALL = 10" | "field_bit CASC = 11"

definition assign_field :: "'d reg_bus \<Rightarrow> Huint \<Rightarrow> ctrl_field \<Rightarrow> bool \<Rightarrow> 'd \<Rightarrow> 'd" where
  "assign_field B reg f b d =
     (let (v, d) = rd32 B reg d in
      wr32 B reg (if b then set_bit (field_bit f) v else unset_bit (field_bit f) v) d)"

definition init_timer :: "'d reg_bus \<Rightarrow> Huint \<Rightarrow> 'd \<Rightarrow> 'd" where
  "init_timer B base d =
     (let timer0_reg = HTHREADS_TIMER0_CONTROL base;
          d = wr32 B (HTHREADS_TIMER0_CONTROL base) 0 d;
          d = wr32 B (HTHREADS_TIMER1_CONTROL base) 0 d;
          d = wr32 B (HTHREADS_TIMER0_LOAD base) 0 d;
          d = wr32 B (HTHREADS_TIMER1_LOAD base) 0 d;
          d = assign_field B timer0_reg LOAD True d;
          d = assign_field B timer0_reg CASC True d;
          d = assign_field B timer0_reg ARHT True d;
          d = assign_field B timer0_reg UDT False d;
          d = assign_field B timer0_reg MDT False d;
          d = assign_field B timer0_reg LOAD False d
      in assign_field B timer0_reg ENT True d)"

definition timer_get_hi :: "'d reg_bus \<Rightarrow> Huint \<Rightarrow> 'd \<Rightarrow> Huint \<times> 'd" where
  "timer_get_hi B base = rd32 B (HTHREADS_TIMER_DATA_HI base)"

definition timer_get_lo :: "'d reg_bus \<Rightarrow> Huint \<Rightarrow> 'd \<Rightarrow> Huint \<times> 'd" where
  "timer_get_lo B base = rd32 B (HTHREADS_TIMER_DATA_LO base)"

text \<open>The union of a 64-bit time and two words: \<^verbatim>\<open>help[0]\<close> is the low one.\<close>

definition clock_helper :: "Huint \<Rightarrow> Huint \<Rightarrow> 64 word" where
  "clock_helper lo hi = ucast lo OR push_bit 32 (ucast hi)"

partial_function (option) arch_get_time :: "'d reg_bus \<Rightarrow> Huint \<Rightarrow> 'd \<Rightarrow> (64 word \<times> 'd) option" where
  "arch_get_time B base d =
     (let (hi, d1) = timer_get_hi B base d;
          (lo, d2) = timer_get_lo B base d1;
          (hi', d3) = timer_get_hi B base d2
      in if hi \<noteq> hi' then arch_get_time B base d3 else Some (clock_helper lo hi, d3))"

text \<open>
  \<^verbatim>\<open>times\<close>: \<open>hz\<close> is \<^verbatim>\<open>CPU_CLOCK_HZ\<close> and \<open>cps\<close> is \<^verbatim>\<open>CLOCKS_PER_SEC\<close>, which \<^verbatim>\<open>htime.h\<close> makes the
  same unless the C library has a value. The result for a structure is the list of its members.
\<close>

definition times :: "'d reg_bus \<Rightarrow> Huint \<Rightarrow> int \<Rightarrow> int \<Rightarrow> bool \<Rightarrow> 'd \<Rightarrow> (Huint \<times> Huint list option \<times> 'd) option" where
  "times B base hz cps tp d =
     (case arch_get_time B base d of
        None \<Rightarrow> None
      | Some (clock, d1) \<Rightarrow>
          if tp then
            (let p = sint clock * cps in
             if hz = 0 \<or> \<not> (- (2 ^ 63) \<le> p \<and> p < 2 ^ 63) then None
             else Some (ucast clock, Some [of_int (p sdiv hz), 0, 0, 0], d1))
          else Some (ucast clock, None, d1))"

section \<open>The timer's contract\<close>

text \<open>
  The counter counts up: it stands at \<open>ticks d\<close>, a read returns the half it asks for as of the
  moment of the read, and at most \<open>2\<^sup>2\<^sup>9\<close> ticks (five seconds at 100 MHz) lie between two reads.
\<close>

definition timer_ok :: "'d reg_bus \<Rightarrow> Huint \<Rightarrow> ('d \<Rightarrow> nat) \<Rightarrow> bool" where
  "timer_ok B base ticks \<longleftrightarrow>
     (\<forall>d v d'. rd32 B (HTHREADS_TIMER_DATA_HI base) d = (v, d') \<longrightarrow>
        v = of_nat (ticks d' div 2 ^ 32) \<and> ticks d \<le> ticks d' \<and> ticks d' \<le> ticks d + 2 ^ 29) \<and>
     (\<forall>d v d'. rd32 B (HTHREADS_TIMER_DATA_LO base) d = (v, d') \<longrightarrow>
        v = of_nat (ticks d') \<and> ticks d \<le> ticks d' \<and> ticks d' \<le> ticks d + 2 ^ 29)"

section \<open>Reading the clock\<close>

lemma clock_helper_of_nat: "clock_helper (of_nat t) (of_nat (t div 2 ^ 32)) = of_nat t"
proof (rule bit_word_eqI)
  fix n assume n: "n < LENGTH(64)"
  have "bit (drop_bit 32 t) m = bit t (32 + m)" for m by (simp add: bit_drop_bit_eq)
  then have hi: "bit (t div 4294967296) m = bit t (32 + m)" for m by (simp add: drop_bit_eq_div)
  show "bit (clock_helper (of_nat t) (of_nat (t div 2 ^ 32))) n = bit (of_nat t :: 64 word) n"
    using n by (auto simp: clock_helper_def bit_or_iff bit_push_bit_iff bit_ucast_iff bit_of_nat_iff hi)
qed

lemma timer_hi:
  assumes "timer_ok B base ticks" "timer_get_hi B base d = (v, d')"
  shows "v = of_nat (ticks d' div 2 ^ 32)" "ticks d \<le> ticks d'" "ticks d' \<le> ticks d + 2 ^ 29"
  using assms unfolding timer_ok_def timer_get_hi_def by blast+

lemma timer_lo:
  assumes "timer_ok B base ticks" "timer_get_lo B base d = (v, d')"
  shows "v = of_nat (ticks d')" "ticks d \<le> ticks d'" "ticks d' \<le> ticks d + 2 ^ 29"
  using assms unfolding timer_ok_def timer_get_lo_def by blast+

text \<open>Upper halves that are close together are equal as soon as they are equal as words.\<close>

lemma upper_half_eq:
  fixes a b :: nat
  assumes "a \<le> b" "b \<le> a + 2 ^ 31" "(of_nat (a div 2 ^ 32) :: Huint) = of_nat (b div 2 ^ 32)"
  shows "a div 2 ^ 32 = b div 2 ^ 32"
proof -
  have "(a div 2 ^ 32) mod 2 ^ 32 = (b div 2 ^ 32) mod 2 ^ 32"
    using arg_cong [OF assms(3), of unat] by (simp add: unat_of_nat)
  moreover have "b div 2 ^ 32 = a div 2 ^ 32 \<or> b div 2 ^ 32 = a div 2 ^ 32 + 1"
    using assms(1,2) by simp linarith
  moreover have "(x + 1) mod 2 ^ 32 \<noteq> x mod 2 ^ 32" for x :: nat
    by (simp add: mod_Suc)
  ultimately show ?thesis by metis
qed

lemma just_passed:
  fixes a b :: nat
  assumes "b \<le> a + k" "a div n < b div n"
  shows "b mod n \<le> k"
proof -
  have "n > 0" using assms(2) by (cases n) simp_all
  then have "a < n * (a div n + 1)" using dividend_less_times_div [of n a] by (simp add: ac_simps)
  also have "\<dots> \<le> n * (b div n)" using assms(2) by (intro mult_le_mono) simp_all
  finally show ?thesis using assms(1) mult_div_mod_eq [of n b] by linarith
qed

lemma still_far:
  fixes a t :: nat
  assumes "a mod n + k < n" "t \<le> a + k"
  shows "\<not> a div n < t div n"
proof -
  have "(a + k) div n = a div n + (a mod n + k) div n"
    by (metis add.commute add.left_commute div_mult_self4 mult_div_mod_eq assms(1) gr_implies_not0)
  then show ?thesis using assms(1) div_le_mono [OF assms(2), of n] by simp
qed

text \<open>One turn of the loop: either the time, or the counter has just passed a multiple of \<open>2\<^sup>3\<^sup>2\<close>.\<close>

lemma get_time_turn:
  assumes ok: "timer_ok B base ticks"
  obtains d' where "ticks d \<le> ticks d'" "ticks d' \<le> ticks d + 3 * 2 ^ 29"
      "\<exists>t. arch_get_time B base d = Some (of_nat t, d') \<and> ticks d \<le> t \<and> t \<le> ticks d'"
  | d' where "ticks d \<le> ticks d'" "ticks d' \<le> ticks d + 3 * 2 ^ 29"
      "arch_get_time B base d = arch_get_time B base d'" "ticks d div 2 ^ 32 < ticks d' div 2 ^ 32"
proof -
  obtain hi d1 where 1: "timer_get_hi B base d = (hi, d1)" by fastforce
  obtain lo d2 where 2: "timer_get_lo B base d1 = (lo, d2)" by fastforce
  obtain hi' d3 where 3: "timer_get_hi B base d2 = (hi', d3)" by fastforce
  note t = timer_hi [OF ok 1] timer_lo [OF ok 2] timer_hi [OF ok 3]
  have step: "arch_get_time B base d =
      (if hi \<noteq> hi' then arch_get_time B base d3 else Some (clock_helper lo hi, d3))"
    by (subst arch_get_time.simps) (simp add: 1 2 3)
  show thesis
  proof (cases "hi = hi'")
    case True
    then have "ticks d1 div 2 ^ 32 = ticks d3 div 2 ^ 32" using t by (intro upper_half_eq) simp_all
    moreover have "ticks d1 div 2 ^ 32 \<le> ticks d2 div 2 ^ 32" "ticks d2 div 2 ^ 32 \<le> ticks d3 div 2 ^ 32"
      using t by (simp_all add: div_le_mono)
    ultimately have "hi = of_nat (ticks d2 div 2 ^ 32)" using t(1) by simp
    then have "arch_get_time B base d = Some (of_nat (ticks d2), d3)"
      using step True t(4) clock_helper_of_nat by simp
    moreover have "ticks d \<le> ticks d2" "ticks d2 \<le> ticks d3" using t by simp_all
    ultimately have "\<exists>t. arch_get_time B base d = Some (of_nat t, d3) \<and> ticks d \<le> t \<and> t \<le> ticks d3"
      by blast
    then show thesis using that(1) [of d3] t by simp
  next
    case False
    then have "ticks d1 div 2 ^ 32 \<noteq> ticks d3 div 2 ^ 32" using t(1,7) by auto
    moreover have "ticks d div 2 ^ 32 \<le> ticks d1 div 2 ^ 32" "ticks d1 div 2 ^ 32 \<le> ticks d3 div 2 ^ 32"
      using t by (simp_all add: div_le_mono)
    ultimately show thesis using that(2) [of d3] t step False by simp
  qed
qed

lemma get_time_in_two_turns:
  assumes ok: "timer_ok B base ticks"
  shows "\<exists>t d'. arch_get_time B base d = Some (of_nat t, d') \<and> ticks d \<le> t \<and> t \<le> ticks d' \<and>
    ticks d' \<le> ticks d + 6 * 2 ^ 29"
proof (rule get_time_turn [OF ok, of d])
  fix d' assume first: "ticks d \<le> ticks d'" "ticks d' \<le> ticks d + 3 * 2 ^ 29"
    "arch_get_time B base d = arch_get_time B base d'" "ticks d div 2 ^ 32 < ticks d' div 2 ^ 32"
  have "ticks d' mod 2 ^ 32 \<le> 3 * 2 ^ 29" using first(2,4) by (rule just_passed)
  then have "\<not> ticks d' div 2 ^ 32 < t div 2 ^ 32" if "t \<le> ticks d' + 3 * 2 ^ 29" for t
    using that by (intro still_far) simp_all
  with get_time_turn [OF ok, of d'] obtain d'' where "ticks d'' \<le> ticks d' + 3 * 2 ^ 29"
      "\<exists>t. arch_get_time B base d' = Some (of_nat t, d'') \<and> ticks d' \<le> t \<and> t \<le> ticks d''"
    by metis
  then obtain t where "arch_get_time B base d' = Some (of_nat t, d'')" "ticks d' \<le> t" "t \<le> ticks d''"
      "ticks d'' \<le> ticks d' + 3 * 2 ^ 29" by blast
  then show ?thesis using first by (intro exI [of _ t] exI [of _ d'']) simp
next
  fix d' assume "ticks d' \<le> ticks d + 3 * 2 ^ 29"
    "\<exists>t. arch_get_time B base d = Some (of_nat t, d') \<and> ticks d \<le> t \<and> t \<le> ticks d'"
  then show ?thesis by auto
qed

text \<open>
  C25: Reading the clock ends, whenever it is called, and the result is no mixture of two times: it is
  the value, modulo \<open>2\<^sup>6\<^sup>4\<close>, that the 64-bit counter had at some moment between the call and its
  return, even when the lower half overflows in between.
\<close>

theorem get_time_not_torn:
  assumes "timer_ok B base ticks"
  shows "\<exists>t d'. arch_get_time B base d = Some (of_nat t, d') \<and> ticks d \<le> t \<and> t \<le> ticks d'"
  using get_time_in_two_turns [OF assms] by blast

text \<open>A timer that advances by 700 ticks with each access; the call starts just before an overflow.\<close>

definition example_timer :: "nat reg_bus" where
  "example_timer =
     \<lparr>rd32 = (\<lambda>r d. (if r = 0x18 then of_nat ((d + 700) div 2 ^ 32) else of_nat (d + 700), d + 700)),
      wr32 = (\<lambda>r v d. d + 700)\<rparr>"

lemma example_timer_ok: "timer_ok example_timer 0 id"
  by (simp add: timer_ok_def example_timer_def timer_regs)

theorem get_time_not_torn_witness:
  "\<exists>t d'. arch_get_time example_timer 0 4294966000 = Some (of_nat t, d') \<and> 4294966000 \<le> t \<and> t \<le> d'"
  using get_time_not_torn [OF example_timer_ok, of 4294966000] by simp

text \<open>Here the first turn is thrown away: the upper half changes from 0 to 1 between its reads.\<close>

lemma example_second_turn: "arch_get_time example_timer 0 4294966000 = Some (0x10000089C, 4294970200)"
  by (simp add: arch_get_time.simps [of _ _ 4294966000] arch_get_time.simps [of _ _ 4294968100] example_timer_def timer_regs timer_get_hi_def
      timer_get_lo_def clock_helper_def push_bit_eq_mult)

text \<open>The difference of two times is the time that has passed, up to the duration of the two calls.\<close>

lemma elapsed_time:
  assumes ok: "timer_ok B base ticks" and "arch_get_time B base d = Some (start, d1)"
    and "ticks d1 \<le> ticks d2" "arch_get_time B base d2 = Some (stop, d3)" "ticks d3 < ticks d + 2 ^ 64"
  shows "ticks d2 - ticks d1 \<le> unat (stop - start)" "unat (stop - start) \<le> ticks d3 - ticks d"
proof -
  obtain t where t: "start = of_nat t" "ticks d \<le> t" "t \<le> ticks d1"
    using get_time_in_two_turns [OF ok, of d] assms(2) by auto
  obtain u where u: "stop = of_nat u" "ticks d2 \<le> u" "u \<le> ticks d3"
    using get_time_in_two_turns [OF ok, of d2] assms(4) by auto
  have "stop - start = of_nat (u - t)" using t u assms(3) by (simp add: of_nat_diff)
  moreover have "u < t + 2 ^ 64" using t u assms(5) by linarith
  then have "u - t < 2 ^ 64" by simp
  ultimately have "unat (stop - start) = u - t" by (simp add: unat_of_nat)
  then show "ticks d2 - ticks d1 \<le> unat (stop - start)" "unat (stop - start) \<le> ticks d3 - ticks d"
    using t u by linarith+
qed

lemma times_ticks:
  assumes ok: "timer_ok B base ticks" and "0 < hz" "0 \<le> cps" "int (ticks d + 6 * 2 ^ 29) * max 1 cps < 2 ^ 63"
  shows "\<exists>t d'. times B base hz cps True d = Some (of_nat t, Some [of_int (int t * cps div hz), 0, 0, 0], d') \<and>
    ticks d \<le> t \<and> t \<le> ticks d'"
proof -
  obtain t d' where t: "arch_get_time B base d = Some (of_nat t, d')" "ticks d \<le> t" "t \<le> ticks d'"
      "ticks d' \<le> ticks d + 6 * 2 ^ 29" using get_time_in_two_turns [OF ok] by blast
  then have "int t * max 1 cps \<le> int (ticks d + 6 * 2 ^ 29) * max 1 cps" by (intro mult_right_mono) simp_all
  then have le: "int t * max 1 cps < 2 ^ 63" using assms(4) by linarith
  have "int t * 1 \<le> int t * max 1 cps" "int t * cps \<le> int t * max 1 cps"
    by (intro mult_left_mono; simp)+
  then have "int t < 2 ^ 63" "int t * cps < 2 ^ 63" using le by linarith+
  then have "sint (of_nat t :: 64 word) = int t"
    by (simp add: sint_uint uint_nat unat_of_nat signed_take_bit_int_eq_self_iff)
  moreover have "0 \<le> int t * cps" using assms(3) by simp
  then have "int t * cps sdiv hz = int t * cps div hz" using assms(2) by (simp add: signed_divide_int_def sgn_if)
  moreover have "- (2 ^ 63) \<le> int t * cps" 
    by (rule order_trans [OF _ \<open>0 \<le> int t * cps\<close>]) simp
  moreover have "(ucast (of_nat t :: 64 word) :: Huint) = of_nat t" 
    by (rule bit_word_eqI) (auto simp: bit_ucast_iff bit_of_nat_iff)
  ultimately have "times B base hz cps True d = Some (of_nat t, Some [of_int (int t * cps div hz), 0, 0, 0], d')"
    using t(1) assms(2) \<open>int t * cps < 2 ^ 63\<close> by (simp add: times_def Let_def)
  then show ?thesis using t by blast
qed

text \<open>
  The product overflows early: at 100 MHz the call has no defined result any more when it reads a
  time of a little more than 15 minutes.
\<close>

lemma times_overflows:
  assumes "arch_get_time B base d = Some (clock, d')" "sint clock > 15 * 62 * 100000000"
  shows "times B base 100000000 100000000 True d = None"
  using assms by (simp add: times_def Let_def)

text \<open>Initialisation on registers that keep what is written: both halves are zero, counting up from there.\<close>

definition plain_registers :: "(Huint \<Rightarrow> Huint) reg_bus" where
  "plain_registers = \<lparr>rd32 = (\<lambda>r d. (d r, d)), wr32 = (\<lambda>r v d. d(r := v))\<rparr>"

lemma init_timer_registers:
  "init_timer plain_registers base d =
     d(base := 0x890, base + 0x10 := 0, base + 0x4 := 0, base + 0x14 := 0)"
  by (simp add: init_timer_def plain_registers_def timer_regs assign_field_def fun_eq_iff set_bit_eq_or unset_bit_eq_and_not)

end
