(* ===== verification/Vga.thy ===== *)
theory Vga
  imports Hthreads_Prelude
begin

text \<open>
  The driver of the VGA controller (\<^verbatim>\<open>src/software/drivers/vga/vga.c\<close>): a frame buffer of 2 MB with
  lines of 1024 words, or two of them, one shown while the other is drawn. Memory, the frame
  buffers and the two registers of the controller are words at byte addresses; 0 is the null
  pointer. The address that \<^verbatim>\<open>memalign\<close> returns is a parameter, and so are the byte that
  \<^verbatim>\<open>vga_make\<close> leaves undefined and the byte order (how four bytes make a word). Caches, which
  \<^verbatim>\<open>vga_flip\<close> flushes, are not visible here.
\<close>

section \<open>Data\<close>

type_synonym words = "Huint \<Rightarrow> Huint"

record vga_config =
  config_base :: Huint
  config_dbuf :: Huint
  config_width :: Huint
  config_height :: Huint

record vga =
  addr :: Huint
  enable :: Huint
  width :: Huint
  height :: Huint
  memory :: Huint
  fbase :: Huint
  dbase :: Huint

record vga_port =
  undefined_alpha :: "8 word"
  pack :: "8 word \<Rightarrow> 8 word \<Rightarrow> 8 word \<Rightarrow> 8 word \<Rightarrow> Huint"

definition vga_make :: "vga_port \<Rightarrow> 8 word \<Rightarrow> 8 word \<Rightarrow> 8 word \<Rightarrow> Huint" where
  "vga_make V r g b = pack V (undefined_alpha V) r g b"

text \<open>The address of \<^verbatim>\<open>base[1024*y + x]\<close> and an assignment to it; clearing and copying of memory.\<close>

definition pixel_addr :: "Huint \<Rightarrow> Huint \<Rightarrow> Huint \<Rightarrow> Huint" where
  "pixel_addr base x y = base + 4 * (1024 * y + x)"

definition put_pixel :: "Huint \<Rightarrow> Huint \<Rightarrow> Huint \<Rightarrow> Huint \<Rightarrow> words \<Rightarrow> words" where
  "put_pixel base x y v m = m(pixel_addr base x y := v)"

definition memset_zero :: "Huint \<Rightarrow> Huint \<Rightarrow> words \<Rightarrow> words" where
  "memset_zero p n m = (\<lambda>a. if a - p < n then 0 else m a)"

definition memcpy :: "Huint \<Rightarrow> Huint \<Rightarrow> Huint \<Rightarrow> words \<Rightarrow> words" where
  "memcpy dst src n m = (\<lambda>a. if a - dst < n then m (src + (a - dst)) else m a)"

section \<open>Starting and stopping\<close>

definition vga_enable :: "vga \<Rightarrow> words \<Rightarrow> words" where
  "vga_enable vga m = m(addr vga := if dbase vga \<noteq> 0 then dbase vga else fbase vga, enable vga := 3)"

definition vga_disable :: "vga \<Rightarrow> words \<Rightarrow> words" where
  "vga_disable vga m = m(enable vga := 0, addr vga := 0)"

definition vga_init :: "Huint \<Rightarrow> vga \<Rightarrow> vga_config \<Rightarrow> words \<Rightarrow> Hint \<times> vga \<times> words" where
  "vga_init memalign vga config m =
     (let vga = vga\<lparr>addr := config_base config, enable := config_base config + 4,
                    width := config_width config, height := config_height config\<rparr>;
          n = (if config_dbuf config = Htrue then 2 * 1024 * 1024 * 2 else 2 * 1024 * 1024);
          vga = vga\<lparr>memory := memalign\<rparr>
      in if memory vga = 0 then (- ENOMEM, vga, m)
         else
           let vga = vga\<lparr>fbase := memory vga\<rparr>;
               vga = vga\<lparr>dbase := if config_dbuf config = Htrue then fbase vga + 4 * 0x80000 else 0\<rparr>
           in (0, vga, vga_enable vga (memset_zero (memory vga) n m)))"

definition vga_destroy :: "vga \<Rightarrow> words \<Rightarrow> Hint \<times> vga \<times> words" where
  "vga_destroy vga m =
     (0, vga\<lparr>addr := 0, enable := 0, width := 0, height := 0, memory := 0, fbase := 0, dbase := 0\<rparr>,
      vga_disable vga m)"

definition vga_flip :: "vga \<Rightarrow> words \<Rightarrow> vga \<times> words" where
  "vga_flip vga m =
     (if dbase vga \<noteq> 0
      then (vga\<lparr>fbase := dbase vga, dbase := fbase vga\<rparr>, m(addr vga := fbase vga))
      else (vga, m))"

section \<open>Drawing\<close>

text \<open>The loops over a row and over the rows count words up to a bound.\<close>

lemma unat_inc: "x < y \<Longrightarrow> unat (x + 1) = unat x + 1" for x y :: Huint
  using unat_bound [of y] by (simp add: word_less_nat_alt unat_word_ariths)

function fill_row :: "(Huint \<Rightarrow> Huint) \<Rightarrow> Huint \<Rightarrow> Huint \<Rightarrow> Huint \<Rightarrow> Huint \<Rightarrow> words \<Rightarrow> words" where
  "fill_row col base y x xend m =
     (if x < xend then fill_row col base y (x + 1) xend (put_pixel base x y (col x) m) else m)"
  by pat_completeness auto

termination fill_row
  by (relation "measure (\<lambda>(_, _, _, x, xend, _). unat xend - unat x)")
    (simp_all add: unat_inc word_less_nat_alt)

function fill_rows ::
  "(Huint \<Rightarrow> Huint \<Rightarrow> Huint) \<Rightarrow> Huint \<Rightarrow> Huint \<Rightarrow> Huint \<Rightarrow> Huint \<Rightarrow> Huint \<Rightarrow> words \<Rightarrow> words" where
  "fill_rows col base y yend x xend m =
     (if y < yend then fill_rows col base (y + 1) yend x xend (fill_row (col y) base y x xend m) else m)"
  by pat_completeness auto

termination fill_rows
  by (relation "measure (\<lambda>(_, _, y, yend, _, _, _). unat yend - unat y)")
    (simp_all add: unat_inc word_less_nat_alt)

declare fill_row.simps [simp del] fill_rows.simps [simp del]

definition vga_clearto :: "vga \<Rightarrow> Huint \<Rightarrow> words \<Rightarrow> words" where
  "vga_clearto vga col m = fill_rows (\<lambda>_ _. col) (fbase vga) 0 (height vga) 0 (width vga) m"

definition vga_clear :: "vga_port \<Rightarrow> vga \<Rightarrow> words \<Rightarrow> words" where
  "vga_clear V vga m = vga_clearto vga (vga_make V 0 0 0) m"

definition vga_fill :: "vga \<Rightarrow> Huint \<Rightarrow> Huint \<Rightarrow> Huint \<Rightarrow> Huint \<Rightarrow> Huint \<Rightarrow> words \<Rightarrow> words" where
  "vga_fill vga x y w h col m = fill_rows (\<lambda>_ _. col) (fbase vga) y (y + h) x (x + w) m"

function copy_rows :: "Huint \<Rightarrow> Huint \<Rightarrow> Huint \<Rightarrow> Huint \<Rightarrow> Huint \<Rightarrow> words \<Rightarrow> words" where
  "copy_rows base copy w y yend m =
     (if y < yend
      then copy_rows base copy w (y + 1) yend (memcpy (pixel_addr base 0 y) (copy + 4 * (w * y)) (w * 4) m)
      else m)"
  by pat_completeness auto

termination copy_rows
  by (relation "measure (\<lambda>(_, _, _, y, yend, _). unat yend - unat y)")
    (simp_all add: unat_inc word_less_nat_alt)

definition vga_copy :: "vga \<Rightarrow> Huint \<Rightarrow> words \<Rightarrow> words" where
  "vga_copy vga copy m = copy_rows (fbase vga) copy (width vga) 0 (height vga) m"

text \<open>\<^verbatim>\<open>vga_framecopy\<close> doubles a grey picture in both directions; \<open>frame i\<close> is byte \<open>i\<close> of the picture.\<close>

definition vga_framecopy :: "vga_port \<Rightarrow> vga \<Rightarrow> (Huint \<Rightarrow> 8 word) \<Rightarrow> Huint \<Rightarrow> Huint \<Rightarrow> Huint \<Rightarrow> words \<Rightarrow> words" where
  "vga_framecopy V vga frame w h d m =
     fill_rows (\<lambda>y x. let c = frame ((y div 2) * w + x div 2) in vga_make V c c c)
       (fbase vga) 0 (height vga) 0 (width vga) m"

section \<open>What is drawn\<close>

text \<open>A point of the frame buffer: column \<open>i\<close> below 1024, row \<open>j\<close> below 512.\<close>

definition pixel :: "Huint \<Rightarrow> words \<Rightarrow> Huint \<Rightarrow> Huint \<Rightarrow> Huint" where
  "pixel base m i j = m (pixel_addr base i j)"

lemma pixel_offset: "i < 1024 \<Longrightarrow> j < 512 \<Longrightarrow> unat (pixel_addr base i j - base) = 4 * (1024 * unat j + unat i)"
  by (simp add: pixel_addr_def word_less_nat_alt unat_word_ariths)

lemma pixel_addr_eq_iff:
  assumes "i < 1024" "j < 512" "x < 1024" "y < 512"
  shows "pixel_addr base i j = pixel_addr base x y \<longleftrightarrow> i = x \<and> j = y"
proof
  assume "pixel_addr base i j = pixel_addr base x y"
  then have "4 * (1024 * unat j + unat i) = 4 * (1024 * unat y + unat x)"
    using pixel_offset [of i j base] pixel_offset [of x y base] assms by simp
  then have eq: "1024 * unat j + unat i = 1024 * unat y + unat x" by simp
  have "unat i < 1024" "unat x < 1024" using assms by (simp_all add: word_less_nat_alt)
  then have "(1024 * unat j + unat i) div 1024 = unat j" "(1024 * unat y + unat x) div 1024 = unat y" by simp_all
  then have "unat j = unat y" using eq by simp
  then have "unat j = unat y" "unat i = unat x" using eq by simp_all
  then show "i = x \<and> j = y" by (simp add: word_unat_eq_iff)
qed simp

lemma pixel_addr_inside: "i < 1024 \<Longrightarrow> j < 512 \<Longrightarrow> pixel_addr base i j - base < 0x200000"
  using pixel_offset [of i j base] by (simp add: word_less_nat_alt)

lemma inc_le: "x < y \<Longrightarrow> x + 1 \<le> i \<longleftrightarrow> x \<le> i \<and> x \<noteq> i" for x y i :: Huint
  using unat_inc [of x y] by (auto simp: word_le_nat_alt word_less_nat_alt word_unat_eq_iff)

lemma fill_row_pixel:
  assumes "i < 1024" "j < 512" "y < 512" "xend \<le> 1024"
  shows "pixel base (fill_row col base y x xend m) i j =
    (if j = y \<and> x \<le> i \<and> i < xend then col i else pixel base m i j)"
  using assms
proof (induction col base y x xend m rule: fill_row.induct)
  case (1 col base y x xend m)
  show ?case
  proof (cases "x < xend")
    case True
    then have "x < 1024" using 1(5) by simp
    then have "pixel base (put_pixel base x y (col x) m) i j =
        (if i = x \<and> j = y then col x else pixel base m i j)"
      using 1 by (simp add: pixel_def put_pixel_def pixel_addr_eq_iff)
    then show ?thesis using 1 True by (subst fill_row.simps) (auto simp: inc_le)
  next
    case False
    then show ?thesis by (subst fill_row.simps) auto
  qed
qed

lemma fill_row_outside:
  assumes "y < 512" "xend \<le> 1024" "\<not> a - base < 0x200000"
  shows "fill_row col base y x xend m a = m a"
  using assms
proof (induction col base y x xend m rule: fill_row.induct)
  case (1 col base y x xend m)
  have "x < xend \<Longrightarrow> put_pixel base x y (col x) m a = m a"
    using 1 pixel_addr_inside [of x y base] by (auto simp: put_pixel_def)
  then show ?case using 1 by (subst fill_row.simps) simp
qed

lemma fill_rows_pixel:
  assumes "i < 1024" "j < 512" "yend \<le> 512" "xend \<le> 1024"
  shows "pixel base (fill_rows col base y yend x xend m) i j =
    (if y \<le> j \<and> j < yend \<and> x \<le> i \<and> i < xend then col j i else pixel base m i j)"
  using assms
proof (induction col base y yend x xend m rule: fill_rows.induct)
  case (1 col base y yend x xend m)
  show ?case
  proof (cases "y < yend")
    case True
    then have "y < 512" using 1(4) by simp
    then show ?thesis using 1 True by (subst fill_rows.simps) (auto simp: inc_le fill_row_pixel)
  next
    case False
    then show ?thesis by (subst fill_rows.simps) auto
  qed
qed

lemma fill_rows_outside:
  assumes "yend \<le> 512" "xend \<le> 1024" "\<not> a - base < 0x200000"
  shows "fill_rows col base y yend x xend m a = m a"
  using assms
proof (induction col base y yend x xend m rule: fill_rows.induct)
  case (1 col base y yend x xend m)
  have "y < yend \<Longrightarrow> y < 512" using 1(2) by simp
  then show ?case using 1 by (subst fill_rows.simps) (simp add: fill_row_outside)
qed

text \<open>Filling a rectangle inside the frame buffer.\<close>

lemma rectangle_bounds:
  fixes x w y h :: Huint
  assumes "unat x + unat w \<le> 1024" "unat y + unat h \<le> 512"
  shows "x + w \<le> 1024" "y + h \<le> 512"
  using assms by (simp_all add: word_le_nat_alt unat_word_ariths)

lemma fill_pixel:
  assumes "unat x + unat w \<le> 1024" "unat y + unat h \<le> 512" "i < 1024" "j < 512"
  shows "pixel (fbase vga) (vga_fill vga x y w h col m) i j =
    (if y \<le> j \<and> j < y + h \<and> x \<le> i \<and> i < x + w then col else pixel (fbase vga) m i j)"
  using rectangle_bounds [OF assms(1,2)] assms(3,4) by (simp add: vga_fill_def fill_rows_pixel)

lemma fill_outside:
  assumes "unat x + unat w \<le> 1024" "unat y + unat h \<le> 512" "\<not> a - fbase vga < 0x200000"
  shows "vga_fill vga x y w h col m a = m a"
  using rectangle_bounds [OF assms(1,2)] assms(3) by (simp add: vga_fill_def fill_rows_outside)

lemma clearto_pixel:
  assumes "width vga \<le> 1024" "height vga \<le> 512" "i < 1024" "j < 512"
  shows "pixel (fbase vga) (vga_clearto vga col m) i j =
    (if j < height vga \<and> i < width vga then col else pixel (fbase vga) m i j)"
  using assms by (simp add: vga_clearto_def fill_rows_pixel)

lemma framecopy_pixel:
  assumes "width vga \<le> 1024" "height vga \<le> 512" "i < width vga" "j < height vga"
  shows "pixel (fbase vga) (vga_framecopy V vga frame w h d m) i j =
    (let c = frame ((j div 2) * w + i div 2) in vga_make V c c c)"
  using assms by (simp add: vga_framecopy_def fill_rows_pixel order_less_le_trans)

section \<open>Double buffering\<close>

text \<open>What the screen shows, and the state in which one buffer is shown and another one is drawn.\<close>

definition shown :: "vga \<Rightarrow> words \<Rightarrow> Huint \<Rightarrow> Huint \<Rightarrow> Huint" where
  "shown vga m = pixel (m (addr vga)) m"

definition double_buffered :: "vga \<Rightarrow> words \<Rightarrow> bool" where
  "double_buffered vga m \<longleftrightarrow>
     fbase vga \<noteq> 0 \<and> dbase vga \<noteq> 0 \<and> m (addr vga) = dbase vga \<and>
     \<not> dbase vga - fbase vga < 0x200000 \<and> \<not> fbase vga - dbase vga < 0x200000 \<and>
     \<not> addr vga - fbase vga < 0x200000 \<and> \<not> addr vga - dbase vga < 0x200000"

lemma word_sub_le: "v \<le> u \<Longrightarrow> u - v \<le> u" for u v :: Huint
  by (simp add: word_le_nat_alt unat_sub)

lemma blocks_apart:
  fixes f d :: Huint
  assumes "\<not> d - f < n" "\<not> f - d < n" "a - d < n"
  shows "\<not> a - f < n"
proof
  assume "a - f < n"
  have "d - f = (a - f) - (a - d)" "f - d = (a - d) - (a - f)" by simp_all
  then have "d - f \<le> a - f \<or> f - d \<le> a - d"
    using word_sub_le [of "a - d" "a - f"] word_sub_le [of "a - f" "a - d"] linear [of "a - d" "a - f"] by metis
  then show False using assms \<open>a - f < n\<close> by auto
qed

lemma fill_hidden:
  assumes "double_buffered vga m" "unat x + unat w \<le> 1024" "unat y + unat h \<le> 512" "i < 1024" "j < 512"
  shows "vga_fill vga x y w h col m (addr vga) = dbase vga"
    "pixel (dbase vga) (vga_fill vga x y w h col m) i j = pixel (dbase vga) m i j"
proof -
  have apart: "\<not> dbase vga - fbase vga < 0x200000" "\<not> fbase vga - dbase vga < 0x200000"
    "\<not> addr vga - fbase vga < 0x200000" "m (addr vga) = dbase vga"
    using assms(1) by (simp_all add: double_buffered_def)
  have "\<not> pixel_addr (dbase vga) i j - fbase vga < 0x200000"
    using apart(1,2) pixel_addr_inside [OF assms(4,5)] by (rule blocks_apart)
  then show "vga_fill vga x y w h col m (addr vga) = dbase vga"
    "pixel (dbase vga) (vga_fill vga x y w h col m) i j = pixel (dbase vga) m i j"
    using fill_outside [OF assms(2,3)] apart(3,4) by (simp_all add: pixel_def)
qed

lemma pixel_other: "\<not> a - base < 0x200000 \<Longrightarrow> i < 1024 \<Longrightarrow> j < 512 \<Longrightarrow>
    pixel base (m(a := v)) i j = pixel base m i j"
  using pixel_addr_inside [of i j base] by (auto simp: pixel_def)

text \<open>
  C37: With two frame buffers the screen never shows a picture that is half drawn. Filling any
  rectangle inside the screen leaves every point that is shown as it was; flipping then shows
  exactly the old contents of the hidden buffer with the rectangle in the new colour, hides what
  was shown before unchanged, and leaves the driver ready for the next picture.
\<close>

theorem double_buffering:
  assumes "double_buffered vga m" "unat x + unat w \<le> 1024" "unat y + unat h \<le> 512" "i < 1024" "j < 512"
    and "vga_fill vga x y w h col m = m1" "vga_flip vga m1 = (vga', m2)"
  shows "shown vga m1 i j = shown vga m i j \<and>
    shown vga' m2 i j =
      (if y \<le> j \<and> j < y + h \<and> x \<le> i \<and> i < x + w then col else pixel (fbase vga) m i j) \<and>
    pixel (fbase vga') m2 i j = shown vga m i j \<and> double_buffered vga' m2"
proof -
  note hidden = fill_hidden [OF assms(1-5), of col]
  have ok: "fbase vga \<noteq> 0" "dbase vga \<noteq> 0" "m (addr vga) = dbase vga"
      "\<not> addr vga - fbase vga < 0x200000" "\<not> addr vga - dbase vga < 0x200000"
    using assms(1) by (simp_all add: double_buffered_def)
  then have flip: "vga' = vga\<lparr>fbase := dbase vga, dbase := fbase vga\<rparr>" "m2 = m1(addr vga := fbase vga)"
    using assms(7) by (simp_all add: vga_flip_def)
  have "shown vga m1 i j = shown vga m i j" using hidden ok assms(6) by (simp add: shown_def)
  moreover have "shown vga' m2 i j = pixel (fbase vga) m1 i j" "pixel (fbase vga') m2 i j = pixel (dbase vga) m1 i j"
    using ok assms(4,5) by (simp_all add: flip shown_def pixel_other)
  moreover have "double_buffered vga' m2" using assms(1) by (simp add: flip double_buffered_def)
  ultimately show ?thesis
    using fill_pixel [OF assms(2-5), of vga col m] hidden ok assms(6) by (simp add: shown_def)
qed

text \<open>A screen whose two buffers lie at 4 and 6 MB; a rectangle of two points is drawn and shown.\<close>

definition example_vga :: vga where
  "example_vga = \<lparr>addr = 0x500, enable = 0x504, width = 640, height = 480, memory = 0x400000,
     fbase = 0x400000, dbase = 0x600000\<rparr>"

definition example_words :: words where
  "example_words = (\<lambda>a. if a = 0x500 then 0x600000 else 0)"

definition example_flip :: "vga \<times> words" where
  "example_flip = vga_flip example_vga (vga_fill example_vga 5 3 2 1 9 example_words)"

lemma example_double_buffered: "double_buffered example_vga example_words"
  by (simp add: double_buffered_def example_vga_def example_words_def)

theorem double_buffering_witness:
  "shown (fst example_flip) (snd example_flip) 6 3 = 9 \<and> double_buffered (fst example_flip) (snd example_flip)"
  using double_buffering [OF example_double_buffered, of 5 2 3 1 6 3 9 _ "fst example_flip" "snd example_flip"]
  by (simp add: example_flip_def)

text \<open>Initialisation with two buffers gives this state, with a black picture in both.\<close>

lemma init_double_buffered:
  assumes "p \<noteq> 0" "p + 0x200000 \<noteq> 0" "config_dbuf config = Htrue"
    and "\<not> config_base config - p < 0x400000" "\<not> config_base config - (p + 0x200000) < 0x200000"
  shows "case vga_init p v config m of (r, vga, m') \<Rightarrow>
    r = 0 \<and> double_buffered vga m' \<and> fbase vga = p \<and> dbase vga = p + 0x200000"
proof -
  have "\<not> config_base config - p < 0x200000"
    using assms(4) order_less_trans [of "config_base config - p" "0x200000" "0x400000"] by auto
  moreover have "\<not> p - (p + 0x200000) < (0x200000 :: Huint)" by simp
  ultimately show ?thesis
    using assms by (simp add: vga_init_def Let_def vga_enable_def double_buffered_def status_defs)
qed

end
