(* ===== verification/Gpio.thy ===== *)
theory Gpio
  imports Block_Device
begin

text \<open>
  The driver of the general purpose input and output ports (\<^verbatim>\<open>src/software/drivers/gpio/gpio.c\<close>).
  The port is the parameter \<open>B\<close>; the pins are wired so that a lit output is a zero, so data are
  inverted on the way out and in. Addresses of registers that a port does not have are 0. A
  channel other than 0 and 1 and a shift by 32 or more give \<open>None\<close>.
\<close>

section \<open>Data and operations\<close>

record gpio_config =
  gc_base :: Huint
  gc_bits :: Huint
  gc_dual :: bool
  gc_intr :: bool

record gpio =
  bits :: Huint
  gdata :: "Huint list"
  direction :: "Huint list"
  gier :: Huint
  ier :: Huint
  isr :: Huint

definition gpio_create :: "gpio_config \<Rightarrow> Hint \<times> gpio" where
  "gpio_create config =
     (let b = gc_base config in
      (SUCCESS,
       \<lparr>bits = gc_bits config,
        gdata = [b + 0x00, if gc_dual config then b + 0x08 else 0],
        direction = [b + 0x04, if gc_dual config then b + 0x0C else 0],
        gier = if gc_intr config then b + 0x11C else 0,
        ier = if gc_intr config then b + 0x128 else 0,
        isr = if gc_intr config then b + 0x120 else 0\<rparr>))"

definition gpio_destroy :: "gpio \<Rightarrow> Hint \<times> gpio" where
  "gpio_destroy g = (SUCCESS, g\<lparr>gdata := [0, 0], direction := [0, 0], gier := 0, ier := 0, isr := 0\<rparr>)"

definition channel_reg :: "Huint list \<Rightarrow> Huint \<Rightarrow> Huint option" where
  "channel_reg rs channel = (if unat channel < length rs then Some (rs ! unat channel) else None)"

definition gpio_setdirection :: "'d reg_bus \<Rightarrow> gpio \<Rightarrow> Huint \<Rightarrow> Huint \<Rightarrow> 'd \<Rightarrow> 'd option" where
  "gpio_setdirection B g channel sel d =
     map_option (\<lambda>r. if r = 0 then d else wr32 B r sel d) (channel_reg (direction g) channel)"

definition gpio_getdirection :: "'d reg_bus \<Rightarrow> gpio \<Rightarrow> Huint \<Rightarrow> 'd \<Rightarrow> (Huint \<times> 'd) option" where
  "gpio_getdirection B g channel d =
     map_option (\<lambda>r. if r = 0 then (0, d) else rd32 B r d) (channel_reg (direction g) channel)"

definition gpio_setdata :: "'d reg_bus \<Rightarrow> gpio \<Rightarrow> Huint \<Rightarrow> Huint \<Rightarrow> 'd \<Rightarrow> 'd option" where
  "gpio_setdata B g channel v d =
     map_option (\<lambda>r. if r = 0 then d else wr32 B r (NOT v) d) (channel_reg (gdata g) channel)"

definition gpio_getdata :: "'d reg_bus \<Rightarrow> gpio \<Rightarrow> Huint \<Rightarrow> 'd \<Rightarrow> (Huint \<times> 'd) option" where
  "gpio_getdata B g channel d =
     (case channel_reg (gdata g) channel of
        None \<Rightarrow> None
      | Some r \<Rightarrow>
          if r = 0 then Some (0, d)
          else if bits g \<ge> 32 then None
          else let (v, d) = rd32 B r d in Some (NOT v AND (push_bit (unat (bits g)) 1 - 1), d))"

definition gpio_globalenable :: "'d reg_bus \<Rightarrow> gpio \<Rightarrow> 'd \<Rightarrow> 'd" where
  "gpio_globalenable B g d = (if gier g = 0 then d else wr32 B (gier g) 0xFFFFFFFF d)"

definition gpio_globaldisable :: "'d reg_bus \<Rightarrow> gpio \<Rightarrow> 'd \<Rightarrow> 'd" where
  "gpio_globaldisable B g d = (if gier g = 0 then d else wr32 B (gier g) 0 d)"

definition gpio_enable :: "'d reg_bus \<Rightarrow> gpio \<Rightarrow> Huint \<Rightarrow> 'd \<Rightarrow> 'd" where
  "gpio_enable B g sel d =
     (if ier g = 0 then d else let (v, d) = rd32 B (ier g) d in wr32 B (ier g) (sel OR v) d)"

definition gpio_disable :: "'d reg_bus \<Rightarrow> gpio \<Rightarrow> Huint \<Rightarrow> 'd \<Rightarrow> 'd" where
  "gpio_disable B g sel d =
     (if ier g = 0 then d else let (v, d) = rd32 B (ier g) d in wr32 B (ier g) (NOT sel AND v) d)"

definition gpio_clear :: "'d reg_bus \<Rightarrow> gpio \<Rightarrow> Huint \<Rightarrow> 'd \<Rightarrow> 'd" where
  "gpio_clear B g sel d =
     (if isr g = 0 then d else let (v, d) = rd32 B (isr g) d in wr32 B (isr g) (sel AND v) d)"

section \<open>Laws\<close>

text \<open>A register that reads back what was written to it.\<close>

definition holds :: "'d reg_bus \<Rightarrow> Huint \<Rightarrow> bool" where
  "holds B r \<longleftrightarrow> (\<forall>v d. \<exists>d'. rd32 B r (wr32 B r v d) = (v, d'))"

text \<open>Data written to an output read back, limited to the pins of the port.\<close>

lemma data_roundtrip:
  assumes "channel_reg (gdata g) channel = Some r" "r \<noteq> 0" "holds B r" "bits g < 32"
  shows "\<exists>d1 d2. gpio_setdata B g channel v d = Some d1 \<and>
    gpio_getdata B g channel d1 = Some (take_bit (unat (bits g)) v, d2)"
proof -
  obtain d' where "rd32 B r (wr32 B r (NOT v) d) = (NOT v, d')" using assms(3) unfolding holds_def by blast
  moreover have "unat (bits g) < 32" using assms(4) by (simp add: word_less_nat_alt)
  ultimately show ?thesis using assms
    by (simp add: gpio_setdata_def gpio_getdata_def take_bit_eq_mask mask_eq_exp_minus_1 not_le)
qed

text \<open>Enabling and disabling interrupts change exactly the bits of the mask.\<close>

lemma enable_bits:
  assumes "ier g \<noteq> 0" "holds B (ier g)" "rd32 B (ier g) d = (old, d1)"
  shows "\<exists>v d'. rd32 B (ier g) (gpio_enable B g sel d) = (v, d') \<and> (\<forall>n. bit v n \<longleftrightarrow> bit sel n \<or> bit old n)"
  using assms(1,3) assms(2) [unfolded holds_def, rule_format, of "sel OR old" d1]
  by (auto simp: gpio_enable_def bit_or_iff)

lemma disable_bits:
  assumes "ier g \<noteq> 0" "holds B (ier g)" "rd32 B (ier g) d = (old, d1)"
  shows "\<exists>v d'. rd32 B (ier g) (gpio_disable B g sel d) = (v, d') \<and> (\<forall>n < 32. bit v n \<longleftrightarrow> bit old n \<and> \<not> bit sel n)"
  using assms(1,3) assms(2) [unfolded holds_def, rule_format, of "NOT sel AND old" d1]
  by (auto simp: gpio_disable_def bit_and_iff bit_not_iff)

text \<open>A port without interrupts or without a second channel is left alone.\<close>

lemma missing_parts:
  assumes "gpio_create c = (r, g)"
  shows "\<not> gc_intr c \<Longrightarrow> gpio_enable B g sel d = d" "\<not> gc_intr c \<Longrightarrow> gpio_disable B g sel d = d"
    "\<not> gc_intr c \<Longrightarrow> gpio_clear B g sel d = d" "\<not> gc_dual c \<Longrightarrow> gpio_setdata B g 1 v d = Some d"
    "\<not> gc_dual c \<Longrightarrow> gpio_getdata B g 1 d = Some (0, d)"
  using assms by (auto simp: gpio_create_def Let_def gpio_enable_def gpio_disable_def gpio_clear_def
      gpio_setdata_def gpio_getdata_def channel_reg_def)

end
