(* ===== verification/Profile.thy ===== *)
theory Profile
  imports Hthreads_Prelude
begin

text \<open>
  The stores of the profiling library, the macros of \<^verbatim>\<open>include/profile/storage\<close> (\<^verbatim>\<open>buffer.h\<close>,
  \<^verbatim>\<open>histogram.h\<close>, \<^verbatim>\<open>sum.h\<close>), for samples of type \<^verbatim>\<open>int\<close>. What a macro prints is a list of cells.
  Arrays that \<^verbatim>\<open>malloc\<close> may have refused are optional. Floating-point arithmetic is a parameter:
  conversion, division, addition and the rounded quotient are fields of \<open>floats\<close>, with no laws. An
  access outside of an array or through a null pointer and an overflow of signed numbers give
  \<open>None\<close>. The averages of \<^verbatim>\<open>average.h\<close> are floating point throughout and left out.
\<close>

section \<open>Output\<close>

datatype 'f cell = Label string | Column | Row | Uint Huint | SInt Hint | Ulong "64 word" | Double 'f

record 'f floats =
  to_double :: "Hint \<Rightarrow> 'f"
  fdiv_int :: "'f \<Rightarrow> Hint \<Rightarrow> 'f"
  fadd :: "'f \<Rightarrow> 'f \<Rightarrow> 'f"
  floor_quot :: "'f \<Rightarrow> 'f \<Rightarrow> Hint"

section \<open>The buffering store (buffer.h)\<close>

record hprofile_buff =
  buff_loc :: Huint
  buff_size :: Huint
  buff_buffer :: "Hint list option"
  buff_tags :: "Huint list option"

text \<open>The two arrays come from \<^verbatim>\<open>malloc\<close>; the result is true when one of them was refused.\<close>

definition hprofile_interp_buffer_create ::
  "Hint list option \<Rightarrow> Huint list option \<Rightarrow> Huint \<Rightarrow> bool \<times> hprofile_buff" where
  "hprofile_interp_buffer_create p q num =
     (p = None \<or> q = None, \<lparr>buff_loc = 0, buff_size = num, buff_buffer = p, buff_tags = q\<rparr>)"

definition put :: "'a list option \<Rightarrow> Huint \<Rightarrow> 'a \<Rightarrow> 'a list option" where
  "put p i v =
     (case p of None \<Rightarrow> None
      | Some xs \<Rightarrow> if unat i < length xs then Some (xs[unat i := v]) else None)"

definition hprofile_interp_buffer :: "Huint \<Rightarrow> Hint \<Rightarrow> hprofile_buff \<Rightarrow> (Hint \<times> hprofile_buff) option" where
  "hprofile_interp_buffer tag sample b =
     (if buff_loc b < buff_size b then
        (case (put (buff_buffer b) (buff_loc b) sample, put (buff_tags b) (buff_loc b) tag) of
           (Some xs, Some ts) \<Rightarrow>
             Some (SUCCESS, b\<lparr>buff_buffer := Some xs, buff_tags := Some ts, buff_loc := buff_loc b + 1\<rparr>)
         | _ \<Rightarrow> None)
      else Some (ENOMEM, b))"

definition hprofile_interp_bufferout :: "hprofile_buff \<Rightarrow> ('f cell list \<times> hprofile_buff) option" where
  "hprofile_interp_bufferout b =
     (let n = unat (buff_loc b) in
      case (buff_tags b, buff_buffer b) of
        (Some ts, Some xs) \<Rightarrow>
          if n \<le> length ts \<and> n \<le> length xs then
            Some ([Label ''Tag'', Column, Label ''Data'', Row] @
                  concat (map (\<lambda>i. [Uint (ts ! i), Column, SInt (xs ! i), Row]) [0..<n]),
                  b\<lparr>buff_loc := 0\<rparr>)
          else None
      | _ \<Rightarrow> if n = 0 then Some ([Label ''Tag'', Column, Label ''Data'', Row], b\<lparr>buff_loc := 0\<rparr>) else None)"

section \<open>The histogram (histogram.h)\<close>

record hprofile_hist =
  hist_bins :: Hint
  hist_samples :: "64 word"
  hist_min :: Hint
  hist_max :: Hint
  hist_smin :: Hint
  hist_smax :: Hint
  hist_data :: "64 word list option"

text \<open>Differences and sums of signed integers; an overflow is undefined.\<close>

definition sub_int :: "Hint \<Rightarrow> Hint \<Rightarrow> Hint option" where
  "sub_int a b = (if - (2 ^ 31) \<le> sint a - sint b \<and> sint a - sint b < 2 ^ 31 then Some (a - b) else None)"

definition add_int :: "Hint \<Rightarrow> Hint \<Rightarrow> Hint option" where
  "add_int a b = (if - (2 ^ 31) \<le> sint a + sint b \<and> sint a + sint b < 2 ^ 31 then Some (a + b) else None)"

text \<open>
  \<open>p\<close> is what \<^verbatim>\<open>malloc\<close> returns: nothing, or a block with some content. The size \<^verbatim>\<open>(b+2)*sizeof(Hulong)\<close>
  is an unsigned product of 32 bits, which wraps around; clearing \<^verbatim>\<open>b+2\<close> bins of a smaller block
  is an access outside of it.
\<close>

definition hprofile_interp_hist_create ::
  "(nat \<Rightarrow> 64 word) option \<Rightarrow> Hint \<Rightarrow> Hint \<Rightarrow> Hint \<Rightarrow> Hint \<Rightarrow> Hint \<Rightarrow> (bool \<times> hprofile_hist) option" where
  "hprofile_interp_hist_create p m x b sm sx =
     (let h = \<lparr>hist_bins = b, hist_samples = 0, hist_min = m, hist_max = x, hist_smin = sm, hist_smax = sx,
               hist_data = None\<rparr>
      in case add_int b 2 of
           None \<Rightarrow> None
         | Some n \<Rightarrow>
             (case p of
                None \<Rightarrow> Some (True, h)
              | Some fresh \<Rightarrow>
                  (let cells = unat (n * 8) div 8 in
                   if int cells < sint n then None
                   else Some (False, h\<lparr>hist_data := Some (replicate (nat (sint n)) 0 @ map fresh [nat (sint n)..<cells])\<rparr>))))"

text \<open>The number of the bin before and after it is limited to the array.\<close>

definition hist_bin :: "'f floats \<Rightarrow> hprofile_hist \<Rightarrow> Hint \<Rightarrow> Hint option" where
  "hist_bin F h sample =
     (case (sub_int (hist_max h) (hist_min h), sub_int sample (hist_min h)) of
        (Some width, Some temp) \<Rightarrow>
          add_int (floor_quot F (to_double F temp) (fdiv_int F (to_double F width) (hist_bins h))) 1
      | _ \<Rightarrow> None)"

definition cap_bin :: "hprofile_hist \<Rightarrow> Hint \<Rightarrow> Hint option" where
  "cap_bin h bin =
     (let bin = (if sint bin < 0 then 0 else bin) in
      case add_int (hist_bins h) 1 of
        None \<Rightarrow> None
      | Some last_bin \<Rightarrow> Some (if sint bin > sint last_bin then last_bin else bin))"

definition hprofile_interp_hist :: "'f floats \<Rightarrow> Hint \<Rightarrow> hprofile_hist \<Rightarrow> hprofile_hist option" where
  "hprofile_interp_hist F sample h =
     (let h = (if sint sample < sint (hist_smin h) then h\<lparr>hist_smin := sample\<rparr> else h);
          h = (if sint sample > sint (hist_smax h) then h\<lparr>hist_smax := sample\<rparr> else h)
      in case hist_bin F h sample of
           None \<Rightarrow> None
         | Some b \<Rightarrow>
             (case (cap_bin h b, hist_data h) of
                (Some bin, Some d) \<Rightarrow>
                  if 0 \<le> sint bin \<and> nat (sint bin) < length d then
                    Some (h\<lparr>hist_data := Some (d[nat (sint bin) := d ! nat (sint bin) + 1]),
                            hist_samples := hist_samples h + 1\<rparr>)
                  else None
              | _ \<Rightarrow> None))"

text \<open>The rows between the first and the last: \<open>i\<close> is the bin, \<open>cur\<close> its lower bound.\<close>

primrec hist_rows :: "nat \<Rightarrow> 'f floats \<Rightarrow> 'f \<Rightarrow> 'f \<Rightarrow> nat \<Rightarrow> 64 word list \<Rightarrow> 'f cell list \<times> 64 word list" where
  "hist_rows 0 F del cur i d = ([], d)"
| "hist_rows (Suc n) F del cur i d =
     (case hist_rows n F del (fadd F cur del) (i + 1) (d[i := 0]) of
        (out, d') \<Rightarrow>
          ([Double cur, Column, Double (fadd F cur del), Column, Ulong (d ! i), Row] @ out, d'))"

definition hprofile_interp_histout :: "'f floats \<Rightarrow> hprofile_hist \<Rightarrow> ('f cell list \<times> hprofile_hist) option" where
  "hprofile_interp_histout F h =
     (case (hist_data h, sub_int (hist_max h) (hist_min h)) of
        (Some d, Some tmp) \<Rightarrow>
          if 0 \<le> sint (hist_bins h) \<and> length d = nat (sint (hist_bins h)) + 2 then
            (let n = nat (sint (hist_bins h));
                 lo = to_double F (hist_min h);
                 (rows, d') = hist_rows n F (fdiv_int F (to_double F tmp) (hist_bins h)) lo 1 d
             in Some ([Label ''Low'', Column, Label ''High'', Column, Label ''Value'', Row,
                       Column, Double lo, Column, Ulong (d ! 0), Row] @ rows @
                      [Double (to_double F (hist_max h)), Column, Column, Ulong (d' ! (n + 1)), Row],
                      h\<lparr>hist_data := Some d', hist_samples := 0\<rparr>))
          else None
      | _ \<Rightarrow> None)"

section \<open>The sum (sum.h)\<close>

record hprofile_sum =
  sum_init :: Hint
  sum_value :: Hint
  sum_samples :: "64 word"

definition hprofile_interp_sum_create :: "Hint \<Rightarrow> hprofile_sum" where
  "hprofile_interp_sum_create n = \<lparr>sum_init = n, sum_value = n, sum_samples = 0\<rparr>"

definition hprofile_interp_sum_close :: "hprofile_sum \<Rightarrow> Hint \<times> hprofile_sum" where
  "hprofile_interp_sum_close s = (SUCCESS, s\<lparr>sum_value := sum_init s, sum_samples := 0\<rparr>)"

definition hprofile_interp_sum :: "Hint \<Rightarrow> hprofile_sum \<Rightarrow> hprofile_sum option" where
  "hprofile_interp_sum sample s =
     map_option (\<lambda>v. s\<lparr>sum_value := v, sum_samples := sum_samples s + 1\<rparr>) (add_int (sum_value s) sample)"

definition hprofile_interp_sumout :: "hprofile_sum \<Rightarrow> 'f cell list \<times> hprofile_sum" where
  "hprofile_interp_sumout s =
     ([Label ''Sum'', Column, Label ''Samples'', Row, SInt (sum_value s), Column, Ulong (sum_samples s), Row],
      s\<lparr>sum_value := sum_init s, sum_samples := 0\<rparr>)"

section \<open>The buffer keeps the first samples\<close>

fun buffer_all :: "(Huint \<times> Hint) list \<Rightarrow> hprofile_buff \<Rightarrow> (Hint list \<times> hprofile_buff) option" where
  "buffer_all [] b = Some ([], b)"
| "buffer_all ((t, x) # xs) b =
     (case hprofile_interp_buffer t x b of
        None \<Rightarrow> None
      | Some (r, b1) \<Rightarrow> map_option (\<lambda>(rs, b2). (r # rs, b2)) (buffer_all xs b1))"

definition buff_ok :: "hprofile_buff \<Rightarrow> bool" where
  "buff_ok b \<longleftrightarrow> buff_loc b \<le> buff_size b \<and>
     (case (buff_buffer b, buff_tags b) of
        (Some xs, Some ts) \<Rightarrow> length xs = unat (buff_size b) \<and> length ts = unat (buff_size b)
      | _ \<Rightarrow> False)"

definition stored :: "hprofile_buff \<Rightarrow> (Huint \<times> Hint) list" where
  "stored b =
     (case (buff_buffer b, buff_tags b) of
        (Some xs, Some ts) \<Rightarrow> take (unat (buff_loc b)) (zip ts xs) | _ \<Rightarrow> [])"

lemma buffer_capture:
  assumes "buff_ok b"
  shows "\<exists>b'. hprofile_interp_buffer t x b =
      Some (if length (stored b) < unat (buff_size b) then SUCCESS else ENOMEM, b') \<and>
    buff_ok b' \<and> buff_size b' = buff_size b \<and>
    stored b' = (if length (stored b) < unat (buff_size b) then stored b @ [(t, x)] else stored b)"
proof -
  obtain xs ts where a: "buff_buffer b = Some xs" "buff_tags b = Some ts"
      "length xs = unat (buff_size b)" "length ts = unat (buff_size b)" "buff_loc b \<le> buff_size b"
    using assms by (auto simp: buff_ok_def split: option.splits)
  have len: "length (stored b) = unat (buff_loc b)" using a by (simp add: stored_def word_le_nat_alt)
  show ?thesis
  proof (cases "buff_loc b < buff_size b")
    case True
    then have lt: "unat (buff_loc b) < unat (buff_size b)" by (simp add: word_less_nat_alt)
    then have "unat (buff_loc b + 1) = Suc (unat (buff_loc b))"
      using unat_bound [of "buff_size b"] by (simp add: unat_word_ariths)
    then show ?thesis using a len lt True
      by (auto simp: hprofile_interp_buffer_def put_def buff_ok_def stored_def word_le_nat_alt
          take_Suc_conv_app_nth take_zip)
  next
    case False
    then have "\<not> length (stored b) < unat (buff_size b)" using len by (simp add: word_less_nat_alt)
    then show ?thesis using assms False by (simp add: hprofile_interp_buffer_def)
  qed
qed

lemma buffer_keeps_first:
  assumes "buff_ok b"
  shows "\<exists>rs b'. buffer_all xs b = Some (rs, b') \<and> buff_ok b' \<and> buff_size b' = buff_size b \<and>
    stored b' = take (unat (buff_size b)) (stored b @ xs) \<and>
    (\<forall>i < length xs. rs ! i = (if length (stored b) + i < unat (buff_size b) then SUCCESS else ENOMEM)) \<and>
    length rs = length xs"
  using assms
proof (induction xs arbitrary: b)
  case Nil
  then have "length (stored b) \<le> unat (buff_size b)"
    by (auto simp: buff_ok_def stored_def word_le_nat_alt split: option.splits)
  then show ?case using Nil by simp
next
  case (Cons p xs)
  obtain t x where p: "p = (t, x)" by fastforce
  let ?room = "length (stored b) < unat (buff_size b)"
  from buffer_capture [OF Cons.prems] obtain b1 where b1:
      "hprofile_interp_buffer t x b = Some (if ?room then SUCCESS else ENOMEM, b1)"
      "buff_ok b1" "buff_size b1 = buff_size b" "stored b1 = (if ?room then stored b @ [(t, x)] else stored b)"
    by blast
  from Cons.IH [OF b1(2)] obtain rs b2 where b2: "buffer_all xs b1 = Some (rs, b2)" "buff_ok b2"
      "buff_size b2 = buff_size b" "stored b2 = take (unat (buff_size b)) (stored b1 @ xs)" "length rs = length xs"
      "\<forall>i < length xs. rs ! i = (if length (stored b1) + i < unat (buff_size b) then SUCCESS else ENOMEM)"
    unfolding b1(3) by blast
  have "buffer_all (p # xs) b = Some ((if ?room then SUCCESS else ENOMEM) # rs, b2)"
    using b1(1) b2(1) by (simp add: p)
  moreover have "stored b2 = take (unat (buff_size b)) (stored b @ p # xs)" 
    using b1(4) b2(4) by (auto simp: p take_Cons')
  moreover have "((if ?room then SUCCESS else ENOMEM) # rs) ! i =
      (if length (stored b) + i < unat (buff_size b) then SUCCESS else ENOMEM)" if "i < length (p # xs)" for i
    using that b1(4) b2(6) by (cases i) auto
  ultimately show ?case using b2(2,3,5) by simp
qed

lemma buffer_flush:
  assumes "buff_ok b"
  shows "\<exists>b'. hprofile_interp_bufferout b =
      Some ([Label ''Tag'', Column, Label ''Data'', Row] @
            concat (map (\<lambda>(t, x). [Uint t, Column, SInt x, Row]) (stored b)), b') \<and>
    buff_ok b' \<and> stored b' = []"
proof -
  obtain xs ts where a: "buff_buffer b = Some xs" "buff_tags b = Some ts"
      "length xs = unat (buff_size b)" "length ts = unat (buff_size b)" "buff_loc b \<le> buff_size b"
    using assms by (auto simp: buff_ok_def split: option.splits)
  then have "stored b = map (\<lambda>i. (ts ! i, xs ! i)) [0..<unat (buff_loc b)]"
    by (intro nth_equalityI) (simp_all add: stored_def word_le_nat_alt)
  then show ?thesis using a
    by (simp add: hprofile_interp_bufferout_def buff_ok_def stored_def word_le_nat_alt comp_def)
qed

section \<open>The histogram counts every sample\<close>

definition hist_ok :: "hprofile_hist \<Rightarrow> 64 word list \<Rightarrow> bool" where
  "hist_ok h d \<longleftrightarrow> hist_data h = Some d \<and> 0 \<le> sint (hist_bins h) \<and> sint (hist_bins h) < 2 ^ 31 - 2 \<and>
     length d = nat (sint (hist_bins h)) + 2"

text \<open>The position that a bin number is limited to.\<close>

definition position :: "Hint \<Rightarrow> Hint \<Rightarrow> nat" where
  "position bins bin = (if sint bin < 0 then 0 else min (nat (sint bin)) (nat (sint bins) + 1))"

lemma cap_bin_position:
  assumes "0 \<le> sint (hist_bins h)" "sint (hist_bins h) < 2 ^ 31 - 2"
  shows "\<exists>bin. cap_bin h b = Some bin \<and> sint bin = int (position (hist_bins h) b)"
proof -
  have "sint (hist_bins h + 1) = sint (hist_bins h) + 1"
    using assms by (simp add: sint_word_ariths signed_take_bit_int_eq_self)
  then show ?thesis using assms by (auto simp: cap_bin_def add_int_def position_def Let_def)
qed

fun hist_all :: "'f floats \<Rightarrow> Hint list \<Rightarrow> hprofile_hist \<Rightarrow> hprofile_hist option" where
  "hist_all F [] h = Some h"
| "hist_all F (x # xs) h = (case hprofile_interp_hist F x h of None \<Rightarrow> None | Some h' \<Rightarrow> hist_all F xs h')"

lemma hist_bin_cong:
  "hist_bins h' = hist_bins h \<Longrightarrow> hist_min h' = hist_min h \<Longrightarrow> hist_max h' = hist_max h \<Longrightarrow>
   hist_bin F h' x = hist_bin F h x"
  by (simp add: hist_bin_def cong: option.case_cong)

lemma hist_capture:
  assumes ok: "hist_ok h d" and bin: "hist_bin F h x = Some b"
  shows "\<exists>h'. hprofile_interp_hist F x h = Some h' \<and>
    hist_ok h' (d[position (hist_bins h) b := d ! position (hist_bins h) b + 1]) \<and>
    hist_samples h' = hist_samples h + 1 \<and> hist_bins h' = hist_bins h \<and> hist_min h' = hist_min h \<and>
    hist_max h' = hist_max h"
proof -
  define h1 where "h1 = (if sint x < sint (hist_smin h) then h\<lparr>hist_smin := x\<rparr> else h)"
  define h2 where "h2 = (if sint x > sint (hist_smax h1) then h1\<lparr>hist_smax := x\<rparr> else h1)"
  have same: "hist_bins h2 = hist_bins h" "hist_min h2 = hist_min h" "hist_max h2 = hist_max h"
      "hist_data h2 = hist_data h" "hist_samples h2 = hist_samples h"
    by (simp_all add: h1_def h2_def)
  have "hist_bin F h2 x = Some b" using bin hist_bin_cong [OF same(1-3), of F x] by simp
  moreover obtain c where "cap_bin h2 b = Some c" "sint c = int (position (hist_bins h) b)"
    using cap_bin_position [of h2 b] ok by (auto simp: hist_ok_def same)
  moreover have "position (hist_bins h) b < length d" using ok by (auto simp: hist_ok_def position_def)
  ultimately have "hprofile_interp_hist F x h =
      Some (h2\<lparr>hist_data := Some (d[position (hist_bins h) b := d ! position (hist_bins h) b + 1]),
               hist_samples := hist_samples h2 + 1\<rparr>)"
    using ok unfolding hprofile_interp_hist_def Let_def h1_def [symmetric] h2_def [symmetric]
    by (simp add: hist_ok_def same)
  then show ?thesis using ok by (simp add: hist_ok_def same)
qed

definition count_at :: "('a \<Rightarrow> nat) \<Rightarrow> 'a list \<Rightarrow> nat \<Rightarrow> 64 word" where
  "count_at f xs i = of_nat (length (filter (\<lambda>x. f x = i) xs))"

lemma hist_all_counts:
  assumes "hist_ok h d" "\<forall>x \<in> set xs. hist_bin F h x = Some (bin x)"
  shows "\<exists>h' d'. hist_all F xs h = Some h' \<and> hist_ok h' d' \<and> length d' = length d \<and>
    (\<forall>i < length d. d' ! i = d ! i + count_at (\<lambda>x. position (hist_bins h) (bin x)) xs i) \<and>
    hist_samples h' = hist_samples h + of_nat (length xs)"
  using assms
proof (induction xs arbitrary: h d)
  case Nil
  then show ?case by (auto simp: count_at_def)
next
  case (Cons x xs)
  let ?k = "position (hist_bins h) (bin x)"
  from hist_capture [OF Cons.prems(1), of F x "bin x"] Cons.prems(2) obtain h1 where h1:
      "hprofile_interp_hist F x h = Some h1" "hist_ok h1 (d[?k := d ! ?k + 1])"
      "hist_samples h1 = hist_samples h + 1" "hist_bins h1 = hist_bins h" "hist_min h1 = hist_min h"
      "hist_max h1 = hist_max h" by auto
  have "\<forall>y \<in> set xs. hist_bin F h1 y = Some (bin y)"
    using Cons.prems(2) hist_bin_cong [OF h1(4-6), of F] by simp
  from Cons.IH [OF h1(2) this] obtain h' d' where IH: "hist_all F xs h1 = Some h'" "hist_ok h' d'"
      "length d' = length d"
      "\<forall>i < length d. d' ! i = d[?k := d ! ?k + 1] ! i + count_at (\<lambda>x. position (hist_bins h) (bin x)) xs i"
      "hist_samples h' = hist_samples h1 + of_nat (length xs)"
    unfolding h1(4) by auto
  have "d' ! i = d ! i + count_at (\<lambda>x. position (hist_bins h) (bin x)) (x # xs) i" if "i < length d" for i
    using IH(4) that by (simp add: count_at_def nth_list_update)
  moreover have "hist_all F (x # xs) h = Some h'" "hist_samples h' = hist_samples h + of_nat (length (x # xs))"
    using h1(1,3) IH(1,5) by simp_all
  ultimately show ?case using IH(2,3) by blast
qed

lemma hist_create_cells:
  assumes "0 \<le> sint b" "sint b < 2 ^ 29 - 2"
  shows "hprofile_interp_hist_create (Some fresh) m x b sm sx =
    Some (False, \<lparr>hist_bins = b, hist_samples = 0, hist_min = m, hist_max = x, hist_smin = sm, hist_smax = sx,
      hist_data = Some (replicate (nat (sint b) + 2) 0)\<rparr>)"
proof -
  have s: "sint (b + 2) = sint b + 2" using assms by (simp add: sint_word_ariths signed_take_bit_int_eq_self)
  then have a: "add_int b 2 = Some (b + 2)" using assms by (simp add: add_int_def)
  define k where "k = nat (sint b)"
  have "b = of_int (int k)" using assms(1) by (simp add: k_def)
  then have "(b + 2) * 8 = of_nat ((k + 2) * 8)" by simp
  moreover have "(k + 2) * 8 < 2 ^ 32" using assms by (simp add: k_def)
  ultimately have "unat ((b + 2) * 8) = (k + 2) * 8" by (simp only: unat_of_nat) simp
  then have "unat ((b + 2) * 8) div 8 = nat (sint b) + 2" by (simp add: k_def)
  then show ?thesis using a s assms(1) by (simp add: hprofile_interp_hist_create_def Let_def nat_add_distrib)
qed

text \<open>
  C38: A histogram with \<open>b\<close> inner bins, from 0 to \<open>2\<^sup>2\<^sup>9 - 3\<close>, for which \<^verbatim>\<open>malloc\<close> finds memory, is created with
  \<open>b + 2\<close> empty bins and counts every sample exactly once: whatever the floating-point unit computes, after
  samples for which none of the three integer operations (the two differences and adding 1 to the
  quotient) overflows, each bin holds the number of samples whose computed bin, limited to the first
  and the last one, it is, and the number of samples is their total. Counters have 64 bits and
  wrap around. With more bins the size of the memory wraps around (lemma \<open>hist_create_overflows\<close>).
\<close>

theorem histogram_counts:
  assumes "0 \<le> sint b" "sint b < 2 ^ 29 - 2"
  shows "\<exists>h. hprofile_interp_hist_create (Some fresh) m x b sm sx = Some (False, h) \<and>
    hist_data h = Some (replicate (nat (sint b) + 2) 0) \<and>
    ((\<forall>y \<in> set xs. hist_bin F h y = Some (bin y)) \<longrightarrow>
     (\<exists>h' d. hist_all F xs h = Some h' \<and> hist_data h' = Some d \<and> length d = nat (sint b) + 2 \<and>
       (\<forall>i < nat (sint b) + 2. d ! i = of_nat (length (filter (\<lambda>y. position b (bin y) = i) xs))) \<and>
       (\<forall>y \<in> set xs. position b (bin y) < nat (sint b) + 2) \<and> hist_samples h' = of_nat (length xs)))"
proof -
  let ?n = "nat (sint b) + 2"
  obtain h where c: "hprofile_interp_hist_create (Some fresh) m x b sm sx = Some (False, h)"
      and h: "hist_ok h (replicate ?n 0)" "hist_bins h = b" "hist_samples h = 0"
    using hist_create_cells [OF assms, of fresh m x sm sx] assms by (auto simp: hist_ok_def)
  have "\<exists>h' d. hist_all F xs h = Some h' \<and> hist_data h' = Some d \<and> length d = ?n \<and>
      (\<forall>i < ?n. d ! i = of_nat (length (filter (\<lambda>y. position b (bin y) = i) xs))) \<and>
      (\<forall>y \<in> set xs. position b (bin y) < ?n) \<and> hist_samples h' = of_nat (length xs)"
    if "\<forall>y \<in> set xs. hist_bin F h y = Some (bin y)"
  proof -
    from hist_all_counts [OF h(1) that] obtain h' d' where r: "hist_all F xs h = Some h'" "hist_ok h' d'"
        "length d' = ?n" "hist_samples h' = of_nat (length xs)"
        "\<forall>i < ?n. d' ! i = replicate ?n 0 ! i + count_at (\<lambda>x. position b (bin x)) xs i"
      unfolding h(2,3) length_replicate by auto
    have "d' ! i = of_nat (length (filter (\<lambda>y. position b (bin y) = i) xs))" if "i < ?n" for i
      using r(5) that nth_replicate [OF that, of "0 :: 64 word"] by (simp only: count_at_def add_0 simp_thms)
    moreover have "position b c < ?n" for c by (auto simp: position_def)
    ultimately show ?thesis using r(1-4) by (auto simp: hist_ok_def)
  qed
  then show ?thesis using c h(1) by (auto simp: hist_ok_def)
qed

text \<open>\<open>2\<^sup>2\<^sup>9\<close> bins: the block has two cells, and clearing the bins writes behind it.\<close>

lemma hist_create_overflows: "hprofile_interp_hist_create (Some fresh) m x 0x20000000 sm sx = None"
proof -
  have "add_int 0x20000000 2 = Some 0x20000002" by (code_simp)
  then show ?thesis by (simp add: hprofile_interp_hist_create_def)
qed

text \<open>Ten bins from 0 to 100 with exact integer division; one sample below and two above the range.\<close>

definition example_floats :: "int floats" where
  "example_floats = \<lparr>to_double = sint, fdiv_int = (\<lambda>a n. a div sint n), fadd = (+),
     floor_quot = (\<lambda>a b. of_int (a div b))\<rparr>"

definition example_hist :: hprofile_hist where
  "example_hist = \<lparr>hist_bins = 10, hist_samples = 0, hist_min = 0, hist_max = 100, hist_smin = 0x7FFFFFFF,
     hist_smax = 0x80000000, hist_data = Some (replicate 12 0)\<rparr>"

definition example_bin :: "Hint \<Rightarrow> Hint" where
  "example_bin y = of_int (sint y div 10) + 1"

theorem histogram_counts_witness:
  "\<exists>h' d. hprofile_interp_hist_create (Some (\<lambda>_. 99)) 0 100 10 0x7FFFFFFF 0x80000000 = Some (False, example_hist) \<and>
     hist_all example_floats [-5, 3, 7, 42, 100, 1000] example_hist = Some h' \<and> hist_data h' = Some d \<and>
     d ! 0 = 1 \<and> d ! 1 = 2 \<and> d ! 5 = 1 \<and> d ! 11 = 2 \<and> hist_samples h' = 6"
proof -
  have bin: "\<forall>y \<in> set [-5, 3, 7, 42, 100, 1000]. hist_bin example_floats example_hist y = Some (example_bin y)"
    by (code_simp)
  have b: "0 \<le> sint (10 :: Hint)" "sint (10 :: Hint) < 2 ^ 29 - 2" by simp_all
  have c: "hprofile_interp_hist_create (Some (\<lambda>_. 99)) 0 100 10 0x7FFFFFFF 0x80000000 = Some (False, example_hist)"
    using hist_create_cells [OF b] by (simp add: example_hist_def)
  from histogram_counts [OF b, of "\<lambda>_. 99" 0 100 "0x7FFFFFFF" "0x80000000" "[-5, 3, 7, 42, 100, 1000]" example_floats example_bin]
    bin c
  obtain h' d where r: "hist_all example_floats [-5, 3, 7, 42, 100, 1000] example_hist = Some h'" "hist_data h' = Some d"
      "\<forall>i < 12. d ! i = of_nat (length (filter (\<lambda>y. position 10 (example_bin y) = i) [-5, 3, 7, 42, 100, 1000]))"
      "hist_samples h' = 6"
    by auto
  have "length (filter (\<lambda>y. position 10 (example_bin y) = 0) [-5, 3, 7, 42, 100, 1000]) = 1"
    "length (filter (\<lambda>y. position 10 (example_bin y) = 1) [-5, 3, 7, 42, 100, 1000]) = 2"
    "length (filter (\<lambda>y. position 10 (example_bin y) = 5) [-5, 3, 7, 42, 100, 1000]) = 1"
    "length (filter (\<lambda>y. position 10 (example_bin y) = 11) [-5, 3, 7, 42, 100, 1000]) = 2"
    by code_simp+
  then show ?thesis using r c by simp
qed

text \<open>
  Printing a histogram clears the inner bins and the number of samples, but not the first and the
  last bin: samples outside the range are counted again in the next report.
\<close>

lemma hist_rows_clears:
  "i + n \<le> length d \<Longrightarrow> snd (hist_rows n F del cur i d) = take i d @ replicate n 0 @ drop (i + n) d"
proof (induction n arbitrary: cur i d)
  case (Suc n)
  then have "snd (hist_rows n F del (fadd F cur del) (i + 1) (d[i := 0])) =
      take (i + 1) (d[i := 0]) @ replicate n 0 @ drop (i + 1 + n) (d[i := 0])" by simp
  moreover have "take (i + 1) (d[i := 0]) = take i d @ [0]" using Suc.prems by (simp add: take_Suc_conv_app_nth)
  ultimately show ?case by (simp add: split_def)
qed simp

lemma report_keeps_outer_bins:
  assumes "hist_ok h d" "hprofile_interp_histout F h = Some (out, h')"
  shows "hist_samples h' = 0" "hist_data h' = Some (d ! 0 # replicate (nat (sint (hist_bins h))) 0 @ [last d])"
proof -
  let ?n = "nat (sint (hist_bins h))"
  have d: "hist_data h = Some d" "length d = ?n + 2" using assms(1) by (simp_all add: hist_ok_def)
  then show "hist_samples h' = 0"
    using assms by (auto simp: hprofile_interp_histout_def hist_ok_def Let_def split: option.splits prod.splits)
  obtain w where w: "hist_data h' = Some (snd (hist_rows ?n F w (to_double F (hist_min h)) 1 d))"
    using assms d by (auto simp: hprofile_interp_histout_def hist_ok_def Let_def split_def split: option.splits)
  have "take 1 d = [d ! 0]" using d by (simp add: take_Suc_conv_app_nth)
  moreover have "drop (1 + ?n) d = [last d]"
    using d last_conv_nth [of d] by (cases "d = []") (auto intro!: nth_equalityI)
  ultimately show "hist_data h' = Some (d ! 0 # replicate ?n 0 @ [last d])"
    using w d by (simp add: hist_rows_clears)
qed

end
