(* ===== verification/Spec2Isabelle.thy ===== *)
theory Spec2Isabelle
  imports User_API Storage_Limits Accel_Sort Accel_Math Ps2_Keyboard Console Device_List Ethlite
    Offload Slave_Kernel Polymorphic Clock Vga Gpio Profile
begin

text \<open>
  \<^bold>\<open>Hthreads\<close> is an operating system for processors on an FPGA. Its thread manager, its scheduler,
  its mutexes and its condition variables are hardware cores with a register interface; the
  kernel, a thin layer of C, sends them commands and switches contexts. Around the kernel there
  are a user library in the style of POSIX threads, drivers, a FAT16 file system on a
  CompactFlash card, a C library with a console, and routines that exist in software and as
  accelerators. Further processors of the board, the slaves, run single threads that the host hands
  to them. All paths below are relative to \<^verbatim>\<open>src\<close>; \<^verbatim>\<open>software\<close> abbreviates \<^verbatim>\<open>src/software\<close>.

  \<^bold>\<open>How the parts interact.\<close> A program calls the user library (\<^verbatim>\<open>software/user\<close>), which checks
  attributes and traps into the dispatcher of the kernel (\<^verbatim>\<open>software/system/mblaze/syscall.c\<close>).
  A system call reads and writes the command addresses of the cores through the inline functions
  of \<^verbatim>\<open>include/hthread/*/hardware.h\<close>. The thread manager forwards ready threads to the scheduler;
  the mutex and condition variable cores send woken threads to the thread manager. The kernel
  asks the thread manager for the next thread and switches to it. The file system calls
  \<^verbatim>\<open>block->read\<close>, which is the block cache over the sector commands of the CompactFlash controller.
  For a thread on a slave, the dispatcher (\<^verbatim>\<open>compiler/common/table_code_template.c\<close>) picks a slave
  and creates the thread with the address of the slave's interface, a block of words in shared
  memory (the V-HWTI); the kernel fills it in, and the scheduler core writes the go command into it
  when the thread is started. The slave's nanokernel polls that word, runs the function, stores
  the result in the thread control block of the host, tells the thread manager that the thread has
  exited and marks itself as free; the host's join then returns the result.

  \<^bold>\<open>Theories, from the bottom.\<close>
    \<^item> \<open>Hthreads_Prelude\<close>: machine types, status values, rewrite collections, chains of links and bit
      fields. \<open>Wait_Queues\<close>: the locale \<open>wait_queues\<close>, the contract of a bank of FIFO queues;
      interpreted by \<open>Scheduler\<close> (\<open>ready\<close>), \<open>Sync_Manager\<close> (\<open>mutex_bank\<close>) and \<open>Cond_Vars\<close> (\<open>cv_bank\<close>).
    \<^item> \<open>Scheduler\<close>, \<open>Thread_Manager\<close>, \<open>Sync_Manager\<close>, \<open>Cond_Vars\<close>: the cores of
      \<^verbatim>\<open>src/hardware/MyRepository/pcores/axi_hthread_cores\<close>. The state of a core is a record of its
      memories and registers; every request is one function from the idle state back to it.
    \<^item> \<open>Machine\<close>: address encodings and decodings, and the inline functions the kernel calls.
    \<^item> \<open>Kernel\<close>: thread setup, contexts, scheduling, every system call, interrupts, start-up
      (\<^verbatim>\<open>software/system/mblaze\<close>, \<^verbatim>\<open>software/system/synch.c\<close>, \<^verbatim>\<open>src/archs/mblaze/src\<close>).
      \<open>Kernel_Laws\<close> and \<open>Kernel_Boot\<close> hold what the calls promise and what the start establishes.
    \<^item> \<open>User_API\<close>: \<^verbatim>\<open>software/user\<close>, down to the trap.
    \<^item> \<open>Block_Device\<close>: byte order, memory as bytes, and the locale \<open>block_device\<close>, what a client of
      \<^verbatim>\<open>include/drivers/block/block.h\<close> relies on; its lemmas make a device a plain array of sectors.
    \<^item> \<open>Sysace\<close>, \<open>Sysace_Card\<close>: the CompactFlash controller (\<^verbatim>\<open>sysace.c\<close>, \<^verbatim>\<open>cfg.c\<close>, \<^verbatim>\<open>cf.c\<close> under
      \<^verbatim>\<open>software/drivers/sysace\<close>) and what it guarantees on a chip with the laws \<open>chip_ok\<close>.
    \<^item> \<open>Block_Cache\<close>, \<open>Cached_Disk\<close>, \<open>Cached_Device\<close>, \<open>Cache_Flush\<close>: the write-back cache
      (\<^verbatim>\<open>block.c\<close>), its invariant, its refinement to a disk and the interpretation \<open>sysace_cache\<close> of
      \<open>block_device\<close>, flushing.
    \<^item> \<open>Fat16\<close>, \<open>Fat16_Dirs\<close>: \<^verbatim>\<open>software/fs/fat16\<close> over any \<^verbatim>\<open>block->read\<close>.
    \<^item> \<open>Storage\<close>, \<open>Storage_Limits\<close>: the file system on the cache on the card.
    \<^item> \<open>Accel_Sort\<close>, \<open>Accel_Math\<close>: \<^verbatim>\<open>sort.c\<close>, \<^verbatim>\<open>crc.c\<close>, \<^verbatim>\<open>vector.c\<close>, \<^verbatim>\<open>matrix.c\<close> of
      \<^verbatim>\<open>software/accelerators\<close>.
    \<^item> \<open>Ps2_Keyboard\<close>: \<^verbatim>\<open>software/drivers/ps2\<close>. \<open>Console\<close>: \<^verbatim>\<open>software/drivers/uartlite\<close> and the part
      of \<^verbatim>\<open>software/lib\<close> on top of it. \<open>Ethlite\<close>: \<^verbatim>\<open>software/drivers/ethlite/ethlite.c\<close>.
      \<open>Device_List\<close>: \<^verbatim>\<open>software/dev\<close>. \<open>Vga\<close>, \<open>Gpio\<close>: \<^verbatim>\<open>software/drivers/vga\<close> and \<^verbatim>\<open>gpio\<close>.
    \<^item> \<open>Clock\<close>: \<^verbatim>\<open>src/archs/mblaze/include/arch/htime.h\<close> and \<^verbatim>\<open>software/lib/times.c\<close>. \<open>Profile\<close>: the stores
      of \<^verbatim>\<open>include/profile/storage\<close> for integer samples.
    \<^item> \<open>Vhwti\<close>: the accessors of a slave's interface (\<^verbatim>\<open>include/hthread/hwti/hardware.h\<close>), with the locale
      \<open>register_file\<close>, the contract of a block of registers; its interpretation \<open>vhwti\<close> shows that
      the interface in the host's memory is one.
    \<^item> \<open>Dispatch\<close>, \<open>Dispatch_Laws\<close>, \<open>Dispatch_Tables\<close>: \<^verbatim>\<open>compiler/common/table_code_template.c\<close>,
      \<^verbatim>\<open>typedefs.c\<close> and \<^verbatim>\<open>software/accelerators/pr.c\<close> over the kernel and the user library; choosing a
      slave and creating threads; tables, queue and reconfiguration.
    \<^item> \<open>Slave\<close>, \<open>Slave_Laws\<close>: the nanokernel (\<^verbatim>\<open>src/platforms/xilinx/vivado_archgen/slave_src\<close>) and the use
      of accelerators (\<^verbatim>\<open>hal/src/software/accelerators\<close>). \<open>Slave_Kernel\<close>: the kernel of programs on a
      slave (\<^verbatim>\<open>hal/src/software/system/mblaze\<close>). \<open>Offload\<close>: host, kernel and slave together.
    \<^item> \<open>Accel_Cores\<close>: the accelerators (\<^verbatim>\<open>src/hardware/MyRepository/pcores/vivado_cores/hls_cores\<close>).
      \<open>Dma\<close>: the transfer engine (\<^verbatim>\<open>hal/src/software/drivers/dma/dma.c\<close>). \<open>Polymorphic\<close>: the functions that
      a slave runs on an accelerator or in software (\<^verbatim>\<open>crc_mblaze.c\<close>, \<^verbatim>\<open>sort_mblaze.c\<close>, \<^verbatim>\<open>vector_mblaze.c\<close>,
      \<^verbatim>\<open>matrix_mblaze.c\<close> of \<^verbatim>\<open>hal/src/software/accelerators\<close>).

  \<^bold>\<open>What is shown.\<close>
    \<^item> Cores: runs of the mutex core refine a bank of abstract mutexes (exclusion, handing over in
      arrival order, counting of recursive locks); the scheduler keeps its linked queues, its vector of
      priorities and the next thread consistent, and the next thread is a best ready one; the two-level
      encoder equals the least set bit; thread IDs are fresh as long as only
      threads in use exit; signal and broadcast wake in order.
    \<^item> Kernel: for scheduling, create, join, exit, unlock, condition wait and signal, the state of
      threads, queues and contexts after the call; joins return the exit value; the start-up code establishes the invariant; stacks are disjoint.
    \<^item> User library: attributes read back what was set; error checking mutexes detect relocking.
    \<^item> Heterogeneous threads: the dispatcher takes the first of the best free slaves in the order
      perfect, best, better, possible; a thread created on a slave is handed over completely, one turn of the slave
      runs it, and a join on the host returns its result and leaves the slave free; an unlock on
      the host resumes a slave that waits for the mutex; thread functions are found where they were
      entered; reconfiguration ends; an accelerator is used only when the interface of the slave named it as loaded
      or its reconfiguration has been reported as done;
      checksums, sorting, vectors and matrices have the same result on an accelerator and in software.
    \<^item> Storage: reading and writing through the cache is reading and writing a disk; every transfer
      ends; a flush leaves the content on the card; clusters are found where the format puts them;
      listing a directory yields its files with their long or short names.
    \<^item> Routines and drivers: quick sort and bubble sort sort, the checksum is the remainder of a
      polynomial division, vector and matrix results; key events give the characters on the keys;
      the console translates line ends and reads lines; blocks of the heap are disjoint; the Ethernet
      controller sends the frame it is given; drawing is invisible until the buffers are flipped;
      reading the clock is never torn; histograms count every sample once.
    \<^item> Limits of the code, each as a theorem: overflow of the recursion count, IDs lost by rejected
      creations and given twice after the exit of an unused thread, stacks above the slot size, priorities above 127, a queue damaged by changing
      priorities, errors taken for cache lines, wrong entries of the allocation table, the fourth
      partition, quick sort of large values, a line that fills its buffer, frames that are not aligned, device
      lists, a thread queue without a bound, requests of reconfiguration that are dropped, slaves that are free
      but never run again, joins refused to slaves, rows of the tuning table that end too early, reports and sizes of histograms, accelerators that do not answer
      an empty request, division by zero in an accelerator.

  \<^bold>\<open>Conventions.\<close> Machine integers are words of their width and wrap around. A C function returns its
  status next to the changed state; negative statuses are words. Functions that poll a device or
  walk a structure that may be cyclic are partial functions with an option result; \<open>None\<close> is a
  call that does not return or that C leaves undefined (an access outside of an object, following
  a null pointer, a division by zero). Theorems that a result exists are stated as such; there is
  no fuel. Loops with a counter are primitive recursive on the number of rounds.

  \<^bold>\<open>Parameters.\<close> Base addresses of the platform, results of \<^verbatim>\<open>malloc\<close>, the linker's addresses, and
  devices. A device is a pair of functions that read and write a register. What the driver
  relies on is a named predicate: \<open>chip_ok\<close> (CompactFlash controller), \<open>port_ok\<close> (PS/2), \<open>uart_ok\<close>
  (serial port), \<open>status_ok\<close> and \<open>buffer_ok\<close> (Ethernet transmitter), \<open>timer_ok\<close> (timer), \<open>cdma_ok\<close> (the vendor's library
  of the transfer engine) state the handshakes of the data sheets, with a bound on the time to the next
  answer; each is shown to hold of a concrete device in the witnesses. What the heterogeneous
  compiler generates (addresses of interfaces, profiles of thread functions, preferred slaves, table
  entries, build switches) is the record \<open>dispatch\<close>; what the rest of the system does while a
  processor polls is its field \<open>elsewhere\<close>, or \<open>around\<close> of a slave; the code of a thread on a slave is
  a function from the argument and the state to a result and a state. Floating-point comparisons
  and operations are functions without laws.

  \<^bold>\<open>Bounds in statements.\<close> 256 threads, 128 priorities, 64 mutexes and 256 condition variables are
  the sizes of the cores' tables. Quick sort needs values below \<open>2\<^sup>3\<^sup>1\<close> (the pivot is a wrapped sum),
  matrices have fewer than 128 rows and columns (counters of type \<^verbatim>\<open>char\<close>), the heap lies in the lower
  half of the address space, a read has room for one byte more than requested, pictures lie within the
  512 rows of 1024 points of a frame buffer, a histogram has fewer than \<open>2\<^sup>2\<^sup>9\<close> bins (the size of its array wraps around), a transfer of
  the card has 1 to 255 sectors (the count is masked), operands of an accelerator are at most the 4096 words of a block memory
  and lie below it (lists at most 4095, because of the tuning table). Queued threads change their priority at an end of their queue
  and to another one.

  \<^bold>\<open>Not modelled.\<close> The branches for several host processors (\<^verbatim>\<open>HTHREADS_SMP\<close>): they need a model of
  processors that run the kernel at once, while host and slaves only meet in shared words and
  in the cores. The ports to PowerPC and to POSIX threads: assembly and copies of the same kernel.
  \<^verbatim>\<open>sysace_cf_identify\<close>: it fills a structure whose layout is left to the compiler. \<^verbatim>\<open>init_tuning_table\<close>,
  averages and conversions of times: floating point. Drivers of the video decoder and of the large
  Ethernet controller: they call code of the vendor; LCD and LED are empty. The
  connection of the Ethernet driver to lwIP (\<^verbatim>\<open>netif.c\<close>). lwIP, ftjam, libnet and the copies of the user
  library and of drivers under \<^verbatim>\<open>hal\<close> are vendored or duplicated; platforms hold generated files; tests and
  examples are programs on top. Trace output is left out.
\<close>

end
